(* ===== verification/Prelude.thy ===== *)
theory Prelude
  imports Main "HOL-Library.Word"
begin

text \<open>
  Shared ground of the development: the machine types of the Go sources, the outcome of a
  Go call that may panic or (in the fuelled interpreter) run out of fuel, big-endian byte
  strings, and the lemmas on lists, words and maps that the component theories use.
\<close>

section \<open>Types\<close>

text \<open>
  A Go \<open>byte\<close> is an 8-bit word and \<open>uint64\<close> a 64-bit word, both with wrap-around
  arithmetic.  \<open>common.Hash\<close> (\<open>[32]byte\<close>) and \<open>common.Address\<close> (\<open>[20]byte\<close>) are
  represented by the number their bytes spell in big-endian order.  A byte slice is a list;
  where the source distinguishes a nil slice from an empty one, the model uses an option.
\<close>

type_synonym byte = "8 word"
type_synonym bytes = "8 word list"
type_synonym u64 = "64 word"
type_synonym u256 = "256 word"
type_synonym hash = "256 word"
type_synonym address = "160 word"
type_synonym gerror = string

text \<open>
  The outcome of a Go function: it returns, it panics, or the fuel of the model ran out.
\<close>

datatype 'a outcome = Ok 'a | Panic | NoFuel

primrec bnd :: "'a outcome \<Rightarrow> ('a \<Rightarrow> 'b outcome) \<Rightarrow> 'b outcome" where
  "bnd (Ok a) f = f a"
| "bnd Panic f = Panic"
| "bnd NoFuel f = NoFuel"

section \<open>Collections of facts\<close>

named_theorems outcome_simps \<open>rewriting of outcomes\<close>
named_theorems word_bounds \<open>bounds of machine words read as natural numbers\<close>

lemma bnd_Ok_iff [outcome_simps]: "bnd x f = Ok b \<longleftrightarrow> (\<exists>a. x = Ok a \<and> f a = Ok b)"
  by (cases x) auto

lemma bnd_assoc [outcome_simps]: "bnd (bnd x f) g = bnd x (\<lambda>a. bnd (f a) g)"
  by (cases x) auto

lemma bnd_NoFuel_iff [outcome_simps]:
  "bnd x f = NoFuel \<longleftrightarrow> x = NoFuel \<or> (\<exists>a. x = Ok a \<and> f a = NoFuel)"
  by (cases x) auto

lemma bnd_Panic_iff [outcome_simps]:
  "bnd x f = Panic \<longleftrightarrow> x = Panic \<or> (\<exists>a. x = Ok a \<and> f a = Panic)"
  by (cases x) auto

text \<open>A nil pointer panics where its value is read.\<close>

definition deref :: "'a option \<Rightarrow> 'a outcome" where
  "deref p = (case p of None \<Rightarrow> Panic | Some x \<Rightarrow> Ok x)"

lemma derefE:
  assumes "bnd (deref p) f = Ok y"
  obtains x where "p = Some x" "f x = Ok y"
  using assms by (cases p) (simp_all add: deref_def)

section \<open>Words\<close>

lemma unat_u64_bound [word_bounds]: "unat (x :: u64) < 18446744073709551616"
  using unsigned_less [of x, where ?'a = nat] by simp

lemma unat_byte_bound [word_bounds]: "unat (x :: byte) < 256"
  using unsigned_less [of x, where ?'a = nat] by simp

lemma unat_u64_le_max: "unat (x :: u64) \<le> 18446744073709551615"
  using unat_u64_bound [of x] by simp

text \<open>Addition and multiplication that do not wrap around.\<close>

lemma unat_add_u64: "unat a + unat b < 18446744073709551616 \<Longrightarrow> unat (a + b :: u64) = unat a + unat b"
  by (simp add: unat_word_ariths)

lemma unat_mult_u64: "unat a * unat b < 18446744073709551616 \<Longrightarrow> unat (a * b :: u64) = unat a * unat b"
  by (simp add: unat_word_ariths)

lemma unat_sub_le: "b \<le> a \<Longrightarrow> unat (a - b :: 'a::len word) = unat a - unat b"
  by (simp add: unat_sub_if_size word_le_nat_alt)

lemma unat_of_nat_u64: "n < 18446744073709551616 \<Longrightarrow> unat (of_nat n :: u64) = n"
  by (simp add: unat_of_nat)

section \<open>Big-endian byte strings\<close>

text \<open>
  \<open>be_nat\<close> reads a byte string as a number, most significant byte first
  (\<open>binary.BigEndian\<close>, \<open>big.Int.SetBytes\<close>); \<open>to_be n v\<close> writes the \<open>n\<close> low bytes
  of \<open>v\<close>, most significant first.
\<close>

definition be_nat :: "bytes \<Rightarrow> nat" where
  "be_nat bs = foldl (\<lambda>a b. a * 256 + unat b) 0 bs"

primrec to_be :: "nat \<Rightarrow> nat \<Rightarrow> bytes" where
  "to_be 0 v = []"
| "to_be (Suc n) v = to_be n (v div 256) @ [of_nat v]"

lemma be_nat_Nil [simp]: "be_nat [] = 0"
  by (simp add: be_nat_def)

lemma be_nat_snoc [simp]: "be_nat (bs @ [b]) = be_nat bs * 256 + unat b"
  by (simp add: be_nat_def)

lemma be_nat_foldl: "foldl (\<lambda>a b. a * 256 + unat (b :: byte)) x bs = x * 256 ^ length bs + be_nat bs"
  by (induction bs rule: rev_induct) (simp_all add: algebra_simps be_nat_def)

lemma be_nat_Cons: "be_nat (b # bs) = unat b * 256 ^ length bs + be_nat bs"
proof -
  have "be_nat (b # bs) = foldl (\<lambda>a b. a * 256 + unat b) (unat b) bs"
    by (simp add: be_nat_def)
  then show ?thesis by (simp only: be_nat_foldl)
qed

lemma be_nat_append: "be_nat (as @ bs) = be_nat as * 256 ^ length bs + be_nat bs"
proof -
  have "be_nat (as @ bs) = foldl (\<lambda>a b. a * 256 + unat b) (be_nat as) bs"
    by (simp add: be_nat_def)
  then show ?thesis by (simp only: be_nat_foldl)
qed

lemma be_nat_less: "be_nat bs < 256 ^ length bs"
proof (induction bs rule: rev_induct)
  case Nil
  then show ?case by simp
next
  case (snoc b bs)
  have "be_nat bs * 256 + unat b < be_nat bs * 256 + 256"
    using unat_byte_bound [of b] by simp
  also have "\<dots> = (be_nat bs + 1) * 256" by simp
  also have "\<dots> \<le> 256 ^ length bs * 256"
    using snoc by (simp add: Suc_le_eq)
  finally show ?case by simp
qed

lemma length_to_be [simp]: "length (to_be n v) = n"
  by (induction n arbitrary: v) auto

lemma be_nat_to_be: "be_nat (to_be n v) = v mod 256 ^ n"
proof (induction n arbitrary: v)
  case 0
  then show ?case by simp
next
  case (Suc n)
  have "be_nat (to_be (Suc n) v) = (v div 256 mod 256 ^ n) * 256 + v mod 256"
    by (simp add: Suc unat_of_nat)
  also have "\<dots> = v mod (256 * 256 ^ n)"
    by (simp add: mod_mult2_eq)
  finally show ?case by simp
qed

lemma be_nat_to_be_less: "v < 256 ^ n \<Longrightarrow> be_nat (to_be n v) = v"
  by (simp add: be_nat_to_be)

lemma to_be_be_nat: "to_be (length bs) (be_nat bs) = bs"
proof (induction bs rule: rev_induct)
  case Nil
  then show ?case by simp
next
  case (snoc b bs)
  have "(be_nat bs * 256 + unat b) div 256 = be_nat bs"
    using unat_byte_bound [of b] by simp
  moreover have "(of_nat (be_nat bs * 256 + unat b) :: byte) = b"
  proof -
    have "(256 :: byte) = 0" by simp
    then show ?thesis by (simp only: of_nat_add of_nat_mult of_nat_numeral mult_zero_right add_0_left) simp
  qed
  ultimately show ?case using snoc by simp
qed

lemma be_nat_inject: "length as = length bs \<Longrightarrow> be_nat as = be_nat bs \<Longrightarrow> as = bs"
  by (metis to_be_be_nat)

lemma be_nat_replicate_zero [simp]: "be_nat (replicate n 0) = 0"
proof (induction n)
  case 0
  then show ?case by simp
next
  case (Suc n)
  then show ?case by (simp add: be_nat_Cons)
qed

section \<open>Go's \<open>math/big\<close>\<close>

text \<open>
  A \<open>big.Int\<close> is an \<^typ>\<open>int\<close>.  \<open>bit_len\<close> is \<open>BitLen\<close> of a non-negative number and
  \<open>big_bytes\<close> is \<open>Bytes\<close>: the absolute value in big-endian order without leading zeros.
  \<open>big_Uint64\<close> is \<open>Uint64\<close>: the low 64 bits of the absolute value.
\<close>

fun bit_len :: "nat \<Rightarrow> nat" where
  "bit_len n = (if n = 0 then 0 else Suc (bit_len (n div 2)))"

declare bit_len.simps [simp del]

definition big_bytes :: "int \<Rightarrow> bytes" where
  "big_bytes x = to_be ((bit_len (nat \<bar>x\<bar>) + 7) div 8) (nat \<bar>x\<bar>)"

definition big_Uint64 :: "int \<Rightarrow> u64" where
  "big_Uint64 x = of_int \<bar>x\<bar>"

lemma uint_big_Uint64: "0 \<le> x \<Longrightarrow> x < 2 ^ 64 \<Longrightarrow> uint (big_Uint64 x) = x"
  by (simp add: big_Uint64_def uint_word_of_int)

lemma bit_len_0 [simp]: "bit_len 0 = 0"
  by (simp add: bit_len.simps)

lemma bit_len_pos: "0 < n \<Longrightarrow> bit_len n = Suc (bit_len (n div 2))"
  by (simp add: bit_len.simps [of n])

lemma less_exp_bit_len: "n < 2 ^ bit_len n"
proof (induction n rule: bit_len.induct)
  case (1 n)
  show ?case
  proof (cases "n = 0")
    case False
    with 1 have "n div 2 < 2 ^ bit_len (n div 2)" by simp
    with False show ?thesis by (simp add: bit_len_pos)
  qed simp
qed

lemma exp_bit_len_le: "0 < n \<Longrightarrow> 2 ^ (bit_len n - 1) \<le> n"
proof (induction n rule: bit_len.induct)
  case (1 n)
  show ?case
  proof (cases "n = 1")
    case True
    then show ?thesis by (simp add: bit_len_pos)
  next
    case False
    with "1.prems" have "0 < n div 2" by simp
    with "1.IH" "1.prems" have "2 ^ (bit_len (n div 2) - 1) \<le> n div 2" by simp
    moreover have "bit_len n - 1 = Suc (bit_len (n div 2) - 1)"
      using \<open>0 < n div 2\<close> "1.prems" by (simp add: bit_len_pos)
    ultimately show ?thesis by simp
  qed
qed

lemma bit_len_le_iff: "bit_len n \<le> k \<longleftrightarrow> n < 2 ^ k"
proof
  assume "bit_len n \<le> k"
  then have "(2::nat) ^ bit_len n \<le> 2 ^ k" by simp
  with less_exp_bit_len [of n] show "n < 2 ^ k" by linarith
next
  assume n: "n < 2 ^ k"
  show "bit_len n \<le> k"
  proof (rule ccontr)
    assume "\<not> bit_len n \<le> k"
    then have k: "k \<le> bit_len n - 1" and "0 < n"
      by (auto simp: not_le intro: gr0I)
    from k have "(2::nat) ^ k \<le> 2 ^ (bit_len n - 1)" by simp
    also have "\<dots> \<le> n" using \<open>0 < n\<close> by (rule exp_bit_len_le)
    finally show False using n by simp
  qed
qed

lemma less_256_byte_len: "n < 256 ^ ((bit_len n + 7) div 8)"
proof -
  have "bit_len n \<le> 8 * ((bit_len n + 7) div 8)" by presburger
  then have "n < 2 ^ (8 * ((bit_len n + 7) div 8))"
    by (simp only: bit_len_le_iff)
  then show ?thesis by (simp add: power_mult)
qed

lemma be_nat_big_bytes [simp]: "be_nat (big_bytes x) = nat \<bar>x\<bar>"
  by (simp add: big_bytes_def be_nat_to_be_less less_256_byte_len)

lemma length_big_bytes: "length (big_bytes x) = (bit_len (nat \<bar>x\<bar>) + 7) div 8"
  by (simp add: big_bytes_def)

section \<open>Indexing\<close>

text \<open>Indexing a Go slice panics outside \<open>0 .. len-1\<close>.\<close>

definition go_index :: "'a list \<Rightarrow> int \<Rightarrow> 'a outcome" where
  "go_index xs i = (if 0 \<le> i \<and> i < int (length xs) then Ok (xs ! nat i) else Panic)"

lemma go_index_Ok [simp]: "0 \<le> i \<Longrightarrow> i < int (length xs) \<Longrightarrow> go_index xs i = Ok (xs ! nat i)"
  by (simp add: go_index_def)

lemma go_index_Ok_iff [outcome_simps]:
  "go_index xs i = Ok y \<longleftrightarrow> 0 \<le> i \<and> i < int (length xs) \<and> y = xs ! nat i"
  by (auto simp: go_index_def)

lemma go_index_not_NoFuel [simp]: "go_index xs i \<noteq> NoFuel"
  by (simp add: go_index_def)

section \<open>Slices\<close>

text \<open>The Go slice expression \<open>xs[a:b]\<close> for \<open>a \<le> b \<le> len xs\<close>.\<close>

definition slice :: "'a list \<Rightarrow> nat \<Rightarrow> nat \<Rightarrow> 'a list" where
  "slice xs a b = take (b - a) (drop a xs)"

lemma length_slice [simp]: "length (slice xs a b) = min (b - a) (length xs - a)"
  by (simp add: slice_def)

lemma nth_slice: "i < b - a \<Longrightarrow> a + i < length xs \<Longrightarrow> slice xs a b ! i = xs ! (a + i)"
  by (simp add: slice_def)

text \<open>
  Go's \<open>copy(dst[a:], src)\<close>: writes the elements of \<open>src\<close> into \<open>dst\<close> from index \<open>a\<close>, as
  many as fit.
\<close>

definition copy_at :: "'a list \<Rightarrow> nat \<Rightarrow> 'a list \<Rightarrow> 'a list" where
  "copy_at dst a src = take a dst @ take (length dst - a) src @ drop (a + length src) dst"

lemma length_copy_at [simp]: "length (copy_at dst a src) = length dst"
  by (simp add: copy_at_def)

lemma nth_copy_at_in:
  "a \<le> i \<Longrightarrow> i < a + length src \<Longrightarrow> i < length dst \<Longrightarrow> copy_at dst a src ! i = src ! (i - a)"
  by (auto simp: copy_at_def nth_append min_def)

lemma nth_copy_at_out:
  assumes "i < length dst" and "i < a \<or> a + length src \<le> i"
  shows "copy_at dst a src ! i = dst ! i"
proof (cases "i < a")
  case True
  with assms(1) show ?thesis by (simp add: copy_at_def nth_append min_def)
next
  case False
  with assms have "a + length src \<le> i" by simp
  with assms(1) show ?thesis by (auto simp: copy_at_def nth_append min_def)
qed

end
