(* ===== verification/Common.thy ===== *)
theory Common
  imports Prelude
begin

text \<open>
  The package \<open>common\<close>: byte slice helpers (\<open>common/bytes.go\<close>), hashes and addresses
  (\<open>common/types.go\<close>), overflow-checked arithmetic (\<open>common/math/integer.go\<close>) and the
  big integer helpers (\<open>common/math/big.go\<close>), with the round trips and bounds the state
  and the virtual machine rely on.
\<close>

section \<open>Byte slices (\<open>common/bytes.go\<close>)\<close>

definition RightPadBytes :: "bytes \<Rightarrow> int \<Rightarrow> bytes" where
  "RightPadBytes sl l =
     (if l \<le> int (length sl) then sl
      else copy_at (replicate (nat l) 0) 0 sl)"

definition LeftPadBytes :: "bytes \<Rightarrow> int \<Rightarrow> bytes" where
  "LeftPadBytes sl l =
     (if l \<le> int (length sl) then sl
      else copy_at (replicate (nat l) 0) (nat l - length sl) sl)"

fun TrimLeftZeroes :: "bytes \<Rightarrow> bytes" where
  "TrimLeftZeroes [] = []"
| "TrimLeftZeroes (b # s) = (if b \<noteq> 0 then b # s else TrimLeftZeroes s)"

definition TrimRightZeroes :: "bytes \<Rightarrow> bytes" where
  "TrimRightZeroes s = rev (TrimLeftZeroes (rev s))"

section \<open>Hashes and addresses (\<open>common/types.go\<close>)\<close>

text \<open>
  \<open>SetBytes\<close> crops its argument from the left to the array's length and right-aligns it;
  as a number this is the value of the cropped string.
\<close>

definition BytesToHash :: "bytes \<Rightarrow> hash" where
  "BytesToHash b = of_nat (be_nat (if length b > 32 then drop (length b - 32) b else b))"

definition hash_Bytes :: "hash \<Rightarrow> bytes" where
  "hash_Bytes h = to_be 32 (unat h)"

definition BytesToAddress :: "bytes \<Rightarrow> address" where
  "BytesToAddress b = of_nat (be_nat (if length b > 20 then drop (length b - 20) b else b))"

definition address_Bytes :: "address \<Rightarrow> bytes" where
  "address_Bytes a = to_be 20 (unat a)"

section \<open>Checked arithmetic (\<open>common/math/integer.go\<close>)\<close>

text \<open>
  \<open>bits.Add64\<close>, \<open>bits.Sub64\<close> and \<open>bits.Mul64\<close> return the wrapped result and the carry,
  the borrow and the high word.
\<close>

definition Add64 :: "u64 \<Rightarrow> u64 \<Rightarrow> u64 \<times> u64" where
  "Add64 x y = (x + y, of_bool (unat x + unat y \<ge> 2 ^ 64))"

definition Sub64 :: "u64 \<Rightarrow> u64 \<Rightarrow> u64 \<times> u64" where
  "Sub64 x y = (x - y, of_bool (unat x < unat y))"

definition Mul64 :: "u64 \<Rightarrow> u64 \<Rightarrow> u64 \<times> u64" where
  "Mul64 x y = (of_nat (unat x * unat y div 2 ^ 64), x * y)"

definition SafeSub :: "u64 \<Rightarrow> u64 \<Rightarrow> u64 \<times> bool" where
  "SafeSub x y = (case Sub64 x y of (diff, borrowOut) \<Rightarrow> (diff, borrowOut \<noteq> 0))"

definition SafeAdd :: "u64 \<Rightarrow> u64 \<Rightarrow> u64 \<times> bool" where
  "SafeAdd x y = (case Add64 x y of (summ, carryOut) \<Rightarrow> (summ, carryOut \<noteq> 0))"

definition SafeMul :: "u64 \<Rightarrow> u64 \<Rightarrow> u64 \<times> bool" where
  "SafeMul x y = (case Mul64 x y of (hi, lo) \<Rightarrow> (lo, hi \<noteq> 0))"

section \<open>Big integers (\<open>common/math/big.go\<close>)\<close>

definition BigMax :: "int \<Rightarrow> int \<Rightarrow> int" where
  "BigMax x y = (if x < y then y else x)"

definition BigMin :: "int \<Rightarrow> int \<Rightarrow> int" where
  "BigMin x y = (if x > y then y else x)"

definition tt255 :: int where
  "tt255 = 2 ^ 255"

definition tt256 :: int where
  "tt256 = 2 ^ 256"

text \<open>\<open>x.And(x, tt256m1)\<close> on a big integer in two's complement.\<close>

definition U256 :: "int \<Rightarrow> int" where
  "U256 x = Bit_Operations.and x (tt256 - 1)"

definition S256 :: "int \<Rightarrow> int" where
  "S256 x = (if x < tt255 then x else x - tt256)"

section \<open>Lemmas\<close>

lemma RightPadBytes_eq: "RightPadBytes sl l = sl @ replicate (nat l - length sl) 0"
  by (auto simp: RightPadBytes_def copy_at_def)

lemma length_RightPadBytes [simp]: "length (RightPadBytes sl l) = max (length sl) (nat l)"
  by (auto simp: RightPadBytes_eq)

lemma LeftPadBytes_eq: "LeftPadBytes sl l = replicate (nat l - length sl) 0 @ sl"
  by (auto simp: LeftPadBytes_def copy_at_def min_def)

lemma length_LeftPadBytes [simp]: "length (LeftPadBytes sl l) = max (length sl) (nat l)"
  by (auto simp: LeftPadBytes_eq)

text \<open>Padding and trimming on the left do not change the number.\<close>

lemma be_nat_LeftPadBytes [simp]: "be_nat (LeftPadBytes sl l) = be_nat sl"
  by (simp add: LeftPadBytes_eq be_nat_append)

lemma be_nat_TrimLeftZeroes [simp]: "be_nat (TrimLeftZeroes s) = be_nat s"
  by (induction s) (auto simp: be_nat_Cons)

lemma TrimLeftZeroes_hd: "TrimLeftZeroes s \<noteq> [] \<Longrightarrow> hd (TrimLeftZeroes s) \<noteq> 0"
  by (induction s) auto

lemma length_TrimLeftZeroes: "length (TrimLeftZeroes s) \<le> length s"
  by (induction s) auto

lemma TrimLeftZeroes_eq_Nil: "TrimLeftZeroes s = [] \<longleftrightarrow> be_nat s = 0"
proof (induction s)
  case (Cons b s)
  have "b \<noteq> 0 \<Longrightarrow> 0 < be_nat (b # s)"
    by (simp add: be_nat_Cons unat_gt_0)
  with Cons show ?case by (auto simp: be_nat_Cons)
qed simp

lemma BytesToHash_eq: "BytesToHash b = of_nat (be_nat b)"
proof (cases "length b > 32")
  case True
  let ?k = "length b - 32"
  have "be_nat b = be_nat (take ?k b) * 256 ^ 32 + be_nat (drop ?k b)"
    using be_nat_append [of "take ?k b" "drop ?k b"] True by simp
  then have "(of_nat (be_nat b) :: hash) = of_nat (be_nat (drop ?k b))"
    by (intro unsigned_word_eqI [where ?'a = nat]) (simp add: unat_of_nat del: of_nat_add of_nat_mult)
  with True show ?thesis by (simp add: BytesToHash_def)
qed (simp add: BytesToHash_def)

lemma BytesToAddress_eq: "BytesToAddress b = of_nat (be_nat b)"
proof (cases "length b > 20")
  case True
  let ?k = "length b - 20"
  have "be_nat b = be_nat (take ?k b) * 256 ^ 20 + be_nat (drop ?k b)"
    using be_nat_append [of "take ?k b" "drop ?k b"] True by simp
  then have "(of_nat (be_nat b) :: address) = of_nat (be_nat (drop ?k b))"
    by (intro unsigned_word_eqI [where ?'a = nat]) (simp add: unat_of_nat del: of_nat_add of_nat_mult)
  with True show ?thesis by (simp add: BytesToAddress_def)
qed (simp add: BytesToAddress_def)

lemma BytesToHash_Bytes [simp]: "BytesToHash (hash_Bytes h) = h"
proof -
  have "unat h < 256 ^ 32"
    using unsigned_less [of h, where ?'a = nat] by simp
  then show ?thesis
    by (simp add: BytesToHash_eq hash_Bytes_def be_nat_to_be_less)
qed

lemma BytesToAddress_Bytes [simp]: "BytesToAddress (address_Bytes a) = a"
proof -
  have "unat a < 256 ^ 20"
    using unsigned_less [of a, where ?'a = nat] by simp
  then show ?thesis
    by (simp add: BytesToAddress_eq address_Bytes_def be_nat_to_be_less)
qed

lemma hash_Bytes_inject [simp]: "hash_Bytes h = hash_Bytes h' \<longleftrightarrow> h = h'"
  by (metis BytesToHash_Bytes)

lemma address_Bytes_inject [simp]: "address_Bytes a = address_Bytes a' \<longleftrightarrow> a = a'"
  by (metis BytesToAddress_Bytes)

lemma length_hash_Bytes [simp]: "length (hash_Bytes h) = 32"
  by (simp add: hash_Bytes_def)

lemma length_address_Bytes [simp]: "length (address_Bytes a) = 20"
  by (simp add: address_Bytes_def)

lemma BytesToHash_TrimLeftZeroes [simp]: "BytesToHash (TrimLeftZeroes b) = BytesToHash b"
  by (simp add: BytesToHash_eq)

text \<open>The checked operations flag exactly the results that do not fit, and are exact otherwise.\<close>

lemma SafeAdd_iff:
  "SafeAdd x y = (z, ov) \<longleftrightarrow> z = x + y \<and> (ov \<longleftrightarrow> unat x + unat y \<ge> 2 ^ 64)"
  by (auto simp: SafeAdd_def Add64_def)

lemma SafeAdd_exact: "SafeAdd x y = (z, False) \<Longrightarrow> unat z = unat x + unat y"
  by (simp add: SafeAdd_iff unat_add_u64)

lemma SafeSub_iff:
  "SafeSub x y = (z, ov) \<longleftrightarrow> z = x - y \<and> (ov \<longleftrightarrow> unat x < unat y)"
  by (auto simp: SafeSub_def Sub64_def)

lemma SafeMul_iff:
  "SafeMul x y = (z, ov) \<longleftrightarrow> z = x * y \<and> (ov \<longleftrightarrow> unat x * unat y \<ge> 2 ^ 64)"
proof -
  have "unat x * unat y < 2 ^ 64 * 2 ^ 64"
    using unat_u64_bound [of x] unat_u64_bound [of y] by (intro mult_strict_mono) simp_all
  then have "unat x * unat y div 2 ^ 64 < 2 ^ 64"
    by (simp add: div_less_iff_less_mult)
  then have "(of_nat (unat x * unat y div 2 ^ 64) :: u64) = 0 \<longleftrightarrow> unat x * unat y div 2 ^ 64 = 0"
    by (auto simp: word_of_nat_eq_0_iff dest: nat_dvd_not_less [rotated])
  also have "\<dots> \<longleftrightarrow> unat x * unat y < 2 ^ 64"
    by (simp add: div_eq_0_iff)
  finally show ?thesis by (auto simp: SafeMul_def Mul64_def)
qed

lemma SafeMul_exact: "SafeMul x y = (z, False) \<Longrightarrow> unat z = unat x * unat y"
  by (simp add: SafeMul_iff unat_mult_u64)

lemma BigMin_eq [simp]: "BigMin x y = min x y"
  by (simp add: BigMin_def)

lemma BigMax_eq [simp]: "BigMax x y = max x y"
  by (simp add: BigMax_def)

lemma U256_mod: "U256 x = x mod 2 ^ 256"
proof -
  have "tt256 - 1 = mask 256"
    by (simp only: tt256_def mask_eq_exp_minus_1)
  then show ?thesis
    by (simp only: U256_def take_bit_eq_mask [symmetric] take_bit_eq_mod)
qed

end
