(* ===== verification/Rlp.thy ===== *)
theory Rlp
  imports Common
begin

text \<open>
  The package \<open>rlp\<close>: the buffered encoder (\<open>rlp/encode.go\<close>), which writes all string data and
  list headers into separate buffers and merges them at the end, the stream decoder
  (\<open>rlp/decode.go\<close>) and the slice splitting functions (\<open>rlp/raw.go\<close>).

  Go values that reach the encoder by reflection are a universe \<open>gval\<close> with one constructor per
  writer of \<open>makeWriter\<close>, and target types of the decoder a universe \<open>gtype\<close> with one constructor
  per decoder of \<open>makeDecoder\<close>.  A non-nil pointer or interface is its element.
\<close>

section \<open>Values, types and errors\<close>

datatype Kind = KByte | KString | KList

datatype gval =
    VUint u64
  | VBool bool
  | VBigInt int
  | VBigNil
  | VBytes bytes
  | VArray bytes
  | VString bytes
  | VSlice "gval list"
  | VStruct "gval list"
  | VRaw bytes
  | VInterfaceNil
  | VPtrNil Kind

datatype gtype =
    TUint nat
  | TBool
  | TBigInt
  | TBytes
  | TArray nat
  | TString
  | TSlice gtype
  | TStruct "gtype list"
  | TRaw

datatype rlpError =
    EOL
  | ErrExpectedString
  | ErrExpectedList
  | ErrCanonInt
  | ErrCanonSize
  | ErrElemTooLarge
  | ErrValueTooLarge
  | ErrMoreThanOneValue
  | ErrNotInList
  | ErrNotAtEOL
  | ErrUintOverflow
  | ErrUnexpectedEOF
  | ErrEOF
  | ErrNegativeBigInt
  | ErrInvalidBool u64
  | DecodeError string

section \<open>Headers\<close>

text \<open>The bytes of \<open>i\<close> from \<open>byte(i >> 8(n-1))\<close> down to \<open>byte(i)\<close>.\<close>

definition shiftBytes :: "nat \<Rightarrow> u64 \<Rightarrow> bytes" where
  "shiftBytes n i = map (\<lambda>k. ucast (drop_bit (8 * k) i)) (rev [0..<n])"

definition putint :: "u64 \<Rightarrow> bytes" where
  "putint i =
     (if i < 2 ^ 8 then shiftBytes 1 i
      else if i < 2 ^ 16 then shiftBytes 2 i
      else if i < 2 ^ 24 then shiftBytes 3 i
      else if i < 2 ^ 32 then shiftBytes 4 i
      else if i < 2 ^ 40 then shiftBytes 5 i
      else if i < 2 ^ 48 then shiftBytes 6 i
      else if i < 2 ^ 56 then shiftBytes 7 i
      else shiftBytes 8 i)"

function intsize_loop :: "u64 \<Rightarrow> int \<Rightarrow> int" where
  "intsize_loop i sz =
     (let i = drop_bit 8 i in if i = 0 then sz else intsize_loop i (sz + 1))"
  by pat_completeness auto
termination
proof (relation "measure (\<lambda>(i, sz). unat i)")
  fix i x :: u64 and sz :: int
  assume "x = drop_bit 8 i" "x \<noteq> 0"
  then have "unat x = unat i div 2 ^ 8" by (simp add: drop_bit_eq_div unat_div)
  moreover have "0 < unat x" using \<open>x \<noteq> 0\<close> by (simp add: unat_gt_0)
  ultimately have "unat x < unat i" by (simp add: div_less_dividend)
  then show "((x, sz + 1), (i, sz)) \<in> measure (\<lambda>(i, sz). unat i)" by simp
qed (rule wf_measure)

declare intsize_loop.simps [simp del]

definition intsize :: "u64 \<Rightarrow> int" where
  "intsize i = intsize_loop i 1"

definition headsize :: "u64 \<Rightarrow> int" where
  "headsize sz = (if sz < 56 then 1 else 1 + intsize sz)"

text \<open>\<open>puthead\<close> returns the header it writes to the start of its buffer.\<close>

definition puthead :: "byte \<Rightarrow> byte \<Rightarrow> u64 \<Rightarrow> bytes" where
  "puthead smalltag largetag sz =
     (if sz < 56 then [smalltag + ucast sz]
      else let sizebytes = putint sz
           in (largetag + of_nat (length sizebytes)) # sizebytes)"

section \<open>The encoder\<close>

record listhead =
  lh_offset :: int
  lh_size :: int

definition listhead_encode :: "listhead \<Rightarrow> bytes" where
  "listhead_encode head = puthead 0xC0 0xF7 (of_int (lh_size head))"

record encbuf =
  eb_str :: bytes
  eb_lheads :: "listhead list"
  eb_lhsize :: int

definition encbuf_reset :: encbuf where
  "encbuf_reset = \<lparr>eb_str = [], eb_lheads = [], eb_lhsize = 0\<rparr>"

definition encbuf_append :: "encbuf \<Rightarrow> bytes \<Rightarrow> encbuf" where
  "encbuf_append w b = w\<lparr>eb_str := eb_str w @ b\<rparr>"

definition encbuf_size :: "encbuf \<Rightarrow> int" where
  "encbuf_size w = int (length (eb_str w)) + eb_lhsize w"

definition encodeStringHeader :: "encbuf \<Rightarrow> int \<Rightarrow> encbuf" where
  "encodeStringHeader w sz =
     (if sz < 56 then encbuf_append w [0x80 + of_int sz]
      else let sizebytes = putint (of_int sz)
           in encbuf_append w ((0xB7 + of_nat (length sizebytes)) # sizebytes))"

definition encodeString :: "encbuf \<Rightarrow> bytes \<Rightarrow> encbuf" where
  "encodeString w b =
     (if length b = 1 \<and> b ! 0 \<le> 0x7F then encbuf_append w [b ! 0]
      else encbuf_append (encodeStringHeader w (int (length b))) b)"

definition encodeUint :: "encbuf \<Rightarrow> u64 \<Rightarrow> encbuf" where
  "encodeUint w i =
     (if i = 0 then encbuf_append w [0x80]
      else if i < 128 then encbuf_append w [ucast i]
      else let s = putint i in encbuf_append w ((0x80 + of_nat (length s)) # s))"

text \<open>\<open>list\<close> returns the index of the new header, \<open>listEnd\<close> closes the header at that index.\<close>

definition encbuf_list :: "encbuf \<Rightarrow> encbuf \<times> nat" where
  "encbuf_list w =
     (w\<lparr>eb_lheads := eb_lheads w @ [\<lparr>lh_offset = int (length (eb_str w)), lh_size = eb_lhsize w\<rparr>]\<rparr>,
      length (eb_lheads w))"

definition encbuf_listEnd :: "encbuf \<Rightarrow> nat \<Rightarrow> encbuf" where
  "encbuf_listEnd w index =
     (let lh = eb_lheads w ! index;
          sz = encbuf_size w - lh_offset lh - lh_size lh;
          w = w\<lparr>eb_lheads := (eb_lheads w)[index := lh\<lparr>lh_size := sz\<rparr>]\<rparr>
      in if sz < 56 then w\<lparr>eb_lhsize := eb_lhsize w + 1\<rparr>
         else w\<lparr>eb_lhsize := eb_lhsize w + (1 + intsize (of_int sz))\<rparr>)"

text \<open>
  The merge loop of \<open>toBytes\<close>: \<open>copy\<close> moves as much as fits, a slice expression with bounds out
  of order panics and so does a header that does not fit into the output.
\<close>

primrec toBytes_loop :: "listhead list \<Rightarrow> bytes \<Rightarrow> bytes \<Rightarrow> nat \<Rightarrow> nat \<Rightarrow> bytes outcome" where
  "toBytes_loop [] str out strpos pos =
     (if strpos \<le> length str \<and> pos \<le> length out then Ok (copy_at out pos (drop strpos str)) else Panic)"
| "toBytes_loop (head # heads) str out strpos pos =
     (if int strpos \<le> lh_offset head \<and> lh_offset head \<le> int (length str) \<and> pos \<le> length out then
        let piece = slice str strpos (nat (lh_offset head));
            n = min (length out - pos) (length piece);
            out = copy_at out pos piece;
            pos = pos + n;
            strpos = strpos + n;
            enc = listhead_encode head
        in if pos + length enc \<le> length out
           then toBytes_loop heads str (copy_at out pos enc) strpos (pos + length enc)
           else Panic
      else Panic)"

definition toBytes :: "encbuf \<Rightarrow> bytes outcome" where
  "toBytes w =
     (if encbuf_size w < 0 then Panic
      else toBytes_loop (eb_lheads w) (eb_str w) (replicate (nat (encbuf_size w)) 0) 0 0)"

definition writeBool :: "bool \<Rightarrow> encbuf \<Rightarrow> encbuf" where
  "writeBool b w = (if b then encbuf_append w [0x01] else encbuf_append w [0x80])"

text \<open>
  \<open>writeBigInt\<close> writes the words of \<open>i.Bits()\<close>, least significant byte first, from the end of a
  zeroed buffer of the minimal length: the low \<open>length\<close> bytes of the absolute value.
\<close>

definition writeBigInt :: "int \<Rightarrow> encbuf \<Rightarrow> encbuf \<times> rlpError option" where
  "writeBigInt i w =
     (if i < 0 then (w, Some ErrNegativeBigInt)
      else let bitlen = bit_len (nat i) in
           if bitlen \<le> 64 then (encodeUint w (of_int i), None)
           else let len = (bitlen + 7) div 8
                in (encbuf_append (encodeStringHeader w (int len)) (to_be len (nat i)), None))"

definition writeByteArray :: "bytes \<Rightarrow> encbuf \<Rightarrow> encbuf" where
  "writeByteArray b w =
     (case b of
        [] \<Rightarrow> encbuf_append w [0x80]
      | [c] \<Rightarrow> if c \<le> 0x7f then encbuf_append w [c] else encbuf_append w [0x81, c]
      | _ \<Rightarrow> encbuf_append (encodeStringHeader w (int (length b))) b)"

text \<open>Writing a sequence of elements stops at the first error.\<close>

primrec writeElems :: "(encbuf \<Rightarrow> encbuf \<times> rlpError option) list \<Rightarrow> encbuf \<Rightarrow> encbuf \<times> rlpError option" where
  "writeElems [] w = (w, None)"
| "writeElems (f # fs) w =
     (case f w of (w, Some e) \<Rightarrow> (w, Some e) | (w, None) \<Rightarrow> writeElems fs w)"

definition writeList ::
  "(encbuf \<Rightarrow> encbuf \<times> rlpError option) list \<Rightarrow> encbuf \<Rightarrow> encbuf \<times> rlpError option" where
  "writeList fs w =
     (case encbuf_list w of (w, lh) \<Rightarrow>
        (case writeElems fs w of
           (w, Some e) \<Rightarrow> (w, Some e)
         | (w, None) \<Rightarrow> (encbuf_listEnd w lh, None)))"

primrec encbuf_write :: "gval \<Rightarrow> encbuf \<Rightarrow> encbuf \<times> rlpError option" where
  "encbuf_write (VUint i) = (\<lambda>w. (encodeUint w i, None))"
| "encbuf_write (VBool b) = (\<lambda>w. (writeBool b w, None))"
| "encbuf_write (VBigInt i) = writeBigInt i"
| "encbuf_write VBigNil = (\<lambda>w. (encbuf_append w [0x80], None))"
| "encbuf_write (VBytes b) = (\<lambda>w. (encodeString w b, None))"
| "encbuf_write (VArray b) = (\<lambda>w. (writeByteArray b w, None))"
| "encbuf_write (VString s) = (\<lambda>w. (encodeString w s, None))"
| "encbuf_write (VSlice vs) = writeList (map encbuf_write vs)"
| "encbuf_write (VStruct vs) = writeList (map encbuf_write vs)"
| "encbuf_write (VRaw b) = (\<lambda>w. (encbuf_append w b, None))"
| "encbuf_write VInterfaceNil = (\<lambda>w. (encbuf_append w [0xC0], None))"
| "encbuf_write (VPtrNil k) =
     (\<lambda>w. if k = KString then (encbuf_append w [0x80], None)
          else (case encbuf_list w of (w, lh) \<Rightarrow> (encbuf_listEnd w lh, None)))"

definition EncodeToBytes :: "gval \<Rightarrow> (rlpError + bytes) outcome" where
  "EncodeToBytes val =
     (case encbuf_write val encbuf_reset of
        (w, Some e) \<Rightarrow> Ok (Inl e)
      | (w, None) \<Rightarrow> bnd (toBytes w) (\<lambda>b. Ok (Inr b)))"

section \<open>Splitting slices (\<open>rlp/raw.go\<close>)\<close>

text \<open>
  \<open>uint64(b[0])<<8*(n-1) | ... | uint64(b[n-1])\<close>: for the lengths 1 to 8 the shifted bytes do
  not overlap, so this is the big-endian value.
\<close>

definition readSize :: "bytes \<Rightarrow> byte \<Rightarrow> rlpError + u64" where
  "readSize b slen =
     (if unat slen > length b then Inl ErrUnexpectedEOF
      else let s = (if 1 \<le> slen \<and> slen \<le> 8 then of_nat (be_nat (take (unat slen) b)) else 0) in
           if s < 56 \<or> b ! 0 = 0 then Inl ErrCanonSize else Inr s)"

definition raw_readKind :: "bytes \<Rightarrow> rlpError + (Kind \<times> u64 \<times> u64)" where
  "raw_readKind buf =
     (case buf of
        [] \<Rightarrow> Inl ErrUnexpectedEOF
      | b # rest \<Rightarrow>
          let r = (if b < 0x80 then Inr (KByte, 0, 1)
                   else if b < 0xB8 then
                     (let contentsize = ucast (b - 0x80) in
                      if contentsize = 1 \<and> length buf > 1 \<and> buf ! 1 < 128 then Inl ErrCanonSize
                      else Inr (KString, 1, contentsize))
                   else if b < 0xC0 then
                     (case readSize rest (b - 0xB7) of
                        Inl e \<Rightarrow> Inl e
                      | Inr cs \<Rightarrow> Inr (KString, ucast (b - 0xB7) + 1, cs))
                   else if b < 0xF8 then Inr (KList, 1, ucast (b - 0xC0))
                   else
                     (case readSize rest (b - 0xF7) of
                        Inl e \<Rightarrow> Inl e
                      | Inr cs \<Rightarrow> Inr (KList, ucast (b - 0xF7) + 1, cs)))
          in case r of
               Inl e \<Rightarrow> Inl e
             | Inr (k, tagsize, contentsize) \<Rightarrow>
                 if contentsize > of_nat (length buf) - tagsize then Inl ErrValueTooLarge
                 else Inr (k, tagsize, contentsize))"

text \<open>\<open>Split\<close> returns the kind, the content and the rest.\<close>

definition Split :: "bytes \<Rightarrow> rlpError + (Kind \<times> bytes \<times> bytes)" where
  "Split b =
     (case raw_readKind b of
        Inl e \<Rightarrow> Inl e
      | Inr (k, ts, cs) \<Rightarrow> Inr (k, slice b (unat ts) (unat (ts + cs)), drop (unat (ts + cs)) b))"

definition SplitString :: "bytes \<Rightarrow> rlpError + (bytes \<times> bytes)" where
  "SplitString b =
     (case Split b of
        Inl e \<Rightarrow> Inl e
      | Inr (k, content, rest) \<Rightarrow> if k = KList then Inl ErrExpectedString else Inr (content, rest))"

definition SplitList :: "bytes \<Rightarrow> rlpError + (bytes \<times> bytes)" where
  "SplitList b =
     (case Split b of
        Inl e \<Rightarrow> Inl e
      | Inr (k, content, rest) \<Rightarrow> if k \<noteq> KList then Inl ErrExpectedList else Inr (content, rest))"

definition SplitUint64 :: "bytes \<Rightarrow> rlpError + (u64 \<times> bytes)" where
  "SplitUint64 b =
     (case SplitString b of
        Inl e \<Rightarrow> Inl e
      | Inr (content, rest) \<Rightarrow>
          if length content = 0 then Inr (0, rest)
          else if length content = 1 then
            (if content ! 0 = 0 then Inl ErrCanonInt else Inr (ucast (content ! 0), rest))
          else if length content > 8 then Inl ErrUintOverflow
          else (case readSize content (of_nat (length content)) of
                  Inl e \<Rightarrow> Inl ErrCanonInt
                | Inr x \<Rightarrow> Inr (x, rest)))"

definition ListSize :: "u64 \<Rightarrow> u64" where
  "ListSize contentSize = of_int (headsize contentSize) + contentSize"

definition IntSize :: "u64 \<Rightarrow> int" where
  "IntSize x = (if x < 0x80 then 1 else 1 + intsize x)"

definition AppendUint64 :: "bytes \<Rightarrow> u64 \<Rightarrow> bytes" where
  "AppendUint64 b i =
     (if i = 0 then b @ [0x80]
      else if i < 128 then b @ [ucast i]
      else if i < 2 ^ 8 then b @ 0x81 # shiftBytes 1 i
      else if i < 2 ^ 16 then b @ 0x82 # shiftBytes 2 i
      else if i < 2 ^ 24 then b @ 0x83 # shiftBytes 3 i
      else if i < 2 ^ 32 then b @ 0x84 # shiftBytes 4 i
      else if i < 2 ^ 40 then b @ 0x85 # shiftBytes 5 i
      else if i < 2 ^ 48 then b @ 0x86 # shiftBytes 6 i
      else if i < 2 ^ 56 then b @ 0x87 # shiftBytes 7 i
      else b @ 0x88 # shiftBytes 8 i)"

section \<open>The decoding stream\<close>

text \<open>
  \<open>st_input\<close> holds the unread bytes of the underlying reader, the head of \<open>st_stack\<close> is the
  innermost list, and \<open>st_kind = None\<close> is the re-armed state \<open>kind = -1\<close>.  The scratch buffer
  \<open>uintbuf\<close> carries nothing from one call to the next.
\<close>

record Stream =
  st_input :: bytes
  st_remaining :: u64
  st_size :: u64
  st_kinderr :: "rlpError option"
  st_stack :: "u64 list"
  st_kind :: "Kind option"
  st_byteval :: byte
  st_limited :: bool

text \<open>\<open>Reset\<close> on a \<open>bytes.Reader\<close>: without an explicit limit the length of the data is the limit.\<close>

definition Stream_Reset :: "bytes \<Rightarrow> u64 \<Rightarrow> Stream" where
  "Stream_Reset r inputLimit =
     \<lparr>st_input = r, st_remaining = (if inputLimit > 0 then inputLimit else of_nat (length r)),
      st_size = 0, st_kinderr = None, st_stack = [], st_kind = None, st_byteval = 0, st_limited = True\<rparr>"

definition willRead :: "Stream \<Rightarrow> u64 \<Rightarrow> Stream \<times> rlpError option" where
  "willRead s n =
     (let s = s\<lparr>st_kind := None\<rparr>;
          limited = (\<lambda>s. if st_limited s then
                            if n > st_remaining s then (s, Some ErrValueTooLarge)
                            else (s\<lparr>st_remaining := st_remaining s - n\<rparr>, None)
                          else (s, None))
      in case st_stack s of
           [] \<Rightarrow> limited s
         | limit # outer \<Rightarrow>
             if n > limit then (s, Some ErrElemTooLarge)
             else limited (s\<lparr>st_stack := (limit - n) # outer\<rparr>))"

definition readFull :: "Stream \<Rightarrow> u64 \<Rightarrow> Stream \<times> (rlpError + bytes)" where
  "readFull s n =
     (case willRead s n of
        (s, Some e) \<Rightarrow> (s, Inl e)
      | (s, None) \<Rightarrow>
          if unat n \<le> length (st_input s)
          then (s\<lparr>st_input := drop (unat n) (st_input s)\<rparr>, Inr (take (unat n) (st_input s)))
          else (s\<lparr>st_input := []\<rparr>, Inl ErrUnexpectedEOF))"

definition readByte :: "Stream \<Rightarrow> Stream \<times> (rlpError + byte)" where
  "readByte s =
     (case willRead s 1 of
        (s, Some e) \<Rightarrow> (s, Inl e)
      | (s, None) \<Rightarrow>
          (case st_input s of
             [] \<Rightarrow> (s, Inl ErrUnexpectedEOF)
           | b # rest \<Rightarrow> (s\<lparr>st_input := rest\<rparr>, Inr b)))"

text \<open>\<open>make([]byte, n)\<close>: a length that is not an \<open>int\<close> panics.\<close>

definition go_make :: "u64 \<Rightarrow> unit outcome" where
  "go_make n = (if n < 2 ^ 63 then Ok () else Panic)"

text \<open>
  The number is read into the end of \<open>s.uintbuf[:8]\<close>.  The start \<open>8 - size\<close> is taken in bytes: for a size above eight it
  wraps around and slicing the buffer there panics.
\<close>

definition readUint :: "Stream \<Rightarrow> byte \<Rightarrow> (Stream \<times> (rlpError + u64)) outcome" where
  "readUint s sz =
     (if sz = 0 then Ok (s\<lparr>st_kind := None\<rparr>, Inr 0)
      else if sz = 1 then
        (case readByte s of (s, Inl e) \<Rightarrow> Ok (s, Inl e) | (s, Inr b) \<Rightarrow> Ok (s, Inr (ucast b)))
      else
        let start = unat (8 - sz)
        in if start > 8 then Panic
           else
             (case readFull s (of_nat (8 - start)) of
                (s, Inl e) \<Rightarrow> Ok (s, Inl e)
              | (s, Inr data) \<Rightarrow>
                  let buffer = replicate start 0 @ data
                  in bnd (go_index buffer (int start)) (\<lambda>b.
                       if b = 0 then Ok (s, Inl ErrCanonSize)
                       else Ok (s, Inr (of_nat (be_nat buffer))))))"

text \<open>\<open>readKind\<close> returns the kind and size, both zero on an error of \<open>readByte\<close>.\<close>

definition Stream_readKind :: "Stream \<Rightarrow> (Stream \<times> Kind \<times> u64 \<times> rlpError option) outcome" where
  "Stream_readKind s =
     (case readByte s of
        (s, Inl e) \<Rightarrow>
          Ok (s, KByte, 0,
              Some (if st_stack s = [] \<and> (e = ErrUnexpectedEOF \<or> e = ErrValueTooLarge) then ErrEOF else e))
      | (s, Inr b) \<Rightarrow>
          let s = s\<lparr>st_byteval := 0\<rparr>;
              long = (\<lambda>k n. bnd (readUint s n) (\<lambda>(s, r).
                        case r of
                          Inl e \<Rightarrow> Ok (s, k, 0, Some e)
                        | Inr sz \<Rightarrow> Ok (s, k, sz, if sz < 56 then Some ErrCanonSize else None)))
          in if b < 0x80 then Ok (s\<lparr>st_byteval := b\<rparr>, KByte, 0, None)
             else if b < 0xB8 then Ok (s, KString, ucast (b - 0x80), None)
             else if b < 0xC0 then long KString (b - 0xB7)
             else if b < 0xF8 then Ok (s, KList, ucast (b - 0xC0), None)
             else long KList (b - 0xF7))"

definition Stream_Kind :: "Stream \<Rightarrow> (Stream \<times> (rlpError + (Kind \<times> u64))) outcome" where
  "Stream_Kind s =
     (case st_kind s of
        Some k \<Rightarrow> Ok (s, case st_kinderr s of Some e \<Rightarrow> Inl e | None \<Rightarrow> Inr (k, st_size s))
      | None \<Rightarrow>
          if st_stack s \<noteq> [] \<and> hd (st_stack s) = 0 then Ok (s, Inl EOL)
          else
            let stack = st_stack s in
            bnd (Stream_readKind s) (\<lambda>(s, k, sz, err).
              let err = (case err of
                           Some e \<Rightarrow> Some e
                         | None \<Rightarrow>
                             if stack \<noteq> [] \<and> sz > hd stack then Some ErrElemTooLarge
                             else if st_limited s \<and> sz > st_remaining s then Some ErrValueTooLarge
                             else None);
                  s = s\<lparr>st_kind := Some k, st_size := sz, st_kinderr := err\<rparr>
              in Ok (s, case err of Some e \<Rightarrow> Inl e | None \<Rightarrow> Inr (k, sz))))"

text \<open>The test \<open>size == 1 && b[0] < 128\<close> for a single byte that should have been its own encoding.\<close>

definition needlessHeader :: "u64 \<Rightarrow> bytes \<Rightarrow> bool outcome" where
  "needlessHeader sz b = (if sz = 1 then bnd (go_index b 0) (\<lambda>c. Ok (c < 128)) else Ok False)"

definition Stream_Bytes :: "Stream \<Rightarrow> (Stream \<times> (rlpError + bytes)) outcome" where
  "Stream_Bytes s =
     bnd (Stream_Kind s) (\<lambda>(s, r).
       case r of
         Inl e \<Rightarrow> Ok (s, Inl e)
       | Inr (KByte, _) \<Rightarrow> Ok (s\<lparr>st_kind := None\<rparr>, Inr [st_byteval s])
       | Inr (KString, sz) \<Rightarrow>
           bnd (go_make sz) (\<lambda>_.
           case readFull s sz of
             (s, Inl e) \<Rightarrow> Ok (s, Inl e)
           | (s, Inr b) \<Rightarrow>
               bnd (needlessHeader sz b) (\<lambda>bad. Ok (s, if bad then Inl ErrCanonSize else Inr b)))
       | Inr (KList, _) \<Rightarrow> Ok (s, Inl ErrExpectedString))"

text \<open>In \<open>Raw\<close> the length of the buffer may wrap around; then slicing it at the size of the header panics.\<close>

definition Stream_Raw :: "Stream \<Rightarrow> (Stream \<times> (rlpError + bytes)) outcome" where
  "Stream_Raw s =
     bnd (Stream_Kind s) (\<lambda>(s, r).
       case r of
         Inl e \<Rightarrow> Ok (s, Inl e)
       | Inr (k, sz) \<Rightarrow>
           if k = KByte then Ok (s\<lparr>st_kind := None\<rparr>, Inr [st_byteval s])
           else
             let start = of_int (headsize sz)
             in bnd (go_make (start + sz)) (\<lambda>_.
                  if start > start + sz then Panic
                  else
                    (case readFull s sz of
                       (s, Inl e) \<Rightarrow> Ok (s, Inl e)
                     | (s, Inr b) \<Rightarrow>
                         Ok (s, Inr ((if k = KString then puthead 0x80 0xB7 sz else puthead 0xC0 0xF7 sz) @ b)))))"

definition Stream_uint :: "Stream \<Rightarrow> nat \<Rightarrow> (Stream \<times> (rlpError + u64)) outcome" where
  "Stream_uint s maxbits =
     bnd (Stream_Kind s) (\<lambda>(s, r).
       case r of
         Inl e \<Rightarrow> Ok (s, Inl e)
       | Inr (KByte, _) \<Rightarrow>
           if st_byteval s = 0 then Ok (s, Inl ErrCanonInt)
           else Ok (s\<lparr>st_kind := None\<rparr>, Inr (ucast (st_byteval s)))
       | Inr (KString, sz) \<Rightarrow>
           if sz > of_nat (maxbits div 8) then Ok (s, Inl ErrUintOverflow)
           else
             bnd (readUint s (ucast sz)) (\<lambda>(s, r).
               case r of
                 Inl e \<Rightarrow> Ok (s, Inl (if e = ErrCanonSize then ErrCanonInt else e))
               | Inr v \<Rightarrow> Ok (s, if sz > 0 \<and> v < 128 then Inl ErrCanonSize else Inr v))
       | Inr (KList, _) \<Rightarrow> Ok (s, Inl ErrExpectedString))"

definition Stream_Bool :: "Stream \<Rightarrow> (Stream \<times> (rlpError + bool)) outcome" where
  "Stream_Bool s =
     bnd (Stream_uint s 8) (\<lambda>(s, r).
       case r of
         Inl e \<Rightarrow> Ok (s, Inl e)
       | Inr num \<Rightarrow>
           Ok (s, if num = 0 then Inr False else if num = 1 then Inr True else Inl (ErrInvalidBool num)))"

definition Stream_List :: "Stream \<Rightarrow> (Stream \<times> (rlpError + u64)) outcome" where
  "Stream_List s =
     bnd (Stream_Kind s) (\<lambda>(s, r).
       case r of
         Inl e \<Rightarrow> Ok (s, Inl e)
       | Inr (k, sz) \<Rightarrow>
           if k \<noteq> KList then Ok (s, Inl ErrExpectedList)
           else
             let outer = (case st_stack s of [] \<Rightarrow> [] | limit # r \<Rightarrow> (limit - sz) # r)
             in Ok (s\<lparr>st_stack := sz # outer, st_kind := None, st_size := 0\<rparr>, Inr sz))"

definition Stream_ListEnd :: "Stream \<Rightarrow> Stream \<times> rlpError option" where
  "Stream_ListEnd s =
     (case st_stack s of
        [] \<Rightarrow> (s, Some ErrNotInList)
      | limit # outer \<Rightarrow>
          if limit > 0 then (s, Some ErrNotAtEOL)
          else (s\<lparr>st_stack := outer, st_kind := None, st_size := 0\<rparr>, None))"

section \<open>Decoders\<close>

text \<open>
  Error values keep the message of a \<open>decodeError\<close>; the Go type and the field path it also
  carries are diagnostics only.
\<close>

fun wrapStreamError :: "rlpError \<Rightarrow> rlpError" where
  "wrapStreamError ErrCanonInt = DecodeError ''non-canonical integer (leading zero bytes)''"
| "wrapStreamError ErrCanonSize = DecodeError ''non-canonical size information''"
| "wrapStreamError ErrExpectedList = DecodeError ''expected input list''"
| "wrapStreamError ErrExpectedString = DecodeError ''expected input string or byte''"
| "wrapStreamError ErrUintOverflow = DecodeError ''input string too long''"
| "wrapStreamError ErrNotAtEOL = DecodeError ''input list has too many elements''"
| "wrapStreamError err = err"

type_synonym decoder = "Stream \<Rightarrow> (Stream \<times> (rlpError + gval)) outcome"

definition decodeRawValue :: decoder where
  "decodeRawValue s =
     bnd (Stream_Raw s) (\<lambda>(s, r).
       case r of Inl e \<Rightarrow> Ok (s, Inl e) | Inr r \<Rightarrow> Ok (s, Inr (VRaw r)))"

definition decodeUint :: "nat \<Rightarrow> decoder" where
  "decodeUint bits s =
     bnd (Stream_uint s bits) (\<lambda>(s, r).
       case r of Inl e \<Rightarrow> Ok (s, Inl (wrapStreamError e)) | Inr num \<Rightarrow> Ok (s, Inr (VUint num)))"

definition decodeBool :: decoder where
  "decodeBool s =
     bnd (Stream_Bool s) (\<lambda>(s, r).
       case r of Inl e \<Rightarrow> Ok (s, Inl (wrapStreamError e)) | Inr b \<Rightarrow> Ok (s, Inr (VBool b)))"

definition decodeString :: decoder where
  "decodeString s =
     bnd (Stream_Bytes s) (\<lambda>(s, r).
       case r of Inl e \<Rightarrow> Ok (s, Inl (wrapStreamError e)) | Inr b \<Rightarrow> Ok (s, Inr (VString b)))"

definition decodeByteSlice :: decoder where
  "decodeByteSlice s =
     bnd (Stream_Bytes s) (\<lambda>(s, r).
       case r of Inl e \<Rightarrow> Ok (s, Inl (wrapStreamError e)) | Inr b \<Rightarrow> Ok (s, Inr (VBytes b)))"

text \<open>The end of \<open>decodeBigInt\<close>: leading zeros are rejected.\<close>

definition setBigInt :: "Stream \<Rightarrow> bytes \<Rightarrow> (Stream \<times> (rlpError + gval)) outcome" where
  "setBigInt s buffer =
     bnd (if length buffer > 0 then bnd (go_index buffer 0) (\<lambda>b. Ok (b = 0)) else Ok False) (\<lambda>bad.
       Ok (s, if bad then Inl (wrapStreamError ErrCanonInt) else Inr (VBigInt (int (be_nat buffer)))))"

text \<open>\<open>s.uintbuf[:n]\<close>: the scratch buffer has 32 bytes.\<close>

definition uintbuf_slice :: "u64 \<Rightarrow> unit outcome" where
  "uintbuf_slice n = (if n \<le> 32 then Ok () else Panic)"

definition decodeBigInt :: decoder where
  "decodeBigInt s =
     bnd (Stream_Kind s) (\<lambda>(s, r).
       case r of
         Inl e \<Rightarrow> Ok (s, Inl (wrapStreamError e))
       | Inr (KList, _) \<Rightarrow> Ok (s, Inl (wrapStreamError ErrExpectedString))
       | Inr (KByte, _) \<Rightarrow> setBigInt (s\<lparr>st_kind := None\<rparr>) [st_byteval s]
       | Inr (KString, sz) \<Rightarrow>
           if sz = 0 then setBigInt (s\<lparr>st_kind := None\<rparr>) []
           else if sz \<le> 32 then
             bnd (uintbuf_slice sz) (\<lambda>_.
             case readFull s sz of
               (s, Inl e) \<Rightarrow> Ok (s, Inl (wrapStreamError e))
             | (s, Inr buffer) \<Rightarrow>
                 bnd (needlessHeader sz buffer) (\<lambda>bad.
                   if bad then Ok (s, Inl (wrapStreamError ErrCanonSize)) else setBigInt s buffer))
           else
             bnd (go_make sz) (\<lambda>_.
             case readFull s sz of
               (s, Inl e) \<Rightarrow> Ok (s, Inl (wrapStreamError e))
             | (s, Inr buffer) \<Rightarrow> setBigInt s buffer))"

text \<open>The store \<open>slice[0] = s.byteval\<close> into the array of \<open>len\<close> bytes panics when the array is empty.\<close>

definition decodeByteArray :: "nat \<Rightarrow> decoder" where
  "decodeByteArray len s =
     bnd (Stream_Kind s) (\<lambda>(s, r).
       case r of
         Inl e \<Rightarrow> Ok (s, Inl e)
       | Inr (KByte, _) \<Rightarrow>
           if len = 0 then Ok (s, Inl (DecodeError ''input string too long''))
           else if len > 1 then Ok (s, Inl (DecodeError ''input string too short''))
           else
             let arr = replicate len 0
             in bnd (go_index arr 0) (\<lambda>_. Ok (s\<lparr>st_kind := None\<rparr>, Inr (VArray (arr[0 := st_byteval s]))))
       | Inr (KString, sz) \<Rightarrow>
           if of_nat len < sz then Ok (s, Inl (DecodeError ''input string too long''))
           else if of_nat len > sz then Ok (s, Inl (DecodeError ''input string too short''))
           else
             (case readFull s sz of
                (s, Inl e) \<Rightarrow> Ok (s, Inl e)
              | (s, Inr b) \<Rightarrow>
                  bnd (needlessHeader sz b) (\<lambda>bad.
                    Ok (s, if bad then Inl (wrapStreamError ErrCanonSize) else Inr (VArray b))))
       | Inr (KList, _) \<Rightarrow> Ok (s, Inl (wrapStreamError ErrExpectedString)))"

text \<open>
  The loop of \<open>decodeSliceElems\<close> has no bound of its own: it ends when an element decoder reports
  the end of the list or an error.  It runs on fuel here.
\<close>

primrec decodeSliceElems :: "nat \<Rightarrow> decoder \<Rightarrow> gval list \<Rightarrow> Stream \<Rightarrow> (Stream \<times> (rlpError + gval list)) outcome" where
  "decodeSliceElems 0 elemdec vs s = NoFuel"
| "decodeSliceElems (Suc n) elemdec vs s =
     bnd (elemdec s) (\<lambda>(s, r).
       case r of
         Inl e \<Rightarrow> if e = EOL then Ok (s, Inr vs) else Ok (s, Inl e)
       | Inr v \<Rightarrow> decodeSliceElems n elemdec (vs @ [v]) s)"

definition decodeListSlice :: "nat \<Rightarrow> decoder \<Rightarrow> decoder" where
  "decodeListSlice n elemdec s =
     (let listEnd = (\<lambda>s vs. case Stream_ListEnd s of
                               (s, Some e) \<Rightarrow> Ok (s, Inl e)
                             | (s, None) \<Rightarrow> Ok (s, Inr (VSlice vs)))
      in bnd (Stream_List s) (\<lambda>(s, r).
           case r of
             Inl e \<Rightarrow> Ok (s, Inl (wrapStreamError e))
           | Inr sz \<Rightarrow>
               if sz = 0 then listEnd s []
               else bnd (decodeSliceElems n elemdec [] s) (\<lambda>(s, r).
                      case r of Inl e \<Rightarrow> Ok (s, Inl e) | Inr vs \<Rightarrow> listEnd s vs)))"

primrec decodeFields :: "decoder list \<Rightarrow> gval list \<Rightarrow> Stream \<Rightarrow> (Stream \<times> (rlpError + gval list)) outcome" where
  "decodeFields [] vs s = Ok (s, Inr vs)"
| "decodeFields (d # ds) vs s =
     bnd (d s) (\<lambda>(s, r).
       case r of
         Inl e \<Rightarrow> Ok (s, Inl (if e = EOL then DecodeError ''too few elements'' else e))
       | Inr v \<Rightarrow> decodeFields ds (vs @ [v]) s)"

definition decodeStruct :: "decoder list \<Rightarrow> decoder" where
  "decodeStruct flds s =
     bnd (Stream_List s) (\<lambda>(s, r).
       case r of
         Inl e \<Rightarrow> Ok (s, Inl (wrapStreamError e))
       | Inr _ \<Rightarrow>
           bnd (decodeFields flds [] s) (\<lambda>(s, r).
             case r of
               Inl e \<Rightarrow> Ok (s, Inl e)
             | Inr vs \<Rightarrow> (case Stream_ListEnd s of
                            (s, Some e) \<Rightarrow> Ok (s, Inl (wrapStreamError e))
                          | (s, None) \<Rightarrow> Ok (s, Inr (VStruct vs)))))"

primrec makeDecoder :: "nat \<Rightarrow> gtype \<Rightarrow> decoder" where
  "makeDecoder n (TUint bits) = decodeUint bits"
| "makeDecoder n TBool = decodeBool"
| "makeDecoder n TBigInt = decodeBigInt"
| "makeDecoder n TBytes = decodeByteSlice"
| "makeDecoder n (TArray len) = decodeByteArray len"
| "makeDecoder n TString = decodeString"
| "makeDecoder n (TSlice t) = decodeListSlice n (makeDecoder n t)"
| "makeDecoder n (TStruct ts) = decodeStruct (map (makeDecoder n) ts)"
| "makeDecoder n TRaw = decodeRawValue"

text \<open>
  Every element consumes at least one byte of the input, so one more unit of fuel than there are
  bytes is enough.
\<close>

definition DecodeBytes :: "bytes \<Rightarrow> gtype \<Rightarrow> (rlpError + gval) outcome" where
  "DecodeBytes b t =
     bnd (makeDecoder (Suc (length b)) t (Stream_Reset b (of_nat (length b)))) (\<lambda>(s, r).
       case r of
         Inl e \<Rightarrow> Ok (Inl e)
       | Inr v \<Rightarrow> if length (st_input s) > 0 then Ok (Inl ErrMoreThanOneValue) else Ok (Inr v))"

end
