(* ===== verification/RlpEncode.thy ===== *)
theory RlpEncode
  imports Rlp
begin

text \<open>
  Correctness of the buffered RLP encoder: for every encodable value the merge of the string
  buffer and the deferred list headers is the recursive encoding of the specification.
\<close>

section \<open>Sizes and headers\<close>

definition byte_len :: "nat \<Rightarrow> nat" where
  "byte_len n = (bit_len n + 7) div 8"

lemma byte_len_le_iff: "byte_len n \<le> k \<longleftrightarrow> n < 256 ^ k"
proof -
  have "byte_len n \<le> k \<longleftrightarrow> bit_len n \<le> 8 * k"
    unfolding byte_len_def by (rule iffI; linarith)
  also have "\<dots> \<longleftrightarrow> n < 2 ^ (8 * k)" by (rule bit_len_le_iff)
  finally show ?thesis by (simp add: power_mult)
qed

lemma byte_len_0 [simp]: "byte_len 0 = 0"
  by (simp add: byte_len_def)

lemma byte_len_unique: "256 ^ k \<le> n \<Longrightarrow> n < 256 ^ Suc k \<Longrightarrow> byte_len n = Suc k"
  using byte_len_le_iff [of n k] byte_len_le_iff [of n "Suc k"] by auto

lemma byte_len_step: "0 < n \<Longrightarrow> byte_len n = Suc (byte_len (n div 256))"
proof -
  assume "0 < n"
  then have p: "0 < byte_len n" using byte_len_le_iff [of n 0] by auto
  have "byte_len n \<le> Suc k \<longleftrightarrow> byte_len (n div 256) \<le> k" for k
    unfolding byte_len_le_iff by (simp add: div_less_iff_less_mult mult.commute)
  from this [of "byte_len n - 1"] this [of "byte_len (n div 256)"] p show ?thesis by linarith
qed

lemma big_bytes_eq: "big_bytes (int n) = to_be (byte_len n) n"
  by (simp add: big_bytes_def byte_len_def)

lemma to_be_Suc_Cons: "to_be (Suc n) v = of_nat (v div 256 ^ n) # to_be n v"
proof (induction n arbitrary: v)
  case (Suc n)
  have "to_be (Suc (Suc n)) v = to_be (Suc n) (v div 256) @ [of_nat v]" by simp
  also have "\<dots> = of_nat (v div 256 div 256 ^ n) # to_be n (v div 256) @ [of_nat v]"
    by (simp only: Suc.IH append_Cons)
  also have "v div 256 div 256 ^ n = v div 256 ^ Suc n" by (simp add: div_mult2_eq)
  finally show ?case by simp
qed simp

lemma shiftBytes_eq: "shiftBytes n i = to_be n (unat i)"
proof (induction n)
  case (Suc n)
  have "(ucast (drop_bit (8 * n) i) :: byte) = of_nat (unat (drop_bit (8 * n) i))" by simp
  also have "unat (drop_bit (8 * n) i) = unat i div 256 ^ n"
    unfolding unat_drop_bit_eq by (simp add: drop_bit_eq_div power_mult)
  finally have e: "(ucast (drop_bit (8 * n) i) :: byte) = of_nat (unat i div 256 ^ n)" .
  have "shiftBytes (Suc n) i = ucast (drop_bit (8 * n) i) # shiftBytes n i"
    by (simp add: shiftBytes_def)
  then show ?case by (simp only: Suc.IH e to_be_Suc_Cons)
qed (simp add: shiftBytes_def)

lemma putint_eq:
  assumes "0 < i"
  shows "putint i = to_be (byte_len (unat i)) (unat i)"
proof -
  let ?n = "unat i"
  have pos: "0 < ?n" using assms by (simp add: word_less_nat_alt)
  note b = byte_len_unique [of 0 ?n] byte_len_unique [of 1 ?n] byte_len_unique [of 2 ?n]
    byte_len_unique [of 3 ?n] byte_len_unique [of 4 ?n] byte_len_unique [of 5 ?n]
    byte_len_unique [of 6 ?n] byte_len_unique [of 7 ?n]
  have "?n < 256 \<Longrightarrow> byte_len ?n = 1"
    and "256 \<le> ?n \<Longrightarrow> ?n < 65536 \<Longrightarrow> byte_len ?n = 2"
    and "65536 \<le> ?n \<Longrightarrow> ?n < 16777216 \<Longrightarrow> byte_len ?n = 3"
    and "16777216 \<le> ?n \<Longrightarrow> ?n < 4294967296 \<Longrightarrow> byte_len ?n = 4"
    and "4294967296 \<le> ?n \<Longrightarrow> ?n < 1099511627776 \<Longrightarrow> byte_len ?n = 5"
    and "1099511627776 \<le> ?n \<Longrightarrow> ?n < 281474976710656 \<Longrightarrow> byte_len ?n = 6"
    and "281474976710656 \<le> ?n \<Longrightarrow> ?n < 72057594037927936 \<Longrightarrow> byte_len ?n = 7"
    and "72057594037927936 \<le> ?n \<Longrightarrow> byte_len ?n = 8"
    using pos b unat_u64_bound [of i] by simp_all
  then show ?thesis
    unfolding putint_def shiftBytes_eq by (simp add: word_less_nat_alt not_less)
qed

lemma intsize_loop_eq: "intsize_loop i sz = sz + int (byte_len (unat i div 256))"
proof (induction i sz rule: intsize_loop.induct)
  case (1 i sz)
  have d: "unat (drop_bit 8 i) = unat i div 256" by (simp add: drop_bit_eq_div unat_div)
  show ?case
  proof (cases "drop_bit 8 i = 0")
    case True
    with d show ?thesis by (simp add: intsize_loop.simps [of i])
  next
    case False
    with d have "0 < unat i div 256" by (metis unat_gt_0)
    with 1 [OF refl False] False d show ?thesis
      by (simp add: intsize_loop.simps [of i] byte_len_step [of "unat i div 256"])
  qed
qed

lemma intsize_eq: "0 < i \<Longrightarrow> intsize i = int (byte_len (unat i))"
  by (simp add: intsize_def intsize_loop_eq byte_len_step [of "unat i"] word_less_nat_alt)

lemma length_puthead: "int (length (puthead a b sz)) = headsize sz"
proof (cases "sz < 56")
  case False
  then have "0 < sz" by (simp add: word_less_nat_alt)
  with False show ?thesis by (simp add: puthead_def headsize_def putint_eq intsize_eq)
qed (simp add: puthead_def headsize_def)

section \<open>Specification\<close>

text \<open>The encoding rules of the RLP specification, as a structural recursion.\<close>

definition rlp_string :: "bytes \<Rightarrow> bytes" where
  "rlp_string b =
     (if length b = 1 \<and> b ! 0 \<le> 0x7F then b else puthead 0x80 0xB7 (of_nat (length b)) @ b)"

definition rlp_list :: "bytes \<Rightarrow> bytes" where
  "rlp_list c = puthead 0xC0 0xF7 (of_nat (length c)) @ c"

primrec rlp_enc :: "gval \<Rightarrow> bytes" where
  "rlp_enc (VUint i) = rlp_string (big_bytes (uint i))"
| "rlp_enc (VBool b) = rlp_string (if b then [1] else [])"
| "rlp_enc (VBigInt i) = rlp_string (big_bytes i)"
| "rlp_enc VBigNil = rlp_string []"
| "rlp_enc (VBytes b) = rlp_string b"
| "rlp_enc (VArray b) = rlp_string b"
| "rlp_enc (VString b) = rlp_string b"
| "rlp_enc (VSlice vs) = rlp_list (concat (map rlp_enc vs))"
| "rlp_enc (VStruct vs) = rlp_list (concat (map rlp_enc vs))"
| "rlp_enc (VRaw b) = b"
| "rlp_enc VInterfaceNil = rlp_list []"
| "rlp_enc (VPtrNil k) = (if k = KString then rlp_string [] else rlp_list [])"

text \<open>A value can be encoded when it contains no negative big integer.\<close>

primrec encodable :: "gval \<Rightarrow> bool" where
  "encodable (VUint i) = True"
| "encodable (VBool b) = True"
| "encodable (VBigInt i) = (0 \<le> i)"
| "encodable VBigNil = True"
| "encodable (VBytes b) = True"
| "encodable (VArray b) = True"
| "encodable (VString b) = True"
| "encodable (VSlice vs) = list_all encodable vs"
| "encodable (VStruct vs) = list_all encodable vs"
| "encodable (VRaw b) = True"
| "encodable VInterfaceNil = True"
| "encodable (VPtrNil k) = True"

section \<open>Merging the two buffers\<close>

text \<open>
  \<open>assemble s p hs\<close> is what the merge produces from the string data \<open>s\<close>, whose first byte is
  at offset \<open>p\<close>, and the headers \<open>hs\<close>.
\<close>

primrec assemble :: "listhead list \<Rightarrow> bytes \<Rightarrow> int \<Rightarrow> bytes" where
  "assemble [] s p = s"
| "assemble (h # hs) s p =
     take (nat (lh_offset h - p)) s @ listhead_encode h @
     assemble hs (drop (nat (lh_offset h - p)) s) (lh_offset h)"

primrec heads_ok :: "listhead list \<Rightarrow> int \<Rightarrow> int \<Rightarrow> bool" where
  "heads_ok [] p e \<longleftrightarrow> p \<le> e"
| "heads_ok (h # hs) p e \<longleftrightarrow> p \<le> lh_offset h \<and> heads_ok hs (lh_offset h) e"

lemma heads_ok_le: "heads_ok hs p e \<Longrightarrow> p \<le> e"
  by (induction hs arbitrary: p) fastforce+

lemma heads_ok_append:
  "heads_ok hs1 p q \<Longrightarrow> heads_ok hs2 q e \<Longrightarrow> heads_ok (hs1 @ hs2) p e"
proof (induction hs1 arbitrary: p)
  case Nil
  then show ?case by (cases hs2) auto
qed auto

lemma assemble_append_data:
  assumes "heads_ok hs (p + int (length s1)) e"
  shows "assemble hs (s1 @ s2) p = s1 @ assemble hs s2 (p + int (length s1))"
proof (cases hs)
  case (Cons h hs')
  then have "int (length s1) \<le> lh_offset h - p" using assms by simp
  then have "nat (lh_offset h - p) = length s1 + nat (lh_offset h - (p + int (length s1)))" by simp
  then show ?thesis using Cons by simp
qed simp

lemma assemble_append:
  assumes "heads_ok hs1 p (p + int (length s1))" "heads_ok hs2 (p + int (length s1)) e"
  shows "assemble (hs1 @ hs2) (s1 @ s2) p = assemble hs1 s1 p @ assemble hs2 s2 (p + int (length s1))"
  using assms
proof (induction hs1 arbitrary: s1 p)
  case Nil
  then show ?case by (simp add: assemble_append_data)
next
  case (Cons h hs1)
  let ?n = "nat (lh_offset h - p)"
  from Cons.prems(1) have le: "p \<le> lh_offset h" "heads_ok hs1 (lh_offset h) (p + int (length s1))"
    by auto
  from heads_ok_le [OF le(2)] le(1) have n: "?n \<le> length s1" "int ?n = lh_offset h - p" by linarith+
  have len: "lh_offset h + int (length (drop ?n s1)) = p + int (length s1)" using n by simp
  have "assemble (hs1 @ hs2) (drop ?n s1 @ s2) (lh_offset h) =
    assemble hs1 (drop ?n s1) (lh_offset h) @ assemble hs2 s2 (p + int (length s1))"
    using Cons.IH [of "lh_offset h" "drop ?n s1"] le(2) Cons.prems(2) unfolding len by simp
  with n show ?case by simp
qed

lemma toBytes_loop_eq:
  assumes "heads_ok hs (int strpos) (int (length str))"
    "length out = pos + length (assemble hs (drop strpos str) (int strpos))"
  shows "toBytes_loop hs str out strpos pos = Ok (take pos out @ assemble hs (drop strpos str) (int strpos))"
  using assms
proof (induction hs arbitrary: out strpos pos)
  case Nil
  then show ?case by (simp add: copy_at_def)
next
  case (Cons h hs)
  let ?o = "nat (lh_offset h)"
  from Cons.prems(1) have o: "strpos \<le> ?o" "int ?o = lh_offset h"
    and ok: "heads_ok hs (int ?o) (int (length str))" by auto
  have len: "?o \<le> length str" using heads_ok_le [OF ok] by linarith
  let ?piece = "slice str strpos ?o" and ?enc = "listhead_encode h"
  have piece: "?piece = take (?o - strpos) (drop strpos str)" "length ?piece = ?o - strpos"
    using o len by (simp_all add: slice_def)
  have out: "length out = pos + (?o - strpos) + length ?enc + length (assemble hs (drop ?o str) (int ?o))"
    using Cons.prems(2) o len by (simp add: nat_diff_distrib' add.assoc)
  let ?out1 = "copy_at out pos ?piece" and ?pos1 = "pos + (?o - strpos)"
  let ?out2 = "copy_at ?out1 ?pos1 ?enc"
  have l: "length ?out1 = length out" "length ?out2 = length out" using out by simp_all
  have t1: "take ?pos1 ?out1 = take pos out @ ?piece"
    using out piece(2) by (simp add: copy_at_def)
  have t2: "take (?pos1 + length ?enc) ?out2 = take ?pos1 ?out1 @ ?enc"
    using out l(1) by (simp add: copy_at_def [of ?out1])
  have "toBytes_loop (h # hs) str out strpos pos =
      toBytes_loop hs str ?out2 ?o (?pos1 + length ?enc)"
  proof -
    have c: "int strpos \<le> lh_offset h \<and> lh_offset h \<le> int (length str) \<and> pos \<le> length out"
      using o len out by linarith
    have n: "min (length out - pos) (length ?piece) = ?o - strpos" using out piece(2) by simp
    have d: "?pos1 + length ?enc \<le> length ?out1" using out l(1) by simp
    show ?thesis
      using o(1) unfolding toBytes_loop.simps Let_def if_P [OF c] n if_P [OF d] by simp
  qed
  also have "\<dots> = Ok (take (?pos1 + length ?enc) ?out2 @ assemble hs (drop ?o str) (int ?o))"
    using ok out l by (intro Cons.IH) simp_all
  also have "\<dots> = Ok (take pos out @ assemble (h # hs) (drop strpos str) (int strpos))"
  proof -
    have m: "nat (lh_offset h - int strpos) = ?o - strpos" using o by linarith
    have "take (?pos1 + length ?enc) ?out2 = take pos out @ ?piece @ ?enc" using t1 t2 by simp
    then show ?thesis using o piece(1) unfolding assemble.simps m by simp
  qed
  finally show ?case .
qed

section \<open>The writers\<close>

text \<open>
  \<open>appends w w' b\<close>: the buffer \<open>w'\<close> extends \<open>w\<close> by string data and closed headers that together
  are the encoding \<open>b\<close>, and the header sizes are accounted for.
\<close>

definition appends :: "encbuf \<Rightarrow> encbuf \<Rightarrow> bytes \<Rightarrow> bool" where
  "appends w w' b \<longleftrightarrow> (\<exists>s hs.
     eb_str w' = eb_str w @ s \<and> eb_lheads w' = eb_lheads w @ hs \<and>
     heads_ok hs (int (length (eb_str w))) (int (length (eb_str w)) + int (length s)) \<and>
     assemble hs s (int (length (eb_str w))) = b \<and>
     eb_lhsize w' = eb_lhsize w + int (length b) - int (length s))"

lemma appends_append [simp]: "appends w (encbuf_append w b) b"
  unfolding appends_def encbuf_append_def by (intro exI [of _ b] exI [of _ "[]"]) simp

lemma appends_refl [simp]: "appends w w []"
  unfolding appends_def by (intro exI [of _ "[]"]) simp

lemma appends_trans:
  assumes "appends w w1 b1" "appends w1 w2 b2"
  shows "appends w w2 (b1 @ b2)"
proof -
  obtain s1 hs1 where 1: "eb_str w1 = eb_str w @ s1" "eb_lheads w1 = eb_lheads w @ hs1"
    "heads_ok hs1 (int (length (eb_str w))) (int (length (eb_str w)) + int (length s1))"
    "assemble hs1 s1 (int (length (eb_str w))) = b1"
    "eb_lhsize w1 = eb_lhsize w + int (length b1) - int (length s1)"
    using assms(1) unfolding appends_def by blast
  obtain s2 hs2 where 2: "eb_str w2 = eb_str w1 @ s2" "eb_lheads w2 = eb_lheads w1 @ hs2"
    "heads_ok hs2 (int (length (eb_str w1))) (int (length (eb_str w1)) + int (length s2))"
    "assemble hs2 s2 (int (length (eb_str w1))) = b2"
    "eb_lhsize w2 = eb_lhsize w1 + int (length b2) - int (length s2)"
    using assms(2) unfolding appends_def by blast
  let ?p = "int (length (eb_str w))"
  have q: "int (length (eb_str w1)) = ?p + int (length s1)" using 1 by simp
  have "heads_ok (hs1 @ hs2) ?p (?p + int (length (s1 @ s2)))"
    using heads_ok_append [OF 1(3) 2(3) [unfolded q]] by (simp add: add.assoc)
  moreover have "assemble (hs1 @ hs2) (s1 @ s2) ?p = b1 @ b2"
    using assemble_append [OF 1(3) 2(3) [unfolded q]] 1(4) 2(4) q by simp
  ultimately show ?thesis
    unfolding appends_def using 1 2 by (intro exI [of _ "s1 @ s2"] exI [of _ "hs1 @ hs2"]) simp
qed

lemma ucast_of_nat_byte: "n < 2 ^ 64 \<Longrightarrow> (ucast (of_nat n :: u64) :: byte) = of_nat n"
proof -
  assume "n < 2 ^ 64"
  then have e: "unat (of_nat n :: u64) = n" by (intro unat_of_nat_u64) simp
  have "(ucast i :: byte) = of_nat (unat i)" for i :: u64 by simp
  from this [of "of_nat n"] show ?thesis unfolding e .
qed

lemma encodeStringHeader_eq:
  assumes "n < 2 ^ 64"
  shows "encodeStringHeader w (int n) = encbuf_append w (puthead 0x80 0xB7 (of_nat n))"
proof -
  have "(of_nat n :: u64) < 56 \<longleftrightarrow> n < 56"
    using assms by (simp add: word_less_nat_alt unat_of_nat_u64)
  then show ?thesis
    using ucast_of_nat_byte [OF assms] by (simp add: encodeStringHeader_def puthead_def Let_def)
qed

lemma encbuf_append_append [simp]: "encbuf_append (encbuf_append w a) b = encbuf_append w (a @ b)"
  by (simp add: encbuf_append_def)

lemma encodeString_eq:
  "length b < 2 ^ 64 \<Longrightarrow> encodeString w b = encbuf_append w (rlp_string b)"
  by (auto simp: encodeString_def rlp_string_def encodeStringHeader_eq length_Suc_conv)

lemma writeByteArray_eq:
  assumes "length b < 2 ^ 64"
  shows "writeByteArray b w = encbuf_append w (rlp_string b)"
proof -
  have "puthead 0x80 0xB7 (of_nat 0) = [0x80]" "puthead 0x80 0xB7 (of_nat (Suc 0)) = [0x81]"
    by (simp_all add: puthead_def)
  with assms show ?thesis
    by (cases b rule: remdups_adj.cases)
      (simp_all add: writeByteArray_def rlp_string_def encodeStringHeader_eq del: of_nat_Suc of_nat_0)
qed

lemma big_bytes_small:
  assumes "0 < n" "n < 256"
  shows "big_bytes (int n) = [of_nat n]"
proof -
  have "byte_len n = 1" using byte_len_unique [of 0 n] assms by simp
  then show ?thesis by (simp add: big_bytes_eq)
qed

lemma puthead_short: "n < 56 \<Longrightarrow> puthead a b (of_nat n) = [a + of_nat n]"
  using ucast_of_nat_byte [of n] by (simp add: puthead_def word_less_nat_alt unat_of_nat_u64)

lemma byte_len_u64: "byte_len (unat (i :: u64)) \<le> 8"
  using unat_u64_bound [of i] by (simp add: byte_len_le_iff)

lemma length_puthead_le: "length (puthead x y sz) \<le> 9"
proof (cases "sz < 56")
  case False
  then have "0 < sz" by (simp add: word_less_nat_alt)
  with False length_puthead [of x y sz] byte_len_u64 [of sz] show ?thesis by (simp add: headsize_def intsize_eq)
qed (use length_puthead [of x y sz] in \<open>simp add: headsize_def\<close>)

lemma length_rlp_string_le: "length (rlp_string b) \<le> 9 + length b"
  using length_puthead_le [of "0x80" "0xB7" "of_nat (length b)"] by (simp add: rlp_string_def)

lemma length_rlp_list_le: "length (rlp_list b) \<le> 9 + length b"
  using length_puthead_le [of "0xC0" "0xF7" "of_nat (length b)"] by (simp add: rlp_list_def)

lemma encodeUint_eq: "encodeUint w i = encbuf_append w (rlp_string (big_bytes (uint i)))"
proof -
  let ?n = "unat i"
  have u: "uint i = int ?n" by simp
  consider "?n = 0" | "0 < ?n" "?n < 128" | "128 \<le> ?n" by linarith
  then show ?thesis
  proof cases
    case 1
    then have "i = 0" by (simp add: unsigned_eq_0_iff)
    then show ?thesis by (simp add: encodeUint_def rlp_string_def big_bytes_def puthead_def)
  next
    case 2
    then have "big_bytes (uint i) = [of_nat ?n]" unfolding u by (intro big_bytes_small) auto
    moreover have "unat (of_nat ?n :: byte) = ?n"
      using 2 by (subst unat_of_nat) simp
    then have "(of_nat ?n :: byte) \<le> 0x7F"
      using 2 unfolding word_le_nat_alt by simp
    moreover have "(of_nat ?n :: byte) = ucast i" by simp
    moreover have "i \<noteq> 0" using 2(1) by (simp add: unat_gt_0)
    ultimately show ?thesis
      using 2 by (simp add: encodeUint_def rlp_string_def word_less_nat_alt)
  next
    case 3
    let ?b = "big_bytes (uint i)"
    have i: "0 < i" "\<not> i < 128" "i \<noteq> 0" using 3 by (auto simp: word_less_nat_alt)
    have b: "putint i = ?b" using i(1) unfolding u big_bytes_eq by (rule putint_eq)
    have len: "length ?b \<le> 8" using byte_len_u64 [of i] unfolding u big_bytes_eq by simp
    have "\<not> (length ?b = 1 \<and> ?b ! 0 \<le> 0x7F)"
    proof
      assume *: "length ?b = 1 \<and> ?b ! 0 \<le> 0x7F"
      then obtain c where c: "?b = [c]" by (cases ?b) auto
      with * have "unat c < 128" by (simp add: word_le_nat_alt)
      moreover have "be_nat ?b = unat c" using c by (simp add: be_nat_def)
      ultimately show False using 3 by simp
    qed
    then show ?thesis
      using i b len puthead_short [of "length ?b"]
      by (auto simp: encodeUint_def rlp_string_def Let_def)
  qed
qed

lemma writeBigInt_eq:
  assumes "0 \<le> i" "length (big_bytes i) < 2 ^ 64"
  shows "writeBigInt i w = (encbuf_append w (rlp_string (big_bytes i)), None)"
proof (cases "bit_len (nat i) \<le> 64")
  case True
  then have "nat i < 2 ^ 64" by (simp only: bit_len_le_iff)
  then have "i < 2 ^ 64" using assms(1) by (simp add: nat_less_iff)
  then have "uint (of_int i :: u64) = i" using assms(1) by (simp add: uint_word_of_int)
  with True assms(1) show ?thesis by (simp add: writeBigInt_def encodeUint_eq)
next
  case False
  then have "1 < length (big_bytes i)" using assms(1) by (simp add: length_big_bytes)
  with False assms show ?thesis
    by (simp add: writeBigInt_def Let_def rlp_string_def encodeStringHeader_eq big_bytes_def)
qed

text \<open>Opening a header, writing the content and closing the header appends the list encoding.\<close>

lemma appends_list:
  assumes "encbuf_list w = (w0, lh)" "appends w0 w1 c" "length c < 2 ^ 64"
  shows "appends w (encbuf_listEnd w1 lh) (rlp_list c)"
proof -
  let ?p = "int (length (eb_str w))"
  have w0: "w0 = w\<lparr>eb_lheads := eb_lheads w @ [\<lparr>lh_offset = ?p, lh_size = eb_lhsize w\<rparr>]\<rparr>"
    and lh: "lh = length (eb_lheads w)"
    using assms(1) by (simp_all add: encbuf_list_def)
  obtain s hs where 1: "eb_str w1 = eb_str w0 @ s" "eb_lheads w1 = eb_lheads w0 @ hs"
    "heads_ok hs ?p (?p + int (length s))" "assemble hs s ?p = c"
    "eb_lhsize w1 = eb_lhsize w0 + int (length c) - int (length s)"
    using assms(2) unfolding appends_def by (auto simp: w0)
  let ?h = "\<lparr>lh_offset = ?p, lh_size = int (length c)\<rparr>"
  let ?n = "of_nat (length c) :: u64"
  have enc: "listhead_encode ?h = puthead 0xC0 0xF7 ?n" by (simp add: listhead_encode_def)
  have "?n < 56 \<longleftrightarrow> length c < 56"
    using assms(3) by (simp add: word_less_nat_alt unat_of_nat_u64)
  then have hs: "(if int (length c) < 56 then 1 else 1 + intsize ?n) = int (length (puthead 0xC0 0xF7 ?n))"
    by (simp add: length_puthead headsize_def)
  have end_: "encbuf_listEnd w1 lh =
    w1\<lparr>eb_lheads := eb_lheads w @ ?h # hs,
       eb_lhsize := eb_lhsize w1 + (if int (length c) < 56 then 1 else 1 + intsize ?n)\<rparr>"
    using 1 by (simp add: encbuf_listEnd_def Let_def lh w0 nth_append encbuf_size_def)
  show ?thesis
    unfolding appends_def end_ hs
    using 1 enc by (intro exI [of _ s] exI [of _ "?h # hs"]) (simp add: w0 rlp_list_def)
qed

lemma writeElems_appends:
  assumes "\<And>v w. v \<in> set vs \<Longrightarrow> \<exists>w'. encbuf_write v w = (w', None) \<and> appends w w' (rlp_enc v)"
  shows "\<exists>w'. writeElems (map encbuf_write vs) w = (w', None) \<and>
    appends w w' (concat (map rlp_enc vs))"
  using assms
proof (induction vs arbitrary: w)
  case (Cons v vs)
  obtain w1 where w1: "encbuf_write v w = (w1, None)" "appends w w1 (rlp_enc v)"
    using Cons.prems [of v w] by auto
  obtain w2 where w2: "writeElems (map encbuf_write vs) w1 = (w2, None)"
    "appends w1 w2 (concat (map rlp_enc vs))"
    using Cons.IH [of w1] Cons.prems by auto
  from appends_trans [OF w1(2) w2(2)] w1(1) w2(1) show ?case by auto
qed simp

lemma length_rlp_string: "length b \<le> length (rlp_string b)"
  by (simp add: rlp_string_def)

lemma length_concat_le: "(\<And>v. v \<in> set vs \<Longrightarrow> length (f v) \<le> k) \<Longrightarrow> length (concat (map f vs)) \<le> length vs * k"
  by (induction vs) fastforce+

lemma length_concat_mem: "v \<in> set vs \<Longrightarrow> length (f v) \<le> length (concat (map f vs))"
  by (induction vs) auto

lemma encbuf_write_list:
  assumes "\<And>v w. v \<in> set vs \<Longrightarrow> \<exists>w'. encbuf_write v w = (w', None) \<and> appends w w' (rlp_enc v)"
    "length (concat (map rlp_enc vs)) < 2 ^ 64"
  shows "\<exists>w'. writeList (map encbuf_write vs) w = (w', None) \<and>
    appends w w' (rlp_list (concat (map rlp_enc vs)))"
proof -
  obtain w0 lh where l: "encbuf_list w = (w0, lh)" by (cases "encbuf_list w")
  obtain w1 where w1: "writeElems (map encbuf_write vs) w0 = (w1, None)"
    "appends w0 w1 (concat (map rlp_enc vs))"
    using writeElems_appends assms(1) by blast
  from appends_list [OF l w1(2) assms(2)] l w1(1) show ?thesis by (simp add: writeList_def)
qed

lemma encbuf_write_appends:
  assumes "encodable v" "length (rlp_enc v) < 2 ^ 64"
  shows "\<exists>w'. encbuf_write v w = (w', None) \<and> appends w w' (rlp_enc v)"
  using assms
proof (induction v arbitrary: w)
  case (VBigInt i)
  then have "length (big_bytes i) < 2 ^ 64" using length_rlp_string [of "big_bytes i"] by simp
  with VBigInt show ?case by (simp add: writeBigInt_eq)
next
  case (VBytes b)
  then have "length b < 2 ^ 64" using length_rlp_string [of b] by simp
  then show ?case by (simp add: encodeString_eq)
next
  case (VString b)
  then have "length b < 2 ^ 64" using length_rlp_string [of b] by simp
  then show ?case by (simp add: encodeString_eq)
next
  case (VArray b)
  then have "length b < 2 ^ 64" using length_rlp_string [of b] by simp
  then show ?case by (simp add: writeByteArray_eq)
next
  case (VSlice vs)
  then have len: "length (concat (map rlp_enc vs)) < 2 ^ 64" by (simp add: rlp_list_def)
  have "\<exists>w'. encbuf_write v w = (w', None) \<and> appends w w' (rlp_enc v)" if "v \<in> set vs" for v w
    using VSlice that len length_concat_mem [OF that, of rlp_enc]
    by (auto simp: list_all_iff intro!: VSlice.IH)
  from encbuf_write_list [OF this len] show ?case by simp
next
  case (VStruct vs)
  then have len: "length (concat (map rlp_enc vs)) < 2 ^ 64" by (simp add: rlp_list_def)
  have "\<exists>w'. encbuf_write v w = (w', None) \<and> appends w w' (rlp_enc v)" if "v \<in> set vs" for v w
    using VStruct that len length_concat_mem [OF that, of rlp_enc]
    by (auto simp: list_all_iff intro!: VStruct.IH)
  from encbuf_write_list [OF this len] show ?case by simp
next
  case VInterfaceNil
  have "rlp_list [] = [0xC0]" by (simp add: rlp_list_def puthead_def)
  then show ?case by simp
next
  case (VPtrNil k)
  obtain w0 lh where l: "encbuf_list w = (w0, lh)" by (cases "encbuf_list w")
  have "rlp_string [] = [0x80]" by (simp add: rlp_string_def puthead_def)
  with appends_list [OF l appends_refl] l show ?case by simp
next
  case VBigNil
  have "rlp_string [] = [0x80]" by (simp add: rlp_string_def puthead_def)
  then show ?case by simp
next
  case (VBool b)
  have "rlp_string [] = [0x80]" "rlp_string [1] = [1]" by (simp_all add: rlp_string_def puthead_def)
  then show ?case by (simp add: writeBool_def)
qed (simp_all add: encodeUint_eq)

lemma EncodeToBytes_eq:
  assumes "encodable v" "length (rlp_enc v) < 2 ^ 64"
  shows "EncodeToBytes v = Ok (Inr (rlp_enc v))"
proof -
  obtain w where w: "encbuf_write v encbuf_reset = (w, None)" "appends encbuf_reset w (rlp_enc v)"
    using encbuf_write_appends [OF assms] by blast
  then obtain s hs where 1: "eb_str w = s" "eb_lheads w = hs" "heads_ok hs 0 (int (length s))"
    "assemble hs s 0 = rlp_enc v" "eb_lhsize w = int (length (rlp_enc v)) - int (length s)"
    unfolding appends_def by (auto simp: encbuf_reset_def)
  then have "encbuf_size w = int (length (rlp_enc v))" by (simp add: encbuf_size_def)
  with toBytes_loop_eq [of hs 0 s "replicate (length (rlp_enc v)) 0" 0] 1
  have "toBytes w = Ok (rlp_enc v)" by (simp add: toBytes_def)
  with w(1) show ?thesis by (simp add: EncodeToBytes_def)
qed

end
