(* ===== verification/RlpDecode.thy ===== *)
theory RlpDecode
  imports RlpEncode
begin

text \<open>
  Correctness of the stream decoder: decoding the encoding of a value at its type gives the value
  back and consumes exactly the encoding, with the list limits and the input limit in force.
  On any input the decoder returns a value or an error: it neither panics nor runs out of fuel.
\<close>

section \<open>Reading\<close>

text \<open>\<open>advance s n\<close> is the stream after \<open>n\<close> bytes have been read.\<close>

definition advance :: "Stream \<Rightarrow> nat \<Rightarrow> Stream" where
  "advance s n =
     s\<lparr>st_input := drop n (st_input s), st_remaining := st_remaining s - of_nat n,
       st_stack := (case st_stack s of [] \<Rightarrow> [] | l # r \<Rightarrow> (l - of_nat n) # r), st_kind := None\<rparr>"

definition can_read :: "Stream \<Rightarrow> nat \<Rightarrow> bool" where
  "can_read s n \<longleftrightarrow> n \<le> length (st_input s) \<and> n \<le> unat (st_remaining s) \<and>
     (st_stack s = [] \<or> n \<le> unat (hd (st_stack s)))"

lemma unat_of_nat_le: "n \<le> unat (x :: u64) \<Longrightarrow> unat (of_nat n :: u64) = n"
  using unat_u64_bound [of x] by (intro unat_of_nat_u64) simp

lemma of_nat_le_u64: "n \<le> unat (x :: u64) \<Longrightarrow> of_nat n \<le> x"
  by (simp add: word_le_nat_alt unat_of_nat_le)

lemma can_read_mono: "can_read s n \<Longrightarrow> m \<le> n \<Longrightarrow> can_read s m"
  by (auto simp: can_read_def)

lemma can_read_advance:
  assumes "can_read s (m + n)"
  shows "can_read (advance s m) n"
proof -
  have "n \<le> unat (x - of_nat m)" if "m + n \<le> unat (x :: u64)" for x
  proof -
    have "of_nat m \<le> x" using that by (intro of_nat_le_u64) simp
    then have "unat (x - of_nat m) = unat x - unat (of_nat m :: u64)" by (rule unat_sub_le)
    also have "unat (of_nat m :: u64) = m" using that by (intro unat_of_nat_le [of _ x]) simp
    finally show ?thesis using that by simp
  qed
  with assms show ?thesis by (auto simp: can_read_def advance_def split: list.splits)
qed

lemma advance_advance [simp]: "advance (advance s m) n = advance s (m + n)"
  by (auto simp: advance_def add.commute diff_diff_eq split: list.splits)

lemma advance_sel [simp]:
  "st_input (advance s n) = drop n (st_input s)" "st_kind (advance s n) = None"
  "st_limited (advance s n) = st_limited s" "st_stack (advance s n) = [] \<longleftrightarrow> st_stack s = []"
  by (auto simp: advance_def split: list.splits)

lemma willRead_eq:
  assumes "can_read s n"
  shows "willRead s (of_nat n) = ((advance s n)\<lparr>st_input := st_input s,
    st_remaining := (if st_limited s then st_remaining s - of_nat n else st_remaining s)\<rparr>, None)"
proof -
  have nl: "\<not> x < of_nat n" if "n \<le> unat x" for x :: u64
    using of_nat_le_u64 [OF that] by (simp add: not_less)
  show ?thesis
  proof (cases "st_stack s")
    case Nil
    with assms nl [of "st_remaining s"] show ?thesis
      by (simp add: can_read_def willRead_def advance_def)
  next
    case (Cons l r)
    with assms nl [of "st_remaining s"] nl [of l] show ?thesis
      by (simp add: can_read_def willRead_def advance_def)
  qed
qed

lemma readFull_eq:
  assumes "can_read s n" "st_limited s"
  shows "readFull s (of_nat n) = (advance s n, Inr (take n (st_input s)))"
proof -
  have "unat (of_nat n :: u64) = n" using assms(1) unat_of_nat_le by (auto simp: can_read_def)
  with assms show ?thesis by (simp add: readFull_def willRead_eq can_read_def) (simp add: advance_def)
qed

lemma readByte_eq:
  assumes "can_read s 1" "st_limited s"
  shows "readByte s = (advance s 1, Inr (hd (st_input s)))"
proof -
  obtain b r where "st_input s = b # r" using assms(1) by (cases "st_input s") (auto simp: can_read_def)
  with willRead_eq [OF assms(1)] assms(2) show ?thesis
    by (simp add: readByte_def) (simp add: advance_def)
qed

text \<open>A minimal big-endian number has a non-zero first byte.\<close>

lemma to_be_byte_len_hd:
  assumes "0 < n"
  shows "to_be (byte_len n) n \<noteq> []" "to_be (byte_len n) n ! 0 \<noteq> 0"
proof -
  have pos: "0 < byte_len n" using assms by (simp add: byte_len_step)
  then obtain k where k: "byte_len n = Suc k" by (cases "byte_len n") auto
  have "n < 256 ^ Suc k" "\<not> n < 256 ^ k"
    using byte_len_le_iff [of n "Suc k"] byte_len_le_iff [of n k] k by auto
  then have "0 < n div 256 ^ k" "n div 256 ^ k < 256"
    by (simp_all add: div_greater_zero_iff div_less_iff_less_mult)
  then have "(of_nat (n div 256 ^ k) :: byte) \<noteq> 0"
    by (simp add: word_of_nat_eq_0_iff nat_dvd_not_less)
  then show "to_be (byte_len n) n \<noteq> []" "to_be (byte_len n) n ! 0 \<noteq> 0"
    unfolding k to_be_Suc_Cons by simp_all
qed

lemma length_readFull: "readFull s n = (t, Inr b) \<Longrightarrow> length b = unat n"
  by (auto simp: readFull_def split: prod.splits option.splits if_splits)

text \<open>Numbers of at most eight bytes fit the scratch buffer.\<close>

lemma readUint_fits:
  assumes "sz \<le> 8"
  shows "readUint s sz = Ok (if sz = 0 then (s\<lparr>st_kind := None\<rparr>, Inr 0)
      else if sz = 1 then (case readByte s of (s, Inl e) \<Rightarrow> (s, Inl e) | (s, Inr b) \<Rightarrow> (s, Inr (ucast b)))
      else (case readFull s (ucast sz) of
             (s, Inl e) \<Rightarrow> (s, Inl e)
           | (s, Inr buffer) \<Rightarrow> if buffer ! 0 = 0 then (s, Inl ErrCanonSize) else (s, Inr (of_nat (be_nat buffer)))))"
proof -
  have st: "unat (8 - sz) = 8 - unat sz" "unat sz \<le> 8" using assms by (simp_all add: unat_sub_le word_le_nat_alt)
  have w: "(of_nat (8 - unat (8 - sz)) :: u64) = ucast sz" using st by simp
  have "go_index (replicate (unat (8 - sz)) 0 @ b) (int (unat (8 - sz))) = Ok (b ! 0)"
    if "readFull s (ucast sz) = (t, Inr b)" "sz \<noteq> 0" for t and b :: bytes
  proof -
    have "unat (of_nat (unat sz) :: u64) = unat sz" using unat_byte_bound [of sz] by (intro unat_of_nat_u64) simp
    then have "length b = unat sz" using length_readFull [OF that(1)] by simp
    moreover have "0 < uint sz" using that(2) by (metis uint_0_iff uint_ge_0 order_less_le)
    ultimately show ?thesis by (simp add: go_index_def nth_append)
  qed
  then show ?thesis
    using st unfolding readUint_def Let_def w
    by (auto simp: be_nat_append split: prod.splits sum.splits)
qed

lemma readUint_eq:
  assumes "can_read s (byte_len (unat i))" "st_limited s" "0 < i"
    "take (byte_len (unat i)) (st_input s) = to_be (byte_len (unat i)) (unat i)"
  shows "readUint s (of_nat (byte_len (unat i))) = Ok (advance s (byte_len (unat i)), Inr i)"
proof -
  let ?k = "byte_len (unat i)"
  have pos: "0 < unat i" using assms(3) by (simp add: word_less_nat_alt)
  have k: "0 < ?k" using pos by (simp add: byte_len_step)
  have "?k \<le> 8" by (rule byte_len_u64)
  have u: "unat (of_nat ?k :: byte) = ?k" using \<open>?k \<le> 8\<close> by (subst unat_of_nat) simp
  then have z: "(of_nat ?k :: byte) \<noteq> 0" using k by (metis less_numeral_extra(3) unsigned_0)
  have le: "(of_nat ?k :: byte) \<le> 8" using u \<open>?k \<le> 8\<close> by (simp add: word_le_nat_alt)
  have val: "(of_nat (be_nat (to_be ?k (unat i))) :: u64) = i"
    using less_256_byte_len [of "unat i"] by (simp add: be_nat_to_be_less byte_len_def)
  show ?thesis
  proof (cases "?k = 1")
    case True
    then have "(of_nat ?k :: byte) = 1" by simp
    obtain b where b: "to_be ?k (unat i) = [b]" "hd (st_input s) = b"
      using assms(4) True by (cases "st_input s") auto
    have "(ucast b :: u64) = of_nat (unat b)" by simp
    then have "ucast b = i" using val b(1) by (simp add: be_nat_def)
    with True b assms readByte_eq [of s] show ?thesis using readUint_fits [of 1 s] by simp
  next
    case False
    then have n1: "(of_nat ?k :: byte) \<noteq> 1" using u by (metis unsigned_1)
    have "(ucast (of_nat ?k :: byte) :: u64) = of_nat (unat (of_nat ?k :: byte))" by simp
    then have c: "(ucast (of_nat ?k :: byte) :: u64) = of_nat ?k" unfolding u .
    have "to_be ?k (unat i) ! 0 \<noteq> 0" using pos by (rule to_be_byte_len_hd)
    with z n1 assms val show ?thesis by (simp add: readUint_fits [OF le] c readFull_eq)
  qed
qed

section \<open>Headers\<close>

text \<open>Two streams at the same position: they may differ in the cached size, error and byte.\<close>

definition same_pos :: "Stream \<Rightarrow> Stream \<Rightarrow> bool" where
  "same_pos s t \<longleftrightarrow> st_input s = st_input t \<and> st_remaining s = st_remaining t \<and>
     st_stack s = st_stack t \<and> st_kind s = st_kind t \<and> st_limited s = st_limited t"

lemma same_pos_refl [simp]: "same_pos s s"
  by (simp add: same_pos_def)

lemma same_pos_trans: "same_pos s t \<Longrightarrow> same_pos t u \<Longrightarrow> same_pos s u"
  by (simp add: same_pos_def)

lemma same_pos_byteval [simp]: "same_pos (s\<lparr>st_byteval := b\<rparr>) s"
  by (simp add: same_pos_def)

lemma same_pos_advance: "same_pos s t \<Longrightarrow> same_pos (advance s n) (advance t n)"
  by (simp add: same_pos_def advance_def)

lemma same_pos_can_read: "same_pos s t \<Longrightarrow> can_read s n = can_read t n"
  by (simp add: same_pos_def can_read_def)

fun header_tags :: "Kind \<Rightarrow> byte \<times> byte" where
  "header_tags KList = (0xC0, 0xF7)"
| "header_tags _ = (0x80, 0xB7)"

definition header :: "Kind \<Rightarrow> nat \<Rightarrow> bytes" where
  "header k n = puthead (fst (header_tags k)) (snd (header_tags k)) (of_nat n)"

lemma rlp_string_header:
  "rlp_string b = (if length b = 1 \<and> b ! 0 \<le> 0x7F then b else header KString (length b) @ b)"
  by (simp add: rlp_string_def header_def)

lemma rlp_list_header: "rlp_list c = header KList (length c) @ c"
  by (simp add: rlp_list_def header_def)

lemma header_short: "n < 56 \<Longrightarrow> header k n = [fst (header_tags k) + of_nat n]"
  by (simp add: header_def puthead_short)

lemma header_long:
  assumes "56 \<le> n" "n < 2 ^ 64"
  shows "header k n = (snd (header_tags k) + of_nat (byte_len n)) # to_be (byte_len n) n"
proof -
  have u: "unat (of_nat n :: u64) = n" using assms by (intro unat_of_nat_u64) simp
  have "\<not> (of_nat n :: u64) < 56" "0 < (of_nat n :: u64)"
    using u assms by (simp_all add: word_less_nat_alt)
  then show ?thesis by (simp add: header_def puthead_def Let_def putint_eq u)
qed

lemma header_nonempty [simp]: "header k n \<noteq> []"
  by (simp add: header_def puthead_def Let_def)

lemma ucast_small_byte: "n < 256 \<Longrightarrow> (ucast (of_nat n :: byte) :: u64) = of_nat n"
proof -
  assume "n < 256"
  then have e: "unat (of_nat n :: byte) = n" by (subst unat_of_nat) simp
  have "(ucast b :: u64) = of_nat (unat b)" for b :: byte by simp
  from this [of "of_nat n"] show ?thesis unfolding e .
qed

lemma readKind_header:
  assumes "can_read s (length (header k n))" "st_limited s" "n < 2 ^ 64" "k \<noteq> KByte"
    "take (length (header k n)) (st_input s) = header k n"
  shows "\<exists>t. Stream_readKind s = Ok (t, k, of_nat n, None) \<and> same_pos t (advance s (length (header k n)))"
proof -
  let ?h = "header k n"
  have "0 < length ?h" by simp
  then have rd: "readByte s = (advance s 1, Inr (hd ?h))"
    using readByte_eq [of s] assms can_read_mono [OF assms(1), of 1]
    by (metis One_nat_def Suc_leI hd_take)
  show ?thesis
  proof (cases "n < 56")
    case True
    then have n: "unat (of_nat n :: byte) = n" by (subst unat_of_nat) simp
    have add: "unat (c + of_nat n :: byte) = unat c + n" if "unat c + 56 \<le> 256" for c
      using that True n by (simp add: unat_word_ariths)
    have h: "?h = [fst (header_tags k) + of_nat n]" using True by (rule header_short)
    have lt: "128 + (of_nat n :: byte) < 184 \<and> \<not> 128 + (of_nat n :: byte) < 128 \<and>
        \<not> 192 + (of_nat n :: byte) < 192 \<and> 192 + (of_nat n :: byte) < 248 \<and>
        \<not> 192 + (of_nat n :: byte) < 128 \<and> \<not> 192 + (of_nat n :: byte) < 184"
      using add [of 128] add [of 192] True by (simp add: word_less_nat_alt)
    have "(ucast (of_nat n :: byte) :: u64) = of_nat n" using True by (intro ucast_small_byte) simp
    with rd h lt assms(4) show ?thesis
      by (cases k) (simp_all add: Stream_readKind_def Let_def)
  next
    case False
    let ?k = "byte_len n"
    have u: "unat (of_nat n :: u64) = n" using assms(3) by (intro unat_of_nat_u64) simp
    have h: "?h = (snd (header_tags k) + of_nat ?k) # to_be ?k n"
      using False assms(3) by (intro header_long) simp_all
    have k: "0 < ?k" "?k \<le> 8" using False byte_len_u64 [of "of_nat n"] u byte_len_step [of n] by simp_all
    have kb: "unat (of_nat ?k :: byte) = ?k" using k by (subst unat_of_nat) simp
    have add: "unat (c + of_nat ?k :: byte) = unat c + ?k" if "unat c + 8 < 256" for c
      using that k kb by (simp add: unat_word_ariths)
    let ?s1 = "(advance s 1)\<lparr>st_byteval := 0\<rparr>"
    have sp: "same_pos ?s1 (advance s 1)" by simp
    have "can_read ?s1 ?k"
      using can_read_advance [of s 1 ?k] assms(1) h same_pos_can_read [OF sp] by simp
    moreover have "take ?k (st_input ?s1) = to_be ?k n"
      using assms(5) h by (cases "st_input s") simp_all
    moreover have "(0 :: u64) < of_nat n" using u False by (simp add: word_less_nat_alt)
    ultimately have ru: "readUint ?s1 (of_nat ?k) = Ok (advance ?s1 ?k, Inr (of_nat n))"
      using readUint_eq [of ?s1 "of_nat n"] assms(2) unfolding u by simp
    have ge: "\<not> (of_nat n :: u64) < 56" using u False by (simp add: word_less_nat_alt)
    have lt: "183 + (of_nat ?k :: byte) < 192 \<and> \<not> 183 + (of_nat ?k :: byte) < 184 \<and>
        \<not> 183 + (of_nat ?k :: byte) < 128 \<and> \<not> 247 + (of_nat ?k :: byte) < 248 \<and>
        \<not> 247 + (of_nat ?k :: byte) < 192 \<and> \<not> 247 + (of_nat ?k :: byte) < 184 \<and>
        \<not> 247 + (of_nat ?k :: byte) < 128"
      using add [of 183] k kb by (simp add: word_less_nat_alt) (simp add: unat_word_ariths)
    have "same_pos (advance ?s1 ?k) (advance s (length ?h))"
      using same_pos_advance [OF sp, of ?k] h by simp
    with rd h lt ru ge assms(4) show ?thesis
      by (cases k) (simp_all add: Stream_readKind_def Let_def)
  qed
qed

text \<open>The stream is positioned at the encoding \<open>e\<close>.\<close>

definition ready :: "Stream \<Rightarrow> bytes \<Rightarrow> bool" where
  "ready s e \<longleftrightarrow> st_kind s = None \<and> st_limited s \<and> can_read s (length e) \<and>
     take (length e) (st_input s) = e"

lemma ready_same_pos: "same_pos s t \<Longrightarrow> ready s e = ready t e"
  by (auto simp: ready_def same_pos_def can_read_def)

lemma ready_appendD:
  assumes "ready s (a @ b)"
  shows "ready s a" "ready (advance s (length a)) b"
proof -
  have t: "take (length a + length b) (st_input s) = a @ b" using assms by (simp add: ready_def)
  then have "take (length a) (st_input s) = a"
    by (metis append_eq_conv_conj length_append min.absorb1 le_add1 take_take)
  moreover have "take (length b) (drop (length a) (st_input s)) = b"
    using t by (metis append_eq_conv_conj drop_take add_diff_cancel_left')
  ultimately show "ready s a" "ready (advance s (length a)) b"
    using assms can_read_mono [of s "length a + length b" "length a"] can_read_advance [of s "length a" "length b"]
    by (auto simp: ready_def)
qed

lemma ready_not_EOL: "ready s e \<Longrightarrow> e \<noteq> [] \<Longrightarrow> \<not> (st_stack s \<noteq> [] \<and> hd (st_stack s) = 0)"
  by (cases e) (auto simp: ready_def can_read_def)

definition unkind :: "Stream \<Rightarrow> Stream" where
  "unkind s = s\<lparr>st_kind := None\<rparr>"

lemma advance_unkind [simp]: "advance (unkind s) n = advance s n"
  by (simp add: advance_def unkind_def)

lemma can_read_unkind [simp]: "can_read (unkind s) n = can_read s n"
  by (simp add: can_read_def unkind_def)

lemma st_input_unkind [simp]: "st_input (unkind s) = st_input s" "st_limited (unkind s) = st_limited s"
  by (simp_all add: unkind_def)

lemma Kind_header:
  assumes "ready s (header k (length c) @ c)" "k \<noteq> KByte" "length c < 2 ^ 64"
  shows "\<exists>t. Stream_Kind s = Ok (t, Inr (k, of_nat (length c))) \<and>
    same_pos (unkind t) (advance s (length (header k (length c))))"
proof -
  let ?h = "header k (length c)" and ?n = "of_nat (length c) :: u64"
  have r: "ready s ?h" "ready (advance s (length ?h)) c" using ready_appendD [OF assms(1)] by auto
  obtain t where t: "Stream_readKind s = Ok (t, k, ?n, None)" "same_pos t (advance s (length ?h))"
    using readKind_header [of s k "length c"] r(1) assms(2,3) by (auto simp: ready_def)
  have c: "can_read s (length ?h + length c)" using assms(1) by (simp add: ready_def)
  have no1: "\<not> (st_stack s \<noteq> [] \<and> hd (st_stack s) < ?n)"
    using c of_nat_le_u64 [of "length c" "hd (st_stack s)"]
    by (auto simp: can_read_def not_less [symmetric])
  have no2: "\<not> st_remaining t < ?n"
  proof -
    have "length c \<le> unat (st_remaining t)"
      using can_read_advance [OF c] t(2) by (simp add: same_pos_def can_read_def)
    then show ?thesis by (simp add: not_less of_nat_le_u64)
  qed
  have "Stream_Kind s = Ok (t\<lparr>st_kind := Some k, st_size := ?n, st_kinderr := None\<rparr>, Inr (k, ?n))"
    using t(1) no1 no2 r(1) ready_not_EOL [OF r(1)]
    by (auto simp: Stream_Kind_def ready_def Let_def)
  moreover have "same_pos (unkind (t\<lparr>st_kind := Some k, st_size := ?n, st_kinderr := None\<rparr>)) (advance s (length ?h))"
    using t(2) by (simp add: same_pos_def unkind_def)
  ultimately show ?thesis by blast
qed

lemma Kind_byte:
  assumes "ready s [b]" "b \<le> 0x7F"
  shows "\<exists>t. Stream_Kind s = Ok (t, Inr (KByte, 0)) \<and> st_byteval t = b \<and>
    same_pos (unkind t) (advance s 1)"
proof -
  have rd: "readByte s = (advance s 1, Inr b)"
  proof -
    have "hd (st_input s) = b" using assms(1) by (cases "st_input s") (auto simp: ready_def)
    with readByte_eq [of s] assms(1) show ?thesis by (simp add: ready_def)
  qed
  have "b < 0x80" using assms(2) by (simp add: word_le_nat_alt word_less_nat_alt)
  with rd have "Stream_readKind s = Ok ((advance s 1)\<lparr>st_byteval := b\<rparr>, KByte, 0, None)"
    by (simp add: Stream_readKind_def)
  with ready_not_EOL [OF assms(1)] assms(1)
  have "Stream_Kind s = Ok ((advance s 1)\<lparr>st_byteval := b, st_kind := Some KByte, st_size := 0, st_kinderr := None\<rparr>,
      Inr (KByte, 0))"
    by (auto simp: Stream_Kind_def ready_def Let_def word_not_simps)
  then show ?thesis
    by (intro exI [of _ "(advance s 1)\<lparr>st_byteval := b, st_kind := Some KByte, st_size := 0, st_kinderr := None\<rparr>"])
      (simp add: same_pos_def unkind_def)
qed

lemma string_cases:
  obtains (byte) c where "b = [c]" "c \<le> 0x7F" "rlp_string b = [c]"
  | (str) "\<not> (length b = 1 \<and> b ! 0 \<le> 0x7F)" "rlp_string b = header KString (length b) @ b"
proof (cases "length b = 1 \<and> b ! 0 \<le> 0x7F")
  case True
  then obtain c where "b = [c]" by (cases b) auto
  with True show ?thesis by (intro byte [of c]) (simp_all add: rlp_string_header)
next
  case False
  then show ?thesis by (intro str) (simp_all only: rlp_string_header if_False simp_thms)
qed

lemma readFull_content:
  assumes "ready (advance s m) c" "same_pos (unkind t) (advance s m)"
  shows "\<exists>u. readFull t (of_nat (length c)) = (u, Inr c) \<and> same_pos u (advance s (m + length c))"
proof -
  have "can_read t (length c)"
    using assms(1) same_pos_can_read [OF assms(2), of "length c"] by (simp add: ready_def)
  moreover have "st_limited t" "take (length c) (st_input t) = c"
    using assms by (auto simp: ready_def same_pos_def)
  ultimately have "readFull t (of_nat (length c)) = (advance t (length c), Inr c)"
    by (simp add: readFull_eq)
  moreover have "same_pos (advance t (length c)) (advance s (m + length c))"
    using same_pos_advance [OF assms(2), of "length c"] by simp
  ultimately show ?thesis by blast
qed

lemma of_nat_u64_eq:
  assumes "m < 2 ^ 64" "n < 2 ^ 64"
  shows "(of_nat m :: u64) = of_nat n \<longleftrightarrow> m = n"
proof -
  have "unat (of_nat m :: u64) = m" "unat (of_nat n :: u64) = n"
    using assms by (simp_all add: unat_of_nat_u64)
  then show ?thesis by metis
qed

section \<open>Strings\<close>

lemma go_make_length: "length b < 2 ^ 63 \<Longrightarrow> go_make (of_nat (length b)) = Ok ()"
  using unat_of_nat_u64 [of "length b"] by (simp add: go_make_def word_less_nat_alt)

lemma needlessHeader_False:
  assumes "length b < 2 ^ 64" "length b = 1 \<Longrightarrow> \<not> b ! 0 < 128"
  shows "needlessHeader (of_nat (length b)) b = Ok False"
  using assms(2) of_nat_u64_eq [OF assms(1), of 1] by (auto simp: needlessHeader_def go_index_def)

lemma setBigInt_eq:
  assumes "\<not> (0 < length b \<and> b ! 0 = 0)"
  shows "setBigInt s b = Ok (s, Inr (VBigInt (int (be_nat b))))"
  using assms by (auto simp: setBigInt_def go_index_def)

lemma Stream_Bytes_string:
  assumes "ready s (rlp_string b)" "length b < 2 ^ 63"
  shows "\<exists>t. Stream_Bytes s = Ok (t, Inr b) \<and> same_pos t (advance s (length (rlp_string b)))"
proof (cases b rule: string_cases)
  case (byte c)
  obtain t where t: "Stream_Kind s = Ok (t, Inr (KByte, 0))" "st_byteval t = c"
    "same_pos (unkind t) (advance s 1)"
    using Kind_byte [of s c] assms(1) byte by auto
  with byte show ?thesis
    by (intro exI [of _ "unkind t"]) (simp add: Stream_Bytes_def unkind_def)
next
  case str
  let ?h = "header KString (length b)"
  have small: "length b < 2 ^ 64" using assms(2) by simp
  have r: "ready (advance s (length ?h)) b" using ready_appendD(2) assms(1) str(2) by metis
  obtain t where t: "Stream_Kind s = Ok (t, Inr (KString, of_nat (length b)))"
    "same_pos (unkind t) (advance s (length ?h))"
    using Kind_header [of s KString b] assms(1) small str(2) by auto
  obtain u where u: "readFull t (of_nat (length b)) = (u, Inr b)"
    "same_pos u (advance s (length ?h + length b))"
    using readFull_content [OF r t(2)] by blast
  have "needlessHeader (of_nat (length b)) b = Ok False"
    using str(1) small by (intro needlessHeader_False) (auto simp: word_le_nat_alt word_less_nat_alt)
  with t(1) u str(2) go_make_length [OF assms(2)] show ?thesis by (auto simp: Stream_Bytes_def)
qed

text \<open>The encoding of an unsigned number below \<open>2 ^ 64\<close> has at most eight content bytes.\<close>

lemma big_bytes_hd:
  assumes "big_bytes (int n) \<noteq> []"
  shows "0 < n" "big_bytes (int n) ! 0 \<noteq> 0"
proof -
  show "0 < n" using assms by (cases "n = 0") (auto simp: big_bytes_def)
  then show "big_bytes (int n) ! 0 \<noteq> 0" unfolding big_bytes_eq by (rule to_be_byte_len_hd)
qed

lemma length_big_bytes_le: "length (big_bytes (int n)) \<le> k \<longleftrightarrow> n < 256 ^ k"
  by (simp add: big_bytes_eq byte_len_le_iff)

lemma Stream_uint_eq:
  assumes "ready s (rlp_string (big_bytes (uint i)))" "unat i < 256 ^ k" "k \<le> 8"
  shows "\<exists>t. Stream_uint s (8 * k) = Ok (t, Inr i) \<and>
    same_pos t (advance s (length (rlp_string (big_bytes (uint i)))))"
proof -
  let ?b = "big_bytes (uint i)" and ?n = "unat i"
  have u: "?b = to_be (byte_len ?n) ?n" using big_bytes_eq [of ?n] by simp
  have len: "length ?b = byte_len ?n" "byte_len ?n \<le> 8" by (simp_all add: u byte_len_u64)
  show ?thesis
  proof (cases ?b rule: string_cases)
    case (byte c)
    obtain t where t: "Stream_Kind s = Ok (t, Inr (KByte, 0))" "st_byteval t = c"
      "same_pos (unkind t) (advance s 1)"
      using Kind_byte [of s c] assms(1) byte by auto
    have c0: "c \<noteq> 0" using big_bytes_hd(2) [of ?n] byte(1) by simp
    have "be_nat ?b = unat c" using byte(1) by (simp add: be_nat_def)
    then have "unat i = unat c" by simp
    moreover have "unat (of_nat (unat c) :: u64) = unat c"
      using unat_byte_bound [of c] by (intro unat_of_nat_u64) simp
    then have "unat (ucast c :: u64) = unat c" by simp
    ultimately have "ucast c = i" by (intro unsigned_word_eqI [where ?'a = nat]) simp
    with t c0 byte show ?thesis
      by (intro exI [of _ "unkind t"]) (simp add: Stream_uint_def unkind_def)
  next
    case str
    let ?h = "header KString (length ?b)"
    have small: "length ?b < 2 ^ 64" using len by simp
    have r: "ready (advance s (length ?h)) ?b" using ready_appendD(2) assms(1) str(2) by metis
    obtain t where t: "Stream_Kind s = Ok (t, Inr (KString, of_nat (length ?b)))"
      "same_pos (unkind t) (advance s (length ?h))"
      using Kind_header [of s KString ?b] assms(1) str(2) small by auto
    have ov: "\<not> of_nat k < (of_nat (length ?b) :: u64)"
    proof -
      have "length ?b \<le> k" using length_big_bytes_le [of ?n k] assms(2) by simp
      moreover have "unat (of_nat k :: u64) = k" using assms(3) by (intro unat_of_nat_u64) simp
      ultimately show ?thesis by (simp add: not_less of_nat_le_u64)
    qed
    show ?thesis
    proof (cases "i = 0")
      case True
      then have e: "?b = []" by (simp add: big_bytes_def)
      have "readUint t 0 = Ok (unkind t, Inr 0)" by (simp add: readUint_def unkind_def)
      with t True e str(2) show ?thesis by (intro exI [of _ "unkind t"]) (simp add: Stream_uint_def)
    next
      case False
      then have pos: "0 < i" by (simp add: word_gt_0)
      have cr: "can_read t (byte_len ?n)"
        using r same_pos_can_read [OF t(2), of "byte_len ?n"] len by (simp add: ready_def)
      have lim: "st_limited t" "take (byte_len ?n) (st_input t) = to_be (byte_len ?n) ?n"
        using r t(2) len u by (auto simp: ready_def same_pos_def)
      have ru: "readUint t (of_nat (byte_len ?n)) = Ok (advance t (byte_len ?n), Inr i)"
        by (rule readUint_eq [OF cr lim(1) pos lim(2)])
      have uc: "(ucast (of_nat (length ?b) :: u64) :: byte) = of_nat (byte_len ?n)"
        using ucast_of_nat_byte [OF small] len by simp
      have nb: "\<not> i < 128"
      proof
        assume "i < 128"
        then have lt: "?n < 128" by (simp add: word_less_nat_alt)
        moreover have "0 < ?n" using pos by (simp add: word_less_nat_alt)
        ultimately have "?b = [of_nat ?n]" using big_bytes_small [of ?n] by simp
        moreover have "unat (of_nat ?n :: byte) = ?n" using lt by (subst unat_of_nat) simp
        ultimately show False using str(1) lt by (simp add: word_le_nat_alt)
      qed
      have "same_pos (advance t (byte_len ?n)) (advance s (length ?h + length ?b))"
        using same_pos_advance [OF t(2), of "byte_len ?n"] len by simp
      with t(1) ov ru uc nb str(2) show ?thesis by (auto simp: Stream_uint_def)
    qed
  qed
qed

section \<open>Round trip\<close>

text \<open>The values a target type can hold.  Raw values are left out: they carry any bytes.\<close>

primrec has_type :: "gval \<Rightarrow> gtype \<Rightarrow> bool" where
  "has_type (VUint i) t = (case t of TUint bits \<Rightarrow> bits mod 8 = 0 \<and> bits \<le> 64 \<and> unat i < 2 ^ bits | _ \<Rightarrow> False)"
| "has_type (VBool b) t = (t = TBool)"
| "has_type (VBigInt i) t = (t = TBigInt \<and> 0 \<le> i)"
| "has_type VBigNil t = False"
| "has_type (VBytes b) t = (t = TBytes)"
| "has_type (VArray b) t = (t = TArray (length b))"
| "has_type (VString b) t = (t = TString)"
| "has_type (VSlice vs) t = (case t of TSlice t' \<Rightarrow> list_all (\<lambda>f. f t') (map has_type vs) | _ \<Rightarrow> False)"
| "has_type (VStruct vs) t = (case t of TStruct ts \<Rightarrow> list_all2 (\<lambda>f t. f t) (map has_type vs) ts | _ \<Rightarrow> False)"
| "has_type (VRaw b) t = False"
| "has_type VInterfaceNil t = False"
| "has_type (VPtrNil k) t = False"

definition decodes :: "decoder \<Rightarrow> gval \<Rightarrow> bool" where
  "decodes d v \<longleftrightarrow> (\<forall>s. ready s (rlp_enc v) \<longrightarrow>
     (\<exists>t. d s = Ok (t, Inr v) \<and> same_pos t (advance s (length (rlp_enc v)))))"

lemma decodes_Bytes:
  assumes "length b < 2 ^ 63"
  shows "decodes decodeByteSlice (VBytes b)" "decodes decodeString (VString b)"
  unfolding decodes_def using Stream_Bytes_string [OF _ assms]
  by (force simp: decodeByteSlice_def decodeString_def)+

lemma decodes_Uint:
  assumes "has_type (VUint i) (TUint bits)"
  shows "decodes (decodeUint bits) (VUint i)"
proof -
  obtain k where k: "bits = 8 * k" "k \<le> 8" using assms by (auto elim!: dvdE simp: mod_eq_0_iff_dvd)
  with assms have "unat i < 256 ^ k" by (simp add: power_mult)
  from Stream_uint_eq [OF _ this k(2)] show ?thesis
    unfolding decodes_def by (force simp: decodeUint_def k(1))
qed

lemma decodes_Bool: "decodes decodeBool (VBool b)"
proof -
  let ?i = "(if b then 1 else 0) :: u64"
  have e: "rlp_enc (VBool b) = rlp_string (big_bytes (uint ?i))"
    using big_bytes_small [of 1] by (simp add: big_bytes_def [of 0])
  have "\<exists>t. Stream_uint s 8 = Ok (t, Inr ?i) \<and> same_pos t (advance s (length (rlp_enc (VBool b))))"
    if "ready s (rlp_enc (VBool b))" for s
    using Stream_uint_eq [of s ?i 1] that unfolding e by simp
  then show ?thesis unfolding decodes_def by (force simp: decodeBool_def Stream_Bool_def)
qed

lemma decodes_BigInt:
  assumes "0 \<le> i" "length (big_bytes i) < 2 ^ 63"
  shows "decodes decodeBigInt (VBigInt i)"
  unfolding decodes_def
proof (intro allI impI)
  fix s assume s: "ready s (rlp_enc (VBigInt i))"
  let ?b = "big_bytes i"
  have nz: "\<not> (0 < length ?b \<and> ?b ! 0 = 0)" using big_bytes_hd(2) [of "nat i"] assms(1) by auto
  have val: "int (be_nat ?b) = i" using assms(1) by simp
  show "\<exists>t. decodeBigInt s = Ok (t, Inr (VBigInt i)) \<and> same_pos t (advance s (length (rlp_enc (VBigInt i))))"
  proof (cases ?b rule: string_cases)
    case (byte c)
    obtain t where t: "Stream_Kind s = Ok (t, Inr (KByte, 0))" "st_byteval t = c"
      "same_pos (unkind t) (advance s 1)"
      using Kind_byte [of s c] s byte by auto
    with byte nz val show ?thesis
      by (intro exI [of _ "unkind t"]) (use setBigInt_eq [OF nz] in \<open>simp add: decodeBigInt_def unkind_def\<close>)
  next
    case str
    let ?h = "header KString (length ?b)"
    have small: "length ?b < 2 ^ 64" using assms(2) by simp
    have r: "ready (advance s (length ?h)) ?b" using ready_appendD(2) s str(2) rlp_enc.simps(3) by metis
    obtain t where t: "Stream_Kind s = Ok (t, Inr (KString, of_nat (length ?b)))"
      "same_pos (unkind t) (advance s (length ?h))"
      using Kind_header [of s KString ?b] s small str(2) by auto
    show ?thesis
    proof (cases "?b = []")
      case True
      with val have i: "i = 0" by simp
      with True t(2) str(2) show ?thesis
        by (intro exI [of _ "unkind t"]) (use t(1) in \<open>simp add: decodeBigInt_def unkind_def setBigInt_def\<close>)
    next
      case False
      then have n0: "(of_nat (length ?b) :: u64) \<noteq> 0"
        using of_nat_u64_eq [OF small, of 0] by simp
      obtain u where u: "readFull t (of_nat (length ?b)) = (u, Inr ?b)"
        "same_pos u (advance s (length ?h + length ?b))"
        using readFull_content [OF r t(2)] by blast
      have "needlessHeader (of_nat (length ?b)) ?b = Ok False"
        using str(1) small by (intro needlessHeader_False) (auto simp: word_le_nat_alt word_less_nat_alt)
      with t(1) u n0 val str(2) setBigInt_eq [OF nz] go_make_length [OF assms(2)] show ?thesis
        by (auto simp: decodeBigInt_def uintbuf_slice_def)
    qed
  qed
qed

lemma decodes_Array:
  assumes "length b < 2 ^ 64"
  shows "decodes (decodeByteArray (length b)) (VArray b)"
  unfolding decodes_def
proof (intro allI impI)
  fix s assume s: "ready s (rlp_enc (VArray b))"
  show "\<exists>t. decodeByteArray (length b) s = Ok (t, Inr (VArray b)) \<and>
    same_pos t (advance s (length (rlp_enc (VArray b))))"
  proof (cases b rule: string_cases)
    case (byte c)
    obtain t where t: "Stream_Kind s = Ok (t, Inr (KByte, 0))" "st_byteval t = c"
      "same_pos (unkind t) (advance s 1)"
      using Kind_byte [of s c] s byte by auto
    with byte show ?thesis
      by (intro exI [of _ "unkind t"]) (simp add: decodeByteArray_def unkind_def go_index_def)
  next
    case str
    let ?h = "header KString (length b)"
    have r: "ready (advance s (length ?h)) b" using ready_appendD(2) s str(2) rlp_enc.simps(6) by metis
    obtain t where t: "Stream_Kind s = Ok (t, Inr (KString, of_nat (length b)))"
      "same_pos (unkind t) (advance s (length ?h))"
      using Kind_header [of s KString b] s assms str(2) by auto
    obtain u where u: "readFull t (of_nat (length b)) = (u, Inr b)"
      "same_pos u (advance s (length ?h + length b))"
      using readFull_content [OF r t(2)] by blast
    have "needlessHeader (of_nat (length b)) b = Ok False"
      using str(1) assms by (intro needlessHeader_False) (auto simp: word_le_nat_alt word_less_nat_alt)
    with t(1) u str(2) show ?thesis by (auto simp: decodeByteArray_def)
  qed
qed

text \<open>\<open>inside s h n\<close> is the stream inside a list of \<open>n\<close> content bytes after its header of \<open>h\<close> bytes.\<close>

definition inside :: "Stream \<Rightarrow> nat \<Rightarrow> nat \<Rightarrow> Stream" where
  "inside s h n =
     (advance s h)\<lparr>st_stack := of_nat n # (case st_stack (advance s h) of [] \<Rightarrow> [] | l # r \<Rightarrow> (l - of_nat n) # r)\<rparr>"

lemma Stream_List_eq:
  assumes "ready s (rlp_list c)" "length c < 2 ^ 64"
  shows "\<exists>t. Stream_List s = Ok (t, Inr (of_nat (length c))) \<and>
    same_pos t (inside s (length (header KList (length c))) (length c))"
proof -
  let ?h = "header KList (length c)"
  obtain t where t: "Stream_Kind s = Ok (t, Inr (KList, of_nat (length c)))"
    "same_pos (unkind t) (advance s (length ?h))"
    using Kind_header [of s KList c] assms by (auto simp: rlp_list_header)
  then show ?thesis
    by (auto simp: Stream_List_def Let_def same_pos_def inside_def unkind_def)
qed

lemma inside_ready:
  assumes "ready s (header k (length c) @ c)"
  shows "ready (inside s (length (header k (length c))) (length c)) c"
proof -
  let ?h = "length (header k (length c))"
  have r: "ready (advance s ?h) c" using ready_appendD(2) [OF assms] .
  then have "length c \<le> unat (st_remaining (advance s ?h))" by (simp add: ready_def can_read_def)
  from unat_of_nat_le [OF this] r show ?thesis by (simp add: ready_def can_read_def inside_def)
qed

lemma ListEnd_inside:
  assumes "same_pos u (advance (inside s h n) n)"
  shows "\<exists>v. Stream_ListEnd u = (v, None) \<and> same_pos v (advance s (h + n))"
proof -
  have "st_stack u = 0 # (case st_stack (advance s h) of [] \<Rightarrow> [] | l # r \<Rightarrow> (l - of_nat n) # r)"
    using assms by (simp add: same_pos_def inside_def advance_def)
  then show ?thesis
    using assms by (auto simp: Stream_ListEnd_def same_pos_def inside_def advance_def diff_diff_eq
        add.commute split: list.splits)
qed

lemma decodeFields_eq:
  assumes "list_all2 decodes ds vs" "ready s (concat (map rlp_enc vs))"
  shows "\<exists>t. decodeFields ds acc s = Ok (t, Inr (acc @ vs)) \<and>
    same_pos t (advance s (length (concat (map rlp_enc vs))))"
  using assms
proof (induction ds vs arbitrary: s acc rule: list_all2_induct)
  case Nil
  then show ?case by (auto simp: ready_def same_pos_def advance_def split: list.splits)
next
  case (Cons d ds v vs)
  from Cons.prems have r: "ready s (rlp_enc v)" "ready (advance s (length (rlp_enc v))) (concat (map rlp_enc vs))"
    using ready_appendD by auto
  obtain t where t: "d s = Ok (t, Inr v)" "same_pos t (advance s (length (rlp_enc v)))"
    using Cons.hyps(1) r(1) by (auto simp: decodes_def)
  have "ready t (concat (map rlp_enc vs))" using r(2) ready_same_pos [OF t(2)] by simp
  from Cons.IH [OF this, of "acc @ [v]"] obtain u where
    u: "decodeFields ds (acc @ [v]) t = Ok (u, Inr (acc @ v # vs))"
      "same_pos u (advance t (length (concat (map rlp_enc vs))))" by auto
  from same_pos_trans [OF u(2) same_pos_advance [OF t(2)]] t(1) u(1) show ?case by auto
qed

lemma decodeSliceElems_eq:
  assumes "\<forall>v\<in>set vs. decodes d v" "ready s (concat (map rlp_enc vs))"
    "st_stack s = of_nat (length (concat (map rlp_enc vs))) # r" "length vs < n"
    "\<And>s r. st_kind s = None \<Longrightarrow> st_stack s = 0 # r \<Longrightarrow> d s = Ok (s, Inl EOL)"
  shows "\<exists>t. decodeSliceElems n d acc s = Ok (t, Inr (acc @ vs)) \<and>
    same_pos t (advance s (length (concat (map rlp_enc vs))))"
  using assms(1-4)
proof (induction vs arbitrary: s acc n)
  case Nil
  then obtain m where m: "n = Suc m" by (cases n) auto
  have "d s = Ok (s, Inl EOL)" using Nil by (intro assms(5)) (auto simp: ready_def)
  moreover have "same_pos s (advance s 0)" using Nil by (simp add: ready_def same_pos_def advance_def)
  ultimately show ?case by (simp add: m)
next
  case (Cons v vs)
  then obtain m where m: "n = Suc m" "length vs < m" by (cases n) auto
  from Cons.prems(2) have r: "ready s (rlp_enc v)"
    "ready (advance s (length (rlp_enc v))) (concat (map rlp_enc vs))"
    using ready_appendD by auto
  obtain t where t: "d s = Ok (t, Inr v)" "same_pos t (advance s (length (rlp_enc v)))"
    using Cons.prems(1) r(1) by (auto simp: decodes_def)
  have "ready t (concat (map rlp_enc vs))" using r(2) ready_same_pos [OF t(2)] by simp
  moreover have "st_stack t = of_nat (length (concat (map rlp_enc vs))) # r"
    using t(2) Cons.prems(3) by (simp add: same_pos_def advance_def)
  ultimately obtain u where
    u: "decodeSliceElems m d (acc @ [v]) t = Ok (u, Inr (acc @ v # vs))"
      "same_pos u (advance t (length (concat (map rlp_enc vs))))"
    using Cons.IH [of t m "acc @ [v]"] Cons.prems(1) m(2) by auto
  from same_pos_trans [OF u(2) same_pos_advance [OF t(2)]] t(1) u(1) show ?case by (auto simp: m)
qed

lemma decoder_EOL:
  assumes "st_kind s = None" "st_stack s = 0 # r"
  shows "makeDecoder n t s = Ok (s, Inl EOL)"
proof -
  have k: "Stream_Kind s = Ok (s, Inl EOL)" using assms by (simp add: Stream_Kind_def)
  show ?thesis
    by (cases t) (simp_all add: k decodeUint_def Stream_uint_def decodeBool_def Stream_Bool_def
        decodeBigInt_def decodeByteSlice_def Stream_Bytes_def decodeByteArray_def decodeString_def
        decodeListSlice_def Stream_List_def decodeStruct_def decodeRawValue_def Stream_Raw_def)
qed

lemma decodes_Slice:
  assumes "\<forall>v\<in>set vs. decodes (makeDecoder n t) v" "length vs < n"
    "length (concat (map rlp_enc vs)) < 2 ^ 64" "\<forall>v\<in>set vs. rlp_enc v \<noteq> []"
  shows "decodes (makeDecoder n (TSlice t)) (VSlice vs)"
  unfolding decodes_def
proof (intro allI impI)
  let ?c = "concat (map rlp_enc vs)" and ?h = "header KList (length (concat (map rlp_enc vs)))"
  fix s assume "ready s (rlp_enc (VSlice vs))"
  then have s: "ready s (rlp_list ?c)" by simp
  obtain t1 where t1: "Stream_List s = Ok (t1, Inr (of_nat (length ?c)))"
    "same_pos t1 (inside s (length ?h) (length ?c))"
    using Stream_List_eq [OF s assms(3)] by blast
  have r: "ready t1 ?c"
    using inside_ready [of s KList ?c] s ready_same_pos [OF t1(2)] by (simp add: rlp_list_header)
  have z: "(of_nat (length ?c) :: u64) = 0 \<longleftrightarrow> vs = []"
    using of_nat_u64_eq [OF assms(3), of 0] assms(4) by auto
  have "\<exists>t2. (if (of_nat (length ?c) :: u64) = 0 then Ok (t1, Inr [])
      else decodeSliceElems n (makeDecoder n t) [] t1) = Ok (t2, Inr vs) \<and>
      same_pos t2 (advance t1 (length ?c))"
  proof (cases "vs = []")
    case True
    with r show ?thesis using z by (auto simp: ready_def same_pos_def advance_def split: list.splits)
  next
    case False
    obtain r' where "st_stack t1 = of_nat (length ?c) # r'"
      using t1(2) by (auto simp: same_pos_def inside_def)
    from decodeSliceElems_eq [OF assms(1) r this assms(2), where acc = "[]"] decoder_EOL z False
    show ?thesis by simp
  qed
  then obtain t2 where t2: "(if (of_nat (length ?c) :: u64) = 0 then Ok (t1, Inr [])
      else decodeSliceElems n (makeDecoder n t) [] t1) = Ok (t2, Inr vs)"
      "same_pos t2 (advance t1 (length ?c))" by blast
  obtain t3 where t3: "Stream_ListEnd t2 = (t3, None)" "same_pos t3 (advance s (length ?h + length ?c))"
    using ListEnd_inside same_pos_trans [OF t2(2) same_pos_advance [OF t1(2)]] by blast
  show "\<exists>u. makeDecoder n (TSlice t) s = Ok (u, Inr (VSlice vs)) \<and>
    same_pos u (advance s (length (rlp_enc (VSlice vs))))"
    using t1(1) t2(1) t3 by (auto simp: decodeListSlice_def Let_def rlp_list_header split: if_splits)
qed

lemma decodes_Struct:
  assumes "list_all2 decodes (map (makeDecoder n) ts) vs" "length (concat (map rlp_enc vs)) < 2 ^ 64"
  shows "decodes (makeDecoder n (TStruct ts)) (VStruct vs)"
  unfolding decodes_def
proof (intro allI impI)
  let ?c = "concat (map rlp_enc vs)" and ?h = "header KList (length (concat (map rlp_enc vs)))"
  fix s assume "ready s (rlp_enc (VStruct vs))"
  then have s: "ready s (rlp_list ?c)" by simp
  obtain t1 where t1: "Stream_List s = Ok (t1, Inr (of_nat (length ?c)))"
    "same_pos t1 (inside s (length ?h) (length ?c))"
    using Stream_List_eq [OF s assms(2)] by blast
  have "ready t1 ?c"
    using inside_ready [of s KList ?c] s ready_same_pos [OF t1(2)] by (simp add: rlp_list_header)
  from decodeFields_eq [OF assms(1) this, of "[]"] obtain t2 where
    t2: "decodeFields (map (makeDecoder n) ts) [] t1 = Ok (t2, Inr vs)"
      "same_pos t2 (advance t1 (length ?c))" by auto
  obtain t3 where t3: "Stream_ListEnd t2 = (t3, None)" "same_pos t3 (advance s (length ?h + length ?c))"
    using ListEnd_inside same_pos_trans [OF t2(2) same_pos_advance [OF t1(2)]] by blast
  show "\<exists>u. makeDecoder n (TStruct ts) s = Ok (u, Inr (VStruct vs)) \<and>
    same_pos u (advance s (length (rlp_enc (VStruct vs))))"
    using t1(1) t2(1) t3 by (auto simp: decodeStruct_def rlp_list_header)
qed

lemma rlp_enc_nonempty:
  assumes "has_type v t"
  shows "rlp_enc v \<noteq> []"
proof -
  have "rlp_string b \<noteq> []" for b by (cases b rule: string_cases) auto
  with assms show ?thesis by (cases v) (auto simp: rlp_list_header)
qed

lemma length_le_concat: "(\<And>x. x \<in> set xs \<Longrightarrow> f x \<noteq> []) \<Longrightarrow> length xs \<le> length (concat (map f xs))"
proof (induction xs)
  case (Cons x xs)
  then have "0 < length (f x)" "length xs \<le> length (concat (map f xs))" by simp_all
  then have "Suc (length xs) \<le> length (f x) + length (concat (map f xs))" by linarith
  then show ?case by simp
qed simp

lemma decodes_typed:
  assumes "has_type v t" "length (rlp_enc v) < 2 ^ 63" "length (rlp_enc v) < n"
  shows "decodes (makeDecoder n t) v"
  using assms
proof (induction v arbitrary: t)
  case (VUint i)
  then obtain bits where "t = TUint bits" by (auto split: gtype.splits)
  with VUint show ?case using decodes_Uint by simp
next
  case (VBool b)
  then show ?case by (simp add: decodes_Bool)
next
  case (VBigInt i)
  then have "length (big_bytes i) < 2 ^ 63" using length_rlp_string [of "big_bytes i"] by simp
  with VBigInt show ?case by (simp add: decodes_BigInt)
next
  case (VBytes b)
  then show ?case using decodes_Bytes(1) [of b] length_rlp_string [of b] by simp
next
  case (VString b)
  then show ?case using decodes_Bytes(2) [of b] length_rlp_string [of b] by simp
next
  case (VArray b)
  then show ?case using decodes_Array [of b] length_rlp_string [of b] by simp
next
  case (VSlice vs)
  then obtain t' where t: "t = TSlice t'" and ty: "\<forall>v\<in>set vs. has_type v t'"
    by (auto simp: list_all_iff split: gtype.splits)
  have ne: "\<forall>v\<in>set vs. rlp_enc v \<noteq> []" using ty rlp_enc_nonempty by blast
  let ?c = "concat (map rlp_enc vs)"
  have len: "length ?c < 2 ^ 63" "length ?c < 2 ^ 64" "length ?c < n" using VSlice.prems by (auto simp: rlp_list_header)
  have "decodes (makeDecoder n t') v" if "v \<in> set vs" for v
    using VSlice.IH [OF that] ty that len length_concat_mem [OF that, of rlp_enc] by fastforce
  moreover have "length vs < n" using length_le_concat [of vs rlp_enc] ne len(3) by fastforce
  ultimately show ?case unfolding t using len ne by (intro decodes_Slice) auto
next
  case (VStruct vs)
  then obtain ts where t: "t = TStruct ts" and ty: "list_all2 has_type vs ts"
    by (auto simp: list_all2_map1 split: gtype.splits)
  let ?c = "concat (map rlp_enc vs)"
  have len: "length ?c < 2 ^ 63" "length ?c < 2 ^ 64" "length ?c < n" using VStruct.prems by (auto simp: rlp_list_header)
  have "decodes (makeDecoder n t') v" if "v \<in> set vs" "has_type v t'" for v t'
    using VStruct.IH [OF that(1,2)] len length_concat_mem [OF that(1), of rlp_enc] by linarith
  then have "list_all2 decodes (map (makeDecoder n) ts) vs"
    using ty by (auto simp: list_all2_conv_all_nth)
  then show ?case unfolding t using len(2) by (rule decodes_Struct)
qed simp_all

lemma DecodeBytes_eq:
  assumes "has_type v t" "length (rlp_enc v) < 2 ^ 63"
  shows "DecodeBytes (rlp_enc v) t = Ok (Inr v)"
proof -
  let ?e = "rlp_enc v"
  let ?s = "Stream_Reset ?e (of_nat (length ?e))"
  have u: "unat (of_nat (length ?e) :: u64) = length ?e" using assms(2) by (intro unat_of_nat_u64) simp
  have "st_remaining ?s = of_nat (length ?e)" by (simp add: Stream_Reset_def)
  then have "ready ?s ?e" using u by (simp add: ready_def can_read_def) (simp add: Stream_Reset_def)
  then obtain t' where t': "makeDecoder (Suc (length ?e)) t ?s = Ok (t', Inr v)"
    "same_pos t' (advance ?s (length ?e))"
    using decodes_typed [OF assms, of "Suc (length ?e)"] by (auto simp: decodes_def)
  then have "st_input t' = []" by (simp add: same_pos_def Stream_Reset_def)
  with t'(1) show ?thesis by (simp add: DecodeBytes_def)
qed

section \<open>Termination\<close>

text \<open>
  Whatever the input, decoding neither runs out of fuel nor panics: a decoder that succeeds has consumed at
  least one byte and left the stream re-armed, every size has been checked against the input that is
  left, and numbers have at most eight bytes.
\<close>

definition fits :: "Stream \<Rightarrow> bool" where
  "fits s \<longleftrightarrow> st_kind s = None \<and> st_limited s \<and> unat (st_remaining s) < 2 ^ 62"

definition no_more :: "Stream \<Rightarrow> Stream \<Rightarrow> bool" where
  "no_more s t \<longleftrightarrow> length (st_input t) \<le> length (st_input s) \<and> st_limited t = st_limited s \<and> st_remaining t \<le> st_remaining s"

definition shrinks :: "Stream \<Rightarrow> (Stream \<times> (rlpError + 'a)) outcome \<Rightarrow> bool" where
  "shrinks s x \<longleftrightarrow> (\<exists>t r. x = Ok (t, r) \<and> no_more s t \<and>
     (\<forall>v. r = Inr v \<longrightarrow> length (st_input t) < length (st_input s) \<and> st_kind t = None))"

lemma no_more_refl [simp]: "no_more s s"
  by (simp add: no_more_def)

lemma no_more_trans: "no_more s t \<Longrightarrow> no_more t u \<Longrightarrow> no_more s u"
  by (auto simp: no_more_def)

lemma no_more_fields [simp]:
  "no_more s (t\<lparr>st_kind := k\<rparr>) = no_more s t" "no_more s (t\<lparr>st_size := n\<rparr>) = no_more s t"
  "no_more s (t\<lparr>st_kinderr := e\<rparr>) = no_more s t" "no_more s (t\<lparr>st_byteval := b\<rparr>) = no_more s t"
  "no_more s (t\<lparr>st_stack := st\<rparr>) = no_more s t" "no_more (s\<lparr>st_byteval := b\<rparr>) t = no_more s t"
  by (simp_all add: no_more_def)

lemma fits_no_more: "fits s \<Longrightarrow> no_more s t \<Longrightarrow> st_kind t = None \<Longrightarrow> fits t"
  by (auto simp: fits_def no_more_def word_le_nat_alt)

lemma minus_le_u64: "\<not> x < n \<Longrightarrow> x - n \<le> (x :: u64)"
  by (simp add: word_le_nat_alt unat_sub_le not_less)

lemma willRead_input: "willRead s n = (t, e) \<Longrightarrow> no_more s t \<and> st_input t = st_input s \<and> st_kind t = None"
  by (auto simp: willRead_def Let_def no_more_def minus_le_u64 split: list.splits if_splits)

lemma readFull_input: "readFull s n = (t, r) \<Longrightarrow> no_more s t \<and> st_kind t = None"
  by (auto simp: readFull_def no_more_def dest!: willRead_input split: prod.splits option.splits if_splits)

lemma readByte_input:
  "readByte s = (t, r) \<Longrightarrow> no_more s t \<and> st_kind t = None \<and> (\<forall>b. r = Inr b \<longrightarrow> length (st_input t) < length (st_input s))"
  by (auto simp: readByte_def no_more_def dest!: willRead_input split: prod.splits option.splits list.splits)

lemma readUint_returns:
  assumes "sz \<le> 8"
  shows "\<exists>t r. readUint s sz = Ok (t, r) \<and> no_more s t \<and> st_kind t = None"
  unfolding readUint_fits [OF assms]
  by (auto dest!: readByte_input readFull_input split: prod.splits sum.splits)

lemma tag_size:
  "\<not> b < 0xB8 \<Longrightarrow> b < 0xC0 \<Longrightarrow> b - 0xB7 \<le> (8 :: byte)" "\<not> b < 0xF8 \<Longrightarrow> b - 0xF7 \<le> (8 :: byte)"
  using unat_byte_bound [of b] by (simp_all add: word_le_nat_alt word_less_nat_alt unat_sub_le)

lemma Stream_readKind_returns:
  "\<exists>t k sz e. Stream_readKind s = Ok (t, k, sz, e) \<and> no_more s t \<and> (e = None \<longrightarrow> length (st_input t) < length (st_input s))"
proof -
  obtain t r where b: "readByte s = (t, r)" by fastforce
  note i = readByte_input [OF b]
  let ?t = "t\<lparr>st_byteval := 0\<rparr>"
  have long: "\<exists>u k' sz e. bnd (readUint ?t n) (\<lambda>(s, r). case r of Inl e \<Rightarrow> Ok (s, k, 0, Some e)
      | Inr sz \<Rightarrow> Ok (s, k, sz, if sz < 56 then Some ErrCanonSize else None)) = Ok (u, k', sz, e) \<and> no_more ?t u"
    if n: "n \<le> 8" for n :: byte and k :: Kind
    using readUint_returns [OF n, of ?t] by (auto split: sum.splits)
  show ?thesis
  proof (cases r)
    case (Inr c)
    then have l: "length (st_input t) < length (st_input s)" "no_more s t" using i by auto
    have m: "no_more s u \<and> length (st_input u) < length (st_input s)" if "no_more ?t u" for u
      using that l no_more_trans [of s t u] by (auto simp: no_more_def)
    show ?thesis
      using l m long [OF tag_size(1) [of c], of KString] long [OF tag_size(2) [of c], of KList]
      unfolding Stream_readKind_def b Inr by (auto simp: Let_def)
  qed (use i b in \<open>simp add: Stream_readKind_def\<close>)
qed

lemma Stream_Kind_returns:
  assumes "st_kind s = None"
  obtains t r where "Stream_Kind s = Ok (t, r)" "no_more s t"
    "\<And>k sz. r = Inr (k, sz) \<Longrightarrow> length (st_input t) < length (st_input s)"
    "\<And>k sz. r = Inr (k, sz) \<Longrightarrow> st_limited s \<Longrightarrow> sz \<le> st_remaining t"
proof -
  obtain t k sz e where t: "Stream_readKind s = Ok (t, k, sz, e)" "no_more s t" "e = None \<longrightarrow> length (st_input t) < length (st_input s)"
    using Stream_readKind_returns by blast
  have lim: "st_limited t = st_limited s" using t(2) by (simp add: no_more_def)
  show thesis
  proof (cases "st_stack s \<noteq> [] \<and> hd (st_stack s) = 0")
    case True
    then show ?thesis using assms by (intro that [of s "Inl EOL"]) (auto simp: Stream_Kind_def)
  next
    case False
    define err where "err = (case e of Some e \<Rightarrow> Some e | None \<Rightarrow>
      if st_stack s \<noteq> [] \<and> sz > hd (st_stack s) then Some ErrElemTooLarge
      else if st_limited t \<and> sz > st_remaining t then Some ErrValueTooLarge else None)"
    let ?t = "t\<lparr>st_kind := Some k, st_size := sz, st_kinderr := err\<rparr>"
    have k: "Stream_Kind s = Ok (?t, case err of Some e \<Rightarrow> Inl e | None \<Rightarrow> Inr (k, sz))"
      using assms False t(1) unfolding err_def by (auto simp: Stream_Kind_def Let_def)
    have n: "err = None \<Longrightarrow> e = None \<and> (st_limited t \<longrightarrow> sz \<le> st_remaining t)"
      by (auto simp: err_def not_less split: option.splits if_splits)
    show ?thesis by (rule that [OF k]) (use t lim n in \<open>auto split: option.splits\<close>)
  qed
qed


lemma shrinksI:
  "no_more s t \<Longrightarrow> length (st_input t) < length (st_input s) \<Longrightarrow> st_kind t = None \<Longrightarrow> shrinks s (Ok (t, r))"
  "no_more s t \<Longrightarrow> shrinks s (Ok (t, Inl e))"
  by (simp_all add: shrinks_def)

lemma readFull_shrinks:
  assumes "no_more s t" "length (st_input t) < length (st_input s)"
    "\<And>u b. readFull t n = (u, Inr b) \<Longrightarrow> length b = unat n \<Longrightarrow> \<exists>r. g u b = Ok (u, r)"
  shows "shrinks s (case readFull t n of (u, Inl e) \<Rightarrow> Ok (u, Inl (f e)) | (u, Inr b) \<Rightarrow> g u b)"
proof -
  obtain u q where u: "readFull t n = (u, q)" by fastforce
  have l: "no_more s u" "length (st_input u) < length (st_input s)" "st_kind u = None"
    using readFull_input [OF u] assms(1,2) no_more_trans [of s t u] by (auto simp: no_more_def)
  show ?thesis
  proof (cases q)
    case (Inr b)
    then obtain r where "g u b = Ok (u, r)" using assms(3) u length_readFull by blast
    with u Inr l show ?thesis by (simp add: shrinksI(1))
  qed (use u l in \<open>simp add: shrinksI(2)\<close>)
qed

lemma needlessHeader_returns: "length b = unat n \<Longrightarrow> \<exists>x. needlessHeader n b = Ok x"
  by (auto simp: needlessHeader_def go_index_def)

lemma go_make_fits: "fits s \<Longrightarrow> no_more s t \<Longrightarrow> n \<le> st_remaining t \<Longrightarrow> go_make n = Ok ()"
  by (auto simp: fits_def no_more_def go_make_def word_le_nat_alt word_less_nat_alt)

lemma go_make_headsize:
  assumes "fits s" "no_more s t" "n \<le> st_remaining t"
  shows "go_make (of_int (headsize n) + n) = Ok ()" "\<not> of_int (headsize n) + n < of_int (headsize n)"
proof -
  have n: "unat n < 2 ^ 62" using assms by (auto simp: fits_def no_more_def word_le_nat_alt)
  have "0 < n" if "\<not> n < 56" using that by (simp add: word_less_nat_alt)
  then have h: "0 \<le> headsize n" "headsize n \<le> 9"
    using intsize_eq [of n] byte_len_u64 [of n] by (auto simp: headsize_def)
  then obtain k where k: "headsize n = int k" "k \<le> 9" by (metis nat_le_iff nonneg_int_cases of_nat_numeral nat_int)
  have u: "unat (of_nat k :: u64) = k" using k(2) by (intro unat_of_nat_u64) simp
  then have s: "unat (of_nat k + n) = k + unat n" using n k(2) by (subst unat_add_lem [THEN iffD1]) auto
  then show "go_make (of_int (headsize n) + n) = Ok ()" using n k by (simp add: go_make_def word_less_nat_alt)
  show "\<not> of_int (headsize n) + n < of_int (headsize n)" unfolding k(1) word_less_nat_alt of_int_of_nat_eq s u by simp
qed

lemma setBigInt_returns: "\<exists>r. setBigInt s b = Ok (s, r)"
  by (auto simp: setBigInt_def go_index_def)

text \<open>Every reader of the stream starts with \<open>Kind\<close> and continues according to its result.\<close>

lemma Kind_shrinks:
  assumes "fits s"
    "\<And>t e. no_more s t \<Longrightarrow> shrinks s (f (t, Inl e))"
    "\<And>t k sz. no_more s t \<Longrightarrow> length (st_input t) < length (st_input s) \<Longrightarrow> sz \<le> st_remaining t \<Longrightarrow> shrinks s (f (t, Inr (k, sz)))"
  shows "shrinks s (bnd (Stream_Kind s) f)"
proof -
  obtain t r where t: "Stream_Kind s = Ok (t, r)" "no_more s t"
    "\<And>k sz. r = Inr (k, sz) \<Longrightarrow> length (st_input t) < length (st_input s)"
    "\<And>k sz. r = Inr (k, sz) \<Longrightarrow> st_limited s \<Longrightarrow> sz \<le> st_remaining t"
    using Stream_Kind_returns [of s] assms(1) by (auto simp: fits_def)
  show ?thesis
  proof (cases r)
    case (Inl e)
    with t assms(2) show ?thesis by simp
  next
    case (Inr v)
    with t assms show ?thesis by (cases v) (auto simp: fits_def)
  qed
qed

lemma Stream_Bytes_shrinks:
  assumes "fits s"
  shows "shrinks s (Stream_Bytes s)"
  unfolding Stream_Bytes_def
proof (rule Kind_shrinks [OF assms], goal_cases)
  case (2 t k sz)
  have "shrinks s (case readFull t sz of (u, Inl e) \<Rightarrow> Ok (u, Inl e)
      | (u, Inr b) \<Rightarrow> bnd (needlessHeader sz b) (\<lambda>bad. Ok (u, if bad then Inl ErrCanonSize else Inr b)))"
    using needlessHeader_returns by (intro readFull_shrinks [OF 2(1,2)]) fastforce
  with 2 go_make_fits [OF assms 2(1,3)] show ?case by (cases k) (simp_all add: shrinksI)
qed (simp add: shrinksI)

lemma Stream_Raw_shrinks:
  assumes "fits s"
  shows "shrinks s (Stream_Raw s)"
  unfolding Stream_Raw_def
proof (rule Kind_shrinks [OF assms], goal_cases)
  case (2 t k sz)
  have "shrinks s (case readFull t sz of (u, Inl e) \<Rightarrow> Ok (u, Inl e) | (u, Inr b) \<Rightarrow>
      Ok (u, Inr ((if k = KString then puthead 0x80 0xB7 sz else puthead 0xC0 0xF7 sz) @ b)))"
    by (intro readFull_shrinks [OF 2(1,2)]) blast
  with 2 go_make_headsize [OF assms 2(1,3)] show ?case by (simp add: shrinksI Let_def)
qed (simp add: shrinksI)

lemma Stream_uint_shrinks:
  assumes "fits s" "maxbits \<le> 64"
  shows "shrinks s (Stream_uint s maxbits)"
  unfolding Stream_uint_def
proof (rule Kind_shrinks [OF assms(1)], goal_cases)
  case (2 t k sz)
  have "\<exists>u r. readUint t (ucast sz) = Ok (u, r) \<and> no_more t u \<and> st_kind u = None"
    if "sz \<le> of_nat (maxbits div 8)"
  proof (rule readUint_returns)
    have m: "unat (of_nat (maxbits div 8) :: u64) = maxbits div 8"
      using assms(2) by (intro unat_of_nat_u64) simp
    have n: "unat sz \<le> 8" using that assms(2) unfolding word_le_nat_alt m by linarith
    have "(ucast sz :: byte) = of_nat (unat sz)" by simp
    also have "unat \<dots> = unat sz" using n by (subst unat_of_nat) simp
    finally show "(ucast sz :: byte) \<le> 8" using n by (simp add: word_le_nat_alt)
  qed
  moreover have "no_more s u \<and> length (st_input u) < length (st_input s)" if "no_more t u" for u
    using that 2(1,2) no_more_trans [of s t u] by (auto simp: no_more_def)
  ultimately show ?case using 2(1,2) by (cases k) (auto simp: shrinksI not_less split: sum.splits intro!: shrinksI(1))
qed (simp add: shrinksI)

lemma Stream_List_shrinks: "fits s \<Longrightarrow> shrinks s (Stream_List s)"
  unfolding Stream_List_def by (rule Kind_shrinks) (auto simp: Let_def intro!: shrinksI)

lemma decodeBigInt_shrinks:
  assumes "fits s"
  shows "shrinks s (decodeBigInt s)"
  unfolding decodeBigInt_def
proof (rule Kind_shrinks [OF assms], goal_cases)
  case (2 t k sz)
  have set: "shrinks s (setBigInt (t\<lparr>st_kind := None\<rparr>) b)" for b
    using setBigInt_returns [of "t\<lparr>st_kind := None\<rparr>" b] 2(1,2) by (auto intro!: shrinksI(1))
  have "shrinks s (case readFull t sz of (u, Inl e) \<Rightarrow> Ok (u, Inl (wrapStreamError e)) | (u, Inr b) \<Rightarrow>
      bnd (needlessHeader sz b) (\<lambda>bad. if bad then Ok (u, Inl (wrapStreamError ErrCanonSize)) else setBigInt u b))"
    using needlessHeader_returns setBigInt_returns by (intro readFull_shrinks [OF 2(1,2)]) fastforce
  moreover have "shrinks s (case readFull t sz of (u, Inl e) \<Rightarrow> Ok (u, Inl (wrapStreamError e)) | (u, Inr b) \<Rightarrow> setBigInt u b)"
    using setBigInt_returns by (intro readFull_shrinks [OF 2(1,2)]) blast
  ultimately show ?case
    using 2 set go_make_fits [OF assms 2(1,3)] by (cases k) (simp_all add: shrinksI uintbuf_slice_def)
qed (simp add: shrinksI)

lemma decodeByteArray_shrinks:
  assumes "fits s"
  shows "shrinks s (decodeByteArray len s)"
  unfolding decodeByteArray_def
proof (rule Kind_shrinks [OF assms], goal_cases)
  case (2 t k sz)
  have "shrinks s (case readFull t sz of (u, Inl e) \<Rightarrow> Ok (u, Inl e) | (u, Inr b) \<Rightarrow>
      bnd (needlessHeader sz b) (\<lambda>bad. Ok (u, if bad then Inl (wrapStreamError ErrCanonSize) else Inr (VArray b))))"
    using needlessHeader_returns by (intro readFull_shrinks [OF 2(1,2)]) fastforce
  with 2 show ?case by (cases k) (simp_all add: shrinksI go_index_def)
qed (simp add: shrinksI)

definition terminates :: "nat \<Rightarrow> decoder \<Rightarrow> bool" where
  "terminates n d \<longleftrightarrow> (\<forall>s. fits s \<longrightarrow> length (st_input s) < n \<longrightarrow> shrinks s (d s))"

lemma terminates_via:
  assumes "\<And>s. fits s \<Longrightarrow> shrinks s (f s)"
    "\<And>s t e. f s = Ok (t, Inl e) \<Longrightarrow> \<exists>e'. d s = Ok (t, Inl e')"
    "\<And>s t v. f s = Ok (t, Inr v) \<Longrightarrow> \<exists>r. d s = Ok (t, r)"
  shows "terminates n d"
  unfolding terminates_def
proof (intro allI impI)
  fix s assume "fits s"
  then obtain t r where f: "f s = Ok (t, r)" "no_more s t"
    "\<And>v. r = Inr v \<Longrightarrow> length (st_input t) < length (st_input s) \<and> st_kind t = None"
    using assms(1) unfolding shrinks_def by blast
  show "shrinks s (d s)"
  proof (cases r)
    case (Inl e)
    with assms(2) f(1,2) show ?thesis by (fastforce intro: shrinksI(2))
  next
    case (Inr v)
    with assms(3) f show ?thesis by (fastforce intro: shrinksI(1))
  qed
qed

lemma shrinks_step:
  assumes "terminates m d" "fits s" "length (st_input s) < m"
  obtains (err) t e where "d s = Ok (t, Inl e)" "no_more s t"
  | (ok) t v where "d s = Ok (t, Inr v)" "no_more s t" "length (st_input t) < length (st_input s)" "fits t"
proof -
  obtain t r where f: "d s = Ok (t, r)" "no_more s t"
    "\<And>v. r = Inr v \<Longrightarrow> length (st_input t) < length (st_input s) \<and> st_kind t = None"
    using assms unfolding terminates_def shrinks_def by blast
  with err ok fits_no_more [OF assms(2)] show thesis by (cases r) auto
qed

lemma decodeSliceElems_terminates:
  assumes "terminates m d" "length (st_input s) < n" "length (st_input s) < m" "fits s"
  shows "\<exists>t r. decodeSliceElems n d acc s = Ok (t, r) \<and> no_more s t"
  using assms(2-)
proof (induction n arbitrary: s acc)
  case (Suc n)
  show ?case
    using assms(1) Suc.prems(3,2)
  proof (cases rule: shrinks_step)
    case (ok t v)
    with Suc.IH [of t "acc @ [v]"] Suc.prems no_more_trans [of s t] show ?thesis by fastforce
  qed auto
qed simp

lemma decodeFields_terminates:
  assumes "\<forall>d\<in>set ds. terminates m d" "length (st_input s) < m" "fits s"
  shows "\<exists>t r. decodeFields ds acc s = Ok (t, r) \<and> no_more s t"
  using assms
proof (induction ds arbitrary: s acc)
  case (Cons d ds)
  then have "terminates m d" by simp
  then show ?case
    using Cons.prems(3,2)
  proof (cases rule: shrinks_step)
    case (ok t v)
    with Cons.IH [of t "acc @ [v]"] Cons.prems no_more_trans [of s t] show ?thesis by fastforce
  qed auto
qed simp

lemma Stream_ListEnd_input:
  "Stream_ListEnd s = (t, e) \<Longrightarrow> st_input t = st_input s \<and> no_more s t \<and> (e = None \<longrightarrow> st_kind t = None)"
  by (auto simp: Stream_ListEnd_def split: list.splits if_splits)

lemma ListEnd_shrinks:
  assumes "no_more s t" "length (st_input t) < length (st_input s)"
  shows "shrinks s (case Stream_ListEnd t of (u, Some e) \<Rightarrow> Ok (u, Inl (f e)) | (u, None) \<Rightarrow> Ok (u, Inr v))"
proof -
  obtain u e where u: "Stream_ListEnd t = (u, e)" by fastforce
  from Stream_ListEnd_input [OF u] assms no_more_trans [of s t u]
  have "no_more s u" "length (st_input u) < length (st_input s)" "e = None \<Longrightarrow> st_kind u = None" by auto
  with u show ?thesis by (cases e) (auto simp: shrinksI)
qed

lemma List_shrinks:
  assumes "fits s"
    "\<And>t e. no_more s t \<Longrightarrow> shrinks s (f (t, Inl e))"
    "\<And>t sz. no_more s t \<Longrightarrow> length (st_input t) < length (st_input s) \<Longrightarrow> fits t \<Longrightarrow> shrinks s (f (t, Inr sz))"
  shows "shrinks s (bnd (Stream_List s) f)"
proof -
  obtain t r where l: "Stream_List s = Ok (t, r)" "no_more s t"
    "\<And>v. r = Inr v \<Longrightarrow> length (st_input t) < length (st_input s) \<and> st_kind t = None"
    using Stream_List_shrinks [OF assms(1)] unfolding shrinks_def by blast
  with assms fits_no_more [OF assms(1)] show ?thesis by (cases r) auto
qed

lemma decodeListSlice_terminates:
  assumes "terminates n d"
  shows "terminates n (decodeListSlice n d)"
  unfolding terminates_def decodeListSlice_def Let_def
proof (intro allI impI, rule List_shrinks, goal_cases)
  case (3 s t sz)
  obtain u r where u: "decodeSliceElems n d [] t = Ok (u, r)" "no_more t u"
    using decodeSliceElems_terminates [OF assms, of t n] 3 by fastforce
  then have "no_more s u" "length (st_input u) < length (st_input s)"
    using 3 no_more_trans [of s t u] by (auto simp: no_more_def)
  with u(1) 3 show ?case by (cases r) (simp_all add: shrinksI ListEnd_shrinks [where f = "\<lambda>e. e"])
qed (simp_all add: shrinksI)

lemma decodeStruct_terminates:
  assumes "\<forall>d\<in>set ds. terminates n d"
  shows "terminates n (decodeStruct ds)"
  unfolding terminates_def decodeStruct_def
proof (intro allI impI, rule List_shrinks, goal_cases)
  case (3 s t sz)
  obtain u r where u: "decodeFields ds [] t = Ok (u, r)" "no_more t u"
    using decodeFields_terminates [OF assms, of t] 3 by fastforce
  then have "no_more s u" "length (st_input u) < length (st_input s)"
    using 3 no_more_trans [of s t u] by (auto simp: no_more_def)
  with u(1) show ?case by (cases r) (simp_all add: shrinksI ListEnd_shrinks)
qed (simp_all add: shrinksI)

text \<open>The types Go has: unsigned integers of at most 64 bits.\<close>

primrec go_type :: "gtype \<Rightarrow> bool" where
  "go_type (TUint bits) = (bits \<le> 64)"
| "go_type TBool = True"
| "go_type TBigInt = True"
| "go_type TBytes = True"
| "go_type (TArray len) = True"
| "go_type TString = True"
| "go_type (TSlice t) = go_type t"
| "go_type (TStruct ts) = list_all (\<lambda>b. b) (map go_type ts)"
| "go_type TRaw = True"

lemma makeDecoder_terminates: "go_type t \<Longrightarrow> terminates n (makeDecoder n t)"
proof (induction t)
  case (TUint bits)
  then have "shrinks s (Stream_uint s bits)" if "fits s" for s using Stream_uint_shrinks [OF that] by simp
  then show ?case unfolding makeDecoder.simps by (rule terminates_via) (auto simp: decodeUint_def)
next
  case TBool
  have "shrinks s (Stream_uint s 8)" if "fits s" for s using Stream_uint_shrinks [OF that] by simp
  then show ?case
    unfolding makeDecoder.simps by (rule terminates_via) (auto simp: decodeBool_def Stream_Bool_def)
next
  case TBytes
  show ?case
    unfolding makeDecoder.simps by (rule terminates_via [OF Stream_Bytes_shrinks]) (auto simp: decodeByteSlice_def)
next
  case TString
  show ?case
    unfolding makeDecoder.simps by (rule terminates_via [OF Stream_Bytes_shrinks]) (auto simp: decodeString_def)
next
  case TRaw
  show ?case
    unfolding makeDecoder.simps by (rule terminates_via [OF Stream_Raw_shrinks]) (auto simp: decodeRawValue_def)
next
  case TBigInt
  show ?case by (simp add: terminates_def decodeBigInt_shrinks)
next
  case (TArray len)
  show ?case by (simp add: terminates_def decodeByteArray_shrinks)
next
  case (TSlice t)
  then show ?case by (simp add: decodeListSlice_terminates)
next
  case (TStruct ts)
  then have "\<forall>d\<in>set (map (makeDecoder n) ts). terminates n d" by (auto simp: list_all_iff)
  then show ?case using decodeStruct_terminates by simp
qed

lemma DecodeBytes_returns:
  assumes "length b < 2 ^ 62" "go_type t"
  shows "\<exists>r. DecodeBytes b t = Ok r"
proof -
  let ?s = "Stream_Reset b (of_nat (length b))"
  have "unat (of_nat (length b) :: u64) = length b" using assms(1) by (intro unat_of_nat_u64) simp
  then have "fits ?s" "length (st_input ?s) < Suc (length b)"
    using assms(1) by (simp_all add: Stream_Reset_def fits_def)
  then obtain s r where "makeDecoder (Suc (length b)) t ?s = Ok (s, r)"
    using makeDecoder_terminates [OF assms(2), of "Suc (length b)"] unfolding terminates_def shrinks_def by blast
  then show ?thesis by (simp add: DecodeBytes_def split: sum.splits)
qed

section \<open>Properties\<close>

lemma has_type_encodable: "has_type v t \<Longrightarrow> encodable v"
proof (induction v arbitrary: t)
  case (VSlice vs)
  then obtain t' where "\<forall>v\<in>set vs. has_type v t'"
    by (auto simp: list_all_iff split: gtype.splits)
  with VSlice.IH have "\<forall>v\<in>set vs. encodable v" by blast
  then show ?case by (simp add: list_all_iff)
next
  case (VStruct vs)
  then obtain ts where ts: "list_all2 has_type vs ts"
    by (auto simp: list_all2_map1 split: gtype.splits)
  have "\<forall>v\<in>set vs. \<exists>t. has_type v t"
  proof
    fix v assume "v \<in> set vs"
    then obtain i where "i < length vs" "v = vs ! i" by (auto simp: in_set_conv_nth)
    with list_all2_nthD [OF ts] show "\<exists>t. has_type v t" by blast
  qed
  with VStruct.IH have "\<forall>v\<in>set vs. encodable v" by blast
  then show ?case by (simp add: list_all_iff)
qed simp_all

text \<open>C11. The buffered encoder, which collects string data and list headers separately and merges
  them at the end, never panics and produces exactly the recursive RLP encoding of every encodable
  value whose encoding is shorter than \<open>2 ^ 64\<close> bytes.\<close>

theorem encoder_refines_rlp:
  assumes "encodable v" "length (rlp_enc v) < 2 ^ 64"
  shows "EncodeToBytes v = Ok (Inr (rlp_enc v))"
  using assms by (rule EncodeToBytes_eq)

theorem encoder_refines_rlp_witness:
  "EncodeToBytes (VStruct [VUint 5, VSlice [VBytes [1, 2], VBigInt 0], VBool True]) =
     Ok (Inr (rlp_enc (VStruct [VUint 5, VSlice [VBytes [1, 2], VBigInt 0], VBool True])))"
proof (rule encoder_refines_rlp)
  show "encodable (VStruct [VUint 5, VSlice [VBytes [1, 2], VBigInt 0], VBool True])" by simp
  have "length (rlp_enc (VStruct [VUint 5, VSlice [VBytes [1, 2], VBigInt 0], VBool True])) \<le> 20" by code_simp
  then show "length (rlp_enc (VStruct [VUint 5, VSlice [VBytes [1, 2], VBigInt 0], VBool True])) < 2 ^ 64" by simp
qed

text \<open>C10. Round trip: a value of a decodable type is encoded, and decoding the encoding at that
  type gives the value back and leaves no trailing input.  Encodings are shorter than \<open>2 ^ 63\<close> bytes, as every
  Go slice is.\<close>

theorem rlp_roundtrip:
  assumes "has_type v t" "length (rlp_enc v) < 2 ^ 63"
  shows "\<exists>b. EncodeToBytes v = Ok (Inr b) \<and> DecodeBytes b t = Ok (Inr v)"
  proof -
  have "length (rlp_enc v) < 2 ^ 64" using assms(2) by simp
  with EncodeToBytes_eq [OF has_type_encodable] DecodeBytes_eq assms show ?thesis by blast
qed

theorem rlp_roundtrip_witness:
  "\<exists>b. EncodeToBytes (VStruct [VUint 300, VSlice [VBytes [1, 2]], VArray [7]]) = Ok (Inr b) \<and>
     DecodeBytes b (TStruct [TUint 64, TSlice TBytes, TArray 1]) =
       Ok (Inr (VStruct [VUint 300, VSlice [VBytes [1, 2]], VArray [7]]))"
proof (rule rlp_roundtrip)
  show "has_type (VStruct [VUint 300, VSlice [VBytes [1, 2]], VArray [7]])
      (TStruct [TUint 64, TSlice TBytes, TArray 1])" by simp
  have "length (rlp_enc (VStruct [VUint 300, VSlice [VBytes [1, 2]], VArray [7]])) \<le> 20" by code_simp
  then show "length (rlp_enc (VStruct [VUint 300, VSlice [VBytes [1, 2]], VArray [7]])) < 2 ^ 63" by simp
qed

text \<open>C24. Decoding any byte string at any type returns a value or an error: no size or length in the
  input makes the decoder index or slice outside a buffer, allocate a slice of an impossible size, or run
  forever.  The unsigned integers of the type have at most 64 bits, as in Go, and the input is shorter than
  \<open>2 ^ 62\<close> bytes, as everything in memory is.\<close>

theorem DecodeBytes_total:
  assumes "length b < 2 ^ 62" "go_type t"
  shows "\<exists>r. DecodeBytes b t = Ok r"
  using assms by (rule DecodeBytes_returns)

theorem DecodeBytes_total_witness:
  "\<exists>r. DecodeBytes (0x89 # replicate 9 1) (TUint 64) = Ok r"
  by (rule DecodeBytes_total) simp_all

end
