(* ===== verification/AccessList.thy ===== *)
theory AccessList
  imports Common
begin

text \<open>
  The EIP-2929 access list of \<open>core/state/access_list.go\<close>: a map from addresses to an index
  into a slice of slot sets, \<open>-1\<close> standing for an address without slots.  The theory has the
  operations, their well-formedness invariant, the specification as a set of addresses and a
  set of address/slot pairs, and that the deletions used by the journal undo the additions.
\<close>

section \<open>State and operations\<close>

record accessList =
  al_addresses :: "address \<Rightarrow> int option"
  al_slots :: "hash set list"

definition ContainsAddress :: "accessList \<Rightarrow> address \<Rightarrow> bool" where
  "ContainsAddress al addr = (case al_addresses al addr of None \<Rightarrow> False | Some _ \<Rightarrow> True)"

definition Contains :: "accessList \<Rightarrow> address \<Rightarrow> hash \<Rightarrow> (bool \<times> bool) outcome" where
  "Contains al addr slot =
     (case al_addresses al addr of
        None \<Rightarrow> Ok (False, False)
      | Some idx \<Rightarrow>
          if idx = -1 then Ok (True, False)
          else bnd (go_index (al_slots al) idx) (\<lambda>slotmap. Ok (True, slot \<in> slotmap)))"

definition newAccessList :: accessList where
  "newAccessList = \<lparr>al_addresses = (\<lambda>_. None), al_slots = []\<rparr>"

text \<open>\<open>Copy\<close> rebuilds both containers; the values are the same.\<close>

definition accessList_Copy :: "accessList \<Rightarrow> accessList" where
  "accessList_Copy a =
     newAccessList \<lparr>al_addresses := (\<lambda>k. al_addresses a k),
                    al_slots := map (\<lambda>slotMap. {k. k \<in> slotMap}) (al_slots a)\<rparr>"

definition AddAddress :: "accessList \<Rightarrow> address \<Rightarrow> accessList \<times> bool" where
  "AddAddress al addr =
     (case al_addresses al addr of
        Some _ \<Rightarrow> (al, False)
      | None \<Rightarrow> (al\<lparr>al_addresses := (al_addresses al)(addr \<mapsto> -1)\<rparr>, True))"

definition AddSlot :: "accessList \<Rightarrow> address \<Rightarrow> hash \<Rightarrow> (accessList \<times> bool \<times> bool) outcome" where
  "AddSlot al addr slot =
     (let appended = al\<lparr>al_addresses := (al_addresses al)(addr \<mapsto> int (length (al_slots al))),
                        al_slots := al_slots al @ [{slot}]\<rparr>
      in case al_addresses al addr of
           None \<Rightarrow> Ok (appended, True, True)
         | Some idx \<Rightarrow>
             if idx = -1 then Ok (appended, False, True)
             else bnd (go_index (al_slots al) idx) (\<lambda>slotmap.
               if slot \<notin> slotmap
               then Ok (al\<lparr>al_slots := (al_slots al)[nat idx := insert slot slotmap]\<rparr>, False, True)
               else Ok (al, False, False)))"

definition DeleteSlot :: "accessList \<Rightarrow> address \<Rightarrow> hash \<Rightarrow> accessList outcome" where
  "DeleteSlot al addr slot =
     (case al_addresses al addr of
        None \<Rightarrow> Panic
      | Some idx \<Rightarrow>
          bnd (go_index (al_slots al) idx) (\<lambda>slotmap.
            let slotmap = slotmap - {slot} in
            if slotmap = {}
            then Ok (al\<lparr>al_addresses := (al_addresses al)(addr \<mapsto> -1),
                        al_slots := take (nat idx) (al_slots al)\<rparr>)
            else Ok (al\<lparr>al_slots := (al_slots al)[nat idx := slotmap]\<rparr>)))"

definition DeleteAddress :: "accessList \<Rightarrow> address \<Rightarrow> accessList" where
  "DeleteAddress al addr = al\<lparr>al_addresses := (al_addresses al)(addr := None)\<rparr>"

section \<open>Invariant and specification\<close>

text \<open>
  Every stored index is \<open>-1\<close> or points into the slice, no two addresses share a slot set, and
  no slot set is empty.
\<close>

definition al_wf :: "accessList \<Rightarrow> bool" where
  "al_wf al \<longleftrightarrow>
     (\<forall>a i. al_addresses al a = Some i \<longrightarrow> i = -1 \<or> (0 \<le> i \<and> i < int (length (al_slots al)))) \<and>
     (\<forall>a b i. al_addresses al a = Some i \<and> al_addresses al b = Some i \<and> i \<noteq> -1 \<longrightarrow> a = b) \<and>
     (\<forall>slotmap\<in>set (al_slots al). slotmap \<noteq> {})"

definition al_addrs :: "accessList \<Rightarrow> address set" where
  "al_addrs al = dom (al_addresses al)"

definition al_pairs :: "accessList \<Rightarrow> (address \<times> hash) set" where
  "al_pairs al = {(a, s). \<exists>i. al_addresses al a = Some i \<and> i \<noteq> -1 \<and> s \<in> al_slots al ! nat i}"

lemma al_pairs_iff:
  "(b, t) \<in> al_pairs al \<longleftrightarrow>
     (case al_addresses al b of None \<Rightarrow> False | Some i \<Rightarrow> i \<noteq> -1 \<and> t \<in> al_slots al ! nat i)"
  by (auto simp: al_pairs_def split: option.splits)

lemma al_wf_index:
  "al_wf al \<Longrightarrow> al_addresses al a = Some i \<Longrightarrow> i \<noteq> -1 \<Longrightarrow> 0 \<le> i \<and> i < int (length (al_slots al))"
  unfolding al_wf_def by blast

lemma al_wf_inj:
  "al_wf al \<Longrightarrow> al_addresses al a = Some i \<Longrightarrow> al_addresses al b = Some i \<Longrightarrow> i \<noteq> -1 \<Longrightarrow> a = b"
  unfolding al_wf_def by blast

lemma al_wf_nonempty: "al_wf al \<Longrightarrow> i < length (al_slots al) \<Longrightarrow> al_slots al ! i \<noteq> {}"
  unfolding al_wf_def by simp

lemma al_wfI:
  assumes "\<And>a i. al_addresses al a = Some i \<Longrightarrow> i \<noteq> -1 \<Longrightarrow> 0 \<le> i \<and> i < int (length (al_slots al))"
    and "\<And>a b i. al_addresses al a = Some i \<Longrightarrow> al_addresses al b = Some i \<Longrightarrow> i \<noteq> -1 \<Longrightarrow> a = b"
    and "\<And>i. i < length (al_slots al) \<Longrightarrow> al_slots al ! i \<noteq> {}"
  shows "al_wf al"
  unfolding al_wf_def using assms by (metis in_set_conv_nth)

lemma al_wf_new [simp]: "al_wf newAccessList"
  by (simp add: al_wf_def newAccessList_def)

lemma al_addrs_new [simp]: "al_addrs newAccessList = {}"
  by (simp add: al_addrs_def newAccessList_def)

lemma al_pairs_new [simp]: "al_pairs newAccessList = {}"
  by (simp add: al_pairs_def newAccessList_def)

lemma accessList_Copy_id [simp]: "accessList_Copy al = al"
  by (simp add: accessList_Copy_def newAccessList_def)

lemma ContainsAddress_iff: "ContainsAddress al a \<longleftrightarrow> a \<in> al_addrs al"
  by (auto simp: ContainsAddress_def al_addrs_def split: option.splits)

lemma Contains_eq:
  assumes "al_wf al"
  shows "Contains al a s = Ok (a \<in> al_addrs al, (a, s) \<in> al_pairs al)"
proof (cases "al_addresses al a")
  case (Some i)
  with al_wf_index [OF assms Some] show ?thesis
    by (auto simp: Contains_def al_addrs_def al_pairs_def)
qed (auto simp: Contains_def al_addrs_def al_pairs_def)

lemma AddAddress_sets:
  assumes "AddAddress al a = (al', c)"
  shows "al_addrs al' = insert a (al_addrs al)" "al_pairs al' = al_pairs al"
    "c \<longleftrightarrow> a \<notin> al_addrs al"
  using assms by (auto simp: AddAddress_def al_addrs_def al_pairs_def split: option.splits if_splits)

lemma AddAddress_wf:
  assumes "al_wf al" "AddAddress al a = (al', c)"
  shows "al_wf al'"
proof (cases "al_addresses al a")
  case None
  with assms(2) have al': "al' = al\<lparr>al_addresses := (al_addresses al)(a \<mapsto> -1)\<rparr>"
    by (simp add: AddAddress_def)
  show ?thesis
    using al_wf_index [OF assms(1)] al_wf_inj [OF assms(1)] al_wf_nonempty [OF assms(1)]
    by (intro al_wfI) (auto simp: al' split: if_splits)
qed (use assms in \<open>simp add: AddAddress_def\<close>)

lemma AddAddress_undo:
  "AddAddress al a = (al', c) \<Longrightarrow> (if c then DeleteAddress al' a else al') = al"
  by (auto simp: AddAddress_def DeleteAddress_def fun_upd_idem split: option.splits)

text \<open>The three shapes of \<open>AddSlot\<close> on a well-formed list.\<close>

lemma AddSlot_cases:
  assumes "al_wf al"
  obtains (append) "al_addresses al a = None \<or> al_addresses al a = Some (-1)"
      "AddSlot al a s =
         Ok (al\<lparr>al_addresses := (al_addresses al)(a \<mapsto> int (length (al_slots al))),
                al_slots := al_slots al @ [{s}]\<rparr>, al_addresses al a = None, True)"
  | (insert) i where "al_addresses al a = Some (int i)" "i < length (al_slots al)"
      "s \<notin> al_slots al ! i"
      "AddSlot al a s =
         Ok (al\<lparr>al_slots := (al_slots al)[i := insert s (al_slots al ! i)]\<rparr>, False, True)"
  | (present) i where "al_addresses al a = Some (int i)" "i < length (al_slots al)"
      "s \<in> al_slots al ! i" "AddSlot al a s = Ok (al, False, False)"
proof (cases "al_addresses al a")
  case None
  then show ?thesis by (intro append) (simp_all add: AddSlot_def)
next
  case (Some j)
  show ?thesis
  proof (cases "j = -1")
    case True
    with Some show ?thesis by (intro append) (simp_all add: AddSlot_def)
  next
    case False
    with al_wf_index [OF assms Some] have j: "0 \<le> j" "j < int (length (al_slots al))" by auto
    show ?thesis
    proof (cases "s \<in> al_slots al ! nat j")
      case True
      with j Some False show ?thesis by (intro present [of "nat j"]) (simp_all add: AddSlot_def)
    next
      case False
      with j Some \<open>j \<noteq> -1\<close> show ?thesis by (intro insert [of "nat j"]) (simp_all add: AddSlot_def)
    qed
  qed
qed

lemma AddSlot_total: "al_wf al \<Longrightarrow> \<exists>al' c d. AddSlot al a s = Ok (al', c, d)"
  by (erule AddSlot_cases [of al a s]) auto

lemma AddSlot_wf:
  assumes "al_wf al" "AddSlot al a s = Ok (al', c, d)"
  shows "al_wf al'"
  using assms(1)
proof (cases rule: AddSlot_cases [of al a s])
  case append
  have bound: "0 \<le> i \<and> i < int (length (al_slots al))"
    if "al_addresses al b = Some i" "i \<noteq> -1" for b i
    using al_wf_index [OF assms(1) that] .
  from append assms(2) have al': "al_slots al' = al_slots al @ [{s}]"
    "al_addresses al' = (al_addresses al)(a \<mapsto> int (length (al_slots al)))" by auto
  show ?thesis
  proof (rule al_wfI)
    fix b i assume "al_addresses al' b = Some i" "i \<noteq> -1"
    then show "0 \<le> i \<and> i < int (length (al_slots al'))"
      using bound [of b i] by (auto simp: al' split: if_splits)
  next
    fix b b' i assume "al_addresses al' b = Some i" "al_addresses al' b' = Some i" "i \<noteq> -1"
    then show "b = b'"
      using bound [of b i] bound [of b' i] al_wf_inj [OF assms(1), of b i b']
      by (auto simp: al' split: if_splits)
  next
    fix i assume "i < length (al_slots al')"
    then show "al_slots al' ! i \<noteq> {}"
      using al_wf_nonempty [OF assms(1), of i] by (auto simp: al' nth_append)
  qed
next
  case (insert i)
  with assms(2) have al': "al' = al\<lparr>al_slots := (al_slots al)[i := insert s (al_slots al ! i)]\<rparr>"
    by simp
  show ?thesis
    using al_wf_index [OF assms(1)] al_wf_inj [OF assms(1)] al_wf_nonempty [OF assms(1)]
    by (intro al_wfI) (simp_all add: al', metis insert_not_empty nth_list_update_eq nth_list_update_neq)
qed (use assms in auto)

lemma AddSlot_addrs:
  assumes "al_wf al" "AddSlot al a s = Ok (al', c, d)"
  shows "al_addrs al' = insert a (al_addrs al)" "c \<longleftrightarrow> a \<notin> al_addrs al"
  using assms by (cases rule: AddSlot_cases [of al a s]; auto simp: al_addrs_def)+

lemma AddSlot_pairs:
  assumes "al_wf al" "AddSlot al a s = Ok (al', c, d)"
  shows "al_pairs al' = insert (a, s) (al_pairs al)" "d \<longleftrightarrow> (a, s) \<notin> al_pairs al"
proof -
  have *: "al_pairs al' = insert (a, s) (al_pairs al) \<and> (d \<longleftrightarrow> (a, s) \<notin> al_pairs al)"
    using assms(1)
  proof (cases rule: AddSlot_cases [of al a s])
    case append
    have "(b, t) \<in> al_pairs al' \<longleftrightarrow> (b, t) = (a, s) \<or> (b, t) \<in> al_pairs al" for b t
    proof (cases "al_addresses al b")
      case (Some i)
      with append assms(2) al_wf_index [OF assms(1) Some] show ?thesis
        by (cases "b = a") (auto simp: al_pairs_iff nth_append)
    qed (use append assms(2) in \<open>auto simp: al_pairs_iff\<close>)
    with append assms(2) show ?thesis by (auto simp: al_pairs_iff)
  next
    case (insert i)
    have "(b, t) \<in> al_pairs al' \<longleftrightarrow> (b, t) = (a, s) \<or> (b, t) \<in> al_pairs al" for b t
    proof (cases "al_addresses al b")
      case (Some j)
      show ?thesis
      proof (cases "j = -1 \<or> b = a")
        case False
        with Some insert(1) al_wf_index [OF assms(1) Some] al_wf_inj [OF assms(1) Some, of a]
        have "nat j \<noteq> i" by force
        with False Some insert assms(2) show ?thesis by (simp add: al_pairs_iff)
      qed (use Some insert assms(2) in \<open>auto simp: al_pairs_iff\<close>)
    qed (use insert assms(2) in \<open>auto simp: al_pairs_iff\<close>)
    with insert assms(2) show ?thesis by (auto simp: al_pairs_iff)
  next
    case (present i)
    with assms(2) show ?thesis by (auto simp: al_pairs_def)
  qed
  then show "al_pairs al' = insert (a, s) (al_pairs al)" "d \<longleftrightarrow> (a, s) \<notin> al_pairs al" by auto
qed

lemma AddSlot_undo:
  assumes "al_wf al" "AddSlot al a s = Ok (al', c, d)"
  shows "bnd (if d then DeleteSlot al' a s else Ok al')
             (\<lambda>al''. Ok (if c then DeleteAddress al'' a else al'')) = Ok al"
  using assms(1)
proof (cases rule: AddSlot_cases [of al a s])
  case append
  with assms(2) show ?thesis
    by (auto simp: DeleteSlot_def DeleteAddress_def fun_upd_idem)
next
  case (insert i)
  moreover have "insert s (al_slots al ! i) - {s} = al_slots al ! i" using insert by auto
  ultimately show ?thesis
    using assms al_wf_nonempty [OF assms(1), of i]
    by (auto simp: DeleteSlot_def list_update_id Let_def)
qed (use assms in auto)

section \<open>The interface the state database relies on\<close>

text \<open>
  \<open>StateDB\<close> uses the access list through five operations.  The locale states what it relies
  on: a set of addresses and a set of address/slot pairs, and that undoing the recorded
  changes in reverse order gives back the list itself.
\<close>

locale access_list_spec =
  fixes inv :: "'s \<Rightarrow> bool"
    and addrs :: "'s \<Rightarrow> address set"
    and pairs :: "'s \<Rightarrow> (address \<times> hash) set"
    and add_addr :: "'s \<Rightarrow> address \<Rightarrow> 's \<times> bool"
    and add_slot :: "'s \<Rightarrow> address \<Rightarrow> hash \<Rightarrow> ('s \<times> bool \<times> bool) outcome"
    and del_addr :: "'s \<Rightarrow> address \<Rightarrow> 's"
    and del_slot :: "'s \<Rightarrow> address \<Rightarrow> hash \<Rightarrow> 's outcome"
  assumes add_addr_inv: "inv s \<Longrightarrow> add_addr s a = (s', c) \<Longrightarrow> inv s'"
    and add_addr_sets: "inv s \<Longrightarrow> add_addr s a = (s', c) \<Longrightarrow>
      addrs s' = insert a (addrs s) \<and> pairs s' = pairs s \<and> (c \<longleftrightarrow> a \<notin> addrs s)"
    and add_addr_undo: "inv s \<Longrightarrow> add_addr s a = (s', c) \<Longrightarrow> (if c then del_addr s' a else s') = s"
    and add_slot_total: "inv s \<Longrightarrow> \<exists>s' c d. add_slot s a k = Ok (s', c, d)"
    and add_slot_inv: "inv s \<Longrightarrow> add_slot s a k = Ok (s', c, d) \<Longrightarrow> inv s'"
    and add_slot_sets: "inv s \<Longrightarrow> add_slot s a k = Ok (s', c, d) \<Longrightarrow>
      addrs s' = insert a (addrs s) \<and> pairs s' = insert (a, k) (pairs s) \<and>
      (c \<longleftrightarrow> a \<notin> addrs s) \<and> (d \<longleftrightarrow> (a, k) \<notin> pairs s)"
    and add_slot_undo: "inv s \<Longrightarrow> add_slot s a k = Ok (s', c, d) \<Longrightarrow>
      bnd (if d then del_slot s' a k else Ok s') (\<lambda>t. Ok (if c then del_addr t a else t)) = Ok s"
begin

text \<open>A second addition of the same slot changes nothing.\<close>

lemma add_slot_twice:
  assumes "inv s" "add_slot s a k = Ok (s', c, d)"
  shows "\<exists>s''. add_slot s' a k = Ok (s'', False, False)"
proof -
  obtain s'' c' d' where r: "add_slot s' a k = Ok (s'', c', d')"
    using add_slot_total [OF add_slot_inv [OF assms]] by blast
  with add_slot_sets [OF assms] add_slot_sets [OF add_slot_inv [OF assms] r] show ?thesis by auto
qed

text \<open>Adding a list of slots of one address, as the loop of \<open>PrepareAccessList\<close> does.\<close>

primrec add_slots :: "'s \<Rightarrow> address \<Rightarrow> hash list \<Rightarrow> 's outcome" where
  "add_slots s a [] = Ok s"
| "add_slots s a (k # ks) = bnd (add_slot s a k) (\<lambda>(s', c, d). add_slots s' a ks)"

lemma add_slots_sets:
  assumes "inv s"
  shows "\<exists>s'. add_slots s a ks = Ok s' \<and> inv s' \<and>
    pairs s' = pairs s \<union> {a} \<times> set ks \<and> (ks \<noteq> [] \<longrightarrow> addrs s' = insert a (addrs s))"
  using assms
proof (induction ks arbitrary: s)
  case (Cons k ks)
  obtain s1 c d where r: "add_slot s a k = Ok (s1, c, d)"
    using add_slot_total [OF Cons.prems] by blast
  with Cons.IH [OF add_slot_inv [OF Cons.prems r]] add_slot_sets [OF Cons.prems r]
  show ?case by (cases "ks = []") auto
qed simp

end

interpretation al: access_list_spec al_wf al_addrs al_pairs AddAddress AddSlot DeleteAddress DeleteSlot
proof
  fix s :: accessList and a s' c
  assume r: "al_wf s" "AddAddress s a = (s', c)"
  show "al_wf s'" using r by (rule AddAddress_wf)
  show "al_addrs s' = insert a (al_addrs s) \<and> al_pairs s' = al_pairs s \<and> (c \<longleftrightarrow> a \<notin> al_addrs s)"
    using AddAddress_sets [OF r(2)] by blast
  show "(if c then DeleteAddress s' a else s') = s" using r(2) by (rule AddAddress_undo)
next
  fix s :: accessList and a k
  show "al_wf s \<Longrightarrow> \<exists>s' c d. AddSlot s a k = Ok (s', c, d)" by (rule AddSlot_total)
next
  fix s :: accessList and a k s' c d
  assume r: "al_wf s" "AddSlot s a k = Ok (s', c, d)"
  show "al_wf s'" using r by (rule AddSlot_wf)
  show "al_addrs s' = insert a (al_addrs s) \<and> al_pairs s' = insert (a, k) (al_pairs s) \<and>
      (c \<longleftrightarrow> a \<notin> al_addrs s) \<and> (d \<longleftrightarrow> (a, k) \<notin> al_pairs s)"
    using AddSlot_addrs [OF r] AddSlot_pairs [OF r] by blast
  show "bnd (if d then DeleteSlot s' a k else Ok s')
      (\<lambda>t. Ok (if c then DeleteAddress t a else t)) = Ok s"
    using r by (rule AddSlot_undo)
qed

section \<open>Property\<close>

text \<open>C21. On a well-formed access list \<open>AddSlot\<close> does not panic, keeps well-formedness, and is
  set insertion: afterwards \<open>Contains\<close> answers for exactly the old addresses and slots and the
  new pair, the two returned flags say exactly what was new, and undoing the flagged changes
  restores the list.\<close>

theorem access_list_refines_sets:
  assumes "al_wf al"
  shows "\<exists>al' c d. AddSlot al a s = Ok (al', c, d) \<and> al_wf al' \<and>
    (\<forall>b t. Contains al' b t = Ok (b = a \<or> b \<in> al_addrs al, (b, t) = (a, s) \<or> (b, t) \<in> al_pairs al)) \<and>
    (c \<longleftrightarrow> \<not> ContainsAddress al a) \<and> (d \<longleftrightarrow> Contains al a s \<noteq> Ok (True, True)) \<and>
    bnd (if d then DeleteSlot al' a s else Ok al')
        (\<lambda>al''. Ok (if c then DeleteAddress al'' a else al'')) = Ok al"
proof -
  obtain al' c d where r: "AddSlot al a s = Ok (al', c, d)"
    using AddSlot_total [OF assms] by blast
  have wf: "al_wf al'" by (rule AddSlot_wf [OF assms r])
  have "al_pairs al \<subseteq> al_addrs al \<times> UNIV" by (auto simp: al_pairs_def al_addrs_def)
  then show ?thesis
    using r wf Contains_eq [OF wf] Contains_eq [OF assms] AddSlot_addrs [OF assms r]
      AddSlot_pairs [OF assms r] AddSlot_undo [OF assms r]
    by (auto simp: ContainsAddress_iff)
qed

text \<open>Applied at a list that already has the address with another slot.\<close>

theorem access_list_refines_sets_witness:
  "\<exists>al' c d. AddSlot \<lparr>al_addresses = [7 \<mapsto> 0], al_slots = [{1}]\<rparr> 7 2 = Ok (al', c, d) \<and> al_wf al'"
proof -
  have "al_wf \<lparr>al_addresses = [7 \<mapsto> 0], al_slots = [{1}]\<rparr>"
    by (auto simp: al_wf_def split: if_splits)
  from access_list_refines_sets [OF this, of 7 2] show ?thesis by blast
qed

end
