(* ===== verification/Params.thy ===== *)
theory Params
  imports Common
begin

text \<open>
  The package \<open>params\<close>: the protocol constants (\<open>params/protocol_params.go\<close>), the chain
  configuration with its fork predicates and rules, the check of the fork order and the check
  that a new configuration is compatible with the imported chain (\<open>params/config.go\<close>).
\<close>

section \<open>Protocol constants\<close>

abbreviation (input) GasLimitBoundDivisor :: u64 where "GasLimitBoundDivisor \<equiv> 1024"
abbreviation (input) MinGasLimit :: u64 where "MinGasLimit \<equiv> 5000"
abbreviation (input) GenesisGasLimit :: u64 where "GenesisGasLimit \<equiv> 4712388"
abbreviation (input) MaximumExtraDataSize :: u64 where "MaximumExtraDataSize \<equiv> 32"
abbreviation (input) ExpByteGas :: u64 where "ExpByteGas \<equiv> 10"
abbreviation (input) SloadGas :: u64 where "SloadGas \<equiv> 50"
abbreviation (input) CallValueTransferGas :: u64 where "CallValueTransferGas \<equiv> 9000"
abbreviation (input) CallNewAccountGas :: u64 where "CallNewAccountGas \<equiv> 25000"
abbreviation (input) TxGas :: u64 where "TxGas \<equiv> 21000"
abbreviation (input) TxGasContractCreation :: u64 where "TxGasContractCreation \<equiv> 53000"
abbreviation (input) TxDataZeroGas :: u64 where "TxDataZeroGas \<equiv> 4"
abbreviation (input) QuadCoeffDiv :: u64 where "QuadCoeffDiv \<equiv> 512"
abbreviation (input) LogDataGas :: u64 where "LogDataGas \<equiv> 8"
abbreviation (input) CallStipend :: u64 where "CallStipend \<equiv> 2300"
abbreviation (input) Sha3Gas :: u64 where "Sha3Gas \<equiv> 30"
abbreviation (input) Sha3WordGas :: u64 where "Sha3WordGas \<equiv> 6"
abbreviation (input) SstoreSetGas :: u64 where "SstoreSetGas \<equiv> 20000"
abbreviation (input) SstoreResetGas :: u64 where "SstoreResetGas \<equiv> 5000"
abbreviation (input) SstoreClearGas :: u64 where "SstoreClearGas \<equiv> 5000"
abbreviation (input) SstoreRefundGas :: u64 where "SstoreRefundGas \<equiv> 15000"
abbreviation (input) NetSstoreNoopGas :: u64 where "NetSstoreNoopGas \<equiv> 200"
abbreviation (input) NetSstoreInitGas :: u64 where "NetSstoreInitGas \<equiv> 20000"
abbreviation (input) NetSstoreCleanGas :: u64 where "NetSstoreCleanGas \<equiv> 5000"
abbreviation (input) NetSstoreDirtyGas :: u64 where "NetSstoreDirtyGas \<equiv> 200"
abbreviation (input) NetSstoreClearRefund :: u64 where "NetSstoreClearRefund \<equiv> 15000"
abbreviation (input) NetSstoreResetRefund :: u64 where "NetSstoreResetRefund \<equiv> 4800"
abbreviation (input) NetSstoreResetClearRefund :: u64 where "NetSstoreResetClearRefund \<equiv> 19800"
abbreviation (input) SstoreSentryGasEIP2200 :: u64 where "SstoreSentryGasEIP2200 \<equiv> 2300"
abbreviation (input) SstoreSetGasEIP2200 :: u64 where "SstoreSetGasEIP2200 \<equiv> 20000"
abbreviation (input) SstoreResetGasEIP2200 :: u64 where "SstoreResetGasEIP2200 \<equiv> 5000"
abbreviation (input) SstoreClearsScheduleRefundEIP2200 :: u64 where "SstoreClearsScheduleRefundEIP2200 \<equiv> 15000"
abbreviation (input) ColdAccountAccessCostEIP2929 :: u64 where "ColdAccountAccessCostEIP2929 \<equiv> 2600"
abbreviation (input) ColdSloadCostEIP2929 :: u64 where "ColdSloadCostEIP2929 \<equiv> 2100"
abbreviation (input) WarmStorageReadCostEIP2929 :: u64 where "WarmStorageReadCostEIP2929 \<equiv> 100"
abbreviation (input) JumpdestGas :: u64 where "JumpdestGas \<equiv> 1"
abbreviation (input) EpochDuration :: u64 where "EpochDuration \<equiv> 30000"
abbreviation (input) CreateDataGas :: u64 where "CreateDataGas \<equiv> 200"
abbreviation (input) CallCreateDepth :: u64 where "CallCreateDepth \<equiv> 1024"
abbreviation (input) ExpGas :: u64 where "ExpGas \<equiv> 10"
abbreviation (input) LogGas :: u64 where "LogGas \<equiv> 375"
abbreviation (input) CopyGas :: u64 where "CopyGas \<equiv> 3"
abbreviation (input) StackLimit :: u64 where "StackLimit \<equiv> 1024"
abbreviation (input) TierStepGas :: u64 where "TierStepGas \<equiv> 0"
abbreviation (input) LogTopicGas :: u64 where "LogTopicGas \<equiv> 375"
abbreviation (input) CreateGas :: u64 where "CreateGas \<equiv> 32000"
abbreviation (input) Create2Gas :: u64 where "Create2Gas \<equiv> 32000"
abbreviation (input) SelfdestructRefundGas :: u64 where "SelfdestructRefundGas \<equiv> 24000"
abbreviation (input) MemoryGas :: u64 where "MemoryGas \<equiv> 3"
abbreviation (input) TxDataNonZeroGasFrontier :: u64 where "TxDataNonZeroGasFrontier \<equiv> 68"
abbreviation (input) TxDataNonZeroGasEIP2028 :: u64 where "TxDataNonZeroGasEIP2028 \<equiv> 16"
abbreviation (input) TxAccessListAddressGas :: u64 where "TxAccessListAddressGas \<equiv> 2400"
abbreviation (input) TxAccessListStorageKeyGas :: u64 where "TxAccessListStorageKeyGas \<equiv> 1900"
abbreviation (input) CallGasFrontier :: u64 where "CallGasFrontier \<equiv> 40"
abbreviation (input) CallGasEIP150 :: u64 where "CallGasEIP150 \<equiv> 700"
abbreviation (input) BalanceGasFrontier :: u64 where "BalanceGasFrontier \<equiv> 20"
abbreviation (input) BalanceGasEIP150 :: u64 where "BalanceGasEIP150 \<equiv> 400"
abbreviation (input) BalanceGasEIP1884 :: u64 where "BalanceGasEIP1884 \<equiv> 700"
abbreviation (input) ExtcodeSizeGasFrontier :: u64 where "ExtcodeSizeGasFrontier \<equiv> 20"
abbreviation (input) ExtcodeSizeGasEIP150 :: u64 where "ExtcodeSizeGasEIP150 \<equiv> 700"
abbreviation (input) SloadGasFrontier :: u64 where "SloadGasFrontier \<equiv> 50"
abbreviation (input) SloadGasEIP150 :: u64 where "SloadGasEIP150 \<equiv> 200"
abbreviation (input) SloadGasEIP1884 :: u64 where "SloadGasEIP1884 \<equiv> 800"
abbreviation (input) SloadGasEIP2200 :: u64 where "SloadGasEIP2200 \<equiv> 800"
abbreviation (input) ExtcodeHashGasConstantinople :: u64 where "ExtcodeHashGasConstantinople \<equiv> 400"
abbreviation (input) ExtcodeHashGasEIP1884 :: u64 where "ExtcodeHashGasEIP1884 \<equiv> 700"
abbreviation (input) SelfdestructGasEIP150 :: u64 where "SelfdestructGasEIP150 \<equiv> 5000"
abbreviation (input) ExpByteFrontier :: u64 where "ExpByteFrontier \<equiv> 10"
abbreviation (input) ExpByteEIP158 :: u64 where "ExpByteEIP158 \<equiv> 50"
abbreviation (input) ExtcodeCopyBaseFrontier :: u64 where "ExtcodeCopyBaseFrontier \<equiv> 20"
abbreviation (input) ExtcodeCopyBaseEIP150 :: u64 where "ExtcodeCopyBaseEIP150 \<equiv> 700"
abbreviation (input) CreateBySelfdestructGas :: u64 where "CreateBySelfdestructGas \<equiv> 25000"
abbreviation (input) BaseFeeChangeDenominator :: int where "BaseFeeChangeDenominator \<equiv> 8"
abbreviation (input) ElasticityMultiplier :: u64 where "ElasticityMultiplier \<equiv> 2"
abbreviation (input) InitialBaseFee :: int where "InitialBaseFee \<equiv> 1000000000"
abbreviation (input) MaxCodeSize :: int where "MaxCodeSize \<equiv> 24576"
abbreviation (input) EcrecoverGas :: u64 where "EcrecoverGas \<equiv> 3000"
abbreviation (input) Sha256BaseGas :: u64 where "Sha256BaseGas \<equiv> 60"
abbreviation (input) Sha256PerWordGas :: u64 where "Sha256PerWordGas \<equiv> 12"
abbreviation (input) Ripemd160BaseGas :: u64 where "Ripemd160BaseGas \<equiv> 600"
abbreviation (input) Ripemd160PerWordGas :: u64 where "Ripemd160PerWordGas \<equiv> 120"
abbreviation (input) IdentityBaseGas :: u64 where "IdentityBaseGas \<equiv> 15"
abbreviation (input) IdentityPerWordGas :: u64 where "IdentityPerWordGas \<equiv> 3"
abbreviation (input) Bn256AddGasByzantium :: u64 where "Bn256AddGasByzantium \<equiv> 500"
abbreviation (input) Bn256AddGasIstanbul :: u64 where "Bn256AddGasIstanbul \<equiv> 150"
abbreviation (input) Bn256ScalarMulGasByzantium :: u64 where "Bn256ScalarMulGasByzantium \<equiv> 40000"
abbreviation (input) Bn256ScalarMulGasIstanbul :: u64 where "Bn256ScalarMulGasIstanbul \<equiv> 6000"
abbreviation (input) Bn256PairingBaseGasByzantium :: u64 where "Bn256PairingBaseGasByzantium \<equiv> 100000"
abbreviation (input) Bn256PairingBaseGasIstanbul :: u64 where "Bn256PairingBaseGasIstanbul \<equiv> 45000"
abbreviation (input) Bn256PairingPerPointGasByzantium :: u64 where "Bn256PairingPerPointGasByzantium \<equiv> 80000"
abbreviation (input) Bn256PairingPerPointGasIstanbul :: u64 where "Bn256PairingPerPointGasIstanbul \<equiv> 34000"
abbreviation (input) Bls12381G1AddGas :: u64 where "Bls12381G1AddGas \<equiv> 600"
abbreviation (input) Bls12381G1MulGas :: u64 where "Bls12381G1MulGas \<equiv> 12000"
abbreviation (input) Bls12381G2AddGas :: u64 where "Bls12381G2AddGas \<equiv> 4500"
abbreviation (input) Bls12381G2MulGas :: u64 where "Bls12381G2MulGas \<equiv> 55000"
abbreviation (input) Bls12381PairingBaseGas :: u64 where "Bls12381PairingBaseGas \<equiv> 115000"
abbreviation (input) Bls12381PairingPerPairGas :: u64 where "Bls12381PairingPerPairGas \<equiv> 23000"
abbreviation (input) Bls12381MapG1Gas :: u64 where "Bls12381MapG1Gas \<equiv> 5500"
abbreviation (input) Bls12381MapG2Gas :: u64 where "Bls12381MapG2Gas \<equiv> 110000"
abbreviation (input) RefundQuotient :: u64 where "RefundQuotient \<equiv> 2"
abbreviation (input) RefundQuotientEIP3529 :: u64 where "RefundQuotientEIP3529 \<equiv> 5"
abbreviation (input) SstoreClearsScheduleRefundEIP3529 :: u64 where "SstoreClearsScheduleRefundEIP3529 \<equiv> SstoreResetGasEIP2200 - ColdSloadCostEIP2929 + TxAccessListStorageKeyGas"
abbreviation (input) DifficultyBoundDivisor :: int where "DifficultyBoundDivisor \<equiv> 2048"
abbreviation (input) GenesisDifficulty :: int where "GenesisDifficulty \<equiv> 131072"
abbreviation (input) MinimumDifficulty :: int where "MinimumDifficulty \<equiv> 131072"
abbreviation (input) DurationLimit :: int where "DurationLimit \<equiv> 13"

section \<open>Chain configuration\<close>

text \<open>A \<open>*big.Int\<close> that may be nil is an \<^typ>\<open>int option\<close>.\<close>

record CliqueConfig =
  Period :: u64
  Epoch :: u64

record ChainConfig =
  ChainID :: "int option"
  HomesteadBlock :: "int option"
  DAOForkBlock :: "int option"
  DAOForkSupport :: bool
  EIP150Block :: "int option"
  EIP150Hash :: hash
  EIP155Block :: "int option"
  EIP158Block :: "int option"
  ByzantiumBlock :: "int option"
  ConstantinopleBlock :: "int option"
  PetersburgBlock :: "int option"
  IstanbulBlock :: "int option"
  MuirGlacierBlock :: "int option"
  BerlinBlock :: "int option"
  LondonBlock :: "int option"
  CatalystBlock :: "int option"
  Ethash :: "unit option"
  Clique :: "CliqueConfig option"

fun isForked :: "int option \<Rightarrow> int option \<Rightarrow> bool" where
  "isForked (Some s) (Some head) = (s \<le> head)"
| "isForked _ _ = False"

fun configNumEqual :: "int option \<Rightarrow> int option \<Rightarrow> bool" where
  "configNumEqual None y = (y = None)"
| "configNumEqual x None = (x = None)"
| "configNumEqual (Some x) (Some y) = (x = y)"

definition isForkIncompatible :: "int option \<Rightarrow> int option \<Rightarrow> int option \<Rightarrow> bool" where
  "isForkIncompatible s1 s2 head =
     ((isForked s1 head \<or> isForked s2 head) \<and> \<not> configNumEqual s1 s2)"

definition IsHomestead :: "ChainConfig \<Rightarrow> int option \<Rightarrow> bool" where
  "IsHomestead c num = isForked (HomesteadBlock c) num"

definition IsDAOFork :: "ChainConfig \<Rightarrow> int option \<Rightarrow> bool" where
  "IsDAOFork c num = isForked (DAOForkBlock c) num"

definition IsEIP150 :: "ChainConfig \<Rightarrow> int option \<Rightarrow> bool" where
  "IsEIP150 c num = isForked (EIP150Block c) num"

definition IsEIP155 :: "ChainConfig \<Rightarrow> int option \<Rightarrow> bool" where
  "IsEIP155 c num = isForked (EIP155Block c) num"

definition IsEIP158 :: "ChainConfig \<Rightarrow> int option \<Rightarrow> bool" where
  "IsEIP158 c num = isForked (EIP158Block c) num"

definition IsByzantium :: "ChainConfig \<Rightarrow> int option \<Rightarrow> bool" where
  "IsByzantium c num = isForked (ByzantiumBlock c) num"

definition IsConstantinople :: "ChainConfig \<Rightarrow> int option \<Rightarrow> bool" where
  "IsConstantinople c num = isForked (ConstantinopleBlock c) num"

definition IsMuirGlacier :: "ChainConfig \<Rightarrow> int option \<Rightarrow> bool" where
  "IsMuirGlacier c num = isForked (MuirGlacierBlock c) num"

definition IsPetersburg :: "ChainConfig \<Rightarrow> int option \<Rightarrow> bool" where
  "IsPetersburg c num =
     (isForked (PetersburgBlock c) num \<or>
      (PetersburgBlock c = None \<and> isForked (ConstantinopleBlock c) num))"

definition IsIstanbul :: "ChainConfig \<Rightarrow> int option \<Rightarrow> bool" where
  "IsIstanbul c num = isForked (IstanbulBlock c) num"

definition IsBerlin :: "ChainConfig \<Rightarrow> int option \<Rightarrow> bool" where
  "IsBerlin c num = isForked (BerlinBlock c) num"

definition IsLondon :: "ChainConfig \<Rightarrow> int option \<Rightarrow> bool" where
  "IsLondon c num = isForked (LondonBlock c) num"

definition IsCatalyst :: "ChainConfig \<Rightarrow> int option \<Rightarrow> bool" where
  "IsCatalyst c num = isForked (CatalystBlock c) num"

record Rules =
  r_ChainID :: int
  r_IsHomestead :: bool
  r_IsEIP150 :: bool
  r_IsEIP155 :: bool
  r_IsEIP158 :: bool
  r_IsByzantium :: bool
  r_IsConstantinople :: bool
  r_IsPetersburg :: bool
  r_IsIstanbul :: bool
  r_IsBerlin :: bool
  r_IsLondon :: bool
  r_IsCatalyst :: bool

definition ChainConfig_Rules :: "ChainConfig \<Rightarrow> int option \<Rightarrow> Rules" where
  "ChainConfig_Rules c num =
     \<lparr>r_ChainID = (case ChainID c of None \<Rightarrow> 0 | Some i \<Rightarrow> i),
      r_IsHomestead = IsHomestead c num,
      r_IsEIP150 = IsEIP150 c num,
      r_IsEIP155 = IsEIP155 c num,
      r_IsEIP158 = IsEIP158 c num,
      r_IsByzantium = IsByzantium c num,
      r_IsConstantinople = IsConstantinople c num,
      r_IsPetersburg = IsPetersburg c num,
      r_IsIstanbul = IsIstanbul c num,
      r_IsBerlin = IsBerlin c num,
      r_IsLondon = IsLondon c num,
      r_IsCatalyst = IsCatalyst c num\<rparr>"

section \<open>Order of the forks\<close>

text \<open>The local \<open>fork\<close> struct and the two formatted errors of \<open>CheckConfigForkOrder\<close>.\<close>

record fork =
  fork_name :: string
  fork_block :: "int option"
  fork_optional :: bool

datatype forkOrderError =
    ForkNotEnabled string string int
  | ForkWrongOrder string int string int

definition configForks :: "ChainConfig \<Rightarrow> fork list" where
  "configForks c =
     [\<lparr>fork_name = ''homesteadBlock'', fork_block = HomesteadBlock c, fork_optional = False\<rparr>,
      \<lparr>fork_name = ''daoForkBlock'', fork_block = DAOForkBlock c, fork_optional = True\<rparr>,
      \<lparr>fork_name = ''eip150Block'', fork_block = EIP150Block c, fork_optional = False\<rparr>,
      \<lparr>fork_name = ''eip155Block'', fork_block = EIP155Block c, fork_optional = False\<rparr>,
      \<lparr>fork_name = ''eip158Block'', fork_block = EIP158Block c, fork_optional = False\<rparr>,
      \<lparr>fork_name = ''byzantiumBlock'', fork_block = ByzantiumBlock c, fork_optional = False\<rparr>,
      \<lparr>fork_name = ''constantinopleBlock'', fork_block = ConstantinopleBlock c, fork_optional = False\<rparr>,
      \<lparr>fork_name = ''petersburgBlock'', fork_block = PetersburgBlock c, fork_optional = False\<rparr>,
      \<lparr>fork_name = ''istanbulBlock'', fork_block = IstanbulBlock c, fork_optional = False\<rparr>,
      \<lparr>fork_name = ''muirGlacierBlock'', fork_block = MuirGlacierBlock c, fork_optional = True\<rparr>,
      \<lparr>fork_name = ''berlinBlock'', fork_block = BerlinBlock c, fork_optional = False\<rparr>,
      \<lparr>fork_name = ''londonBlock'', fork_block = LondonBlock c, fork_optional = False\<rparr>]"

fun checkForks :: "fork \<Rightarrow> fork list \<Rightarrow> forkOrderError option" where
  "checkForks lastFork [] = None"
| "checkForks lastFork (cur # rest) =
     (let err =
        (if fork_name lastFork \<noteq> [] then
           (case (fork_block lastFork, fork_block cur) of
              (None, Some b) \<Rightarrow> Some (ForkNotEnabled (fork_name lastFork) (fork_name cur) b)
            | (Some a, Some b) \<Rightarrow>
                if a > b then Some (ForkWrongOrder (fork_name lastFork) a (fork_name cur) b) else None
            | _ \<Rightarrow> None)
         else None)
      in case err of
           Some e \<Rightarrow> Some e
         | None \<Rightarrow>
             checkForks (if \<not> fork_optional cur \<or> fork_block cur \<noteq> None then cur else lastFork) rest)"

definition CheckConfigForkOrder :: "ChainConfig \<Rightarrow> forkOrderError option" where
  "CheckConfigForkOrder c =
     checkForks \<lparr>fork_name = [], fork_block = None, fork_optional = False\<rparr> (configForks c)"

section \<open>Compatibility of a new configuration\<close>

record ConfigCompatError =
  What :: string
  StoredConfig :: "int option"
  NewConfig :: "int option"
  RewindTo :: u64

text \<open>\<open>rew.Uint64()\<close> takes the low 64 bits, as \<^term>\<open>of_int\<close> does.\<close>

definition newCompatError :: "string \<Rightarrow> int option \<Rightarrow> int option \<Rightarrow> ConfigCompatError" where
  "newCompatError what storedblock newblock =
     (let rew = (case storedblock of
                   None \<Rightarrow> newblock
                 | Some s \<Rightarrow> (case newblock of
                                None \<Rightarrow> storedblock
                              | Some n \<Rightarrow> if s < n then storedblock else newblock))
      in \<lparr>What = what, StoredConfig = storedblock, NewConfig = newblock,
          RewindTo = (case rew of None \<Rightarrow> 0 | Some r \<Rightarrow> if r > 0 then of_int r - 1 else 0)\<rparr>)"

definition checkCompatible :: "ChainConfig \<Rightarrow> ChainConfig \<Rightarrow> int option \<Rightarrow> ConfigCompatError option" where
  "checkCompatible c newcfg head =
     (if isForkIncompatible (HomesteadBlock c) (HomesteadBlock newcfg) head then
        Some (newCompatError ''Homestead fork block'' (HomesteadBlock c) (HomesteadBlock newcfg))
      else if isForkIncompatible (DAOForkBlock c) (DAOForkBlock newcfg) head then
        Some (newCompatError ''DAO fork block'' (DAOForkBlock c) (DAOForkBlock newcfg))
      else if IsDAOFork c head \<and> DAOForkSupport c \<noteq> DAOForkSupport newcfg then
        Some (newCompatError ''DAO fork support flag'' (DAOForkBlock c) (DAOForkBlock newcfg))
      else if isForkIncompatible (EIP150Block c) (EIP150Block newcfg) head then
        Some (newCompatError ''EIP150 fork block'' (EIP150Block c) (EIP150Block newcfg))
      else if isForkIncompatible (EIP155Block c) (EIP155Block newcfg) head then
        Some (newCompatError ''EIP155 fork block'' (EIP155Block c) (EIP155Block newcfg))
      else if isForkIncompatible (EIP158Block c) (EIP158Block newcfg) head then
        Some (newCompatError ''EIP158 fork block'' (EIP158Block c) (EIP158Block newcfg))
      else if IsEIP158 c head \<and> \<not> configNumEqual (ChainID c) (ChainID newcfg) then
        Some (newCompatError ''EIP158 chain ID'' (EIP158Block c) (EIP158Block newcfg))
      else if isForkIncompatible (ByzantiumBlock c) (ByzantiumBlock newcfg) head then
        Some (newCompatError ''Byzantium fork block'' (ByzantiumBlock c) (ByzantiumBlock newcfg))
      else if isForkIncompatible (ConstantinopleBlock c) (ConstantinopleBlock newcfg) head then
        Some (newCompatError ''Constantinople fork block'' (ConstantinopleBlock c)
                (ConstantinopleBlock newcfg))
      else if isForkIncompatible (PetersburgBlock c) (PetersburgBlock newcfg) head \<and>
              isForkIncompatible (ConstantinopleBlock c) (PetersburgBlock newcfg) head then
        Some (newCompatError ''Petersburg fork block'' (PetersburgBlock c) (PetersburgBlock newcfg))
      else if isForkIncompatible (IstanbulBlock c) (IstanbulBlock newcfg) head then
        Some (newCompatError ''Istanbul fork block'' (IstanbulBlock c) (IstanbulBlock newcfg))
      else if isForkIncompatible (MuirGlacierBlock c) (MuirGlacierBlock newcfg) head then
        Some (newCompatError ''Muir Glacier fork block'' (MuirGlacierBlock c) (MuirGlacierBlock newcfg))
      else if isForkIncompatible (BerlinBlock c) (BerlinBlock newcfg) head then
        Some (newCompatError ''Berlin fork block'' (BerlinBlock c) (BerlinBlock newcfg))
      else if isForkIncompatible (LondonBlock c) (LondonBlock newcfg) head then
        Some (newCompatError ''London fork block'' (LondonBlock c) (LondonBlock newcfg))
      else None)"

text \<open>An error asks for a rewind below the head, except at genesis.\<close>

lemma newCompatError_RewindTo:
  assumes "isForked s1 (Some h) \<or> isForked s2 (Some h)" "0 \<le> h" "h < 2 ^ 64"
  shows "RewindTo (newCompatError w s1 s2) = 0 \<or> uint (RewindTo (newCompatError w s1 s2)) < h"
proof -
  have "uint (of_int r - 1 :: u64) < h" if "0 < r" "r \<le> h" for r :: int
  proof -
    have "uint (of_int (r - 1) :: u64) = (r - 1) mod 2 ^ 64"
      by (simp only: uint_word_of_int) simp
    also have "\<dots> = r - 1" using that assms by (intro mod_pos_pos_trivial) auto
    finally show ?thesis using that by simp
  qed
  with assms show ?thesis
    by (cases s1; cases s2) (auto simp: newCompatError_def Let_def)
qed

lemma isForkIncompatible_forked:
  "isForkIncompatible s1 s2 h \<Longrightarrow> isForked s1 h \<or> isForked s2 h"
  by (simp add: isForkIncompatible_def)

lemma checkCompatible_RewindTo:
  assumes "checkCompatible c n (Some h) = Some e" "0 \<le> h" "h < 2 ^ 64"
  shows "RewindTo e = 0 \<or> uint (RewindTo e) < h"
proof -
  define Q where "Q e \<longleftrightarrow> RewindTo e = 0 \<or> uint (RewindTo e) < h" for e :: ConfigCompatError
  have r: "Q (newCompatError w s1 s2)" if "isForked s1 (Some h)" for w s1 s2
    using newCompatError_RewindTo [OF _ assms(2,3)] that by (auto simp: Q_def)
  have i: "Q (newCompatError w s1 s2)" if "isForkIncompatible s1 s2 (Some h)" for w s1 s2
    using newCompatError_RewindTo [OF isForkIncompatible_forked [OF that] assms(2,3)]
    by (auto simp: Q_def)
  have "pred_option Q (checkCompatible c n (Some h))"
    unfolding checkCompatible_def IsDAOFork_def IsEIP158_def by (simp add: i r)
  with assms(1) show ?thesis by (simp add: Q_def)
qed

lemma CheckCompatible_step:
  assumes "checkCompatible c n (Some (uint (h :: u64))) = Some e"
  shows "RewindTo e = 0 \<or> unat (RewindTo e) < unat h"
proof -
  have "uint h < 2 ^ 64" using uint_bounded [of h] by simp
  with checkCompatible_RewindTo [OF assms] have "RewindTo e = 0 \<or> uint (RewindTo e) < uint h" by simp
  then show ?thesis by (simp add: word_less_def [symmetric] word_less_nat_alt)
qed

function CheckCompatible_loop ::
  "ChainConfig \<Rightarrow> ChainConfig \<Rightarrow> ConfigCompatError option \<Rightarrow> u64 \<Rightarrow> ConfigCompatError option" where
  "CheckCompatible_loop c newcfg lasterr bhead =
     (case checkCompatible c newcfg (Some (uint bhead)) of
        None \<Rightarrow> lasterr
      | Some err \<Rightarrow>
          (case lasterr of
             Some le \<Rightarrow>
               if RewindTo err = RewindTo le then lasterr
               else CheckCompatible_loop c newcfg (Some err) (RewindTo err)
           | None \<Rightarrow> CheckCompatible_loop c newcfg (Some err) (RewindTo err)))"
  by pat_completeness auto

termination
proof (relation "measures [\<lambda>(c, n, l, h). unat h,
    \<lambda>(c, n, l, h). case l of Some le \<Rightarrow> if RewindTo le = h then 0 else 1 | None \<Rightarrow> (1 :: nat)]")
qed (auto dest!: CheckCompatible_step simp: unat_gt_0)

declare CheckCompatible_loop.simps [simp del]

definition CheckCompatible :: "ChainConfig \<Rightarrow> ChainConfig \<Rightarrow> u64 \<Rightarrow> ConfigCompatError option" where
  "CheckCompatible c newcfg height = CheckCompatible_loop c newcfg None height"

section \<open>Lemmas\<close>

lemma configNumEqual_iff [simp]: "configNumEqual x y \<longleftrightarrow> x = y"
  by (cases x; cases y) auto

lemma CheckCompatible_loop_None: "CheckCompatible_loop c n (Some e) h \<noteq> None"
proof (induction c n "Some e" h arbitrary: e rule: CheckCompatible_loop.induct)
  case (1 c n h)
  then show ?case
    by (subst CheckCompatible_loop.simps) (auto split: option.splits)
qed

lemma CheckCompatible_loop_lowest:
  assumes "CheckCompatible_loop c n l h = Some e" "pred_option (\<lambda>le. RewindTo le = h) l"
  shows "checkCompatible c n (Some (uint (RewindTo e))) = None \<or> RewindTo e = 0"
  using assms
proof (induction c n l h rule: CheckCompatible_loop.induct)
  case (1 c n l h)
  show ?case
  proof (cases "checkCompatible c n (Some (uint h))")
    case None
    with "1.prems" show ?thesis by (auto simp: CheckCompatible_loop.simps [of c n l h])
  next
    case (Some err)
    show ?thesis
    proof (cases "\<exists>le. l = Some le \<and> RewindTo err = RewindTo le")
      case True
      with "1.prems" Some CheckCompatible_step [OF Some] show ?thesis
        by (auto simp: CheckCompatible_loop.simps [of c n l h])
    next
      case False
      then have "CheckCompatible_loop c n (Some err) (RewindTo err) = Some e"
        using "1.prems" Some by (simp add: CheckCompatible_loop.simps [of c n l h] split: option.splits)
      with False "1.IH" Some show ?thesis by (cases l) auto
    qed
  qed
qed

lemma CheckCompatible_loop_below:
  assumes "CheckCompatible_loop c n (Some l) h = Some e" "RewindTo l = 0 \<or> unat (RewindTo l) < k"
    "unat h < k \<or> h = 0"
  shows "RewindTo e = 0 \<or> unat (RewindTo e) < k"
  using assms
proof (induction c n "Some l" h arbitrary: l rule: CheckCompatible_loop.induct)
  case (1 c n h)
  show ?case
  proof (cases "checkCompatible c n (Some (uint h))")
    case (Some err)
    have err: "RewindTo err = 0 \<or> unat (RewindTo err) < k"
      using CheckCompatible_step [OF Some] "1.prems"(3) by auto
    show ?thesis
    proof (cases "RewindTo err = RewindTo l")
      case False
      then have "CheckCompatible_loop c n (Some err) (RewindTo err) = Some e"
        using "1.prems"(1) Some by (simp add: CheckCompatible_loop.simps [of c n "Some l" h])
      from "1.hyps"(2) [OF Some refl False this err] err show ?thesis by auto
    qed (use "1.prems" Some in \<open>auto simp: CheckCompatible_loop.simps [of c n "Some l" h]\<close>)
  qed (use "1.prems" in \<open>auto simp: CheckCompatible_loop.simps [of c n "Some l" h]\<close>)
qed

text \<open>
  A list of fork blocks is ordered when, after dropping the optional forks that are not set,
  the set blocks come first and are sorted.
\<close>

fun forks_ordered :: "int option list \<Rightarrow> bool" where
  "forks_ordered (x # y # r) =
     ((case (x, y) of (None, Some _) \<Rightarrow> False | (Some a, Some b) \<Rightarrow> a \<le> b | _ \<Rightarrow> True) \<and> forks_ordered (y # r))"
| "forks_ordered _ = True"

definition relevant_forks :: "fork list \<Rightarrow> int option list" where
  "relevant_forks fs = map fork_block (filter (\<lambda>f. \<not> fork_optional f \<or> fork_block f \<noteq> None) fs)"

lemma checkForks_ordered:
  assumes "fork_name l \<noteq> []" "\<forall>f\<in>set fs. fork_name f \<noteq> []"
  shows "checkForks l fs = None \<longleftrightarrow> forks_ordered (fork_block l # relevant_forks fs)"
  using assms
proof (induction fs arbitrary: l)
  case (Cons f fs)
  then show ?case
    by (cases "fork_block l"; cases "fork_block f") (auto simp: relevant_forks_def)
qed (simp add: relevant_forks_def)

lemma CheckConfigForkOrder_ordered:
  "CheckConfigForkOrder c = None \<longleftrightarrow> forks_ordered (relevant_forks (configForks c))"
proof -
  let ?h = "\<lparr>fork_name = ''homesteadBlock'', fork_block = HomesteadBlock c, fork_optional = False\<rparr>"
  define r where "r = tl (configForks c)"
  have fs: "configForks c = ?h # r" and n: "\<forall>f\<in>set r. fork_name f \<noteq> []"
    by (simp_all add: r_def configForks_def)
  have "CheckConfigForkOrder c = checkForks ?h r"
    by (simp add: CheckConfigForkOrder_def fs)
  with n show ?thesis by (simp add: checkForks_ordered fs relevant_forks_def)
qed

text \<open>In an ordered list a fork that is active at a block has every earlier fork active too.\<close>

lemma forks_ordered_tl: "forks_ordered (x # r) \<Longrightarrow> forks_ordered r"
  by (cases r) auto

lemma forks_ordered_step:
  assumes "forks_ordered (x # z # r)" "isForked z h"
  shows "isForked x h"
  using assms by (cases x; cases z; cases h) simp_all

lemma forks_ordered_hd:
  assumes "forks_ordered (x # r)" "y \<in> set r" "isForked y h"
  shows "isForked x h"
  using assms
proof (induction r arbitrary: x)
  case (Cons z r)
  show ?case
  proof (cases "y = z")
    case True
    with Cons.prems show ?thesis using forks_ordered_step by blast
  next
    case False
    with Cons.prems(2) have "y \<in> set r" by simp
    from Cons.IH [OF forks_ordered_tl [OF Cons.prems(1)] this Cons.prems(3)]
    show ?thesis by (rule forks_ordered_step [OF Cons.prems(1)])
  qed
qed simp

lemma ordered_forks_chain:
  assumes "forks_ordered (relevant_forks fs)" "fs = xs @ f # ys @ g # zs"
    "\<not> fork_optional f" "isForked (fork_block g) h"
  shows "isForked (fork_block f) h"
proof -
  have g: "fork_block g \<noteq> None" using assms(4) by (cases "fork_block g") auto
  have "forks_ordered (relevant_forks (xs @ f # ys @ g # zs))" using assms(1,2) by simp
  then have "forks_ordered (relevant_forks (f # ys @ g # zs))"
    by (induction xs) (auto simp: relevant_forks_def dest: forks_ordered_tl split: if_splits)
  with assms(3,4) g show ?thesis
    by (auto simp: relevant_forks_def intro: forks_ordered_hd)
qed

section \<open>Properties\<close>

text \<open>C32. A configuration that passes \<open>CheckConfigForkOrder\<close> gives rules in which every fork
  implies the earlier ones, at every block number.  The Catalyst switch, which the check ignores, is left out.\<close>

theorem fork_order_gives_rule_chain:
  assumes "CheckConfigForkOrder c = None"
  shows "(r_IsLondon (ChainConfig_Rules c num) \<longrightarrow> r_IsBerlin (ChainConfig_Rules c num)) \<and>
    (r_IsBerlin (ChainConfig_Rules c num) \<longrightarrow> r_IsIstanbul (ChainConfig_Rules c num)) \<and>
    (r_IsIstanbul (ChainConfig_Rules c num) \<longrightarrow> r_IsPetersburg (ChainConfig_Rules c num)) \<and>
    (r_IsPetersburg (ChainConfig_Rules c num) \<longrightarrow> r_IsConstantinople (ChainConfig_Rules c num)) \<and>
    (r_IsConstantinople (ChainConfig_Rules c num) \<longrightarrow> r_IsByzantium (ChainConfig_Rules c num)) \<and>
    (r_IsByzantium (ChainConfig_Rules c num) \<longrightarrow> r_IsEIP158 (ChainConfig_Rules c num)) \<and>
    (r_IsEIP158 (ChainConfig_Rules c num) \<longrightarrow> r_IsEIP155 (ChainConfig_Rules c num)) \<and>
    (r_IsEIP155 (ChainConfig_Rules c num) \<longrightarrow> r_IsEIP150 (ChainConfig_Rules c num)) \<and>
    (r_IsEIP150 (ChainConfig_Rules c num) \<longrightarrow> r_IsHomestead (ChainConfig_Rules c num))"
proof -
  let ?fs = "configForks c"
  have o: "forks_ordered (relevant_forks ?fs)"
    using assms by (simp add: CheckConfigForkOrder_ordered)
  have len: "length ?fs = 12" by (simp add: configForks_def)
  have chain: "isForked (fork_block (?fs ! j)) num \<longrightarrow> isForked (fork_block (?fs ! i)) num"
    if "i < j" "j < 12" "\<not> fork_optional (?fs ! i)" for i j
  proof -
    have "?fs = take i ?fs @ ?fs ! i # take (j - Suc i) (drop (Suc i) ?fs) @ ?fs ! j # drop (Suc j) ?fs"
    proof -
      have "drop (Suc i) ?fs = take (j - Suc i) (drop (Suc i) ?fs) @ drop j ?fs"
        using that append_take_drop_id [of "j - Suc i" "drop (Suc i) ?fs"] by simp
      moreover have "drop j ?fs = ?fs ! j # drop (Suc j) ?fs" using that len by (simp add: Cons_nth_drop_Suc)
      moreover have "?fs = take i ?fs @ ?fs ! i # drop (Suc i) ?fs" using that len by (simp add: id_take_nth_drop)
      ultimately show ?thesis by metis
    qed
    from ordered_forks_chain [OF o this that(3)] show ?thesis by blast
  qed
  note defs = configForks_def ChainConfig_Rules_def IsLondon_def IsBerlin_def IsIstanbul_def
    IsPetersburg_def IsConstantinople_def IsByzantium_def IsEIP158_def IsEIP155_def IsEIP150_def
    IsHomestead_def
  show ?thesis
    using chain [of 10 11] chain [of 8 10] chain [of 7 8] chain [of 6 7] chain [of 5 6] chain [of 4 5]
      chain [of 3 4] chain [of 2 3] chain [of 0 2]
    by (auto simp: defs)
qed

text \<open>A configuration with every fork up to Istanbul at genesis and Berlin and London later.\<close>

definition exampleConfig :: ChainConfig where
  "exampleConfig =
     \<lparr>ChainID = Some 1, HomesteadBlock = Some 0, DAOForkBlock = None, DAOForkSupport = False,
      EIP150Block = Some 0, EIP150Hash = 0, EIP155Block = Some 0, EIP158Block = Some 0,
      ByzantiumBlock = Some 0, ConstantinopleBlock = Some 0, PetersburgBlock = Some 0,
      IstanbulBlock = Some 0, MuirGlacierBlock = None, BerlinBlock = Some 10, LondonBlock = Some 20,
      CatalystBlock = None, Ethash = Some (), Clique = None\<rparr>"

theorem fork_order_gives_rule_chain_witness:
  "CheckConfigForkOrder exampleConfig = None \<and> r_IsBerlin (ChainConfig_Rules exampleConfig (Some 15)) \<and>
   r_IsIstanbul (ChainConfig_Rules exampleConfig (Some 15))"
proof -
  have ok: "CheckConfigForkOrder exampleConfig = None"
    by (simp add: CheckConfigForkOrder_def configForks_def exampleConfig_def)
  have b: "r_IsBerlin (ChainConfig_Rules exampleConfig (Some 15))"
    by (simp add: ChainConfig_Rules_def IsBerlin_def exampleConfig_def)
  from fork_order_gives_rule_chain [OF ok, of "Some 15"] ok b show ?thesis by simp
qed

text \<open>C31. \<open>CheckCompatible\<close> terminates; it reports no error exactly when the two configurations do
  not conflict at the given height, and when it reports an error, rewinding the chain to the
  reported block leaves no conflict, unless that block is the genesis block.\<close>

theorem CheckCompatible_rewind:
  "(CheckCompatible c n h = None \<longleftrightarrow> checkCompatible c n (Some (uint h)) = None) \<and>
   (case CheckCompatible c n h of
      None \<Rightarrow> True
    | Some e \<Rightarrow> RewindTo e = 0 \<or>
        (unat (RewindTo e) < unat h \<and> checkCompatible c n (Some (uint (RewindTo e))) = None))"
proof (cases "checkCompatible c n (Some (uint h))")
  case None
  then show ?thesis by (simp add: CheckCompatible_def CheckCompatible_loop.simps [of c n None h])
next
  case (Some err)
  let ?l = "CheckCompatible_loop c n (Some err) (RewindTo err)"
  have eq: "CheckCompatible c n h = ?l"
    using Some by (simp add: CheckCompatible_def CheckCompatible_loop.simps [of c n None h])
  obtain e where e: "?l = Some e" using CheckCompatible_loop_None by blast
  have "RewindTo e = 0 \<or> checkCompatible c n (Some (uint (RewindTo e))) = None"
    using CheckCompatible_loop_lowest [OF e] by auto
  moreover have "RewindTo e = 0 \<or> unat (RewindTo e) < unat h"
    using CheckCompatible_loop_below [OF e] CheckCompatible_step [OF Some] by auto
  ultimately show ?thesis using Some eq e by auto
qed

end
