(* ===== verification/StateObject.thy ===== *)
theory StateObject
  imports AccessList Params Rlp
begin

text \<open>
  Accounts and state objects (\<open>core/state/state_object.go\<close>), the change journal
  (\<open>core/state/journal.go\<close>) as data, and the record of the state database
  (\<open>core/state/statedb.go\<close>).

  The backing store is reached through the interfaces \<open>Database\<close> and \<open>Trie\<close>
  (\<open>core/state/database.go\<close>), the optional snapshot through \<open>snapshot.Snapshot\<close> and hashing
  through Keccak: they are the parameter \<open>D :: 't backend\<close> and the field \<open>s_snap\<close>.  A value of
  type \<open>'t\<close> is the content of a trie; reading does not change it, so that the node caches of the
  implementation do not show.  The trie prefetcher (nil unless \<open>StartPrefetcher\<close> is called), the
  timing metrics and the logging calls are left out.
\<close>

section \<open>Interfaces to the backing store\<close>

text \<open>
  \<open>OpenEmptyStorageTrie\<close> is \<open>OpenStorageTrie(addrHash, common.Hash{})\<close>, whose error the code
  discards.  \<open>ContractCodeSize\<close> returns a size also when it returns an error.
\<close>

record 't backend =
  OpenTrie :: "hash \<Rightarrow> gerror + 't"
  OpenStorageTrie :: "hash \<Rightarrow> hash \<Rightarrow> gerror + 't"
  OpenEmptyStorageTrie :: "hash \<Rightarrow> 't"
  ContractCode :: "hash \<Rightarrow> hash \<Rightarrow> gerror + bytes"
  ContractCodeSize :: "hash \<Rightarrow> hash \<Rightarrow> int \<times> gerror option"
  TryGet :: "'t \<Rightarrow> bytes \<Rightarrow> gerror + bytes"
  TryUpdate :: "'t \<Rightarrow> bytes \<Rightarrow> bytes \<Rightarrow> 't \<times> gerror option"
  TryDelete :: "'t \<Rightarrow> bytes \<Rightarrow> 't \<times> gerror option"
  trieHash :: "'t \<Rightarrow> hash"
  trieCommit :: "'t \<Rightarrow> 't \<times> (gerror + hash)"
  keccak256 :: "bytes \<Rightarrow> hash"

record slimAccount =
  sa_Nonce :: u64
  sa_Balance :: int
  sa_Root :: bytes
  sa_CodeHash :: bytes

record snapshot =
  snap_Root :: hash
  snap_Account :: "hash \<Rightarrow> gerror + slimAccount option"
  snap_Storage :: "hash \<Rightarrow> hash \<Rightarrow> gerror + bytes"

section \<open>Accounts\<close>

text \<open>
  \<open>CodeHash\<close> is a slice that may be nil (\<open>None\<close>).  A nil \<open>Balance\<close> only occurs in the argument
  of \<open>newObject\<close>, which replaces it by zero; the model writes it as zero from the start.
\<close>

record Account =
  acc_Nonce :: u64
  acc_Balance :: int
  acc_Root :: hash
  acc_CodeHash :: "bytes option"

definition zeroAccount :: Account where
  "zeroAccount = \<lparr>acc_Nonce = 0, acc_Balance = 0, acc_Root = 0, acc_CodeHash = None\<rparr>"

definition emptyRoot :: hash where
  "emptyRoot = 0x56e81f171bcc55a6ff8345e692c0f86e5b48e01b996cadc001622fb5e363b421"

definition emptyCodeHash :: "'t backend \<Rightarrow> bytes" where
  "emptyCodeHash D = hash_Bytes (keccak256 D [])"

fun nilBytes :: "bytes option \<Rightarrow> bytes" where
  "nilBytes None = []"
| "nilBytes (Some b) = b"

text \<open>The RLP form of an account, as the reflection-based codec sees the struct.\<close>

definition accountVal :: "Account \<Rightarrow> gval" where
  "accountVal a =
     VStruct [VUint (acc_Nonce a), VBigInt (acc_Balance a), VArray (hash_Bytes (acc_Root a)),
              VBytes (nilBytes (acc_CodeHash a))]"

definition accountType :: gtype where
  "accountType = TStruct [TUint 64, TBigInt, TArray 32, TBytes]"

text \<open>Decoding always returns a value of the struct's shape or an error; the last line is not reached.\<close>

definition decodeAccount :: "bytes \<Rightarrow> rlpError + Account" where
  "decodeAccount enc =
     (case DecodeBytes enc accountType of
        Ok (Inr (VStruct [VUint n, VBigInt b, VArray r, VBytes c])) \<Rightarrow>
          Inr \<lparr>acc_Nonce = n, acc_Balance = b, acc_Root = BytesToHash r, acc_CodeHash = Some c\<rparr>
      | Ok (Inl e) \<Rightarrow> Inl e
      | _ \<Rightarrow> Inl ErrEOF)"

section \<open>State objects\<close>

datatype sdbError =
    ErrGetDeleted address gerror
  | ErrUpdateStateObject address gerror
  | ErrDeleteStateObject address gerror
  | ErrCreateStorageTrie gerror
  | ErrLoadCode bytes gerror
  | ErrLoadCodeSize bytes gerror
  | ErrTrie gerror
  | ErrRlp rlpError

type_synonym storage = "hash \<Rightarrow> hash option"

record 't stateObject =
  so_address :: address
  so_addrHash :: hash
  so_data :: Account
  so_dbErr :: "sdbError option"
  so_trie :: "'t option"
  so_code :: "bytes option"
  so_originStorage :: storage
  so_pendingStorage :: storage
  so_dirtyStorage :: storage
  so_fakeStorage :: "storage option"
  so_dirtyCode :: bool
  so_suicided :: bool
  so_deleted :: bool

text \<open>Reading a missing key of a Go map of hashes gives the zero hash.\<close>

definition sget :: "storage \<Rightarrow> hash \<Rightarrow> hash" where
  "sget m k = (case m k of None \<Rightarrow> 0 | Some v \<Rightarrow> v)"

definition so_CodeHash :: "'t stateObject \<Rightarrow> bytes" where
  "so_CodeHash obj = nilBytes (acc_CodeHash (so_data obj))"

definition so_Balance :: "'t stateObject \<Rightarrow> int" where
  "so_Balance obj = acc_Balance (so_data obj)"

definition so_Nonce :: "'t stateObject \<Rightarrow> u64" where
  "so_Nonce obj = acc_Nonce (so_data obj)"

definition so_empty :: "'t backend \<Rightarrow> 't stateObject \<Rightarrow> bool" where
  "so_empty D obj \<longleftrightarrow>
     acc_Nonce (so_data obj) = 0 \<and> acc_Balance (so_data obj) = 0 \<and> so_CodeHash obj = emptyCodeHash D"

definition newObject :: "'t backend \<Rightarrow> address \<Rightarrow> Account \<Rightarrow> 't stateObject" where
  "newObject D addr data =
     (let data = (if acc_CodeHash data = None then data\<lparr>acc_CodeHash := Some (emptyCodeHash D)\<rparr> else data);
          data = (if acc_Root data = 0 then data\<lparr>acc_Root := emptyRoot\<rparr> else data)
      in \<lparr>so_address = addr, so_addrHash = keccak256 D (address_Bytes addr), so_data = data,
          so_dbErr = None, so_trie = None, so_code = None,
          so_originStorage = (\<lambda>_. None), so_pendingStorage = (\<lambda>_. None), so_dirtyStorage = (\<lambda>_. None),
          so_fakeStorage = None, so_dirtyCode = False, so_suicided = False, so_deleted = False\<rparr>)"

definition so_setError :: "'t stateObject \<Rightarrow> sdbError option \<Rightarrow> 't stateObject" where
  "so_setError obj err = (if so_dbErr obj = None then obj\<lparr>so_dbErr := err\<rparr> else obj)"

definition so_markSuicided :: "'t stateObject \<Rightarrow> 't stateObject" where
  "so_markSuicided obj = obj\<lparr>so_suicided := True\<rparr>"

definition so_getTrie :: "'t backend \<Rightarrow> 't stateObject \<Rightarrow> 't stateObject \<times> 't" where
  "so_getTrie D obj =
     (case so_trie obj of
        Some tr \<Rightarrow> (obj, tr)
      | None \<Rightarrow>
          (case OpenStorageTrie D (so_addrHash obj) (acc_Root (so_data obj)) of
             Inr tr \<Rightarrow> (obj\<lparr>so_trie := Some tr\<rparr>, tr)
           | Inl err \<Rightarrow>
               let tr = OpenEmptyStorageTrie D (so_addrHash obj)
               in (so_setError (obj\<lparr>so_trie := Some tr\<rparr>) (Some (ErrCreateStorageTrie err)), tr)))"

text \<open>The decoding of a stored value: an RLP string, or nothing for the zero hash.\<close>

definition decodeSlot :: "bytes \<Rightarrow> hash \<times> sdbError option" where
  "decodeSlot enc =
     (if enc \<noteq> [] then
        (case Split enc of
           Inl err \<Rightarrow> (0, Some (ErrRlp err))
         | Inr (k, content, rest) \<Rightarrow> (BytesToHash content, None))
      else (0, None))"

definition so_GetCommittedState ::
  "'t backend \<Rightarrow> snapshot option \<Rightarrow> hash set \<Rightarrow> 't stateObject \<Rightarrow> hash \<Rightarrow> 't stateObject \<times> hash" where
  "so_GetCommittedState D snap snapDestructs obj key =
     (case so_fakeStorage obj of
        Some fake \<Rightarrow> (obj, sget fake key)
      | None \<Rightarrow>
     (case so_pendingStorage obj key of
        Some v \<Rightarrow> (obj, v)
      | None \<Rightarrow>
     (case so_originStorage obj key of
        Some v \<Rightarrow> (obj, v)
      | None \<Rightarrow>
          let found = (\<lambda>obj enc.
                let (v, err) = decodeSlot enc;
                    obj = (case err of None \<Rightarrow> obj | Some _ \<Rightarrow> so_setError obj err)
                in (obj\<lparr>so_originStorage := (so_originStorage obj)(key \<mapsto> v)\<rparr>, v));
              load = (\<lambda>_ :: unit.
                let (obj, tr) = so_getTrie D obj
                in case TryGet D tr (hash_Bytes key) of
                     Inl err \<Rightarrow> (so_setError obj (Some (ErrTrie err)), 0)
                   | Inr enc \<Rightarrow> found obj enc)
          in case snap of
               None \<Rightarrow> load ()
             | Some sn \<Rightarrow>
                 if so_addrHash obj \<in> snapDestructs then (obj, 0)
                 else (case snap_Storage sn (so_addrHash obj) (keccak256 D (hash_Bytes key)) of
                         Inl err \<Rightarrow> load ()
                       | Inr enc \<Rightarrow> found obj enc))))"

definition so_GetState ::
  "'t backend \<Rightarrow> snapshot option \<Rightarrow> hash set \<Rightarrow> 't stateObject \<Rightarrow> hash \<Rightarrow> 't stateObject \<times> hash" where
  "so_GetState D snap snapDestructs obj key =
     (case so_fakeStorage obj of
        Some fake \<Rightarrow> (obj, sget fake key)
      | None \<Rightarrow>
          (case so_dirtyStorage obj key of
             Some v \<Rightarrow> (obj, v)
           | None \<Rightarrow> so_GetCommittedState D snap snapDestructs obj key))"

definition so_setState :: "'t stateObject \<Rightarrow> hash \<Rightarrow> hash \<Rightarrow> 't stateObject" where
  "so_setState obj key val = obj\<lparr>so_dirtyStorage := (so_dirtyStorage obj)(key \<mapsto> val)\<rparr>"

definition so_setBalance :: "'t stateObject \<Rightarrow> int \<Rightarrow> 't stateObject" where
  "so_setBalance obj amount = obj\<lparr>so_data := (so_data obj)\<lparr>acc_Balance := amount\<rparr>\<rparr>"

definition so_setNonce :: "'t stateObject \<Rightarrow> u64 \<Rightarrow> 't stateObject" where
  "so_setNonce obj nonce = obj\<lparr>so_data := (so_data obj)\<lparr>acc_Nonce := nonce\<rparr>\<rparr>"

definition so_setCode :: "'t stateObject \<Rightarrow> hash \<Rightarrow> bytes option \<Rightarrow> 't stateObject" where
  "so_setCode obj codeHash code =
     obj\<lparr>so_code := code, so_data := (so_data obj)\<lparr>acc_CodeHash := Some (hash_Bytes codeHash)\<rparr>,
         so_dirtyCode := True\<rparr>"

definition so_Code :: "'t backend \<Rightarrow> 't stateObject \<Rightarrow> 't stateObject \<times> bytes option" where
  "so_Code D obj =
     (case so_code obj of
        Some c \<Rightarrow> (obj, Some c)
      | None \<Rightarrow>
          if so_CodeHash obj = emptyCodeHash D then (obj, None)
          else (case ContractCode D (so_addrHash obj) (BytesToHash (so_CodeHash obj)) of
                  Inl err \<Rightarrow> (so_setError obj (Some (ErrLoadCode (so_CodeHash obj) err)), None)
                | Inr code \<Rightarrow> (obj\<lparr>so_code := Some code\<rparr>, Some code)))"

definition so_CodeSize :: "'t backend \<Rightarrow> 't stateObject \<Rightarrow> 't stateObject \<times> int" where
  "so_CodeSize D obj =
     (case so_code obj of
        Some c \<Rightarrow> (obj, int (length c))
      | None \<Rightarrow>
          if so_CodeHash obj = emptyCodeHash D then (obj, 0)
          else (case ContractCodeSize D (so_addrHash obj) (BytesToHash (so_CodeHash obj)) of
                  (sz, None) \<Rightarrow> (obj, sz)
                | (sz, Some err) \<Rightarrow> (so_setError obj (Some (ErrLoadCodeSize (so_CodeHash obj) err)), sz)))"

text \<open>
  \<open>SetStorage\<close> puts a debugging storage in front of the real one; the given map is merged into it.
\<close>

definition so_SetStorage :: "'t stateObject \<Rightarrow> storage \<Rightarrow> 't stateObject" where
  "so_SetStorage obj st =
     obj\<lparr>so_fakeStorage := Some ((case so_fakeStorage obj of None \<Rightarrow> (\<lambda>_. None) | Some f \<Rightarrow> f) ++ st)\<rparr>"

definition so_finalise :: "'t stateObject \<Rightarrow> 't stateObject" where
  "so_finalise obj =
     obj\<lparr>so_pendingStorage := so_pendingStorage obj ++ so_dirtyStorage obj,
         so_dirtyStorage := (\<lambda>_. None)\<rparr>"

text \<open>\<open>CopyTrie\<close> makes an independent copy: the content itself.\<close>

definition so_deepCopy :: "'t backend \<Rightarrow> 't stateObject \<Rightarrow> 't stateObject" where
  "so_deepCopy D obj =
     (newObject D (so_address obj) (so_data obj))
       \<lparr>so_trie := so_trie obj, so_code := so_code obj,
        so_dirtyStorage := so_dirtyStorage obj, so_originStorage := so_originStorage obj,
        so_pendingStorage := so_pendingStorage obj, so_suicided := so_suicided obj,
        so_dirtyCode := so_dirtyCode obj, so_deleted := so_deleted obj\<rparr>"

end
