(* ===== verification/StateDB.thy ===== *)
theory StateDB
  imports StateObject
begin

text \<open>
  The state database (\<open>core/state/statedb.go\<close>) with its journal (\<open>core/state/journal.go\<close>).
  Operations pass the state explicitly.  A live object is reached in Go through a pointer in
  \<open>stateObjects\<close>; here an operation on an object puts the updated object back under its address.
  Reading operations return a state as well, because they fill the caches.  Where Go ranges over a
  map, the order of the visit is an argument.
\<close>

section \<open>Records\<close>

record Log =
  l_Address :: address
  l_Topics :: "hash list"
  l_Data :: bytes
  l_BlockNumber :: u64
  l_TxHash :: hash
  l_TxIndex :: u64
  l_BlockHash :: hash
  l_Index :: u64
  l_Removed :: bool

text \<open>
  The entries of the journal.  \<open>ResetObjectChange\<close> holds the object that was replaced: nothing
  refers to it any more while it is in the journal, so the model keeps it by value.
\<close>

datatype 't journalEntry =
    CreateObjectChange address
  | ResetObjectChange "'t stateObject" bool
  | SuicideChange address bool int
  | BalanceChange address int
  | NonceChange address u64
  | StorageChange address hash hash
  | CodeChange address "bytes option" bytes
  | RefundChange u64
  | AddLogChange hash
  | AddPreimageChange hash
  | TouchChange address
  | AccessListAddAccountChange address
  | AccessListAddSlotChange address hash

record 't journal =
  j_entries :: "'t journalEntry list"
  j_dirties :: "address \<Rightarrow> int option"

record revision =
  rev_id :: int
  rev_journalIndex :: int

record 't StateDB =
  s_originalRoot :: hash
  s_trie :: 't
  s_snaps :: "(hash \<Rightarrow> snapshot option) option"
  s_snap :: "snapshot option"
  s_snapDestructs :: "hash set"
  s_snapAccounts :: "hash \<Rightarrow> bytes option"
  s_snapStorage :: "hash \<Rightarrow> (hash \<Rightarrow> bytes option) option"
  s_stateObjects :: "address \<Rightarrow> 't stateObject option"
  s_stateObjectsPending :: "address set"
  s_stateObjectsDirty :: "address set"
  s_dbErr :: "sdbError option"
  s_refund :: u64
  s_thash :: hash
  s_txIndex :: int
  s_logs :: "hash \<Rightarrow> Log list option"
  s_logSize :: u64
  s_preimages :: "hash \<Rightarrow> bytes option"
  s_accessList :: accessList
  s_journal :: "'t journal"
  s_validRevisions :: "revision list"
  s_nextRevisionId :: int

section \<open>Journal\<close>

definition newJournal :: "'t journal" where
  "newJournal = \<lparr>j_entries = [], j_dirties = (\<lambda>_. None)\<rparr>"

fun dirtied :: "'t journalEntry \<Rightarrow> address option" where
  "dirtied (CreateObjectChange a) = Some a"
| "dirtied (ResetObjectChange prev d) = None"
| "dirtied (SuicideChange a prev b) = Some a"
| "dirtied (BalanceChange a b) = Some a"
| "dirtied (NonceChange a n) = Some a"
| "dirtied (StorageChange a k v) = Some a"
| "dirtied (CodeChange a c h) = Some a"
| "dirtied (RefundChange r) = None"
| "dirtied (AddLogChange h) = None"
| "dirtied (AddPreimageChange h) = None"
| "dirtied (TouchChange a) = Some a"
| "dirtied (AccessListAddAccountChange a) = None"
| "dirtied (AccessListAddSlotChange a k) = None"

text \<open>\<open>m[k]++\<close> and \<open>m[k]--\<close> on a map of counters.\<close>

definition countOf :: "(address \<Rightarrow> int option) \<Rightarrow> address \<Rightarrow> int" where
  "countOf m k = (case m k of None \<Rightarrow> 0 | Some n \<Rightarrow> n)"

definition journal_dirty :: "'t journal \<Rightarrow> address \<Rightarrow> 't journal" where
  "journal_dirty j addr = j\<lparr>j_dirties := (j_dirties j)(addr \<mapsto> countOf (j_dirties j) addr + 1)\<rparr>"

definition journal_append :: "'t journal \<Rightarrow> 't journalEntry \<Rightarrow> 't journal" where
  "journal_append j entry =
     (let j = j\<lparr>j_entries := j_entries j @ [entry]\<rparr>
      in case dirtied entry of
           None \<Rightarrow> j
         | Some addr \<Rightarrow> j\<lparr>j_dirties := (j_dirties j)(addr \<mapsto> countOf (j_dirties j) addr + 1)\<rparr>)"

definition journal_undirty :: "'t journal \<Rightarrow> 't journalEntry \<Rightarrow> 't journal" where
  "journal_undirty j entry =
     (case dirtied entry of
        None \<Rightarrow> j
      | Some addr \<Rightarrow>
          let n = countOf (j_dirties j) addr - 1
          in j\<lparr>j_dirties := (if n = 0 then (j_dirties j)(addr := None) else (j_dirties j)(addr \<mapsto> n))\<rparr>)"

definition journal_length :: "'t journal \<Rightarrow> int" where
  "journal_length j = int (length (j_entries j))"

definition log_entry :: "'t StateDB \<Rightarrow> 't journalEntry \<Rightarrow> 't StateDB" where
  "log_entry s entry = s\<lparr>s_journal := journal_append (s_journal s) entry\<rparr>"

section \<open>Live objects\<close>

definition setError :: "'t StateDB \<Rightarrow> sdbError \<Rightarrow> 't StateDB" where
  "setError s err = (if s_dbErr s = None then s\<lparr>s_dbErr := Some err\<rparr> else s)"

definition setStateObject :: "'t StateDB \<Rightarrow> 't stateObject \<Rightarrow> 't StateDB" where
  "setStateObject s obj = s\<lparr>s_stateObjects := (s_stateObjects s)(so_address obj \<mapsto> obj)\<rparr>"

definition putObject :: "'t StateDB \<Rightarrow> address \<Rightarrow> 't stateObject \<Rightarrow> 't StateDB" where
  "putObject s addr obj = s\<lparr>s_stateObjects := (s_stateObjects s)(addr \<mapsto> obj)\<rparr>"

definition slimToAccount :: "'t backend \<Rightarrow> slimAccount \<Rightarrow> Account" where
  "slimToAccount D acc =
     \<lparr>acc_Nonce = sa_Nonce acc, acc_Balance = sa_Balance acc,
      acc_Root = (let r = BytesToHash (sa_Root acc) in if r = 0 then emptyRoot else r),
      acc_CodeHash = Some (if sa_CodeHash acc = [] then emptyCodeHash D else sa_CodeHash acc)\<rparr>"

definition getDeletedStateObject ::
  "'t backend \<Rightarrow> 't StateDB \<Rightarrow> address \<Rightarrow> 't StateDB \<times> 't stateObject option" where
  "getDeletedStateObject D s addr =
     (case s_stateObjects s addr of
        Some obj \<Rightarrow> (s, Some obj)
      | None \<Rightarrow>
          let live = (\<lambda>data. let obj = newObject D addr data in (setStateObject s obj, Some obj));
              load = (\<lambda>_ :: unit.
                case TryGet D (s_trie s) (address_Bytes addr) of
                  Inl err \<Rightarrow> (setError s (ErrGetDeleted addr err), None)
                | Inr enc \<Rightarrow>
                    if enc = [] then (s, None)
                    else (case decodeAccount enc of Inl err \<Rightarrow> (s, None) | Inr data \<Rightarrow> live data))
          in case s_snap s of
               None \<Rightarrow> load ()
             | Some sn \<Rightarrow>
                 (case snap_Account sn (keccak256 D (address_Bytes addr)) of
                    Inl err \<Rightarrow> load ()
                  | Inr None \<Rightarrow> (s, None)
                  | Inr (Some acc) \<Rightarrow> live (slimToAccount D acc)))"

definition getStateObject ::
  "'t backend \<Rightarrow> 't StateDB \<Rightarrow> address \<Rightarrow> 't StateDB \<times> 't stateObject option" where
  "getStateObject D s addr =
     (case getDeletedStateObject D s addr of
        (s, Some obj) \<Rightarrow> if so_deleted obj then (s, None) else (s, Some obj)
      | (s, None) \<Rightarrow> (s, None))"

text \<open>\<open>createObject\<close> returns the new object and the object it replaces, if that was not deleted.\<close>

definition createObject ::
  "'t backend \<Rightarrow> 't StateDB \<Rightarrow> address \<Rightarrow> 't StateDB \<times> 't stateObject \<times> 't stateObject option" where
  "createObject D s addr =
     (case getDeletedStateObject D s addr of (s, prev) \<Rightarrow>
        let newobj = newObject D addr zeroAccount in
        case prev of
          None \<Rightarrow> (setStateObject (log_entry s (CreateObjectChange addr)) newobj, newobj, None)
        | Some p \<Rightarrow>
            let prevdestruct = (s_snap s \<noteq> None \<and> so_addrHash p \<in> s_snapDestructs s);
                s = (if s_snap s \<noteq> None \<and> \<not> prevdestruct
                     then s\<lparr>s_snapDestructs := insert (so_addrHash p) (s_snapDestructs s)\<rparr> else s);
                s = setStateObject (log_entry s (ResetObjectChange p prevdestruct)) newobj
            in (s, newobj, if so_deleted p then None else Some p))"

definition GetOrNewStateObject ::
  "'t backend \<Rightarrow> 't StateDB \<Rightarrow> address \<Rightarrow> 't StateDB \<times> 't stateObject" where
  "GetOrNewStateObject D s addr =
     (case getStateObject D s addr of
        (s, Some obj) \<Rightarrow> (s, obj)
      | (s, None) \<Rightarrow> (case createObject D s addr of (s, obj, prev) \<Rightarrow> (s, obj)))"

definition CreateAccount :: "'t backend \<Rightarrow> 't StateDB \<Rightarrow> address \<Rightarrow> 't StateDB" where
  "CreateAccount D s addr =
     (case createObject D s addr of
        (s, newObj, None) \<Rightarrow> s
      | (s, newObj, Some prev) \<Rightarrow> putObject s addr (so_setBalance newObj (so_Balance prev)))"

section \<open>Reading\<close>

definition Exist :: "'t backend \<Rightarrow> 't StateDB \<Rightarrow> address \<Rightarrow> 't StateDB \<times> bool" where
  "Exist D s addr = (case getStateObject D s addr of (s, obj) \<Rightarrow> (s, obj \<noteq> None))"

definition Empty :: "'t backend \<Rightarrow> 't StateDB \<Rightarrow> address \<Rightarrow> 't StateDB \<times> bool" where
  "Empty D s addr =
     (case getStateObject D s addr of
        (s, None) \<Rightarrow> (s, True)
      | (s, Some obj) \<Rightarrow> (s, so_empty D obj))"

definition GetBalance :: "'t backend \<Rightarrow> 't StateDB \<Rightarrow> address \<Rightarrow> 't StateDB \<times> int" where
  "GetBalance D s addr =
     (case getStateObject D s addr of
        (s, Some obj) \<Rightarrow> (s, so_Balance obj)
      | (s, None) \<Rightarrow> (s, 0))"

definition GetNonce :: "'t backend \<Rightarrow> 't StateDB \<Rightarrow> address \<Rightarrow> 't StateDB \<times> u64" where
  "GetNonce D s addr =
     (case getStateObject D s addr of
        (s, Some obj) \<Rightarrow> (s, so_Nonce obj)
      | (s, None) \<Rightarrow> (s, 0))"

definition GetCode :: "'t backend \<Rightarrow> 't StateDB \<Rightarrow> address \<Rightarrow> 't StateDB \<times> bytes" where
  "GetCode D s addr =
     (case getStateObject D s addr of
        (s, Some obj) \<Rightarrow> (case so_Code D obj of (obj, code) \<Rightarrow> (putObject s addr obj, nilBytes code))
      | (s, None) \<Rightarrow> (s, []))"

definition GetCodeSize :: "'t backend \<Rightarrow> 't StateDB \<Rightarrow> address \<Rightarrow> 't StateDB \<times> int" where
  "GetCodeSize D s addr =
     (case getStateObject D s addr of
        (s, Some obj) \<Rightarrow> (case so_CodeSize D obj of (obj, sz) \<Rightarrow> (putObject s addr obj, sz))
      | (s, None) \<Rightarrow> (s, 0))"

definition GetCodeHash :: "'t backend \<Rightarrow> 't StateDB \<Rightarrow> address \<Rightarrow> 't StateDB \<times> hash" where
  "GetCodeHash D s addr =
     (case getStateObject D s addr of
        (s, None) \<Rightarrow> (s, 0)
      | (s, Some obj) \<Rightarrow> (s, BytesToHash (so_CodeHash obj)))"

definition GetState :: "'t backend \<Rightarrow> 't StateDB \<Rightarrow> address \<Rightarrow> hash \<Rightarrow> 't StateDB \<times> hash" where
  "GetState D s addr key =
     (case getStateObject D s addr of
        (s, Some obj) \<Rightarrow>
          (case so_GetState D (s_snap s) (s_snapDestructs s) obj key of
             (obj, v) \<Rightarrow> (putObject s addr obj, v))
      | (s, None) \<Rightarrow> (s, 0))"

definition GetCommittedState :: "'t backend \<Rightarrow> 't StateDB \<Rightarrow> address \<Rightarrow> hash \<Rightarrow> 't StateDB \<times> hash" where
  "GetCommittedState D s addr key =
     (case getStateObject D s addr of
        (s, Some obj) \<Rightarrow>
          (case so_GetCommittedState D (s_snap s) (s_snapDestructs s) obj key of
             (obj, v) \<Rightarrow> (putObject s addr obj, v))
      | (s, None) \<Rightarrow> (s, 0))"

definition HasSuicided :: "'t backend \<Rightarrow> 't StateDB \<Rightarrow> address \<Rightarrow> 't StateDB \<times> bool" where
  "HasSuicided D s addr =
     (case getStateObject D s addr of
        (s, Some obj) \<Rightarrow> (s, so_suicided obj)
      | (s, None) \<Rightarrow> (s, False))"

definition GetLogs :: "'t StateDB \<Rightarrow> hash \<Rightarrow> hash \<Rightarrow> 't StateDB \<times> Log list" where
  "GetLogs s h blockHash =
     (case s_logs s h of
        None \<Rightarrow> (s, [])
      | Some logs \<Rightarrow>
          let logs = map (\<lambda>l. l\<lparr>l_BlockHash := blockHash\<rparr>) logs
          in (s\<lparr>s_logs := (s_logs s)(h \<mapsto> logs)\<rparr>, logs))"

text \<open>\<open>Logs\<close> concatenates the logs of all transactions in the order the map is visited.\<close>

definition Logs :: "'t StateDB \<Rightarrow> hash list \<Rightarrow> Log list" where
  "Logs s order = concat (map (\<lambda>h. case s_logs s h of None \<Rightarrow> [] | Some ls \<Rightarrow> ls) order)"

definition AddressInAccessList :: "'t StateDB \<Rightarrow> address \<Rightarrow> bool" where
  "AddressInAccessList s addr = ContainsAddress (s_accessList s) addr"

definition SlotInAccessList :: "'t StateDB \<Rightarrow> address \<Rightarrow> hash \<Rightarrow> (bool \<times> bool) outcome" where
  "SlotInAccessList s addr slot = Contains (s_accessList s) addr slot"

section \<open>Writing\<close>

definition ripemd :: address where
  "ripemd = 0x0000000000000000000000000000000000000003"

text \<open>The journalled operations of an object act on the database's journal and on the object.\<close>

definition so_touch :: "'t StateDB \<Rightarrow> 't stateObject \<Rightarrow> 't StateDB" where
  "so_touch s obj =
     (let s = log_entry s (TouchChange (so_address obj))
      in if so_address obj = ripemd
         then s\<lparr>s_journal := journal_dirty (s_journal s) (so_address obj)\<rparr> else s)"

definition so_SetBalance :: "'t StateDB \<Rightarrow> 't stateObject \<Rightarrow> int \<Rightarrow> 't StateDB \<times> 't stateObject" where
  "so_SetBalance s obj amount =
     (log_entry s (BalanceChange (so_address obj) (acc_Balance (so_data obj))), so_setBalance obj amount)"

definition so_AddBalance ::
  "'t backend \<Rightarrow> 't StateDB \<Rightarrow> 't stateObject \<Rightarrow> int \<Rightarrow> 't StateDB \<times> 't stateObject" where
  "so_AddBalance D s obj amount =
     (if amount = 0 then
        if so_empty D obj then (so_touch s obj, obj) else (s, obj)
      else so_SetBalance s obj (so_Balance obj + amount))"

definition so_SubBalance :: "'t StateDB \<Rightarrow> 't stateObject \<Rightarrow> int \<Rightarrow> 't StateDB \<times> 't stateObject" where
  "so_SubBalance s obj amount =
     (if amount = 0 then (s, obj) else so_SetBalance s obj (so_Balance obj - amount))"

definition so_SetNonce :: "'t StateDB \<Rightarrow> 't stateObject \<Rightarrow> u64 \<Rightarrow> 't StateDB \<times> 't stateObject" where
  "so_SetNonce s obj nonce =
     (log_entry s (NonceChange (so_address obj) (acc_Nonce (so_data obj))), so_setNonce obj nonce)"

definition so_SetCode ::
  "'t backend \<Rightarrow> 't StateDB \<Rightarrow> 't stateObject \<Rightarrow> hash \<Rightarrow> bytes option \<Rightarrow> 't StateDB \<times> 't stateObject" where
  "so_SetCode D s obj codeHash code =
     (case so_Code D obj of (obj, prevcode) \<Rightarrow>
        (log_entry s (CodeChange (so_address obj) prevcode (so_CodeHash obj)),
         so_setCode obj codeHash code))"

definition so_SetState ::
  "'t backend \<Rightarrow> 't StateDB \<Rightarrow> 't stateObject \<Rightarrow> hash \<Rightarrow> hash \<Rightarrow> 't StateDB \<times> 't stateObject" where
  "so_SetState D s obj key val =
     (case so_fakeStorage obj of
        Some fake \<Rightarrow> (s, obj\<lparr>so_fakeStorage := Some (fake(key \<mapsto> val))\<rparr>)
      | None \<Rightarrow>
          (case so_GetState D (s_snap s) (s_snapDestructs s) obj key of (obj, prev) \<Rightarrow>
             if prev = val then (s, obj)
             else (log_entry s (StorageChange (so_address obj) key prev), so_setState obj key val)))"

definition AddBalance :: "'t backend \<Rightarrow> 't StateDB \<Rightarrow> address \<Rightarrow> int \<Rightarrow> 't StateDB" where
  "AddBalance D s addr amount =
     (case GetOrNewStateObject D s addr of (s, obj) \<Rightarrow>
        (case so_AddBalance D s obj amount of (s, obj) \<Rightarrow> putObject s addr obj))"

definition SubBalance :: "'t backend \<Rightarrow> 't StateDB \<Rightarrow> address \<Rightarrow> int \<Rightarrow> 't StateDB" where
  "SubBalance D s addr amount =
     (case GetOrNewStateObject D s addr of (s, obj) \<Rightarrow>
        (case so_SubBalance s obj amount of (s, obj) \<Rightarrow> putObject s addr obj))"

definition SetBalance :: "'t backend \<Rightarrow> 't StateDB \<Rightarrow> address \<Rightarrow> int \<Rightarrow> 't StateDB" where
  "SetBalance D s addr amount =
     (case GetOrNewStateObject D s addr of (s, obj) \<Rightarrow>
        (case so_SetBalance s obj amount of (s, obj) \<Rightarrow> putObject s addr obj))"

definition SetNonce :: "'t backend \<Rightarrow> 't StateDB \<Rightarrow> address \<Rightarrow> u64 \<Rightarrow> 't StateDB" where
  "SetNonce D s addr nonce =
     (case GetOrNewStateObject D s addr of (s, obj) \<Rightarrow>
        (case so_SetNonce s obj nonce of (s, obj) \<Rightarrow> putObject s addr obj))"

definition SetCode :: "'t backend \<Rightarrow> 't StateDB \<Rightarrow> address \<Rightarrow> bytes \<Rightarrow> 't StateDB" where
  "SetCode D s addr code =
     (case GetOrNewStateObject D s addr of (s, obj) \<Rightarrow>
        (case so_SetCode D s obj (keccak256 D code) (Some code) of (s, obj) \<Rightarrow> putObject s addr obj))"

definition SetState :: "'t backend \<Rightarrow> 't StateDB \<Rightarrow> address \<Rightarrow> hash \<Rightarrow> hash \<Rightarrow> 't StateDB" where
  "SetState D s addr key val =
     (case GetOrNewStateObject D s addr of (s, obj) \<Rightarrow>
        (case so_SetState D s obj key val of (s, obj) \<Rightarrow> putObject s addr obj))"

definition SetStorage :: "'t backend \<Rightarrow> 't StateDB \<Rightarrow> address \<Rightarrow> storage \<Rightarrow> 't StateDB" where
  "SetStorage D s addr st =
     (case GetOrNewStateObject D s addr of (s, obj) \<Rightarrow> putObject s addr (so_SetStorage obj st))"

definition Suicide :: "'t backend \<Rightarrow> 't StateDB \<Rightarrow> address \<Rightarrow> 't StateDB \<times> bool" where
  "Suicide D s addr =
     (case getStateObject D s addr of
        (s, None) \<Rightarrow> (s, False)
      | (s, Some obj) \<Rightarrow>
          (putObject (log_entry s (SuicideChange addr (so_suicided obj) (so_Balance obj))) addr
             (so_setBalance (so_markSuicided obj) 0), True))"

definition AddLog :: "'t StateDB \<Rightarrow> Log \<Rightarrow> 't StateDB" where
  "AddLog s lg =
     (let s = log_entry s (AddLogChange (s_thash s));
          lg = lg\<lparr>l_TxHash := s_thash s, l_TxIndex := of_int (s_txIndex s), l_Index := s_logSize s\<rparr>;
          logs = (case s_logs s (s_thash s) of None \<Rightarrow> [] | Some ls \<Rightarrow> ls)
      in s\<lparr>s_logs := (s_logs s)(s_thash s \<mapsto> logs @ [lg]), s_logSize := s_logSize s + 1\<rparr>)"

definition AddPreimage :: "'t StateDB \<Rightarrow> hash \<Rightarrow> bytes \<Rightarrow> 't StateDB" where
  "AddPreimage s h preimage =
     (case s_preimages s h of
        Some _ \<Rightarrow> s
      | None \<Rightarrow> (log_entry s (AddPreimageChange h))\<lparr>s_preimages := (s_preimages s)(h \<mapsto> preimage)\<rparr>)"

definition AddRefund :: "'t StateDB \<Rightarrow> u64 \<Rightarrow> 't StateDB" where
  "AddRefund s gas = (log_entry s (RefundChange (s_refund s)))\<lparr>s_refund := s_refund s + gas\<rparr>"

definition SubRefund :: "'t StateDB \<Rightarrow> u64 \<Rightarrow> 't StateDB outcome" where
  "SubRefund s gas =
     (if gas > s_refund s then Panic
      else Ok ((log_entry s (RefundChange (s_refund s)))\<lparr>s_refund := s_refund s - gas\<rparr>))"

definition AddAddressToAccessList :: "'t StateDB \<Rightarrow> address \<Rightarrow> 't StateDB" where
  "AddAddressToAccessList s addr =
     (case AddAddress (s_accessList s) addr of (al, added) \<Rightarrow>
        let s = s\<lparr>s_accessList := al\<rparr>
        in if added then log_entry s (AccessListAddAccountChange addr) else s)"

definition AddSlotToAccessList :: "'t StateDB \<Rightarrow> address \<Rightarrow> hash \<Rightarrow> 't StateDB outcome" where
  "AddSlotToAccessList s addr slot =
     bnd (AddSlot (s_accessList s) addr slot) (\<lambda>(al, addrMod, slotMod).
       let s = s\<lparr>s_accessList := al\<rparr>;
           s = (if addrMod then log_entry s (AccessListAddAccountChange addr) else s);
           s = (if slotMod then log_entry s (AccessListAddSlotChange addr slot) else s)
       in Ok s)"

record AccessTuple =
  at_Address :: address
  at_StorageKeys :: "hash list"

primrec addSlots :: "'t StateDB \<Rightarrow> address \<Rightarrow> hash list \<Rightarrow> 't StateDB outcome" where
  "addSlots s addr [] = Ok s"
| "addSlots s addr (key # keys) = bnd (AddSlotToAccessList s addr key) (\<lambda>s. addSlots s addr keys)"

primrec addTuples :: "'t StateDB \<Rightarrow> AccessTuple list \<Rightarrow> 't StateDB outcome" where
  "addTuples s [] = Ok s"
| "addTuples s (el # list) =
     bnd (addSlots (AddAddressToAccessList s (at_Address el)) (at_Address el) (at_StorageKeys el))
         (\<lambda>s. addTuples s list)"

definition PrepareAccessList ::
  "'t StateDB \<Rightarrow> address \<Rightarrow> address option \<Rightarrow> address list \<Rightarrow> AccessTuple list \<Rightarrow> 't StateDB outcome" where
  "PrepareAccessList s sender dst precompiles list =
     (let s = AddAddressToAccessList s sender;
          s = (case dst of None \<Rightarrow> s | Some d \<Rightarrow> AddAddressToAccessList s d);
          s = foldl AddAddressToAccessList s precompiles
      in addTuples s list)"

definition Prepare :: "'t StateDB \<Rightarrow> hash \<Rightarrow> int \<Rightarrow> 't StateDB" where
  "Prepare s th ti = s\<lparr>s_thash := th, s_txIndex := ti, s_accessList := newAccessList\<rparr>"

section \<open>Snapshots and reverting\<close>

text \<open>A method call on the nil object returned for a missing account panics.\<close>

definition withObject ::
  "'t backend \<Rightarrow> 't StateDB \<Rightarrow> address \<Rightarrow> ('t stateObject \<Rightarrow> 't stateObject) \<Rightarrow> 't StateDB outcome" where
  "withObject D s addr f =
     (case getStateObject D s addr of
        (s, None) \<Rightarrow> Panic
      | (s, Some obj) \<Rightarrow> Ok (putObject s addr (f obj)))"

fun entry_revert :: "'t backend \<Rightarrow> 't journalEntry \<Rightarrow> 't StateDB \<Rightarrow> 't StateDB outcome" where
  "entry_revert D (CreateObjectChange a) s =
     Ok (s\<lparr>s_stateObjects := (s_stateObjects s)(a := None),
           s_stateObjectsDirty := s_stateObjectsDirty s - {a}\<rparr>)"
| "entry_revert D (ResetObjectChange prev prevdestruct) s =
     (let s = setStateObject s prev
      in Ok (if \<not> prevdestruct \<and> s_snap s \<noteq> None
             then s\<lparr>s_snapDestructs := s_snapDestructs s - {so_addrHash prev}\<rparr> else s))"
| "entry_revert D (SuicideChange a prev prevbalance) s =
     (case getStateObject D s a of
        (s, None) \<Rightarrow> Ok s
      | (s, Some obj) \<Rightarrow> Ok (putObject s a (so_setBalance (obj\<lparr>so_suicided := prev\<rparr>) prevbalance)))"
| "entry_revert D (BalanceChange a prev) s = withObject D s a (\<lambda>obj. so_setBalance obj prev)"
| "entry_revert D (NonceChange a prev) s = withObject D s a (\<lambda>obj. so_setNonce obj prev)"
| "entry_revert D (StorageChange a key prevalue) s = withObject D s a (\<lambda>obj. so_setState obj key prevalue)"
| "entry_revert D (CodeChange a prevcode prevhash) s =
     withObject D s a (\<lambda>obj. so_setCode obj (BytesToHash prevhash) prevcode)"
| "entry_revert D (RefundChange prev) s = Ok (s\<lparr>s_refund := prev\<rparr>)"
| "entry_revert D (AddLogChange txhash) s =
     (let logs = (case s_logs s txhash of None \<Rightarrow> [] | Some ls \<Rightarrow> ls)
      in if logs = [] then Panic
         else Ok (s\<lparr>s_logs := (if length logs = 1 then (s_logs s)(txhash := None)
                               else (s_logs s)(txhash \<mapsto> butlast logs)),
                    s_logSize := s_logSize s - 1\<rparr>))"
| "entry_revert D (AddPreimageChange h) s = Ok (s\<lparr>s_preimages := (s_preimages s)(h := None)\<rparr>)"
| "entry_revert D (TouchChange a) s = Ok s"
| "entry_revert D (AccessListAddAccountChange a) s =
     Ok (s\<lparr>s_accessList := DeleteAddress (s_accessList s) a\<rparr>)"
| "entry_revert D (AccessListAddSlotChange a slot) s =
     bnd (DeleteSlot (s_accessList s) a slot) (\<lambda>al. Ok (s\<lparr>s_accessList := al\<rparr>))"

text \<open>The loop of \<open>journal.revert\<close>, over the entries from the last to the first one reverted.\<close>

primrec revert_entries :: "'t backend \<Rightarrow> 't journalEntry list \<Rightarrow> 't StateDB \<Rightarrow> 't StateDB outcome" where
  "revert_entries D [] s = Ok s"
| "revert_entries D (e # es) s =
     bnd (entry_revert D e s) (\<lambda>s.
       revert_entries D es (s\<lparr>s_journal := journal_undirty (s_journal s) e\<rparr>))"

definition journal_revert :: "'t backend \<Rightarrow> 't StateDB \<Rightarrow> int \<Rightarrow> 't StateDB outcome" where
  "journal_revert D s snapshot =
     (let entries = j_entries (s_journal s)
      in if snapshot < 0 \<or> int (length entries) < snapshot then Panic
         else bnd (revert_entries D (rev (drop (nat snapshot) entries)) s) (\<lambda>s.
                Ok (s\<lparr>s_journal := (s_journal s)\<lparr>j_entries := take (nat snapshot) (j_entries (s_journal s))\<rparr>\<rparr>)))"

definition Snapshot :: "'t StateDB \<Rightarrow> 't StateDB \<times> int" where
  "Snapshot s =
     (let id = s_nextRevisionId s
      in (s\<lparr>s_nextRevisionId := s_nextRevisionId s + 1,
            s_validRevisions := s_validRevisions s @
              [\<lparr>rev_id = id, rev_journalIndex = journal_length (s_journal s)\<rparr>]\<rparr>, id))"

text \<open>The binary search of Go's \<open>sort.Search\<close>: the smallest index in \<open>[i, j)\<close> with \<open>f\<close>, or \<open>j\<close>.\<close>

function sort_Search :: "nat \<Rightarrow> nat \<Rightarrow> (nat \<Rightarrow> bool) \<Rightarrow> nat" where
  "sort_Search i j f =
     (if i < j then
        let h = (i + j) div 2
        in if \<not> f h then sort_Search (h + 1) j f else sort_Search i h f
      else i)"
  by pat_completeness auto
termination by (relation "measure (\<lambda>(i, j, f). j - i)") auto

declare sort_Search.simps [simp del]

definition RevertToSnapshot :: "'t backend \<Rightarrow> 't StateDB \<Rightarrow> int \<Rightarrow> 't StateDB outcome" where
  "RevertToSnapshot D s revid =
     (let revs = s_validRevisions s;
          idx = sort_Search 0 (length revs) (\<lambda>i. rev_id (revs ! i) \<ge> revid)
      in if idx = length revs \<or> rev_id (revs ! idx) \<noteq> revid then Panic
         else bnd (journal_revert D s (rev_journalIndex (revs ! idx))) (\<lambda>s.
                Ok (s\<lparr>s_validRevisions := take idx (s_validRevisions s)\<rparr>)))"

section \<open>End of a transaction\<close>

definition clearJournalAndRefund :: "'t StateDB \<Rightarrow> 't StateDB" where
  "clearJournalAndRefund s =
     (let s = (if j_entries (s_journal s) \<noteq> [] then s\<lparr>s_journal := newJournal, s_refund := 0\<rparr> else s)
      in s\<lparr>s_validRevisions := []\<rparr>)"

definition finaliseAddr :: "'t backend \<Rightarrow> bool \<Rightarrow> 't StateDB \<Rightarrow> address \<Rightarrow> 't StateDB" where
  "finaliseAddr D deleteEmptyObjects s addr =
     (case s_stateObjects s addr of
        None \<Rightarrow> s
      | Some obj \<Rightarrow>
          let s = (if so_suicided obj \<or> (deleteEmptyObjects \<and> so_empty D obj) then
                     let s = putObject s addr (obj\<lparr>so_deleted := True\<rparr>)
                     in if s_snap s \<noteq> None then
                          s\<lparr>s_snapDestructs := insert (so_addrHash obj) (s_snapDestructs s),
                            s_snapAccounts := (s_snapAccounts s)(so_addrHash obj := None),
                            s_snapStorage := (s_snapStorage s)(so_addrHash obj := None)\<rparr>
                        else s
                   else putObject s addr (so_finalise obj))
          in s\<lparr>s_stateObjectsPending := insert addr (s_stateObjectsPending s),
               s_stateObjectsDirty := insert addr (s_stateObjectsDirty s)\<rparr>)"

text \<open>\<open>order\<close> lists the keys of \<open>journal.dirties\<close> as they are visited.\<close>

definition Finalise :: "'t backend \<Rightarrow> bool \<Rightarrow> address list \<Rightarrow> 't StateDB \<Rightarrow> 't StateDB" where
  "Finalise D deleteEmptyObjects order s =
     clearJournalAndRefund (foldl (finaliseAddr D deleteEmptyObjects) s order)"

section \<open>Writing to the tries\<close>

text \<open>One step of the loop of \<open>updateTrie\<close>; a nil value in the snapshot storage is an empty slice.\<close>

definition updateTrieSlot ::
  "'t backend \<Rightarrow> 't StateDB \<times> 't stateObject \<times> 't \<Rightarrow> hash \<Rightarrow> ('t StateDB \<times> 't stateObject \<times> 't) outcome" where
  "updateTrieSlot D = (\<lambda>(s, obj, tr) key.
     let val = sget (so_pendingStorage obj) key in
     if val = sget (so_originStorage obj) key then Ok (s, obj, tr)
     else
       let obj = obj\<lparr>so_originStorage := (so_originStorage obj)(key \<mapsto> val)\<rparr> in
       bnd (if val = 0 then Ok [] else
              bnd (EncodeToBytes (VBytes (TrimLeftZeroes (hash_Bytes val))))
                  (\<lambda>r. case r of Inl _ \<Rightarrow> Ok [] | Inr v \<Rightarrow> Ok v)) (\<lambda>v.
         let (tr, err) = (if val = 0 then TryDelete D tr (hash_Bytes key)
                          else TryUpdate D tr (hash_Bytes key) v);
             obj = so_setError (obj\<lparr>so_trie := Some tr\<rparr>) (map_option ErrTrie err);
             s = (if s_snap s \<noteq> None then
                    let storage = (case s_snapStorage s (so_addrHash obj) of None \<Rightarrow> (\<lambda>_. None) | Some m \<Rightarrow> m)
                    in s\<lparr>s_snapStorage := (s_snapStorage s)
                           (so_addrHash obj \<mapsto> storage(keccak256 D (hash_Bytes key) \<mapsto> v))\<rparr>
                  else s)
         in Ok (s, obj, tr)))"

primrec updateTrieSlots ::
  "'t backend \<Rightarrow> 't StateDB \<times> 't stateObject \<times> 't \<Rightarrow> hash list \<Rightarrow> ('t StateDB \<times> 't stateObject \<times> 't) outcome" where
  "updateTrieSlots D st [] = Ok st"
| "updateTrieSlots D st (key # keys) =
     bnd (updateTrieSlot D st key) (\<lambda>st. updateTrieSlots D st keys)"

text \<open>\<open>order\<close> lists the keys of the finalised \<open>pendingStorage\<close> as they are visited.\<close>

definition so_updateTrie ::
  "'t backend \<Rightarrow> 't StateDB \<Rightarrow> 't stateObject \<Rightarrow> hash list \<Rightarrow> ('t StateDB \<times> 't stateObject \<times> 't option) outcome" where
  "so_updateTrie D s obj order =
     (let obj = so_finalise obj in
      if order = [] then Ok (s, obj, so_trie obj)
      else
        case so_getTrie D obj of (obj, tr) \<Rightarrow>
          bnd (updateTrieSlots D (s, obj, tr) order) (\<lambda>(s, obj, tr).
            Ok (s, obj\<lparr>so_pendingStorage := (\<lambda>_. None)\<rparr>, Some tr)))"

definition so_updateRoot ::
  "'t backend \<Rightarrow> 't StateDB \<Rightarrow> 't stateObject \<Rightarrow> hash list \<Rightarrow> ('t StateDB \<times> 't stateObject) outcome" where
  "so_updateRoot D s obj order =
     bnd (so_updateTrie D s obj order) (\<lambda>(s, obj, tr).
       case tr of
         None \<Rightarrow> Ok (s, obj)
       | Some tr \<Rightarrow> Ok (s, obj\<lparr>so_data := (so_data obj)\<lparr>acc_Root := trieHash D tr\<rparr>\<rparr>))"

definition so_CommitTrie ::
  "'t backend \<Rightarrow> 't StateDB \<Rightarrow> 't stateObject \<Rightarrow> hash list \<Rightarrow> ('t StateDB \<times> 't stateObject \<times> sdbError option) outcome" where
  "so_CommitTrie D s obj order =
     bnd (so_updateTrie D s obj order) (\<lambda>(s, obj, tr).
       case tr of
         None \<Rightarrow> Ok (s, obj, None)
       | Some tr \<Rightarrow>
           if so_dbErr obj \<noteq> None then Ok (s, obj, so_dbErr obj)
           else (case trieCommit D tr of
                   (tr, Inl err) \<Rightarrow> Ok (s, obj\<lparr>so_trie := Some tr\<rparr>, Some (ErrTrie err))
                 | (tr, Inr root) \<Rightarrow>
                     Ok (s, obj\<lparr>so_trie := Some tr, so_data := (so_data obj)\<lparr>acc_Root := root\<rparr>\<rparr>, None)))"

text \<open>\<open>snapshot.SlimAccountRLP\<close>: the empty root and the empty code hash are left out.\<close>

definition SlimAccountRLP :: "'t backend \<Rightarrow> Account \<Rightarrow> bytes outcome" where
  "SlimAccountRLP D a =
     bnd (EncodeToBytes
           (VStruct [VUint (acc_Nonce a), VBigInt (acc_Balance a),
                     VBytes (if acc_Root a \<noteq> emptyRoot then hash_Bytes (acc_Root a) else []),
                     VBytes (if nilBytes (acc_CodeHash a) \<noteq> emptyCodeHash D then nilBytes (acc_CodeHash a) else [])]))
         (\<lambda>r. case r of Inl _ \<Rightarrow> Panic | Inr data \<Rightarrow> Ok data)"

definition updateStateObject :: "'t backend \<Rightarrow> 't StateDB \<Rightarrow> 't stateObject \<Rightarrow> 't StateDB outcome" where
  "updateStateObject D s obj =
     bnd (EncodeToBytes (accountVal (so_data obj))) (\<lambda>r.
       case r of
         Inl _ \<Rightarrow> Panic
       | Inr data \<Rightarrow>
           let addr = so_address obj;
               (tr, err) = TryUpdate D (s_trie s) (address_Bytes addr) data;
               s = s\<lparr>s_trie := tr\<rparr>;
               s = (case err of None \<Rightarrow> s | Some e \<Rightarrow> setError s (ErrUpdateStateObject addr e))
           in if s_snap s \<noteq> None then
                bnd (SlimAccountRLP D (so_data obj)) (\<lambda>slim.
                  Ok (s\<lparr>s_snapAccounts := (s_snapAccounts s)(so_addrHash obj \<mapsto> slim)\<rparr>))
              else Ok s)"

definition deleteStateObject :: "'t backend \<Rightarrow> 't StateDB \<Rightarrow> 't stateObject \<Rightarrow> 't StateDB" where
  "deleteStateObject D s obj =
     (let addr = so_address obj;
          (tr, err) = TryDelete D (s_trie s) (address_Bytes addr);
          s = s\<lparr>s_trie := tr\<rparr>
      in case err of None \<Rightarrow> s | Some e \<Rightarrow> setError s (ErrDeleteStateObject addr e))"

primrec updateRoots ::
  "'t backend \<Rightarrow> (address \<Rightarrow> hash list) \<Rightarrow> address list \<Rightarrow> 't StateDB \<Rightarrow> 't StateDB outcome" where
  "updateRoots D ordS [] s = Ok s"
| "updateRoots D ordS (addr # addrs) s =
     (case s_stateObjects s addr of
        None \<Rightarrow> Panic
      | Some obj \<Rightarrow>
          bnd (if so_deleted obj then Ok s
               else bnd (so_updateRoot D s obj (ordS addr)) (\<lambda>(s, obj). Ok (putObject s addr obj)))
              (updateRoots D ordS addrs))"

primrec writeObjects :: "'t backend \<Rightarrow> address list \<Rightarrow> 't StateDB \<Rightarrow> 't StateDB outcome" where
  "writeObjects D [] s = Ok s"
| "writeObjects D (addr # addrs) s =
     (case s_stateObjects s addr of
        None \<Rightarrow> Panic
      | Some obj \<Rightarrow>
          bnd (if so_deleted obj then Ok (deleteStateObject D s obj) else updateStateObject D s obj)
              (writeObjects D addrs))"

text \<open>
  The visits of \<open>IntermediateRoot\<close>: \<open>ordJ\<close> of the dirty addresses by \<open>Finalise\<close>, \<open>ordP\<close> and
  \<open>ordP'\<close> of the pending objects, \<open>ordS\<close> of each object's pending storage.
\<close>

definition IntermediateRoot ::
  "'t backend \<Rightarrow> bool \<Rightarrow> address list \<Rightarrow> address list \<Rightarrow> address list \<Rightarrow> (address \<Rightarrow> hash list) \<Rightarrow>
   't StateDB \<Rightarrow> ('t StateDB \<times> hash) outcome" where
  "IntermediateRoot D deleteEmptyObjects ordJ ordP ordP' ordS s =
     bnd (updateRoots D ordS ordP (Finalise D deleteEmptyObjects ordJ s)) (\<lambda>s.
     bnd (writeObjects D ordP' s) (\<lambda>s.
       Ok (s\<lparr>s_stateObjectsPending := {}\<rparr>, trieHash D (s_trie s))))"

section \<open>Creating and copying\<close>

definition StateDB_New ::
  "'t backend \<Rightarrow> hash \<Rightarrow> (hash \<Rightarrow> snapshot option) option \<Rightarrow> gerror + 't StateDB" where
  "StateDB_New D root snaps =
     (case OpenTrie D root of
        Inl err \<Rightarrow> Inl err
      | Inr tr \<Rightarrow>
          Inr \<lparr>s_originalRoot = root, s_trie = tr, s_snaps = snaps,
               s_snap = (case snaps of None \<Rightarrow> None | Some f \<Rightarrow> f root),
               s_snapDestructs = {}, s_snapAccounts = (\<lambda>_. None), s_snapStorage = (\<lambda>_. None),
               s_stateObjects = (\<lambda>_. None), s_stateObjectsPending = {}, s_stateObjectsDirty = {},
               s_dbErr = None, s_refund = 0, s_thash = 0, s_txIndex = 0, s_logs = (\<lambda>_. None),
               s_logSize = 0, s_preimages = (\<lambda>_. None), s_accessList = newAccessList,
               s_journal = newJournal, s_validRevisions = [], s_nextRevisionId = 0\<rparr>)"

primrec copyDirties :: "'t backend \<Rightarrow> 't StateDB \<Rightarrow> address list \<Rightarrow> 't StateDB \<Rightarrow> 't StateDB" where
  "copyDirties D s [] state = state"
| "copyDirties D s (addr # addrs) state =
     copyDirties D s addrs
       (case s_stateObjects s addr of
          None \<Rightarrow> state
        | Some object \<Rightarrow>
            (putObject state addr (so_deepCopy D object))
              \<lparr>s_stateObjectsDirty := insert addr (s_stateObjectsDirty state),
               s_stateObjectsPending := insert addr (s_stateObjectsPending state)\<rparr>)"

definition copyMissing :: "'t backend \<Rightarrow> 't StateDB \<Rightarrow> address \<Rightarrow> 't StateDB \<Rightarrow> 't StateDB outcome" where
  "copyMissing D s addr state =
     (case s_stateObjects state addr of
        Some _ \<Rightarrow> Ok state
      | None \<Rightarrow> (case s_stateObjects s addr of
                   None \<Rightarrow> Panic
                 | Some object \<Rightarrow> Ok (putObject state addr (so_deepCopy D object))))"

primrec copyPending :: "'t backend \<Rightarrow> 't StateDB \<Rightarrow> address list \<Rightarrow> 't StateDB \<Rightarrow> 't StateDB outcome" where
  "copyPending D s [] state = Ok state"
| "copyPending D s (addr # addrs) state =
     bnd (copyMissing D s addr state) (\<lambda>state.
       copyPending D s addrs
         (state\<lparr>s_stateObjectsPending := insert addr (s_stateObjectsPending state)\<rparr>))"

primrec copyDirty :: "'t backend \<Rightarrow> 't StateDB \<Rightarrow> address list \<Rightarrow> 't StateDB \<Rightarrow> 't StateDB outcome" where
  "copyDirty D s [] state = Ok state"
| "copyDirty D s (addr # addrs) state =
     bnd (copyMissing D s addr state) (\<lambda>state.
       copyDirty D s addrs (state\<lparr>s_stateObjectsDirty := insert addr (s_stateObjectsDirty state)\<rparr>))"

text \<open>
  \<open>ordJ\<close>, \<open>ordP\<close> and \<open>ordD\<close> are the visits of the journal's dirty addresses, the pending and the
  dirty objects.  Logs, preimages and the snapshot maps are copied element by element: their
  values are the same.
\<close>

definition StateDB_Copy ::
  "'t backend \<Rightarrow> address list \<Rightarrow> address list \<Rightarrow> address list \<Rightarrow> 't StateDB \<Rightarrow> 't StateDB outcome" where
  "StateDB_Copy D ordJ ordP ordD s =
     (let state = \<lparr>s_originalRoot = 0, s_trie = s_trie s, s_snaps = None, s_snap = None,
            s_snapDestructs = {}, s_snapAccounts = (\<lambda>_. None), s_snapStorage = (\<lambda>_. None),
            s_stateObjects = (\<lambda>_. None), s_stateObjectsPending = {}, s_stateObjectsDirty = {},
            s_dbErr = None, s_refund = s_refund s, s_thash = 0, s_txIndex = 0, s_logs = (\<lambda>_. None),
            s_logSize = s_logSize s, s_preimages = (\<lambda>_. None), s_accessList = newAccessList,
            s_journal = newJournal, s_validRevisions = [], s_nextRevisionId = 0\<rparr>
      in bnd (copyPending D s ordP (copyDirties D s ordJ state)) (\<lambda>state.
         bnd (copyDirty D s ordD state) (\<lambda>state.
           let state = state\<lparr>s_logs := s_logs s, s_preimages := s_preimages s,
                 s_accessList := accessList_Copy (s_accessList s)\<rparr>
           in Ok (case s_snaps s of
                    None \<Rightarrow> state
                  | Some f \<Rightarrow> state\<lparr>s_snaps := Some f, s_snap := s_snap s,
                      s_snapDestructs := s_snapDestructs s, s_snapAccounts := s_snapAccounts s,
                      s_snapStorage := s_snapStorage s\<rparr>))))"

section \<open>Commit\<close>

text \<open>
  \<open>Commit\<close> returns, beside the root or the error, what it hands to other components: the contract
  codes put into the database batch, and the new root, the parent root and the three maps given to
  the snapshot tree.  The reference counts of the trie database are not part of the model.
\<close>

datatype commitError =
    CommitAborted sdbError
  | CommitFailed sdbError

record snapUpdate =
  su_root :: hash
  su_parent :: hash
  su_destructs :: "hash set"
  su_accounts :: "hash \<Rightarrow> bytes option"
  su_storage :: "hash \<Rightarrow> (hash \<Rightarrow> bytes option) option"

primrec commitObjects ::
  "'t backend \<Rightarrow> (address \<Rightarrow> hash list) \<Rightarrow> address list \<Rightarrow> 't StateDB \<times> (hash \<times> bytes) list \<Rightarrow>
   ('t StateDB \<times> (hash \<times> bytes) list \<times> sdbError option) outcome" where
  "commitObjects D ordS [] st = Ok (fst st, snd st, None)"
| "commitObjects D ordS (addr # addrs) st =
     (case st of (s, codes) \<Rightarrow>
      case s_stateObjects s addr of
        None \<Rightarrow> Panic
      | Some obj \<Rightarrow>
          if so_deleted obj then commitObjects D ordS addrs (s, codes)
          else
            let (obj, codes) =
                  (case so_code obj of
                     Some code \<Rightarrow>
                       if so_dirtyCode obj
                       then (obj\<lparr>so_dirtyCode := False\<rparr>, codes @ [(BytesToHash (so_CodeHash obj), code)])
                       else (obj, codes)
                   | None \<Rightarrow> (obj, codes))
            in bnd (so_CommitTrie D s obj (ordS addr)) (\<lambda>(s, obj, err).
                 let s = putObject s addr obj
                 in case err of
                      Some e \<Rightarrow> Ok (s, codes, Some e)
                    | None \<Rightarrow> commitObjects D ordS addrs (s, codes)))"

definition Commit ::
  "'t backend \<Rightarrow> bool \<Rightarrow> address list \<Rightarrow> address list \<Rightarrow> address list \<Rightarrow> (address \<Rightarrow> hash list) \<Rightarrow>
   address list \<Rightarrow> (address \<Rightarrow> hash list) \<Rightarrow> 't StateDB \<Rightarrow>
   ('t StateDB \<times> (commitError + hash) \<times> (hash \<times> bytes) list \<times> snapUpdate option) outcome" where
  "Commit D deleteEmptyObjects ordJ ordP ordP' ordS ordD ordS' s =
     (case s_dbErr s of
        Some e \<Rightarrow> Ok (s, Inl (CommitAborted e), [], None)
      | None \<Rightarrow>
          bnd (IntermediateRoot D deleteEmptyObjects ordJ ordP ordP' ordS s) (\<lambda>(s, _).
          bnd (commitObjects D ordS' ordD (s, [])) (\<lambda>(s, codes, err).
            case err of
              Some e \<Rightarrow> Ok (s, Inl (CommitFailed e), [], None)
            | None \<Rightarrow>
                let (tr, res) = trieCommit D (s_trie s);
                    s = s\<lparr>s_stateObjectsDirty := {}, s_trie := tr\<rparr>;
                    root = (case res of Inl _ \<Rightarrow> 0 | Inr r \<Rightarrow> r);
                    upd = (case s_snap s of
                             None \<Rightarrow> None
                           | Some sn \<Rightarrow>
                               if snap_Root sn \<noteq> root
                               then Some \<lparr>su_root = root, su_parent = snap_Root sn,
                                          su_destructs = s_snapDestructs s, su_accounts = s_snapAccounts s,
                                          su_storage = s_snapStorage s\<rparr>
                               else None);
                    s = (if s_snap s \<noteq> None
                         then s\<lparr>s_snap := None, s_snapDestructs := {}, s_snapAccounts := (\<lambda>_. None),
                                s_snapStorage := (\<lambda>_. None)\<rparr>
                         else s)
                in Ok (s, (case res of Inl e \<Rightarrow> Inl (CommitFailed (ErrTrie e)) | Inr r \<Rightarrow> Inr r), codes, upd))))"

end

