(* ===== verification/StateView.thy ===== *)
theory StateView
  imports StateDB
begin

text \<open>
  The observable content of the state database.  Two states are equivalent when every account
  reads the same, whatever is cached, and the other transaction data agree.  Reading operations
  keep the state equivalent, and reverting an entry of the journal respects equivalence.
\<close>

section \<open>Content of an object\<close>

definition objTrie :: "'t backend \<Rightarrow> 't stateObject \<Rightarrow> 't" where
  "objTrie D o1 = snd (so_getTrie D o1)"

definition slotFromTrie :: "'t backend \<Rightarrow> 't stateObject \<Rightarrow> hash \<Rightarrow> hash" where
  "slotFromTrie D o1 k =
     (case TryGet D (objTrie D o1) (hash_Bytes k) of Inl _ \<Rightarrow> 0 | Inr enc \<Rightarrow> fst (decodeSlot enc))"

definition slotLoad :: "'t backend \<Rightarrow> snapshot option \<Rightarrow> hash set \<Rightarrow> 't stateObject \<Rightarrow> hash \<Rightarrow> hash" where
  "slotLoad D sn sd o1 k =
     (case sn of
        None \<Rightarrow> slotFromTrie D o1 k
      | Some s \<Rightarrow>
          if so_addrHash o1 \<in> sd then 0
          else (case snap_Storage s (so_addrHash o1) (keccak256 D (hash_Bytes k)) of
                  Inl _ \<Rightarrow> slotFromTrie D o1 k
                | Inr enc \<Rightarrow> fst (decodeSlot enc)))"

definition committed :: "'t backend \<Rightarrow> snapshot option \<Rightarrow> hash set \<Rightarrow> 't stateObject \<Rightarrow> hash \<Rightarrow> hash" where
  "committed D sn sd o1 k =
     (case so_pendingStorage o1 k of
        Some v \<Rightarrow> v
      | None \<Rightarrow> (case so_originStorage o1 k of Some v \<Rightarrow> v | None \<Rightarrow> slotLoad D sn sd o1 k))"

definition current :: "'t backend \<Rightarrow> snapshot option \<Rightarrow> hash set \<Rightarrow> 't stateObject \<Rightarrow> hash \<Rightarrow> hash" where
  "current D sn sd o1 k =
     (case so_dirtyStorage o1 k of Some v \<Rightarrow> v | None \<Rightarrow> committed D sn sd o1 k)"

definition codeOf :: "'t backend \<Rightarrow> 't stateObject \<Rightarrow> bytes option" where
  "codeOf D o1 = snd (so_Code D o1)"

text \<open>Objects that read the same; neither has a debugging storage.\<close>

definition obj_eq ::
  "'t backend \<Rightarrow> snapshot option \<Rightarrow> hash set \<Rightarrow> 't stateObject \<Rightarrow> 't stateObject \<Rightarrow> bool" where
  "obj_eq D sn sd o1 o2 \<longleftrightarrow>
     so_address o1 = so_address o2 \<and> so_addrHash o1 = so_addrHash o2 \<and> so_data o1 = so_data o2 \<and>
     so_suicided o1 = so_suicided o2 \<and> so_deleted o1 = so_deleted o2 \<and>
     so_fakeStorage o1 = None \<and> so_fakeStorage o2 = None \<and>
     committed D sn sd o1 = committed D sn sd o2 \<and> current D sn sd o1 = current D sn sd o2 \<and>
     codeOf D o1 = codeOf D o2"

lemma obj_eq_refl: "so_fakeStorage o1 = None \<Longrightarrow> obj_eq D sn sd o1 o1"
  by (simp add: obj_eq_def)

lemma obj_eq_sym: "obj_eq D sn sd o1 o2 \<Longrightarrow> obj_eq D sn sd o2 o1"
  by (simp add: obj_eq_def)

lemma obj_eq_trans: "obj_eq D sn sd o1 o2 \<Longrightarrow> obj_eq D sn sd o2 o3 \<Longrightarrow> obj_eq D sn sd o1 o3"
  by (simp add: obj_eq_def)

section \<open>Reading an object fills its caches only\<close>

lemma slotLoad_cong:
  assumes "so_addrHash o2 = so_addrHash o1" "objTrie D o2 = objTrie D o1"
  shows "slotLoad D sn sd o2 = slotLoad D sn sd o1"
  unfolding slotLoad_def slotFromTrie_def assms ..

lemma content_cong:
  assumes "so_pendingStorage o2 = so_pendingStorage o1" "so_originStorage o2 = so_originStorage o1"
    "so_addrHash o2 = so_addrHash o1" "objTrie D o2 = objTrie D o1"
  shows "committed D sn sd o2 = committed D sn sd o1"
    "so_dirtyStorage o2 = so_dirtyStorage o1 \<Longrightarrow> current D sn sd o2 = current D sn sd o1"
proof -
  show c: "committed D sn sd o2 = committed D sn sd o1"
    unfolding committed_def slotLoad_cong [OF assms(3,4)] assms ..
  assume "so_dirtyStorage o2 = so_dirtyStorage o1"
  then show "current D sn sd o2 = current D sn sd o1" unfolding current_def c by simp
qed

lemma objTrie_eq:
  "objTrie D o1 =
     (case so_trie o1 of
        Some tr \<Rightarrow> tr
      | None \<Rightarrow> (case OpenStorageTrie D (so_addrHash o1) (acc_Root (so_data o1)) of
                   Inr tr \<Rightarrow> tr
                 | Inl err \<Rightarrow> OpenEmptyStorageTrie D (so_addrHash o1)))"
  by (auto simp: objTrie_def so_getTrie_def Let_def split: option.splits sum.splits)

lemma objTrie_cong:
  assumes "so_trie o2 = so_trie o1" "so_addrHash o2 = so_addrHash o1"
    "acc_Root (so_data o2) = acc_Root (so_data o1)"
  shows "objTrie D o2 = objTrie D o1"
  unfolding objTrie_eq assms ..

lemma codeOf_eq:
  "codeOf D o1 =
     (case so_code o1 of
        Some c \<Rightarrow> Some c
      | None \<Rightarrow>
          if so_CodeHash o1 = emptyCodeHash D then None
          else (case ContractCode D (so_addrHash o1) (BytesToHash (so_CodeHash o1)) of
                  Inl err \<Rightarrow> None | Inr code \<Rightarrow> Some code))"
  by (auto simp: codeOf_def so_Code_def split: option.splits sum.splits)

lemma codeOf_cong:
  assumes "so_code o2 = so_code o1" "so_addrHash o2 = so_addrHash o1"
    "acc_CodeHash (so_data o2) = acc_CodeHash (so_data o1)"
  shows "codeOf D o2 = codeOf D o1"
  unfolding codeOf_eq so_CodeHash_def assms ..

lemma content_origin:
  "committed D sn sd (o1\<lparr>so_originStorage := (so_originStorage o1)(k \<mapsto> committed D sn sd o1 k)\<rparr>) =
    committed D sn sd o1"
  "current D sn sd (o1\<lparr>so_originStorage := (so_originStorage o1)(k \<mapsto> committed D sn sd o1 k)\<rparr>) =
    current D sn sd o1"
proof -
  have l: "slotLoad D sn sd (o1\<lparr>so_originStorage := m\<rparr>) = slotLoad D sn sd o1" for m
    by (intro slotLoad_cong objTrie_cong) simp_all
  show c: "committed D sn sd (o1\<lparr>so_originStorage := (so_originStorage o1)(k \<mapsto> committed D sn sd o1 k)\<rparr>) =
      committed D sn sd o1"
  proof
    fix x
    show "committed D sn sd (o1\<lparr>so_originStorage := (so_originStorage o1)(k \<mapsto> committed D sn sd o1 k)\<rparr>) x =
      committed D sn sd o1 x"
      by (cases "x = k") (auto simp: committed_def l split: option.splits)
  qed
  show "current D sn sd (o1\<lparr>so_originStorage := (so_originStorage o1)(k \<mapsto> committed D sn sd o1 k)\<rparr>) =
      current D sn sd o1"
    unfolding current_def c by simp
qed

text \<open>Objects with the same account data and the same trie, code and storage maps read the same.\<close>

lemma obj_eqI:
  assumes "so_address o2 = so_address o1" "so_addrHash o2 = so_addrHash o1" "so_data o2 = so_data o1"
    "so_suicided o2 = so_suicided o1" "so_deleted o2 = so_deleted o1"
    "so_fakeStorage o1 = None" "so_fakeStorage o2 = None"
    "so_pendingStorage o2 = so_pendingStorage o1" "so_originStorage o2 = so_originStorage o1"
    "so_dirtyStorage o2 = so_dirtyStorage o1" "objTrie D o2 = objTrie D o1" "codeOf D o2 = codeOf D o1"
  shows "obj_eq D sn sd o2 o1"
  using assms content_cong [of o2 o1 D sn sd] by (simp add: obj_eq_def)

lemma obj_eq_setError: "so_fakeStorage o1 = None \<Longrightarrow> obj_eq D sn sd (so_setError o1 e) o1"
  by (intro obj_eqI objTrie_cong codeOf_cong) (simp_all add: so_setError_def)

lemma obj_eq_setTrie:
  "so_fakeStorage o1 = None \<Longrightarrow> obj_eq D sn sd (o1\<lparr>so_trie := Some (objTrie D o1)\<rparr>) o1"
  by (intro obj_eqI codeOf_cong) (simp_all add: objTrie_eq [of D "o1\<lparr>so_trie := Some (objTrie D o1)\<rparr>"])

lemma obj_eq_getTrie:
  assumes "so_fakeStorage o1 = None"
  shows "obj_eq D sn sd (fst (so_getTrie D o1)) o1"
proof -
  let ?t = "o1\<lparr>so_trie := Some (objTrie D o1)\<rparr>"
  have "fst (so_getTrie D o1) = o1 \<or> fst (so_getTrie D o1) = ?t \<or>
    (\<exists>e. fst (so_getTrie D o1) = so_setError ?t e)"
    by (auto simp: so_getTrie_def objTrie_def Let_def split: option.splits sum.splits)
  moreover have "so_fakeStorage ?t = None" using assms by simp
  ultimately show ?thesis
    using obj_eq_refl [OF assms] obj_eq_setTrie [OF assms] obj_eq_setError obj_eq_trans by metis
qed

lemma obj_eq_origin:
  assumes "obj_eq D sn sd o2 o1"
  shows "obj_eq D sn sd (o2\<lparr>so_originStorage := (so_originStorage o2)(k \<mapsto> committed D sn sd o1 k)\<rparr>) o1"
proof -
  have "committed D sn sd o1 = committed D sn sd o2" using assms by (simp add: obj_eq_def)
  then have "committed D sn sd o1 k = committed D sn sd o2 k" by simp
  moreover have "codeOf D (o2\<lparr>so_originStorage := m\<rparr>) = codeOf D o2" for m
    by (intro codeOf_cong) simp_all
  ultimately show ?thesis using assms content_origin [of D sn sd o2 k] unfolding obj_eq_def by simp
qed

text \<open>Reading the committed value of a slot.\<close>

lemma so_GetCommittedState_view:
  assumes "so_fakeStorage o1 = None"
  shows "obj_eq D sn sd (fst (so_GetCommittedState D sn sd o1 k)) o1"
    "snd (so_GetCommittedState D sn sd o1 k) = committed D sn sd o1 k"
proof -
  let ?r = "so_GetCommittedState D sn sd o1 k"
  note rfl = obj_eq_refl [OF assms]
  let ?found = "\<lambda>obj enc. (let (v, err) = decodeSlot enc;
      obj = (case err of None \<Rightarrow> obj | Some _ \<Rightarrow> so_setError obj err)
      in (obj\<lparr>so_originStorage := (so_originStorage obj)(k \<mapsto> v)\<rparr>, v))"
  have found: "obj_eq D sn sd (fst (?found o2 enc)) o1 \<and> snd (?found o2 enc) = committed D sn sd o1 k"
    if "obj_eq D sn sd o2 o1" "fst (decodeSlot enc) = committed D sn sd o1 k" for o2 enc
  proof -
    obtain v err where d: "decodeSlot enc = (v, err)" by fastforce
    have "so_fakeStorage o2 = None" using that(1) by (simp add: obj_eq_def)
    then have "obj_eq D sn sd (so_setError o2 err) o1" using obj_eq_setError obj_eq_trans that(1) by blast
    from obj_eq_origin [OF this, of k] obj_eq_origin [OF that(1), of k] that(2) d show ?thesis
      by (cases err) (simp_all add: Let_def)
  qed
  let ?load = "(let (obj, tr) = so_getTrie D o1
      in case TryGet D tr (hash_Bytes k) of
           Inl err \<Rightarrow> (so_setError obj (Some (ErrTrie err)), 0)
         | Inr enc \<Rightarrow> ?found obj enc)"
  have load: "obj_eq D sn sd (fst ?load) o1 \<and> snd ?load = committed D sn sd o1 k"
    if "committed D sn sd o1 k = slotFromTrie D o1 k"
  proof -
    obtain o2 tr where g: "so_getTrie D o1 = (o2, tr)" by fastforce
    have tr: "tr = objTrie D o1" using g by (simp add: objTrie_def)
    have o2: "obj_eq D sn sd o2 o1" using obj_eq_getTrie [OF assms, of D sn sd] g by simp
    then have f2: "so_fakeStorage o2 = None" by (simp add: obj_eq_def)
    show ?thesis
    proof (cases "TryGet D tr (hash_Bytes k)")
      case (Inl e)
      then show ?thesis using that g tr obj_eq_trans [OF obj_eq_setError [OF f2] o2]
        by (simp add: slotFromTrie_def)
    next
      case (Inr enc)
      have "fst (decodeSlot enc) = committed D sn sd o1 k" using that Inr tr by (simp add: slotFromTrie_def)
      from found [OF o2 this] show ?thesis unfolding g by (simp add: Inr)
    qed
  qed
  have "obj_eq D sn sd (fst ?r) o1 \<and> snd ?r = committed D sn sd o1 k"
  proof (cases "so_pendingStorage o1 k")
    case (Some v)
    with assms rfl show ?thesis by (simp add: so_GetCommittedState_def committed_def)
  next
    case p: None
    show ?thesis
    proof (cases "so_originStorage o1 k")
      case (Some v)
      with assms rfl p show ?thesis by (simp add: so_GetCommittedState_def committed_def)
    next
      case o: None
      have c: "committed D sn sd o1 k = slotLoad D sn sd o1 k" using p o by (simp add: committed_def)
      show ?thesis
      proof (cases sn)
        case None
        then have "?r = ?load" using assms p o unfolding so_GetCommittedState_def Let_def by simp
        moreover have "committed D sn sd o1 k = slotFromTrie D o1 k" using c None by (simp add: slotLoad_def)
        ultimately show ?thesis using load by simp
      next
        case (Some s)
        show ?thesis
        proof (cases "so_addrHash o1 \<in> sd")
          case True
          with Some assms p o c rfl show ?thesis by (simp add: so_GetCommittedState_def slotLoad_def)
        next
          case False
          show ?thesis
          proof (cases "snap_Storage s (so_addrHash o1) (keccak256 D (hash_Bytes k))")
            case (Inl e)
            then have "?r = ?load" using Some False assms p o unfolding so_GetCommittedState_def Let_def by simp
            moreover have "committed D sn sd o1 k = slotFromTrie D o1 k"
              using c Some False Inl by (simp add: slotLoad_def)
            ultimately show ?thesis using load by simp
          next
            case (Inr enc)
            then have "?r = ?found o1 enc" using Some False assms p o unfolding so_GetCommittedState_def Let_def by simp
            moreover have "fst (decodeSlot enc) = committed D sn sd o1 k"
              using c Some False Inr by (simp add: slotLoad_def)
            ultimately show ?thesis using found [OF rfl] by simp
          qed
        qed
      qed
    qed
  qed
  then show "obj_eq D sn sd (fst ?r) o1" "snd ?r = committed D sn sd o1 k" by auto
qed

lemma so_GetState_view:
  assumes "so_fakeStorage o1 = None"
  shows "obj_eq D sn sd (fst (so_GetState D sn sd o1 k)) o1"
    "snd (so_GetState D sn sd o1 k) = current D sn sd o1 k"
  using so_GetCommittedState_view [OF assms] assms obj_eq_refl [OF assms]
  by (auto simp: so_GetState_def current_def split: option.splits)

lemma so_Code_view:
  assumes "so_fakeStorage o1 = None"
  shows "obj_eq D sn sd (fst (so_Code D o1)) o1"
    "snd (so_Code D o1) = codeOf D o1"
proof -
  have "obj_eq D sn sd (o1\<lparr>so_code := Some c\<rparr>) o1" if "codeOf D o1 = Some c" for c
    using assms that
    by (intro obj_eqI objTrie_cong) (simp_all add: codeOf_eq [of D "o1\<lparr>so_code := Some c\<rparr>"])
  with obj_eq_refl [OF assms] obj_eq_setError [OF assms]
  show "obj_eq D sn sd (fst (so_Code D o1)) o1"
    by (auto simp: so_Code_def codeOf_eq split: option.splits sum.splits)
  show "snd (so_Code D o1) = codeOf D o1" by (simp add: codeOf_def)
qed

lemma so_CodeSize_view:
  assumes "so_fakeStorage o1 = None"
  shows "obj_eq D sn sd (fst (so_CodeSize D o1)) o1"
  using obj_eq_refl [OF assms] obj_eq_setError [OF assms]
  by (auto simp: so_CodeSize_def split: option.splits prod.splits)

section \<open>Content of the state\<close>

text \<open>The account found in the snapshot or the trie when no live object exists.\<close>

definition dbAccount :: "'t backend \<Rightarrow> 't \<Rightarrow> snapshot option \<Rightarrow> address \<Rightarrow> Account option" where
  "dbAccount D tr sn a =
     (let fromTrie = (case TryGet D tr (address_Bytes a) of
                        Inl err \<Rightarrow> None
                      | Inr enc \<Rightarrow> if enc = [] then None
                                   else (case decodeAccount enc of Inl err \<Rightarrow> None | Inr data \<Rightarrow> Some data))
      in case sn of
           None \<Rightarrow> fromTrie
         | Some s \<Rightarrow> (case snap_Account s (keccak256 D (address_Bytes a)) of
                        Inl err \<Rightarrow> fromTrie
                      | Inr None \<Rightarrow> None
                      | Inr (Some acc) \<Rightarrow> Some (slimToAccount D acc)))"

definition look :: "'t backend \<Rightarrow> 't StateDB \<Rightarrow> address \<Rightarrow> 't stateObject option" where
  "look D s a =
     (case s_stateObjects s a of
        Some o1 \<Rightarrow> Some o1
      | None \<Rightarrow> map_option (newObject D a) (dbAccount D (s_trie s) (s_snap s) a))"

definition logsOf :: "'t StateDB \<Rightarrow> hash \<Rightarrow> Log list" where
  "logsOf s h = (case s_logs s h of None \<Rightarrow> [] | Some ls \<Rightarrow> ls)"

definition sdb_eq :: "'t backend \<Rightarrow> 't StateDB \<Rightarrow> 't StateDB \<Rightarrow> bool" where
  "sdb_eq D s t \<longleftrightarrow>
     s_trie s = s_trie t \<and> s_snap s = s_snap t \<and> s_snapDestructs s = s_snapDestructs t \<and>
     s_snapAccounts s = s_snapAccounts t \<and> s_snapStorage s = s_snapStorage t \<and>
     s_stateObjectsPending s = s_stateObjectsPending t \<and>
     s_refund s = s_refund t \<and> s_thash s = s_thash t \<and> s_txIndex s = s_txIndex t \<and>
     logsOf s = logsOf t \<and> s_logSize s = s_logSize t \<and> s_preimages s = s_preimages t \<and>
     s_accessList s = s_accessList t \<and>
     (\<forall>a. rel_option (obj_eq D (s_snap s) (s_snapDestructs s)) (look D s a) (look D t a))"

text \<open>
  Well-formed objects: the address and its hash belong to the key, there is no debugging storage,
  and the code hash is a hash.
\<close>

definition obj_wf :: "'t backend \<Rightarrow> address \<Rightarrow> 't stateObject \<Rightarrow> bool" where
  "obj_wf D a o1 \<longleftrightarrow>
     so_address o1 = a \<and> so_addrHash o1 = keccak256 D (address_Bytes a) \<and> so_fakeStorage o1 = None \<and>
     (\<exists>h. acc_CodeHash (so_data o1) = Some (hash_Bytes h))"

text \<open>The accounts of the backing store carry a code hash of 32 bytes.\<close>

definition store_wf :: "'t backend \<Rightarrow> 't \<Rightarrow> snapshot option \<Rightarrow> bool" where
  "store_wf D tr sn \<longleftrightarrow>
     (\<forall>a data. dbAccount D tr sn a = Some data \<longrightarrow> (\<exists>h. acc_CodeHash data = Some (hash_Bytes h)))"

definition sdb_wf :: "'t backend \<Rightarrow> 't StateDB \<Rightarrow> bool" where
  "sdb_wf D s \<longleftrightarrow>
     (\<forall>a o1. s_stateObjects s a = Some o1 \<longrightarrow> obj_wf D a o1) \<and>
     store_wf D (s_trie s) (s_snap s)"

text \<open>Keccak does not map two addresses to the same hash.\<close>

definition addrHash_inj :: "'t backend \<Rightarrow> bool" where
  "addrHash_inj D \<longleftrightarrow> inj (\<lambda>a :: address. keccak256 D (address_Bytes a))"

lemma newObject_sel [simp]:
  "so_address (newObject D a data) = a"
  "so_addrHash (newObject D a data) = keccak256 D (address_Bytes a)"
  "so_fakeStorage (newObject D a data) = None"
  "so_suicided (newObject D a data) = False"
  "so_deleted (newObject D a data) = False"
  "so_pendingStorage (newObject D a data) = (\<lambda>_. None)"
  "so_originStorage (newObject D a data) = (\<lambda>_. None)"
  "so_dirtyStorage (newObject D a data) = (\<lambda>_. None)"
  "so_code (newObject D a data) = None" "so_trie (newObject D a data) = None"
  "acc_Nonce (so_data (newObject D a data)) = acc_Nonce data"
  "acc_Balance (so_data (newObject D a data)) = acc_Balance data"
  by (simp_all add: newObject_def Let_def)

lemma newObject_CodeHash:
  "acc_CodeHash (so_data (newObject D a data)) =
     Some (case acc_CodeHash data of None \<Rightarrow> emptyCodeHash D | Some h \<Rightarrow> h)"
  by (simp add: newObject_def Let_def split: option.splits)

lemma obj_wf_newObject:
  "(\<exists>h. acc_CodeHash data = Some (hash_Bytes h)) \<or> acc_CodeHash data = None \<Longrightarrow> obj_wf D a (newObject D a data)"
  by (auto simp: obj_wf_def newObject_CodeHash emptyCodeHash_def)

lemma obj_wf_look: "sdb_wf D s \<Longrightarrow> look D s a = Some o1 \<Longrightarrow> obj_wf D a o1"
  by (auto simp: look_def sdb_wf_def store_wf_def intro!: obj_wf_newObject split: option.splits)

lemma obj_wf_eq: "obj_eq D sn sd o1 o2 \<Longrightarrow> obj_wf D a o2 \<Longrightarrow> obj_wf D a o1"
  by (auto simp: obj_eq_def obj_wf_def)

lemma look_fake: "sdb_wf D s \<Longrightarrow> look D s a = Some o1 \<Longrightarrow> so_fakeStorage o1 = None"
  using obj_wf_look by (auto simp: obj_wf_def)

lemma sdb_eq_refl: "sdb_wf D s \<Longrightarrow> sdb_eq D s s"
  by (auto simp: sdb_eq_def option.rel_sel intro!: obj_eq_refl look_fake)

lemma sdb_eq_sym: "sdb_eq D s t \<Longrightarrow> sdb_eq D t s"
proof -
  assume st: "sdb_eq D s t"
  have "rel_option (obj_eq D (s_snap s) (s_snapDestructs s)) (look D t a) (look D s a)" for a
  proof -
    have "rel_option (obj_eq D (s_snap s) (s_snapDestructs s)) (look D s a) (look D t a)"
      using st unfolding sdb_eq_def by blast
    then show ?thesis
      by (cases "look D s a"; cases "look D t a") (auto intro: obj_eq_sym)
  qed
  with st show ?thesis by (simp add: sdb_eq_def)
qed

lemma sdb_eq_trans:
  assumes "sdb_eq D s t" "sdb_eq D t u"
  shows "sdb_eq D s u"
proof -
  have "rel_option (obj_eq D (s_snap s) (s_snapDestructs s)) (look D s a) (look D u a)" for a
  proof -
    have "rel_option (obj_eq D (s_snap s) (s_snapDestructs s)) (look D s a) (look D t a)"
      "rel_option (obj_eq D (s_snap s) (s_snapDestructs s)) (look D t a) (look D u a)"
      using assms by (auto simp: sdb_eq_def)
    then show ?thesis
      by (cases "look D s a"; cases "look D t a"; cases "look D u a") (auto intro: obj_eq_trans)
  qed
  with assms show ?thesis by (simp add: sdb_eq_def)
qed

text \<open>Equivalence when only live objects and unobserved fields differ.\<close>

lemma sdb_eqI:
  assumes "s_trie t = s_trie s" "s_snap t = s_snap s" "s_snapDestructs t = s_snapDestructs s"
    "s_snapAccounts t = s_snapAccounts s" "s_snapStorage t = s_snapStorage s"
    "s_stateObjectsPending t = s_stateObjectsPending s" "s_refund t = s_refund s"
    "s_thash t = s_thash s" "s_txIndex t = s_txIndex s" "logsOf t = logsOf s"
    "s_logSize t = s_logSize s" "s_preimages t = s_preimages s" "s_accessList t = s_accessList s"
    "\<And>a. rel_option (obj_eq D (s_snap s) (s_snapDestructs s)) (look D t a) (look D s a)"
  shows "sdb_eq D t s"
  unfolding sdb_eq_def using assms by simp

lemma look_at:
  assumes "s_stateObjects t b = s_stateObjects s b" "s_trie t = s_trie s" "s_snap t = s_snap s"
  shows "look D t b = look D s b"
  unfolding look_def assms ..

lemma look_frame:
  assumes "s_stateObjects t = s_stateObjects s" "s_trie t = s_trie s" "s_snap t = s_snap s"
  shows "look D t = look D s"
  unfolding look_def assms ..

lemma look_update:
  assumes "s_stateObjects t = (s_stateObjects s)(a \<mapsto> o1)" "s_trie t = s_trie s" "s_snap t = s_snap s"
  shows "look D t b = (if b = a then Some o1 else look D s b)"
  unfolding look_def assms by simp

lemma rel_option_obj_eq_refl:
  "sdb_wf D s \<Longrightarrow> rel_option (obj_eq D sn sd) (look D s a) (look D s a)"
  by (auto simp: option.rel_sel intro!: obj_eq_refl look_fake)

text \<open>Changing the journal, the revisions or the error field is not observed.\<close>

definition unobserved :: "'t StateDB \<Rightarrow> 't StateDB \<Rightarrow> bool" where
  "unobserved s t \<longleftrightarrow>
     s_trie t = s_trie s \<and> s_snap t = s_snap s \<and> s_snapDestructs t = s_snapDestructs s \<and>
     s_snapAccounts t = s_snapAccounts s \<and> s_snapStorage t = s_snapStorage s \<and>
     s_stateObjects t = s_stateObjects s \<and> s_stateObjectsPending t = s_stateObjectsPending s \<and>
     s_refund t = s_refund s \<and> s_thash t = s_thash s \<and> s_txIndex t = s_txIndex s \<and>
     s_logs t = s_logs s \<and> s_logSize t = s_logSize s \<and> s_preimages t = s_preimages s \<and>
     s_accessList t = s_accessList s"

lemma sdb_eq_unobserved:
  assumes "sdb_wf D s" "unobserved s t"
  shows "sdb_eq D t s" "sdb_wf D t"
proof -
  note u = assms(2) [unfolded unobserved_def]
  have "look D t = look D s" using u by (intro look_frame) auto
  moreover have "logsOf t = logsOf s" using u by (intro ext) (simp add: logsOf_def)
  ultimately show "sdb_eq D t s"
    using u rel_option_obj_eq_refl [OF assms(1)] by (intro sdb_eqI) auto
  show "sdb_wf D t" using assms(1) u by (simp add: sdb_wf_def)
qed

text \<open>Replacing a live object by an equivalent one is not observed.\<close>

lemma putObject_sel [simp]:
  "s_trie (putObject s a o1) = s_trie s" "s_snap (putObject s a o1) = s_snap s"
  "s_snapDestructs (putObject s a o1) = s_snapDestructs s"
  "s_snapAccounts (putObject s a o1) = s_snapAccounts s"
  "s_snapStorage (putObject s a o1) = s_snapStorage s"
  "s_stateObjects (putObject s a o1) = (s_stateObjects s)(a \<mapsto> o1)"
  "s_stateObjectsPending (putObject s a o1) = s_stateObjectsPending s"
  "s_stateObjectsDirty (putObject s a o1) = s_stateObjectsDirty s"
  "s_dbErr (putObject s a o1) = s_dbErr s"
  "s_refund (putObject s a o1) = s_refund s" "s_thash (putObject s a o1) = s_thash s"
  "s_txIndex (putObject s a o1) = s_txIndex s" "s_logs (putObject s a o1) = s_logs s"
  "s_logSize (putObject s a o1) = s_logSize s" "s_preimages (putObject s a o1) = s_preimages s"
  "s_accessList (putObject s a o1) = s_accessList s" "s_journal (putObject s a o1) = s_journal s"
  "s_validRevisions (putObject s a o1) = s_validRevisions s"
  "s_nextRevisionId (putObject s a o1) = s_nextRevisionId s"
  "logsOf (putObject s a o1) = logsOf s"
  by (simp_all add: putObject_def logsOf_def fun_eq_iff)

lemma setStateObject_put: "setStateObject s o1 = putObject s (so_address o1) o1"
  by (simp add: setStateObject_def putObject_def)

lemma look_putObject: "look D (putObject s a o1) b = (if b = a then Some o1 else look D s b)"
  by (rule look_update) simp_all

lemma sdb_wf_putObject: "sdb_wf D s \<Longrightarrow> obj_wf D a o1 \<Longrightarrow> sdb_wf D (putObject s a o1)"
  by (simp add: sdb_wf_def)

lemma sdb_eq_putObject:
  assumes "sdb_wf D s" "look D s a = Some o1" "obj_eq D (s_snap s) (s_snapDestructs s) o2 o1"
  shows "sdb_eq D (putObject s a o2) s"
  using assms rel_option_obj_eq_refl [OF assms(1)]
  by (intro sdb_eqI) (simp_all add: look_putObject)

section \<open>Loading and reading accounts\<close>

lemma setError_unobserved: "unobserved s (setError s e)"
  by (simp add: unobserved_def setError_def)

lemma getDeletedStateObject_cases:
  obtains (live) o1 where "s_stateObjects s a = Some o1" "getDeletedStateObject D s a = (s, Some o1)"
  | (loaded) data where "s_stateObjects s a = None" "dbAccount D (s_trie s) (s_snap s) a = Some data"
      "getDeletedStateObject D s a = (putObject s a (newObject D a data), Some (newObject D a data))"
  | (absent) s' where "s_stateObjects s a = None" "dbAccount D (s_trie s) (s_snap s) a = None"
      "getDeletedStateObject D s a = (s', None)" "s' = s \<or> (\<exists>e. s' = setError s e)"
proof (cases "s_stateObjects s a")
  case (Some o1)
  then show ?thesis by (intro live) (simp_all add: getDeletedStateObject_def)
next
  case None
  let ?g = "getDeletedStateObject D s a"
  have "(\<exists>data. dbAccount D (s_trie s) (s_snap s) a = Some data \<and>
        ?g = (putObject s a (newObject D a data), Some (newObject D a data))) \<or>
      (dbAccount D (s_trie s) (s_snap s) a = None \<and> (?g = (s, None) \<or> (\<exists>e. ?g = (setError s e, None))))"
    using None
    by (auto simp: getDeletedStateObject_def dbAccount_def Let_def setStateObject_put
        split: option.splits sum.splits)
  then show ?thesis using None loaded absent by blast
qed

lemma getDeletedStateObject_view:
  assumes "sdb_wf D s" "getDeletedStateObject D s a = (s', r)"
  shows "r = look D s a" "sdb_eq D s' s" "sdb_wf D s'" "s_journal s' = s_journal s"
    "s_validRevisions s' = s_validRevisions s" "s_nextRevisionId s' = s_nextRevisionId s"
    "r \<noteq> None \<Longrightarrow> s_stateObjects s' a = r"
proof -
  have "r = look D s a \<and> sdb_eq D s' s \<and> sdb_wf D s' \<and> s_journal s' = s_journal s \<and>
    s_validRevisions s' = s_validRevisions s \<and> s_nextRevisionId s' = s_nextRevisionId s \<and>
    (r \<noteq> None \<longrightarrow> s_stateObjects s' a = r)"
  proof (cases rule: getDeletedStateObject_cases [of s a D])
    case (live o1)
    then have "look D s a = Some o1" by (simp add: look_def)
    with live assms sdb_eq_refl [OF assms(1)] show ?thesis by simp
  next
    case (loaded data)
    let ?o = "newObject D a data"
    have l: "look D s a = Some ?o" using loaded by (simp add: look_def)
    have "obj_wf D a ?o" using obj_wf_look [OF assms(1) l] .
    with loaded assms l sdb_eq_putObject [OF assms(1) l obj_eq_refl] show ?thesis
      by (auto intro: sdb_wf_putObject)
  next
    case (absent t)
    then have "look D s a = None" by (simp add: look_def)
    with absent assms sdb_eq_refl [OF assms(1)] sdb_eq_unobserved [OF assms(1) setError_unobserved]
    show ?thesis by (auto simp: setError_def)
  qed
  then show "r = look D s a" "sdb_eq D s' s" "sdb_wf D s'" "s_journal s' = s_journal s"
    "s_validRevisions s' = s_validRevisions s" "s_nextRevisionId s' = s_nextRevisionId s"
    "r \<noteq> None \<Longrightarrow> s_stateObjects s' a = r" by auto
qed

text \<open>The live account at an address, as \<open>getStateObject\<close> returns it.\<close>

definition account :: "'t backend \<Rightarrow> 't StateDB \<Rightarrow> address \<Rightarrow> 't stateObject option" where
  "account D s a =
     (case look D s a of None \<Rightarrow> None | Some o1 \<Rightarrow> if so_deleted o1 then None else Some o1)"

lemma getStateObject_view:
  assumes "sdb_wf D s" "getStateObject D s a = (s', r)"
  shows "r = account D s a" "sdb_eq D s' s" "sdb_wf D s'" "s_journal s' = s_journal s"
    "s_validRevisions s' = s_validRevisions s" "s_nextRevisionId s' = s_nextRevisionId s"
    "r \<noteq> None \<Longrightarrow> s_stateObjects s' a = r"
proof -
  obtain q where g: "getDeletedStateObject D s a = (s', q)"
    "r = (case q of None \<Rightarrow> None | Some o1 \<Rightarrow> if so_deleted o1 then None else Some o1)"
    using assms(2) by (auto simp: getStateObject_def split: prod.splits option.splits if_splits)
  note v = getDeletedStateObject_view [OF assms(1) g(1)]
  from v g(2) show "r = account D s a" "sdb_eq D s' s" "sdb_wf D s'" "s_journal s' = s_journal s"
    "s_validRevisions s' = s_validRevisions s" "s_nextRevisionId s' = s_nextRevisionId s"
    "r \<noteq> None \<Longrightarrow> s_stateObjects s' a = r"
    by (auto simp: account_def split: option.splits if_splits)
qed

end
