(* ===== verification/StateRevert.thy ===== *)
theory StateRevert
  imports StateView
begin

text \<open>
  Snapshots and reverts: every operation appends journal entries whose reverts, applied in
  reverse order, give back an equivalent state.  The theory proves that reverting respects
  equivalence, that each operation can be undone, and that \<open>RevertToSnapshot\<close> restores the state
  of the matching \<open>Snapshot\<close> after any sequence of operations.
\<close>

section \<open>Object updates respect equivalence\<close>

lemma obj_eq_setBalance:
  assumes "obj_eq D sn sd o1 o2"
  shows "obj_eq D sn sd (so_setBalance o1 b) (so_setBalance o2 b)"
proof -
  have "committed D sn sd (so_setBalance x b) = committed D sn sd x"
    "current D sn sd (so_setBalance x b) = current D sn sd x" for x
    by (intro content_cong objTrie_cong; simp add: so_setBalance_def)+
  moreover have "codeOf D (so_setBalance x b) = codeOf D x" for x
    by (intro codeOf_cong) (simp_all add: so_setBalance_def)
  ultimately show ?thesis using assms by (simp add: obj_eq_def) (simp add: so_setBalance_def)
qed

lemma obj_eq_setNonce:
  assumes "obj_eq D sn sd o1 o2"
  shows "obj_eq D sn sd (so_setNonce o1 n) (so_setNonce o2 n)"
proof -
  have "committed D sn sd (so_setNonce x n) = committed D sn sd x"
    "current D sn sd (so_setNonce x n) = current D sn sd x" for x
    by (intro content_cong objTrie_cong; simp add: so_setNonce_def)+
  moreover have "codeOf D (so_setNonce x n) = codeOf D x" for x
    by (intro codeOf_cong) (simp_all add: so_setNonce_def)
  ultimately show ?thesis using assms by (simp add: obj_eq_def) (simp add: so_setNonce_def)
qed

lemma obj_eq_setSuicided:
  assumes "obj_eq D sn sd o1 o2"
  shows "obj_eq D sn sd (o1\<lparr>so_suicided := b\<rparr>) (o2\<lparr>so_suicided := b\<rparr>)"
proof -
  have "committed D sn sd (x\<lparr>so_suicided := b\<rparr>) = committed D sn sd x"
    "current D sn sd (x\<lparr>so_suicided := b\<rparr>) = current D sn sd x" for x
    by (intro content_cong objTrie_cong; simp)+
  moreover have "codeOf D (x\<lparr>so_suicided := b\<rparr>) = codeOf D x" for x
    by (intro codeOf_cong) simp_all
  ultimately show ?thesis using assms by (simp add: obj_eq_def)
qed

lemma committed_setState: "committed D sn sd (so_setState x k v) = committed D sn sd x"
  by (intro content_cong objTrie_cong; simp add: so_setState_def)

lemma current_setState: "current D sn sd (so_setState x k v) = (current D sn sd x)(k := v)"
  unfolding current_def committed_setState by (rule ext) (simp add: so_setState_def)

lemma obj_eq_setState:
  assumes "obj_eq D sn sd o1 o2"
  shows "obj_eq D sn sd (so_setState o1 k v) (so_setState o2 k v)"
proof -
  have "codeOf D (so_setState x k v) = codeOf D x" for x
    by (intro codeOf_cong) (simp_all add: so_setState_def)
  with assms show ?thesis
    by (simp add: obj_eq_def committed_setState current_setState) (simp add: so_setState_def)
qed

lemma obj_eq_setCode:
  assumes "obj_eq D sn sd o1 o2"
  shows "obj_eq D sn sd (so_setCode o1 h c) (so_setCode o2 h c)"
proof -
  have "committed D sn sd (so_setCode x h c) = committed D sn sd x"
    "current D sn sd (so_setCode x h c) = current D sn sd x" for x
    by (intro content_cong objTrie_cong; simp add: so_setCode_def)+
  moreover have "codeOf D (so_setCode o1 h c) = codeOf D (so_setCode o2 h c)"
    using assms by (intro codeOf_cong) (simp_all add: so_setCode_def obj_eq_def)
  ultimately show ?thesis using assms by (simp add: obj_eq_def) (simp add: so_setCode_def)
qed

lemma obj_wf_updates:
  assumes "obj_wf D a o1"
  shows "obj_wf D a (so_setBalance o1 b)" "obj_wf D a (so_setNonce o1 n)"
    "obj_wf D a (o1\<lparr>so_suicided := x\<rparr>)" "obj_wf D a (so_setState o1 k v)" "obj_wf D a (so_setCode o1 h c)"
  using assms
  by (auto simp: obj_wf_def so_setBalance_def so_setNonce_def so_setState_def so_setCode_def)

section \<open>State updates respect equivalence\<close>

lemma sdb_eqD:
  assumes "sdb_eq D s t"
  shows "s_trie s = s_trie t" "s_snap s = s_snap t" "s_snapDestructs s = s_snapDestructs t"
    "s_snapAccounts s = s_snapAccounts t" "s_snapStorage s = s_snapStorage t"
    "s_stateObjectsPending s = s_stateObjectsPending t"
    "s_refund s = s_refund t" "s_thash s = s_thash t" "s_txIndex s = s_txIndex t"
    "logsOf s = logsOf t" "s_logSize s = s_logSize t" "s_preimages s = s_preimages t"
    "s_accessList s = s_accessList t"
    "rel_option (obj_eq D (s_snap s) (s_snapDestructs s)) (look D s a) (look D t a)"
  using assms unfolding sdb_eq_def by blast+

lemma account_eq:
  assumes "sdb_eq D s t"
  shows "rel_option (obj_eq D (s_snap s) (s_snapDestructs s)) (account D s a) (account D t a)"
  using sdb_eqD(14) [OF assms, of a]
  by (cases "look D s a"; cases "look D t a") (auto simp: account_def obj_eq_def)

lemma sdb_eq_put2:
  assumes "sdb_eq D s t" "obj_eq D (s_snap s) (s_snapDestructs s) o1 o2"
  shows "sdb_eq D (putObject s a o1) (putObject t a o2)"
proof -
  have "rel_option (obj_eq D (s_snap s) (s_snapDestructs s)) (look D (putObject s a o1) b) (look D (putObject t a o2) b)" for b
    using sdb_eqD(14) [OF assms(1), of b] assms(2) by (simp add: look_putObject)
  then show ?thesis using assms(1) unfolding sdb_eq_def by simp
qed

lemma withObject_cong:
  assumes eq: "sdb_eq D s t" and wf: "sdb_wf D s" "sdb_wf D t"
    and f: "\<And>o1 o2. obj_eq D (s_snap s) (s_snapDestructs s) o1 o2 \<Longrightarrow>
        obj_eq D (s_snap s) (s_snapDestructs s) (f o1) (f o2)"
      "\<And>o1. obj_wf D a o1 \<Longrightarrow> obj_wf D a (f o1)"
    and r: "withObject D s a f = Ok s'"
  shows "\<exists>t'. withObject D t a f = Ok t' \<and> sdb_eq D s' t' \<and> sdb_wf D s' \<and> sdb_wf D t'"
proof -
  obtain s1 q1 where g1: "getStateObject D s a = (s1, q1)" by fastforce
  obtain t1 q2 where g2: "getStateObject D t a = (t1, q2)" by fastforce
  note v1 = getStateObject_view [OF wf(1) g1] and v2 = getStateObject_view [OF wf(2) g2]
  from r g1 obtain o1 where o1: "q1 = Some o1" "s' = putObject s1 a (f o1)"
    by (auto simp: withObject_def split: option.splits)
  have rel: "rel_option (obj_eq D (s_snap s) (s_snapDestructs s)) q1 q2"
    using account_eq [OF eq, of a] v1(1) v2(1) by simp
  then obtain o2 where o2: "q2 = Some o2" "obj_eq D (s_snap s) (s_snapDestructs s) o1 o2"
    using o1(1) by (cases q2) auto
  have wo: "obj_wf D a o1" "obj_wf D a o2"
    using v1(3,7) v2(3,7) o1(1) o2(1) by (auto simp: sdb_wf_def)
  have "sdb_eq D s1 t1" using sdb_eq_trans [OF v1(2) sdb_eq_trans [OF eq sdb_eq_sym [OF v2(2)]]] .
  moreover have "s_snap s1 = s_snap s" "s_snapDestructs s1 = s_snapDestructs s"
    using sdb_eqD [OF v1(2)] by auto
  ultimately have "sdb_eq D s' (putObject t1 a (f o2))"
    unfolding o1(2) using f(1) [OF o2(2)] by (intro sdb_eq_put2) simp_all
  moreover have "sdb_wf D s'" "sdb_wf D (putObject t1 a (f o2))"
    unfolding o1(2) using v1(3) v2(3) wo f(2) by (auto intro!: sdb_wf_putObject)
  ultimately show ?thesis using g2 o2(1) by (simp add: withObject_def)
qed

definition entry_wf :: "'t backend \<Rightarrow> 't journalEntry \<Rightarrow> bool" where
  "entry_wf D e = (case e of ResetObjectChange prev d \<Rightarrow> obj_wf D (so_address prev) prev | _ \<Rightarrow> True)"

text \<open>Objects at other addresses do not depend on the destruct mark of this address.\<close>

lemma obj_eq_destructs:
  assumes "obj_eq D sn sd o1 o2" "so_addrHash o1 \<in> sd \<longleftrightarrow> so_addrHash o1 \<in> sd'"
  shows "obj_eq D sn sd' o1 o2"
proof -
  have c: "committed D sn sd' x = committed D sn sd x" if "so_addrHash x = so_addrHash o1" for x
  proof -
    have l: "slotLoad D sn sd' x = slotLoad D sn sd x"
      using assms(2) that by (intro ext) (simp add: slotLoad_def split: option.splits)
    show ?thesis unfolding committed_def l ..
  qed
  have "current D sn sd' x = current D sn sd x" if "so_addrHash x = so_addrHash o1" for x
    unfolding current_def c [OF that] ..
  with c assms(1) show ?thesis by (simp add: obj_eq_def)
qed

text \<open>Reverting an entry in equivalent states succeeds in both and gives equivalent states.\<close>

lemma revert_create_cong:
  assumes "sdb_eq D s t" "sdb_wf D s" "sdb_wf D t"
    "s' = s\<lparr>s_stateObjects := (s_stateObjects s)(a := None), s_stateObjectsDirty := d\<rparr>"
    "t' = t\<lparr>s_stateObjects := (s_stateObjects t)(a := None), s_stateObjectsDirty := d'\<rparr>"
  shows "sdb_eq D s' t'" "sdb_wf D s'" "sdb_wf D t'"
proof -
  show "sdb_wf D s'" "sdb_wf D t'" using assms by (auto simp: sdb_wf_def)
  have "rel_option (obj_eq D (s_snap s) (s_snapDestructs s)) (look D s' b) (look D t' b)" for b
  proof (cases "b = a")
    case True
    have "look D s' a = map_option (newObject D a) (dbAccount D (s_trie s) (s_snap s) a)"
      "look D t' a = map_option (newObject D a) (dbAccount D (s_trie s) (s_snap s) a)"
      using assms(4,5) sdb_eqD(1,2) [OF assms(1)] by (simp_all add: look_def)
    with True show ?thesis
      by (cases "dbAccount D (s_trie s) (s_snap s) a") (simp_all add: obj_eq_refl)
  next
    case False
    then have "look D s' b = look D s b" "look D t' b = look D t b"
      using assms(4,5) by (intro look_at; simp)+
    with sdb_eqD(14) [OF assms(1), of b] show ?thesis by simp
  qed
  moreover have "logsOf s' = logsOf s" "logsOf t' = logsOf t"
    unfolding logsOf_def assms(4,5) by simp_all
  ultimately show "sdb_eq D s' t'"
    using sdb_eqD [OF assms(1)] unfolding sdb_eq_def assms(4,5) by simp
qed

lemma revert_reset_cong:
  assumes eq: "sdb_eq D s t" and wf: "sdb_wf D s" "sdb_wf D t" and inj: "addrHash_inj D"
    and p: "obj_wf D a prev"
    and s': "s' = (putObject s a prev)\<lparr>s_snapDestructs := s_snapDestructs s - {so_addrHash prev}\<rparr>"
    and t': "t' = (putObject t a prev)\<lparr>s_snapDestructs := s_snapDestructs t - {so_addrHash prev}\<rparr>"
  shows "sdb_eq D s' t'" "sdb_wf D s'" "sdb_wf D t'"
proof -
  show "sdb_wf D s'" "sdb_wf D t'" using wf p by (auto simp: s' t' sdb_wf_def)
  let ?sd = "s_snapDestructs s - {so_addrHash prev}"
  have lk: "look D s' b = (if b = a then Some prev else look D s b)"
    "look D t' b = (if b = a then Some prev else look D t b)" for b
    unfolding s' t' by (intro look_update; simp)+
  have "rel_option (obj_eq D (s_snap s) ?sd) (look D s' b) (look D t' b)" for b
  proof (cases "b = a")
    case True
    with p show ?thesis by (simp add: lk obj_eq_refl obj_wf_def)
  next
    case False
    have "obj_eq D (s_snap s) ?sd o1 o2"
      if "look D s b = Some o1" "obj_eq D (s_snap s) (s_snapDestructs s) o1 o2" for o1 o2
    proof (rule obj_eq_destructs [OF that(2)])
      have "so_addrHash o1 = keccak256 D (address_Bytes b)" using obj_wf_look [OF wf(1) that(1)]
        by (simp add: obj_wf_def)
      then have "so_addrHash o1 \<noteq> so_addrHash prev"
        using p False inj by (auto simp: obj_wf_def addrHash_inj_def inj_def)
      then show "so_addrHash o1 \<in> s_snapDestructs s \<longleftrightarrow> so_addrHash o1 \<in> ?sd" by simp
    qed
    with False sdb_eqD(14) [OF eq, of b] show ?thesis
      by (cases "look D s b"; cases "look D t b") (simp_all add: lk)
  qed
  moreover have "logsOf s' = logsOf s" "logsOf t' = logsOf t"
    by (simp_all add: logsOf_def s' t' fun_eq_iff)
  ultimately show "sdb_eq D s' t'"
    using sdb_eqD [OF eq] unfolding sdb_eq_def by (simp add: s' t')
qed

lemma logsOf_update:
  "logsOf (s\<lparr>s_logs := (s_logs s)(h := x), s_logSize := n\<rparr>) =
     (logsOf s)(h := (case x of None \<Rightarrow> [] | Some ls \<Rightarrow> ls))"
  by (rule ext) (simp add: logsOf_def)

text \<open>States that differ in observed fields other than the objects.\<close>

lemma sdb_eq_fields:
  assumes "sdb_eq D s t" "sdb_wf D s" "sdb_wf D t"
    "s' = s\<lparr>s_refund := rf, s_logs := lga, s_logSize := n, s_preimages := p, s_accessList := al\<rparr>"
    "t' = t\<lparr>s_refund := rf, s_logs := lgb, s_logSize := n, s_preimages := p, s_accessList := al\<rparr>"
    "logsOf s' = logsOf t'"
  shows "sdb_eq D s' t'" "sdb_wf D s'" "sdb_wf D t'"
proof -
  show "sdb_wf D s'" "sdb_wf D t'" using assms by (auto simp: sdb_wf_def)
  have "look D s' = look D s" "look D t' = look D t"
    using assms(4,5) by (intro look_frame; simp)+
  then show "sdb_eq D s' t'"
    using sdb_eqD [OF assms(1)] assms(6) unfolding sdb_eq_def assms(4,5) by simp
qed

lemma logsOf_eqI: "s_logs s = s_logs t \<Longrightarrow> logsOf s = logsOf t"
  by (simp add: logsOf_def fun_eq_iff)

lemma entry_revert_cong:
  assumes eq: "sdb_eq D s t" and wf: "sdb_wf D s" "sdb_wf D t" and inj: "addrHash_inj D"
    and e: "entry_wf D e" and r: "entry_revert D e s = Ok s'"
  shows "\<exists>t'. entry_revert D e t = Ok t' \<and> sdb_eq D s' t' \<and> sdb_wf D s' \<and> sdb_wf D t'"
proof (cases e)
  case (CreateObjectChange a)
  with r revert_create_cong [OF eq wf] show ?thesis by (auto simp del: fun_upd_apply)
next
  case (ResetObjectChange prev pd)
  let ?a = "so_address prev"
  have p: "obj_wf D ?a prev" using e ResetObjectChange by (simp add: entry_wf_def)
  have sn: "s_snap t = s_snap s" using sdb_eqD(2) [OF eq] by simp
  show ?thesis
  proof (cases "\<not> pd \<and> s_snap s \<noteq> None")
    case True
    with r ResetObjectChange sn revert_reset_cong [OF eq wf inj p] show ?thesis
      by (auto simp: setStateObject_put Let_def)
  next
    case False
    have "sdb_eq D (putObject s ?a prev) (putObject t ?a prev)"
      using p by (intro sdb_eq_put2 [OF eq] obj_eq_refl) (simp add: obj_wf_def)
    with False r ResetObjectChange sn p wf show ?thesis
      by (auto simp: setStateObject_put Let_def intro: sdb_wf_putObject)
  qed
next
  case (SuicideChange a prev bal)
  obtain s1 q1 where g1: "getStateObject D s a = (s1, q1)" by fastforce
  obtain t1 q2 where g2: "getStateObject D t a = (t1, q2)" by fastforce
  note v1 = getStateObject_view [OF wf(1) g1] and v2 = getStateObject_view [OF wf(2) g2]
  have rel: "rel_option (obj_eq D (s_snap s) (s_snapDestructs s)) q1 q2"
    using account_eq [OF eq, of a] v1(1) v2(1) by simp
  have eq1: "sdb_eq D s1 t1" using sdb_eq_trans [OF v1(2) sdb_eq_trans [OF eq sdb_eq_sym [OF v2(2)]]] .
  show ?thesis
  proof (cases q1)
    case None
    with rel r SuicideChange g1 g2 eq1 v1(3) v2(3) show ?thesis by auto
  next
    case (Some o1)
    then obtain o2 where o2: "q2 = Some o2" "obj_eq D (s_snap s) (s_snapDestructs s) o1 o2"
      using rel by (cases q2) auto
    have wo: "obj_wf D a o1" "obj_wf D a o2"
      using v1(3,7) v2(3,7) Some o2(1) by (auto simp: sdb_wf_def)
    have "sdb_eq D (putObject s1 a (so_setBalance (o1\<lparr>so_suicided := prev\<rparr>) bal))
        (putObject t1 a (so_setBalance (o2\<lparr>so_suicided := prev\<rparr>) bal))"
      using sdb_eqD [OF v1(2)] o2(2)
      by (intro sdb_eq_put2 [OF eq1] obj_eq_setBalance obj_eq_setSuicided) simp
    with r SuicideChange g1 g2 Some o2(1) wo v1(3) v2(3) show ?thesis
      by (auto intro!: sdb_wf_putObject obj_wf_updates)
  qed
next
  case (BalanceChange a prev)
  with r have "withObject D s a (\<lambda>o1. so_setBalance o1 prev) = Ok s'" by simp
  from withObject_cong [OF eq wf obj_eq_setBalance obj_wf_updates(1) this] BalanceChange show ?thesis by simp
next
  case (NonceChange a prev)
  with r have "withObject D s a (\<lambda>o1. so_setNonce o1 prev) = Ok s'" by simp
  from withObject_cong [OF eq wf obj_eq_setNonce obj_wf_updates(2) this] NonceChange show ?thesis by simp
next
  case (StorageChange a k v)
  with r have "withObject D s a (\<lambda>o1. so_setState o1 k v) = Ok s'" by simp
  from withObject_cong [OF eq wf obj_eq_setState obj_wf_updates(4) this] StorageChange show ?thesis by simp
next
  case (CodeChange a c h)
  with r have "withObject D s a (\<lambda>o1. so_setCode o1 (BytesToHash h) c) = Ok s'" by simp
  from withObject_cong [OF eq wf obj_eq_setCode obj_wf_updates(5) this] CodeChange show ?thesis by simp
next
  case (RefundChange prev)
  with r have s': "s' = s\<lparr>s_refund := prev\<rparr>" by simp
  have "sdb_eq D s' (t\<lparr>s_refund := prev\<rparr>) \<and> sdb_wf D s' \<and> sdb_wf D (t\<lparr>s_refund := prev\<rparr>)"
    using sdb_eq_fields [OF eq wf, where s' = s' and t' = "t\<lparr>s_refund := prev\<rparr>" and rf = prev and lga = "s_logs s" and
        n = "s_logSize s" and p = "s_preimages s" and al = "s_accessList s" and lgb = "s_logs t"] sdb_eqD [OF eq] wf
    by (simp add: s' logsOf_def fun_eq_iff sdb_wf_def)
  with RefundChange show ?thesis by simp
next
  case (AddLogChange h)
  have l: "logsOf t h = logsOf s h" using sdb_eqD(10) [OF eq] by simp
  let ?x = "if length (logsOf s h) = 1 then None else Some (butlast (logsOf s h))"
  let ?t' = "t\<lparr>s_logs := (s_logs t)(h := ?x), s_logSize := s_logSize t - 1\<rparr>"
  from r AddLogChange have ne: "logsOf s h \<noteq> []"
    and s': "s' = s\<lparr>s_logs := (s_logs s)(h := ?x), s_logSize := s_logSize s - 1\<rparr>"
    by (auto simp: Let_def logsOf_def split: if_splits)
  have lg: "logsOf s' = logsOf ?t'"
    using sdb_eqD(10) [OF eq] unfolding s' logsOf_update by simp
  have "sdb_eq D s' ?t' \<and> sdb_wf D s' \<and> sdb_wf D ?t'"
    using sdb_eq_fields [OF eq wf, where s' = s' and t' = "?t'" and rf = "s_refund s" and lga = "(s_logs s)(h := ?x)" and
        n = "s_logSize s - 1" and p = "s_preimages s" and al = "s_accessList s" and lgb = "(s_logs t)(h := ?x)"] sdb_eqD [OF eq] lg wf
    by (simp add: s' sdb_wf_def)
  moreover have "entry_revert D e t = Ok ?t'"
    using AddLogChange ne l by (simp add: Let_def logsOf_def [symmetric])
  ultimately show ?thesis by blast
next
  case (AddPreimageChange h)
  with r have s': "s' = s\<lparr>s_preimages := (s_preimages s)(h := None)\<rparr>" by simp
  let ?t' = "t\<lparr>s_preimages := (s_preimages t)(h := None)\<rparr>"
  have "logsOf s' = logsOf ?t'" using sdb_eqD(10) [OF eq] by (simp add: s' logsOf_def fun_eq_iff)
  then have "sdb_eq D s' ?t' \<and> sdb_wf D s' \<and> sdb_wf D ?t'"
    using sdb_eq_fields [OF eq wf, where s' = s' and t' = "?t'" and rf = "s_refund s" and lga = "s_logs s" and
        n = "s_logSize s" and p = "(s_preimages s)(h := None)" and al = "s_accessList s" and lgb = "s_logs t"] sdb_eqD [OF eq] wf
    by (simp add: s' sdb_wf_def)
  with AddPreimageChange show ?thesis by simp
next
  case (TouchChange a)
  with r eq wf show ?thesis by simp
next
  case (AccessListAddAccountChange a)
  let ?al = "DeleteAddress (s_accessList s) a"
  let ?t' = "t\<lparr>s_accessList := ?al\<rparr>"
  from r AccessListAddAccountChange have s': "s' = s\<lparr>s_accessList := ?al\<rparr>" by simp
  have "logsOf s' = logsOf ?t'" using sdb_eqD(10) [OF eq] by (simp add: s' logsOf_def fun_eq_iff)
  then have "sdb_eq D s' ?t' \<and> sdb_wf D s' \<and> sdb_wf D ?t'"
    using sdb_eq_fields [OF eq wf, where s' = s' and t' = "?t'" and rf = "s_refund s" and lga = "s_logs s" and
        n = "s_logSize s" and p = "s_preimages s" and al = "?al" and lgb = "s_logs t"] sdb_eqD [OF eq]
    by (simp add: s')
  with AccessListAddAccountChange sdb_eqD(13) [OF eq] show ?thesis by simp
next
  case (AccessListAddSlotChange a k)
  from r AccessListAddSlotChange obtain al' where d: "DeleteSlot (s_accessList s) a k = Ok al'"
    and s': "s' = s\<lparr>s_accessList := al'\<rparr>" by (auto simp: bnd_Ok_iff)
  let ?t' = "t\<lparr>s_accessList := al'\<rparr>"
  have "logsOf s' = logsOf ?t'" using sdb_eqD(10) [OF eq] by (simp add: s' logsOf_def fun_eq_iff)
  then have "sdb_eq D s' ?t' \<and> sdb_wf D s' \<and> sdb_wf D ?t'"
    using sdb_eq_fields [OF eq wf, where s' = s' and t' = "?t'" and rf = "s_refund s" and lga = "s_logs s" and
        n = "s_logSize s" and p = "s_preimages s" and al = al' and lgb = "s_logs t"] sdb_eqD [OF eq]
    by (simp add: s')
  with AccessListAddSlotChange d sdb_eqD(13) [OF eq] show ?thesis by simp
qed

definition same_journal :: "'t StateDB \<Rightarrow> 't StateDB \<Rightarrow> bool" where
  "same_journal s t \<longleftrightarrow> s_journal t = s_journal s \<and> s_validRevisions t = s_validRevisions s \<and>
     s_nextRevisionId t = s_nextRevisionId s"

lemma same_journal_putObject [simp]: "same_journal s (putObject t a ob) = same_journal s t"
  by (simp add: same_journal_def putObject_def)

lemma same_journal_setError [simp]: "same_journal s (setError t e) = same_journal s t"
  by (simp add: same_journal_def setError_def)

lemma same_journal_refl [simp]: "same_journal s s"
  by (simp add: same_journal_def)

lemma same_journal_getDeletedStateObject: "same_journal s (fst (getDeletedStateObject D s a))"
  unfolding getDeletedStateObject_def Let_def setStateObject_put
  by (auto split: option.splits prod.splits if_splits sum.splits)

lemma same_journal_getStateObject: "same_journal s (fst (getStateObject D s a))"
  using same_journal_getDeletedStateObject [of s D a]
  unfolding getStateObject_def by (auto split: option.splits prod.splits)

lemma same_journal_withObject: "withObject D s a f = Ok t \<Longrightarrow> same_journal s t"
  using same_journal_getStateObject [of s D a]
  unfolding withObject_def by (auto split: option.splits prod.splits)

lemma entry_revert_frame:
  assumes "entry_revert D e s = Ok s'"
  shows "same_journal s s'"
proof (cases e)
  case (ResetObjectChange ob p)
  then show ?thesis using assms
    by (auto simp: setStateObject_put Let_def same_journal_def putObject_def split: if_splits)
next
  case (SuicideChange a p b)
  then show ?thesis using assms same_journal_getStateObject [of s D a]
    by (auto split: option.splits prod.splits)
next
  case (AddLogChange h)
  then show ?thesis using assms by (auto simp: Let_def same_journal_def split: if_splits)
next
  case (AccessListAddSlotChange a h)
  then show ?thesis using assms by (auto simp: bnd_Ok_iff same_journal_def)
qed (use assms same_journal_withObject in \<open>(simp, blast)?; auto simp: same_journal_def\<close>)+

lemma unobserved_journal: "unobserved s (s\<lparr>s_journal := j\<rparr>)"
  by (simp add: unobserved_def)

lemma revert_entries_frame:
  "revert_entries D es s = Ok s' \<Longrightarrow>
     j_entries (s_journal s') = j_entries (s_journal s) \<and>
     s_validRevisions s' = s_validRevisions s \<and> s_nextRevisionId s' = s_nextRevisionId s"
proof (induction es arbitrary: s)
  case (Cons e es)
  then obtain s1 where s1: "entry_revert D e s = Ok s1"
    "revert_entries D es (s1\<lparr>s_journal := journal_undirty (s_journal s1) e\<rparr>) = Ok s'"
    by (auto simp: bnd_Ok_iff)
  from Cons.IH [OF s1(2)] entry_revert_frame [OF s1(1)] show ?case
    by (simp add: same_journal_def journal_undirty_def Let_def split: option.splits)
qed simp

lemma revert_entries_append:
  "revert_entries D (es @ fs) s = bnd (revert_entries D es s) (revert_entries D fs)"
  by (induction es arbitrary: s) (simp_all add: bnd_assoc)

lemma revert_entries_cong:
  assumes "sdb_eq D s t" "sdb_wf D s" "sdb_wf D t" "addrHash_inj D" "\<forall>e\<in>set es. entry_wf D e"
    "revert_entries D es s = Ok s'"
  shows "\<exists>t'. revert_entries D es t = Ok t' \<and> sdb_eq D s' t' \<and> sdb_wf D s' \<and> sdb_wf D t'"
  using assms
proof (induction es arbitrary: s t)
  case (Cons e es)
  then obtain s1 where s1: "entry_revert D e s = Ok s1"
    "revert_entries D es (s1\<lparr>s_journal := journal_undirty (s_journal s1) e\<rparr>) = Ok s'"
    by (auto simp: bnd_Ok_iff)
  have "entry_wf D e" using Cons.prems(5) by simp
  from entry_revert_cong [OF Cons.prems(1-4) this s1(1)] obtain t1 where
    t1: "entry_revert D e t = Ok t1" "sdb_eq D s1 t1" "sdb_wf D s1" "sdb_wf D t1" by blast
  let ?s2 = "s1\<lparr>s_journal := journal_undirty (s_journal s1) e\<rparr>"
  let ?t2 = "t1\<lparr>s_journal := journal_undirty (s_journal t1) e\<rparr>"
  note us = sdb_eq_unobserved [OF t1(3) unobserved_journal]
    and ut = sdb_eq_unobserved [OF t1(4) unobserved_journal]
  have "sdb_eq D ?s2 ?t2" using sdb_eq_trans [OF us(1) sdb_eq_trans [OF t1(2) sdb_eq_sym [OF ut(1)]]] .
  from Cons.IH [OF this us(2) ut(2) Cons.prems(4) _ s1(2)] Cons.prems(5) t1(1) show ?case by auto
qed auto

section \<open>Undoable extensions\<close>

text \<open>The revisions are ordered by identifier and by journal index.\<close>

definition revs_ok :: "'t StateDB \<Rightarrow> bool" where
  "revs_ok s \<longleftrightarrow>
     sorted_wrt (\<lambda>r q. rev_id r < rev_id q \<and> rev_journalIndex r \<le> rev_journalIndex q) (s_validRevisions s) \<and>
     (\<forall>r\<in>set (s_validRevisions s). rev_id r < s_nextRevisionId s \<and> 0 \<le> rev_journalIndex r \<and>
        rev_journalIndex r \<le> journal_length (s_journal s))"

definition sdb_inv :: "'t backend \<Rightarrow> 't StateDB \<Rightarrow> bool" where
  "sdb_inv D s \<longleftrightarrow> sdb_wf D s \<and> al_wf (s_accessList s) \<and> revs_ok s"

text \<open>
  \<open>extends D s s'\<close>: \<open>s'\<close> comes from \<open>s\<close> by appending journal entries and revisions, and reverting
  the new entries gives a state equivalent to \<open>s\<close>.  On the way the access list stays well-formed
  (\<open>al_chain\<close>), so that work can continue after a partial revert.
\<close>

definition al_chain :: "'t backend \<Rightarrow> 't journalEntry list \<Rightarrow> 't StateDB \<Rightarrow> bool" where
  "al_chain D es s \<longleftrightarrow> (\<forall>fs gs. es = fs @ gs \<longrightarrow>
     (\<exists>u. revert_entries D (rev gs) s = Ok u \<and> al_wf (s_accessList u)))"

definition extends :: "'t backend \<Rightarrow> 't StateDB \<Rightarrow> 't StateDB \<Rightarrow> bool" where
  "extends D s s' \<longleftrightarrow> sdb_inv D s' \<and> s_nextRevisionId s \<le> s_nextRevisionId s' \<and>
     (\<exists>es rs u. j_entries (s_journal s') = j_entries (s_journal s) @ es \<and> (\<forall>e\<in>set es. entry_wf D e) \<and>
        revert_entries D (rev es) s' = Ok u \<and> sdb_eq D u s \<and> sdb_wf D u \<and> al_chain D es s' \<and>
        s_validRevisions s' = s_validRevisions s @ rs \<and>
        (\<forall>r\<in>set rs. s_nextRevisionId s \<le> rev_id r \<and> journal_length (s_journal s) \<le> rev_journalIndex r))"

lemma extends_inv: "extends D s s' \<Longrightarrow> sdb_inv D s'"
  by (simp add: extends_def)

lemma extendsI:
  assumes "sdb_inv D s'" "s_nextRevisionId s \<le> s_nextRevisionId s'"
    "j_entries (s_journal s') = j_entries (s_journal s) @ es" "\<forall>e\<in>set es. entry_wf D e"
    "revert_entries D (rev es) s' = Ok u" "sdb_eq D u s" "sdb_wf D u" "al_chain D es s'"
    "s_validRevisions s' = s_validRevisions s @ rs"
    "\<And>r. r \<in> set rs \<Longrightarrow> s_nextRevisionId s \<le> rev_id r \<and> journal_length (s_journal s) \<le> rev_journalIndex r"
  shows "extends D s s'"
  unfolding extends_def
  by (intro conjI exI [of _ es] exI [of _ rs] exI [of _ u] ballI assms(1-9) assms(10) [THEN conjunct1]
      assms(10) [THEN conjunct2])

lemma revs_ok_more:
  assumes "revs_ok s" "s_validRevisions s' = s_validRevisions s" "s_nextRevisionId s \<le> s_nextRevisionId s'"
    "journal_length (s_journal s) \<le> journal_length (s_journal s')"
  shows "revs_ok s'"
  using assms unfolding revs_ok_def by fastforce

text \<open>A change that is not journalled and not observed.\<close>

lemma extends_read:
  assumes inv: "sdb_inv D s" and eq: "sdb_eq D s' s" and wf: "sdb_wf D s'"
    and j: "j_entries (s_journal s') = j_entries (s_journal s)"
    and v: "s_validRevisions s' = s_validRevisions s" and n: "s_nextRevisionId s' = s_nextRevisionId s"
  shows "extends D s s'"
proof -
  have "revs_ok s" "al_wf (s_accessList s)" using inv by (simp_all add: sdb_inv_def)
  then have "revs_ok s'" by (intro revs_ok_more [of s s'] v) (simp_all add: n j journal_length_def)
  then have "sdb_inv D s'"
    using wf \<open>al_wf (s_accessList s)\<close> sdb_eqD(13) [OF eq] by (simp add: sdb_inv_def)
  then show ?thesis
    by (intro extendsI [where es = "[]" and rs = "[]" and u = s', OF _ _ _ _ _ eq wf])
      (simp_all add: j v n al_chain_def sdb_inv_def)
qed

lemma extends_refl: "sdb_inv D s \<Longrightarrow> extends D s s"
  by (rule extends_read) (auto simp: sdb_inv_def sdb_eq_refl)

text \<open>One journalled change.\<close>

lemma extends_entry:
  assumes inv: "sdb_inv D s" and wf: "sdb_wf D s'" and al: "al_wf (s_accessList s')"
    and j: "j_entries (s_journal s') = j_entries (s_journal s) @ [e]" and e: "entry_wf D e"
    and v: "s_validRevisions s' = s_validRevisions s" and n: "s_nextRevisionId s' = s_nextRevisionId s"
    and u: "entry_revert D e s' = Ok u" "sdb_eq D u s" "sdb_wf D u"
  shows "extends D s s'"
proof -
  let ?u = "u\<lparr>s_journal := journal_undirty (s_journal u) e\<rparr>"
  have "revs_ok s" using inv by (simp add: sdb_inv_def)
  then have "revs_ok s'" by (intro revs_ok_more [of s s'] v) (simp_all add: n j journal_length_def)
  then have inv': "sdb_inv D s'" using wf al by (simp add: sdb_inv_def)
  note uu = sdb_eq_unobserved [OF u(3) unobserved_journal]
  have "al_wf (s_accessList ?u)" using inv sdb_eqD(13) [OF u(2)] by (simp add: sdb_inv_def)
  then have c: "al_chain D [e] s'"
    using al u(1) by (auto simp: al_chain_def Cons_eq_append_conv)
  show ?thesis
    by (rule extendsI [where es = "[e]" and rs = "[]" and u = ?u, OF inv' _ j _ _ sdb_eq_trans [OF uu(1) u(2)] uu(2) c])
      (simp_all add: v n e u(1))
qed

lemma al_chain_append:
  assumes "al_chain D es t" "al_chain D fs u" "\<forall>e\<in>set es. entry_wf D e" "addrHash_inj D"
    "revert_entries D (rev fs) u = Ok t0" "sdb_eq D t0 t" "sdb_wf D t0" "sdb_wf D t"
  shows "al_chain D (es @ fs) u"
  unfolding al_chain_def
proof (intro allI impI)
  fix xs ys assume "es @ fs = xs @ ys"
  then consider us where "xs = es @ us" "fs = us @ ys" | us where "es = xs @ us" "ys = us @ fs"
    by (auto simp: append_eq_append_conv2)
  then show "\<exists>v. revert_entries D (rev ys) u = Ok v \<and> al_wf (s_accessList v)"
  proof cases
    case 1
    then show ?thesis using assms(2) by (simp add: al_chain_def)
  next
    case (2 us)
    then obtain v where v: "revert_entries D (rev us) t = Ok v" "al_wf (s_accessList v)"
      using assms(1) by (auto simp: al_chain_def)
    have "\<forall>e\<in>set (rev us). entry_wf D e" using assms(3) 2(1) by auto
    from revert_entries_cong [OF sdb_eq_sym [OF assms(6)] assms(8,7,4) this v(1)]
    obtain w where "revert_entries D (rev us) t0 = Ok w" "sdb_eq D v w" by blast
    with v(2) sdb_eqD(13) [of D v w] assms(5) 2(2) show ?thesis by (auto simp: revert_entries_append)
  qed
qed

lemma extends_trans:
  assumes "extends D s t" "extends D t u" "sdb_wf D s" "addrHash_inj D"
  shows "extends D s u"
proof -
  obtain es rs s0 where 1: "j_entries (s_journal t) = j_entries (s_journal s) @ es" "\<forall>e\<in>set es. entry_wf D e"
    "revert_entries D (rev es) t = Ok s0" "sdb_eq D s0 s" "sdb_wf D s0" "al_chain D es t"
    "s_validRevisions t = s_validRevisions s @ rs"
    "\<forall>r\<in>set rs. s_nextRevisionId s \<le> rev_id r \<and> journal_length (s_journal s) \<le> rev_journalIndex r"
    using assms(1) unfolding extends_def by blast
  obtain fs qs t0 where 2: "j_entries (s_journal u) = j_entries (s_journal t) @ fs" "\<forall>e\<in>set fs. entry_wf D e"
    "revert_entries D (rev fs) u = Ok t0" "sdb_eq D t0 t" "sdb_wf D t0" "al_chain D fs u"
    "s_validRevisions u = s_validRevisions t @ qs"
    "\<forall>r\<in>set qs. s_nextRevisionId t \<le> rev_id r \<and> journal_length (s_journal t) \<le> rev_journalIndex r"
    using assms(2) unfolding extends_def by blast
  have n: "s_nextRevisionId s \<le> s_nextRevisionId t" "s_nextRevisionId t \<le> s_nextRevisionId u"
    and inv: "sdb_inv D t" "sdb_inv D u"
    using assms(1,2) by (auto simp: extends_def)
  have "sdb_wf D t" using inv(1) by (simp add: sdb_inv_def)
  from revert_entries_cong [OF sdb_eq_sym [OF 2(4)] this 2(5) assms(4) _ 1(3)] 1(2)
  obtain s1 where s1: "revert_entries D (rev es) t0 = Ok s1" "sdb_eq D s0 s1" "sdb_wf D s1" by auto
  have rv: "revert_entries D (rev (es @ fs)) u = Ok s1"
    using 2(3) s1(1) by (simp add: revert_entries_append)
  have eq: "sdb_eq D s1 s" using sdb_eq_trans [OF sdb_eq_sym [OF s1(2)] 1(4)] .
  have j: "j_entries (s_journal u) = j_entries (s_journal s) @ (es @ fs)" using 1(1) 2(1) by simp
  have v: "s_validRevisions u = s_validRevisions s @ (rs @ qs)" using 1(7) 2(7) by simp
  have w: "\<forall>e\<in>set (es @ fs). entry_wf D e" using 1(2) 2(2) by auto
  have "journal_length (s_journal s) \<le> journal_length (s_journal t)"
    using 1(1) by (simp add: journal_length_def)
  then have r: "s_nextRevisionId s \<le> rev_id r \<and> journal_length (s_journal s) \<le> rev_journalIndex r"
    if "r \<in> set (rs @ qs)" for r
    using that 1(8) 2(8) n(1) by (metis Un_iff order_trans set_append)
  have c: "al_chain D (es @ fs) u"
    by (rule al_chain_append [OF 1(6) 2(6) 1(2) assms(4) 2(3) 2(4) 2(5)]) (use inv(1) in \<open>simp add: sdb_inv_def\<close>)
  show ?thesis
    by (rule extendsI [OF inv(2) order_trans [OF n] j w rv eq s1(3) c v r])
qed

section \<open>Every operation can be undone\<close>

lemma log_entry_sel [simp]:
  "s_trie (log_entry s e) = s_trie s" "s_snap (log_entry s e) = s_snap s"
  "s_snapDestructs (log_entry s e) = s_snapDestructs s"
  "s_stateObjects (log_entry s e) = s_stateObjects s"
  "s_accessList (log_entry s e) = s_accessList s"
  "s_refund (log_entry s e) = s_refund s" "s_thash (log_entry s e) = s_thash s"
  "s_txIndex (log_entry s e) = s_txIndex s" "s_logs (log_entry s e) = s_logs s"
  "s_logSize (log_entry s e) = s_logSize s" "s_preimages (log_entry s e) = s_preimages s"
  "s_validRevisions (log_entry s e) = s_validRevisions s"
  "s_nextRevisionId (log_entry s e) = s_nextRevisionId s"
  "j_entries (s_journal (log_entry s e)) = j_entries (s_journal s) @ [e]"
  by (simp_all add: log_entry_def journal_append_def Let_def split: option.splits)

lemma unobserved_log_entry: "unobserved s (log_entry s e)"
  by (simp add: log_entry_def unobserved_journal)

lemma putObject_putObject [simp]: "putObject (putObject s a o1) a o2 = putObject s a o2"
  by (simp add: putObject_def)

lemma putObject_same: "s_stateObjects s a = Some o1 \<Longrightarrow> putObject s a o1 = s"
  by (simp add: putObject_def map_upd_triv)

lemma log_entry_putObject: "log_entry (putObject s a o1) e = putObject (log_entry s e) a o1"
  by (simp add: putObject_def log_entry_def)

lemma getStateObject_live:
  "s_stateObjects s a = Some o1 \<Longrightarrow> \<not> so_deleted o1 \<Longrightarrow> getStateObject D s a = (s, Some o1)"
  by (simp add: getStateObject_def getDeletedStateObject_def)

lemma extends_put:
  assumes inv: "sdb_inv D s" and live: "s_stateObjects s a = Some o1"
    and o2: "obj_wf D a o2" "\<not> so_deleted o2" and e: "entry_wf D e"
    and rv: "entry_revert D e = (\<lambda>t. withObject D t a g)"
    and g: "obj_eq D (s_snap s) (s_snapDestructs s) (g o2) o1"
  shows "extends D s (putObject (log_entry s e) a o2)"
proof -
  let ?s = "putObject (log_entry s e) a o2" and ?u = "putObject (log_entry s e) a (g o2)"
  have wf: "sdb_wf D s" using inv by (simp add: sdb_inv_def)
  note lg = sdb_eq_unobserved [OF wf unobserved_log_entry, of e]
  have "obj_wf D a o1" using wf live by (simp add: sdb_wf_def)
  then have wu: "sdb_wf D ?u" using lg(2) obj_wf_eq [OF g] by (intro sdb_wf_putObject) simp_all
  have "look D (log_entry s e) a = Some o1" using live by (simp add: look_def)
  then have "sdb_eq D ?u (log_entry s e)" using g by (intro sdb_eq_putObject lg(2)) simp_all
  then have eq: "sdb_eq D ?u s" using lg(1) sdb_eq_trans by blast
  have "getStateObject D ?s a = (?s, Some o2)" using o2(2) by (simp add: getStateObject_live)
  then have "entry_revert D e ?s = Ok ?u" by (simp add: rv withObject_def)
  then show ?thesis
    using inv sdb_wf_putObject [OF lg(2) o2(1)] e
    by (intro extends_entry [OF _ _ _ _ _ _ _ _ eq wu]) (simp_all add: sdb_inv_def)
qed

text \<open>Loading an object, or replacing a live one by an equivalent one, extends the state.\<close>

lemma extends_getStateObject:
  assumes "sdb_inv D s" "getStateObject D s a = (s', r)"
  shows "extends D s s'"
proof -
  have "sdb_wf D s" using assms(1) by (simp add: sdb_inv_def)
  note v = getStateObject_view [OF this assms(2)]
  show ?thesis by (rule extends_read [OF assms(1) v(2,3)]) (simp_all add: v)
qed

lemma extends_reput:
  assumes inv: "sdb_inv D s" and live: "s_stateObjects s a = Some o1"
    and eq: "obj_eq D (s_snap s) (s_snapDestructs s) o2 o1"
  shows "extends D s (putObject s a o2)"
proof -
  have wf: "sdb_wf D s" using inv by (simp add: sdb_inv_def)
  have "obj_wf D a o1" using wf live by (simp add: sdb_wf_def)
  then have "sdb_wf D (putObject s a o2)" using wf obj_wf_eq [OF eq] by (intro sdb_wf_putObject) simp_all
  moreover have "look D s a = Some o1" using live by (simp add: look_def)
  then have "sdb_eq D (putObject s a o2) s" using eq by (intro sdb_eq_putObject wf) simp_all
  ultimately show ?thesis by (intro extends_read [OF inv]) simp_all
qed

text \<open>Creating an object, whatever object is then stored under the address.\<close>

lemma extends_create:
  assumes inv: "sdb_inv D s" and none: "look D s a = None" and wo: "obj_wf D a o2"
  shows "extends D s (putObject (log_entry s (CreateObjectChange a)) a o2)"
proof -
  let ?s = "putObject (log_entry s (CreateObjectChange a)) a o2"
  define u where "u = ?s\<lparr>s_stateObjects := (s_stateObjects ?s)(a := None),
      s_stateObjectsDirty := s_stateObjectsDirty ?s - {a}\<rparr>"
  have rv: "entry_revert D (CreateObjectChange a) ?s = Ok u" by (simp add: u_def)
  have wf: "sdb_wf D s" using inv by (simp add: sdb_inv_def)
  note lg = sdb_eq_unobserved [OF wf unobserved_log_entry, of "CreateObjectChange a"]
  have ws: "sdb_wf D ?s" using sdb_wf_putObject [OF lg(2) wo] .
  have wu: "sdb_wf D u" using ws by (simp add: u_def sdb_wf_def)
  have "look D u b = look D s b" for b
    using none by (cases "b = a") (simp_all add: u_def look_def split: option.splits)
  then have lk: "look D u = look D s" by (rule ext)
  have lo: "logsOf u = logsOf s" by (rule logsOf_eqI) (simp add: u_def)
  have pd: "s_stateObjectsPending u = s_stateObjectsPending s" "s_snapAccounts u = s_snapAccounts s"
    "s_snapStorage u = s_snapStorage s" by (simp_all add: u_def log_entry_def)
  have eq: "sdb_eq D u s"
    by (rule sdb_eqI) (simp_all add: lk lo pd rel_option_obj_eq_refl [OF wf], simp_all add: u_def)
  show ?thesis
    using inv ws by (intro extends_entry [OF _ _ _ _ _ _ _ rv eq wu]) (simp_all add: sdb_inv_def entry_wf_def)
qed

lemma extends_reset:
  assumes inv: "sdb_inv D s" and live: "s_stateObjects s a = Some p" and wo: "obj_wf D a o2"
    and pd: "pd = (s_snap s \<noteq> None \<and> so_addrHash p \<in> s_snapDestructs s)"
    and s1: "s1 = (if s_snap s \<noteq> None \<and> \<not> pd
      then s\<lparr>s_snapDestructs := insert (so_addrHash p) (s_snapDestructs s)\<rparr> else s)"
  shows "extends D s (putObject (log_entry s1 (ResetObjectChange p pd)) a o2)"
proof -
  let ?s = "putObject (log_entry s1 (ResetObjectChange p pd)) a o2"
  have wf: "sdb_wf D s" using inv by (simp add: sdb_inv_def)
  have wp: "obj_wf D a p" using wf live by (simp add: sdb_wf_def)
  then have ap: "so_address p = a" by (simp add: obj_wf_def)
  have ws: "sdb_wf D ?s" using wf wo by (simp add: s1 sdb_wf_def)
  let ?v = "putObject ?s a p"
  let ?u = "if \<not> pd \<and> s_snap s \<noteq> None
      then ?v\<lparr>s_snapDestructs := s_snapDestructs ?v - {so_addrHash p}\<rparr> else ?v"
  have rv: "entry_revert D (ResetObjectChange p pd) ?s = Ok ?u"
    by (simp add: setStateObject_put ap s1 Let_def)
  have wu: "sdb_wf D ?u" using ws wp by (simp add: sdb_wf_def)
  have so: "s_stateObjects ?u = s_stateObjects s" using live by (simp add: s1 map_upd_triv)
  have fr: "s_trie ?u = s_trie s" "s_snap ?u = s_snap s" "s_refund ?u = s_refund s"
    "s_thash ?u = s_thash s" "s_txIndex ?u = s_txIndex s" "s_logs ?u = s_logs s"
    "s_logSize ?u = s_logSize s" "s_preimages ?u = s_preimages s" "s_accessList ?u = s_accessList s"
    "s_stateObjectsPending ?u = s_stateObjectsPending s" "s_snapAccounts ?u = s_snapAccounts s"
    "s_snapStorage ?u = s_snapStorage s"
    by (simp_all add: s1 log_entry_def)
  have sd: "s_snapDestructs ?u = s_snapDestructs s" by (auto simp: s1 pd)
  have "unobserved s ?u" unfolding unobserved_def using so fr sd by blast
  then have eq: "sdb_eq D ?u s" by (rule sdb_eq_unobserved(1) [OF wf])
  have "s_accessList ?s = s_accessList s" "s_validRevisions ?s = s_validRevisions s"
    "s_nextRevisionId ?s = s_nextRevisionId s"
    "j_entries (s_journal ?s) = j_entries (s_journal s) @ [ResetObjectChange p pd]"
    by (simp_all add: s1)
  with inv ws wp ap show ?thesis
    by (intro extends_entry [OF _ _ _ _ _ _ _ rv eq wu]) (simp_all add: sdb_inv_def entry_wf_def)
qed

lemma zeroAccount_CodeHash [simp]: "acc_CodeHash zeroAccount = None"
  by (simp add: zeroAccount_def)

lemma extends_createObject:
  assumes inv: "sdb_inv D s" and inj: "addrHash_inj D" and c: "createObject D s a = (s', ob, prev)"
    and wo: "obj_wf D a o2"
  shows "extends D s (putObject s' a o2)"
proof -
  have wf: "sdb_wf D s" using inv by (simp add: sdb_inv_def)
  obtain s0 q where g: "getDeletedStateObject D s a = (s0, q)" by fastforce
  note v = getDeletedStateObject_view [OF wf g]
  have x0: "extends D s s0" by (rule extends_read [OF inv v(2,3)]) (simp_all add: v)
  note inv0 = extends_inv [OF x0]
  have "extends D s0 (putObject s' a o2)"
  proof (cases q)
    case None
    have "rel_option (obj_eq D (s_snap s0) (s_snapDestructs s0)) (look D s0 a) (look D s a)"
      by (rule sdb_eqD(14) [OF v(2)])
    then have "look D s0 a = None" using None v(1) by simp
    from extends_create [OF inv0 this wo] c g None show ?thesis
      by (auto simp: createObject_def Let_def setStateObject_put)
  next
    case (Some p)
    have "s_stateObjects s0 a = Some p" using v(7) Some by simp
    from extends_reset [OF inv0 this wo refl refl] c g Some show ?thesis
      by (auto simp: createObject_def Let_def setStateObject_put)
  qed
  from extends_trans [OF x0 this wf inj] show ?thesis .
qed

lemma createObject_result:
  assumes "createObject D s a = (s', ob, prev)"
  shows "ob = newObject D a zeroAccount" "s_stateObjects s' a = Some ob" "obj_wf D a ob" "putObject s' a ob = s'"
proof -
  show 1: "ob = newObject D a zeroAccount" and 2: "s_stateObjects s' a = Some ob"
    using assms
    by (auto simp: createObject_def Let_def setStateObject_put split: prod.splits option.splits if_splits)
  show "obj_wf D a ob" unfolding 1 by (rule obj_wf_newObject) simp
  show "putObject s' a ob = s'" by (rule putObject_same [OF 2])
qed

lemma extends_GetOrNew:
  assumes inv: "sdb_inv D s" and inj: "addrHash_inj D" and g: "GetOrNewStateObject D s a = (s', ob)"
  shows "extends D s s'" "s_stateObjects s' a = Some ob" "obj_wf D a ob" "\<not> so_deleted ob"
proof -
  have wf: "sdb_wf D s" using inv by (simp add: sdb_inv_def)
  obtain s0 q where g0: "getStateObject D s a = (s0, q)" by fastforce
  note v = getStateObject_view [OF wf g0] and x0 = extends_getStateObject [OF inv g0]
  note inv0 = extends_inv [OF x0]
  have "extends D s s' \<and> s_stateObjects s' a = Some ob \<and> obj_wf D a ob \<and> \<not> so_deleted ob"
  proof (cases q)
    case None
    then obtain prev where c: "createObject D s0 a = (s', ob, prev)"
      using g g0 by (auto simp: GetOrNewStateObject_def split: prod.splits)
    note r = createObject_result [OF c]
    have "extends D s0 s'" using extends_createObject [OF inv0 inj c r(3)] r(4) by simp
    from extends_trans [OF x0 this wf inj] r show ?thesis by simp
  next
    case (Some o1)
    with g g0 have "s' = s0" "ob = o1" by (auto simp: GetOrNewStateObject_def)
    moreover have "account D s a = Some o1" using v(1) Some by simp
    then have "\<not> so_deleted o1" by (auto simp: account_def split: option.splits if_splits)
    moreover have "s_stateObjects s0 a = Some o1" using v(7) Some by simp
    ultimately show ?thesis using x0 v(3) by (simp add: sdb_wf_def)
  qed
  then show "extends D s s'" "s_stateObjects s' a = Some ob" "obj_wf D a ob" "\<not> so_deleted ob" by auto
qed

text \<open>The operations on accounts.\<close>

lemma setBalance_setBalance:
  "so_setBalance (so_setBalance o1 x) (acc_Balance (so_data o1)) = o1"
  by (simp add: so_setBalance_def)

lemma setNonce_setNonce: "so_setNonce (so_setNonce o1 x) (acc_Nonce (so_data o1)) = o1"
  by (simp add: so_setNonce_def)

lemma so_deleted_updates [simp]:
  "so_deleted (so_setBalance o1 b) = so_deleted o1" "so_deleted (so_setNonce o1 n) = so_deleted o1"
  "so_deleted (so_setState o1 k v) = so_deleted o1" "so_deleted (so_setCode o1 h c) = so_deleted o1"
  by (simp_all add: so_setBalance_def so_setNonce_def so_setState_def so_setCode_def)

lemma extends_so_SetBalance:
  assumes inv: "sdb_inv D s" and ob: "s_stateObjects s a = Some ob" "obj_wf D a ob" "\<not> so_deleted ob"
    and r: "so_SetBalance s ob x = (s', ob')"
  shows "extends D s (putObject s' a ob')"
proof -
  let ?e = "BalanceChange a (acc_Balance (so_data ob))"
  have "obj_eq D (s_snap s) (s_snapDestructs s) (so_setBalance (so_setBalance ob x) (acc_Balance (so_data ob))) ob"
    unfolding setBalance_setBalance using ob(2) by (intro obj_eq_refl) (simp add: obj_wf_def)
  from extends_put [OF inv ob(1) obj_wf_updates(1) [OF ob(2), of x], where e = ?e and
      g = "\<lambda>o1. so_setBalance o1 (acc_Balance (so_data ob))"] this ob r show ?thesis
    by (simp add: so_SetBalance_def entry_wf_def obj_wf_def fun_eq_iff)
qed

lemma extends_touch:
  assumes inv: "sdb_inv D s"
  shows "extends D s (so_touch s ob)"
proof -
  let ?s = "so_touch s ob"
  have wf: "sdb_wf D s" using inv by (simp add: sdb_inv_def)
  have "unobserved s ?s" by (simp add: so_touch_def Let_def log_entry_def unobserved_def)
  note u = sdb_eq_unobserved [OF wf this]
  have j: "j_entries (s_journal ?s) = j_entries (s_journal s) @ [TouchChange (so_address ob)]"
    "s_validRevisions ?s = s_validRevisions s" "s_nextRevisionId ?s = s_nextRevisionId s"
    "s_accessList ?s = s_accessList s"
    by (simp_all add: so_touch_def Let_def journal_dirty_def)
  show ?thesis
    by (rule extends_entry [OF inv u(2) _ j(1) _ j(2,3) _ u]) (use inv j(4) in \<open>simp_all add: sdb_inv_def entry_wf_def\<close>)
qed

lemma so_touch_objects [simp]: "s_stateObjects (so_touch s ob) = s_stateObjects s"
  by (simp add: so_touch_def Let_def)

lemma extends_so_AddBalance:
  assumes inv: "sdb_inv D s" and ob: "s_stateObjects s a = Some ob" "obj_wf D a ob" "\<not> so_deleted ob"
    and r: "so_AddBalance D s ob x = (s', ob')"
  shows "extends D s (putObject s' a ob')"
proof (cases "x = 0")
  case True
  have "putObject s a ob = s" "putObject (so_touch s ob) a ob = so_touch s ob"
    using ob(1) by (intro putObject_same; simp)+
  with True r extends_touch [OF inv, of ob] extends_refl [OF inv] show ?thesis
    by (auto simp: so_AddBalance_def split: if_splits)
next
  case False
  with r have "so_SetBalance s ob (so_Balance ob + x) = (s', ob')" by (simp add: so_AddBalance_def)
  from extends_so_SetBalance [OF inv ob this] show ?thesis .
qed

lemma extends_so_SubBalance:
  assumes inv: "sdb_inv D s" and ob: "s_stateObjects s a = Some ob" "obj_wf D a ob" "\<not> so_deleted ob"
    and r: "so_SubBalance s ob x = (s', ob')"
  shows "extends D s (putObject s' a ob')"
proof (cases "x = 0")
  case True
  with r ob(1) extends_refl [OF inv] show ?thesis by (simp add: so_SubBalance_def putObject_same)
next
  case False
  with r have "so_SetBalance s ob (so_Balance ob - x) = (s', ob')" by (simp add: so_SubBalance_def)
  from extends_so_SetBalance [OF inv ob this] show ?thesis .
qed

lemma extends_so_SetNonce:
  assumes inv: "sdb_inv D s" and ob: "s_stateObjects s a = Some ob" "obj_wf D a ob" "\<not> so_deleted ob"
    and r: "so_SetNonce s ob x = (s', ob')"
  shows "extends D s (putObject s' a ob')"
proof -
  let ?e = "NonceChange a (acc_Nonce (so_data ob))"
  have "obj_eq D (s_snap s) (s_snapDestructs s) (so_setNonce (so_setNonce ob x) (acc_Nonce (so_data ob))) ob"
    unfolding setNonce_setNonce using ob(2) by (intro obj_eq_refl) (simp add: obj_wf_def)
  from extends_put [OF inv ob(1) obj_wf_updates(2) [OF ob(2), of x], where e = ?e and
      g = "\<lambda>o1. so_setNonce o1 (acc_Nonce (so_data ob))"] this ob r show ?thesis
    by (simp add: so_SetNonce_def entry_wf_def obj_wf_def fun_eq_iff)
qed

text \<open>Setting the code back to the code and the hash read before gives an equivalent object.\<close>

lemma setCode_setCode:
  assumes "obj_wf D a ob"
  shows "obj_eq D sn sd (so_setCode (so_setCode ob h c) (BytesToHash (so_CodeHash ob)) (codeOf D ob)) ob"
proof -
  obtain g where g: "acc_CodeHash (so_data ob) = Some (hash_Bytes g)" using assms by (auto simp: obj_wf_def)
  let ?o = "so_setCode (so_setCode ob h c) (BytesToHash (so_CodeHash ob)) (codeOf D ob)"
  have h: "hash_Bytes (BytesToHash (so_CodeHash ob)) = so_CodeHash ob"
    using g by (simp add: so_CodeHash_def)
  have d: "so_data ?o = so_data ob" using g h by (simp add: so_setCode_def so_CodeHash_def)
  have "codeOf D ?o = codeOf D ob"
  proof (cases "codeOf D ob")
    case None
    then have "so_code ob = None" by (auto simp: codeOf_eq split: option.splits)
    with None d show ?thesis by (intro codeOf_cong) (simp_all add: so_setCode_def)
  next
    case (Some c')
    then have "so_code ?o = Some c'" by (simp add: so_setCode_def)
    then show ?thesis unfolding codeOf_eq [of D ?o] using Some by simp
  qed
  then show ?thesis using assms d
    by (intro obj_eqI objTrie_cong) (simp_all add: obj_wf_def, simp_all add: so_setCode_def)
qed

lemma extends_so_SetCode:
  assumes inv: "sdb_inv D s" and inj: "addrHash_inj D"
    and ob: "s_stateObjects s a = Some ob" "obj_wf D a ob" "\<not> so_deleted ob"
    and r: "so_SetCode D s ob h c = (s', ob')"
  shows "extends D s (putObject s' a ob')"
proof -
  obtain o1 pc where o1: "so_Code D ob = (o1, pc)" by fastforce
  have "so_fakeStorage ob = None" using ob(2) by (simp add: obj_wf_def)
  note cv = so_Code_view [OF this, of D]
  have eq: "obj_eq D sn sd o1 ob" for sn sd using cv(1) o1 by simp
  have w1: "obj_wf D a o1" using obj_wf_eq [OF eq ob(2)] .
  have pc: "pc = codeOf D o1" using cv(2) o1 eq by (simp add: obj_eq_def)
  let ?s = "putObject s a o1" and ?e = "CodeChange a pc (so_CodeHash o1)"
  have x: "extends D s ?s" by (rule extends_reput [OF inv ob(1) eq])
  have "extends D ?s (putObject (log_entry ?s ?e) a (so_setCode o1 h c))"
    using extends_put [OF extends_inv [OF x] _ obj_wf_updates(5) [OF w1, of h c], where e = ?e and
        g = "\<lambda>o1'. so_setCode o1' (BytesToHash (so_CodeHash o1)) pc"] setCode_setCode [OF w1] eq ob(3)
    by (simp add: entry_wf_def pc fun_eq_iff obj_eq_def)
  moreover have "putObject (log_entry ?s ?e) a (so_setCode o1 h c) = putObject s' a ob'"
    using r o1 w1 by (simp add: so_SetCode_def log_entry_putObject obj_wf_def)
  ultimately show ?thesis using extends_trans [OF x _ _ inj] inv by (simp add: sdb_inv_def)
qed

lemma extends_so_SetState:
  assumes inv: "sdb_inv D s" and inj: "addrHash_inj D"
    and ob: "s_stateObjects s a = Some ob" "obj_wf D a ob" "\<not> so_deleted ob"
    and r: "so_SetState D s ob k v = (s', ob')"
  shows "extends D s (putObject s' a ob')"
proof -
  let ?sn = "s_snap s" and ?sd = "s_snapDestructs s"
  obtain o1 pv where o1: "so_GetState D ?sn ?sd ob k = (o1, pv)" by fastforce
  have fk: "so_fakeStorage ob = None" using ob(2) by (simp add: obj_wf_def)
  note cv = so_GetState_view [OF fk, of D ?sn ?sd k]
  have eq: "obj_eq D ?sn ?sd o1 ob" using cv(1) o1 by simp
  have w1: "obj_wf D a o1" using obj_wf_eq [OF eq ob(2)] .
  have pv: "pv = current D ?sn ?sd o1 k" using cv(2) o1 eq by (simp add: obj_eq_def)
  let ?s = "putObject s a o1" and ?e = "StorageChange a k pv"
  have x: "extends D s ?s" by (rule extends_reput [OF inv ob(1) eq])
  show ?thesis
  proof (cases "pv = v")
    case True
    with r o1 fk x show ?thesis by (auto simp: so_SetState_def)
  next
    case False
    have "current D ?sn ?sd (so_setState (so_setState o1 k v) k pv) = current D ?sn ?sd o1"
      by (simp add: current_setState pv)
    moreover have "codeOf D (so_setState (so_setState o1 k v) k pv) = codeOf D o1"
      by (rule codeOf_cong) (simp_all add: so_setState_def)
    ultimately have g: "obj_eq D ?sn ?sd (so_setState (so_setState o1 k v) k pv) o1"
      using w1 by (simp add: obj_eq_def committed_setState obj_wf_def) (simp add: so_setState_def)
    have "extends D ?s (putObject (log_entry ?s ?e) a (so_setState o1 k v))"
      using extends_put [OF extends_inv [OF x] _ obj_wf_updates(4) [OF w1, of k v], where e = ?e and
          g = "\<lambda>o1. so_setState o1 k pv"] g eq ob(3)
      by (simp add: entry_wf_def fun_eq_iff obj_eq_def)
    moreover have "putObject (log_entry ?s ?e) a (so_setState o1 k v) = putObject s' a ob'"
      using r o1 w1 fk False by (auto simp: so_SetState_def log_entry_putObject obj_wf_def)
    ultimately show ?thesis using extends_trans [OF x _ _ inj] inv by (simp add: sdb_inv_def)
  qed
qed

end

