(* ===== verification/StateSnapshot.thy ===== *)
theory StateSnapshot
  imports StateRevert
begin

text \<open>
  The operations of the state database as steps, and the contract of \<open>Snapshot\<close> and
  \<open>RevertToSnapshot\<close>: whatever operations run after a snapshot, nested snapshots and reverts
  included, reverting to it succeeds and every getter reads what it read before.
\<close>

section \<open>The remaining operations\<close>

lemmas extends_balance_op = extends_so_SetBalance extends_so_AddBalance extends_so_SubBalance
  extends_so_SetNonce

lemma extends_via_GetOrNew:
  assumes inv: "sdb_inv D s" and inj: "addrHash_inj D"
    and step: "\<And>s1 ob s2 ob'. sdb_inv D s1 \<Longrightarrow> s_stateObjects s1 a = Some ob \<Longrightarrow> obj_wf D a ob \<Longrightarrow>
      \<not> so_deleted ob \<Longrightarrow> f s1 ob = (s2, ob') \<Longrightarrow> extends D s1 (putObject s2 a ob')"
  shows "extends D s
    (case GetOrNewStateObject D s a of (s, ob) \<Rightarrow> (case f s ob of (s, ob) \<Rightarrow> putObject s a ob))"
proof -
  obtain s1 ob where g: "GetOrNewStateObject D s a = (s1, ob)" by fastforce
  obtain s2 ob' where f: "f s1 ob = (s2, ob')" by fastforce
  note x = extends_GetOrNew [OF inv inj g]
  have "sdb_wf D s" using inv by (simp add: sdb_inv_def)
  from extends_trans [OF x(1) step [OF extends_inv [OF x(1)] x(2-4) f] this inj] g f show ?thesis by simp
qed

lemma extends_ops:
  assumes inv: "sdb_inv D s" and inj: "addrHash_inj D"
  shows "extends D s (AddBalance D s a x)" "extends D s (SubBalance D s a x)"
    "extends D s (SetBalance D s a x)" "extends D s (SetNonce D s a n)"
    "extends D s (SetCode D s a c)" "extends D s (SetState D s a k v)"
proof -
  note via = extends_via_GetOrNew [OF inv inj]
  show "extends D s (AddBalance D s a x)" "extends D s (SubBalance D s a x)"
    "extends D s (SetBalance D s a x)" "extends D s (SetNonce D s a n)"
    unfolding AddBalance_def SubBalance_def SetBalance_def SetNonce_def
    by (rule via, rule extends_balance_op; assumption)+
  show "extends D s (SetCode D s a c)" "extends D s (SetState D s a k v)"
    unfolding SetCode_def SetState_def
    by (rule via, rule extends_so_SetCode [OF _ inj] extends_so_SetState [OF _ inj]; assumption)+
qed

lemma extends_CreateAccount:
  assumes inv: "sdb_inv D s" and inj: "addrHash_inj D"
  shows "extends D s (CreateAccount D s a)"
proof -
  obtain s1 ob prev where c: "createObject D s a = (s1, ob, prev)" by (cases "createObject D s a") auto
  note r = createObject_result [OF c]
  have "extends D s s1" using extends_createObject [OF inv inj c r(3)] r(4) by simp
  moreover have "extends D s (putObject s1 a (so_setBalance ob b))" for b
    by (rule extends_createObject [OF inv inj c obj_wf_updates(1) [OF r(3)]])
  ultimately show ?thesis using c by (auto simp: CreateAccount_def split: option.splits)
qed

lemma extends_Suicide:
  assumes inv: "sdb_inv D s" and inj: "addrHash_inj D"
  shows "extends D s (fst (Suicide D s a))"
proof -
  have wf: "sdb_wf D s" using inv by (simp add: sdb_inv_def)
  obtain s1 q where g: "getStateObject D s a = (s1, q)" by fastforce
  note v = getStateObject_view [OF wf g] and x = extends_getStateObject [OF inv g]
  note inv1 = extends_inv [OF x]
  show ?thesis
  proof (cases q)
    case None
    with g x show ?thesis by (simp add: Suicide_def)
  next
    case (Some ob)
    have live: "s_stateObjects s1 a = Some ob" using v(7) Some by simp
    have wo: "obj_wf D a ob" using v(3) live by (simp add: sdb_wf_def)
    have nd: "\<not> so_deleted ob"
      using v(1) Some by (auto simp: account_def split: option.splits if_splits)
    let ?e = "SuicideChange a (so_suicided ob) (so_Balance ob)"
    let ?o = "so_setBalance (so_markSuicided ob) 0"
    let ?s = "putObject (log_entry s1 ?e) a ?o" and ?u = "putObject (log_entry s1 ?e) a ob"
    have wo': "obj_wf D a ?o" using obj_wf_updates(1) [OF obj_wf_updates(3) [OF wo]]
      by (simp add: so_markSuicided_def)
    have bk: "so_setBalance (?o\<lparr>so_suicided := so_suicided ob\<rparr>) (so_Balance ob) = ob"
      by (simp add: so_setBalance_def so_markSuicided_def so_Balance_def)
    have "getStateObject D ?s a = (?s, Some ?o)"
      using nd by (intro getStateObject_live) (simp_all add: so_markSuicided_def)
    then have rv: "entry_revert D ?e ?s = Ok ?u" by (simp add: bk)
    have wf1: "sdb_wf D s1" by (rule v(3))
    note lg = sdb_eq_unobserved [OF wf1 unobserved_log_entry, of ?e]
    have u: "?u = log_entry s1 ?e" using live by (intro putObject_same) simp
    have eq: "sdb_eq D ?u s1" and wu: "sdb_wf D ?u" unfolding u by (rule lg)+
    have "extends D s1 ?s"
      by (rule extends_entry [OF inv1 sdb_wf_putObject [OF lg(2) wo'] _ _ _ _ _ rv eq wu])
        (use inv1 in \<open>simp_all add: sdb_inv_def entry_wf_def\<close>)
    from extends_trans [OF x this wf inj] g Some show ?thesis by (simp add: Suicide_def)
  qed
qed

text \<open>States that agree in every observed field.\<close>

definition same_fields :: "'t StateDB \<Rightarrow> 't StateDB \<Rightarrow> bool" where
  "same_fields s u \<longleftrightarrow>
     s_trie u = s_trie s \<and> s_snap u = s_snap s \<and> s_snapDestructs u = s_snapDestructs s \<and>
     s_snapAccounts u = s_snapAccounts s \<and> s_snapStorage u = s_snapStorage s \<and>
     s_stateObjects u = s_stateObjects s \<and> s_stateObjectsPending u = s_stateObjectsPending s \<and>
     s_refund u = s_refund s \<and> s_thash u = s_thash s \<and> s_txIndex u = s_txIndex s \<and>
     logsOf u = logsOf s \<and> s_logSize u = s_logSize s \<and> s_preimages u = s_preimages s \<and>
     s_accessList u = s_accessList s"

lemma sdb_eq_same_fields:
  assumes "sdb_wf D s" "same_fields s u"
  shows "sdb_eq D u s" "sdb_wf D u"
proof -
  note f = assms(2) [unfolded same_fields_def]
  have "look D u = look D s" using f by (intro look_frame) auto
  then show "sdb_eq D u s" using f rel_option_obj_eq_refl [OF assms(1)] by (intro sdb_eqI) auto
  show "sdb_wf D u" using assms(1) f by (simp add: sdb_wf_def)
qed

text \<open>An operation on the fields other than the objects, with one journal entry.\<close>

lemma extends_field:
  assumes inv: "sdb_inv D s" and obs: "s_stateObjects s' = s_stateObjects s" "s_trie s' = s_trie s" "s_snap s' = s_snap s"
    and al: "al_wf (s_accessList s')" and j: "j_entries (s_journal s') = j_entries (s_journal s) @ [e]"
    and e: "entry_wf D e"
    and v: "s_validRevisions s' = s_validRevisions s" "s_nextRevisionId s' = s_nextRevisionId s"
    and rv: "entry_revert D e s' = Ok u" and u: "same_fields s u"
  shows "extends D s s'"
proof -
  have wf: "sdb_wf D s" using inv by (simp add: sdb_inv_def)
  then have "sdb_wf D s'" using obs by (simp add: sdb_wf_def)
  then show ?thesis
    by (rule extends_entry [OF inv _ al j e v rv sdb_eq_same_fields [OF wf u]])
qed

lemma log_entry_more [simp]:
  "s_snapAccounts (log_entry s e) = s_snapAccounts s" "s_snapStorage (log_entry s e) = s_snapStorage s"
  "s_stateObjectsPending (log_entry s e) = s_stateObjectsPending s"
  "logsOf (log_entry s e) = logsOf s"
  by (simp_all add: log_entry_def logsOf_def fun_eq_iff)

lemma logsOf_frame [simp]:
  "logsOf (s\<lparr>s_refund := x\<rparr>) = logsOf s" "logsOf (s\<lparr>s_preimages := p\<rparr>) = logsOf s"
  "logsOf (s\<lparr>s_accessList := al\<rparr>) = logsOf s" "logsOf (s\<lparr>s_journal := j\<rparr>) = logsOf s"
  by (simp_all add: logsOf_def fun_eq_iff)

lemma sdb_inv_al: "sdb_inv D s \<Longrightarrow> al_wf (s_accessList s)"
  by (simp add: sdb_inv_def)

lemma extends_refund:
  assumes "sdb_inv D s"
  shows "extends D s ((log_entry s (RefundChange (s_refund s)))\<lparr>s_refund := x\<rparr>)"
  by (rule extends_field [OF assms, where e = "RefundChange (s_refund s)" and
        u = "(log_entry s (RefundChange (s_refund s)))\<lparr>s_refund := s_refund s\<rparr>"])
    (use sdb_inv_al [OF assms] in \<open>simp_all add: entry_wf_def same_fields_def\<close>)

lemma extends_AddPreimage:
  assumes "sdb_inv D s"
  shows "extends D s (AddPreimage s h p)"
proof (cases "s_preimages s h")
  case None
  then have "extends D s ((log_entry s (AddPreimageChange h))\<lparr>s_preimages := (s_preimages s)(h \<mapsto> p)\<rparr>)"
    by (intro extends_field [OF assms, where e = "AddPreimageChange h" and
          u = "(log_entry s (AddPreimageChange h))\<lparr>s_preimages := s_preimages s\<rparr>"])
      (use sdb_inv_al [OF assms] in \<open>simp_all add: entry_wf_def same_fields_def fun_upd_idem\<close>)
  with None show ?thesis by (simp add: AddPreimage_def)
qed (simp add: AddPreimage_def extends_refl [OF assms])

lemma extends_AddLog:
  assumes "sdb_inv D s"
  shows "extends D s (AddLog s lg)"
proof -
  let ?h = "s_thash s"
  define lg' where "lg' = lg\<lparr>l_TxHash := ?h, l_TxIndex := of_int (s_txIndex s), l_Index := s_logSize s\<rparr>"
  define s1 where "s1 = (log_entry s (AddLogChange ?h))\<lparr>s_logs := (s_logs s)(?h \<mapsto> logsOf s ?h @ [lg']),
      s_logSize := s_logSize s + 1\<rparr>"
  define u where "u = s1\<lparr>s_logs := (s_logs s1)(?h := if logsOf s ?h = [] then None else Some (logsOf s ?h)),
      s_logSize := s_logSize s\<rparr>"
  have op: "AddLog s lg = s1" by (simp add: AddLog_def s1_def lg'_def logsOf_def Let_def)
  have rv: "entry_revert D (AddLogChange ?h) s1 = Ok u"
    by (simp add: s1_def u_def)
  have lu: "logsOf u = logsOf s" unfolding u_def s1_def
    by (rule ext) (simp add: logsOf_def split: option.splits)
  show ?thesis unfolding op
    by (rule extends_field [OF assms _ _ _ _ _ _ _ _ rv])
      (use sdb_inv_al [OF assms] lu in \<open>simp_all add: same_fields_def entry_wf_def\<close>,
       simp_all add: s1_def u_def)
qed

lemma extends_AddAddress:
  assumes "sdb_inv D s"
  shows "extends D s (AddAddressToAccessList s a)"
proof -
  obtain al c where ad: "AddAddress (s_accessList s) a = (al, c)" by fastforce
  have wf: "al_wf al" using AddAddress_wf [OF sdb_inv_al [OF assms] ad] .
  show ?thesis
  proof (cases c)
    case True
    have un: "DeleteAddress al a = s_accessList s" using AddAddress_undo [OF ad] True by simp
    have "extends D s (log_entry (s\<lparr>s_accessList := al\<rparr>) (AccessListAddAccountChange a))"
      by (rule extends_field [OF assms, where e = "AccessListAddAccountChange a" and
            u = "(log_entry (s\<lparr>s_accessList := al\<rparr>) (AccessListAddAccountChange a))\<lparr>s_accessList := s_accessList s\<rparr>"])
        (use wf in \<open>simp_all add: same_fields_def entry_wf_def un\<close>)
    with ad True show ?thesis by (simp add: AddAddressToAccessList_def)
  next
    case False
    then have "al = s_accessList s" using AddAddress_undo [OF ad] by simp
    with ad False extends_refl [OF assms] show ?thesis by (simp add: AddAddressToAccessList_def)
  qed
qed

lemma AddSlot_new_address:
  assumes "\<not> ContainsAddress (s_accessList s) a"
  shows "AddSlotToAccessList s a k = AddSlotToAccessList (AddAddressToAccessList s a) a k"
  using assms
  by (simp add: ContainsAddress_def AddSlotToAccessList_def AddAddressToAccessList_def AddSlot_def
      AddAddress_def log_entry_def split: option.splits)

lemma extends_AddSlot:
  assumes inv: "sdb_inv D s" and inj: "addrHash_inj D" and r: "AddSlotToAccessList s a k = Ok s'"
  shows "extends D s s'"
proof -
  have one: "extends D t s'" if inv: "sdb_inv D t" and c: "ContainsAddress (s_accessList t) a"
    and r: "AddSlotToAccessList t a k = Ok s'" for t
  proof -
    obtain al c' d where ad: "AddSlot (s_accessList t) a k = Ok (al, c', d)"
      using r by (auto simp: AddSlotToAccessList_def bnd_Ok_iff)
    have c': "\<not> c'" using c AddSlot_addrs [OF sdb_inv_al [OF inv] ad] by (simp add: ContainsAddress_iff)
    have wal: "al_wf al" using AddSlot_wf [OF sdb_inv_al [OF inv] ad] .
    have un: "(if d then DeleteSlot al a k else Ok al) = Ok (s_accessList t)"
      using AddSlot_undo [OF sdb_inv_al [OF inv] ad] c' by (auto simp: bnd_Ok_iff)
    show ?thesis
    proof (cases d)
      case True
      then have s': "s' = log_entry (t\<lparr>s_accessList := al\<rparr>) (AccessListAddSlotChange a k)"
        using r ad c' by (simp add: AddSlotToAccessList_def)
      show ?thesis unfolding s'
        by (rule extends_field [OF inv, where e = "AccessListAddSlotChange a k" and
              u = "(log_entry (t\<lparr>s_accessList := al\<rparr>) (AccessListAddSlotChange a k))\<lparr>s_accessList := s_accessList t\<rparr>"])
          (use wal un True in \<open>simp_all add: same_fields_def entry_wf_def\<close>)
    next
      case False
      with un r ad c' have "s' = t" by (simp add: AddSlotToAccessList_def)
      with extends_refl [OF inv] show ?thesis by simp
    qed
  qed
  show ?thesis
  proof (cases "ContainsAddress (s_accessList s) a")
    case False
    note x = extends_AddAddress [OF inv, of a]
    have "ContainsAddress (s_accessList (AddAddressToAccessList s a)) a"
      by (auto simp: AddAddressToAccessList_def AddAddress_def ContainsAddress_def Let_def split: option.splits)
    from extends_trans [OF x one [OF extends_inv [OF x] this]] r AddSlot_new_address [OF False] inv inj
    show ?thesis by (simp add: sdb_inv_def)
  qed (use one inv r in blast)
qed

section \<open>Snapshots\<close>

lemma unobserved_revisions: "unobserved s (s\<lparr>s_validRevisions := r\<rparr>)"
  by (simp add: unobserved_def)

lemma revs_ok_Snapshot:
  assumes "revs_ok s"
  shows "revs_ok (fst (Snapshot s))"
  using assms by (auto simp: revs_ok_def Snapshot_def Let_def sorted_wrt_append journal_length_def)

lemma extends_Snapshot:
  assumes "sdb_inv D s"
  shows "extends D s (fst (Snapshot s))"
proof -
  let ?r = "\<lparr>rev_id = s_nextRevisionId s, rev_journalIndex = journal_length (s_journal s)\<rparr>"
  have s': "fst (Snapshot s) = s\<lparr>s_nextRevisionId := s_nextRevisionId s + 1, s_validRevisions := s_validRevisions s @ [?r]\<rparr>"
    by (simp add: Snapshot_def Let_def)
  have wf: "sdb_wf D s" and al: "al_wf (s_accessList s)" and rk: "revs_ok s"
    using assms by (simp_all add: sdb_inv_def)
  have "unobserved s (fst (Snapshot s))" by (simp add: s' unobserved_def)
  note u = sdb_eq_unobserved [OF wf this]
  have inv: "sdb_inv D (fst (Snapshot s))"
    using u(2) al revs_ok_Snapshot [OF rk] by (simp add: sdb_inv_def s')
  show ?thesis
    by (rule extendsI [where es = "[]" and rs = "[?r]" and u = "fst (Snapshot s)", OF inv])
      (use u in \<open>simp_all add: s' al_chain_def al\<close>)
qed

lemma sort_Search_end: "\<not> i < j \<Longrightarrow> sort_Search i j f = i"
  by (subst sort_Search.simps) simp

text \<open>On an ordered list the binary search finds the smallest index that satisfies the test.\<close>

lemma sort_Search_bounds: "i \<le> j \<Longrightarrow> i \<le> sort_Search i j f \<and> sort_Search i j f \<le> j"
proof (induction i j f rule: sort_Search.induct)
  case (1 i j f)
  show ?case
  proof (cases "i < j")
    case True
    let ?h = "(i + j) div 2"
    have "i \<le> ?h" "?h < j" using True by auto
    with 1 True show ?thesis by (subst (1 2) sort_Search.simps) (auto simp: Let_def)
  qed (use "1.prems" in \<open>simp add: sort_Search_end\<close>)
qed

lemma sort_Search_least:
  assumes "\<forall>x y. i \<le> x \<and> x \<le> y \<and> y < j \<and> f x \<longrightarrow> f y" "i \<le> j"
  shows "(\<forall>k. i \<le> k \<and> k < sort_Search i j f \<longrightarrow> \<not> f k) \<and> (sort_Search i j f < j \<longrightarrow> f (sort_Search i j f))"
  using assms
proof (induction i j f rule: sort_Search.induct)
  case (1 i j f)
  show ?case
  proof (cases "i < j")
    case True
    let ?h = "(i + j) div 2"
    have h: "i \<le> ?h" "?h < j" using True by auto
    have mono: "f y" if "i \<le> x" "x \<le> y" "y < j" "f x" for x y
      using "1.prems"(1) that by blast
    show ?thesis
    proof (cases "f ?h")
      case t: True
      have ss: "sort_Search i j f = sort_Search i ?h f"
        using True t by (subst sort_Search.simps) (simp add: Let_def)
      have "\<forall>x y. i \<le> x \<and> x \<le> y \<and> y < ?h \<and> f x \<longrightarrow> f y"
        using mono order_less_trans [OF _ h(2)] by blast
      from "1.IH"(2) [OF True refl _ this h(1)] t
      have IH: "\<forall>k. i \<le> k \<and> k < sort_Search i ?h f \<longrightarrow> \<not> f k"
        "sort_Search i ?h f < ?h \<longrightarrow> f (sort_Search i ?h f)" by auto
      have "f (sort_Search i ?h f)"
        using IH(2) t sort_Search_bounds [OF h(1), of f] by (cases "sort_Search i ?h f = ?h") auto
      with IH(1) show ?thesis unfolding ss by blast
    next
      case nf: False
      have ss: "sort_Search i j f = sort_Search (?h + 1) j f"
        using True nf by (subst sort_Search.simps) (simp add: Let_def)
      have "\<forall>x y. ?h + 1 \<le> x \<and> x \<le> y \<and> y < j \<and> f x \<longrightarrow> f y"
      proof (intro allI impI)
        fix x y assume A: "?h + 1 \<le> x \<and> x \<le> y \<and> y < j \<and> f x"
        then have "i \<le> x" using h(1) by linarith
        with A show "f y" using mono by blast
      qed
      moreover have "?h + 1 \<le> j" using h by simp
      ultimately have IH: "\<forall>k. ?h + 1 \<le> k \<and> k < sort_Search (?h + 1) j f \<longrightarrow> \<not> f k"
          "sort_Search (?h + 1) j f < j \<longrightarrow> f (sort_Search (?h + 1) j f)"
        using "1.IH"(1) [OF True refl] nf by blast+
      have "\<not> f k" if "i \<le> k" "k < sort_Search (?h + 1) j f" for k
      proof (cases "k \<le> ?h")
        case True
        with mono [OF that(1) True h(2)] nf show ?thesis by blast
      next
        case False
        with IH(1) that(2) show ?thesis by simp
      qed
      with IH(2) show ?thesis unfolding ss by blast
    qed
  qed (use "1.prems" in \<open>auto simp: sort_Search_end\<close>)
qed

text \<open>Where \<open>RevertToSnapshot\<close> finds a revision identifier.\<close>

lemma revision_found:
  assumes "sorted_wrt (\<lambda>r q. rev_id r < rev_id q \<and> P r q) revs" "k < length revs" "rev_id (revs ! k) = n"
  shows "sort_Search 0 (length revs) (\<lambda>i. rev_id (revs ! i) \<ge> n) = k"
proof -
  let ?f = "\<lambda>i. rev_id (revs ! i) \<ge> n" and ?k = "sort_Search 0 (length revs) (\<lambda>i. rev_id (revs ! i) \<ge> n)"
  have lt: "rev_id (revs ! x) < rev_id (revs ! y)" if "x < y" "y < length revs" for x y
    using sorted_wrt_nth_less [OF assms(1) that] by blast
  have mono: "\<forall>x y. 0 \<le> x \<and> x \<le> y \<and> y < length revs \<and> ?f x \<longrightarrow> ?f y"
    using lt by (metis dual_order.trans le_neq_implies_less less_imp_le)
  have least: "\<not> ?f x" if "x < ?k" for x
    using sort_Search_least [OF mono le0, THEN conjunct1] that by blast
  have hit: "?f ?k" if "?k < length revs"
    using sort_Search_least [OF mono le0, THEN conjunct2] that by blast
  show ?thesis
  proof (rule linorder_cases [of ?k k])
    assume "?k < k"
    with hit lt [of ?k k] assms(2,3) show ?thesis by simp
  next
    assume "k < ?k"
    with least [of k] assms(3) show ?thesis by simp
  qed simp
qed

lemma revision_found_conv:
  assumes "RevertToSnapshot D s n = Ok s'"
  obtains k where "k < length (s_validRevisions s)" "rev_id (s_validRevisions s ! k) = n"
    "bnd (journal_revert D s (rev_journalIndex (s_validRevisions s ! k)))
       (\<lambda>s. Ok (s\<lparr>s_validRevisions := take k (s_validRevisions s)\<rparr>)) = Ok s'"
proof -
  let ?revs = "s_validRevisions s"
  let ?k = "sort_Search 0 (length ?revs) (\<lambda>i. rev_id (?revs ! i) \<ge> n)"
  have "?k \<le> length ?revs" using sort_Search_bounds [of 0 "length ?revs"] by simp
  then show ?thesis
    using assms that [of ?k] by (auto simp: RevertToSnapshot_def Let_def split: if_splits)
qed

text \<open>Reverting to a revision that is at least as new as the base keeps extending the base.\<close>

lemma journal_revert_suffix:
  assumes "j_entries (s_journal s) = js @ fs" "idx = int (length js)"
  shows "journal_revert D s idx =
    bnd (revert_entries D (rev fs) s) (\<lambda>s. Ok (s\<lparr>s_journal := (s_journal s)\<lparr>j_entries := js\<rparr>\<rparr>))"
proof -
  have "j_entries (s_journal s') = js @ fs" if "revert_entries D (rev fs) s = Ok s'" for s'
    using revert_entries_frame [OF that] assms by simp
  then show ?thesis using assms
    by (cases "revert_entries D (rev fs) s") (simp_all add: journal_revert_def Let_def)
qed

lemma revs_ok_take:
  assumes rk: "revs_ok s" and k: "k < length (s_validRevisions s)"
    and v: "s_validRevisions s' = take k (s_validRevisions s)" and n: "s_nextRevisionId s' = s_nextRevisionId s"
    and l: "journal_length (s_journal s') = rev_journalIndex (s_validRevisions s ! k)"
  shows "revs_ok s'"
proof -
  let ?R = "\<lambda>r q. rev_id r < rev_id q \<and> rev_journalIndex r \<le> rev_journalIndex q"
  have so: "sorted_wrt ?R (s_validRevisions s)"
    and al: "\<And>r. r \<in> set (s_validRevisions s) \<Longrightarrow> rev_id r < s_nextRevisionId s \<and> 0 \<le> rev_journalIndex r"
    using rk by (auto simp: revs_ok_def)
  have "rev_journalIndex r \<le> journal_length (s_journal s')" if r: "r \<in> set (take k (s_validRevisions s))" for r
  proof -
    obtain i where "i < k" "r = s_validRevisions s ! i" using r k by (auto simp: in_set_conv_nth)
    with sorted_wrt_nth_less [OF so _ k] l show ?thesis by simp
  qed
  moreover have "sorted_wrt ?R (take k (s_validRevisions s))" by (rule sorted_wrt_take [OF so])
  ultimately show ?thesis using al in_set_takeD [of _ k "s_validRevisions s"] by (auto simp: revs_ok_def v n)
qed

lemma extends_RevertToSnapshot:
  assumes b: "sdb_inv D b" and x: "extends D b s" and inj: "addrHash_inj D"
    and id: "s_nextRevisionId b \<le> n" and r: "RevertToSnapshot D s n = Ok s'"
  shows "extends D b s'"
proof -
  obtain es rs u where e: "j_entries (s_journal s) = j_entries (s_journal b) @ es" "\<forall>e\<in>set es. entry_wf D e"
    "revert_entries D (rev es) s = Ok u" "sdb_eq D u b" "sdb_wf D u" "al_chain D es s"
    "s_validRevisions s = s_validRevisions b @ rs"
    "\<forall>r\<in>set rs. s_nextRevisionId b \<le> rev_id r \<and> journal_length (s_journal b) \<le> rev_journalIndex r"
    using x unfolding extends_def by blast
  have inv: "sdb_inv D s" and nx: "s_nextRevisionId b \<le> s_nextRevisionId s" using x by (auto simp: extends_def)
  have rk: "revs_ok s" and wf: "sdb_wf D s" using inv by (simp_all add: sdb_inv_def)
  obtain k where k: "k < length (s_validRevisions s)" "rev_id (s_validRevisions s ! k) = n"
    and jr: "bnd (journal_revert D s (rev_journalIndex (s_validRevisions s ! k)))
       (\<lambda>s. Ok (s\<lparr>s_validRevisions := take k (s_validRevisions s)\<rparr>)) = Ok s'"
    by (rule revision_found_conv [OF r])
  have "length (s_validRevisions b) \<le> k"
  proof (rule ccontr)
    assume "\<not> length (s_validRevisions b) \<le> k"
    then have "s_validRevisions s ! k \<in> set (s_validRevisions b)" by (simp add: e(7) nth_append)
    with b k(2) id show False by (auto simp: sdb_inv_def revs_ok_def)
  qed
  then obtain i where i: "k = length (s_validRevisions b) + i" "i < length rs"
    using k(1) e(7) le_Suc_ex by fastforce
  define idx where "idx = rev_journalIndex (s_validRevisions s ! k)"
  have "rs ! i \<in> set rs" "s_validRevisions s ! k \<in> set (s_validRevisions s)"
    "s_validRevisions s ! k = rs ! i" using i k(1) by (simp_all add: e(7) nth_append)
  then have idx: "journal_length (s_journal b) \<le> idx" "idx \<le> journal_length (s_journal s)"
    using e(8) rk by (auto simp: idx_def revs_ok_def)
  define m where "m = nat (idx - journal_length (s_journal b))"
  let ?J = "j_entries (s_journal b)" and ?pre = "take m es" and ?post = "drop m es"
  have m: "idx = int (length (?J @ ?pre))" "m \<le> length es"
    using idx e(1) by (auto simp: m_def journal_length_def)
  have js: "j_entries (s_journal s) = (?J @ ?pre) @ ?post" by (simp add: e(1))
  obtain s2 where s2: "revert_entries D (rev ?post) s = Ok s2" "al_wf (s_accessList s2)"
    using e(6) append_take_drop_id [of m es, symmetric] unfolding al_chain_def by blast
  have fr: "s_validRevisions s2 = s_validRevisions s" "s_nextRevisionId s2 = s_nextRevisionId s"
    using revert_entries_frame [OF s2(1)] by simp_all
  have s': "s' = s2\<lparr>s_journal := (s_journal s2)\<lparr>j_entries := ?J @ ?pre\<rparr>,
      s_validRevisions := take k (s_validRevisions s)\<rparr>"
    using jr fr unfolding idx_def [symmetric] by (simp add: journal_revert_suffix [OF js m(1)] s2(1))
  have ep: "\<forall>e\<in>set (rev ?post). entry_wf D e" "\<forall>e\<in>set (rev ?pre). entry_wf D e" "\<forall>e\<in>set ?pre. entry_wf D e"
    using e(2) by (auto dest: in_set_dropD in_set_takeD)
  have w2: "sdb_wf D s2" using revert_entries_cong [OF sdb_eq_refl [OF wf] wf wf inj ep(1) s2(1)] by blast
  have "unobserved s2 s'" by (simp add: s' unobserved_def)
  note o2 = sdb_eq_unobserved [OF w2 this]
  have again: "\<exists>v'. revert_entries D es' s' = Ok v' \<and> sdb_eq D v v' \<and> sdb_wf D v'"
    if "revert_entries D es' s2 = Ok v" "\<forall>e\<in>set es'. entry_wf D e" for es' v
    using revert_entries_cong [OF sdb_eq_sym [OF o2(1)] w2 o2(2) inj that(2,1)] by blast
  have "revert_entries D (rev ?pre) s2 = Ok u"
    using e(3) s2(1) append_take_drop_id [of m es] by (metis bnd.simps(1) rev_append revert_entries_append)
  from again [OF this ep(2)] obtain u' where u': "revert_entries D (rev ?pre) s' = Ok u'" "sdb_eq D u u'" "sdb_wf D u'"
    by blast
  have ch: "al_chain D ?pre s'"
    unfolding al_chain_def
  proof (intro allI impI)
    fix fs gs assume fg: "?pre = fs @ gs"
    then have "es = fs @ (gs @ ?post)" by (metis append.assoc append_take_drop_id)
    then obtain v where v: "revert_entries D (rev (gs @ ?post)) s = Ok v" "al_wf (s_accessList v)"
      using e(6) unfolding al_chain_def by blast
    then have "revert_entries D (rev gs) s2 = Ok v" using s2(1) by (simp add: revert_entries_append)
    moreover have "\<forall>e\<in>set (rev gs). entry_wf D e" using ep(3) fg by auto
    ultimately obtain v' where "revert_entries D (rev gs) s' = Ok v'" "sdb_eq D v v'" using again by blast
    with v(2) sdb_eqD(13) [of D v v'] show "\<exists>u. revert_entries D (rev gs) s' = Ok u \<and> al_wf (s_accessList u)"
      by auto
  qed
  have jl: "journal_length (s_journal s') = rev_journalIndex (s_validRevisions s ! k)"
    using m(1) unfolding idx_def [symmetric] by (simp add: s' journal_length_def)
  have "s_validRevisions s' = take k (s_validRevisions s)" "s_nextRevisionId s' = s_nextRevisionId s"
    by (simp_all add: s' fr)
  from revs_ok_take [OF rk k(1) this jl] have inv': "sdb_inv D s'" using o2(2) s2(2) by (simp add: sdb_inv_def s')
  show ?thesis
  proof (rule extendsI [where es = ?pre and rs = "take i rs" and u = u', OF inv' _ _ ep(3) u'(1) _ u'(3) ch])
    show "s_nextRevisionId b \<le> s_nextRevisionId s'" using nx fr by (simp add: s')
    show "j_entries (s_journal s') = ?J @ ?pre" by (simp add: s')
    show "sdb_eq D u' b" using sdb_eq_trans [OF sdb_eq_sym [OF u'(2)] e(4)] .
    show "s_validRevisions s' = s_validRevisions b @ take i rs" using i by (simp add: s' e(7))
    show "s_nextRevisionId b \<le> rev_id r \<and> journal_length (s_journal b) \<le> rev_journalIndex r"
      if "r \<in> set (take i rs)" for r using e(8) in_set_takeD [OF that] by blast
  qed
qed

section \<open>Getters\<close>

text \<open>
  What every getter of the interface returns.  The size of a code is read from the object's code if that has
  been loaded and otherwise from the database of codes, so it agrees if the database reports the sizes of its codes.
\<close>

definition codeSizes_ok :: "'t backend \<Rightarrow> bool" where
  "codeSizes_ok D \<longleftrightarrow>
     (\<forall>ah h c. ContractCode D ah h = Inr c \<longrightarrow> ContractCodeSize D ah h = (int (length c), None))"

definition getters_agree :: "'t backend \<Rightarrow> 't StateDB \<Rightarrow> 't StateDB \<Rightarrow> bool" where
  "getters_agree D u s \<longleftrightarrow>
     (\<forall>a. snd (Exist D u a) = snd (Exist D s a) \<and> snd (Empty D u a) = snd (Empty D s a) \<and>
          snd (GetBalance D u a) = snd (GetBalance D s a) \<and> snd (GetNonce D u a) = snd (GetNonce D s a) \<and>
          snd (GetCode D u a) = snd (GetCode D s a) \<and> snd (GetCodeHash D u a) = snd (GetCodeHash D s a) \<and>
          snd (HasSuicided D u a) = snd (HasSuicided D s a) \<and>
          (codeSizes_ok D \<longrightarrow> snd (GetCodeSize D u a) = snd (GetCodeSize D s a)) \<and>
          AddressInAccessList u a = AddressInAccessList s a \<and>
          (\<forall>k. snd (GetState D u a k) = snd (GetState D s a k) \<and>
               snd (GetCommittedState D u a k) = snd (GetCommittedState D s a k) \<and>
               SlotInAccessList u a k = SlotInAccessList s a k)) \<and>
     (\<forall>h b. snd (GetLogs u h b) = snd (GetLogs s h b)) \<and>
     s_refund u = s_refund s \<and> s_preimages u = s_preimages s \<and> s_logSize u = s_logSize s"

lemma getters_account:
  assumes "sdb_wf D s"
  shows "snd (Exist D s a) = (account D s a \<noteq> None)"
    "snd (Empty D s a) = (case account D s a of None \<Rightarrow> True | Some ob \<Rightarrow> so_empty D ob)"
    "snd (GetBalance D s a) = (case account D s a of None \<Rightarrow> 0 | Some ob \<Rightarrow> so_Balance ob)"
    "snd (GetNonce D s a) = (case account D s a of None \<Rightarrow> 0 | Some ob \<Rightarrow> so_Nonce ob)"
    "snd (GetCodeHash D s a) = (case account D s a of None \<Rightarrow> 0 | Some ob \<Rightarrow> BytesToHash (so_CodeHash ob))"
    "snd (HasSuicided D s a) = (case account D s a of None \<Rightarrow> False | Some ob \<Rightarrow> so_suicided ob)"
    "snd (GetCode D s a) = (case account D s a of None \<Rightarrow> [] | Some ob \<Rightarrow> nilBytes (codeOf D ob))"
    "snd (GetState D s a k) =
      (case account D s a of None \<Rightarrow> 0 | Some ob \<Rightarrow> current D (s_snap s) (s_snapDestructs s) ob k)"
    "snd (GetCommittedState D s a k) =
      (case account D s a of None \<Rightarrow> 0 | Some ob \<Rightarrow> committed D (s_snap s) (s_snapDestructs s) ob k)"
proof -
  obtain s1 q where g: "getStateObject D s a = (s1, q)" by fastforce
  note v = getStateObject_view [OF assms g]
  have sn: "s_snap s1 = s_snap s" "s_snapDestructs s1 = s_snapDestructs s" using sdb_eqD [OF v(2)] by auto
  have fk: "so_fakeStorage ob = None" if "q = Some ob" for ob
    using v(3,7) that by (auto simp: sdb_wf_def obj_wf_def)
  show "snd (Exist D s a) = (account D s a \<noteq> None)"
    "snd (Empty D s a) = (case account D s a of None \<Rightarrow> True | Some ob \<Rightarrow> so_empty D ob)"
    "snd (GetBalance D s a) = (case account D s a of None \<Rightarrow> 0 | Some ob \<Rightarrow> so_Balance ob)"
    "snd (GetNonce D s a) = (case account D s a of None \<Rightarrow> 0 | Some ob \<Rightarrow> so_Nonce ob)"
    "snd (GetCodeHash D s a) = (case account D s a of None \<Rightarrow> 0 | Some ob \<Rightarrow> BytesToHash (so_CodeHash ob))"
    "snd (HasSuicided D s a) = (case account D s a of None \<Rightarrow> False | Some ob \<Rightarrow> so_suicided ob)"
    unfolding Exist_def Empty_def GetBalance_def GetNonce_def GetCodeHash_def HasSuicided_def g
    by (simp_all add: v(1) [symmetric] split: option.splits)
  show "snd (GetCode D s a) = (case account D s a of None \<Rightarrow> [] | Some ob \<Rightarrow> nilBytes (codeOf D ob))"
    "snd (GetState D s a k) =
      (case account D s a of None \<Rightarrow> 0 | Some ob \<Rightarrow> current D (s_snap s) (s_snapDestructs s) ob k)"
    "snd (GetCommittedState D s a k) =
      (case account D s a of None \<Rightarrow> 0 | Some ob \<Rightarrow> committed D (s_snap s) (s_snapDestructs s) ob k)"
    unfolding GetCode_def GetState_def GetCommittedState_def g v(1) [symmetric]
    using so_Code_view(2) [OF fk] so_GetState_view(2) [OF fk] so_GetCommittedState_view(2) [OF fk]
    by (cases q; simp add: sn case_prod_beta)+
qed

lemma GetCodeSize_account:
  assumes "sdb_wf D s"
  shows "snd (GetCodeSize D s a) = (case account D s a of None \<Rightarrow> 0 | Some ob \<Rightarrow> snd (so_CodeSize D ob))"
proof -
  obtain s1 q where g: "getStateObject D s a = (s1, q)" by fastforce
  show ?thesis
    unfolding GetCodeSize_def g getStateObject_view(1) [OF assms g, symmetric] by (cases q) (simp_all add: case_prod_beta)
qed

lemma so_CodeSize_eq:
  assumes "codeSizes_ok D" "obj_eq D sn sd o1 o2"
  shows "snd (so_CodeSize D o1) = snd (so_CodeSize D o2)"
proof -
  have h: "so_CodeHash o1 = so_CodeHash o2" "so_addrHash o1 = so_addrHash o2" "codeOf D o1 = codeOf D o2"
    using assms(2) by (simp_all add: obj_eq_def so_CodeHash_def)
  have sz: "snd (so_CodeSize D ob) =
      (case codeOf D ob of
         Some c \<Rightarrow> int (length c)
       | None \<Rightarrow> if so_CodeHash ob = emptyCodeHash D then 0
                 else fst (ContractCodeSize D (so_addrHash ob) (BytesToHash (so_CodeHash ob))))" for ob
    using assms(1) unfolding codeOf_eq so_CodeSize_def codeSizes_ok_def
    by (auto split: option.splits sum.splits prod.splits)
  show ?thesis unfolding sz h ..
qed

lemma getters_agreeI:
  assumes eq: "sdb_eq D u s" and wf: "sdb_wf D u" "sdb_wf D s"
  shows "getters_agree D u s"
proof -
  note f = sdb_eqD [OF eq]
  have acc: "rel_option (obj_eq D (s_snap s) (s_snapDestructs s)) (account D u a) (account D s a)" for a
    using account_eq [OF eq, of a] f(2,3) by simp
  have em: "so_empty D o1 = so_empty D o2" if "obj_eq D sn sd o1 o2" for sn sd o1 o2
    using that by (simp add: obj_eq_def so_empty_def so_CodeHash_def)
  have "GetLogs u h b = (fst (GetLogs u h b), map (\<lambda>l. l\<lparr>l_BlockHash := b\<rparr>) (logsOf u h))" for u :: "'a StateDB" and h b
    by (auto simp: GetLogs_def logsOf_def Let_def split: option.splits)
  then have "snd (GetLogs u h b) = snd (GetLogs s h b)" for h b using f(10) by (metis snd_conv)
  moreover have "snd (Exist D u a) = snd (Exist D s a) \<and> snd (Empty D u a) = snd (Empty D s a) \<and>
      snd (GetBalance D u a) = snd (GetBalance D s a) \<and> snd (GetNonce D u a) = snd (GetNonce D s a) \<and>
      snd (GetCode D u a) = snd (GetCode D s a) \<and> snd (GetCodeHash D u a) = snd (GetCodeHash D s a) \<and>
      snd (HasSuicided D u a) = snd (HasSuicided D s a) \<and>
      snd (GetState D u a k) = snd (GetState D s a k) \<and>
      snd (GetCommittedState D u a k) = snd (GetCommittedState D s a k)" for a k
    unfolding getters_account [OF wf(1)] getters_account [OF wf(2)] f(2,3) using acc [of a]
    by (cases "account D u a"; cases "account D s a")
      (simp_all add: em, simp_all add: obj_eq_def so_Balance_def so_Nonce_def so_CodeHash_def)
  moreover have "snd (GetCodeSize D u a) = snd (GetCodeSize D s a)" if "codeSizes_ok D" for a
    unfolding GetCodeSize_account [OF wf(1)] GetCodeSize_account [OF wf(2)] using acc [of a] so_CodeSize_eq [OF that]
    by (cases "account D u a"; cases "account D s a") auto
  ultimately show ?thesis
    using f unfolding getters_agree_def AddressInAccessList_def SlotInAccessList_def by simp
qed

text \<open>The getters only fill caches.\<close>

lemma extends_via_get:
  assumes inv: "sdb_inv D s" and inj: "addrHash_inj D" and g: "getStateObject D s a = (s1, Some ob)"
    and f: "so_fakeStorage ob = None \<Longrightarrow> obj_eq D (s_snap s1) (s_snapDestructs s1) ob' ob"
  shows "extends D s (putObject s1 a ob')"
proof -
  have wf: "sdb_wf D s" using inv by (simp add: sdb_inv_def)
  note v = getStateObject_view [OF wf g] and x = extends_getStateObject [OF inv g]
  have live: "s_stateObjects s1 a = Some ob" using v(7) by simp
  then have "so_fakeStorage ob = None" using v(3) by (auto simp: sdb_wf_def obj_wf_def)
  from extends_trans [OF x extends_reput [OF extends_inv [OF x] live f [OF this]] wf inj] show ?thesis .
qed

lemma extends_getters:
  assumes inv: "sdb_inv D s" and inj: "addrHash_inj D"
  shows "extends D s (fst (Exist D s a))" "extends D s (fst (Empty D s a))"
    "extends D s (fst (GetBalance D s a))" "extends D s (fst (GetNonce D s a))"
    "extends D s (fst (GetCodeHash D s a))" "extends D s (fst (HasSuicided D s a))"
    "extends D s (fst (GetCode D s a))" "extends D s (fst (GetCodeSize D s a))"
    "extends D s (fst (GetState D s a k))" "extends D s (fst (GetCommittedState D s a k))"
proof -
  obtain s1 q where g: "getStateObject D s a = (s1, q)" by fastforce
  note x = extends_getStateObject [OF inv g]
  have put: "extends D s (putObject s1 a ob')" if "q = Some ob"
    "so_fakeStorage ob = None \<Longrightarrow> obj_eq D (s_snap s1) (s_snapDestructs s1) ob' ob" for ob ob'
    by (rule extends_via_get [OF inv inj]) (use g that in auto)
  show "extends D s (fst (Exist D s a))" "extends D s (fst (Empty D s a))"
    "extends D s (fst (GetBalance D s a))" "extends D s (fst (GetNonce D s a))"
    "extends D s (fst (GetCodeHash D s a))" "extends D s (fst (HasSuicided D s a))"
    unfolding Exist_def Empty_def GetBalance_def GetNonce_def GetCodeHash_def HasSuicided_def g
    using x by (simp_all split: option.splits)
  show "extends D s (fst (GetCode D s a))" "extends D s (fst (GetCodeSize D s a))"
    "extends D s (fst (GetState D s a k))" "extends D s (fst (GetCommittedState D s a k))"
    unfolding GetCode_def GetCodeSize_def GetState_def GetCommittedState_def g
    using x put [OF _ so_Code_view(1)] put [OF _ so_CodeSize_view] put [OF _ so_GetState_view(1)]
      put [OF _ so_GetCommittedState_view(1)]
    by (cases q; simp add: case_prod_beta)+
qed

section \<open>Sequences of operations\<close>

text \<open>
  One call of an operation of the state database between a snapshot and its revert.  \<open>n\<close> is the
  smallest revision identifier the caller may revert to.
\<close>

inductive sdb_step :: "'t backend \<Rightarrow> int \<Rightarrow> 't StateDB \<Rightarrow> 't StateDB \<Rightarrow> bool" for D n where
  step_AddBalance: "sdb_step D n s (AddBalance D s a x)"
| step_SubBalance: "sdb_step D n s (SubBalance D s a x)"
| step_SetBalance: "sdb_step D n s (SetBalance D s a x)"
| step_SetNonce: "sdb_step D n s (SetNonce D s a nonce)"
| step_SetCode: "sdb_step D n s (SetCode D s a c)"
| step_SetState: "sdb_step D n s (SetState D s a k v)"
| step_CreateAccount: "sdb_step D n s (CreateAccount D s a)"
| step_Suicide: "sdb_step D n s (fst (Suicide D s a))"
| step_AddLog: "sdb_step D n s (AddLog s lg)"
| step_AddPreimage: "sdb_step D n s (AddPreimage s h p)"
| step_AddRefund: "sdb_step D n s (AddRefund s g)"
| step_SubRefund: "SubRefund s g = Ok s' \<Longrightarrow> sdb_step D n s s'"
| step_AddAddress: "sdb_step D n s (AddAddressToAccessList s a)"
| step_AddSlot: "AddSlotToAccessList s a k = Ok s' \<Longrightarrow> sdb_step D n s s'"
| step_Exist: "sdb_step D n s (fst (Exist D s a))"
| step_Empty: "sdb_step D n s (fst (Empty D s a))"
| step_GetBalance: "sdb_step D n s (fst (GetBalance D s a))"
| step_GetNonce: "sdb_step D n s (fst (GetNonce D s a))"
| step_GetCodeHash: "sdb_step D n s (fst (GetCodeHash D s a))"
| step_HasSuicided: "sdb_step D n s (fst (HasSuicided D s a))"
| step_GetCode: "sdb_step D n s (fst (GetCode D s a))"
| step_GetCodeSize: "sdb_step D n s (fst (GetCodeSize D s a))"
| step_GetState: "sdb_step D n s (fst (GetState D s a k))"
| step_GetCommittedState: "sdb_step D n s (fst (GetCommittedState D s a k))"
| step_Snapshot: "sdb_step D n s (fst (Snapshot s))"
| step_Revert: "n \<le> r \<Longrightarrow> RevertToSnapshot D s r = Ok s' \<Longrightarrow> sdb_step D n s s'"

lemma extends_step:
  assumes b: "sdb_inv D b" and x: "extends D b s" and inj: "addrHash_inj D"
    and st: "sdb_step D (s_nextRevisionId b) s s'"
  shows "extends D b s'"
proof -
  have inv: "sdb_inv D s" by (rule extends_inv [OF x])
  have wb: "sdb_wf D b" using b by (simp add: sdb_inv_def)
  note go = extends_trans [OF x _ wb inj]
  from st show ?thesis
  proof cases
    case (step_SubRefund g)
    then have "s' = (log_entry s (RefundChange (s_refund s)))\<lparr>s_refund := s_refund s - g\<rparr>"
      by (simp add: SubRefund_def split: if_splits)
    then show ?thesis using go extends_refund [OF inv] by blast
  next
    case (step_AddRefund g)
    then show ?thesis using go extends_refund [OF inv] by (simp add: AddRefund_def)
  next
    case (step_AddSlot a k)
    from go [OF extends_AddSlot [OF inv inj this]] show ?thesis .
  next
    case (step_Revert r)
    from extends_RevertToSnapshot [OF b x inj this] show ?thesis .
  qed (hypsubst, rule go, rule extends_ops [OF inv inj] extends_CreateAccount [OF inv inj]
      extends_Suicide [OF inv inj] extends_AddLog [OF inv] extends_AddPreimage [OF inv]
      extends_AddAddress [OF inv] extends_getters [OF inv inj] extends_Snapshot [OF inv])+
qed

lemma extends_steps:
  assumes b: "sdb_inv D b" and inj: "addrHash_inj D"
    and st: "(sdb_step D (s_nextRevisionId b))\<^sup>*\<^sup>* b s"
  shows "extends D b s"
  using st
proof (induction rule: rtranclp_induct)
  case base
  show ?case by (rule extends_refl [OF b])
next
  case (step s s')
  from extends_step [OF b step.IH inj step.hyps(2)] show ?case .
qed

lemma revert_to_base:
  assumes inv: "sdb_inv D s" and inj: "addrHash_inj D" and sn: "Snapshot s = (s0, r)" and x: "extends D s0 s1"
  shows "\<exists>u. RevertToSnapshot D s1 r = Ok u \<and> sdb_eq D u s \<and> sdb_inv D u \<and>
    j_entries (s_journal u) = j_entries (s_journal s) \<and> s_validRevisions u = s_validRevisions s"
proof -
  have wf: "sdb_wf D s" using inv by (simp add: sdb_inv_def)
  let ?q = "\<lparr>rev_id = r, rev_journalIndex = journal_length (s_journal s)\<rparr>"
  have r: "r = s_nextRevisionId s" and s0: "s_journal s0 = s_journal s" "s_validRevisions s0 = s_validRevisions s @ [?q]"
    using sn by (auto simp: Snapshot_def Let_def)
  obtain es rs u where e: "j_entries (s_journal s1) = j_entries (s_journal s0) @ es" "\<forall>e\<in>set es. entry_wf D e"
    "revert_entries D (rev es) s1 = Ok u" "sdb_eq D u s0" "sdb_wf D u" "al_chain D es s1"
    "s_validRevisions s1 = s_validRevisions s0 @ rs"
    using x unfolding extends_def by blast
  have "s0 = fst (Snapshot s)" using sn by simp
  then have "extends D s s0" using extends_Snapshot [OF inv] by simp
  from extends_trans [OF this x wf inj] have sx: "extends D s s1" .
  let ?k = "length (s_validRevisions s)"
  have nth: "s_validRevisions s1 ! ?k = ?q" "?k < length (s_validRevisions s1)"
    using e(7) s0(2) by (simp_all add: nth_append)
  have "revs_ok s1" using extends_inv [OF sx] by (simp add: sdb_inv_def)
  then have "sort_Search 0 (length (s_validRevisions s1)) (\<lambda>i. rev_id (s_validRevisions s1 ! i) \<ge> r) = ?k"
    using nth by (intro revision_found) (auto simp: revs_ok_def)
  then have "RevertToSnapshot D s1 r = bnd (journal_revert D s1 (journal_length (s_journal s)))
      (\<lambda>s. Ok (s\<lparr>s_validRevisions := take ?k (s_validRevisions s)\<rparr>))"
    using nth by (simp add: RevertToSnapshot_def Let_def)
  also have "\<dots> = Ok (u\<lparr>s_journal := (s_journal u)\<lparr>j_entries := j_entries (s_journal s)\<rparr>,
      s_validRevisions := s_validRevisions s\<rparr>)"
    using revert_entries_frame [OF e(3)] e(7) s0
    by (simp add: journal_revert_suffix [OF e(1)] journal_length_def e(3))
  finally have rt: "RevertToSnapshot D s1 r = Ok (u\<lparr>s_journal := (s_journal u)\<lparr>j_entries := j_entries (s_journal s)\<rparr>,
      s_validRevisions := s_validRevisions s\<rparr>)" (is "_ = Ok ?u") .
  have "unobserved u ?u" by (simp add: unobserved_def)
  note o = sdb_eq_unobserved [OF e(5) this]
  have "unobserved s s0" using sn by (auto simp: Snapshot_def Let_def unobserved_def)
  note o0 = sdb_eq_unobserved [OF wf this]
  have eq: "sdb_eq D ?u s" using sdb_eq_trans [OF o(1) sdb_eq_trans [OF e(4) o0(1)]] .
  have "extends D s ?u" by (rule extends_RevertToSnapshot [OF inv sx inj _ rt]) (simp add: r)
  from extends_inv [OF this] eq rt show ?thesis by simp
qed

text \<open>C2. \<open>RevertToSnapshot\<close> restores the state of the matching \<open>Snapshot\<close>: after any sequence of journalled state
  operations and queries (not \<open>Prepare\<close>, \<open>SetStorage\<close> and \<open>Finalise\<close>, which the journal does not cover), nested snapshots and reverts included, it succeeds, every getter returns what it
  returned at the snapshot, and the journal and the stack of revisions are as before.  The hash
  function is assumed not to collide on addresses.\<close>

theorem revert_restores_snapshot:
  assumes "sdb_inv D s" "addrHash_inj D" "Snapshot s = (s0, r)"
    "(sdb_step D (s_nextRevisionId s0))\<^sup>*\<^sup>* s0 s1"
  shows "\<exists>u. RevertToSnapshot D s1 r = Ok u \<and> getters_agree D u s \<and> sdb_inv D u \<and>
    j_entries (s_journal u) = j_entries (s_journal s) \<and> s_validRevisions u = s_validRevisions s"
proof -
  have "s0 = fst (Snapshot s)" using assms(3) by simp
  then have "sdb_inv D s0" using extends_inv [OF extends_Snapshot [OF assms(1)]] by simp
  from revert_to_base [OF assms(1-3) extends_steps [OF this assms(2,4)]] obtain u where
    u: "RevertToSnapshot D s1 r = Ok u" "sdb_eq D u s" "sdb_inv D u"
      "j_entries (s_journal u) = j_entries (s_journal s)" "s_validRevisions u = s_validRevisions s" by blast
  have "getters_agree D u s" by (rule getters_agreeI [OF u(2)]) (use u(3) assms(1) in \<open>simp_all add: sdb_inv_def\<close>)
  with u show ?thesis by blast
qed

text \<open>A backing store kept in memory, with a hash that does not collide on addresses.\<close>

definition memoryBackend :: "(bytes \<Rightarrow> bytes option) backend" where
  "memoryBackend =
     \<lparr>OpenTrie = (\<lambda>_. Inr (\<lambda>_. None)), OpenStorageTrie = (\<lambda>_ _. Inr (\<lambda>_. None)),
      OpenEmptyStorageTrie = (\<lambda>_ _. None), ContractCode = (\<lambda>_ _. Inr []), ContractCodeSize = (\<lambda>_ _. (0, None)),
      TryGet = (\<lambda>t k. Inr (case t k of None \<Rightarrow> [] | Some v \<Rightarrow> v)), TryUpdate = (\<lambda>t k v. (t(k \<mapsto> v), None)),
      TryDelete = (\<lambda>t k. (t(k := None), None)), trieHash = (\<lambda>_. 0), trieCommit = (\<lambda>t. (t, Inr 0)),
      keccak256 = (\<lambda>b. of_nat (be_nat b))\<rparr>"

definition emptyState :: "(bytes \<Rightarrow> bytes option) StateDB" where
  "emptyState = (case StateDB_New memoryBackend 0 None of Inr s \<Rightarrow> s)"

lemma addrHash_inj_memory: "addrHash_inj memoryBackend"
  unfolding addrHash_inj_def
proof (rule injI)
  fix a b :: address
  assume eq: "keccak256 memoryBackend (address_Bytes a) = keccak256 memoryBackend (address_Bytes b)"
  have be: "be_nat (address_Bytes x) = unat x" for x :: address
    using unsigned_less [of x, where ?'a = nat] by (simp add: address_Bytes_def be_nat_to_be_less)
  have "unat (of_nat (unat x) :: hash) = unat x" for x :: address
    unfolding unat_of_nat using unsigned_less [of x, where ?'a = nat] by (intro mod_less) simp
  then have "unat a = unat b" using eq by (metis be memoryBackend_def backend.select_convs(11))
  then show "a = b" by (rule unsigned_word_eqI [where ?'a = nat])
qed

lemma sdb_inv_emptyState: "sdb_inv memoryBackend emptyState"
  by (auto simp: sdb_inv_def sdb_wf_def store_wf_def revs_ok_def emptyState_def StateDB_New_def
      memoryBackend_def dbAccount_def al_wf_new)

theorem revert_restores_snapshot_witness:
  "\<exists>u. RevertToSnapshot memoryBackend
         (SetState memoryBackend (AddBalance memoryBackend (fst (Snapshot emptyState)) 1 5) 1 2 3) 0 = Ok u \<and>
       getters_agree memoryBackend u emptyState"
proof -
  let ?D = memoryBackend and ?s0 = "fst (Snapshot emptyState)"
  have sn: "Snapshot emptyState = (?s0, 0)"
    by (simp add: Snapshot_def Let_def emptyState_def StateDB_New_def memoryBackend_def)
  have "(sdb_step ?D (s_nextRevisionId ?s0))\<^sup>*\<^sup>* ?s0 (SetState ?D (AddBalance ?D ?s0 1 5) 1 2 3)"
    by (rule rtranclp.rtrancl_into_rtrancl [OF r_into_rtranclp]) (rule step_AddBalance step_SetState)+
  from revert_restores_snapshot [OF sdb_inv_emptyState addrHash_inj_memory sn this] show ?thesis by blast
qed

end
