(* ===== verification/Uint256.thy ===== *)
theory Uint256
  imports Common "HOL-Library.Signed_Division"
begin

text \<open>
  The 256-bit integers of the package \<open>github.com/holiman/uint256\<close>.  The package is not part of
  the repository, so its methods are a record of functions that the virtual machine takes as a
  parameter.  The value of a \<open>uint256.Int\<close> is a 256-bit word; \<open>Clear\<close> and \<open>SetOne\<close> give the words
  0 and 1.  \<open>uint256_ok\<close> states the documented behaviour of the methods that theorems rely on.
\<close>

record uint256 =
  u_Add :: "u256 \<Rightarrow> u256 \<Rightarrow> u256"
  u_Sub :: "u256 \<Rightarrow> u256 \<Rightarrow> u256"
  u_Mul :: "u256 \<Rightarrow> u256 \<Rightarrow> u256"
  u_Div :: "u256 \<Rightarrow> u256 \<Rightarrow> u256"
  u_SDiv :: "u256 \<Rightarrow> u256 \<Rightarrow> u256"
  u_Mod :: "u256 \<Rightarrow> u256 \<Rightarrow> u256"
  u_SMod :: "u256 \<Rightarrow> u256 \<Rightarrow> u256"
  u_Exp :: "u256 \<Rightarrow> u256 \<Rightarrow> u256"
  u_ExtendSign :: "u256 \<Rightarrow> u256 \<Rightarrow> u256"
  u_Not :: "u256 \<Rightarrow> u256"
  u_Lt :: "u256 \<Rightarrow> u256 \<Rightarrow> bool"
  u_Gt :: "u256 \<Rightarrow> u256 \<Rightarrow> bool"
  u_Slt :: "u256 \<Rightarrow> u256 \<Rightarrow> bool"
  u_Sgt :: "u256 \<Rightarrow> u256 \<Rightarrow> bool"
  u_Eq :: "u256 \<Rightarrow> u256 \<Rightarrow> bool"
  u_IsZero :: "u256 \<Rightarrow> bool"
  u_And :: "u256 \<Rightarrow> u256 \<Rightarrow> u256"
  u_Or :: "u256 \<Rightarrow> u256 \<Rightarrow> u256"
  u_Xor :: "u256 \<Rightarrow> u256 \<Rightarrow> u256"
  u_Byte :: "u256 \<Rightarrow> u256 \<Rightarrow> u256"
  u_AddMod :: "u256 \<Rightarrow> u256 \<Rightarrow> u256 \<Rightarrow> u256"
  u_MulMod :: "u256 \<Rightarrow> u256 \<Rightarrow> u256 \<Rightarrow> u256"
  u_Lsh :: "u256 \<Rightarrow> u64 \<Rightarrow> u256"
  u_Rsh :: "u256 \<Rightarrow> u64 \<Rightarrow> u256"
  u_SRsh :: "u256 \<Rightarrow> u64 \<Rightarrow> u256"
  u_SetAllOne :: u256
  u_Sign :: "u256 \<Rightarrow> int"
  u_IsUint64 :: "u256 \<Rightarrow> bool"
  u_Uint64 :: "u256 \<Rightarrow> u64"
  u_Uint64WithOverflow :: "u256 \<Rightarrow> u64 \<times> bool"
  u_LtUint64 :: "u256 \<Rightarrow> u64 \<Rightarrow> bool"
  u_GtUint64 :: "u256 \<Rightarrow> u64 \<Rightarrow> bool"
  u_SetUint64 :: "u64 \<Rightarrow> u256"
  u_SetBytes :: "bytes \<Rightarrow> u256"
  u_FromBig :: "int \<Rightarrow> u256"
  u_ToBig :: "u256 \<Rightarrow> int"
  u_Bytes32 :: "u256 \<Rightarrow> hash"
  u_Bytes20 :: "u256 \<Rightarrow> address"
  u_BitLen :: "u256 \<Rightarrow> int"
  u_WriteToSlice :: "u256 \<Rightarrow> bytes \<Rightarrow> bytes"

text \<open>The conversions to bytes, to 64 bits and to big integers, and the tests for zero.\<close>

definition uint256_ok :: "uint256 \<Rightarrow> bool" where
  "uint256_ok U \<longleftrightarrow>
     (\<forall>x. u_IsZero U x \<longleftrightarrow> x = 0) \<and> (\<forall>x. u_Sign U x = 0 \<longleftrightarrow> x = 0) \<and>
     (\<forall>x. u_IsUint64 U x \<longleftrightarrow> unat x < 2 ^ 64) \<and> (\<forall>x. u_Uint64 U x = ucast x) \<and>
     (\<forall>x. u_Uint64WithOverflow U x = (ucast x, \<not> unat x < 2 ^ 64)) \<and>
     (\<forall>x. u_SetUint64 U x = ucast x) \<and> (\<forall>b. u_SetBytes U b = BytesToHash b) \<and>
     (\<forall>x. u_Bytes32 U x = x) \<and> (\<forall>x. u_Bytes20 U x = ucast x) \<and> (\<forall>x. u_ToBig U x = uint x) \<and>
     (\<forall>x b. u_WriteToSlice U x b = copy_at b 0 (drop (32 - min 32 (length b)) (hash_Bytes x)))"

section \<open>A reference instance\<close>

text \<open>The arithmetic of the package on words, for evaluating the machine on concrete inputs.\<close>

definition pow_word :: "u256 \<Rightarrow> nat \<Rightarrow> u256" where
  "pow_word b n = b ^ n"

definition uint256_ref :: uint256 where
  "uint256_ref =
     \<lparr>u_Add = (+), u_Sub = (-), u_Mul = (*), u_Div = (\<lambda>x y. if y = 0 then 0 else x div y),
      u_SDiv = (\<lambda>x y. if y = 0 then 0 else word_of_int (sint x sdiv sint y)),
      u_Mod = (\<lambda>x y. if y = 0 then 0 else x mod y),
      u_SMod = (\<lambda>x y. if y = 0 then 0 else word_of_int (sint x smod sint y)),
      u_Exp = (\<lambda>x y. pow_word x (unat y)),
      u_ExtendSign = (\<lambda>x b. if unat b < 31 then word_of_int (signed_take_bit (unat b * 8 + 7) (uint x)) else x),
      u_Not = (\<lambda>x. - x - 1), u_Lt = (<), u_Gt = (>), u_Slt = (\<lambda>x y. sint x < sint y),
      u_Sgt = (\<lambda>x y. sint x > sint y), u_Eq = (=), u_IsZero = (\<lambda>x. x = 0),
      u_And = Bit_Operations.and, u_Or = Bit_Operations.or, u_Xor = Bit_Operations.xor,
      u_Byte = (\<lambda>x n. if unat n < 32 then of_nat (unat x div 256 ^ (31 - unat n) mod 256) else 0),
      u_AddMod = (\<lambda>x y m. if m = 0 then 0 else of_nat ((unat x + unat y) mod unat m)),
      u_MulMod = (\<lambda>x y m. if m = 0 then 0 else of_nat ((unat x * unat y) mod unat m)),
      u_Lsh = (\<lambda>x n. push_bit (unat n) x), u_Rsh = (\<lambda>x n. drop_bit (unat n) x),
      u_SRsh = (\<lambda>x n. signed_drop_bit (unat n) x), u_SetAllOne = - 1,
      u_Sign = (\<lambda>x. sgn (sint x)), u_IsUint64 = (\<lambda>x. unat x < 2 ^ 64), u_Uint64 = ucast,
      u_Uint64WithOverflow = (\<lambda>x. (ucast x, \<not> unat x < 2 ^ 64)),
      u_LtUint64 = (\<lambda>x n. unat x < unat n), u_GtUint64 = (\<lambda>x n. unat x > unat n),
      u_SetUint64 = ucast, u_SetBytes = BytesToHash, u_FromBig = (\<lambda>i. word_of_int i), u_ToBig = uint,
      u_Bytes32 = (\<lambda>x. x), u_Bytes20 = ucast, u_BitLen = (\<lambda>x. int (bit_len (unat x))),
      u_WriteToSlice = (\<lambda>x b. copy_at b 0 (drop (32 - min 32 (length b)) (hash_Bytes x)))\<rparr>"

lemma uint256_ok_ref: "uint256_ok uint256_ref"
proof -
  have "sgn (sint x) = 0 \<longleftrightarrow> x = 0" for x :: u256
    by (simp add: sgn_0_0 signed_eq_0_iff)
  then show ?thesis by (simp add: uint256_ok_def uint256_ref_def)
qed

end
