(* ===== verification/VmBase.thy ===== *)
theory VmBase
  imports StateSnapshot Uint256
begin

text \<open>
  The data of the virtual machine: errors, memory, stack and their helpers
  (\<open>core/vm/errors.go\<close>, \<open>memory.go\<close>, \<open>stack.go\<close>, \<open>stack_table.go\<close>, \<open>common.go\<close>), the analysis of jump
  destinations (\<open>analysis.go\<close>), the contract of an execution frame (\<open>contract.go\<close>) and the state
  the interpreter threads through a run.
\<close>

section \<open>Errors\<close>

datatype vmError =
    ErrOutOfGas | ErrCodeStoreOutOfGas | ErrDepth | ErrInsufficientBalance
  | ErrContractAddressCollision | ErrExecutionReverted | ErrMaxCodeSizeExceeded | ErrInvalidJump
  | ErrWriteProtection | ErrReturnDataOutOfBounds | ErrGasUintOverflow | ErrInvalidCode
  | ErrStackUnderflow int int | ErrStackOverflow int int | ErrInvalidOpCode byte
  | ErrReentrancySentry | ErrPrecompile gerror

section \<open>Memory\<close>

record Memory =
  mem_store :: bytes
  mem_lastGasCost :: u64

definition NewMemory :: Memory where
  "NewMemory = \<lparr>mem_store = [], mem_lastGasCost = 0\<rparr>"

definition Memory_Len :: "Memory \<Rightarrow> int" where
  "Memory_Len m = int (length (mem_store m))"

text \<open>\<open>offset+size\<close> wraps around; a slice expression whose bounds are swapped panics.\<close>

definition Memory_Set :: "Memory \<Rightarrow> u64 \<Rightarrow> u64 \<Rightarrow> bytes \<Rightarrow> Memory outcome" where
  "Memory_Set m offset sz val =
     (if sz > 0 then
        if unat (offset + sz) > length (mem_store m) then Panic
        else if offset > offset + sz then Panic
        else Ok (m\<lparr>mem_store := copy_at (mem_store m) (unat offset) (take (unat sz) val)\<rparr>)
      else Ok m)"

definition Memory_Set32 :: "uint256 \<Rightarrow> Memory \<Rightarrow> u64 \<Rightarrow> u256 \<Rightarrow> Memory outcome" where
  "Memory_Set32 U m offset val =
     (if unat (offset + 32) > length (mem_store m) then Panic
      else if offset > offset + 32 then Panic
      else
        let zeroed = copy_at (mem_store m) (unat offset) (replicate 32 0)
        in Ok (m\<lparr>mem_store := take (unat offset) zeroed @ u_WriteToSlice U val (drop (unat offset) zeroed)\<rparr>))"

definition Memory_Resize :: "Memory \<Rightarrow> u64 \<Rightarrow> Memory" where
  "Memory_Resize m sz =
     (if length (mem_store m) < unat sz
      then m\<lparr>mem_store := mem_store m @ replicate (unat sz - length (mem_store m)) 0\<rparr> else m)"

text \<open>
  The offsets of \<open>GetCopy\<close> and \<open>GetPtr\<close> are signed.  Beyond the length of the store the model
  panics; Go would let a slice reach into spare capacity, which does not arise after \<open>Resize\<close>.
\<close>

definition Memory_GetCopy :: "Memory \<Rightarrow> int \<Rightarrow> int \<Rightarrow> bytes outcome" where
  "Memory_GetCopy m offset sz =
     (if sz = 0 then Ok []
      else if Memory_Len m > offset then
        if 0 \<le> offset \<and> 0 \<le> sz \<and> offset + sz \<le> Memory_Len m
        then Ok (slice (mem_store m) (nat offset) (nat (offset + sz))) else Panic
      else Ok [])"

definition Memory_GetPtr :: "Memory \<Rightarrow> int \<Rightarrow> int \<Rightarrow> bytes outcome" where
  "Memory_GetPtr m offset sz =
     (if sz = 0 then Ok []
      else if Memory_Len m > offset then
        if 0 \<le> offset \<and> 0 \<le> sz \<and> offset + sz \<le> Memory_Len m
        then Ok (slice (mem_store m) (nat offset) (nat (offset + sz))) else Panic
      else Ok [])"

section \<open>Stack\<close>

text \<open>The top of the stack is the head of the list; \<open>pop\<close> and \<open>peek\<close> are matches on the list.\<close>

definition stack_Back :: "u256 list \<Rightarrow> nat \<Rightarrow> u256 outcome" where
  "stack_Back st n = (if n < length st then Ok (st ! n) else Panic)"

definition stack_swap :: "u256 list \<Rightarrow> nat \<Rightarrow> u256 list outcome" where
  "stack_swap st n =
     (if 0 < n \<and> n \<le> length st then Ok ((st[n - 1 := st ! 0])[0 := st ! (n - 1)]) else Panic)"

definition stack_dup :: "u256 list \<Rightarrow> nat \<Rightarrow> u256 list outcome" where
  "stack_dup st n = (if 0 < n \<and> n \<le> length st then Ok (st ! (n - 1) # st) else Panic)"

definition maxStack :: "int \<Rightarrow> int \<Rightarrow> int" where
  "maxStack pops push = uint StackLimit + pops - push"

definition minStack :: "int \<Rightarrow> int \<Rightarrow> int" where
  "minStack pops push = pops"

definition minSwapStack :: "int \<Rightarrow> int" where "minSwapStack n = minStack n n"
definition maxSwapStack :: "int \<Rightarrow> int" where "maxSwapStack n = maxStack n n"
definition minDupStack :: "int \<Rightarrow> int" where "minDupStack n = minStack n (n + 1)"
definition maxDupStack :: "int \<Rightarrow> int" where "maxDupStack n = maxStack n (n + 1)"

section \<open>Helpers (\<open>common.go\<close>)\<close>

definition calcMemSize64WithUint :: "uint256 \<Rightarrow> u256 \<Rightarrow> u64 \<Rightarrow> u64 \<times> bool" where
  "calcMemSize64WithUint U off length64 =
     (if length64 = 0 then (0, False)
      else
        (case u_Uint64WithOverflow U off of (offset64, overflow) \<Rightarrow>
           if overflow then (0, True)
           else let val = offset64 + length64 in (val, val < offset64)))"

definition calcMemSize64 :: "uint256 \<Rightarrow> u256 \<Rightarrow> u256 \<Rightarrow> u64 \<times> bool" where
  "calcMemSize64 U off l =
     (if \<not> u_IsUint64 U l then (0, True) else calcMemSize64WithUint U off (u_Uint64 U l))"

definition getData :: "bytes \<Rightarrow> u64 \<Rightarrow> u64 \<Rightarrow> bytes outcome" where
  "getData data start sz =
     (let len = of_nat (length data) :: u64;
          start = (if start > len then len else start);
          end' = start + sz;
          end' = (if end' > len then len else end')
      in if start \<le> end' then Ok (RightPadBytes (slice data (unat start) (unat end')) (sint sz)) else Panic)"

definition toWordSize :: "u64 \<Rightarrow> u64" where
  "toWordSize sz = (if sz > 0xFFFFFFFFFFFFFFFF - 31 then 0xFFFFFFFFFFFFFFFF div 32 + 1 else (sz + 31) div 32)"

definition allZero :: "bytes \<Rightarrow> bool" where
  "allZero b = list_all (\<lambda>x. x = 0) b"

section \<open>Jump destination analysis (\<open>analysis.go\<close>)\<close>

text \<open>
  Positions are natural numbers: code is shorter than \<open>2 ^ 63\<close> bytes, so no position wraps around.
\<close>

abbreviation (input) PUSH1 :: byte where "PUSH1 \<equiv> 0x60"
abbreviation (input) PUSH32 :: byte where "PUSH32 \<equiv> 0x7f"
abbreviation (input) JUMPDEST :: byte where "JUMPDEST \<equiv> 0x5b"

definition bits_or :: "bytes \<Rightarrow> nat \<Rightarrow> byte \<Rightarrow> bytes outcome" where
  "bits_or bits i b = (if i < length bits then Ok (bits[i := Bit_Operations.or (bits ! i) b]) else Panic)"

definition bits_set :: "bytes \<Rightarrow> nat \<Rightarrow> bytes outcome" where
  "bits_set bits pos = bits_or bits (pos div 8) (drop_bit (pos mod 8) 0x80)"

definition bits_set8 :: "bytes \<Rightarrow> nat \<Rightarrow> bytes outcome" where
  "bits_set8 bits pos =
     bnd (bits_or bits (pos div 8) (drop_bit (pos mod 8) 0xFF)) (\<lambda>bits.
       bits_or bits (pos div 8 + 1) (Bit_Operations.not (drop_bit (pos mod 8) 0xFF)))"

definition codeSegment :: "bytes \<Rightarrow> nat \<Rightarrow> bool outcome" where
  "codeSegment bits pos =
     (if pos div 8 < length bits
      then Ok (Bit_Operations.and (bits ! (pos div 8)) (drop_bit (pos mod 8) 0x80) = 0) else Panic)"

text \<open>The two inner loops of \<open>codeBitmap\<close>: eight bits at a time, then one at a time.\<close>

fun markData :: "bytes \<Rightarrow> nat \<Rightarrow> nat \<Rightarrow> bytes outcome" where
  "markData bits pc numbits =
     (if numbits \<ge> 8 then bnd (bits_set8 bits pc) (\<lambda>bits. markData bits (pc + 8) (numbits - 8))
      else if numbits > 0 then bnd (bits_set bits pc) (\<lambda>bits. markData bits (pc + 1) (numbits - 1))
      else Ok bits)"

declare markData.simps [simp del]

function codeBitmap_loop :: "bytes \<Rightarrow> nat \<Rightarrow> bytes \<Rightarrow> bytes outcome" where
  "codeBitmap_loop code pc bits =
     (if pc < length code then
        let op = code ! pc in
        if op \<ge> PUSH1 \<and> op \<le> PUSH32 then
          let numbits = unat (op - PUSH1 + 1)
          in bnd (markData bits (pc + 1) numbits) (\<lambda>bits. codeBitmap_loop code (pc + 1 + numbits) bits)
        else codeBitmap_loop code (pc + 1) bits
      else Ok bits)"
  by pat_completeness auto
termination by (relation "measure (\<lambda>(code, pc, bits). length code - pc)") auto

declare codeBitmap_loop.simps [simp del]

definition codeBitmap :: "bytes \<Rightarrow> bytes outcome" where
  "codeBitmap code = codeBitmap_loop code 0 (replicate (length code div 8 + 1 + 4) 0)"

section \<open>Contracts\<close>

record Contract =
  c_CallerAddress :: address
  c_self :: address
  c_analysis :: "bytes option"
  c_Code :: bytes
  c_CodeHash :: hash
  c_CodeAddr :: "address option"
  c_Input :: bytes
  c_Gas :: u64
  c_value :: "int option"

text \<open>The caller of a contract is an account or another contract.\<close>

datatype ContractRef = AccountRef address | CallerContract Contract

fun ref_Address :: "ContractRef \<Rightarrow> address" where
  "ref_Address (AccountRef a) = a"
| "ref_Address (CallerContract c) = c_self c"

text \<open>
  The contracts of one call tree share the map \<open>jumpdests\<close>; it is part of the machine state.
  \<open>NewContract\<close> starts a fresh map when the caller is not a contract.
\<close>

definition NewContract :: "ContractRef \<Rightarrow> address \<Rightarrow> int option \<Rightarrow> u64 \<Rightarrow> Contract" where
  "NewContract caller object val gas =
     \<lparr>c_CallerAddress = ref_Address caller, c_self = object, c_analysis = None, c_Code = [],
      c_CodeHash = 0, c_CodeAddr = None, c_Input = [], c_Gas = gas, c_value = val\<rparr>"

definition newJumpdests :: "ContractRef \<Rightarrow> (hash \<Rightarrow> bytes option) \<Rightarrow> (hash \<Rightarrow> bytes option)" where
  "newJumpdests caller jumpdests =
     (case caller of CallerContract _ \<Rightarrow> jumpdests | AccountRef _ \<Rightarrow> (\<lambda>_. None))"

definition isCode :: "(hash \<Rightarrow> bytes option) \<Rightarrow> Contract \<Rightarrow> nat \<Rightarrow> ((hash \<Rightarrow> bytes option) \<times> Contract \<times> bool) outcome" where
  "isCode jd c udest =
     (case c_analysis c of
        Some an \<Rightarrow> bnd (codeSegment an udest) (\<lambda>b. Ok (jd, c, b))
      | None \<Rightarrow>
          if c_CodeHash c \<noteq> 0 then
            (case jd (c_CodeHash c) of
               Some an \<Rightarrow> bnd (codeSegment an udest) (\<lambda>b. Ok (jd, c\<lparr>c_analysis := Some an\<rparr>, b))
             | None \<Rightarrow>
                 bnd (codeBitmap (c_Code c)) (\<lambda>an.
                 bnd (codeSegment an udest) (\<lambda>b.
                   Ok (jd(c_CodeHash c \<mapsto> an), c\<lparr>c_analysis := Some an\<rparr>, b))))
          else
            bnd (codeBitmap (c_Code c)) (\<lambda>an.
            bnd (codeSegment an udest) (\<lambda>b. Ok (jd, c\<lparr>c_analysis := Some an\<rparr>, b))))"

definition validJumpdest ::
  "uint256 \<Rightarrow> (hash \<Rightarrow> bytes option) \<Rightarrow> Contract \<Rightarrow> u256 \<Rightarrow> ((hash \<Rightarrow> bytes option) \<times> Contract \<times> bool) outcome" where
  "validJumpdest U jd c dest =
     (case u_Uint64WithOverflow U dest of (udest, overflow) \<Rightarrow>
        if overflow \<or> unat udest \<ge> length (c_Code c) then Ok (jd, c, False)
        else if c_Code c ! unat udest \<noteq> JUMPDEST then Ok (jd, c, False)
        else isCode jd c (unat udest))"

text \<open>\<open>AsDelegate\<close> panics when the caller is not a contract.\<close>

definition AsDelegate :: "ContractRef \<Rightarrow> Contract \<Rightarrow> Contract outcome" where
  "AsDelegate caller c =
     (case caller of
        CallerContract p \<Rightarrow> Ok (c\<lparr>c_CallerAddress := c_CallerAddress p, c_value := c_value p\<rparr>)
      | AccountRef _ \<Rightarrow> Panic)"

definition GetByte :: "Contract \<Rightarrow> u64 \<Rightarrow> byte" where
  "GetByte c n = (if unat n < length (c_Code c) then c_Code c ! unat n else 0)"

definition GetOp :: "Contract \<Rightarrow> u64 \<Rightarrow> byte" where
  "GetOp c n = GetByte c n"

definition UseGas :: "Contract \<Rightarrow> u64 \<Rightarrow> Contract \<times> bool" where
  "UseGas c gas = (if c_Gas c < gas then (c, False) else (c\<lparr>c_Gas := c_Gas c - gas\<rparr>, True))"

definition SetCallCode :: "Contract \<Rightarrow> address \<Rightarrow> hash \<Rightarrow> bytes \<Rightarrow> Contract" where
  "SetCallCode c addr h code = c\<lparr>c_Code := code, c_CodeHash := h, c_CodeAddr := Some addr\<rparr>"

record codeAndHash =
  ch_code :: bytes
  ch_hash :: hash

definition codeAndHash_Hash :: "(bytes \<Rightarrow> hash) \<Rightarrow> codeAndHash \<Rightarrow> codeAndHash" where
  "codeAndHash_Hash keccak c = (if ch_hash c = 0 then c\<lparr>ch_hash := keccak (ch_code c)\<rparr> else c)"

definition SetCodeOptionalHash :: "Contract \<Rightarrow> address \<Rightarrow> codeAndHash \<Rightarrow> Contract" where
  "SetCodeOptionalHash c addr ch =
     c\<lparr>c_Code := ch_code ch, c_CodeHash := ch_hash ch, c_CodeAddr := Some addr\<rparr>"

end
