(* ===== verification/Precompiles.thy ===== *)
theory Precompiles
  imports VmBase
begin

text \<open>
  The precompiled contracts (\<open>core/vm/contracts.go\<close>): gas, input parsing and dispatch of the contracts
  active in some fork.  The cryptographic primitives they call are a parameter record.
\<close>

record crypto =
  cr_keccak256 :: "bytes \<Rightarrow> hash"
  cr_sha256 :: "bytes \<Rightarrow> bytes"
  cr_ripemd160 :: "bytes \<Rightarrow> bytes"
  cr_Ecrecover :: "bytes \<Rightarrow> bytes \<Rightarrow> gerror + bytes"
  cr_G1Unmarshal :: "bytes \<Rightarrow> gerror + bytes"
  cr_G2Unmarshal :: "bytes \<Rightarrow> gerror + bytes"
  cr_G1Add :: "bytes \<Rightarrow> bytes \<Rightarrow> bytes"
  cr_G1ScalarMult :: "bytes \<Rightarrow> int \<Rightarrow> bytes"
  cr_PairingCheck :: "bytes list \<Rightarrow> bytes list \<Rightarrow> bool"
  cr_blake2bF :: "u64 list \<Rightarrow> u64 list \<Rightarrow> u64 list \<Rightarrow> bool \<Rightarrow> nat \<Rightarrow> u64 list"

datatype PrecompiledContract =
    P_ecrecover | P_sha256hash | P_ripemd160hash | P_dataCopy | P_bigModExp bool
  | P_bn256AddByzantium | P_bn256AddIstanbul | P_bn256ScalarMulByzantium | P_bn256ScalarMulIstanbul
  | P_bn256PairingByzantium | P_bn256PairingIstanbul | P_blake2F

definition PrecompiledContractsHomestead :: "address \<Rightarrow> PrecompiledContract option" where
  "PrecompiledContractsHomestead =
     map_of [(BytesToAddress [1], P_ecrecover), (BytesToAddress [2], P_sha256hash),
       (BytesToAddress [3], P_ripemd160hash), (BytesToAddress [4], P_dataCopy)]"

definition PrecompiledContractsByzantium :: "address \<Rightarrow> PrecompiledContract option" where
  "PrecompiledContractsByzantium =
     map_of [(BytesToAddress [1], P_ecrecover), (BytesToAddress [2], P_sha256hash),
       (BytesToAddress [3], P_ripemd160hash), (BytesToAddress [4], P_dataCopy),
       (BytesToAddress [5], P_bigModExp False), (BytesToAddress [6], P_bn256AddByzantium),
       (BytesToAddress [7], P_bn256ScalarMulByzantium), (BytesToAddress [8], P_bn256PairingByzantium)]"

definition PrecompiledContractsIstanbul :: "address \<Rightarrow> PrecompiledContract option" where
  "PrecompiledContractsIstanbul =
     map_of [(BytesToAddress [1], P_ecrecover), (BytesToAddress [2], P_sha256hash),
       (BytesToAddress [3], P_ripemd160hash), (BytesToAddress [4], P_dataCopy),
       (BytesToAddress [5], P_bigModExp False), (BytesToAddress [6], P_bn256AddIstanbul),
       (BytesToAddress [7], P_bn256ScalarMulIstanbul), (BytesToAddress [8], P_bn256PairingIstanbul),
       (BytesToAddress [9], P_blake2F)]"

definition PrecompiledContractsBerlin :: "address \<Rightarrow> PrecompiledContract option" where
  "PrecompiledContractsBerlin =
     map_of [(BytesToAddress [1], P_ecrecover), (BytesToAddress [2], P_sha256hash),
       (BytesToAddress [3], P_ripemd160hash), (BytesToAddress [4], P_dataCopy),
       (BytesToAddress [5], P_bigModExp True), (BytesToAddress [6], P_bn256AddIstanbul),
       (BytesToAddress [7], P_bn256ScalarMulIstanbul), (BytesToAddress [8], P_bn256PairingIstanbul),
       (BytesToAddress [9], P_blake2F)]"

text \<open>\<open>EVM.precompile\<close> and \<open>ActivePrecompiles\<close>; the order of the addresses is that of a map range.\<close>

definition precompile :: "Rules \<Rightarrow> address \<Rightarrow> PrecompiledContract option" where
  "precompile rules =
     (if r_IsBerlin rules then PrecompiledContractsBerlin
      else if r_IsIstanbul rules then PrecompiledContractsIstanbul
      else if r_IsByzantium rules then PrecompiledContractsByzantium
      else PrecompiledContractsHomestead)"

definition ActivePrecompiles :: "Rules \<Rightarrow> address list" where
  "ActivePrecompiles rules =
     map (\<lambda>n. BytesToAddress [of_nat n])
       (if r_IsBerlin rules then [1..<10] else if r_IsIstanbul rules then [1..<10]
        else if r_IsByzantium rules then [1..<9] else [1..<5])"

section \<open>Modular exponentiation\<close>

definition modexpMultComplexity :: "int \<Rightarrow> int" where
  "modexpMultComplexity x =
     (if x \<le> 64 then x * x
      else if x \<le> 1024 then x * x div 4 + (96 * x - 3072)
      else x * x div 16 + (480 * x - 199680))"

definition bytes_big :: "bytes \<Rightarrow> int" where
  "bytes_big b = int (be_nat b)"

definition modexpTail :: "bytes \<Rightarrow> bytes" where
  "modexpTail input = (if length input > 96 then drop 96 input else [])"

text \<open>\<open>big.Int.Uint64\<close> keeps the low 64 bits.\<close>

definition bigModExp_adjExpLen :: "bytes \<Rightarrow> int \<Rightarrow> int \<Rightarrow> int outcome" where
  "bigModExp_adjExpLen input baseLen expLen =
     bnd (if int (length input) \<le> baseLen then Ok 0
          else bnd (getData input (of_int baseLen) (if expLen > 32 then 32 else of_int expLen))
                 (\<lambda>d. Ok (be_nat d)))
       (\<lambda>expHead.
         let bitlen = int (bit_len expHead);
             msb = (if bitlen > 0 then bitlen - 1 else 0)
         in Ok ((if expLen > 32 then 8 * (expLen - 32) else 0) + msb))"

definition bigModExp_gas :: "bool \<Rightarrow> int \<Rightarrow> int \<Rightarrow> u64" where
  "bigModExp_gas eip2565 lenMax adjExpLen =
     (if eip2565 then
        let x = (lenMax + 7) div 8; gas = x * x * BigMax adjExpLen 1 div 3
        in if bit_len (nat gas) > 64 then 0xFFFFFFFFFFFFFFFF
           else if of_int gas < (200 :: u64) then 200 else of_int gas
      else
        let gas = modexpMultComplexity lenMax * BigMax adjExpLen 1 div 20
        in if bit_len (nat gas) > 64 then 0xFFFFFFFFFFFFFFFF else of_int gas)"

definition bigModExp_RequiredGas :: "bool \<Rightarrow> bytes \<Rightarrow> u64 outcome" where
  "bigModExp_RequiredGas eip2565 input =
     bnd (getData input 0 32) (\<lambda>b. bnd (getData input 32 32) (\<lambda>e. bnd (getData input 64 32) (\<lambda>m.
       let baseLen = bytes_big b; expLen = bytes_big e; modLen = bytes_big m
       in bnd (bigModExp_adjExpLen (modexpTail input) baseLen expLen) (\<lambda>adjExpLen.
            Ok (bigModExp_gas eip2565 (BigMax modLen baseLen) adjExpLen)))))"

definition bigModExp_Run :: "bytes \<Rightarrow> (gerror + bytes) outcome" where
  "bigModExp_Run input =
     bnd (getData input 0 32) (\<lambda>b. bnd (getData input 32 32) (\<lambda>e. bnd (getData input 64 32) (\<lambda>m.
       let baseLen = of_int (bytes_big b) :: u64; expLen = of_int (bytes_big e) :: u64;
           modLen = of_int (bytes_big m) :: u64;
           input = modexpTail input
       in if baseLen = 0 \<and> modLen = 0 then Ok (Inr [])
          else
            bnd (getData input 0 baseLen) (\<lambda>base.
            bnd (getData input baseLen expLen) (\<lambda>exp.
            bnd (getData input (baseLen + expLen) modLen) (\<lambda>mod'.
              if be_nat mod' = 0 then Ok (Inr (LeftPadBytes [] (sint modLen)))
              else Ok (Inr (LeftPadBytes (big_bytes (int (be_nat base ^ be_nat exp mod be_nat mod'))) (sint modLen)))))))))"

section \<open>Elliptic curves and hashes\<close>

abbreviation (input) secp256k1N :: int where
  "secp256k1N \<equiv> 0xfffffffffffffffffffffffffffffffebaaedce6af48a03bbfd25e8cd0364141"

definition ValidateSignatureValues :: "byte \<Rightarrow> int \<Rightarrow> int \<Rightarrow> bool \<Rightarrow> bool" where
  "ValidateSignatureValues v r s homestead =
     (if r < 1 \<or> s < 1 then False
      else if homestead \<and> s > secp256k1N div 2 then False
      else r < secp256k1N \<and> s < secp256k1N \<and> (v = 0 \<or> v = 1))"

definition ecrecover_Run :: "crypto \<Rightarrow> bytes \<Rightarrow> bytes" where
  "ecrecover_Run C input =
     (let input = RightPadBytes input 128;
          r = bytes_big (slice input 64 96);
          s = bytes_big (slice input 96 128);
          v = input ! 63 - 27
      in if \<not> allZero (slice input 32 63) \<or> \<not> ValidateSignatureValues v r s False then []
         else
           (case cr_Ecrecover C (slice input 0 32) (slice input 64 128 @ [v]) of
              Inl err \<Rightarrow> []
            | Inr pubKey \<Rightarrow> LeftPadBytes (drop 12 (hash_Bytes (cr_keccak256 C (drop 1 pubKey)))) 32))"

definition runBn256Add :: "crypto \<Rightarrow> bytes \<Rightarrow> (gerror + bytes) outcome" where
  "runBn256Add C input =
     bnd (getData input 0 64) (\<lambda>bx.
       case cr_G1Unmarshal C bx of
         Inl err \<Rightarrow> Ok (Inl err)
       | Inr x \<Rightarrow>
           bnd (getData input 64 64) (\<lambda>b.
             case cr_G1Unmarshal C b of
               Inl err \<Rightarrow> Ok (Inl err)
             | Inr y \<Rightarrow> Ok (Inr (cr_G1Add C x y))))"

definition runBn256ScalarMul :: "crypto \<Rightarrow> bytes \<Rightarrow> (gerror + bytes) outcome" where
  "runBn256ScalarMul C input =
     bnd (getData input 0 64) (\<lambda>bp.
       case cr_G1Unmarshal C bp of
         Inl err \<Rightarrow> Ok (Inl err)
       | Inr p \<Rightarrow> bnd (getData input 64 32) (\<lambda>k. Ok (Inr (cr_G1ScalarMult C p (bytes_big k)))))"

definition true32Byte :: bytes where "true32Byte = replicate 31 0 @ [1]"
definition false32Byte :: bytes where "false32Byte = replicate 32 0"

function pairingPoints :: "crypto \<Rightarrow> bytes \<Rightarrow> nat \<Rightarrow> bytes list \<Rightarrow> bytes list \<Rightarrow> gerror + bytes list \<times> bytes list" where
  "pairingPoints C input i cs ts =
     (if i < length input then
        (case cr_G1Unmarshal C (slice input i (i + 64)) of
           Inl err \<Rightarrow> Inl err
         | Inr c \<Rightarrow>
             (case cr_G2Unmarshal C (slice input (i + 64) (i + 192)) of
                Inl err \<Rightarrow> Inl err
              | Inr t \<Rightarrow> pairingPoints C input (i + 192) (cs @ [c]) (ts @ [t])))
      else Inr (cs, ts))"
  by pat_completeness auto
termination by (relation "measure (\<lambda>(C, input, i, cs, ts). length input - i)") auto

declare pairingPoints.simps [simp del]

definition runBn256Pairing :: "crypto \<Rightarrow> bytes \<Rightarrow> gerror + bytes" where
  "runBn256Pairing C input =
     (if length input mod 192 > 0 then Inl ''bad elliptic curve pairing size''
      else
        (case pairingPoints C input 0 [] [] of
           Inl err \<Rightarrow> Inl err
         | Inr (cs, ts) \<Rightarrow> if cr_PairingCheck C cs ts then Inr true32Byte else Inr false32Byte))"

text \<open>Little-endian words of eight bytes.\<close>

definition le_u64 :: "bytes \<Rightarrow> u64" where
  "le_u64 b = of_nat (be_nat (rev b))"

definition put_le_u64 :: "u64 \<Rightarrow> bytes" where
  "put_le_u64 x = rev (to_be 8 (unat x))"

definition blake2F_RequiredGas :: "bytes \<Rightarrow> u64" where
  "blake2F_RequiredGas input =
     (if length input \<noteq> 213 then 0 else of_nat (be_nat (slice input 0 4)))"

definition blake2F_Run :: "crypto \<Rightarrow> bytes \<Rightarrow> gerror + bytes" where
  "blake2F_Run C input =
     (if length input \<noteq> 213 then Inl ''invalid input length''
      else if input ! 212 \<noteq> 0 \<and> input ! 212 \<noteq> 1 then Inl ''invalid final flag''
      else
        let rounds = be_nat (slice input 0 4);
            final = (input ! 212 = 1);
            h = map (\<lambda>i. le_u64 (slice input (4 + i * 8) (4 + i * 8 + 8))) [0..<8];
            m = map (\<lambda>i. le_u64 (slice input (68 + i * 8) (68 + i * 8 + 8))) [0..<16];
            t = [le_u64 (slice input 196 204), le_u64 (slice input 204 212)]
        in Inr (concat (map put_le_u64 (cr_blake2bF C h m t final rounds))))"

section \<open>The other contracts\<close>

definition words32 :: "bytes \<Rightarrow> u64" where
  "words32 input = of_nat (length input + 31) div 32"

definition ecrecover_RequiredGas :: "bytes \<Rightarrow> u64" where
  "ecrecover_RequiredGas input = EcrecoverGas"

definition sha256hash_RequiredGas :: "bytes \<Rightarrow> u64" where
  "sha256hash_RequiredGas input = words32 input * Sha256PerWordGas + Sha256BaseGas"

definition sha256hash_Run :: "crypto \<Rightarrow> bytes \<Rightarrow> bytes" where
  "sha256hash_Run C input = cr_sha256 C input"

definition ripemd160hash_RequiredGas :: "bytes \<Rightarrow> u64" where
  "ripemd160hash_RequiredGas input = words32 input * Ripemd160PerWordGas + Ripemd160BaseGas"

definition ripemd160hash_Run :: "crypto \<Rightarrow> bytes \<Rightarrow> bytes" where
  "ripemd160hash_Run C input = LeftPadBytes (cr_ripemd160 C input) 32"

definition dataCopy_RequiredGas :: "bytes \<Rightarrow> u64" where
  "dataCopy_RequiredGas input = words32 input * IdentityPerWordGas + IdentityBaseGas"

definition dataCopy_Run :: "bytes \<Rightarrow> bytes" where
  "dataCopy_Run input = input"

text \<open>The bn256 contracts come in pairs that differ in their prices only.\<close>

definition bn256Add_RequiredGas :: "bool \<Rightarrow> bytes \<Rightarrow> u64" where
  "bn256Add_RequiredGas istanbul input = (if istanbul then Bn256AddGasIstanbul else Bn256AddGasByzantium)"

definition bn256ScalarMul_RequiredGas :: "bool \<Rightarrow> bytes \<Rightarrow> u64" where
  "bn256ScalarMul_RequiredGas istanbul input = (if istanbul then Bn256ScalarMulGasIstanbul else Bn256ScalarMulGasByzantium)"

definition bn256Pairing_RequiredGas :: "bool \<Rightarrow> bytes \<Rightarrow> u64" where
  "bn256Pairing_RequiredGas istanbul input =
     (if istanbul then Bn256PairingBaseGasIstanbul + of_nat (length input div 192) * Bn256PairingPerPointGasIstanbul
      else Bn256PairingBaseGasByzantium + of_nat (length input div 192) * Bn256PairingPerPointGasByzantium)"

section \<open>Dispatch\<close>

text \<open>The two methods of the interface \<open>PrecompiledContract\<close>.\<close>

fun RequiredGas :: "PrecompiledContract \<Rightarrow> bytes \<Rightarrow> u64 outcome" where
  "RequiredGas P_ecrecover input = Ok (ecrecover_RequiredGas input)"
| "RequiredGas P_sha256hash input = Ok (sha256hash_RequiredGas input)"
| "RequiredGas P_ripemd160hash input = Ok (ripemd160hash_RequiredGas input)"
| "RequiredGas P_dataCopy input = Ok (dataCopy_RequiredGas input)"
| "RequiredGas (P_bigModExp eip2565) input = bigModExp_RequiredGas eip2565 input"
| "RequiredGas P_bn256AddByzantium input = Ok (bn256Add_RequiredGas False input)"
| "RequiredGas P_bn256AddIstanbul input = Ok (bn256Add_RequiredGas True input)"
| "RequiredGas P_bn256ScalarMulByzantium input = Ok (bn256ScalarMul_RequiredGas False input)"
| "RequiredGas P_bn256ScalarMulIstanbul input = Ok (bn256ScalarMul_RequiredGas True input)"
| "RequiredGas P_bn256PairingByzantium input = Ok (bn256Pairing_RequiredGas False input)"
| "RequiredGas P_bn256PairingIstanbul input = Ok (bn256Pairing_RequiredGas True input)"
| "RequiredGas P_blake2F input = Ok (blake2F_RequiredGas input)"

fun precompile_Run :: "crypto \<Rightarrow> PrecompiledContract \<Rightarrow> bytes \<Rightarrow> (gerror + bytes) outcome" where
  "precompile_Run C P_ecrecover input = Ok (Inr (ecrecover_Run C input))"
| "precompile_Run C P_sha256hash input = Ok (Inr (sha256hash_Run C input))"
| "precompile_Run C P_ripemd160hash input = Ok (Inr (ripemd160hash_Run C input))"
| "precompile_Run C P_dataCopy input = Ok (Inr (dataCopy_Run input))"
| "precompile_Run C (P_bigModExp eip2565) input = bigModExp_Run input"
| "precompile_Run C P_bn256AddByzantium input = runBn256Add C input"
| "precompile_Run C P_bn256AddIstanbul input = runBn256Add C input"
| "precompile_Run C P_bn256ScalarMulByzantium input = runBn256ScalarMul C input"
| "precompile_Run C P_bn256ScalarMulIstanbul input = runBn256ScalarMul C input"
| "precompile_Run C P_bn256PairingByzantium input = Ok (runBn256Pairing C input)"
| "precompile_Run C P_bn256PairingIstanbul input = Ok (runBn256Pairing C input)"
| "precompile_Run C P_blake2F input = Ok (blake2F_Run C input)"

text \<open>
  Whether the slice a contract returns is the slice it was given: the data copy returns its
  argument, so its result shares memory with the caller's arguments.
\<close>

fun returnsInput :: "PrecompiledContract \<Rightarrow> bool" where
  "returnsInput P_dataCopy = True"
| "returnsInput _ = False"

text \<open>The result is the returned bytes, the remaining gas, the error, and whether the bytes share the input.\<close>

definition RunPrecompiledContract ::
  "crypto \<Rightarrow> PrecompiledContract \<Rightarrow> bytes \<Rightarrow> u64 \<Rightarrow> (bytes \<times> u64 \<times> vmError option \<times> bool) outcome" where
  "RunPrecompiledContract C p input suppliedGas =
     bnd (RequiredGas p input) (\<lambda>gasCost.
       if suppliedGas < gasCost then Ok ([], 0, Some ErrOutOfGas, False)
       else
         bnd (precompile_Run C p input) (\<lambda>r.
           case r of
             Inl err \<Rightarrow> Ok ([], suppliedGas - gasCost, Some (ErrPrecompile err), False)
           | Inr output \<Rightarrow> Ok (output, suppliedGas - gasCost, None, returnsInput p)))"

end
