(* ===== verification/Evm.thy ===== *)
theory Evm
  imports Precompiles
begin

text \<open>
  The virtual machine of \<open>core/vm/evm.go\<close>: its context, and the calls and creations, as functions of
  the interpreter's \<open>Run\<close>, which is tied in later.  Transfers are those of \<open>core/evm.go\<close>.  The
  tracer (\<open>Config.Debug\<close>) is off.
\<close>

section \<open>Context and state\<close>

record 't BlockContext =
  bc_CanTransfer :: "'t StateDB \<Rightarrow> address \<Rightarrow> int \<Rightarrow> 't StateDB \<times> bool"
  bc_Transfer :: "'t StateDB \<Rightarrow> address \<Rightarrow> address \<Rightarrow> int \<Rightarrow> 't StateDB"
  bc_GetHash :: "u64 \<Rightarrow> hash"
  bc_Coinbase :: address
  bc_GasLimit :: u64
  bc_BlockNumber :: int
  bc_Time :: int
  bc_Difficulty :: int
  bc_BaseFee :: "int option"

record TxContext =
  tx_Origin :: address
  tx_GasPrice :: int

text \<open>
  What is constant while a transaction runs.  \<open>e_abort\<close> is the value the \<open>n\<close>-th atomic load of the
  abort flag returns.
\<close>

record 't env =
  e_db :: "'t backend"
  e_U :: uint256
  e_C :: crypto
  e_Context :: "'t BlockContext"
  e_Tx :: TxContext
  e_ChainID :: "int option"
  e_rules :: Rules
  e_NoRecursion :: bool
  e_NoBaseFee :: bool
  e_EnablePreimageRecording :: bool
  e_abort :: "nat \<Rightarrow> bool"

text \<open>The mutable fields of \<open>EVM\<close> and \<open>EVMInterpreter\<close>, with the shared map of jump destinations.\<close>

record 't machine =
  m_StateDB :: "'t StateDB"
  m_depth :: int
  m_callGasTemp :: u64
  m_readOnly :: bool
  m_returnData :: bytes
  m_jumpdests :: "hash \<Rightarrow> bytes option"
  m_polls :: nat

text \<open>\<open>EVMInterpreter.Run\<close>: the machine, the contract with its remaining gas, the returned bytes and error.\<close>

type_synonym 't runner =
  "'t machine \<Rightarrow> Contract \<Rightarrow> bytes \<Rightarrow> bool \<Rightarrow> ('t machine \<times> Contract \<times> bytes \<times> vmError option) outcome"

definition m_get :: "'t machine \<Rightarrow> ('t StateDB \<Rightarrow> 't StateDB \<times> 'a) \<Rightarrow> 't machine \<times> 'a" where
  "m_get m f = (case f (m_StateDB m) of (s, x) \<Rightarrow> (m\<lparr>m_StateDB := s\<rparr>, x))"

definition m_do :: "'t machine \<Rightarrow> ('t StateDB \<Rightarrow> 't StateDB) \<Rightarrow> 't machine" where
  "m_do m f = m\<lparr>m_StateDB := f (m_StateDB m)\<rparr>"

definition m_try :: "'t machine \<Rightarrow> ('t StateDB \<Rightarrow> 't StateDB outcome) \<Rightarrow> 't machine outcome" where
  "m_try m f = bnd (f (m_StateDB m)) (\<lambda>s. Ok (m\<lparr>m_StateDB := s\<rparr>))"

section \<open>Transfers (\<open>core/evm.go\<close>)\<close>

definition CanTransfer :: "'t backend \<Rightarrow> 't StateDB \<Rightarrow> address \<Rightarrow> int \<Rightarrow> 't StateDB \<times> bool" where
  "CanTransfer D db addr amount = (case GetBalance D db addr of (db, b) \<Rightarrow> (db, b \<ge> amount))"

definition Transfer :: "'t backend \<Rightarrow> 't StateDB \<Rightarrow> address \<Rightarrow> address \<Rightarrow> int \<Rightarrow> 't StateDB" where
  "Transfer D db sender recipient amount = AddBalance D (SubBalance D db sender amount) recipient amount"

section \<open>Addresses of new contracts (\<open>crypto/crypto.go\<close>)\<close>

definition CreateAddress :: "(bytes \<Rightarrow> hash) \<Rightarrow> address \<Rightarrow> u64 \<Rightarrow> address outcome" where
  "CreateAddress keccak b nonce =
     bnd (EncodeToBytes (VSlice [VArray (address_Bytes b), VUint nonce])) (\<lambda>r.
       let data = (case r of Inr d \<Rightarrow> d | Inl _ \<Rightarrow> [])
       in Ok (BytesToAddress (drop 12 (hash_Bytes (keccak data)))))"

definition CreateAddress2 :: "(bytes \<Rightarrow> hash) \<Rightarrow> address \<Rightarrow> hash \<Rightarrow> bytes \<Rightarrow> address" where
  "CreateAddress2 keccak b salt inithash =
     BytesToAddress (drop 12 (hash_Bytes (keccak ([0xff] @ address_Bytes b @ hash_Bytes salt @ inithash))))"

section \<open>Calls\<close>

text \<open>
  The result of a call: the machine, the returned bytes, the remaining gas, the error, and whether
  the returned bytes are the input slice itself.
\<close>

type_synonym 't callResult = "('t machine \<times> bytes \<times> u64 \<times> vmError option \<times> bool) outcome"

text \<open>The end of every call: on an error the state is reverted, and the gas is gone unless the callee reverted.\<close>

definition endCall ::
  "'t env \<Rightarrow> int \<Rightarrow> 't machine \<Rightarrow> bytes \<Rightarrow> u64 \<Rightarrow> vmError option \<Rightarrow> bool \<Rightarrow> 't callResult" where
  "endCall E snap m ret gas err alias =
     (case err of
        None \<Rightarrow> Ok (m, ret, gas, None, alias)
      | Some e \<Rightarrow>
          bnd (m_try m (\<lambda>s. RevertToSnapshot (e_db E) s snap)) (\<lambda>m.
            Ok (m, ret, if e \<noteq> ErrExecutionReverted then 0 else gas, Some e, alias)))"

text \<open>Running the code of an account in a new contract.\<close>

definition runContract ::
  "'t runner \<Rightarrow> ContractRef \<Rightarrow> 't machine \<Rightarrow> Contract \<Rightarrow> bytes \<Rightarrow> bool \<Rightarrow>
   ('t machine \<times> bytes \<times> u64 \<times> vmError option) outcome" where
  "runContract R caller m c input ro =
     bnd (R (m\<lparr>m_jumpdests := newJumpdests caller (m_jumpdests m)\<rparr>) c input ro) (\<lambda>(m, c, ret, err).
       Ok (m, ret, c_Gas c, err))"

definition Call ::
  "'t env \<Rightarrow> 't runner \<Rightarrow> 't machine \<Rightarrow> ContractRef \<Rightarrow> address \<Rightarrow> bytes \<Rightarrow> u64 \<Rightarrow> int \<Rightarrow> 't callResult" where
  "Call E R m caller addr input gas val =
     (if e_NoRecursion E \<and> m_depth m > 0 then Ok (m, [], gas, None, False)
      else if m_depth m > uint CallCreateDepth then Ok (m, [], gas, Some ErrDepth, False)
      else
        let (m, ok) = (if val \<noteq> 0 then m_get m (\<lambda>s. bc_CanTransfer (e_Context E) s (ref_Address caller) val)
                       else (m, True))
        in if \<not> ok then Ok (m, [], gas, Some ErrInsufficientBalance, False)
           else
             let (m, snap) = m_get m Snapshot;
                 p = precompile (e_rules E) addr;
                 (m, exist) = m_get m (\<lambda>s. Exist (e_db E) s addr)
             in if \<not> exist \<and> p = None \<and> r_IsEIP158 (e_rules E) \<and> val = 0 then Ok (m, [], gas, None, False)
                else
                  let m = (if exist then m else m_do m (\<lambda>s. CreateAccount (e_db E) s addr));
                      m = m_do m (\<lambda>s. bc_Transfer (e_Context E) s (ref_Address caller) addr val)
                  in case p of
                       Some pc \<Rightarrow>
                         bnd (RunPrecompiledContract (e_C E) pc input gas) (\<lambda>(ret, gas, err, alias).
                           endCall E snap m ret gas err alias)
                     | None \<Rightarrow>
                         let (m, code) = m_get m (\<lambda>s. GetCode (e_db E) s addr)
                         in if code = [] then endCall E snap m [] gas None False
                            else
                              let (m, h) = m_get m (\<lambda>s. GetCodeHash (e_db E) s addr)
                              in bnd (runContract R caller m
                                        (SetCallCode (NewContract caller addr (Some val) gas) addr h code) input False)
                                   (\<lambda>(m, ret, gas, err). endCall E snap m ret gas err False))"

definition CallCode ::
  "'t env \<Rightarrow> 't runner \<Rightarrow> 't machine \<Rightarrow> ContractRef \<Rightarrow> address \<Rightarrow> bytes \<Rightarrow> u64 \<Rightarrow> int \<Rightarrow> 't callResult" where
  "CallCode E R m caller addr input gas val =
     (if e_NoRecursion E \<and> m_depth m > 0 then Ok (m, [], gas, None, False)
      else if m_depth m > uint CallCreateDepth then Ok (m, [], gas, Some ErrDepth, False)
      else
        let (m, ok) = m_get m (\<lambda>s. bc_CanTransfer (e_Context E) s (ref_Address caller) val)
        in if \<not> ok then Ok (m, [], gas, Some ErrInsufficientBalance, False)
           else
             let (m, snap) = m_get m Snapshot
             in case precompile (e_rules E) addr of
                  Some pc \<Rightarrow>
                    bnd (RunPrecompiledContract (e_C E) pc input gas) (\<lambda>(ret, gas, err, alias).
                      endCall E snap m ret gas err alias)
                | None \<Rightarrow>
                    let (m, h) = m_get m (\<lambda>s. GetCodeHash (e_db E) s addr);
                        (m, code) = m_get m (\<lambda>s. GetCode (e_db E) s addr)
                    in bnd (runContract R caller m
                              (SetCallCode (NewContract caller (ref_Address caller) (Some val) gas) addr h code)
                              input False)
                         (\<lambda>(m, ret, gas, err). endCall E snap m ret gas err False))"

definition DelegateCall ::
  "'t env \<Rightarrow> 't runner \<Rightarrow> 't machine \<Rightarrow> ContractRef \<Rightarrow> address \<Rightarrow> bytes \<Rightarrow> u64 \<Rightarrow> 't callResult" where
  "DelegateCall E R m caller addr input gas =
     (if e_NoRecursion E \<and> m_depth m > 0 then Ok (m, [], gas, None, False)
      else if m_depth m > uint CallCreateDepth then Ok (m, [], gas, Some ErrDepth, False)
      else
        let (m, snap) = m_get m Snapshot
        in case precompile (e_rules E) addr of
             Some pc \<Rightarrow>
               bnd (RunPrecompiledContract (e_C E) pc input gas) (\<lambda>(ret, gas, err, alias).
                 endCall E snap m ret gas err alias)
           | None \<Rightarrow>
               bnd (AsDelegate caller (NewContract caller (ref_Address caller) None gas)) (\<lambda>c.
               let (m, h) = m_get m (\<lambda>s. GetCodeHash (e_db E) s addr);
                   (m, code) = m_get m (\<lambda>s. GetCode (e_db E) s addr)
               in bnd (runContract R caller m (SetCallCode c addr h code) input False)
                    (\<lambda>(m, ret, gas, err). endCall E snap m ret gas err False)))"

definition StaticCall ::
  "'t env \<Rightarrow> 't runner \<Rightarrow> 't machine \<Rightarrow> ContractRef \<Rightarrow> address \<Rightarrow> bytes \<Rightarrow> u64 \<Rightarrow> 't callResult" where
  "StaticCall E R m caller addr input gas =
     (if e_NoRecursion E \<and> m_depth m > 0 then Ok (m, [], gas, None, False)
      else if m_depth m > uint CallCreateDepth then Ok (m, [], gas, Some ErrDepth, False)
      else
        let (m, snap) = m_get m Snapshot;
            m = m_do m (\<lambda>s. AddBalance (e_db E) s addr 0)
        in case precompile (e_rules E) addr of
             Some pc \<Rightarrow>
               bnd (RunPrecompiledContract (e_C E) pc input gas) (\<lambda>(ret, gas, err, alias).
                 endCall E snap m ret gas err alias)
           | None \<Rightarrow>
               let (m, h) = m_get m (\<lambda>s. GetCodeHash (e_db E) s addr);
                   (m, code) = m_get m (\<lambda>s. GetCode (e_db E) s addr)
               in bnd (runContract R caller m
                         (SetCallCode (NewContract caller addr (Some 0) gas) addr h code) input True)
                    (\<lambda>(m, ret, gas, err). endCall E snap m ret gas err False))"

section \<open>Creations\<close>

text \<open>The checks on the code returned by the constructor, and storing it.\<close>

definition storeCode ::
  "'t env \<Rightarrow> address \<Rightarrow> 't machine \<Rightarrow> Contract \<Rightarrow> bytes \<Rightarrow> vmError option \<Rightarrow> 't machine \<times> Contract \<times> vmError option" where
  "storeCode E address m c ret err =
     (let err = (if err = None \<and> r_IsEIP158 (e_rules E) \<and> int (length ret) > MaxCodeSize
                 then Some ErrMaxCodeSizeExceeded else err);
          err = (if err = None \<and> length ret \<ge> 1 \<and> hd ret = 0xEF \<and> r_IsLondon (e_rules E)
                 then Some ErrInvalidCode else err)
      in if err = None then
           (case UseGas c (of_nat (length ret) * CreateDataGas) of
              (c, True) \<Rightarrow> (m_do m (\<lambda>s. SetCode (e_db E) s address ret), c, None)
            | (c, False) \<Rightarrow> (m, c, Some ErrCodeStoreOutOfGas))
         else (m, c, err))"

text \<open>The result of a creation: the machine, the returned bytes, the address, the remaining gas and the error.\<close>

type_synonym 't createResult = "('t machine \<times> bytes \<times> address \<times> u64 \<times> vmError option) outcome"

definition create ::
  "'t env \<Rightarrow> 't runner \<Rightarrow> 't machine \<Rightarrow> ContractRef \<Rightarrow> codeAndHash \<Rightarrow> u64 \<Rightarrow> int \<Rightarrow> address \<Rightarrow> 't createResult" where
  "create E R m caller ch gas val address =
     (if m_depth m > uint CallCreateDepth then Ok (m, [], 0, gas, Some ErrDepth)
      else
        let (m, ok) = m_get m (\<lambda>s. bc_CanTransfer (e_Context E) s (ref_Address caller) val)
        in if \<not> ok then Ok (m, [], 0, gas, Some ErrInsufficientBalance)
           else
             let (m, nonce) = m_get m (\<lambda>s. GetNonce (e_db E) s (ref_Address caller));
                 m = m_do m (\<lambda>s. SetNonce (e_db E) s (ref_Address caller) (nonce + 1));
                 m = (if r_IsBerlin (e_rules E) then m_do m (\<lambda>s. AddAddressToAccessList s address) else m);
                 (m, contractHash) = m_get m (\<lambda>s. GetCodeHash (e_db E) s address);
                 (m, n) = m_get m (\<lambda>s. GetNonce (e_db E) s address)
             in if n \<noteq> 0 \<or> (contractHash \<noteq> 0 \<and> contractHash \<noteq> keccak256 (e_db E) [])
                then Ok (m, [], 0, 0, Some ErrContractAddressCollision)
                else
                  let (m, snap) = m_get m Snapshot;
                      m = m_do m (\<lambda>s. CreateAccount (e_db E) s address);
                      m = (if r_IsEIP158 (e_rules E) then m_do m (\<lambda>s. SetNonce (e_db E) s address 1) else m);
                      m = m_do m (\<lambda>s. bc_Transfer (e_Context E) s (ref_Address caller) address val);
                      c = SetCodeOptionalHash (NewContract caller address (Some val) gas) address ch
                  in if e_NoRecursion E \<and> m_depth m > 0 then Ok (m, [], address, gas, None)
                     else
                       bnd (R (m\<lparr>m_jumpdests := newJumpdests caller (m_jumpdests m)\<rparr>) c [] False) (\<lambda>(m, c, ret, err).
                         case storeCode E address m c ret err of (m, c, err) \<Rightarrow>
                           if err \<noteq> None \<and> (r_IsHomestead (e_rules E) \<or> err \<noteq> Some ErrCodeStoreOutOfGas) then
                             bnd (m_try m (\<lambda>s. RevertToSnapshot (e_db E) s snap)) (\<lambda>m.
                               Ok (m, ret, address,
                                   c_Gas (if err \<noteq> Some ErrExecutionReverted then fst (UseGas c (c_Gas c)) else c), err))
                           else Ok (m, ret, address, c_Gas c, err)))"

definition Create ::
  "'t env \<Rightarrow> 't runner \<Rightarrow> 't machine \<Rightarrow> ContractRef \<Rightarrow> bytes \<Rightarrow> u64 \<Rightarrow> int \<Rightarrow> 't createResult" where
  "Create E R m caller code gas val =
     (let (m, nonce) = m_get m (\<lambda>s. GetNonce (e_db E) s (ref_Address caller))
      in bnd (CreateAddress (keccak256 (e_db E)) (ref_Address caller) nonce) (\<lambda>contractAddr.
           create E R m caller \<lparr>ch_code = code, ch_hash = 0\<rparr> gas val contractAddr))"

definition Create2 ::
  "'t env \<Rightarrow> 't runner \<Rightarrow> 't machine \<Rightarrow> ContractRef \<Rightarrow> bytes \<Rightarrow> u64 \<Rightarrow> int \<Rightarrow> u256 \<Rightarrow> 't createResult" where
  "Create2 E R m caller code gas endowment salt =
     (let ch = codeAndHash_Hash (keccak256 (e_db E)) \<lparr>ch_code = code, ch_hash = 0\<rparr>;
          contractAddr = CreateAddress2 (keccak256 (e_db E)) (ref_Address caller)
            (u_Bytes32 (e_U E) salt) (hash_Bytes (ch_hash ch))
      in create E R m caller ch gas endowment contractAddr)"

end

