(* ===== verification/GasTable.thy ===== *)
theory GasTable
  imports Evm
begin

text \<open>
  The dynamic costs of the instructions: the memory they need (\<open>core/vm/memory_table.go\<close>), the gas of a
  call (\<open>gas.go\<close>), and the gas functions before and after access lists (\<open>gas_table.go\<close>,
  \<open>operations_acl.go\<close>).
\<close>

section \<open>The state an instruction sees\<close>

text \<open>\<open>ScopeContext\<close> with the program counter and the machine.\<close>

record 't vm =
  v_m :: "'t machine"
  v_pc :: u64
  v_stack :: "u256 list"
  v_mem :: Memory
  v_contract :: Contract

definition v_get :: "'t vm \<Rightarrow> ('t StateDB \<Rightarrow> 't StateDB \<times> 'a) \<Rightarrow> 't vm \<times> 'a" where
  "v_get v f = (case m_get (v_m v) f of (m, x) \<Rightarrow> (v\<lparr>v_m := m\<rparr>, x))"

definition v_do :: "'t vm \<Rightarrow> ('t StateDB \<Rightarrow> 't StateDB) \<Rightarrow> 't vm" where
  "v_do v f = v\<lparr>v_m := m_do (v_m v) f\<rparr>"

definition v_try :: "'t vm \<Rightarrow> ('t StateDB \<Rightarrow> 't StateDB outcome) \<Rightarrow> 't vm outcome" where
  "v_try v f = bnd (m_try (v_m v) f) (\<lambda>m. Ok (v\<lparr>v_m := m\<rparr>))"

abbreviation self :: "'t vm \<Rightarrow> address" where
  "self v \<equiv> c_self (v_contract v)"

text \<open>A gas function charges a cost or fails; a memory size function returns a size and an overflow flag.\<close>

type_synonym 't gasResult = "('t vm \<times> (vmError + u64)) outcome"
type_synonym 't gasFunc = "'t env \<Rightarrow> 't vm \<Rightarrow> u64 \<Rightarrow> 't gasResult"
type_synonym memorySizeFunc = "uint256 \<Rightarrow> u256 list \<Rightarrow> (u64 \<times> bool) outcome"

section \<open>Memory sizes (\<open>memory_table.go\<close>)\<close>

definition memRange :: "nat \<Rightarrow> nat \<Rightarrow> memorySizeFunc" where
  "memRange i j U st = bnd (stack_Back st i) (\<lambda>off. bnd (stack_Back st j) (\<lambda>l. Ok (calcMemSize64 U off l)))"

definition memFixed :: "nat \<Rightarrow> u64 \<Rightarrow> memorySizeFunc" where
  "memFixed i l U st = bnd (stack_Back st i) (\<lambda>off. Ok (calcMemSize64WithUint U off l))"

text \<open>The larger of two ranges.\<close>

definition memMax :: "memorySizeFunc \<Rightarrow> memorySizeFunc \<Rightarrow> memorySizeFunc" where
  "memMax f g U st =
     bnd (f U st) (\<lambda>(x, overflow).
       if overflow then Ok (0, True)
       else bnd (g U st) (\<lambda>(y, overflow).
         if overflow then Ok (0, True) else if x > y then Ok (x, False) else Ok (y, False)))"

definition memorySha3 :: memorySizeFunc where "memorySha3 = memRange 0 1"
definition memoryCallDataCopy :: memorySizeFunc where "memoryCallDataCopy = memRange 0 2"
definition memoryReturnDataCopy :: memorySizeFunc where "memoryReturnDataCopy = memRange 0 2"
definition memoryCodeCopy :: memorySizeFunc where "memoryCodeCopy = memRange 0 2"
definition memoryExtCodeCopy :: memorySizeFunc where "memoryExtCodeCopy = memRange 1 3"
definition memoryMLoad :: memorySizeFunc where "memoryMLoad = memFixed 0 32"
definition memoryMStore8 :: memorySizeFunc where "memoryMStore8 = memFixed 0 1"
definition memoryMStore :: memorySizeFunc where "memoryMStore = memFixed 0 32"
definition memoryCreate :: memorySizeFunc where "memoryCreate = memRange 1 2"
definition memoryCreate2 :: memorySizeFunc where "memoryCreate2 = memRange 1 2"
definition memoryCall :: memorySizeFunc where "memoryCall = memMax (memRange 5 6) (memRange 3 4)"
definition memoryDelegateCall :: memorySizeFunc where
  "memoryDelegateCall = memMax (memRange 4 5) (memRange 2 3)"
definition memoryStaticCall :: memorySizeFunc where
  "memoryStaticCall = memMax (memRange 4 5) (memRange 2 3)"
definition memoryReturn :: memorySizeFunc where "memoryReturn = memRange 0 1"
definition memoryRevert :: memorySizeFunc where "memoryRevert = memRange 0 1"
definition memoryLog :: memorySizeFunc where "memoryLog = memRange 0 1"

section \<open>Gas of a call (\<open>gas.go\<close>)\<close>

abbreviation (input) GasQuickStep :: u64 where "GasQuickStep \<equiv> 2"
abbreviation (input) GasFastestStep :: u64 where "GasFastestStep \<equiv> 3"
abbreviation (input) GasFastStep :: u64 where "GasFastStep \<equiv> 5"
abbreviation (input) GasMidStep :: u64 where "GasMidStep \<equiv> 8"
abbreviation (input) GasSlowStep :: u64 where "GasSlowStep \<equiv> 10"
abbreviation (input) GasExtStep :: u64 where "GasExtStep \<equiv> 20"

definition callGas :: "uint256 \<Rightarrow> bool \<Rightarrow> u64 \<Rightarrow> u64 \<Rightarrow> u256 \<Rightarrow> vmError + u64" where
  "callGas U isEip150 availableGas base callCost =
     (let availableGas' = availableGas - base;
          gas = availableGas' - availableGas' div 64
      in if isEip150 \<and> (\<not> u_IsUint64 U callCost \<or> gas < u_Uint64 U callCost) then Inr gas
         else if \<not> u_IsUint64 U callCost then Inl ErrGasUintOverflow
         else Inr (u_Uint64 U callCost))"

section \<open>Gas functions (\<open>gas_table.go\<close>)\<close>

definition memoryGasCost :: "Memory \<Rightarrow> u64 \<Rightarrow> Memory \<times> (vmError + u64)" where
  "memoryGasCost mem newMemSize =
     (if newMemSize = 0 then (mem, Inr 0)
      else if newMemSize > 0x1FFFFFFFE0 then (mem, Inl ErrGasUintOverflow)
      else
        let newMemSizeWords = toWordSize newMemSize;
            newMemSize = newMemSizeWords * 32
        in if unat newMemSize > length (mem_store mem) then
             let square = newMemSizeWords * newMemSizeWords;
                 linCoef = newMemSizeWords * MemoryGas;
                 quadCoef = square div QuadCoeffDiv;
                 newTotalFee = linCoef + quadCoef
             in (mem\<lparr>mem_lastGasCost := newTotalFee\<rparr>, Inr (newTotalFee - mem_lastGasCost mem))
           else (mem, Inr 0))"

text \<open>Returning a cost, failing, and adding a cost with an overflow check.\<close>

definition cost :: "'t vm \<Rightarrow> u64 \<Rightarrow> 't gasResult" where
  "cost v g = Ok (v, Inr g)"

definition fail :: "'t vm \<Rightarrow> vmError \<Rightarrow> 't gasResult" where
  "fail v e = Ok (v, Inl e)"

definition gthen :: "'t gasResult \<Rightarrow> ('t vm \<Rightarrow> u64 \<Rightarrow> 't gasResult) \<Rightarrow> 't gasResult" where
  "gthen r f = bnd r (\<lambda>(v, x). case x of Inl e \<Rightarrow> fail v e | Inr g \<Rightarrow> f v g)"

definition addCost :: "'t vm \<Rightarrow> u64 \<Rightarrow> u64 \<Rightarrow> 't gasResult" where
  "addCost v gas g = (case SafeAdd gas g of (s, overflow) \<Rightarrow> if overflow then fail v ErrGasUintOverflow else cost v s)"

definition mulCost :: "'t vm \<Rightarrow> u64 \<Rightarrow> u64 \<Rightarrow> 't gasResult" where
  "mulCost v a b = (case SafeMul a b of (p, overflow) \<Rightarrow> if overflow then fail v ErrGasUintOverflow else cost v p)"

definition memCost :: "'t vm \<Rightarrow> u64 \<Rightarrow> 't gasResult" where
  "memCost v memorySize =
     (case memoryGasCost (v_mem v) memorySize of (mem, r) \<Rightarrow> Ok (v\<lparr>v_mem := mem\<rparr>, r))"

text \<open>A stack item as a 64-bit number; overflow is a gas error.\<close>

definition back64 :: "'t env \<Rightarrow> 't vm \<Rightarrow> nat \<Rightarrow> 't gasResult" where
  "back64 E v i =
     bnd (stack_Back (v_stack v) i) (\<lambda>x.
       case u_Uint64WithOverflow (e_U E) x of (w, overflow) \<Rightarrow>
         if overflow then fail v ErrGasUintOverflow else cost v w)"

definition memoryCopierGas :: "nat \<Rightarrow> 't gasFunc" where
  "memoryCopierGas stackpos E v memorySize =
     gthen (memCost v memorySize) (\<lambda>v gas.
     gthen (back64 E v stackpos) (\<lambda>v words.
     gthen (mulCost v (toWordSize words) CopyGas) (\<lambda>v words. addCost v gas words)))"

definition gasCallDataCopy :: "'t gasFunc" where "gasCallDataCopy = memoryCopierGas 2"
definition gasCodeCopy :: "'t gasFunc" where "gasCodeCopy = memoryCopierGas 2"
definition gasExtCodeCopy :: "'t gasFunc" where "gasExtCodeCopy = memoryCopierGas 3"
definition gasReturnDataCopy :: "'t gasFunc" where "gasReturnDataCopy = memoryCopierGas 2"

definition addRefund :: "'t vm \<Rightarrow> u64 \<Rightarrow> 't vm" where
  "addRefund v g = v_do v (\<lambda>s. AddRefund s g)"

definition gasSStore :: "'t gasFunc" where
  "gasSStore E v memorySize =
     bnd (stack_Back (v_stack v) 1) (\<lambda>y. bnd (stack_Back (v_stack v) 0) (\<lambda>x.
       let (v, current) = v_get v (\<lambda>s. GetState (e_db E) s (self v) (u_Bytes32 (e_U E) x))
       in if r_IsPetersburg (e_rules E) \<or> \<not> r_IsConstantinople (e_rules E) then
            if current = 0 \<and> u_Sign (e_U E) y \<noteq> 0 then cost v SstoreSetGas
            else if current \<noteq> 0 \<and> u_Sign (e_U E) y = 0 then cost (addRefund v SstoreRefundGas) SstoreClearGas
            else cost v SstoreResetGas
          else
            let val = u_Bytes32 (e_U E) y
            in if current = val then cost v NetSstoreNoopGas
               else
                 let (v, original) = v_get v (\<lambda>s. GetCommittedState (e_db E) s (self v) (u_Bytes32 (e_U E) x))
                 in if original = current then
                      if original = 0 then cost v NetSstoreInitGas
                      else cost (if val = 0 then addRefund v NetSstoreClearRefund else v) NetSstoreCleanGas
                    else
                      bnd (if original \<noteq> 0 then
                             if current = 0 then v_try v (\<lambda>s. SubRefund s NetSstoreClearRefund)
                             else Ok (if val = 0 then addRefund v NetSstoreClearRefund else v)
                           else Ok v) (\<lambda>v.
                      let v = (if original = val then
                                 if original = 0 then addRefund v NetSstoreResetClearRefund
                                 else addRefund v NetSstoreResetRefund
                               else v)
                      in cost v NetSstoreDirtyGas)))"

definition gasSStoreEIP2200 :: "'t gasFunc" where
  "gasSStoreEIP2200 E v memorySize =
     (if c_Gas (v_contract v) \<le> SstoreSentryGasEIP2200 then fail v ErrReentrancySentry
      else
        bnd (stack_Back (v_stack v) 1) (\<lambda>y. bnd (stack_Back (v_stack v) 0) (\<lambda>x.
        let (v, current) = v_get v (\<lambda>s. GetState (e_db E) s (self v) (u_Bytes32 (e_U E) x));
            val = u_Bytes32 (e_U E) y
        in if current = val then cost v SloadGasEIP2200
           else
             let (v, original) = v_get v (\<lambda>s. GetCommittedState (e_db E) s (self v) (u_Bytes32 (e_U E) x))
             in if original = current then
                  if original = 0 then cost v SstoreSetGasEIP2200
                  else cost (if val = 0 then addRefund v SstoreClearsScheduleRefundEIP2200 else v) SstoreResetGasEIP2200
                else
                  bnd (if original \<noteq> 0 then
                         if current = 0 then v_try v (\<lambda>s. SubRefund s SstoreClearsScheduleRefundEIP2200)
                         else Ok (if val = 0 then addRefund v SstoreClearsScheduleRefundEIP2200 else v)
                       else Ok v) (\<lambda>v.
                  let v = (if original = val then
                             if original = 0 then addRefund v (SstoreSetGasEIP2200 - SloadGasEIP2200)
                             else addRefund v (SstoreResetGasEIP2200 - SloadGasEIP2200)
                           else v)
                  in cost v SloadGasEIP2200))))"

definition makeGasLog :: "u64 \<Rightarrow> 't gasFunc" where
  "makeGasLog n E v memorySize =
     gthen (back64 E v 1) (\<lambda>v requestedSize.
     gthen (memCost v memorySize) (\<lambda>v gas.
     gthen (addCost v gas LogGas) (\<lambda>v gas.
     gthen (addCost v gas (n * LogTopicGas)) (\<lambda>v gas.
     gthen (mulCost v requestedSize LogDataGas) (\<lambda>v memorySizeGas.
       addCost v gas memorySizeGas)))))"

definition gasSha3 :: "'t gasFunc" where
  "gasSha3 E v memorySize =
     gthen (memCost v memorySize) (\<lambda>v gas.
     gthen (back64 E v 1) (\<lambda>v wordGas.
     gthen (mulCost v (toWordSize wordGas) Sha3WordGas) (\<lambda>v wordGas. addCost v gas wordGas)))"

definition pureMemoryGascost :: "'t gasFunc" where
  "pureMemoryGascost E v memorySize = memCost v memorySize"

definition gasCreate2 :: "'t gasFunc" where
  "gasCreate2 E v memorySize =
     gthen (memCost v memorySize) (\<lambda>v gas.
     gthen (back64 E v 2) (\<lambda>v wordGas.
     gthen (mulCost v (toWordSize wordGas) Sha3WordGas) (\<lambda>v wordGas. addCost v gas wordGas)))"

definition gasExp :: "u64 \<Rightarrow> 't gasFunc" where
  "gasExp byteGas E v memorySize =
     bnd (stack_Back (v_stack v) 1) (\<lambda>x.
       let expByteLen = of_int ((u_BitLen (e_U E) x + 7) div 8) :: u64
       in addCost v (expByteLen * byteGas) ExpGas)"

definition gasExpFrontier :: "'t gasFunc" where "gasExpFrontier = gasExp ExpByteFrontier"
definition gasExpEIP158 :: "'t gasFunc" where "gasExpEIP158 = gasExp ExpByteEIP158"

text \<open>The end of the call gas functions: reserve the gas of the call and add it.\<close>

definition withCallGas :: "'t env \<Rightarrow> 't vm \<Rightarrow> u64 \<Rightarrow> 't gasResult" where
  "withCallGas E v gas =
     bnd (stack_Back (v_stack v) 0) (\<lambda>x.
       case callGas (e_U E) (r_IsEIP150 (e_rules E)) (c_Gas (v_contract v)) gas x of
         Inl err \<Rightarrow> fail (v\<lparr>v_m := (v_m v)\<lparr>m_callGasTemp := 0\<rparr>\<rparr>) err
       | Inr g \<Rightarrow> addCost (v\<lparr>v_m := (v_m v)\<lparr>m_callGasTemp := g\<rparr>\<rparr>) gas g)"

definition gasCall :: "'t gasFunc" where
  "gasCall E v memorySize =
     bnd (stack_Back (v_stack v) 2) (\<lambda>x2. bnd (stack_Back (v_stack v) 1) (\<lambda>x1.
       let transfersValue = (\<not> u_IsZero (e_U E) x2);
           address = u_Bytes20 (e_U E) x1;
           (v, new) =
             (if r_IsEIP158 (e_rules E) then
                if transfersValue then v_get v (\<lambda>s. Empty (e_db E) s address) else (v, False)
              else (case v_get v (\<lambda>s. Exist (e_db E) s address) of (v, b) \<Rightarrow> (v, \<not> b)));
           gas = (if new then CallNewAccountGas else 0);
           gas = gas + (if transfersValue then CallValueTransferGas else 0)
       in gthen (memCost v memorySize) (\<lambda>v memoryGas.
          gthen (addCost v gas memoryGas) (\<lambda>v gas. withCallGas E v gas))))"

definition gasCallCode :: "'t gasFunc" where
  "gasCallCode E v memorySize =
     gthen (memCost v memorySize) (\<lambda>v memoryGas.
     bnd (stack_Back (v_stack v) 2) (\<lambda>x2.
       let gas = (if u_Sign (e_U E) x2 \<noteq> 0 then CallValueTransferGas else 0)
       in gthen (addCost v gas memoryGas) (\<lambda>v gas. withCallGas E v gas)))"

definition gasDelegateCall :: "'t gasFunc" where
  "gasDelegateCall E v memorySize = gthen (memCost v memorySize) (\<lambda>v gas. withCallGas E v gas)"

definition gasStaticCall :: "'t gasFunc" where
  "gasStaticCall E v memorySize = gthen (memCost v memorySize) (\<lambda>v gas. withCallGas E v gas)"

definition gasSelfdestruct :: "'t gasFunc" where
  "gasSelfdestruct E v memorySize =
     bnd (stack_Back (v_stack v) 0) (\<lambda>x0.
       let address = u_Bytes20 (e_U E) x0;
           (v, gas) =
             (if r_IsEIP150 (e_rules E) then
                if r_IsEIP158 (e_rules E) then
                  let (v, empty) = v_get v (\<lambda>s. Empty (e_db E) s address)
                  in if empty then
                       let (v, b) = v_get v (\<lambda>s. GetBalance (e_db E) s (self v))
                       in (v, if b \<noteq> 0 then SelfdestructGasEIP150 + CreateBySelfdestructGas else SelfdestructGasEIP150)
                     else (v, SelfdestructGasEIP150)
                else
                  let (v, exist) = v_get v (\<lambda>s. Exist (e_db E) s address)
                  in (v, if exist then SelfdestructGasEIP150 else SelfdestructGasEIP150 + CreateBySelfdestructGas)
              else (v, 0));
           (v, suicided) = v_get v (\<lambda>s. HasSuicided (e_db E) s (self v));
           v = (if suicided then v else addRefund v SelfdestructRefundGas)
       in cost v gas)"

section \<open>Access lists (\<open>operations_acl.go\<close>)\<close>

definition makeGasSStoreFunc :: "u64 \<Rightarrow> 't gasFunc" where
  "makeGasSStoreFunc clearingRefund E v memorySize =
     (if c_Gas (v_contract v) \<le> SstoreSentryGasEIP2200 then fail v ErrReentrancySentry
      else
        bnd (stack_Back (v_stack v) 1) (\<lambda>y. bnd (stack_Back (v_stack v) 0) (\<lambda>x.
        let slot = u_Bytes32 (e_U E) x;
            (v, current) = v_get v (\<lambda>s. GetState (e_db E) s (self v) slot)
        in bnd (SlotInAccessList (m_StateDB (v_m v)) (self v) slot) (\<lambda>(addrPresent, slotPresent).
           bnd (if slotPresent then Ok (v, 0)
                else bnd (v_try v (\<lambda>s. AddSlotToAccessList s (self v) slot)) (\<lambda>v.
                       if addrPresent then Ok (v, ColdSloadCostEIP2929) else Panic)) (\<lambda>(v, c).
           let val = u_Bytes32 (e_U E) y
           in if current = val then cost v (c + WarmStorageReadCostEIP2929)
              else
                let (v, original) = v_get v (\<lambda>s. GetCommittedState (e_db E) s (self v) slot)
                in if original = current then
                     if original = 0 then cost v (c + SstoreSetGasEIP2200)
                     else cost (if val = 0 then addRefund v clearingRefund else v)
                            (c + (SstoreResetGasEIP2200 - ColdSloadCostEIP2929))
                   else
                     bnd (if original \<noteq> 0 then
                            if current = 0 then v_try v (\<lambda>s. SubRefund s clearingRefund)
                            else Ok (if val = 0 then addRefund v clearingRefund else v)
                          else Ok v) (\<lambda>v.
                     let v = (if original = val then
                                if original = 0 then addRefund v (SstoreSetGasEIP2200 - WarmStorageReadCostEIP2929)
                                else addRefund v ((SstoreResetGasEIP2200 - ColdSloadCostEIP2929) - WarmStorageReadCostEIP2929)
                              else v)
                     in cost v (c + WarmStorageReadCostEIP2929)))))))"

definition gasSStoreEIP2929 :: "'t gasFunc" where
  "gasSStoreEIP2929 = makeGasSStoreFunc SstoreClearsScheduleRefundEIP2200"

definition gasSStoreEIP3529 :: "'t gasFunc" where
  "gasSStoreEIP3529 = makeGasSStoreFunc SstoreClearsScheduleRefundEIP3529"

definition gasSLoadEIP2929 :: "'t gasFunc" where
  "gasSLoadEIP2929 E v memorySize =
     bnd (stack_Back (v_stack v) 0) (\<lambda>loc.
       let slot = u_Bytes32 (e_U E) loc
       in bnd (SlotInAccessList (m_StateDB (v_m v)) (self v) slot) (\<lambda>(addrPresent, slotPresent).
            if slotPresent then cost v WarmStorageReadCostEIP2929
            else bnd (v_try v (\<lambda>s. AddSlotToAccessList s (self v) slot)) (\<lambda>v. cost v ColdSloadCostEIP2929)))"

definition gasExtCodeCopyEIP2929 :: "'t gasFunc" where
  "gasExtCodeCopyEIP2929 E v memorySize =
     gthen (gasExtCodeCopy E v memorySize) (\<lambda>v gas.
     bnd (stack_Back (v_stack v) 0) (\<lambda>x.
       let addr = u_Bytes20 (e_U E) x
       in if AddressInAccessList (m_StateDB (v_m v)) addr then cost v gas
          else addCost (v_do v (\<lambda>s. AddAddressToAccessList s addr)) gas
                 (ColdAccountAccessCostEIP2929 - WarmStorageReadCostEIP2929)))"

definition gasEip2929AccountCheck :: "'t gasFunc" where
  "gasEip2929AccountCheck E v memorySize =
     bnd (stack_Back (v_stack v) 0) (\<lambda>x.
       let addr = u_Bytes20 (e_U E) x
       in if AddressInAccessList (m_StateDB (v_m v)) addr then cost v 0
          else cost (v_do v (\<lambda>s. AddAddressToAccessList s addr))
                 (ColdAccountAccessCostEIP2929 - WarmStorageReadCostEIP2929))"

text \<open>The cold access is charged before the old calculator runs and handed back afterwards.\<close>

definition makeCallVariantGasCallEIP2929 :: "'t gasFunc \<Rightarrow> 't gasFunc" where
  "makeCallVariantGasCallEIP2929 oldCalculator E v memorySize =
     bnd (stack_Back (v_stack v) 1) (\<lambda>x.
       let addr = u_Bytes20 (e_U E) x;
           warmAccess = AddressInAccessList (m_StateDB (v_m v)) addr;
           coldCost = ColdAccountAccessCostEIP2929 - WarmStorageReadCostEIP2929
       in if warmAccess then oldCalculator E v memorySize
          else
            let v = v_do v (\<lambda>s. AddAddressToAccessList s addr)
            in case UseGas (v_contract v) coldCost of
                 (c, False) \<Rightarrow> fail v ErrOutOfGas
               | (c, True) \<Rightarrow>
                   gthen (oldCalculator E (v\<lparr>v_contract := c\<rparr>) memorySize) (\<lambda>v gas.
                     cost (v\<lparr>v_contract := (v_contract v)\<lparr>c_Gas := c_Gas (v_contract v) + coldCost\<rparr>\<rparr>)
                       (gas + coldCost)))"

definition gasCallEIP2929 :: "'t gasFunc" where "gasCallEIP2929 = makeCallVariantGasCallEIP2929 gasCall"
definition gasDelegateCallEIP2929 :: "'t gasFunc" where
  "gasDelegateCallEIP2929 = makeCallVariantGasCallEIP2929 gasDelegateCall"
definition gasStaticCallEIP2929 :: "'t gasFunc" where
  "gasStaticCallEIP2929 = makeCallVariantGasCallEIP2929 gasStaticCall"
definition gasCallCodeEIP2929 :: "'t gasFunc" where
  "gasCallCodeEIP2929 = makeCallVariantGasCallEIP2929 gasCallCode"

definition makeSelfdestructGasFn :: "bool \<Rightarrow> 't gasFunc" where
  "makeSelfdestructGasFn refundsEnabled E v memorySize =
     bnd (stack_Back (v_stack v) 0) (\<lambda>x.
       let address = u_Bytes20 (e_U E) x;
           (v, gas) = (if AddressInAccessList (m_StateDB (v_m v)) address then (v, 0)
                       else (v_do v (\<lambda>s. AddAddressToAccessList s address), ColdAccountAccessCostEIP2929));
           (v, empty) = v_get v (\<lambda>s. Empty (e_db E) s address);
           (v, gas) = (if empty then
                         let (v, b) = v_get v (\<lambda>s. GetBalance (e_db E) s (self v))
                         in (v, if b \<noteq> 0 then gas + CreateBySelfdestructGas else gas)
                       else (v, gas));
           v = (if refundsEnabled then
                  let (v, suicided) = v_get v (\<lambda>s. HasSuicided (e_db E) s (self v))
                  in if suicided then v else addRefund v SelfdestructRefundGas
                else v)
       in cost v gas)"

definition gasSelfdestructEIP2929 :: "'t gasFunc" where "gasSelfdestructEIP2929 = makeSelfdestructGasFn True"
definition gasSelfdestructEIP3529 :: "'t gasFunc" where "gasSelfdestructEIP3529 = makeSelfdestructGasFn False"

end
