(* ===== verification/Instructions.thy ===== *)
theory Instructions
  imports GasTable
begin

text \<open>
  The instructions of the virtual machine (\<open>core/vm/instructions.go\<close> and the opcodes of \<open>eips.go\<close>).
  An instruction returns the new state, the result bytes and an error; popping an empty stack panics.
\<close>

type_synonym 't execResult = "('t vm \<times> bytes \<times> vmError option) outcome"
type_synonym 't executionFunc = "'t env \<Rightarrow> 't runner \<Rightarrow> 't vm \<Rightarrow> 't execResult"

definition nxt :: "'t vm \<Rightarrow> u256 list \<Rightarrow> 't execResult" where
  "nxt v st = Ok (v\<lparr>v_stack := st\<rparr>, [], None)"

definition unop :: "(u256 \<Rightarrow> u256) \<Rightarrow> 't vm \<Rightarrow> 't execResult" where
  "unop f v = (case v_stack v of x # st \<Rightarrow> nxt v (f x # st) | _ \<Rightarrow> Panic)"

definition binop :: "(u256 \<Rightarrow> u256 \<Rightarrow> u256) \<Rightarrow> 't vm \<Rightarrow> 't execResult" where
  "binop f v = (case v_stack v of x # y # st \<Rightarrow> nxt v (f x y # st) | _ \<Rightarrow> Panic)"

definition triop :: "(u256 \<Rightarrow> u256 \<Rightarrow> u256 \<Rightarrow> u256) \<Rightarrow> 't vm \<Rightarrow> 't execResult" where
  "triop f v = (case v_stack v of x # y # z # st \<Rightarrow> nxt v (f x y z # st) | _ \<Rightarrow> Panic)"

definition pushop :: "u256 \<Rightarrow> 't vm \<Rightarrow> 't execResult" where
  "pushop x v = nxt v (x # v_stack v)"

definition flag :: "bool \<Rightarrow> u256" where
  "flag b = (if b then 1 else 0)"

section \<open>Arithmetic, comparison and bits\<close>

definition opAdd :: "'t executionFunc" where "opAdd E R v = binop (u_Add (e_U E)) v"
definition opSub :: "'t executionFunc" where "opSub E R v = binop (u_Sub (e_U E)) v"
definition opMul :: "'t executionFunc" where "opMul E R v = binop (u_Mul (e_U E)) v"
definition opDiv :: "'t executionFunc" where "opDiv E R v = binop (u_Div (e_U E)) v"
definition opSdiv :: "'t executionFunc" where "opSdiv E R v = binop (u_SDiv (e_U E)) v"
definition opMod :: "'t executionFunc" where "opMod E R v = binop (u_Mod (e_U E)) v"
definition opSmod :: "'t executionFunc" where "opSmod E R v = binop (u_SMod (e_U E)) v"
definition opExp :: "'t executionFunc" where "opExp E R v = binop (u_Exp (e_U E)) v"
definition opSignExtend :: "'t executionFunc" where
  "opSignExtend E R v = binop (\<lambda>bk num. u_ExtendSign (e_U E) num bk) v"
definition opNot :: "'t executionFunc" where "opNot E R v = unop (u_Not (e_U E)) v"
definition opLt :: "'t executionFunc" where "opLt E R v = binop (\<lambda>x y. flag (u_Lt (e_U E) x y)) v"
definition opGt :: "'t executionFunc" where "opGt E R v = binop (\<lambda>x y. flag (u_Gt (e_U E) x y)) v"
definition opSlt :: "'t executionFunc" where "opSlt E R v = binop (\<lambda>x y. flag (u_Slt (e_U E) x y)) v"
definition opSgt :: "'t executionFunc" where "opSgt E R v = binop (\<lambda>x y. flag (u_Sgt (e_U E) x y)) v"
definition opEq :: "'t executionFunc" where "opEq E R v = binop (\<lambda>x y. flag (u_Eq (e_U E) x y)) v"
definition opIszero :: "'t executionFunc" where "opIszero E R v = unop (\<lambda>x. flag (u_IsZero (e_U E) x)) v"
definition opAnd :: "'t executionFunc" where "opAnd E R v = binop (u_And (e_U E)) v"
definition opOr :: "'t executionFunc" where "opOr E R v = binop (u_Or (e_U E)) v"
definition opXor :: "'t executionFunc" where "opXor E R v = binop (u_Xor (e_U E)) v"
definition opByte :: "'t executionFunc" where "opByte E R v = binop (\<lambda>th val. u_Byte (e_U E) val th) v"
definition opAddmod :: "'t executionFunc" where
  "opAddmod E R v = triop (\<lambda>x y z. if u_IsZero (e_U E) z then 0 else u_AddMod (e_U E) x y z) v"
definition opMulmod :: "'t executionFunc" where "opMulmod E R v = triop (u_MulMod (e_U E)) v"

definition opSHL :: "'t executionFunc" where
  "opSHL E R v =
     binop (\<lambda>shift val. if u_LtUint64 (e_U E) shift 256 then u_Lsh (e_U E) val (u_Uint64 (e_U E) shift) else 0) v"

definition opSHR :: "'t executionFunc" where
  "opSHR E R v =
     binop (\<lambda>shift val. if u_LtUint64 (e_U E) shift 256 then u_Rsh (e_U E) val (u_Uint64 (e_U E) shift) else 0) v"

definition opSAR :: "'t executionFunc" where
  "opSAR E R v =
     binop (\<lambda>shift val.
       if u_GtUint64 (e_U E) shift 256 then if u_Sign (e_U E) val \<ge> 0 then 0 else u_SetAllOne (e_U E)
       else u_SRsh (e_U E) val (u_Uint64 (e_U E) shift)) v"

section \<open>Environment\<close>

text \<open>The signed reading of a 64-bit offset, \<open>int64(x.Uint64())\<close>.\<close>

definition off64 :: "'t env \<Rightarrow> u256 \<Rightarrow> int" where
  "off64 E x = sint (u_Uint64 (e_U E) x)"

definition addrWord :: "'t env \<Rightarrow> address \<Rightarrow> u256" where
  "addrWord E a = u_SetBytes (e_U E) (address_Bytes a)"

definition opSha3 :: "'t executionFunc" where
  "opSha3 E R v =
     (case v_stack v of
        offset # sz # st \<Rightarrow>
          bnd (Memory_GetPtr (v_mem v) (off64 E offset) (off64 E sz)) (\<lambda>data.
            let h = keccak256 (e_db E) data;
                v = (if e_EnablePreimageRecording E then v_do v (\<lambda>s. AddPreimage s h data) else v)
            in nxt v (u_SetBytes (e_U E) (hash_Bytes h) # st))
      | _ \<Rightarrow> Panic)"

definition opAddress :: "'t executionFunc" where "opAddress E R v = pushop (addrWord E (self v)) v"

definition opBalance :: "'t executionFunc" where
  "opBalance E R v =
     (case v_stack v of
        slot # st \<Rightarrow>
          let (v, b) = v_get v (\<lambda>s. GetBalance (e_db E) s (u_Bytes20 (e_U E) slot))
          in nxt v (u_FromBig (e_U E) b # st)
      | _ \<Rightarrow> Panic)"

definition opOrigin :: "'t executionFunc" where "opOrigin E R v = pushop (addrWord E (tx_Origin (e_Tx E))) v"
definition opCaller :: "'t executionFunc" where "opCaller E R v = pushop (addrWord E (c_CallerAddress (v_contract v))) v"

text \<open>\<open>FromBig\<close> of a nil integer is nil, and pushing it panics.\<close>

definition pushBig :: "'t env \<Rightarrow> int option \<Rightarrow> 't vm \<Rightarrow> 't execResult" where
  "pushBig E b v = (case b of None \<Rightarrow> Panic | Some i \<Rightarrow> pushop (u_FromBig (e_U E) i) v)"

definition opCallValue :: "'t executionFunc" where "opCallValue E R v = pushBig E (c_value (v_contract v)) v"

definition opCallDataLoad :: "'t executionFunc" where
  "opCallDataLoad E R v =
     (case v_stack v of
        x # st \<Rightarrow>
          (case u_Uint64WithOverflow (e_U E) x of (offset, overflow) \<Rightarrow>
             if overflow then nxt v (0 # st)
             else bnd (getData (c_Input (v_contract v)) offset 32) (\<lambda>data. nxt v (u_SetBytes (e_U E) data # st)))
      | _ \<Rightarrow> Panic)"

definition pushLen :: "'t env \<Rightarrow> nat \<Rightarrow> 't vm \<Rightarrow> 't execResult" where
  "pushLen E n v = pushop (u_SetUint64 (e_U E) (of_nat n)) v"

definition opCallDataSize :: "'t executionFunc" where
  "opCallDataSize E R v = pushLen E (length (c_Input (v_contract v))) v"

definition setMem :: "'t vm \<Rightarrow> Memory \<Rightarrow> 't vm" where
  "setMem v mem = v\<lparr>v_mem := mem\<rparr>"

text \<open>Copying a range of some data to memory; an offset that overflows is past the end.\<close>

definition copyOp :: "'t env \<Rightarrow> bytes \<Rightarrow> u256 \<Rightarrow> u256 \<Rightarrow> u256 \<Rightarrow> u256 list \<Rightarrow> 't vm \<Rightarrow> 't execResult" where
  "copyOp E data memOffset dataOffset len st v =
     (case u_Uint64WithOverflow (e_U E) dataOffset of (off, overflow) \<Rightarrow>
        let dataOffset64 = (if overflow then 0xffffffffffffffff else off);
            length64 = u_Uint64 (e_U E) len
        in bnd (getData data dataOffset64 length64) (\<lambda>d.
           bnd (Memory_Set (v_mem v) (u_Uint64 (e_U E) memOffset) length64 d) (\<lambda>mem. nxt (setMem v mem) st)))"

definition opCallDataCopy :: "'t executionFunc" where
  "opCallDataCopy E R v =
     (case v_stack v of
        memOffset # dataOffset # len # st \<Rightarrow> copyOp E (c_Input (v_contract v)) memOffset dataOffset len st v
      | _ \<Rightarrow> Panic)"

definition opReturnDataSize :: "'t executionFunc" where
  "opReturnDataSize E R v = pushLen E (length (m_returnData (v_m v))) v"

definition opReturnDataCopy :: "'t executionFunc" where
  "opReturnDataCopy E R v =
     (case v_stack v of
        memOffset # dataOffset # len # st \<Rightarrow>
          let v = v\<lparr>v_stack := st\<rparr>;
              (offset64, overflow) = u_Uint64WithOverflow (e_U E) dataOffset
          in if overflow then Ok (v, [], Some ErrReturnDataOutOfBounds)
             else
               let (end64, overflow) = u_Uint64WithOverflow (e_U E) (u_Add (e_U E) dataOffset len)
               in if overflow \<or> length (m_returnData (v_m v)) < unat end64
                  then Ok (v, [], Some ErrReturnDataOutOfBounds)
                  else if offset64 > end64 then Panic
                  else
                    bnd (Memory_Set (v_mem v) (u_Uint64 (e_U E) memOffset) (u_Uint64 (e_U E) len)
                           (slice (m_returnData (v_m v)) (unat offset64) (unat end64)))
                      (\<lambda>mem. nxt (setMem v mem) st)
      | _ \<Rightarrow> Panic)"

definition opExtCodeSize :: "'t executionFunc" where
  "opExtCodeSize E R v =
     (case v_stack v of
        slot # st \<Rightarrow>
          let (v, n) = v_get v (\<lambda>s. GetCodeSize (e_db E) s (u_Bytes20 (e_U E) slot))
          in nxt v (u_SetUint64 (e_U E) (of_int n) # st)
      | _ \<Rightarrow> Panic)"

definition opCodeSize :: "'t executionFunc" where
  "opCodeSize E R v = pushLen E (length (c_Code (v_contract v))) v"

definition opCodeCopy :: "'t executionFunc" where
  "opCodeCopy E R v =
     (case v_stack v of
        memOffset # codeOffset # len # st \<Rightarrow> copyOp E (c_Code (v_contract v)) memOffset codeOffset len st v
      | _ \<Rightarrow> Panic)"

definition opExtCodeCopy :: "'t executionFunc" where
  "opExtCodeCopy E R v =
     (case v_stack v of
        a # memOffset # codeOffset # len # st \<Rightarrow>
          let (v, code) = v_get v (\<lambda>s. GetCode (e_db E) s (u_Bytes20 (e_U E) a))
          in copyOp E code memOffset codeOffset len st v
      | _ \<Rightarrow> Panic)"

definition opExtCodeHash :: "'t executionFunc" where
  "opExtCodeHash E R v =
     (case v_stack v of
        slot # st \<Rightarrow>
          let address = u_Bytes20 (e_U E) slot;
              (v, empty) = v_get v (\<lambda>s. Empty (e_db E) s address)
          in if empty then nxt v (0 # st)
             else
               let (v, h) = v_get v (\<lambda>s. GetCodeHash (e_db E) s address)
               in nxt v (u_SetBytes (e_U E) (hash_Bytes h) # st)
      | _ \<Rightarrow> Panic)"

definition opGasprice :: "'t executionFunc" where "opGasprice E R v = pushBig E (Some (tx_GasPrice (e_Tx E))) v"

definition opBlockhash :: "'t executionFunc" where
  "opBlockhash E R v =
     unop (\<lambda>num.
       case u_Uint64WithOverflow (e_U E) num of (num64, overflow) \<Rightarrow>
         if overflow then 0
         else
           let upper = big_Uint64 (bc_BlockNumber (e_Context E));
               lower = (if upper < 257 then 0 else upper - 256)
           in if num64 \<ge> lower \<and> num64 < upper
              then u_SetBytes (e_U E) (hash_Bytes (bc_GetHash (e_Context E) num64)) else 0) v"

definition opCoinbase :: "'t executionFunc" where "opCoinbase E R v = pushop (addrWord E (bc_Coinbase (e_Context E))) v"
definition opTimestamp :: "'t executionFunc" where "opTimestamp E R v = pushBig E (Some (bc_Time (e_Context E))) v"
definition opNumber :: "'t executionFunc" where "opNumber E R v = pushBig E (Some (bc_BlockNumber (e_Context E))) v"
definition opDifficulty :: "'t executionFunc" where "opDifficulty E R v = pushBig E (Some (bc_Difficulty (e_Context E))) v"
definition opGasLimit :: "'t executionFunc" where
  "opGasLimit E R v = pushop (u_SetUint64 (e_U E) (bc_GasLimit (e_Context E))) v"

definition opSelfBalance :: "'t executionFunc" where
  "opSelfBalance E R v =
     (let (v, b) = v_get v (\<lambda>s. GetBalance (e_db E) s (self v)) in pushBig E (Some b) v)"

definition opChainID :: "'t executionFunc" where "opChainID E R v = pushBig E (e_ChainID E) v"
definition opBaseFee :: "'t executionFunc" where "opBaseFee E R v = pushBig E (bc_BaseFee (e_Context E)) v"

section \<open>Stack, memory, storage and control flow\<close>

definition opPop :: "'t executionFunc" where
  "opPop E R v = (case v_stack v of x # st \<Rightarrow> nxt v st | _ \<Rightarrow> Panic)"

definition opMload :: "'t executionFunc" where
  "opMload E R v =
     (case v_stack v of
        x # st \<Rightarrow> bnd (Memory_GetPtr (v_mem v) (off64 E x) 32) (\<lambda>d. nxt v (u_SetBytes (e_U E) d # st))
      | _ \<Rightarrow> Panic)"

definition opMstore :: "'t executionFunc" where
  "opMstore E R v =
     (case v_stack v of
        mStart # val # st \<Rightarrow>
          bnd (Memory_Set32 (e_U E) (v_mem v) (u_Uint64 (e_U E) mStart) val) (\<lambda>mem. nxt (setMem v mem) st)
      | _ \<Rightarrow> Panic)"

definition opMstore8 :: "'t executionFunc" where
  "opMstore8 E R v =
     (case v_stack v of
        off # val # st \<Rightarrow>
          let i = unat (u_Uint64 (e_U E) off); store = mem_store (v_mem v)
          in if i < length store
             then nxt (setMem v ((v_mem v)\<lparr>mem_store := store[i := ucast (u_Uint64 (e_U E) val)]\<rparr>)) st
             else Panic
      | _ \<Rightarrow> Panic)"

definition opSload :: "'t executionFunc" where
  "opSload E R v =
     (case v_stack v of
        loc # st \<Rightarrow>
          let (v, val) = v_get v (\<lambda>s. GetState (e_db E) s (self v) (u_Bytes32 (e_U E) loc))
          in nxt v (u_SetBytes (e_U E) (hash_Bytes val) # st)
      | _ \<Rightarrow> Panic)"

definition opSstore :: "'t executionFunc" where
  "opSstore E R v =
     (case v_stack v of
        loc # val # st \<Rightarrow>
          nxt (v_do v (\<lambda>s. SetState (e_db E) s (self v) (u_Bytes32 (e_U E) loc) (u_Bytes32 (e_U E) val))) st
      | _ \<Rightarrow> Panic)"

text \<open>A jump, after the destination has been checked.\<close>

definition jumpTo :: "'t env \<Rightarrow> u256 \<Rightarrow> 't vm \<Rightarrow> 't execResult" where
  "jumpTo E pos v =
     bnd (validJumpdest (e_U E) (m_jumpdests (v_m v)) (v_contract v) pos) (\<lambda>(jd, c, ok).
       let v = v\<lparr>v_m := (v_m v)\<lparr>m_jumpdests := jd\<rparr>, v_contract := c\<rparr>
       in if ok then Ok (v\<lparr>v_pc := u_Uint64 (e_U E) pos\<rparr>, [], None)
          else Ok (v, [], Some ErrInvalidJump))"

definition opJump :: "'t executionFunc" where
  "opJump E R v = (case v_stack v of pos # st \<Rightarrow> jumpTo E pos (v\<lparr>v_stack := st\<rparr>) | _ \<Rightarrow> Panic)"

definition opJumpi :: "'t executionFunc" where
  "opJumpi E R v =
     (case v_stack v of
        pos # cond # st \<Rightarrow>
          let v = v\<lparr>v_stack := st\<rparr>
          in if \<not> u_IsZero (e_U E) cond then jumpTo E pos v else Ok (v\<lparr>v_pc := v_pc v + 1\<rparr>, [], None)
      | _ \<Rightarrow> Panic)"

definition opJumpdest :: "'t executionFunc" where "opJumpdest E R v = Ok (v, [], None)"
definition opPc :: "'t executionFunc" where "opPc E R v = pushop (u_SetUint64 (e_U E) (v_pc v)) v"
definition opMsize :: "'t executionFunc" where "opMsize E R v = pushLen E (length (mem_store (v_mem v))) v"
definition opGas :: "'t executionFunc" where "opGas E R v = pushop (u_SetUint64 (e_U E) (c_Gas (v_contract v))) v"

section \<open>Creations and calls\<close>

definition setGas :: "'t vm \<Rightarrow> u64 \<Rightarrow> 't vm" where
  "setGas v g = v\<lparr>v_contract := (v_contract v)\<lparr>c_Gas := g\<rparr>\<rparr>"

definition useGas :: "'t vm \<Rightarrow> u64 \<Rightarrow> 't vm" where
  "useGas v g = v\<lparr>v_contract := fst (UseGas (v_contract v) g)\<rparr>"

definition bigVal :: "'t env \<Rightarrow> u256 \<Rightarrow> int" where
  "bigVal E x = (if u_IsZero (e_U E) x then 0 else u_ToBig (e_U E) x)"

text \<open>After a creation: push the address or zero, give the gas back, keep the output of a revert.\<close>

definition endCreate ::
  "'t env \<Rightarrow> bool \<Rightarrow> u256 list \<Rightarrow> 't vm \<Rightarrow> 't machine \<times> bytes \<times> address \<times> u64 \<times> vmError option \<Rightarrow> 't execResult" where
  "endCreate E failed st v r =
     (case r of (m, res, addr, returnGas, suberr) \<Rightarrow>
        let v = v\<lparr>v_m := m, v_stack := (if failed then 0 else addrWord E addr) # st\<rparr>;
            v = setGas v (c_Gas (v_contract v) + returnGas)
        in Ok (v, if suberr = Some ErrExecutionReverted then res else [], None))"

definition opCreate :: "'t executionFunc" where
  "opCreate E R v =
     (case v_stack v of
        val # offset # sz # st \<Rightarrow>
          bnd (Memory_GetCopy (v_mem v) (off64 E offset) (off64 E sz)) (\<lambda>input.
            let gas = c_Gas (v_contract v);
                gas = (if r_IsEIP150 (e_rules E) then gas - gas div 64 else gas);
                v = useGas v gas
            in bnd (Create E R (v_m v) (CallerContract (v_contract v)) input gas (bigVal E val)) (\<lambda>r.
                 let suberr = snd (snd (snd (snd r)));
                     failed = (r_IsHomestead (e_rules E) \<and> suberr = Some ErrCodeStoreOutOfGas \<or>
                               suberr \<noteq> None \<and> suberr \<noteq> Some ErrCodeStoreOutOfGas)
                 in endCreate E failed st v r))
      | _ \<Rightarrow> Panic)"

definition opCreate2 :: "'t executionFunc" where
  "opCreate2 E R v =
     (case v_stack v of
        endowment # offset # sz # salt # st \<Rightarrow>
          bnd (Memory_GetCopy (v_mem v) (off64 E offset) (off64 E sz)) (\<lambda>input.
            let gas = c_Gas (v_contract v);
                gas = gas - gas div 64;
                v = useGas v gas
            in bnd (Create2 E R (v_m v) (CallerContract (v_contract v)) input gas (bigVal E endowment) salt) (\<lambda>r.
                 endCreate E (snd (snd (snd (snd r))) \<noteq> None) st v r))
      | _ \<Rightarrow> Panic)"

text \<open>
  After a call: push the status, copy the result to memory unless the call failed, give the gas
  back.  When the result is the argument slice of the caller's memory, the bytes returned are what
  that part of the memory holds after the copy.
\<close>

definition endCallOp ::
  "'t env \<Rightarrow> u256 \<Rightarrow> u256 \<Rightarrow> u256 \<Rightarrow> u256 \<Rightarrow> u256 list \<Rightarrow> 't vm \<Rightarrow>
   't machine \<times> bytes \<times> u64 \<times> vmError option \<times> bool \<Rightarrow> 't execResult" where
  "endCallOp E inOffset inSize retOffset retSize st v r =
     (case r of (m, ret, returnGas, err, alias) \<Rightarrow>
        bnd (if err = None \<or> err = Some ErrExecutionReverted
             then Memory_Set (v_mem v) (u_Uint64 (e_U E) retOffset) (u_Uint64 (e_U E) retSize) ret
             else Ok (v_mem v)) (\<lambda>mem.
        bnd (if alias then Memory_GetPtr mem (off64 E inOffset) (off64 E inSize) else Ok ret) (\<lambda>ret.
          let v = v\<lparr>v_m := m, v_stack := flag (err = None) # st, v_mem := mem\<rparr>
          in Ok (setGas v (c_Gas (v_contract v) + returnGas), ret, None))))"

definition opCall :: "'t executionFunc" where
  "opCall E R v =
     (case v_stack v of
        temp # addr # val # inOffset # inSize # retOffset # retSize # st \<Rightarrow>
          bnd (Memory_GetPtr (v_mem v) (off64 E inOffset) (off64 E inSize)) (\<lambda>args.
            let gas = m_callGasTemp (v_m v);
                gas = (if \<not> u_IsZero (e_U E) val then gas + CallStipend else gas)
            in bnd (Call E R (v_m v) (CallerContract (v_contract v)) (u_Bytes20 (e_U E) addr) args gas (bigVal E val))
                 (endCallOp E inOffset inSize retOffset retSize st v))
      | _ \<Rightarrow> Panic)"

definition opCallCode :: "'t executionFunc" where
  "opCallCode E R v =
     (case v_stack v of
        temp # addr # val # inOffset # inSize # retOffset # retSize # st \<Rightarrow>
          bnd (Memory_GetPtr (v_mem v) (off64 E inOffset) (off64 E inSize)) (\<lambda>args.
            let gas = m_callGasTemp (v_m v);
                gas = (if \<not> u_IsZero (e_U E) val then gas + CallStipend else gas)
            in bnd (CallCode E R (v_m v) (CallerContract (v_contract v)) (u_Bytes20 (e_U E) addr) args gas (bigVal E val))
                 (endCallOp E inOffset inSize retOffset retSize st v))
      | _ \<Rightarrow> Panic)"

definition opDelegateCall :: "'t executionFunc" where
  "opDelegateCall E R v =
     (case v_stack v of
        temp # addr # inOffset # inSize # retOffset # retSize # st \<Rightarrow>
          bnd (Memory_GetPtr (v_mem v) (off64 E inOffset) (off64 E inSize)) (\<lambda>args.
          bnd (DelegateCall E R (v_m v) (CallerContract (v_contract v)) (u_Bytes20 (e_U E) addr) args
                 (m_callGasTemp (v_m v)))
            (endCallOp E inOffset inSize retOffset retSize st v))
      | _ \<Rightarrow> Panic)"

definition opStaticCall :: "'t executionFunc" where
  "opStaticCall E R v =
     (case v_stack v of
        temp # addr # inOffset # inSize # retOffset # retSize # st \<Rightarrow>
          bnd (Memory_GetPtr (v_mem v) (off64 E inOffset) (off64 E inSize)) (\<lambda>args.
          bnd (StaticCall E R (v_m v) (CallerContract (v_contract v)) (u_Bytes20 (e_U E) addr) args
                 (m_callGasTemp (v_m v)))
            (endCallOp E inOffset inSize retOffset retSize st v))
      | _ \<Rightarrow> Panic)"

definition returnRange :: "'t env \<Rightarrow> 't vm \<Rightarrow> 't execResult" where
  "returnRange E v =
     (case v_stack v of
        offset # sz # st \<Rightarrow>
          bnd (Memory_GetPtr (v_mem v) (off64 E offset) (off64 E sz)) (\<lambda>ret. Ok (v\<lparr>v_stack := st\<rparr>, ret, None))
      | _ \<Rightarrow> Panic)"

definition opReturn :: "'t executionFunc" where "opReturn E R v = returnRange E v"
definition opRevert :: "'t executionFunc" where "opRevert E R v = returnRange E v"
definition opStop :: "'t executionFunc" where "opStop E R v = Ok (v, [], None)"

definition opSuicide :: "'t executionFunc" where
  "opSuicide E R v =
     (case v_stack v of
        beneficiary # st \<Rightarrow>
          let (v, balance) = v_get v (\<lambda>s. GetBalance (e_db E) s (self v));
              v = v_do v (\<lambda>s. AddBalance (e_db E) s (u_Bytes20 (e_U E) beneficiary) balance);
              v = v_do v (\<lambda>s. fst (Suicide (e_db E) s (self v)))
          in nxt v st
      | _ \<Rightarrow> Panic)"

section \<open>Logs, pushes, duplications and swaps\<close>

definition makeLog :: "nat \<Rightarrow> 't executionFunc" where
  "makeLog sz E R v =
     (case v_stack v of
        mStart # mSize # st \<Rightarrow>
          if length st < sz then Panic
          else
            let topics = map (u_Bytes32 (e_U E)) (take sz st)
            in bnd (Memory_GetCopy (v_mem v) (off64 E mStart) (off64 E mSize)) (\<lambda>d.
                 nxt (v_do v (\<lambda>s. AddLog s
                        \<lparr>l_Address = self v, l_Topics = topics, l_Data = d,
                         l_BlockNumber = big_Uint64 (bc_BlockNumber (e_Context E)), l_TxHash = 0, l_TxIndex = 0,
                         l_BlockHash = 0, l_Index = 0, l_Removed = False\<rparr>)) (drop sz st))
      | _ \<Rightarrow> Panic)"

definition opPush1 :: "'t executionFunc" where
  "opPush1 E R v =
     (let code = c_Code (v_contract v);
          v = v\<lparr>v_pc := v_pc v + 1\<rparr>
      in if unat (v_pc v) < length code
         then pushop (u_SetUint64 (e_U E) (ucast (code ! unat (v_pc v)))) v
         else pushop 0 v)"

text \<open>The program counter is below \<open>2 ^ 63\<close>, as code is, so \<open>int(pc + 1)\<close> does not change sign.\<close>

definition makePush :: "u64 \<Rightarrow> nat \<Rightarrow> 't executionFunc" where
  "makePush sz pushByteSize E R v =
     (let code = c_Code (v_contract v);
          codeLen = length code;
          startMin = (if sint (v_pc v + 1) < int codeLen then nat (sint (v_pc v + 1)) else codeLen);
          endMin = (if startMin + pushByteSize < codeLen then startMin + pushByteSize else codeLen)
      in if sint (v_pc v + 1) < 0 then Panic
         else
           bnd (pushop (u_SetBytes (e_U E) (RightPadBytes (slice code startMin endMin) (int pushByteSize))) v)
             (\<lambda>(v, ret, err). Ok (v\<lparr>v_pc := v_pc v + sz\<rparr>, ret, err)))"

definition makeDup :: "nat \<Rightarrow> 't executionFunc" where
  "makeDup sz E R v = bnd (stack_dup (v_stack v) sz) (\<lambda>st. nxt v st)"

definition makeSwap :: "nat \<Rightarrow> 't executionFunc" where
  "makeSwap sz E R v = bnd (stack_swap (v_stack v) (sz + 1)) (\<lambda>st. nxt v st)"

end
