(* ===== verification/JumpTable.thy ===== *)
theory JumpTable
  imports Instructions
begin

text \<open>
  The instruction tables of the forks (\<open>core/vm/jump_table.go\<close>, \<open>eips.go\<close>, opcodes of \<open>opcodes.go\<close>).
  The four families PUSH, DUP, SWAP and LOG are mapped lists.  A table is a function from bytes to
  operations, so a fork that changes an entry does not affect the table it starts from.
\<close>

section \<open>Opcodes\<close>

abbreviation (input) STOP :: byte where "STOP \<equiv> 0x0"
abbreviation (input) ADD :: byte where "ADD \<equiv> 0x1"
abbreviation (input) MUL :: byte where "MUL \<equiv> 0x2"
abbreviation (input) SUB :: byte where "SUB \<equiv> 0x3"
abbreviation (input) DIV :: byte where "DIV \<equiv> 0x4"
abbreviation (input) SDIV :: byte where "SDIV \<equiv> 0x5"
abbreviation (input) MOD :: byte where "MOD \<equiv> 0x6"
abbreviation (input) SMOD :: byte where "SMOD \<equiv> 0x7"
abbreviation (input) ADDMOD :: byte where "ADDMOD \<equiv> 0x8"
abbreviation (input) MULMOD :: byte where "MULMOD \<equiv> 0x9"
abbreviation (input) EXP :: byte where "EXP \<equiv> 0xa"
abbreviation (input) SIGNEXTEND :: byte where "SIGNEXTEND \<equiv> 0xb"
abbreviation (input) LT :: byte where "LT \<equiv> 0x10"
abbreviation (input) GT :: byte where "GT \<equiv> 0x11"
abbreviation (input) SLT :: byte where "SLT \<equiv> 0x12"
abbreviation (input) SGT :: byte where "SGT \<equiv> 0x13"
abbreviation (input) EQ :: byte where "EQ \<equiv> 0x14"
abbreviation (input) ISZERO :: byte where "ISZERO \<equiv> 0x15"
abbreviation (input) AND :: byte where "AND \<equiv> 0x16"
abbreviation (input) OR :: byte where "OR \<equiv> 0x17"
abbreviation (input) XOR :: byte where "XOR \<equiv> 0x18"
abbreviation (input) NOT :: byte where "NOT \<equiv> 0x19"
abbreviation (input) BYTE :: byte where "BYTE \<equiv> 0x1a"
abbreviation (input) SHL :: byte where "SHL \<equiv> 0x1b"
abbreviation (input) SHR :: byte where "SHR \<equiv> 0x1c"
abbreviation (input) SAR :: byte where "SAR \<equiv> 0x1d"
abbreviation (input) SHA3 :: byte where "SHA3 \<equiv> 0x20"
abbreviation (input) ADDRESS :: byte where "ADDRESS \<equiv> 0x30"
abbreviation (input) BALANCE :: byte where "BALANCE \<equiv> 0x31"
abbreviation (input) ORIGIN :: byte where "ORIGIN \<equiv> 0x32"
abbreviation (input) CALLER :: byte where "CALLER \<equiv> 0x33"
abbreviation (input) CALLVALUE :: byte where "CALLVALUE \<equiv> 0x34"
abbreviation (input) CALLDATALOAD :: byte where "CALLDATALOAD \<equiv> 0x35"
abbreviation (input) CALLDATASIZE :: byte where "CALLDATASIZE \<equiv> 0x36"
abbreviation (input) CALLDATACOPY :: byte where "CALLDATACOPY \<equiv> 0x37"
abbreviation (input) CODESIZE :: byte where "CODESIZE \<equiv> 0x38"
abbreviation (input) CODECOPY :: byte where "CODECOPY \<equiv> 0x39"
abbreviation (input) GASPRICE :: byte where "GASPRICE \<equiv> 0x3a"
abbreviation (input) EXTCODESIZE :: byte where "EXTCODESIZE \<equiv> 0x3b"
abbreviation (input) EXTCODECOPY :: byte where "EXTCODECOPY \<equiv> 0x3c"
abbreviation (input) RETURNDATASIZE :: byte where "RETURNDATASIZE \<equiv> 0x3d"
abbreviation (input) RETURNDATACOPY :: byte where "RETURNDATACOPY \<equiv> 0x3e"
abbreviation (input) EXTCODEHASH :: byte where "EXTCODEHASH \<equiv> 0x3f"
abbreviation (input) BLOCKHASH :: byte where "BLOCKHASH \<equiv> 0x40"
abbreviation (input) COINBASE :: byte where "COINBASE \<equiv> 0x41"
abbreviation (input) TIMESTAMP :: byte where "TIMESTAMP \<equiv> 0x42"
abbreviation (input) NUMBER :: byte where "NUMBER \<equiv> 0x43"
abbreviation (input) DIFFICULTY :: byte where "DIFFICULTY \<equiv> 0x44"
abbreviation (input) GASLIMIT :: byte where "GASLIMIT \<equiv> 0x45"
abbreviation (input) CHAINID :: byte where "CHAINID \<equiv> 0x46"
abbreviation (input) SELFBALANCE :: byte where "SELFBALANCE \<equiv> 0x47"
abbreviation (input) BASEFEE :: byte where "BASEFEE \<equiv> 0x48"
abbreviation (input) POP :: byte where "POP \<equiv> 0x50"
abbreviation (input) MLOAD :: byte where "MLOAD \<equiv> 0x51"
abbreviation (input) MSTORE :: byte where "MSTORE \<equiv> 0x52"
abbreviation (input) MSTORE8 :: byte where "MSTORE8 \<equiv> 0x53"
abbreviation (input) SLOAD :: byte where "SLOAD \<equiv> 0x54"
abbreviation (input) SSTORE :: byte where "SSTORE \<equiv> 0x55"
abbreviation (input) JUMP :: byte where "JUMP \<equiv> 0x56"
abbreviation (input) JUMPI :: byte where "JUMPI \<equiv> 0x57"
abbreviation (input) PC :: byte where "PC \<equiv> 0x58"
abbreviation (input) MSIZE :: byte where "MSIZE \<equiv> 0x59"
abbreviation (input) GAS :: byte where "GAS \<equiv> 0x5a"
abbreviation (input) PUSH :: byte where "PUSH \<equiv> 0xb0"
abbreviation (input) DUP :: byte where "DUP \<equiv> 0xb1"
abbreviation (input) SWAP :: byte where "SWAP \<equiv> 0xb2"
abbreviation (input) CREATE :: byte where "CREATE \<equiv> 0xf0"
abbreviation (input) CALL :: byte where "CALL \<equiv> 0xf1"
abbreviation (input) CALLCODE :: byte where "CALLCODE \<equiv> 0xf2"
abbreviation (input) RETURN :: byte where "RETURN \<equiv> 0xf3"
abbreviation (input) DELEGATECALL :: byte where "DELEGATECALL \<equiv> 0xf4"
abbreviation (input) CREATE2 :: byte where "CREATE2 \<equiv> 0xf5"
abbreviation (input) STATICCALL :: byte where "STATICCALL \<equiv> 0xfa"
abbreviation (input) REVERT :: byte where "REVERT \<equiv> 0xfd"
abbreviation (input) SELFDESTRUCT :: byte where "SELFDESTRUCT \<equiv> 0xff"

section \<open>Operations\<close>

record 't operation =
  o_execute :: "'t executionFunc"
  o_constantGas :: u64
  o_dynamicGas :: "'t gasFunc option"
  o_minStack :: int
  o_maxStack :: int
  o_memorySize :: "memorySizeFunc option"
  o_halts :: bool
  o_jumps :: bool
  o_writes :: bool
  o_reverts :: bool
  o_returns :: bool

type_synonym 't JumpTable = "byte \<Rightarrow> 't operation option"

text \<open>An operation that pops and pushes the given numbers of items, with the flags and functions unset.\<close>

definition opn :: "'t executionFunc \<Rightarrow> u64 \<Rightarrow> int \<Rightarrow> int \<Rightarrow> 't operation" where
  "opn f gas pops push =
     \<lparr>o_execute = f, o_constantGas = gas, o_dynamicGas = None,
      o_minStack = minStack pops push, o_maxStack = maxStack pops push, o_memorySize = None,
      o_halts = False, o_jumps = False, o_writes = False, o_reverts = False, o_returns = False\<rparr>"

section \<open>Frontier\<close>

definition frontierArithmetic :: "(byte \<times> 't operation) list" where
  "frontierArithmetic =
     [(STOP, (opn opStop 0 0 0)\<lparr>o_halts := True\<rparr>),
      (ADD, opn opAdd GasFastestStep 2 1),
      (MUL, opn opMul GasFastStep 2 1),
      (SUB, opn opSub GasFastestStep 2 1),
      (DIV, opn opDiv GasFastStep 2 1),
      (SDIV, opn opSdiv GasFastStep 2 1),
      (MOD, opn opMod GasFastStep 2 1),
      (SMOD, opn opSmod GasFastStep 2 1),
      (ADDMOD, opn opAddmod GasMidStep 3 1),
      (MULMOD, opn opMulmod GasMidStep 3 1),
      (EXP, (opn opExp 0 2 1)\<lparr>o_dynamicGas := Some gasExpFrontier\<rparr>),
      (SIGNEXTEND, opn opSignExtend GasFastStep 2 1),
      (LT, opn opLt GasFastestStep 2 1),
      (GT, opn opGt GasFastestStep 2 1),
      (SLT, opn opSlt GasFastestStep 2 1),
      (SGT, opn opSgt GasFastestStep 2 1),
      (EQ, opn opEq GasFastestStep 2 1),
      (ISZERO, opn opIszero GasFastestStep 1 1),
      (AND, opn opAnd GasFastestStep 2 1),
      (XOR, opn opXor GasFastestStep 2 1),
      (OR, opn opOr GasFastestStep 2 1),
      (NOT, opn opNot GasFastestStep 1 1),
      (BYTE, opn opByte GasFastestStep 2 1)]"

definition frontierEnvironment :: "(byte \<times> 't operation) list" where
  "frontierEnvironment =
     [(SHA3, (opn opSha3 Sha3Gas 2 1)\<lparr>o_dynamicGas := Some gasSha3, o_memorySize := Some memorySha3\<rparr>),
      (ADDRESS, opn opAddress GasQuickStep 0 1),
      (BALANCE, opn opBalance BalanceGasFrontier 1 1),
      (ORIGIN, opn opOrigin GasQuickStep 0 1),
      (CALLER, opn opCaller GasQuickStep 0 1),
      (CALLVALUE, opn opCallValue GasQuickStep 0 1),
      (CALLDATALOAD, opn opCallDataLoad GasFastestStep 1 1),
      (CALLDATASIZE, opn opCallDataSize GasQuickStep 0 1),
      (CALLDATACOPY, (opn opCallDataCopy GasFastestStep 3 0)\<lparr>o_dynamicGas := Some gasCallDataCopy, o_memorySize := Some memoryCallDataCopy\<rparr>),
      (CODESIZE, opn opCodeSize GasQuickStep 0 1),
      (CODECOPY, (opn opCodeCopy GasFastestStep 3 0)\<lparr>o_dynamicGas := Some gasCodeCopy, o_memorySize := Some memoryCodeCopy\<rparr>),
      (GASPRICE, opn opGasprice GasQuickStep 0 1),
      (EXTCODESIZE, opn opExtCodeSize ExtcodeSizeGasFrontier 1 1),
      (EXTCODECOPY, (opn opExtCodeCopy ExtcodeCopyBaseFrontier 4 0)\<lparr>o_dynamicGas := Some gasExtCodeCopy, o_memorySize := Some memoryExtCodeCopy\<rparr>)]"

definition frontierBlock :: "(byte \<times> 't operation) list" where
  "frontierBlock =
     [(BLOCKHASH, opn opBlockhash GasExtStep 1 1),
      (COINBASE, opn opCoinbase GasQuickStep 0 1),
      (TIMESTAMP, opn opTimestamp GasQuickStep 0 1),
      (NUMBER, opn opNumber GasQuickStep 0 1),
      (DIFFICULTY, opn opDifficulty GasQuickStep 0 1),
      (GASLIMIT, opn opGasLimit GasQuickStep 0 1)]"

definition frontierFlow :: "(byte \<times> 't operation) list" where
  "frontierFlow =
     [(POP, opn opPop GasQuickStep 1 0),
      (MLOAD, (opn opMload GasFastestStep 1 1)\<lparr>o_dynamicGas := Some pureMemoryGascost, o_memorySize := Some memoryMLoad\<rparr>),
      (MSTORE, (opn opMstore GasFastestStep 2 0)\<lparr>o_dynamicGas := Some pureMemoryGascost, o_memorySize := Some memoryMStore\<rparr>),
      (MSTORE8, (opn opMstore8 GasFastestStep 2 0)\<lparr>o_dynamicGas := Some pureMemoryGascost, o_memorySize := Some memoryMStore8\<rparr>),
      (SLOAD, opn opSload SloadGasFrontier 1 1),
      (SSTORE, (opn opSstore 0 2 0)\<lparr>o_dynamicGas := Some gasSStore, o_writes := True\<rparr>),
      (JUMP, (opn opJump GasMidStep 1 0)\<lparr>o_jumps := True\<rparr>),
      (JUMPI, (opn opJumpi GasSlowStep 2 0)\<lparr>o_jumps := True\<rparr>),
      (PC, opn opPc GasQuickStep 0 1),
      (MSIZE, opn opMsize GasQuickStep 0 1),
      (GAS, opn opGas GasQuickStep 0 1),
      (JUMPDEST, opn opJumpdest JumpdestGas 0 0)]"

definition frontierSystem :: "(byte \<times> 't operation) list" where
  "frontierSystem =
     [(CREATE, (opn opCreate CreateGas 3 1)\<lparr>o_dynamicGas := Some pureMemoryGascost, o_memorySize := Some memoryCreate, o_writes := True, o_returns := True\<rparr>),
      (CALL, (opn opCall CallGasFrontier 7 1)\<lparr>o_dynamicGas := Some gasCall, o_memorySize := Some memoryCall, o_returns := True\<rparr>),
      (CALLCODE, (opn opCallCode CallGasFrontier 7 1)\<lparr>o_dynamicGas := Some gasCallCode, o_memorySize := Some memoryCall, o_returns := True\<rparr>),
      (RETURN, (opn opReturn 0 2 0)\<lparr>o_dynamicGas := Some pureMemoryGascost, o_memorySize := Some memoryReturn, o_halts := True\<rparr>),
      (SELFDESTRUCT, (opn opSuicide 0 1 0)\<lparr>o_dynamicGas := Some gasSelfdestruct, o_halts := True, o_writes := True\<rparr>)]"

definition frontierPush :: "(byte \<times> 't operation) list" where
  "frontierPush =
     (PUSH1, opn opPush1 GasFastestStep 0 1) #
     map (\<lambda>n. (PUSH1 + of_nat (n - 1), opn (makePush (of_nat n) n) GasFastestStep 0 1)) [2..<33]"

definition frontierDup :: "(byte \<times> 't operation) list" where
  "frontierDup =
     map (\<lambda>n. (0x80 + of_nat (n - 1),
                (opn (makeDup n) GasFastestStep 0 0)\<lparr>o_minStack := minDupStack (int n), o_maxStack := maxDupStack (int n)\<rparr>))
       [1..<17]"

definition frontierSwap :: "(byte \<times> 't operation) list" where
  "frontierSwap =
     map (\<lambda>n. (0x90 + of_nat (n - 1),
                (opn (makeSwap n) GasFastestStep 0 0)\<lparr>o_minStack := minSwapStack (int n + 1), o_maxStack := maxSwapStack (int n + 1)\<rparr>))
       [1..<17]"

definition frontierLog :: "(byte \<times> 't operation) list" where
  "frontierLog =
     map (\<lambda>n. (0xa0 + of_nat n,
                (opn (makeLog n) 0 (int n + 2) 0)\<lparr>o_dynamicGas := Some (makeGasLog (of_nat n)), o_memorySize := Some memoryLog,
                  o_writes := True\<rparr>))
       [0..<5]"

definition newFrontierInstructionSet :: "'t JumpTable" where
  "newFrontierInstructionSet =
     map_of (frontierArithmetic @ frontierEnvironment @ frontierBlock @ frontierFlow @ frontierPush @
       frontierDup @ frontierSwap @ frontierLog @ frontierSystem)"

section \<open>Later forks\<close>

text \<open>Changing an entry; assigning a field of a nil entry panics at start-up, which does not arise.\<close>

definition upd_op :: "'t JumpTable \<Rightarrow> byte \<Rightarrow> ('t operation \<Rightarrow> 't operation) \<Rightarrow> 't JumpTable" where
  "upd_op jt k f = jt(k := map_option f (jt k))"

abbreviation (input) "const_gas g \<equiv> (\<lambda>o'. o'\<lparr>o_constantGas := g\<rparr>)"
abbreviation (input) "dyn_gas f \<equiv> (\<lambda>o'. o'\<lparr>o_dynamicGas := Some f\<rparr>)"

definition newHomesteadInstructionSet :: "'t JumpTable" where
  "newHomesteadInstructionSet =
     newFrontierInstructionSet(DELEGATECALL \<mapsto>
       (opn opDelegateCall CallGasFrontier 6 1)\<lparr>o_dynamicGas := Some gasDelegateCall,
         o_memorySize := Some memoryDelegateCall, o_returns := True\<rparr>)"

definition newTangerineWhistleInstructionSet :: "'t JumpTable" where
  "newTangerineWhistleInstructionSet =
     (let jt = newHomesteadInstructionSet;
          jt = upd_op jt BALANCE (const_gas BalanceGasEIP150);
          jt = upd_op jt EXTCODESIZE (const_gas ExtcodeSizeGasEIP150);
          jt = upd_op jt SLOAD (const_gas SloadGasEIP150);
          jt = upd_op jt EXTCODECOPY (const_gas ExtcodeCopyBaseEIP150);
          jt = upd_op jt CALL (const_gas CallGasEIP150);
          jt = upd_op jt CALLCODE (const_gas CallGasEIP150)
      in upd_op jt DELEGATECALL (const_gas CallGasEIP150))"

definition newSpuriousDragonInstructionSet :: "'t JumpTable" where
  "newSpuriousDragonInstructionSet = upd_op newTangerineWhistleInstructionSet EXP (dyn_gas gasExpEIP158)"

definition newByzantiumInstructionSet :: "'t JumpTable" where
  "newByzantiumInstructionSet =
     newSpuriousDragonInstructionSet(
       STATICCALL \<mapsto> (opn opStaticCall CallGasEIP150 6 1)\<lparr>o_dynamicGas := Some gasStaticCall,
         o_memorySize := Some memoryStaticCall, o_returns := True\<rparr>,
       RETURNDATASIZE \<mapsto> opn opReturnDataSize GasQuickStep 0 1,
       RETURNDATACOPY \<mapsto> (opn opReturnDataCopy GasFastestStep 3 0)\<lparr>o_dynamicGas := Some gasReturnDataCopy,
         o_memorySize := Some memoryReturnDataCopy\<rparr>,
       REVERT \<mapsto> (opn opRevert 0 2 0)\<lparr>o_dynamicGas := Some pureMemoryGascost, o_memorySize := Some memoryRevert,
         o_reverts := True, o_returns := True\<rparr>)"

definition newConstantinopleInstructionSet :: "'t JumpTable" where
  "newConstantinopleInstructionSet =
     newByzantiumInstructionSet(
       SHL \<mapsto> opn opSHL GasFastestStep 2 1,
       SHR \<mapsto> opn opSHR GasFastestStep 2 1,
       SAR \<mapsto> opn opSAR GasFastestStep 2 1,
       EXTCODEHASH \<mapsto> opn opExtCodeHash ExtcodeHashGasConstantinople 1 1,
       CREATE2 \<mapsto> (opn opCreate2 Create2Gas 4 1)\<lparr>o_dynamicGas := Some gasCreate2,
         o_memorySize := Some memoryCreate2, o_writes := True, o_returns := True\<rparr>)"

definition enable1884 :: "'t JumpTable \<Rightarrow> 't JumpTable" where
  "enable1884 jt =
     (let jt = upd_op jt SLOAD (const_gas SloadGasEIP1884);
          jt = upd_op jt BALANCE (const_gas BalanceGasEIP1884);
          jt = upd_op jt EXTCODEHASH (const_gas ExtcodeHashGasEIP1884)
      in jt(SELFBALANCE \<mapsto> opn opSelfBalance GasFastStep 0 1))"

definition enable1344 :: "'t JumpTable \<Rightarrow> 't JumpTable" where
  "enable1344 jt = jt(CHAINID \<mapsto> opn opChainID GasQuickStep 0 1)"

definition enable2200 :: "'t JumpTable \<Rightarrow> 't JumpTable" where
  "enable2200 jt =
     (let jt = upd_op jt SLOAD (const_gas SloadGasEIP2200)
      in upd_op jt SSTORE (dyn_gas gasSStoreEIP2200))"

definition enable2929 :: "'t JumpTable \<Rightarrow> 't JumpTable" where
  "enable2929 jt =
     (let jt = upd_op jt SSTORE (dyn_gas gasSStoreEIP2929);
          jt = upd_op jt SLOAD (const_gas 0);
          jt = upd_op jt SLOAD (dyn_gas gasSLoadEIP2929);
          jt = upd_op jt EXTCODECOPY (const_gas WarmStorageReadCostEIP2929);
          jt = upd_op jt EXTCODECOPY (dyn_gas gasExtCodeCopyEIP2929);
          jt = upd_op jt EXTCODESIZE (const_gas WarmStorageReadCostEIP2929);
          jt = upd_op jt EXTCODESIZE (dyn_gas gasEip2929AccountCheck);
          jt = upd_op jt EXTCODEHASH (const_gas WarmStorageReadCostEIP2929);
          jt = upd_op jt EXTCODEHASH (dyn_gas gasEip2929AccountCheck);
          jt = upd_op jt BALANCE (const_gas WarmStorageReadCostEIP2929);
          jt = upd_op jt BALANCE (dyn_gas gasEip2929AccountCheck);
          jt = upd_op jt CALL (const_gas WarmStorageReadCostEIP2929);
          jt = upd_op jt CALL (dyn_gas gasCallEIP2929);
          jt = upd_op jt CALLCODE (const_gas WarmStorageReadCostEIP2929);
          jt = upd_op jt CALLCODE (dyn_gas gasCallCodeEIP2929);
          jt = upd_op jt STATICCALL (const_gas WarmStorageReadCostEIP2929);
          jt = upd_op jt STATICCALL (dyn_gas gasStaticCallEIP2929);
          jt = upd_op jt DELEGATECALL (const_gas WarmStorageReadCostEIP2929);
          jt = upd_op jt DELEGATECALL (dyn_gas gasDelegateCallEIP2929);
          jt = upd_op jt SELFDESTRUCT (const_gas SelfdestructGasEIP150)
      in upd_op jt SELFDESTRUCT (dyn_gas gasSelfdestructEIP2929))"

definition enable3529 :: "'t JumpTable \<Rightarrow> 't JumpTable" where
  "enable3529 jt =
     (let jt = upd_op jt SSTORE (dyn_gas gasSStoreEIP3529)
      in upd_op jt SELFDESTRUCT (dyn_gas gasSelfdestructEIP3529))"

definition enable3198 :: "'t JumpTable \<Rightarrow> 't JumpTable" where
  "enable3198 jt = jt(BASEFEE \<mapsto> opn opBaseFee GasQuickStep 0 1)"

definition newIstanbulInstructionSet :: "'t JumpTable" where
  "newIstanbulInstructionSet = enable2200 (enable1884 (enable1344 newConstantinopleInstructionSet))"

definition newBerlinInstructionSet :: "'t JumpTable" where
  "newBerlinInstructionSet = enable2929 newIstanbulInstructionSet"

definition newLondonInstructionSet :: "'t JumpTable" where
  "newLondonInstructionSet = enable3198 (enable3529 newBerlinInstructionSet)"

text \<open>The table chosen by \<open>NewEVMInterpreter\<close> when no extra EIPs are configured.\<close>

definition instructionSet :: "Rules \<Rightarrow> 't JumpTable" where
  "instructionSet rules =
     (if r_IsLondon rules then newLondonInstructionSet
      else if r_IsBerlin rules then newBerlinInstructionSet
      else if r_IsIstanbul rules then newIstanbulInstructionSet
      else if r_IsConstantinople rules then newConstantinopleInstructionSet
      else if r_IsByzantium rules then newByzantiumInstructionSet
      else if r_IsEIP158 rules then newSpuriousDragonInstructionSet
      else if r_IsEIP150 rules then newTangerineWhistleInstructionSet
      else if r_IsHomestead rules then newHomesteadInstructionSet
      else newFrontierInstructionSet)"

end
