(* ===== verification/Interpreter.thy ===== *)
theory Interpreter
  imports JumpTable
begin

text \<open>
  The interpreter loop (\<open>core/vm/interpreter.go\<close>).  The loop runs on fuel: an iteration and a nested
  run each take one unit, and running out is the outcome \<open>NoFuel\<close>.
\<close>

text \<open>What one iteration of the loop does: go on, or return the result bytes and error.\<close>

datatype 't stepResult = Continue "'t vm" | Return "'t vm" bytes "vmError option"

text \<open>The stack check and the write protection.\<close>

definition checkOperation :: "'t env \<Rightarrow> byte \<Rightarrow> 't operation \<Rightarrow> 't vm \<Rightarrow> vmError option outcome" where
  "checkOperation E opc operation v =
     (let sLen = int (length (v_stack v))
      in if sLen < o_minStack operation then Ok (Some (ErrStackUnderflow sLen (o_minStack operation)))
         else if sLen > o_maxStack operation then Ok (Some (ErrStackOverflow sLen (o_maxStack operation)))
         else if m_readOnly (v_m v) \<and> r_IsByzantium (e_rules E) then
           if o_writes operation then Ok (Some ErrWriteProtection)
           else if opc = CALL then
             bnd (stack_Back (v_stack v) 2) (\<lambda>x. Ok (if u_Sign (e_U E) x \<noteq> 0 then Some ErrWriteProtection else None))
           else Ok None
         else Ok None)"

text \<open>The memory size an operation needs, in whole words.\<close>

definition memorySizeOf :: "'t env \<Rightarrow> 't operation \<Rightarrow> 't vm \<Rightarrow> (vmError + u64) outcome" where
  "memorySizeOf E operation v =
     (case o_memorySize operation of
        None \<Rightarrow> Ok (Inr 0)
      | Some f \<Rightarrow>
          bnd (f (e_U E) (v_stack v)) (\<lambda>(memSize, overflow).
            if overflow then Ok (Inl ErrGasUintOverflow)
            else
              (case SafeMul (toWordSize memSize) 32 of (memorySize, overflow) \<Rightarrow>
                 if overflow then Ok (Inl ErrGasUintOverflow) else Ok (Inr memorySize))))"

text \<open>Charging the dynamic gas; every error of the gas function is reported as running out of gas.\<close>

definition chargeDynamic :: "'t env \<Rightarrow> 't operation \<Rightarrow> 't vm \<Rightarrow> u64 \<Rightarrow> ('t vm \<times> bool) outcome" where
  "chargeDynamic E operation v memorySize =
     (case o_dynamicGas operation of
        None \<Rightarrow> Ok (v, True)
      | Some f \<Rightarrow>
          bnd (f E v memorySize) (\<lambda>(v, r).
            case r of
              Inl err \<Rightarrow> Ok (v, False)
            | Inr dynamicCost \<Rightarrow>
                (case UseGas (v_contract v) dynamicCost of (c, ok) \<Rightarrow> Ok (v\<lparr>v_contract := c\<rparr>, ok))))"

text \<open>After the instruction: record the return data and decide how to go on.\<close>

definition finishStep :: "'t operation \<Rightarrow> 't vm \<times> bytes \<times> vmError option \<Rightarrow> 't stepResult" where
  "finishStep operation r =
     (case r of (v, res, err) \<Rightarrow>
        let v = (if o_returns operation then v\<lparr>v_m := (v_m v)\<lparr>m_returnData := res\<rparr>\<rparr> else v)
        in case err of
             Some e \<Rightarrow> Return v [] (Some e)
           | None \<Rightarrow>
               if o_reverts operation then Return v res (Some ErrExecutionReverted)
               else if o_halts operation then Return v res None
               else if \<not> o_jumps operation then Continue (v\<lparr>v_pc := v_pc v + 1\<rparr>)
               else Continue v)"

text \<open>An iteration in its phases: run the instruction, after charging for it, after the checks.\<close>

definition runOperation :: "'t env \<Rightarrow> 't operation \<Rightarrow> 't runner \<Rightarrow> 't vm \<Rightarrow> u64 \<Rightarrow> 't stepResult outcome" where
  "runOperation E operation R v memorySize =
     (let v = (if memorySize > 0 then v\<lparr>v_mem := Memory_Resize (v_mem v) memorySize\<rparr> else v)
      in bnd (o_execute operation E R v) (\<lambda>r. Ok (finishStep operation r)))"

definition chargeAndRun :: "'t env \<Rightarrow> 't operation \<Rightarrow> 't runner \<Rightarrow> 't vm \<Rightarrow> 't stepResult outcome" where
  "chargeAndRun E operation R v =
     bnd (memorySizeOf E operation v) (\<lambda>sz.
       case sz of
         Inl e \<Rightarrow> Ok (Return v [] (Some e))
       | Inr memorySize \<Rightarrow>
           bnd (chargeDynamic E operation v memorySize) (\<lambda>(v, ok).
             if \<not> ok then Ok (Return v [] (Some ErrOutOfGas)) else runOperation E operation R v memorySize))"

definition step :: "'t env \<Rightarrow> 't JumpTable \<Rightarrow> 't runner \<Rightarrow> 't vm \<Rightarrow> 't stepResult outcome" where
  "step E jt R v =
     (let opc = GetOp (v_contract v) (v_pc v)
      in case jt opc of
           None \<Rightarrow> Ok (Return v [] (Some (ErrInvalidOpCode opc)))
         | Some operation \<Rightarrow>
             bnd (checkOperation E opc operation v) (\<lambda>bad.
             case bad of
               Some e \<Rightarrow> Ok (Return v [] (Some e))
             | None \<Rightarrow>
                 (case UseGas (v_contract v) (o_constantGas operation) of
                    (c, False) \<Rightarrow> Ok (Return v [] (Some ErrOutOfGas))
                  | (c, True) \<Rightarrow> chargeAndRun E operation R (v\<lparr>v_contract := c\<rparr>))))"

text \<open>The poll of the abort flag at every thousandth iteration.\<close>

definition poll :: "'t env \<Rightarrow> nat \<Rightarrow> 't vm \<Rightarrow> 't vm \<times> bool" where
  "poll E steps v =
     (if steps mod 1000 = 0
      then (v\<lparr>v_m := (v_m v)\<lparr>m_polls := m_polls (v_m v) + 1\<rparr>\<rparr>, e_abort E (m_polls (v_m v))) else (v, False))"

text \<open>Entering and leaving \<open>Run\<close>: the depth, the read-only flag and the return data.\<close>

definition enterRun :: "bool \<Rightarrow> 't machine \<Rightarrow> 't machine" where
  "enterRun readOnly m =
     m\<lparr>m_depth := m_depth m + 1, m_readOnly := m_readOnly m \<or> readOnly, m_returnData := []\<rparr>"

definition leaveRun :: "bool \<Rightarrow> 't machine \<Rightarrow> 't machine \<Rightarrow> 't machine" where
  "leaveRun readOnly m0 m =
     m\<lparr>m_depth := m_depth m - 1,
       m_readOnly := (if readOnly \<and> \<not> m_readOnly m0 then False else m_readOnly m)\<rparr>"

definition newFrame :: "'t machine \<Rightarrow> Contract \<Rightarrow> bytes \<Rightarrow> 't vm" where
  "newFrame m c input =
     \<lparr>v_m = m, v_pc = 0, v_stack = [], v_mem = NewMemory, v_contract = c\<lparr>c_Input := input\<rparr>\<rparr>"

text \<open>
  One iteration given the continuation of the loop, and \<open>Run\<close> given the loop.  \<open>loop n\<close> runs at most
  \<open>n\<close> iterations, and nested runs inside an iteration use the fuel that is left.
\<close>

definition iterate ::
  "'t env \<Rightarrow> 't JumpTable \<Rightarrow> 't runner \<Rightarrow> (nat \<Rightarrow> 't vm \<Rightarrow> ('t vm \<times> bytes \<times> vmError option) outcome) \<Rightarrow>
   nat \<Rightarrow> 't vm \<Rightarrow> ('t vm \<times> bytes \<times> vmError option) outcome" where
  "iterate E jt R k steps v =
     (case poll E (steps + 1) v of (v, aborted) \<Rightarrow>
        if aborted then Ok (v, [], None)
        else
          bnd (step E jt R v) (\<lambda>r.
            case r of
              Return v res err \<Rightarrow> Ok (v, res, err)
            | Continue v \<Rightarrow> k (steps + 1) v))"

definition runWith ::
  "(nat \<Rightarrow> 't vm \<Rightarrow> ('t vm \<times> bytes \<times> vmError option) outcome) \<Rightarrow> 't runner" where
  "runWith k m c input readOnly =
     (let m1 = enterRun readOnly m
      in if c_Code c = [] then Ok (leaveRun readOnly m m1, c, [], None)
         else
           bnd (k 0 (newFrame m1 c input)) (\<lambda>(v, res, err).
             Ok (leaveRun readOnly m (v_m v), v_contract v, res, err)))"

primrec loop ::
  "nat \<Rightarrow> 't env \<Rightarrow> 't JumpTable \<Rightarrow> nat \<Rightarrow> 't vm \<Rightarrow> ('t vm \<times> bytes \<times> vmError option) outcome" where
  "loop 0 E jt steps v = NoFuel"
| "loop (Suc n) E jt steps v = iterate E jt (runWith (loop n E jt)) (loop n E jt) steps v"

definition Run :: "nat \<Rightarrow> 't env \<Rightarrow> 't JumpTable \<Rightarrow> 't runner" where
  "Run fuel E jt = runWith (loop fuel E jt)"

end
