(* ===== verification/StateEffects.thy ===== *)
theory StateEffects
  imports StateSnapshot
begin

text \<open>
  What the operations of the state database do to the accounts a client sees.  The view of an
  account is its balance, nonce, code, self-destruct mark and storage; each setter changes one of
  them at one address.  \<open>world_eq\<close> compares the accounts before and after operations that may only
  touch accounts into existence.
\<close>

section \<open>Views\<close>

record acctView =
  av_balance :: int
  av_nonce :: u64
  av_code :: bytes
  av_suicided :: bool
  av_storage :: "hash \<Rightarrow> hash"

definition objView :: "'t backend \<Rightarrow> snapshot option \<Rightarrow> hash set \<Rightarrow> 't stateObject \<Rightarrow> acctView" where
  "objView D sn sd ob =
     \<lparr>av_balance = so_Balance ob, av_nonce = so_Nonce ob, av_code = nilBytes (codeOf D ob),
      av_suicided = so_suicided ob, av_storage = current D sn sd ob\<rparr>"

definition view :: "'t backend \<Rightarrow> 't StateDB \<Rightarrow> address \<Rightarrow> acctView option" where
  "view D s a = map_option (objView D (s_snap s) (s_snapDestructs s)) (account D s a)"

lemma getters_view:
  assumes "sdb_wf D s"
  shows "snd (Exist D s a) = (view D s a \<noteq> None)"
    "snd (GetBalance D s a) = (case view D s a of None \<Rightarrow> 0 | Some w \<Rightarrow> av_balance w)"
    "snd (GetNonce D s a) = (case view D s a of None \<Rightarrow> 0 | Some w \<Rightarrow> av_nonce w)"
    "snd (GetCode D s a) = (case view D s a of None \<Rightarrow> [] | Some w \<Rightarrow> av_code w)"
    "snd (HasSuicided D s a) = (case view D s a of None \<Rightarrow> False | Some w \<Rightarrow> av_suicided w)"
    "snd (GetState D s a k) = (case view D s a of None \<Rightarrow> 0 | Some w \<Rightarrow> av_storage w k)"
  unfolding getters_account [OF assms] view_def
  by (simp_all add: objView_def split: option.split)

lemma objView_eq: "obj_eq D sn sd o1 o2 \<Longrightarrow> objView D sn sd o1 = objView D sn sd o2"
  by (simp add: objView_def obj_eq_def so_Balance_def so_Nonce_def)

lemma view_sdb_eq:
  assumes "sdb_eq D s t"
  shows "view D s = view D t"
proof
  fix a
  from account_eq [OF assms, of a] sdb_eqD(2,3) [OF assms] show "view D s a = view D t a"
    by (cases "account D s a"; cases "account D t a") (auto simp: view_def intro: objView_eq)
qed

lemma look_get:
  assumes "getDeletedStateObject D s a = (s', r)"
  shows "look D s' = look D s" "s_snap s' = s_snap s" "s_snapDestructs s' = s_snapDestructs s"
proof -
  have "look D s' = look D s \<and> s_snap s' = s_snap s \<and> s_snapDestructs s' = s_snapDestructs s"
  proof (cases rule: getDeletedStateObject_cases [of s a D])
    case (live ob)
    with assms show ?thesis by simp
  next
    case (loaded data)
    then have "s' = putObject s a (newObject D a data)" using assms by simp
    with loaded show ?thesis by (simp add: fun_eq_iff look_putObject) (simp add: look_def)
  next
    case (absent t)
    then have "t = s'" using assms by simp
    then have "unobserved s s'" using absent(4) setError_unobserved by (auto simp: unobserved_def)
    then show ?thesis by (auto simp: unobserved_def intro: look_frame)
  qed
  then show "look D s' = look D s" "s_snap s' = s_snap s" "s_snapDestructs s' = s_snapDestructs s" by simp_all
qed

lemma account_frame:
  assumes "look D t b = look D s b"
  shows "account D t b = account D s b"
  using assms by (simp add: account_def)

lemma objView_destructs:
  assumes "so_addrHash ob \<in> sd \<longleftrightarrow> so_addrHash ob \<in> sd'"
  shows "objView D sn sd ob = objView D sn sd' ob"
proof -
  have "slotLoad D sn sd ob = slotLoad D sn sd' ob"
    using assms by (simp add: slotLoad_def fun_eq_iff split: option.split)
  note l = this
  have "committed D sn sd ob = committed D sn sd' ob" unfolding committed_def [abs_def] l ..
  note c = this
  show ?thesis unfolding objView_def current_def [abs_def] c ..
qed

text \<open>Creating an object at one address leaves every other account as it is.\<close>

lemma createObject_others:
  assumes wf: "sdb_wf D s" and inj: "addrHash_inj D" and c: "createObject D s a = (s', ob, prev)" and ne: "b \<noteq> a"
  shows "view D s' b = view D s b"
proof -
  obtain s1 q where g: "getDeletedStateObject D s a = (s1, q)" by fastforce
  note lk = look_get [OF g] and v = getDeletedStateObject_view [OF wf g]
  have h: "so_addrHash p = keccak256 D (address_Bytes a)" if "q = Some p" for p
    using that v(1) obj_wf_look [OF wf] by (auto simp: obj_wf_def)
  have hb: "so_addrHash ob' \<noteq> keccak256 D (address_Bytes a)" if "account D s b = Some ob'" for ob'
  proof -
    have "look D s b = Some ob'" using that by (auto simp: account_def split: option.splits if_splits)
    from obj_wf_look [OF wf this] show ?thesis
      using inj ne unfolding obj_wf_def addrHash_inj_def inj_def by metis
  qed
  let ?n = "newObject D a zeroAccount"
  have l: "look D s' b = look D s b \<and> s_snap s' = s_snap s \<and>
    (s_snapDestructs s' = s_snapDestructs s \<or> s_snapDestructs s' = insert (keccak256 D (address_Bytes a)) (s_snapDestructs s))"
  proof (cases q)
    case None
    then have "s' = putObject (log_entry s1 (CreateObjectChange a)) a ?n"
      using c g by (auto simp: createObject_def setStateObject_put Let_def)
    then show ?thesis
      using lk ne look_frame [of "log_entry s1 (CreateObjectChange a)" s1 D] by (simp add: look_putObject)
  next
    case (Some p)
    define s2 where "s2 = (if s_snap s1 \<noteq> None \<and> \<not> (s_snap s1 \<noteq> None \<and> so_addrHash p \<in> s_snapDestructs s1)
      then s1\<lparr>s_snapDestructs := insert (so_addrHash p) (s_snapDestructs s1)\<rparr> else s1)"
    have s2: "look D s2 = look D s1" "s_snap s2 = s_snap s1"
      "s_snapDestructs s2 = s_snapDestructs s1 \<or> s_snapDestructs s2 = insert (so_addrHash p) (s_snapDestructs s1)"
      by (auto simp: s2_def intro: look_frame)
    let ?e = "ResetObjectChange p (s_snap s1 \<noteq> None \<and> so_addrHash p \<in> s_snapDestructs s1)"
    have "s' = putObject (log_entry s2 ?e) a ?n"
      using c g Some unfolding s2_def by (auto simp: createObject_def setStateObject_put Let_def)
    then show ?thesis
      using lk ne s2 h [OF Some] look_frame [of "log_entry s2 ?e" s2 D] by (simp add: look_putObject)
  qed
  then have l: "look D s' b = look D s b" "s_snap s' = s_snap s"
    "s_snapDestructs s' = s_snapDestructs s \<or> s_snapDestructs s' = insert (keccak256 D (address_Bytes a)) (s_snapDestructs s)"
    by simp_all
  show ?thesis
  proof (cases "account D s b")
    case None
    then show ?thesis using account_frame [OF l(1)] by (simp add: view_def)
  next
    case (Some ob')
    from objView_destructs [of ob' "s_snapDestructs s'" "s_snapDestructs s" D "s_snap s"] l(3) hb [OF Some]
    show ?thesis using account_frame [OF l(1)] l(2) Some by (auto simp: view_def)
  qed
qed

text \<open>A touched or created account: zero balance and nonce, no code, not self-destructed.\<close>

definition blank :: "acctView \<Rightarrow> bool" where
  "blank w \<longleftrightarrow> av_balance w = 0 \<and> av_nonce w = 0 \<and> av_code w = [] \<and> \<not> av_suicided w"

lemma blank_newObject: "blank (objView D sn sd (newObject D a zeroAccount))"
proof -
  have "acc_CodeHash zeroAccount = None" by (simp add: zeroAccount_def)
  then have "so_CodeHash (newObject D a zeroAccount) = emptyCodeHash D"
    using newObject_CodeHash [of D a zeroAccount] by (simp add: so_CodeHash_def)
  then show ?thesis
    by (simp add: blank_def objView_def so_Balance_def so_Nonce_def codeOf_eq) (simp add: zeroAccount_def)
qed

text \<open>The state and object \<open>GetOrNewStateObject\<close> returns.\<close>

lemma view_GetOrNew:
  assumes wf: "sdb_wf D s" and inj: "addrHash_inj D" and g: "GetOrNewStateObject D s a = (s1, ob)"
  shows "b \<noteq> a \<Longrightarrow> view D s1 b = view D s b"
    "account D s1 a = Some ob"
    "view D s a = Some (objView D (s_snap s1) (s_snapDestructs s1) ob) \<or>
     view D s a = None \<and> blank (objView D (s_snap s1) (s_snapDestructs s1) ob)"
proof -
  obtain s0 q where g0: "getStateObject D s a = (s0, q)" by fastforce
  note v = getStateObject_view [OF wf g0]
  have eq: "view D s0 = view D s" by (rule view_sdb_eq [OF v(2)])
  have "(b \<noteq> a \<longrightarrow> view D s1 b = view D s b) \<and> account D s1 a = Some ob \<and>
    (view D s a = Some (objView D (s_snap s1) (s_snapDestructs s1) ob) \<or>
     view D s a = None \<and> blank (objView D (s_snap s1) (s_snapDestructs s1) ob))"
  proof (cases q)
    case (Some o1)
    then have "s1 = s0" "ob = o1" using g g0 by (simp_all add: GetOrNewStateObject_def)
    moreover have "account D s0 a = Some o1"
      using v(1,7) Some by (auto simp: account_def look_def split: option.splits if_splits)
    ultimately show ?thesis using eq by (metis (no_types, lifting) view_def option.simps(9))
  next
    case None
    obtain prev where c: "createObject D s0 a = (s1, ob, prev)"
      using g g0 None by (auto simp: GetOrNewStateObject_def split: prod.splits)
    note r = createObject_result [OF c]
    have "account D s1 a = Some ob" using r(1,2) by (simp add: account_def look_def)
    moreover have "view D s a = None" using v(1) None by (simp add: view_def)
    ultimately show ?thesis
      using createObject_others [OF v(3) inj c] eq blank_newObject [of D] r(1) by simp
  qed
  then show "b \<noteq> a \<Longrightarrow> view D s1 b = view D s b" "account D s1 a = Some ob"
    "view D s a = Some (objView D (s_snap s1) (s_snapDestructs s1) ob) \<or>
     view D s a = None \<and> blank (objView D (s_snap s1) (s_snapDestructs s1) ob)" by simp_all
qed

text \<open>An update of one object in a state that otherwise changed only in its journal.\<close>

lemma view_put:
  assumes "look D s2 = look D s1" "s_snap s2 = s_snap s1" "s_snapDestructs s2 = s_snapDestructs s1" "\<not> so_deleted ob"
  shows "view D (putObject s2 a ob) b =
    (if b = a then Some (objView D (s_snap s1) (s_snapDestructs s1) ob) else view D s1 b)"
  using assms by (simp add: view_def account_def look_putObject)

text \<open>
  The views before and after an update at \<open>a\<close>: the account there, or a blank one if there is none, is
  updated by \<open>g\<close>, and nothing else changes.
\<close>

definition updates_at :: "address \<Rightarrow> (acctView \<Rightarrow> acctView) \<Rightarrow> (address \<Rightarrow> acctView option) \<Rightarrow> (address \<Rightarrow> acctView option) \<Rightarrow> bool" where
  "updates_at a g V V' \<longleftrightarrow>
     (\<exists>w. (V a = Some w \<or> V a = None \<and> blank w) \<and> V' = V(a \<mapsto> g w))"

lemma view_via_GetOrNew:
  assumes inv: "sdb_inv D s" and inj: "addrHash_inj D"
    and f: "\<And>s1 ob s2 ob'. obj_wf D a ob \<Longrightarrow> f s1 ob = (s2, ob') \<Longrightarrow>
      look D s2 = look D s1 \<and> s_snap s2 = s_snap s1 \<and> s_snapDestructs s2 = s_snapDestructs s1 \<and>
      so_deleted ob' = so_deleted ob \<and>
      objView D (s_snap s1) (s_snapDestructs s1) ob' = g (objView D (s_snap s1) (s_snapDestructs s1) ob)"
  shows "updates_at a g (view D s)
    (view D (case GetOrNewStateObject D s a of (s, ob) \<Rightarrow> (case f s ob of (s, ob) \<Rightarrow> putObject s a ob)))"
proof -
  obtain s1 ob where g: "GetOrNewStateObject D s a = (s1, ob)" by fastforce
  obtain s2 ob' where r: "f s1 ob = (s2, ob')" by fastforce
  have wf: "sdb_wf D s" using inv by (simp add: sdb_inv_def)
  note v = view_GetOrNew [OF wf inj g] and x = extends_GetOrNew [OF inv inj g]
  from f [OF x(3) r] have p: "view D (putObject s2 a ob') b =
    (if b = a then Some (g (objView D (s_snap s1) (s_snapDestructs s1) ob)) else view D s b)" for b
    using view_put [of D s2 s1 ob' a b] x(4) v(1) by simp
  then have "view D (putObject s2 a ob') = (view D s)(a \<mapsto> g (objView D (s_snap s1) (s_snapDestructs s1) ob))"
    by (simp add: fun_eq_iff)
  with v(3) show ?thesis unfolding updates_at_def g r by (simp add: r) blast
qed

section \<open>Setters\<close>

lemma look_log_entry [simp]: "look D (log_entry s e) = look D s"
  by (rule look_frame) simp_all

lemma objView_setters:
  "objView D sn sd (so_setBalance ob b) = (objView D sn sd ob)\<lparr>av_balance := b\<rparr>"
  "objView D sn sd (so_setNonce ob n) = (objView D sn sd ob)\<lparr>av_nonce := n\<rparr>"
  "objView D sn sd (so_setCode ob h (Some c)) = (objView D sn sd ob)\<lparr>av_code := c\<rparr>"
  "objView D sn sd (so_setState ob k v) = (objView D sn sd ob)\<lparr>av_storage := (av_storage (objView D sn sd ob))(k := v)\<rparr>"
  "objView D sn sd (ob\<lparr>so_suicided := q\<rparr>) = (objView D sn sd ob)\<lparr>av_suicided := q\<rparr>"
proof -
  have c: "codeOf D (so_setBalance ob b) = codeOf D ob" "codeOf D (so_setNonce ob n) = codeOf D ob"
    "codeOf D (so_setState ob k v) = codeOf D ob" "codeOf D (ob\<lparr>so_suicided := q\<rparr>) = codeOf D ob"
    by (rule codeOf_cong; simp add: so_setBalance_def so_setNonce_def so_setState_def)+
  have t: "objTrie D (so_setBalance ob b) = objTrie D ob" "objTrie D (so_setNonce ob n) = objTrie D ob"
    "objTrie D (so_setCode ob h x) = objTrie D ob" "objTrie D (ob\<lparr>so_suicided := q\<rparr>) = objTrie D ob" for x
    by (rule objTrie_cong; simp add: so_setBalance_def so_setNonce_def so_setCode_def)+
  have u: "current D sn sd (so_setBalance ob b) = current D sn sd ob"
    "current D sn sd (so_setNonce ob n) = current D sn sd ob"
    "current D sn sd (so_setCode ob h x) = current D sn sd ob"
    "current D sn sd (ob\<lparr>so_suicided := q\<rparr>) = current D sn sd ob" for x
    by (rule content_cong(2); (rule t | simp add: so_setBalance_def so_setNonce_def so_setCode_def))+
  show "objView D sn sd (so_setBalance ob b) = (objView D sn sd ob)\<lparr>av_balance := b\<rparr>"
    "objView D sn sd (so_setNonce ob n) = (objView D sn sd ob)\<lparr>av_nonce := n\<rparr>"
    "objView D sn sd (so_setState ob k v) = (objView D sn sd ob)\<lparr>av_storage := (av_storage (objView D sn sd ob))(k := v)\<rparr>"
    by (simp_all add: objView_def c u current_setState) 
      (simp_all add: so_setBalance_def so_setNonce_def so_setState_def so_Balance_def so_Nonce_def)
  show "objView D sn sd (ob\<lparr>so_suicided := q\<rparr>) = (objView D sn sd ob)\<lparr>av_suicided := q\<rparr>"
    by (simp add: objView_def c u) (simp add: so_Balance_def so_Nonce_def)
  have "codeOf D (so_setCode ob h (Some c)) = Some c" by (simp add: codeOf_eq so_setCode_def)
  then show "objView D sn sd (so_setCode ob h (Some c)) = (objView D sn sd ob)\<lparr>av_code := c\<rparr>"
    by (simp add: objView_def u) (simp add: so_setCode_def so_Balance_def so_Nonce_def)
qed

lemma so_touch_sel:
  "look D (so_touch s ob) = look D s" "s_snap (so_touch s ob) = s_snap s"
  "s_snapDestructs (so_touch s ob) = s_snapDestructs s"
proof -
  show "look D (so_touch s ob) = look D s" by (rule look_frame) (simp_all add: so_touch_def Let_def)
qed (simp_all add: so_touch_def Let_def)

lemma objView_balance_same: "(objView D sn sd ob)\<lparr>av_balance := so_Balance ob\<rparr> = objView D sn sd ob"
  by (simp add: objView_def)

lemma view_AddBalance:
  assumes "sdb_inv D s" "addrHash_inj D"
  shows "updates_at a (\<lambda>w. w\<lparr>av_balance := av_balance w + x\<rparr>) (view D s) (view D (AddBalance D s a x))"
  unfolding AddBalance_def
proof (rule view_via_GetOrNew [OF assms])
  fix s1 ob s2 ob' assume "so_AddBalance D s1 ob x = (s2, ob')"
  moreover have "av_balance (objView D sn sd ob) = so_Balance ob" for sn sd by (simp add: objView_def)
  ultimately show "look D s2 = look D s1 \<and> s_snap s2 = s_snap s1 \<and> s_snapDestructs s2 = s_snapDestructs s1 \<and>
      so_deleted ob' = so_deleted ob \<and>
      objView D (s_snap s1) (s_snapDestructs s1) ob' =
        (objView D (s_snap s1) (s_snapDestructs s1) ob)
          \<lparr>av_balance := av_balance (objView D (s_snap s1) (s_snapDestructs s1) ob) + x\<rparr>"
    by (auto simp: so_AddBalance_def so_SetBalance_def so_touch_sel objView_setters objView_balance_same
        so_setBalance_def [THEN arg_cong [where f = so_deleted]] split: if_splits)
qed

lemma view_SubBalance:
  fixes D :: "'t backend"
  assumes "sdb_inv D s" "addrHash_inj D"
  shows "updates_at a (\<lambda>w. w\<lparr>av_balance := av_balance w - x\<rparr>) (view D s) (view D (SubBalance D s a x))"
  unfolding SubBalance_def
proof (rule view_via_GetOrNew [OF assms])
  fix s1 s2 :: "'t StateDB" and ob ob'
  assume "so_SubBalance s1 ob x = (s2, ob')"
  moreover have "av_balance (objView D sn sd ob) = so_Balance ob" for sn sd by (simp add: objView_def)
  ultimately show "look D s2 = look D s1 \<and> s_snap s2 = s_snap s1 \<and> s_snapDestructs s2 = s_snapDestructs s1 \<and>
      so_deleted ob' = so_deleted ob \<and>
      objView D (s_snap s1) (s_snapDestructs s1) ob' =
        (objView D (s_snap s1) (s_snapDestructs s1) ob)
          \<lparr>av_balance := av_balance (objView D (s_snap s1) (s_snapDestructs s1) ob) - x\<rparr>"
    by (auto simp: so_SubBalance_def so_SetBalance_def objView_setters objView_balance_same
        so_setBalance_def [THEN arg_cong [where f = so_deleted]] split: if_splits)
qed

lemma view_SetBalance:
  assumes "sdb_inv D s" "addrHash_inj D"
  shows "updates_at a (\<lambda>w. w\<lparr>av_balance := x\<rparr>) (view D s) (view D (SetBalance D s a x))"
  unfolding SetBalance_def
  by (rule view_via_GetOrNew [OF assms])
    (auto simp: so_SetBalance_def objView_setters so_setBalance_def [THEN arg_cong [where f = so_deleted]])

lemma view_SetNonce:
  assumes "sdb_inv D s" "addrHash_inj D"
  shows "updates_at a (\<lambda>w. w\<lparr>av_nonce := n\<rparr>) (view D s) (view D (SetNonce D s a n))"
  unfolding SetNonce_def
  by (rule view_via_GetOrNew [OF assms])
    (auto simp: so_SetNonce_def objView_setters so_setNonce_def [THEN arg_cong [where f = so_deleted]])

lemma view_SetCode:
  assumes "sdb_inv D s" "addrHash_inj D"
  shows "updates_at a (\<lambda>w. w\<lparr>av_code := c\<rparr>) (view D s) (view D (SetCode D s a c))"
  unfolding SetCode_def
proof (rule view_via_GetOrNew [OF assms])
  fix s1 ob s2 ob' assume wo: "obj_wf D a ob" and r: "so_SetCode D s1 ob (keccak256 D c) (Some c) = (s2, ob')"
  obtain ob1 where c: "fst (so_Code D ob) = ob1" "obj_eq D (s_snap s1) (s_snapDestructs s1) ob1 ob"
    using so_Code_view(1) [of ob D] wo by (auto simp: obj_wf_def)
  have "ob' = so_setCode ob1 (keccak256 D c) (Some c)" "\<exists>e. s2 = log_entry s1 e"
    using r c(1) by (auto simp: so_SetCode_def split: prod.splits)
  then show "look D s2 = look D s1 \<and> s_snap s2 = s_snap s1 \<and> s_snapDestructs s2 = s_snapDestructs s1 \<and>
      so_deleted ob' = so_deleted ob \<and>
      objView D (s_snap s1) (s_snapDestructs s1) ob' = (objView D (s_snap s1) (s_snapDestructs s1) ob)\<lparr>av_code := c\<rparr>"
    using c(2) objView_eq [OF c(2)] by (auto simp: objView_setters obj_eq_def so_setCode_def [THEN arg_cong [where f = so_deleted]])
qed

lemma view_SetState:
  assumes "sdb_inv D s" "addrHash_inj D"
  shows "updates_at a (\<lambda>w. w\<lparr>av_storage := (av_storage w)(k := v)\<rparr>) (view D s) (view D (SetState D s a k v))"
  unfolding SetState_def
proof (rule view_via_GetOrNew [OF assms])
  fix s1 ob s2 ob' assume wo: "obj_wf D a ob" and r: "so_SetState D s1 ob k v = (s2, ob')"
  let ?V = "objView D (s_snap s1) (s_snapDestructs s1)"
  have f: "so_fakeStorage ob = None" using wo by (simp add: obj_wf_def)
  obtain ob1 prev where g: "so_GetState D (s_snap s1) (s_snapDestructs s1) ob k = (ob1, prev)" by fastforce
  from so_GetState_view [OF f, of D "s_snap s1" "s_snapDestructs s1" k] g
  have c: "obj_eq D (s_snap s1) (s_snapDestructs s1) ob1 ob"
    and p: "prev = av_storage (?V ob) k" by (auto simp: objView_def)
  have d: "so_deleted (so_setState ob1 k v) = so_deleted ob1" by (simp add: so_setState_def)
  have same: "(?V ob)\<lparr>av_storage := (av_storage (?V ob))(k := v)\<rparr> = ?V ob" if "prev = v"
    using that p by (simp add: fun_upd_idem)
  show "look D s2 = look D s1 \<and> s_snap s2 = s_snap s1 \<and> s_snapDestructs s2 = s_snapDestructs s1 \<and>
      so_deleted ob' = so_deleted ob \<and> ?V ob' = (?V ob)\<lparr>av_storage := (av_storage (?V ob))(k := v)\<rparr>"
    using r f g c same objView_eq [OF c] d
    by (auto simp: so_SetState_def objView_setters obj_eq_def split: if_splits)
qed

lemma updates_getters:
  assumes wf: "sdb_wf D s" "sdb_wf D s'" and u: "updates_at a g (view D s) (view D s')"
  shows "(\<And>w. av_balance (g w) = f (av_balance w)) \<Longrightarrow>
      snd (GetBalance D s' b) = (if b = a then f (snd (GetBalance D s b)) else snd (GetBalance D s b))"
    "(\<And>w. av_nonce (g w) = fn (av_nonce w)) \<Longrightarrow>
      snd (GetNonce D s' b) = (if b = a then fn (snd (GetNonce D s b)) else snd (GetNonce D s b))"
    "(\<And>w. av_code (g w) = fc (av_code w)) \<Longrightarrow>
      snd (GetCode D s' b) = (if b = a then fc (snd (GetCode D s b)) else snd (GetCode D s b))"
    "(\<And>w. av_storage (g w) = fs (av_storage w)) \<Longrightarrow> b = a \<longrightarrow> snd (Exist D s a) \<Longrightarrow>
      snd (GetState D s' b k) = (if b = a then fs (\<lambda>k. snd (GetState D s b k)) k else snd (GetState D s b k))"
  using u unfolding updates_at_def
  by (auto simp: getters_view [OF wf(1)] getters_view [OF wf(2)] blank_def split: option.split)

lemma inv_wf: "sdb_inv D s \<Longrightarrow> sdb_wf D s"
  by (simp add: sdb_inv_def)

lemma setters_wf:
  assumes "sdb_inv D s" "addrHash_inj D"
  shows "sdb_wf D (AddBalance D s a x)" "sdb_wf D (SubBalance D s a x)" "sdb_wf D (SetNonce D s a n)"
    "sdb_wf D (SetCode D s a c)" "sdb_wf D (SetState D s a k v)"
  by (rule inv_wf, rule extends_inv, rule extends_ops [OF assms])+

lemma setter_getters:
  assumes "sdb_inv D s" "addrHash_inj D"
  shows "snd (GetBalance D (AddBalance D s a x) b) = snd (GetBalance D s b) + (if b = a then x else 0)"
    "snd (GetNonce D (AddBalance D s a x) b) = snd (GetNonce D s b)"
    "snd (GetCode D (AddBalance D s a x) b) = snd (GetCode D s b)"
    "snd (GetBalance D (SubBalance D s a x) b) = snd (GetBalance D s b) - (if b = a then x else 0)"
    "snd (GetNonce D (SubBalance D s a x) b) = snd (GetNonce D s b)"
    "snd (GetCode D (SubBalance D s a x) b) = snd (GetCode D s b)"
    "snd (GetNonce D (SetNonce D s a n) b) = (if b = a then n else snd (GetNonce D s b))"
    "snd (GetBalance D (SetNonce D s a n) b) = snd (GetBalance D s b)"
    "snd (GetCode D (SetCode D s a c) b) = (if b = a then c else snd (GetCode D s b))"
    "snd (GetBalance D (SetCode D s a c) b) = snd (GetBalance D s b)"
    "snd (Exist D s a) \<Longrightarrow>
       snd (GetState D (SetState D s a k v) b k') = (if b = a \<and> k' = k then v else snd (GetState D s b k'))"
    "snd (GetNonce D (SetCode D s a c) b) = snd (GetNonce D s b)"
    "snd (GetCode D (SetNonce D s a n) b) = snd (GetCode D s b)"
  using updates_getters(1) [OF inv_wf [OF assms(1)] setters_wf(1) [OF assms] view_AddBalance [OF assms], where f = "\<lambda>y. y + x" and b = b]
    updates_getters(2) [OF inv_wf [OF assms(1)] setters_wf(1) [OF assms] view_AddBalance [OF assms], where fn = "\<lambda>y. y" and b = b]
    updates_getters(3) [OF inv_wf [OF assms(1)] setters_wf(1) [OF assms] view_AddBalance [OF assms], where fc = "\<lambda>y. y" and b = b]
    updates_getters(1) [OF inv_wf [OF assms(1)] setters_wf(2) [OF assms] view_SubBalance [OF assms], where f = "\<lambda>y. y - x" and b = b]
    updates_getters(2) [OF inv_wf [OF assms(1)] setters_wf(2) [OF assms] view_SubBalance [OF assms], where fn = "\<lambda>y. y" and b = b]
    updates_getters(3) [OF inv_wf [OF assms(1)] setters_wf(2) [OF assms] view_SubBalance [OF assms], where fc = "\<lambda>y. y" and b = b]
    updates_getters(2) [OF inv_wf [OF assms(1)] setters_wf(3) [OF assms] view_SetNonce [OF assms], where fn = "\<lambda>y. n" and b = b]
    updates_getters(1) [OF inv_wf [OF assms(1)] setters_wf(3) [OF assms] view_SetNonce [OF assms], where f = "\<lambda>y. y" and b = b]
    updates_getters(3) [OF inv_wf [OF assms(1)] setters_wf(3) [OF assms] view_SetNonce [OF assms], where fc = "\<lambda>y. y" and b = b]
    updates_getters(3) [OF inv_wf [OF assms(1)] setters_wf(4) [OF assms] view_SetCode [OF assms], where fc = "\<lambda>y. c" and b = b]
    updates_getters(1) [OF inv_wf [OF assms(1)] setters_wf(4) [OF assms] view_SetCode [OF assms], where f = "\<lambda>y. y" and b = b]
    updates_getters(2) [OF inv_wf [OF assms(1)] setters_wf(4) [OF assms] view_SetCode [OF assms], where fn = "\<lambda>y. y" and b = b]
    updates_getters(4) [OF inv_wf [OF assms(1)] setters_wf(5) [OF assms] view_SetState [OF assms], where fs = "\<lambda>h. h(k := v)" and b = b and k = k']
  by simp_all

text \<open>What the queries of an account answer; storage is read slot by slot with \<open>GetState\<close>.\<close>

record answers =
  an_exist :: bool
  an_balance :: int
  an_nonce :: u64
  an_code :: bytes
  an_suicided :: bool

definition queries :: "'t backend \<Rightarrow> 't StateDB \<Rightarrow> address \<Rightarrow> answers" where
  "queries D s a =
     \<lparr>an_exist = snd (Exist D s a), an_balance = snd (GetBalance D s a), an_nonce = snd (GetNonce D s a),
      an_code = snd (GetCode D s a), an_suicided = snd (HasSuicided D s a)\<rparr>"

definition viewAnswers :: "acctView option \<Rightarrow> answers" where
  "viewAnswers v =
     (case v of
        None \<Rightarrow> \<lparr>an_exist = False, an_balance = 0, an_nonce = 0, an_code = [], an_suicided = False\<rparr>
      | Some w \<Rightarrow> \<lparr>an_exist = True, an_balance = av_balance w, an_nonce = av_nonce w, an_code = av_code w,
                   an_suicided = av_suicided w\<rparr>)"

lemma queries_view: "sdb_wf D s \<Longrightarrow> queries D s a = viewAnswers (view D s a)"
  by (simp add: queries_def viewAnswers_def getters_view split: option.split)

lemma updates_queries:
  assumes wf: "sdb_wf D s" "sdb_wf D s'" and u: "updates_at a g (view D s) (view D s')"
    and g: "\<And>w. viewAnswers (Some (g w)) = f (viewAnswers (Some w))"
    and f: "\<And>q. f (q\<lparr>an_exist := True\<rparr>) = (f q)\<lparr>an_exist := True\<rparr>"
  shows "queries D s' = (queries D s)(a := (f (queries D s a))\<lparr>an_exist := True\<rparr>)"
proof
  fix b
  obtain w where w: "view D s a = Some w \<or> view D s a = None \<and> blank w" "view D s' = (view D s)(a \<mapsto> g w)"
    using u unfolding updates_at_def by blast
  then have "viewAnswers (Some w) = (queries D s a)\<lparr>an_exist := True\<rparr>"
    by (auto simp: queries_view [OF wf(1)] viewAnswers_def blank_def)
  then show "queries D s' b = ((queries D s)(a := (f (queries D s a))\<lparr>an_exist := True\<rparr>)) b"
    using w(2) g [of w] f [of "queries D s a"] by (simp add: queries_view [OF wf(2)] queries_view [OF wf(1)])
qed

text \<open>The slots of every account that existed before.\<close>

definition keepsStorage :: "'t backend \<Rightarrow> 't StateDB \<Rightarrow> 't StateDB \<Rightarrow> bool" where
  "keepsStorage D s s' \<longleftrightarrow>
     (\<forall>b k. snd (Exist D s b) \<longrightarrow> snd (GetState D s' b k) = snd (GetState D s b k))"

lemma updates_storage:
  assumes wf: "sdb_wf D s" "sdb_wf D s'" and u: "updates_at a g (view D s) (view D s')"
    and g: "\<And>w. av_storage (g w) = av_storage w"
  shows "keepsStorage D s s'"
  using u g unfolding updates_at_def keepsStorage_def
  by (auto simp: getters_view [OF wf(1)] getters_view [OF wf(2)])

lemma SetState_storage:
  assumes "sdb_inv D s" "addrHash_inj D"
  shows "snd (GetState D (SetState D s a k v) a k) = v"
    "snd (Exist D s b) \<Longrightarrow> (b, k') \<noteq> (a, k) \<Longrightarrow> snd (GetState D (SetState D s a k v) b k') = snd (GetState D s b k')"
    "b \<noteq> a \<Longrightarrow> snd (GetState D (SetState D s a k v) b k') = snd (GetState D s b k')"
  using view_SetState [OF assms, of a k v] unfolding updates_at_def
  by (auto simp: getters_view [OF inv_wf [OF assms(1)]] getters_view [OF setters_wf(5) [OF assms]])

text \<open>C25. Each setter changes exactly what it is named after.  \<open>AddBalance\<close>, \<open>SubBalance\<close>, \<open>SetBalance\<close>,
  \<open>SetNonce\<close> and \<open>SetCode\<close> change the balance, the nonce or the code of one account; its other fields and
  its self-destruct mark stay, and so do all fields of every other account and the storage of every account that existed.
  \<open>SetState\<close> sets one slot: \<open>GetState\<close> returns the value there, the other slots of
  every account that existed are unchanged, and no balance, nonce, code or mark changes.  Each of them creates
  the account if it is missing, and no other.\<close>

theorem account_setters_exact:
  assumes "sdb_inv D s" "addrHash_inj D"
  shows "queries D (AddBalance D s a x) =
      (queries D s)(a := (queries D s a)\<lparr>an_balance := snd (GetBalance D s a) + x, an_exist := True\<rparr>) \<and>
    queries D (SubBalance D s a x) =
      (queries D s)(a := (queries D s a)\<lparr>an_balance := snd (GetBalance D s a) - x, an_exist := True\<rparr>) \<and>
    queries D (SetBalance D s a x) = (queries D s)(a := (queries D s a)\<lparr>an_balance := x, an_exist := True\<rparr>) \<and>
    queries D (SetNonce D s a n) = (queries D s)(a := (queries D s a)\<lparr>an_nonce := n, an_exist := True\<rparr>) \<and>
    queries D (SetCode D s a c) = (queries D s)(a := (queries D s a)\<lparr>an_code := c, an_exist := True\<rparr>) \<and>
    queries D (SetState D s a k v) = (queries D s)(a := (queries D s a)\<lparr>an_exist := True\<rparr>) \<and>
    keepsStorage D s (AddBalance D s a x) \<and> keepsStorage D s (SubBalance D s a x) \<and>
    keepsStorage D s (SetBalance D s a x) \<and> keepsStorage D s (SetNonce D s a n) \<and> keepsStorage D s (SetCode D s a c) \<and>
    snd (GetState D (SetState D s a k v) a k) = v \<and>
    (\<forall>b k'. snd (Exist D s b) \<and> (b, k') \<noteq> (a, k) \<longrightarrow>
       snd (GetState D (SetState D s a k v) b k') = snd (GetState D s b k'))"
proof -
  note w = inv_wf [OF assms(1)] and ws = setters_wf [OF assms] and wb = inv_wf [OF extends_inv [OF extends_ops(3) [OF assms]]]
  have b: "an_balance (queries D s a) = snd (GetBalance D s a)" by (simp add: queries_def)
  have "queries D (AddBalance D s a x) =
      (queries D s)(a := (queries D s a)\<lparr>an_balance := snd (GetBalance D s a) + x, an_exist := True\<rparr>)"
    using updates_queries [OF w ws(1) view_AddBalance [OF assms], where f = "\<lambda>q. q\<lparr>an_balance := an_balance q + x\<rparr>"]
    by (simp add: viewAnswers_def b)
  moreover have "queries D (SubBalance D s a x) =
      (queries D s)(a := (queries D s a)\<lparr>an_balance := snd (GetBalance D s a) - x, an_exist := True\<rparr>)"
    using updates_queries [OF w ws(2) view_SubBalance [OF assms], where f = "\<lambda>q. q\<lparr>an_balance := an_balance q - x\<rparr>"]
    by (simp add: viewAnswers_def b)
  moreover have "queries D (SetBalance D s a x) = (queries D s)(a := (queries D s a)\<lparr>an_balance := x, an_exist := True\<rparr>)"
    using updates_queries [OF w wb view_SetBalance [OF assms], where f = "\<lambda>q. q\<lparr>an_balance := x\<rparr>"]
    by (simp add: viewAnswers_def)
  moreover have "queries D (SetNonce D s a n) = (queries D s)(a := (queries D s a)\<lparr>an_nonce := n, an_exist := True\<rparr>)"
    using updates_queries [OF w ws(3) view_SetNonce [OF assms], where f = "\<lambda>q. q\<lparr>an_nonce := n\<rparr>"]
    by (simp add: viewAnswers_def)
  moreover have "queries D (SetCode D s a c) = (queries D s)(a := (queries D s a)\<lparr>an_code := c, an_exist := True\<rparr>)"
    using updates_queries [OF w ws(4) view_SetCode [OF assms], where f = "\<lambda>q. q\<lparr>an_code := c\<rparr>"]
    by (simp add: viewAnswers_def)
  moreover have "queries D (SetState D s a k v) = (queries D s)(a := (queries D s a)\<lparr>an_exist := True\<rparr>)"
    using updates_queries [OF w ws(5) view_SetState [OF assms], where f = "\<lambda>q. q"] by (simp add: viewAnswers_def)
  moreover have "keepsStorage D s (AddBalance D s a x)" "keepsStorage D s (SubBalance D s a x)"
    "keepsStorage D s (SetBalance D s a x)" "keepsStorage D s (SetNonce D s a n)" "keepsStorage D s (SetCode D s a c)"
    using updates_storage [OF w ws(1) view_AddBalance [OF assms]] updates_storage [OF w ws(2) view_SubBalance [OF assms]]
      updates_storage [OF w wb view_SetBalance [OF assms]] updates_storage [OF w ws(3) view_SetNonce [OF assms]]
      updates_storage [OF w ws(4) view_SetCode [OF assms]] by simp_all
  ultimately show ?thesis using SetState_storage [OF assms] by blast
qed

lemma GetBalance_emptyState: "snd (GetBalance memoryBackend emptyState a) = 0"
  by (simp add: GetBalance_def getStateObject_def getDeletedStateObject_def emptyState_def memoryBackend_def StateDB_New_def)

theorem account_setters_exact_witness:
  "queries memoryBackend (AddBalance memoryBackend emptyState 1 5) 1 =
     (queries memoryBackend emptyState 1)\<lparr>an_balance := 5, an_exist := True\<rparr> \<and>
   snd (GetState memoryBackend (SetState memoryBackend emptyState 1 2 3) 1 2) = 3"
  using account_setters_exact [OF sdb_inv_emptyState addrHash_inj_memory, of 1 5 0 "[]" 2 3]
  by (simp add: GetBalance_emptyState)

section \<open>Operations that leave the accounts alone\<close>

definition world_eq :: "'t backend \<Rightarrow> 't StateDB \<Rightarrow> 't StateDB \<Rightarrow> bool" where
  "world_eq D s s' \<longleftrightarrow>
     logsOf s' = logsOf s \<and>
     (\<forall>a. case view D s a of
            Some w \<Rightarrow> view D s' a = Some w
          | None \<Rightarrow> (case view D s' a of None \<Rightarrow> True | Some w \<Rightarrow> blank w))"

lemma world_eqI: "logsOf s' = logsOf s \<Longrightarrow> view D s' = view D s \<Longrightarrow> world_eq D s s'"
  by (simp add: world_eq_def split: option.split)

lemma world_refl: "world_eq D s s"
  by (rule world_eqI) simp_all

lemma world_trans:
  assumes "world_eq D s t" "world_eq D t u"
  shows "world_eq D s u"
proof -
  have "case view D s a of Some w \<Rightarrow> view D u a = Some w
      | None \<Rightarrow> (case view D u a of None \<Rightarrow> True | Some w \<Rightarrow> blank w)" for a
  proof -
    have "case view D s a of Some w \<Rightarrow> view D t a = Some w
      | None \<Rightarrow> (case view D t a of None \<Rightarrow> True | Some w \<Rightarrow> blank w)"
      "case view D t a of Some w \<Rightarrow> view D u a = Some w
      | None \<Rightarrow> (case view D u a of None \<Rightarrow> True | Some w \<Rightarrow> blank w)"
      using assms unfolding world_eq_def by blast+
    then show ?thesis by (auto split: option.splits)
  qed
  then show ?thesis using assms by (simp add: world_eq_def)
qed

lemma world_sdb_eq: "sdb_eq D s' s \<Longrightarrow> world_eq D s s'"
  by (rule world_eqI) (rule sdb_eqD(10), assumption, rule view_sdb_eq)

lemma world_fields:
  assumes "s_stateObjects t = s_stateObjects s" "s_trie t = s_trie s" "s_snap t = s_snap s"
    "s_snapDestructs t = s_snapDestructs s" "logsOf t = logsOf s"
  shows "world_eq D s t"
  by (rule world_eqI) (use assms look_frame [of t s D] in \<open>simp_all add: view_def account_def fun_eq_iff\<close>)

lemma getters_sdb_eq:
  assumes wf: "sdb_wf D s"
  shows "sdb_eq D (fst (Exist D s a)) s" "sdb_eq D (fst (Empty D s a)) s"
    "sdb_eq D (fst (GetBalance D s a)) s" "sdb_eq D (fst (GetNonce D s a)) s"
    "sdb_eq D (fst (GetCodeHash D s a)) s" "sdb_eq D (fst (HasSuicided D s a)) s"
    "sdb_eq D (fst (GetCode D s a)) s" "sdb_eq D (fst (GetCodeSize D s a)) s"
    "sdb_eq D (fst (GetState D s a k)) s" "sdb_eq D (fst (GetCommittedState D s a k)) s"
proof -
  obtain s1 q where g: "getStateObject D s a = (s1, q)" by fastforce
  note v = getStateObject_view [OF wf g]
  have put: "sdb_eq D (putObject s1 a ob') s" if "q = Some ob"
    "so_fakeStorage ob = None \<Longrightarrow> obj_eq D (s_snap s1) (s_snapDestructs s1) ob' ob" for ob ob'
  proof -
    have "look D s1 a = Some ob" using v(7) that(1) by (simp add: look_def)
    from sdb_eq_putObject [OF v(3) this] that(2) look_fake [OF v(3) this]
    show ?thesis using v(2) sdb_eq_trans by blast
  qed
  show "sdb_eq D (fst (Exist D s a)) s" "sdb_eq D (fst (Empty D s a)) s"
    "sdb_eq D (fst (GetBalance D s a)) s" "sdb_eq D (fst (GetNonce D s a)) s"
    "sdb_eq D (fst (GetCodeHash D s a)) s" "sdb_eq D (fst (HasSuicided D s a)) s"
    unfolding Exist_def Empty_def GetBalance_def GetNonce_def GetCodeHash_def HasSuicided_def g
    using v(2) by (simp_all split: option.splits)
  show "sdb_eq D (fst (GetCode D s a)) s" "sdb_eq D (fst (GetCodeSize D s a)) s"
    "sdb_eq D (fst (GetState D s a k)) s" "sdb_eq D (fst (GetCommittedState D s a k)) s"
    unfolding GetCode_def GetCodeSize_def GetState_def GetCommittedState_def g
    using v(2) put [OF _ so_Code_view(1)] put [OF _ so_CodeSize_view] put [OF _ so_GetState_view(1)]
      put [OF _ so_GetCommittedState_view(1)]
    by (cases q; simp add: case_prod_beta)+
qed

lemma logs_createObject:
  assumes wf: "sdb_wf D s" and c: "createObject D s a = (s', ob, prev)"
  shows "logsOf s' = logsOf s"
proof -
  obtain s1 q where g: "getDeletedStateObject D s a = (s1, q)" by fastforce
  have d: "logsOf (t\<lparr>s_snapDestructs := x\<rparr>) = logsOf t" for t :: "'a StateDB" and x
    by (simp add: logsOf_def fun_eq_iff)
  have "logsOf s' = logsOf s1"
    using c g by (auto simp: createObject_def setStateObject_put Let_def d split: option.splits if_splits)
  then show ?thesis using sdb_eqD(10) [OF getDeletedStateObject_view(2) [OF wf g]] by simp
qed

lemma logs_GetOrNew:
  assumes wf: "sdb_wf D s" and g: "GetOrNewStateObject D s a = (s', ob)"
  shows "logsOf s' = logsOf s"
proof -
  obtain s1 q where g1: "getStateObject D s a = (s1, q)" by fastforce
  note v = getStateObject_view [OF wf g1]
  have "logsOf s' = logsOf s1"
    using g g1 logs_createObject [OF v(3)]
    by (auto simp: GetOrNewStateObject_def split: option.splits prod.splits)
  then show ?thesis using sdb_eqD(10) [OF v(2)] by simp
qed

lemma logs_so_touch: "logsOf (so_touch s ob) = logsOf s"
  by (simp add: so_touch_def Let_def)

lemma world_updates:
  assumes "logsOf s' = logsOf s" "updates_at a g (view D s) (view D s')" "\<And>w. g w = w"
  shows "world_eq D s s'"
proof -
  obtain w where "view D s a = Some w \<or> view D s a = None \<and> blank w" "view D s' = (view D s)(a \<mapsto> w)"
    using assms(2,3) by (auto simp: updates_at_def)
  then show ?thesis using assms(1) by (auto simp: world_eq_def split: option.split)
qed

text \<open>Adding or subtracting nothing may create a blank account, and so may \<open>CreateAccount\<close> where there is none.\<close>

lemma world_zero:
  assumes inv: "sdb_inv D s" and inj: "addrHash_inj D"
  shows "world_eq D s (AddBalance D s a 0)" "world_eq D s (SubBalance D s a 0)"
proof -
  have wf: "sdb_wf D s" using inv by (simp add: sdb_inv_def)
  obtain s1 ob where g: "GetOrNewStateObject D s a = (s1, ob)" by fastforce
  note l = logs_GetOrNew [OF wf g]
  have la: "logsOf (AddBalance D s a 0) = logsOf s" "logsOf (SubBalance D s a 0) = logsOf s"
    by (simp_all add: AddBalance_def SubBalance_def g so_AddBalance_def so_SubBalance_def logs_so_touch l)
  show "world_eq D s (AddBalance D s a 0)"
    by (rule world_updates [OF la(1) view_AddBalance [OF inv inj]]) simp
  show "world_eq D s (SubBalance D s a 0)"
    by (rule world_updates [OF la(2) view_SubBalance [OF inv inj]]) simp
qed

lemma world_CreateAccount:
  assumes inv: "sdb_inv D s" and inj: "addrHash_inj D" and none: "view D s a = None"
  shows "world_eq D s (CreateAccount D s a)"
proof -
  have wf: "sdb_wf D s" using inv by (simp add: sdb_inv_def)
  obtain s1 ob prev where c: "createObject D s a = (s1, ob, prev)" by (cases "createObject D s a") auto
  obtain s0 q where g: "getDeletedStateObject D s a = (s0, q)" by fastforce
  note r = createObject_result [OF c]
  have "prev = None"
    using c g none getDeletedStateObject_view(1) [OF wf g]
    by (auto simp: createObject_def view_def account_def Let_def split: option.splits if_splits)
  then have e: "CreateAccount D s a = s1" using c by (simp add: CreateAccount_def)
  have "view D s1 a = Some (objView D (s_snap s1) (s_snapDestructs s1) ob)"
    using r(1,2) by (simp add: view_def account_def look_def)
  moreover have "blank (objView D (s_snap s1) (s_snapDestructs s1) ob)" unfolding r(1) by (rule blank_newObject)
  ultimately have "case view D s b of Some w \<Rightarrow> view D s1 b = Some w
      | None \<Rightarrow> (case view D s1 b of None \<Rightarrow> True | Some w \<Rightarrow> blank w)" for b
    using createObject_others [OF wf inj c, of b] none by (cases "b = a") (simp_all split: option.split)
  then show ?thesis using logs_createObject [OF wf c] unfolding world_eq_def e by blast
qed

lemma world_access:
  "world_eq D s (AddAddressToAccessList s a)" "world_eq D s (AddPreimage s h p)" "world_eq D s (fst (Snapshot s))"
  "AddSlotToAccessList s a k = Ok s' \<Longrightarrow> world_eq D s s'"
  "world_eq D s (AddRefund s x)" "SubRefund s x = Ok s' \<Longrightarrow> world_eq D s s'"
proof -
  have v: "logsOf (s\<lparr>s_nextRevisionId := n, s_validRevisions := r\<rparr>) = logsOf s" for n r
    by (simp add: logsOf_def fun_eq_iff)
  show "world_eq D s (AddAddressToAccessList s a)"
    by (rule world_fields) (simp_all add: AddAddressToAccessList_def Let_def split: prod.split)
  show "world_eq D s (AddPreimage s h p)"
    by (rule world_fields) (simp_all add: AddPreimage_def split: option.split)
  show "world_eq D s (fst (Snapshot s))"
    by (rule world_fields) (simp_all add: Snapshot_def Let_def v)
  show "world_eq D s (AddRefund s x)" by (rule world_fields) (simp_all add: AddRefund_def)
  show "world_eq D s s'" if "SubRefund s x = Ok s'"
    by (rule world_fields) (use that in \<open>auto simp: SubRefund_def split: if_splits\<close>)
  show "world_eq D s s'" if "AddSlotToAccessList s a k = Ok s'"
    by (rule world_fields) (use that in \<open>auto simp: AddSlotToAccessList_def Let_def outcome_simps split: prod.splits if_splits\<close>)
qed

section \<open>Balances and the supply\<close>

text \<open>Balances as the getter reports them, and their sum over the finitely many addresses.\<close>

definition balance :: "'t backend \<Rightarrow> 't StateDB \<Rightarrow> address \<Rightarrow> int" where
  "balance D s a = (case view D s a of None \<Rightarrow> 0 | Some w \<Rightarrow> av_balance w)"

definition totalSupply :: "'t backend \<Rightarrow> 't StateDB \<Rightarrow> int" where
  "totalSupply D s = (\<Sum>a \<in> UNIV. balance D s a)"

definition solvent :: "'t backend \<Rightarrow> 't StateDB \<Rightarrow> bool" where
  "solvent D s \<longleftrightarrow> (\<forall>a. 0 \<le> balance D s a)"

text \<open>No balance becomes negative, and no money comes into being.\<close>

definition spends :: "'t backend \<Rightarrow> 't StateDB \<Rightarrow> 't StateDB \<Rightarrow> bool" where
  "spends D s s' \<longleftrightarrow> (solvent D s \<longrightarrow> solvent D s' \<and> totalSupply D s' \<le> totalSupply D s)"

lemma GetBalance_balance: "sdb_wf D s \<Longrightarrow> snd (GetBalance D s a) = balance D s a"
  by (simp add: getters_view balance_def)

lemma balance_sdb_eq: "sdb_eq D s t \<Longrightarrow> balance D s = balance D t"
  by (rule ext) (simp add: balance_def view_sdb_eq [of D s t])

lemma balance_world: "world_eq D s t \<Longrightarrow> balance D t = balance D s"
proof
  fix a
  assume "world_eq D s t"
  then have "case view D s a of Some w \<Rightarrow> view D t a = Some w
      | None \<Rightarrow> (case view D t a of None \<Rightarrow> True | Some w \<Rightarrow> blank w)" by (simp add: world_eq_def)
  then show "balance D t a = balance D s a" by (auto simp: balance_def blank_def split: option.splits)
qed

lemma balance_updates:
  assumes "updates_at a g (view D s) (view D s')" "\<And>w. av_balance (g w) = f (av_balance w)"
  shows "balance D s' = (balance D s)(a := f (balance D s a))"
  using assms by (auto simp: updates_at_def balance_def blank_def fun_eq_iff)

lemma balance_setters:
  assumes "sdb_inv D s" "addrHash_inj D"
  shows "balance D (AddBalance D s a x) = (balance D s)(a := balance D s a + x)"
    "balance D (SubBalance D s a x) = (balance D s)(a := balance D s a - x)"
    "balance D (SetNonce D s a n) = balance D s" "balance D (SetCode D s a c) = balance D s"
    "balance D (SetState D s a k v) = balance D s"
proof -
  show "balance D (AddBalance D s a x) = (balance D s)(a := balance D s a + x)"
    by (rule balance_updates [OF view_AddBalance [OF assms]]) simp
  show "balance D (SubBalance D s a x) = (balance D s)(a := balance D s a - x)"
    by (rule balance_updates [OF view_SubBalance [OF assms]]) simp
  show "balance D (SetNonce D s a n) = balance D s" "balance D (SetCode D s a c) = balance D s"
    "balance D (SetState D s a k v) = balance D s"
    using balance_updates [OF view_SetNonce [OF assms], where f = "\<lambda>x. x"] balance_updates [OF view_SetCode [OF assms], where f = "\<lambda>x. x"]
      balance_updates [OF view_SetState [OF assms], where f = "\<lambda>x. x"] by simp_all
qed

lemma balance_CreateAccount:
  assumes inv: "sdb_inv D s" and inj: "addrHash_inj D"
  shows "balance D (CreateAccount D s a) = balance D s"
proof (cases "view D s a")
  case None
  then show ?thesis by (rule balance_world [OF world_CreateAccount [OF inv inj]])
next
  case (Some w)
  have wf: "sdb_wf D s" by (rule inv_wf [OF inv])
  obtain s1 ob prev where c: "createObject D s a = (s1, ob, prev)" by (cases "createObject D s a") auto
  obtain s0 q where g: "getDeletedStateObject D s a = (s0, q)" by fastforce
  note r = createObject_result [OF c]
  obtain p where p: "prev = Some p" "av_balance w = so_Balance p"
    using c g Some getDeletedStateObject_view(1) [OF wf g]
    by (auto simp: createObject_def view_def account_def objView_def Let_def split: option.splits if_splits)
  let ?o = "so_setBalance ob (so_Balance p)"
  have d: "\<not> so_deleted ?o" unfolding r(1) by (simp add: so_deleted_updates)
  have e: "CreateAccount D s a = putObject s1 a ?o" using c p by (simp add: CreateAccount_def)
  have "balance D (CreateAccount D s a) b = balance D s b" for b
    using createObject_others [OF wf inj c, of b] Some p(2) unfolding e balance_def view_put [OF refl refl refl d]
    by (auto simp: objView_def so_setBalance_def so_Balance_def)
  then show ?thesis by blast
qed

lemma balance_Suicide:
  assumes inv: "sdb_inv D s"
  shows "balance D (fst (Suicide D s a)) = (balance D s)(a := 0)"
proof -
  have wf: "sdb_wf D s" by (rule inv_wf [OF inv])
  obtain s1 q where g: "getStateObject D s a = (s1, q)" by fastforce
  note v = getStateObject_view [OF wf g]
  show ?thesis
  proof (cases q)
    case None
    then have "balance D s a = 0" using v(1) by (simp add: balance_def view_def)
    then show ?thesis using g None balance_sdb_eq [OF v(2)] by (simp add: Suicide_def fun_upd_idem)
  next
    case (Some ob)
    let ?e = "SuicideChange a (so_suicided ob) (so_Balance ob)"
    let ?o = "so_setBalance (so_markSuicided ob) 0"
    have d: "\<not> so_deleted ?o"
      using v(1) Some by (auto simp: account_def so_markSuicided_def so_deleted_updates split: option.splits if_splits)
    have f: "fst (Suicide D s a) = putObject (log_entry s1 ?e) a ?o" using g Some by (simp add: Suicide_def)
    have "balance D (fst (Suicide D s a)) b = ((balance D s1)(a := 0)) b" for b
      unfolding f balance_def view_put [OF look_log_entry log_entry_sel(2) log_entry_sel(3) d]
      by (simp add: objView_def so_setBalance_def so_Balance_def)
    then show ?thesis using balance_sdb_eq [OF v(2)] by (simp add: fun_eq_iff)
  qed
qed

lemma balance_AddLog: "balance D (AddLog s lg) = balance D s"
proof -
  have "look D (AddLog s lg) = look D s"
    by (rule look_frame) (simp_all add: AddLog_def Let_def)
  moreover have "s_snap (AddLog s lg) = s_snap s" "s_snapDestructs (AddLog s lg) = s_snapDestructs s"
    by (simp_all add: AddLog_def Let_def)
  ultimately show ?thesis by (simp add: balance_def view_def account_def fun_eq_iff)
qed

lemma spends_same: "balance D s' = balance D s \<Longrightarrow> spends D s s'"
  by (simp add: spends_def solvent_def totalSupply_def)

lemma spends_trans: "spends D s t \<Longrightarrow> spends D t u \<Longrightarrow> spends D s u"
  by (auto simp: spends_def)

lemma sum_upd: "(\<Sum>a \<in> UNIV. (f(c := x)) a) = (\<Sum>a \<in> UNIV. f a) + (x - f c)" for f :: "'a :: finite \<Rightarrow> int"
proof -
  have "(\<Sum>a \<in> UNIV. (f(c := x)) a) = (\<Sum>a \<in> UNIV. f a + (if a = c then x - f c else 0))"
    by (rule sum.cong) simp_all
  then show ?thesis by (simp add: sum.distrib)
qed

text \<open>A covered transfer, and handing a balance over before destroying the account.\<close>

lemma spends_transfer:
  assumes "sdb_inv D s" "addrHash_inj D" "0 \<le> x" "x \<le> balance D s a"
  shows "spends D s (AddBalance D (SubBalance D s a x) b x)"
proof -
  have i: "sdb_inv D (SubBalance D s a x)" by (rule extends_inv [OF extends_ops(2) [OF assms(1,2)]])
  have e: "balance D (AddBalance D (SubBalance D s a x) b x) =
      ((balance D s)(a := balance D s a - x))(b := ((balance D s)(a := balance D s a - x)) b + x)"
    by (simp only: balance_setters [OF i assms(2)] balance_setters [OF assms(1,2)])
  show ?thesis using assms(3,4) unfolding spends_def solvent_def totalSupply_def e sum_upd by auto
qed

lemma spends_selfdestruct:
  assumes "sdb_inv D s" "addrHash_inj D"
  shows "spends D s (fst (Suicide D (AddBalance D s b (balance D s a)) a))"
proof -
  have i: "sdb_inv D (AddBalance D s b (balance D s a))" by (rule extends_inv [OF extends_ops(1) [OF assms]])
  have e: "balance D (fst (Suicide D (AddBalance D s b (balance D s a)) a)) =
      ((balance D s)(b := balance D s b + balance D s a))(a := 0)"
    by (simp only: balance_Suicide [OF i] balance_setters [OF assms])
  show ?thesis unfolding spends_def solvent_def totalSupply_def e sum_upd by auto
qed

section \<open>Evolution of the state during execution\<close>

text \<open>
  What execution does to the state: it extends the journal, in a static context it leaves the
  accounts and the logs as they are, and it creates no money.
\<close>

definition evolves :: "'t backend \<Rightarrow> bool \<Rightarrow> 't StateDB \<Rightarrow> 't StateDB \<Rightarrow> bool" where
  "evolves D ro s s' \<longleftrightarrow> extends D s s' \<and> (ro \<longrightarrow> world_eq D s s') \<and> spends D s s'"

lemma evolves_refl: "sdb_inv D s \<Longrightarrow> evolves D ro s s"
  by (simp add: evolves_def extends_refl world_refl spends_same)

lemma evolves_inv: "evolves D ro s s' \<Longrightarrow> sdb_inv D s'"
  unfolding evolves_def using extends_inv by blast

lemma evolves_trans:
  assumes "evolves D ro s t" "evolves D ro t u" "sdb_inv D s" "addrHash_inj D"
  shows "evolves D ro s u"
  using assms extends_trans [of D s t u] world_trans [of D s t u] spends_trans [of D s t u]
  by (auto simp: evolves_def sdb_inv_def)

lemma evolves_weaken: "evolves D True s s' \<Longrightarrow> evolves D ro s s'"
  by (simp add: evolves_def)

lemma evolves_world: "extends D s s' \<Longrightarrow> world_eq D s s' \<Longrightarrow> evolves D ro s s'"
  by (simp add: evolves_def spends_same balance_world)

lemma evolves_writes:
  assumes "sdb_inv D s" "addrHash_inj D" "\<not> ro"
  shows "evolves D ro s (SetNonce D s a n)" "evolves D ro s (SetCode D s a c)" "evolves D ro s (SetState D s a k v)"
    "evolves D ro s (CreateAccount D s a)" "evolves D ro s (AddLog s lg)"
  using assms extends_ops [OF assms(1,2)] extends_CreateAccount [OF assms(1,2)] extends_AddLog [OF assms(1)]
    balance_setters [OF assms(1,2)] balance_CreateAccount [OF assms(1,2)] balance_AddLog [of D s]
  by (simp_all add: evolves_def spends_same)

lemma evolves_transfer:
  assumes "sdb_inv D s" "addrHash_inj D" "\<not> ro" "0 \<le> x" "x \<le> balance D s a"
  shows "evolves D ro s (AddBalance D (SubBalance D s a x) b x)"
proof -
  note x = extends_ops(2) [OF assms(1,2)]
  from extends_trans [OF x extends_ops(1) [OF extends_inv [OF x] assms(2)] inv_wf [OF assms(1)] assms(2)]
  show ?thesis using assms(3) spends_transfer [OF assms(1,2,4,5)] by (simp add: evolves_def)
qed

lemma evolves_selfdestruct:
  assumes "sdb_inv D s" "addrHash_inj D" "\<not> ro"
  shows "evolves D ro s (fst (Suicide D (AddBalance D s b (balance D s a)) a))"
proof -
  note x = extends_ops(1) [OF assms(1,2)]
  from extends_trans [OF x extends_Suicide [OF extends_inv [OF x] assms(2)] inv_wf [OF assms(1)] assms(2)]
  show ?thesis using assms(3) spends_selfdestruct [OF assms(1,2)] by (simp add: evolves_def)
qed

lemma evolves_reads:
  assumes "sdb_inv D s" "addrHash_inj D"
  shows "evolves D ro s (fst (Exist D s a))" "evolves D ro s (fst (Empty D s a))"
    "evolves D ro s (fst (GetBalance D s a))" "evolves D ro s (fst (GetNonce D s a))"
    "evolves D ro s (fst (GetCodeHash D s a))" "evolves D ro s (fst (HasSuicided D s a))"
    "evolves D ro s (fst (GetCode D s a))" "evolves D ro s (fst (GetCodeSize D s a))"
    "evolves D ro s (fst (GetState D s a k))" "evolves D ro s (fst (GetCommittedState D s a k))"
proof -
  have "sdb_wf D s" using assms(1) by (simp add: sdb_inv_def)
  note w = getters_sdb_eq [OF this, THEN world_sdb_eq]
  show "evolves D ro s (fst (Exist D s a))" "evolves D ro s (fst (Empty D s a))"
    "evolves D ro s (fst (GetBalance D s a))" "evolves D ro s (fst (GetNonce D s a))"
    "evolves D ro s (fst (GetCodeHash D s a))" "evolves D ro s (fst (HasSuicided D s a))"
    "evolves D ro s (fst (GetCode D s a))" "evolves D ro s (fst (GetCodeSize D s a))"
    "evolves D ro s (fst (GetState D s a k))" "evolves D ro s (fst (GetCommittedState D s a k))"
    by (rule evolves_world, rule extends_getters [OF assms], rule w)+
qed

lemma evolves_quiet:
  assumes inv: "sdb_inv D s" and inj: "addrHash_inj D"
  shows "evolves D ro s (AddBalance D s a 0)" "evolves D ro s (SubBalance D s a 0)"
    "\<not> snd (Exist D s a) \<Longrightarrow> evolves D ro s (CreateAccount D s a)"
    "evolves D ro s (AddAddressToAccessList s a)" "evolves D ro s (AddPreimage s h p)"
    "evolves D ro s (fst (Snapshot s))" "AddSlotToAccessList s a k = Ok s' \<Longrightarrow> evolves D ro s s'"
    "evolves D ro s (AddRefund s x)" "SubRefund s x = Ok s' \<Longrightarrow> evolves D ro s s'"
proof -
  have wf: "sdb_wf D s" using inv by (simp add: sdb_inv_def)
  show "evolves D ro s (AddBalance D s a 0)" "evolves D ro s (SubBalance D s a 0)"
    by (simp_all add: evolves_world extends_ops [OF inv inj] world_zero [OF inv inj])
  show "evolves D ro s (CreateAccount D s a)" if "\<not> snd (Exist D s a)"
    using that extends_CreateAccount [OF inv inj, of a] world_CreateAccount [OF inv inj, of a]
    by (simp add: evolves_world getters_view [OF wf])
  show "evolves D ro s (AddAddressToAccessList s a)" "evolves D ro s (AddPreimage s h p)"
    "evolves D ro s (fst (Snapshot s))"
    by (simp_all add: evolves_world extends_AddAddress [OF inv] extends_AddPreimage [OF inv] extends_Snapshot [OF inv]
        world_access)
  show "evolves D ro s s'" if "AddSlotToAccessList s a k = Ok s'"
    using extends_AddSlot [OF inv inj that] world_access(4) [OF that] by (simp add: evolves_world)
  show "evolves D ro s (AddRefund s x)"
    using extends_refund [OF inv] world_access(5) [of D s x] by (simp add: evolves_world AddRefund_def)
  show "evolves D ro s s'" if "SubRefund s x = Ok s'"
    using world_access(6) [OF that] extends_refund [OF inv] that
    by (auto simp: SubRefund_def split: if_splits intro: evolves_world)
qed

text \<open>Reverting to a snapshot taken before the state evolved.\<close>

lemma evolves_revert:
  assumes inv: "sdb_inv D s" and inj: "addrHash_inj D" and sn: "Snapshot s = (s0, r)" and x: "evolves D ro s0 s1"
  shows "\<exists>u. RevertToSnapshot D s1 r = Ok u \<and> sdb_eq D u s \<and> evolves D ro' s u"
proof -
  have x': "extends D s0 s1" using x by (simp add: evolves_def)
  obtain u where u: "RevertToSnapshot D s1 r = Ok u" "sdb_eq D u s"
    using revert_to_base [OF inv inj sn x'] by blast
  have "s0 = fst (Snapshot s)" "r = snd (Snapshot s)" using sn by simp_all
  then have s0: "extends D s s0" "s_nextRevisionId s = r"
    using extends_Snapshot [OF inv] by (simp_all add: Snapshot_def Let_def)
  have wf: "sdb_wf D s" using inv by (simp add: sdb_inv_def)
  have "extends D s u"
    by (rule extends_RevertToSnapshot [OF inv extends_trans [OF s0(1) x' wf inj] inj _ u(1)]) (simp add: s0(2))
  with u world_sdb_eq [OF u(2)] show ?thesis by (auto intro: evolves_world)
qed

end
