(* ===== verification/JumpAnalysis.thy ===== *)
theory JumpAnalysis
  imports VmBase
begin

text \<open>
  The analysis of jump destinations is correct: the bit vector \<open>codeBitmap\<close> computes, eight bits at a
  time, marks exactly the bytes that are arguments of push instructions, and a jump is allowed
  exactly to a \<open>JUMPDEST\<close> that is not such an argument, whatever the caches hold.
\<close>

section \<open>Reference definition\<close>

definition isPush :: "byte \<Rightarrow> bool" where
  "isPush b \<longleftrightarrow> PUSH1 \<le> b \<and> b \<le> PUSH32"

definition pushLength :: "byte \<Rightarrow> nat" where
  "pushLength b = unat b - 0x5f"

text \<open>Which bytes of the code are push arguments.\<close>

function dataMask :: "bytes \<Rightarrow> bool list" where
  "dataMask [] = []"
| "dataMask (b # code) =
     False # (if isPush b then replicate (min (pushLength b) (length code)) True @ dataMask (drop (pushLength b) code)
              else dataMask code)"
  by pat_completeness auto
termination by (relation "measure length") auto

lemma length_dataMask: "length (dataMask code) = length code"
  by (induction code rule: dataMask.induct) auto

section \<open>Bits\<close>

definition bit_at :: "bytes \<Rightarrow> nat \<Rightarrow> bool" where
  "bit_at bits q \<longleftrightarrow> bit (bits ! (q div 8)) (7 - q mod 8)"

declare bit_numeral_word_iff [simp del]

lemma bit_ff: "bit (0xFF :: byte) j \<longleftrightarrow> j < 8"
proof -
  have "(0xFF :: byte) = - 1" by simp
  then show ?thesis by (simp only: bit_minus_1_iff) (simp add: possible_bit_def)
qed

lemma bit_80: "bit (0x80 :: byte) j \<longleftrightarrow> j = 7"
proof -
  have e: "(0x80 :: byte) = push_bit 7 1" by (simp add: push_bit_eq_mult)
  show ?thesis unfolding e by (auto simp: bit_push_bit_iff bit_1_iff possible_bit_def simp del: push_bit_of_1)
qed

lemma codeSegment_bit:
  assumes "q div 8 < length bits"
  shows "codeSegment bits q = Ok (\<not> bit_at bits q)"
proof -
  have "Bit_Operations.and x (drop_bit k 0x80) = 0 \<longleftrightarrow> \<not> bit x (7 - k)" if "k < 8" for x :: byte and k
  proof
    assume "Bit_Operations.and x (drop_bit k 0x80) = 0"
    then have "\<not> bit (Bit_Operations.and x (drop_bit k 0x80)) (7 - k)" by simp
    then show "\<not> bit x (7 - k)" using that by (simp add: bit_and_iff bit_drop_bit_eq bit_80)
  next
    assume x: "\<not> bit x (7 - k)"
    have "n = 7 - k" if "k + n = 7" for n using that by simp
    with x show "Bit_Operations.and x (drop_bit k 0x80) = 0"
      by (intro bit_word_eqI) (auto simp: bit_and_iff bit_drop_bit_eq bit_80)
  qed
  with assms show ?thesis by (simp add: codeSegment_def bit_at_def)
qed

lemma bits_set_spec:
  assumes "p div 8 < length bits"
  shows "\<exists>bits'. bits_set bits p = Ok bits' \<and> length bits' = length bits \<and>
    (\<forall>q. bit_at bits' q \<longleftrightarrow> bit_at bits q \<or> q = p)"
proof -
  have "bit (drop_bit (p mod 8) (0x80 :: byte)) (7 - q mod 8) \<longleftrightarrow> q mod 8 = p mod 8" for q
    by (auto simp: bit_drop_bit_eq bit_80)
  note lo = this
  have eq: "q = p \<longleftrightarrow> q div 8 = p div 8 \<and> q mod 8 = p mod 8" for q by (metis div_mult_mod_eq)
  show ?thesis
    unfolding eq using assms by (auto simp: bits_set_def bits_or_def bit_at_def nth_list_update bit_or_iff lo)
qed

lemma byte_range:
  "p \<le> q \<and> q < p + 8 \<longleftrightarrow>
     q div 8 = p div 8 \<and> p mod 8 \<le> q mod 8 \<or> q div 8 = p div 8 + 1 \<and> q mod 8 < p mod 8" for p q :: nat
proof -
  obtain i k j l where e: "p = 8 * i + k" "k < 8" "q = 8 * j + l" "l < 8"
    by (metis mult_div_mod_eq mod_less_divisor zero_less_numeral)
  have d: "p div 8 = i" "p mod 8 = k" "q div 8 = j" "q mod 8 = l" using e by simp_all
  show ?thesis unfolding d using e by linarith
qed

lemma bits_set8_spec:
  assumes "p div 8 + 1 < length bits"
  shows "\<exists>bits'. bits_set8 bits p = Ok bits' \<and> length bits' = length bits \<and>
    (\<forall>q. bit_at bits' q \<longleftrightarrow> bit_at bits q \<or> p \<le> q \<and> q < p + 8)"
proof -
  let ?k = "p mod 8"
  have lo: "bit (drop_bit ?k (0xFF :: byte)) (7 - q mod 8) \<longleftrightarrow> ?k \<le> q mod 8" for q
    unfolding bit_drop_bit_eq comp_apply bit_ff using mod_less_divisor [of 8 q] by linarith
  have hi: "bit (Bit_Operations.not (drop_bit ?k (0xFF :: byte))) (7 - q mod 8) \<longleftrightarrow> q mod 8 < ?k" for q
    by (auto simp: bit_not_iff lo possible_bit_def not_le)
  define b1 where "b1 = bits[p div 8 := Bit_Operations.or (bits ! (p div 8)) (drop_bit ?k 0xFF)]"
  define b2 where "b2 = b1[p div 8 + 1 := Bit_Operations.or (b1 ! (p div 8 + 1)) (Bit_Operations.not (drop_bit ?k 0xFF))]"
  have "bits_set8 bits p = Ok b2" using assms by (simp add: bits_set8_def bits_or_def b1_def b2_def)
  moreover have "length b2 = length bits" by (simp add: b1_def b2_def)
  moreover have "bit_at b2 q \<longleftrightarrow> bit_at bits q \<or> p \<le> q \<and> q < p + 8" for q
    unfolding byte_range bit_at_def b2_def b1_def
    using assms by (auto simp: nth_list_update bit_or_iff lo hi)
  ultimately show ?thesis by blast
qed

lemma markData_spec:
  "n > 0 \<longrightarrow> (pc + n) div 8 < length bits \<Longrightarrow>
   \<exists>bits'. markData bits pc n = Ok bits' \<and> length bits' = length bits \<and>
     (\<forall>q. bit_at bits' q \<longleftrightarrow> bit_at bits q \<or> pc \<le> q \<and> q < pc + n)"
proof (induction n arbitrary: bits pc rule: less_induct)
  case (less n)
  consider "n = 0" | "0 < n" "n < 8" | "8 \<le> n" by linarith
  then show ?case
  proof cases
    case 1
    then show ?thesis by (simp add: markData.simps) (use not_le in blast)
  next
    case 2
    have "pc div 8 < length bits" using less.prems 2 by linarith
    from bits_set_spec [OF this] obtain b where b: "bits_set bits pc = Ok b" "length b = length bits"
      "\<forall>q. bit_at b q \<longleftrightarrow> bit_at bits q \<or> q = pc" by blast
    have "(pc + 1 + (n - 1)) div 8 < length b" using less.prems 2 b(2) by simp
    with less.IH [of "n - 1" "pc + 1" b] 2 obtain b' where b': "markData b (pc + 1) (n - 1) = Ok b'" "length b' = length b"
      "\<forall>q. bit_at b' q \<longleftrightarrow> bit_at b q \<or> pc + 1 \<le> q \<and> q < pc + 1 + (n - 1)" by auto
    then have "markData bits pc n = Ok b'" using 2 b(1) by (subst markData.simps) simp
    moreover have "\<forall>q. bit_at b' q \<longleftrightarrow> bit_at bits q \<or> pc \<le> q \<and> q < pc + n" using b(3) b'(3) 2 by auto
    ultimately show ?thesis using b(2) b'(2) by auto
  next
    case 3
    have "pc div 8 + 1 < length bits" using less.prems 3 by linarith
    from bits_set8_spec [OF this] obtain b where b: "bits_set8 bits pc = Ok b" "length b = length bits"
      "\<forall>q. bit_at b q \<longleftrightarrow> bit_at bits q \<or> pc \<le> q \<and> q < pc + 8" by blast
    have "(pc + 8 + (n - 8)) div 8 < length b" using less.prems 3 b(2) by simp
    with less.IH [of "n - 8" "pc + 8" b] 3 obtain b' where b': "markData b (pc + 8) (n - 8) = Ok b'" "length b' = length b"
      "\<forall>q. bit_at b' q \<longleftrightarrow> bit_at b q \<or> pc + 8 \<le> q \<and> q < pc + 8 + (n - 8)" by auto
    then have "markData bits pc n = Ok b'" using 3 b(1) by (subst markData.simps) simp
    moreover have "\<forall>q. bit_at b' q \<longleftrightarrow> bit_at bits q \<or> pc \<le> q \<and> q < pc + n" using b(3) b'(3) 3 by auto
    ultimately show ?thesis using b(2) b'(2) by auto
  qed
qed

section \<open>The analysis\<close>

lemma pushLength_push:
  assumes "isPush b"
  shows "unat (b - PUSH1 + 1) = pushLength b" "0 < pushLength b" "pushLength b \<le> 32"
proof -
  have b: "0x60 \<le> unat b" "unat b \<le> 0x7f" using assms by (simp_all add: isPush_def word_le_nat_alt)
  have "unat (b - 0x60) = unat b - 0x60" using assms by (subst unat_sub_le) (simp_all add: isPush_def)
  then have "unat (b - 0x60 + 1) = unat b - 0x60 + 1"
    using b by (subst unat_word_ariths(1)) simp
  then show "unat (b - PUSH1 + 1) = pushLength b" "0 < pushLength b" "pushLength b \<le> 32"
    using b by (simp_all add: pushLength_def)
qed

lemma dataMask_push:
  assumes "isPush b" "q < length code"
  shows "dataMask (b # code) ! Suc q \<longleftrightarrow> q < pushLength b \<or> dataMask (drop (pushLength b) code) ! (q - pushLength b)"
  using assms by (auto simp: nth_append)

lemma codeBitmap_loop_spec:
  assumes "length code div 8 + 4 < length bits"
  shows "\<exists>bits'. codeBitmap_loop code pc bits = Ok bits' \<and> length bits' = length bits \<and>
    (\<forall>q < length code. bit_at bits' q \<longleftrightarrow> bit_at bits q \<or> pc \<le> q \<and> dataMask (drop pc code) ! (q - pc))"
  using assms
proof (induction "length code - pc" arbitrary: pc bits rule: less_induct)
  case less
  show ?case
  proof (cases "pc < length code")
    case False
    then show ?thesis by (subst codeBitmap_loop.simps) simp
  next
    case True
    have IH: "\<exists>bits'. codeBitmap_loop code pc' b = Ok bits' \<and> length bits' = length b \<and>
      (\<forall>q < length code. bit_at bits' q \<longleftrightarrow> bit_at b q \<or> pc' \<le> q \<and> dataMask (drop pc' code) ! (q - pc'))"
      if "pc < pc'" "length b = length bits" for pc' b
      by (rule less.hyps) (use that less.prems True in auto)
    define b where "b = code ! pc"
    have dr: "drop pc code = b # drop (Suc pc) code" using True by (simp add: b_def Cons_nth_drop_Suc)
    show ?thesis
    proof (cases "isPush b")
      case False
      then have "codeBitmap_loop code pc bits = codeBitmap_loop code (pc + 1) bits"
        using True by (subst codeBitmap_loop.simps) (auto simp: isPush_def b_def Let_def)
      moreover obtain b' where b': "codeBitmap_loop code (pc + 1) bits = Ok b'" "length b' = length bits"
        "\<forall>q < length code. bit_at b' q \<longleftrightarrow> bit_at bits q \<or> pc + 1 \<le> q \<and> dataMask (drop (pc + 1) code) ! (q - (pc + 1))"
        using IH [of "pc + 1" bits] by auto
      moreover have "pc \<le> q \<and> dataMask (drop pc code) ! (q - pc) \<longleftrightarrow>
          pc + 1 \<le> q \<and> dataMask (drop (pc + 1) code) ! (q - (pc + 1))" for q
        using False unfolding dr by (cases "pc < q") (auto simp: Suc_diff_Suc [symmetric])
      ultimately show ?thesis by auto
    next
      case push: True
      define n where "n = pushLength b"
      have n: "0 < n" "n \<le> 32" using pushLength_push [OF push] by (simp_all add: n_def)
      have "(pc + 1 + n) div 8 < length bits" using less.prems True n by linarith
      with markData_spec [of n "pc + 1" bits] obtain b1 where b1: "markData bits (pc + 1) n = Ok b1"
        "length b1 = length bits" "\<forall>q. bit_at b1 q \<longleftrightarrow> bit_at bits q \<or> pc + 1 \<le> q \<and> q < pc + 1 + n" by blast
      obtain b' where b': "codeBitmap_loop code (pc + 1 + n) b1 = Ok b'" "length b' = length b1"
        "\<forall>q < length code. bit_at b' q \<longleftrightarrow> bit_at b1 q \<or>
           pc + 1 + n \<le> q \<and> dataMask (drop (pc + 1 + n) code) ! (q - (pc + 1 + n))"
        using IH [of "pc + 1 + n" b1] b1(2) by auto
      have "codeBitmap_loop code pc bits = Ok b'"
        using True push b1(1) b'(1) pushLength_push(1) [OF push]
        by (subst codeBitmap_loop.simps) (simp add: Let_def b_def [symmetric] n_def isPush_def)
      moreover have "pc \<le> q \<and> dataMask (drop pc code) ! (q - pc) \<longleftrightarrow> pc + 1 \<le> q \<and> q < pc + 1 + n \<or>
          pc + 1 + n \<le> q \<and> dataMask (drop (pc + 1 + n) code) ! (q - (pc + 1 + n))" if q: "q < length code" for q
      proof (cases "pc < q")
        case True
        then have "q - pc = Suc (q - pc - 1)" "q - pc - 1 < length (drop (Suc pc) code)" using q by auto
        with dataMask_push [OF push this(2)] True show ?thesis
          unfolding dr by (auto simp: n_def add.commute)
      next
        case False
        then show ?thesis unfolding dr by auto
      qed
      ultimately show ?thesis using b1(2,3) b'(2,3) by auto
    qed
  qed
qed

lemma codeBitmap_spec:
  "\<exists>bits. codeBitmap code = Ok bits \<and> length bits = length code div 8 + 5 \<and>
     (\<forall>q < length code. bit_at bits q \<longleftrightarrow> dataMask code ! q)"
proof -
  let ?z = "replicate (length code div 8 + 1 + 4) (0 :: byte)"
  obtain b' where b': "codeBitmap_loop code 0 ?z = Ok b'" "length b' = length ?z"
    "\<forall>q < length code. bit_at b' q \<longleftrightarrow> bit_at ?z q \<or> dataMask code ! q"
    using codeBitmap_loop_spec [of code ?z 0] by auto
  have "\<not> bit_at ?z q" if "q < length code" for q using that by (simp add: bit_at_def)
  with b' show ?thesis by (auto simp: codeBitmap_def)
qed

text \<open>C27. \<open>codeBitmap\<close> never panics, and at every position of the code \<open>codeSegment\<close> says that the byte is code
  exactly when the reference definition \<open>dataMask\<close> says that it is not a push argument.\<close>

theorem codeBitmap_correct:
  "\<exists>bits. codeBitmap code = Ok bits \<and> (\<forall>pos < length code. codeSegment bits pos = Ok (\<not> dataMask code ! pos))"
proof -
  obtain bits where b: "codeBitmap code = Ok bits" "length bits = length code div 8 + 5"
    "\<forall>q < length code. bit_at bits q \<longleftrightarrow> dataMask code ! q" using codeBitmap_spec by blast
  have "codeSegment bits pos = Ok (\<not> dataMask code ! pos)" if "pos < length code" for pos
    using codeSegment_bit [of pos bits] b(2,3) that by auto
  with b(1) show ?thesis by blast
qed

theorem codeBitmap_correct_witness:
  "\<exists>bits. codeBitmap [0x60, 0x5b, 0x5b] = Ok bits \<and> codeSegment bits 1 = Ok False \<and> codeSegment bits 2 = Ok True"
proof -
  have m: "dataMask [0x60, 0x5b, 0x5b] = [False, True, False]" by (simp add: isPush_def pushLength_def)
  obtain bits where "codeBitmap [0x60, 0x5b, 0x5b] = Ok bits"
    "\<forall>pos < length [0x60 :: byte, 0x5b, 0x5b]. codeSegment bits pos = Ok (\<not> [False, True, False] ! pos)"
    using codeBitmap_correct [of "[0x60, 0x5b, 0x5b]"] unfolding m by blast
  then show ?thesis by (intro exI [of _ bits]) simp
qed

section \<open>Jumps\<close>

text \<open>What the caches may hold: the analysis of the code, in the contract or under its hash.\<close>

definition analysis_ok :: "(hash \<Rightarrow> bytes option) \<Rightarrow> Contract \<Rightarrow> bool" where
  "analysis_ok jd c \<longleftrightarrow>
     (\<forall>an. c_analysis c = Some an \<or> c_CodeHash c \<noteq> 0 \<and> jd (c_CodeHash c) = Some an \<longrightarrow>
        codeBitmap (c_Code c) = Ok an)"

lemma isCode_spec:
  assumes ok: "analysis_ok jd c" and u: "u < length (c_Code c)"
  shows "\<exists>jd' an. isCode jd c u = Ok (jd', c\<lparr>c_analysis := Some an\<rparr>, \<not> dataMask (c_Code c) ! u) \<and>
    analysis_ok jd' (c\<lparr>c_analysis := Some an\<rparr>)"
proof -
  obtain bits where b: "codeBitmap (c_Code c) = Ok bits" "length bits = length (c_Code c) div 8 + 5"
    "\<forall>q < length (c_Code c). bit_at bits q \<longleftrightarrow> dataMask (c_Code c) ! q" using codeBitmap_spec by blast
  have seg: "codeSegment bits u = Ok (\<not> dataMask (c_Code c) ! u)"
    using codeSegment_bit [of u bits] b(2,3) u by auto
  have an: "an = bits" if "c_analysis c = Some an \<or> c_CodeHash c \<noteq> 0 \<and> jd (c_CodeHash c) = Some an" for an
    using ok that b(1) by (auto simp: analysis_ok_def)
  show ?thesis
  proof (cases "c_analysis c")
    case (Some an)
    with an have a: "c_analysis c = Some bits" by blast
    then have e: "c\<lparr>c_analysis := Some bits\<rparr> = c" by simp
    have "isCode jd c u = Ok (jd, c\<lparr>c_analysis := Some bits\<rparr>, \<not> dataMask (c_Code c) ! u)"
      unfolding e using seg a by (simp add: isCode_def)
    moreover have "analysis_ok jd (c\<lparr>c_analysis := Some bits\<rparr>)" unfolding e by (rule ok)
    ultimately show ?thesis by blast
  next
    case None
    have "\<exists>jd'. isCode jd c u = Ok (jd', c\<lparr>c_analysis := Some bits\<rparr>, \<not> dataMask (c_Code c) ! u) \<and>
      (jd' (c_CodeHash c) = jd (c_CodeHash c) \<or> jd' (c_CodeHash c) = Some bits)"
      using None an seg b(1) by (auto simp: isCode_def split: option.split)
    then obtain jd' where j: "isCode jd c u = Ok (jd', c\<lparr>c_analysis := Some bits\<rparr>, \<not> dataMask (c_Code c) ! u)"
      "jd' (c_CodeHash c) = jd (c_CodeHash c) \<or> jd' (c_CodeHash c) = Some bits" by blast
    then have "analysis_ok jd' (c\<lparr>c_analysis := Some bits\<rparr>)"
      using b(1) an [OF disjI2] by (auto simp: analysis_ok_def)
    with j(1) show ?thesis by blast
  qed
qed

text \<open>C26. A jump is allowed exactly to a position inside the code that holds a \<open>JUMPDEST\<close> and is not a push
  argument, for every 256-bit destination; the check never panics, and it keeps the caches valid
  and every other field of the contract.\<close>

theorem validJumpdest_correct:
  assumes "uint256_ok U" "analysis_ok jd c" "length (c_Code c) < 2 ^ 63"
  shows "\<exists>jd' an. validJumpdest U jd c dest =
      Ok (jd', c\<lparr>c_analysis := an\<rparr>, unat dest < length (c_Code c) \<and> c_Code c ! unat dest = JUMPDEST \<and>
        \<not> dataMask (c_Code c) ! unat dest) \<and>
    analysis_ok jd' (c\<lparr>c_analysis := an\<rparr>)"
proof -
  have u: "u_Uint64WithOverflow U dest = (ucast dest, \<not> unat dest < 2 ^ 64)"
    using assms(1) by (simp add: uint256_ok_def)
  have c: "unat (ucast dest :: u64) = unat dest" if "unat dest < 2 ^ 64"
    using that by (simp add: unsigned_ucast_eq take_bit_nat_eq_self)
  have same: "c\<lparr>c_analysis := c_analysis c\<rparr> = c" by simp
  show ?thesis
  proof (cases "unat dest < length (c_Code c) \<and> c_Code c ! unat dest = JUMPDEST")
    case True
    then have "unat dest < 2 ^ 64" using assms(3) by simp
    with True c u have "validJumpdest U jd c dest = isCode jd c (unat dest)" by (simp add: validJumpdest_def)
    with isCode_spec [OF assms(2), of "unat dest"] True show ?thesis by auto
  next
    case False
    then have "validJumpdest U jd c dest = Ok (jd, c, False)"
      using c u assms(3) by (auto simp: validJumpdest_def)
    then show ?thesis using False assms(2) same by (intro exI [of _ jd] exI [of _ "c_analysis c"]) auto
  qed
qed

text \<open>The code \<open>PUSH1 0x5b JUMPDEST\<close>: position 1 is data, position 2 is a destination.\<close>

definition exampleContract :: Contract where
  "exampleContract = (NewContract (AccountRef 1) 2 (Some 0) 100)\<lparr>c_Code := [0x60, 0x5b, 0x5b], c_CodeHash := 7\<rparr>"

theorem validJumpdest_correct_witness:
  "\<exists>jd' an. validJumpdest uint256_ref (\<lambda>_. None) exampleContract 2 = Ok (jd', exampleContract\<lparr>c_analysis := an\<rparr>, True)"
proof -
  have "analysis_ok (\<lambda>_. None) exampleContract" "length (c_Code exampleContract) < 2 ^ 63"
    by (simp_all add: analysis_ok_def exampleContract_def NewContract_def)
  from validJumpdest_correct [OF uint256_ok_ref this, of 2] show ?thesis
    by (auto simp: exampleContract_def NewContract_def isPush_def pushLength_def)
qed

end
