(* ===== verification/EvmEffects.thy ===== *)
theory EvmEffects
  imports Interpreter StateEffects JumpAnalysis RlpEncode
begin

text \<open>
  What the calls and creations of the virtual machine do to the machine, for any interpreter that
  keeps the contract of \<open>runner_ok\<close>: the state evolves, the remaining gas does not exceed the gas
  given, and a call that fails leaves the state as it was.
\<close>

section \<open>Outcomes\<close>

text \<open>\<open>post r Q\<close>: the computation does not run out of fuel, and its result, if any, satisfies \<open>Q\<close>.\<close>

definition post :: "'a outcome \<Rightarrow> ('a \<Rightarrow> bool) \<Rightarrow> bool" where
  "post r Q \<longleftrightarrow> (case r of Ok x \<Rightarrow> Q x | Panic \<Rightarrow> True | NoFuel \<Rightarrow> False)"

lemma post_simps [simp]: "post (Ok x) Q = Q x" "post Panic Q" "\<not> post NoFuel Q"
  by (simp_all add: post_def)

lemma post_bnd [simp]: "post (bnd r f) Q \<longleftrightarrow> post r (\<lambda>x. post (f x) Q)"
  by (cases r) simp_all

lemma post_mono: "post r P \<Longrightarrow> (\<And>x. P x \<Longrightarrow> Q x) \<Longrightarrow> post r Q"
  by (cases r) simp_all

lemma post_True: "post r (\<lambda>_. True) \<longleftrightarrow> r \<noteq> NoFuel"
  by (cases r) simp_all

lemma post_const: "r \<noteq> NoFuel \<Longrightarrow> (\<And>x. Q x) \<Longrightarrow> post r Q"
  by (cases r) simp_all

lemma post_if: "post (if b then x else y) Q \<longleftrightarrow> (b \<longrightarrow> post x Q) \<and> (\<not> b \<longrightarrow> post y Q)"
  by simp

lemma post_option: "post (case x of None \<Rightarrow> r | Some y \<Rightarrow> f y) Q \<longleftrightarrow>
    (x = None \<longrightarrow> post r Q) \<and> (\<forall>y. x = Some y \<longrightarrow> post (f y) Q)"
  by (cases x) simp_all

lemma postD: "post r Q \<Longrightarrow> r = Ok x \<Longrightarrow> Q x"
  by simp

section \<open>The environment and the machine\<close>

text \<open>Transfers are those of the chain, addresses hash injectively, and the integers behave as documented.\<close>

definition env_ok :: "'t env \<Rightarrow> bool" where
  "env_ok E \<longleftrightarrow> addrHash_inj (e_db E) \<and> uint256_ok (e_U E) \<and>
     bc_CanTransfer (e_Context E) = CanTransfer (e_db E) \<and> bc_Transfer (e_Context E) = Transfer (e_db E)"

definition m_inv :: "'t env \<Rightarrow> 't machine \<Rightarrow> bool" where
  "m_inv E m \<longleftrightarrow> sdb_inv (e_db E) (m_StateDB m)"

text \<open>With \<open>ro\<close> in force after Byzantium the accounts stay as they are.\<close>

definition m_evolves :: "'t env \<Rightarrow> bool \<Rightarrow> 't machine \<Rightarrow> 't machine \<Rightarrow> bool" where
  "m_evolves E ro m m' \<longleftrightarrow>
     evolves (e_db E) (ro \<and> r_IsByzantium (e_rules E)) (m_StateDB m) (m_StateDB m') \<and>
     m_depth m' = m_depth m \<and> m_readOnly m' = m_readOnly m"

lemma m_evolves_refl: "m_inv E m \<Longrightarrow> m_evolves E ro m m"
  by (simp add: m_evolves_def m_inv_def evolves_refl)

lemma m_evolves_inv: "m_evolves E ro m m' \<Longrightarrow> m_inv E m'"
  unfolding m_evolves_def m_inv_def using evolves_inv by blast

lemma m_evolves_trans:
  assumes "m_evolves E ro m m1" "m_evolves E ro m1 m2" "m_inv E m" "env_ok E"
  shows "m_evolves E ro m m2"
  using assms evolves_trans [of "e_db E" "ro \<and> r_IsByzantium (e_rules E)" "m_StateDB m" "m_StateDB m1" "m_StateDB m2"]
  by (simp add: m_evolves_def m_inv_def env_ok_def)

lemma m_evolves_weaken: "m_evolves E True m m' \<Longrightarrow> m_evolves E ro m m'"
  unfolding m_evolves_def by (cases ro) (auto simp: evolves_def)

lemma m_evolves_state:
  assumes "evolves (e_db E) (ro \<and> r_IsByzantium (e_rules E)) (m_StateDB m) s'"
    "m_StateDB m' = s'" "m_depth m' = m_depth m" "m_readOnly m' = m_readOnly m"
  shows "m_evolves E ro m m'"
  using assms by (simp add: m_evolves_def)

lemma m_get_evolves:
  assumes "m_get m f = (m', x)" "evolves (e_db E) (ro \<and> r_IsByzantium (e_rules E)) (m_StateDB m) (fst (f (m_StateDB m)))"
  shows "m_evolves E ro m m'" "x = snd (f (m_StateDB m))" "m_StateDB m' = fst (f (m_StateDB m))"
  using assms by (auto simp: m_get_def m_evolves_def split: prod.splits)

lemma m_do_evolves:
  assumes "evolves (e_db E) (ro \<and> r_IsByzantium (e_rules E)) (m_StateDB m) (f (m_StateDB m))"
  shows "m_evolves E ro m (m_do m f)"
  using assms by (simp add: m_do_def m_evolves_def)

lemma m_try_post:
  assumes "\<And>s. f (m_StateDB m) = Ok s \<Longrightarrow> evolves (e_db E) (ro \<and> r_IsByzantium (e_rules E)) (m_StateDB m) s"
    "f (m_StateDB m) \<noteq> NoFuel"
  shows "post (m_try m f) (m_evolves E ro m)"
  using assms by (cases "f (m_StateDB m)") (simp_all add: m_try_def m_evolves_def)

text \<open>Reading through the machine.\<close>

lemma m_get_reads:
  assumes ok: "env_ok E" and inv: "m_inv E m"
  shows "m_get m (\<lambda>s. Exist (e_db E) s a) = (m', b) \<Longrightarrow> m_evolves E ro m m' \<and> b = snd (Exist (e_db E) (m_StateDB m) a)"
    "m_get m (\<lambda>s. Empty (e_db E) s a) = (m', b) \<Longrightarrow> m_evolves E ro m m'"
    "m_get m (\<lambda>s. GetBalance (e_db E) s a) = (m', i) \<Longrightarrow> m_evolves E ro m m'"
    "m_get m (\<lambda>s. GetNonce (e_db E) s a) = (m', n) \<Longrightarrow> m_evolves E ro m m'"
    "m_get m (\<lambda>s. GetCodeHash (e_db E) s a) = (m', h) \<Longrightarrow> m_evolves E ro m m'"
    "m_get m (\<lambda>s. GetCode (e_db E) s a) = (m', c) \<Longrightarrow> m_evolves E ro m m'"
    "m_get m (\<lambda>s. GetCodeSize (e_db E) s a) = (m', i) \<Longrightarrow> m_evolves E ro m m'"
    "m_get m (\<lambda>s. HasSuicided (e_db E) s a) = (m', b) \<Longrightarrow> m_evolves E ro m m'"
    "m_get m (\<lambda>s. GetState (e_db E) s a k) = (m', h) \<Longrightarrow> m_evolves E ro m m'"
    "m_get m (\<lambda>s. GetCommittedState (e_db E) s a k) = (m', h) \<Longrightarrow> m_evolves E ro m m'"
    "m_get m Snapshot = (m', i) \<Longrightarrow> m_evolves E ro m m'"
proof -
  have "sdb_inv (e_db E) (m_StateDB m)" "addrHash_inj (e_db E)" using ok inv by (simp_all add: env_ok_def m_inv_def)
  note r = evolves_reads [OF this] evolves_quiet(6) [OF this]
  show "m_get m (\<lambda>s. Exist (e_db E) s a) = (m', b) \<Longrightarrow> m_evolves E ro m m' \<and> b = snd (Exist (e_db E) (m_StateDB m) a)"
    using m_get_evolves(1,2) [where f = "\<lambda>s. Exist (e_db E) s a" and m = m and E = E and ro = ro] r(1) by blast
  show "m_get m (\<lambda>s. Empty (e_db E) s a) = (m', b) \<Longrightarrow> m_evolves E ro m m'"
    "m_get m (\<lambda>s. GetBalance (e_db E) s a) = (m', i) \<Longrightarrow> m_evolves E ro m m'"
    "m_get m (\<lambda>s. GetNonce (e_db E) s a) = (m', n) \<Longrightarrow> m_evolves E ro m m'"
    "m_get m (\<lambda>s. GetCodeHash (e_db E) s a) = (m', h) \<Longrightarrow> m_evolves E ro m m'"
    "m_get m (\<lambda>s. GetCode (e_db E) s a) = (m', c) \<Longrightarrow> m_evolves E ro m m'"
    "m_get m (\<lambda>s. GetCodeSize (e_db E) s a) = (m', i) \<Longrightarrow> m_evolves E ro m m'"
    "m_get m (\<lambda>s. HasSuicided (e_db E) s a) = (m', b) \<Longrightarrow> m_evolves E ro m m'"
    "m_get m (\<lambda>s. GetState (e_db E) s a k) = (m', h) \<Longrightarrow> m_evolves E ro m m'"
    "m_get m (\<lambda>s. GetCommittedState (e_db E) s a k) = (m', h) \<Longrightarrow> m_evolves E ro m m'"
    "m_get m Snapshot = (m', i) \<Longrightarrow> m_evolves E ro m m'"
    by (rule m_get_evolves(1), assumption, rule r)+
qed

abbreviation m_view :: "'t env \<Rightarrow> 't machine \<Rightarrow> address \<Rightarrow> acctView option" where
  "m_view E m \<equiv> view (e_db E) (m_StateDB m)"

lemma balance_view: "view D s = view D t \<Longrightarrow> balance D s = balance D t"
  by (simp add: balance_def fun_eq_iff)

lemma m_get_view:
  assumes inv: "m_inv E m"
  shows "m_get m (\<lambda>s. Exist (e_db E) s a) = (m', b) \<Longrightarrow> m_view E m' = m_view E m"
    "m_get m (\<lambda>s. GetNonce (e_db E) s a) = (m', n) \<Longrightarrow> m_view E m' = m_view E m"
    "m_get m (\<lambda>s. GetCodeHash (e_db E) s a) = (m', h) \<Longrightarrow> m_view E m' = m_view E m"
    "m_get m Snapshot = (m', i) \<Longrightarrow> m_view E m' = m_view E m"
    "m_get m (\<lambda>s. GetBalance (e_db E) s a) = (m', x) \<Longrightarrow> m_view E m' = m_view E m"
proof -
  have wf: "sdb_wf (e_db E) (m_StateDB m)" using inv by (simp add: m_inv_def inv_wf)
  have r: "m_view E m' = m_view E m" if "m_get m f = (m', x)" "sdb_eq (e_db E) (fst (f (m_StateDB m))) (m_StateDB m)" for f x
    using that view_sdb_eq by (auto simp: m_get_def split: prod.splits)
  show "m_get m (\<lambda>s. Exist (e_db E) s a) = (m', b) \<Longrightarrow> m_view E m' = m_view E m"
    "m_get m (\<lambda>s. GetNonce (e_db E) s a) = (m', n) \<Longrightarrow> m_view E m' = m_view E m"
    "m_get m (\<lambda>s. GetCodeHash (e_db E) s a) = (m', h) \<Longrightarrow> m_view E m' = m_view E m"
    "m_get m (\<lambda>s. GetBalance (e_db E) s a) = (m', x) \<Longrightarrow> m_view E m' = m_view E m"
    by (erule r, rule getters_sdb_eq [OF wf])+
  show "m_view E m' = m_view E m" if "m_get m Snapshot = (m', i)"
  proof -
    have "look (e_db E) (m_StateDB m') = look (e_db E) (m_StateDB m)"
      by (rule look_frame) (use that in \<open>auto simp: m_get_def Snapshot_def Let_def\<close>)
    then show ?thesis using that by (auto simp: m_get_def Snapshot_def Let_def view_def account_def fun_eq_iff)
  qed
qed

text \<open>The contract of the interpreter: fuel for \<open>n\<close> units of gas.\<close>

definition runner_ok :: "'t env \<Rightarrow> nat \<Rightarrow> 't runner \<Rightarrow> bool" where
  "runner_ok E n R \<longleftrightarrow>
     (\<forall>m c input ro. m_inv E m \<longrightarrow> unat (c_Gas c) < n \<longrightarrow>
        post (R m c input ro) (\<lambda>(m', c', ret, err). m_evolves E (m_readOnly m \<or> ro) m m' \<and> c_Gas c' \<le> c_Gas c))"

lemma runner_okD:
  assumes "runner_ok E n R" "m_inv E m" "unat (c_Gas c) < n"
  shows "post (R m c input ro) (\<lambda>(m', c', ret, err). m_evolves E (m_readOnly m \<or> ro) m m' \<and> c_Gas c' \<le> c_Gas c)"
  using assms by (simp add: runner_ok_def)

section \<open>Precompiled contracts\<close>

lemma getData_fuel [simp]: "getData d s n \<noteq> NoFuel"
  by (simp add: getData_def Let_def)

lemma RequiredGas_fuel: "RequiredGas p input \<noteq> NoFuel"
  by (cases p) (simp_all add: bigModExp_RequiredGas_def bigModExp_adjExpLen_def Let_def outcome_simps)

lemma precompile_Run_fuel: "precompile_Run C p input \<noteq> NoFuel"
  by (cases p)
    (simp_all add: bigModExp_Run_def runBn256Add_def runBn256ScalarMul_def Let_def outcome_simps split: sum.splits)

lemma RunPrecompiledContract_post:
  "post (RunPrecompiledContract C p input gas) (\<lambda>(ret, gas', err, alias). gas' \<le> gas)"
proof -
  have "gas - c \<le> gas" if "\<not> gas < c" for c :: u64
    using that by (simp add: word_le_nat_alt unat_sub_le word_less_nat_alt)
  then show ?thesis
    unfolding RunPrecompiledContract_def
    by (cases "RequiredGas p input"; cases "precompile_Run C p input")
      (auto simp: RequiredGas_fuel precompile_Run_fuel split: sum.split)
qed

section \<open>Calls\<close>

text \<open>Handing value over, which does nothing but touch accounts when the value is zero.\<close>

lemma Transfer_evolves:
  assumes ok: "env_ok E" and inv: "m_inv E m" and z: "ro \<and> r_IsByzantium (e_rules E) \<Longrightarrow> val = 0"
    and v: "0 \<le> val" "val = 0 \<or> val \<le> balance (e_db E) (m_StateDB m) a"
  shows "m_evolves E ro m (m_do m (\<lambda>s. bc_Transfer (e_Context E) s a b val))"
proof (rule m_do_evolves)
  let ?D = "e_db E" and ?s = "m_StateDB m" and ?w = "ro \<and> r_IsByzantium (e_rules E)"
  have inj: "addrHash_inj ?D" and i: "sdb_inv ?D ?s" using ok inv by (simp_all add: env_ok_def m_inv_def)
  have "evolves ?D ?w ?s (Transfer ?D ?s a b val)"
  proof (cases "val = 0")
    case True
    have "evolves ?D ?w ?s (SubBalance ?D ?s a 0)" by (rule evolves_quiet(2) [OF i inj])
    from evolves_trans [OF this evolves_quiet(1) [OF evolves_inv [OF this] inj] i inj] True
    show ?thesis by (simp add: Transfer_def)
  next
    case False
    with z v show ?thesis unfolding Transfer_def by (intro evolves_transfer [OF i inj]) auto
  qed
  then show "evolves ?D ?w ?s (bc_Transfer (e_Context E) ?s a b val)" using ok by (simp add: env_ok_def)
qed

lemma CanTransfer_evolves:
  assumes "env_ok E" "m_inv E m" "m_get m (\<lambda>s. bc_CanTransfer (e_Context E) s a val) = (m', ok)"
  shows "m_evolves E ro m m'" "sdb_eq (e_db E) (m_StateDB m') (m_StateDB m)"
    "ok \<longleftrightarrow> val \<le> balance (e_db E) (m_StateDB m) a"
proof -
  have f: "(\<lambda>s. bc_CanTransfer (e_Context E) s a val) =
      (\<lambda>s. case GetBalance (e_db E) s a of (db, b) \<Rightarrow> (db, b \<ge> val))"
    using assms(1) by (simp add: env_ok_def CanTransfer_def fun_eq_iff)
  obtain b where g: "m_get m (\<lambda>s. GetBalance (e_db E) s a) = (m', b)" and b: "ok \<longleftrightarrow> val \<le> b"
    using assms(3) unfolding f by (auto simp: m_get_def split: prod.splits)
  from m_get_reads(3) [OF assms(1,2) g] show "m_evolves E ro m m'" .
  have "m_StateDB m' = fst (GetBalance (e_db E) (m_StateDB m) a)" using g by (auto simp: m_get_def split: prod.splits)
  then show "sdb_eq (e_db E) (m_StateDB m') (m_StateDB m)"
    using getters_sdb_eq(3) [of "e_db E" "m_StateDB m"] assms(2) by (simp add: m_inv_def sdb_inv_def)
  have "b = snd (GetBalance (e_db E) (m_StateDB m) a)" using g by (auto simp: m_get_def split: prod.splits)
  then show "ok \<longleftrightarrow> val \<le> balance (e_db E) (m_StateDB m) a"
    using b GetBalance_balance [of "e_db E" "m_StateDB m" a] assms(2) by (simp add: m_inv_def inv_wf)
qed

text \<open>The end of a call, from the machine \<open>m0\<close> in which its snapshot was taken.\<close>

definition keeps_gas :: "vmError option \<Rightarrow> bool" where
  "keeps_gas err \<longleftrightarrow> err \<in> {None, Some ErrExecutionReverted, Some ErrDepth, Some ErrInsufficientBalance}"

lemma endCall_post:
  assumes ok: "env_ok E" and inv: "m_inv E m0" and sn: "m_get m0 Snapshot = (m1, snap)"
    and ev: "m_evolves E ro m1 m" and g: "gas \<le> gas0"
  shows "post (endCall E snap m ret gas err alias) (\<lambda>(m', ret', gas', err', alias').
    m_evolves E ro m0 m' \<and> gas' \<le> gas0 \<and> (err' \<noteq> None \<longrightarrow> sdb_eq (e_db E) (m_StateDB m') (m_StateDB m0)) \<and> (err' \<noteq> None \<longrightarrow> gas' = 0 \<or> keeps_gas err'))"
proof (cases err)
  case None
  have "m_evolves E ro m0 m1" by (rule m_get_reads(11) [OF ok inv sn])
  from m_evolves_trans [OF this ev inv ok] None g show ?thesis by (simp add: endCall_def)
next
  case (Some e)
  have inj: "addrHash_inj (e_db E)" and i: "sdb_inv (e_db E) (m_StateDB m0)"
    using ok inv by (simp_all add: env_ok_def m_inv_def)
  have m1: "Snapshot (m_StateDB m0) = (m_StateDB m1, snap)" "m_depth m1 = m_depth m0" "m_readOnly m1 = m_readOnly m0"
    using sn by (auto simp: m_get_def split: prod.splits)
  have "evolves (e_db E) (ro \<and> r_IsByzantium (e_rules E)) (m_StateDB m1) (m_StateDB m)"
    "m_depth m = m_depth m1" "m_readOnly m = m_readOnly m1" using ev by (simp_all add: m_evolves_def)
  note e = this
  from evolves_revert [OF i inj m1(1) e(1)] obtain u where
    u: "RevertToSnapshot (e_db E) (m_StateDB m) snap = Ok u" "sdb_eq (e_db E) u (m_StateDB m0)"
      "evolves (e_db E) (ro \<and> r_IsByzantium (e_rules E)) (m_StateDB m0) u" by blast
  show ?thesis using Some u m1 e(2,3) g by (simp add: endCall_def m_try_def m_evolves_def keeps_gas_def)
qed

lemma runContract_post:
  assumes "runner_ok E n R" "m_inv E m" "unat (c_Gas c) < n"
  shows "post (runContract R caller m c input ro) (\<lambda>(m', ret, gas', err).
    m_evolves E (m_readOnly m \<or> ro) m m' \<and> gas' \<le> c_Gas c)"
proof -
  let ?m = "m\<lparr>m_jumpdests := newJumpdests caller (m_jumpdests m)\<rparr>"
  have i: "m_inv E ?m" using assms(2) by (simp add: m_inv_def)
  have "m_evolves E b ?m m' = m_evolves E b m m'" for b m' by (simp add: m_evolves_def)
  with runner_okD [OF assms(1) i assms(3), of input ro] show ?thesis
    by (auto simp: runContract_def elim!: post_mono)
qed

definition call_ok ::
  "'t env \<Rightarrow> bool \<Rightarrow> 't machine \<Rightarrow> u64 \<Rightarrow> 't machine \<times> bytes \<times> u64 \<times> vmError option \<times> bool \<Rightarrow> bool" where
  "call_ok E ro m gas = (\<lambda>(m', ret, gas', err, alias).
     m_evolves E ro m m' \<and> gas' \<le> gas \<and>
     (err \<noteq> None \<longrightarrow> sdb_eq (e_db E) (m_StateDB m') (m_StateDB m)) \<and> (err \<noteq> None \<longrightarrow> gas' = 0 \<or> keeps_gas err))"

lemma call_ok_weaken: "call_ok E True m gas r \<Longrightarrow> call_ok E ro m gas r"
  using m_evolves_weaken by (fastforce simp: call_ok_def)

text \<open>
  A call after its guards: the machine \<open>m0\<close> differs from \<open>m\<close> only in caches, the snapshot is taken in
  \<open>m0\<close>, and the callee runs after the machine has evolved to \<open>m2\<close>.
\<close>

lemma call_end:
  assumes ok: "env_ok E" and inv: "m_inv E m" and m0: "m_evolves E ro m m0"
    "sdb_eq (e_db E) (m_StateDB m0) (m_StateDB m)"
    and sn: "m_get m0 Snapshot = (m1, snap)" and ev: "m_evolves E ro m1 m2" and g: "gas' \<le> gas"
  shows "post (endCall E snap m2 ret gas' err alias) (call_ok E ro m gas)"
proof (rule post_mono [OF endCall_post [OF ok m_evolves_inv [OF m0(1)] sn ev g]])
  fix r :: "'a machine \<times> bytes \<times> u64 \<times> vmError option \<times> bool"
  obtain m' ret' g' err' al' where r: "r = (m', ret', g', err', al')" by (cases r) auto
  assume "case r of (m', ret', gas', err', alias') \<Rightarrow> m_evolves E ro m0 m' \<and> gas' \<le> gas \<and>
    (err' \<noteq> None \<longrightarrow> sdb_eq (e_db E) (m_StateDB m') (m_StateDB m0)) \<and> (err' \<noteq> None \<longrightarrow> gas' = 0 \<or> keeps_gas err')"
  then have a: "m_evolves E ro m0 m'" "g' \<le> gas" "err' \<noteq> None \<longrightarrow> g' = 0 \<or> keeps_gas err'"
    "err' \<noteq> None \<longrightarrow> sdb_eq (e_db E) (m_StateDB m') (m_StateDB m0)" by (simp_all add: r)
  from m_evolves_trans [OF m0(1) a(1) inv ok] a(2-4) sdb_eq_trans [OF _ m0(2)]
  show "call_ok E ro m gas r" by (auto simp: r call_ok_def)
qed

lemma call_run:
  assumes ok: "env_ok E" and R: "runner_ok E n R" and inv: "m_inv E m"
    and m0: "m_evolves E ro m m0" "sdb_eq (e_db E) (m_StateDB m0) (m_StateDB m)"
    and sn: "m_get m0 Snapshot = (m1, snap)" and ev: "m_evolves E ro m1 m2"
    and c: "unat (c_Gas c) < n" "c_Gas c \<le> gas" and static: "ro \<longrightarrow> m_readOnly m \<or> ro'"
  shows "post (bnd (runContract R caller m2 c input ro') (\<lambda>(m, ret, gas, err). endCall E snap m ret gas err False))
    (call_ok E ro m gas)"
proof -
  have i0: "m_inv E m0" by (rule m_evolves_inv [OF m0(1)])
  have i1: "m_inv E m1" by (rule m_evolves_inv [OF m_get_reads(11) [OF ok i0 sn]])
  have i2: "m_inv E m2" by (rule m_evolves_inv [OF ev])
  have "m_readOnly m2 = m_readOnly m" using ev m0(1) sn by (auto simp: m_evolves_def m_get_def split: prod.splits)
  then have w: "m_evolves E ro a b" if "m_evolves E (m_readOnly m2 \<or> ro') a b" for a b
    using that static by (auto simp: m_evolves_def evolves_def)
  show ?thesis
    unfolding post_bnd
  proof (rule post_mono [OF runContract_post [OF R i2 c(1)]], clarsimp)
    fix m3 ret g err
    assume "m_evolves E (m_readOnly m2 \<or> ro') m2 m3" "g \<le> c_Gas c"
    with m_evolves_trans [OF ev w i1 ok] c(2)
    show "post (endCall E snap m3 ret g err False) (call_ok E ro m gas)"
      by (intro call_end [OF ok inv m0 sn]) auto
  qed
qed

lemma call_precompile:
  assumes "env_ok E" "m_inv E m" "m_evolves E ro m m0" "sdb_eq (e_db E) (m_StateDB m0) (m_StateDB m)"
    "m_get m0 Snapshot = (m1, snap)" "m_evolves E ro m1 m2"
  shows "post (bnd (RunPrecompiledContract C p input gas) (\<lambda>(ret, gas, err, alias). endCall E snap m2 ret gas err alias))
    (call_ok E ro m gas)"
  unfolding post_bnd
  by (rule post_mono [OF RunPrecompiledContract_post]) (auto intro: call_end [OF assms])

lemma call_early:
  assumes "m_evolves E ro m m'"
  shows "post (Ok (m', ret, gas, None, alias)) (call_ok E ro m gas)"
    "sdb_eq (e_db E) (m_StateDB m') (m_StateDB m) \<Longrightarrow> post (Ok (m', ret, gas, Some ErrDepth, alias)) (call_ok E ro m gas)"
    "sdb_eq (e_db E) (m_StateDB m') (m_StateDB m) \<Longrightarrow>
      post (Ok (m', ret, gas, Some ErrInsufficientBalance, alias)) (call_ok E ro m gas)"
  using assms by (simp_all add: call_ok_def keeps_gas_def)

lemma m_inv_sdb_eq: "m_inv E m \<Longrightarrow> sdb_eq (e_db E) (m_StateDB m) (m_StateDB m)"
  by (simp add: m_inv_def sdb_inv_def sdb_eq_refl)

lemma Call_post:
  assumes ok: "env_ok E" and R: "runner_ok E n R" and inv: "m_inv E m" and gas: "unat gas < n"
    and z: "m_readOnly m \<Longrightarrow> r_IsByzantium (e_rules E) \<Longrightarrow> val = 0" and pos: "0 \<le> val"
  shows "post (Call E R m caller addr input gas val) (call_ok E (m_readOnly m) m gas)"
proof -
  let ?D = "e_db E" and ?ro = "m_readOnly m"
  obtain m0 okv where e0: "(if val \<noteq> 0 then m_get m (\<lambda>s. bc_CanTransfer (e_Context E) s (ref_Address caller) val)
      else (m, True)) = (m0, okv)" by (cases "(if val \<noteq> 0 then m_get m (\<lambda>s. bc_CanTransfer (e_Context E) s (ref_Address caller) val)
      else (m, True))")
  obtain m1 snap where sn: "m_get m0 Snapshot = (m1, snap)" by (cases "m_get m0 Snapshot")
  obtain m2 ex where e2: "m_get m1 (\<lambda>s. Exist ?D s addr) = (m2, ex)" by (cases "m_get m1 (\<lambda>s. Exist ?D s addr)")
  define m3 where "m3 = (if ex then m2 else m_do m2 (\<lambda>s. CreateAccount ?D s addr))"
  define m4 where "m4 = m_do m3 (\<lambda>s. bc_Transfer (e_Context E) s (ref_Address caller) addr val)"
  obtain m5 code where e5: "m_get m4 (\<lambda>s. GetCode ?D s addr) = (m5, code)" by (cases "m_get m4 (\<lambda>s. GetCode ?D s addr)")
  obtain m6 h where e6: "m_get m5 (\<lambda>s. GetCodeHash ?D s addr) = (m6, h)" by (cases "m_get m5 (\<lambda>s. GetCodeHash ?D s addr)")
  have m0: "m_evolves E ?ro m m0" "sdb_eq ?D (m_StateDB m0) (m_StateDB m)"
    using e0 CanTransfer_evolves [OF ok inv] m_evolves_refl [OF inv] m_inv_sdb_eq [OF inv] by (auto split: if_splits)
  note i0 = m_evolves_inv [OF m0(1)]
  note start = call_early(1) [OF m_evolves_refl [OF inv]] call_early(2) [OF m_evolves_refl [OF inv] m_inv_sdb_eq [OF inv]]
    call_early(3) [OF m0]
  show ?thesis
  proof (cases okv)
    case False
    show ?thesis unfolding Call_def Let_def e0 prod.case using False start by (simp del: post_bnd)
  next
    case okv: True
    have m1: "m_evolves E ?ro m0 m1" by (rule m_get_reads(11) [OF ok i0 sn])
    note i1 = m_evolves_inv [OF m1]
    from m_get_reads(1) [OF ok i1 e2] have m2: "m_evolves E ?ro m1 m2" "ex = snd (Exist ?D (m_StateDB m1) addr)" by auto
    note i2 = m_evolves_inv [OF m2(1)]
    have "snd (Exist ?D (m_StateDB m2) addr) = snd (Exist ?D (m_StateDB m1) addr)"
    proof -
      have "sdb_eq ?D (m_StateDB m2) (m_StateDB m1)"
        using e2 getters_sdb_eq(1) [of ?D "m_StateDB m1" addr] i1 by (auto simp: m_get_def m_inv_def sdb_inv_def split: prod.splits)
      then show ?thesis using view_sdb_eq [of ?D "m_StateDB m2" "m_StateDB m1"] i1 i2
        by (simp add: getters_view(1) m_inv_def sdb_inv_def)
    qed
    then have "evolves ?D b (m_StateDB m2) (CreateAccount ?D (m_StateDB m2) addr)" if "\<not> ex" for b
      using evolves_quiet(3) [of ?D "m_StateDB m2" addr] ok i2 m2(2) that by (simp add: env_ok_def m_inv_def)
    then have "m_evolves E ?ro m2 m3"
      using m_evolves_refl [OF i2] m_do_evolves [of E ?ro m2 "\<lambda>s. CreateAccount ?D s addr"] by (simp add: m3_def)
    note m3 = m_evolves_trans [OF m2(1) this i1 ok]
    have "balance ?D (m_StateDB m3) = balance ?D (m_StateDB m2)"
      using balance_CreateAccount [of ?D "m_StateDB m2" addr] i2 ok by (simp add: m3_def m_do_def m_inv_def env_ok_def)
    also have "\<dots> = balance ?D (m_StateDB m)"
      using balance_view [OF m_get_view(1) [OF i1 e2]] balance_view [OF m_get_view(4) [OF i0 sn]] balance_sdb_eq [OF m0(2)] by simp
    finally have "val = 0 \<or> val \<le> balance ?D (m_StateDB m3) (ref_Address caller)"
      using CanTransfer_evolves(3) [OF ok inv] e0 okv by (auto split: if_splits)
    then have "m_evolves E ?ro m3 m4"
      unfolding m4_def using z pos by (intro Transfer_evolves [OF ok m_evolves_inv [OF m3]]) auto
    note m4 = m_evolves_trans [OF m3 this i1 ok]
    have m5: "m_evolves E ?ro m4 m5" by (rule m_get_reads(6) [OF ok m_evolves_inv [OF m4] e5])
    note m5' = m_evolves_trans [OF m4 m5 i1 ok]
    have "m_evolves E ?ro m5 m6" by (rule m_get_reads(5) [OF ok m_evolves_inv [OF m5] e6])
    note m6 = m_evolves_trans [OF m5' this i1 ok]
    have early: "m_evolves E ?ro m m2" using m_evolves_trans [OF m0(1) m_evolves_trans [OF m1 m2(1) i0 ok] inv ok] .
    have c: "unat (c_Gas (SetCallCode (NewContract caller addr (Some val) gas) addr h code)) < n"
      "c_Gas (SetCallCode (NewContract caller addr (Some val) gas) addr h code) \<le> gas"
      using gas by (simp_all add: SetCallCode_def NewContract_def)
    note st = start call_early(1) [OF early] call_precompile [OF ok inv m0 sn m4]
      call_end [OF ok inv m0 sn m5' order_refl] call_run [OF ok R inv m0 sn m6 c]
    show ?thesis
      unfolding Call_def Let_def e0 prod.case sn e2 m3_def [symmetric] m4_def [symmetric] e5 e6 post_if post_option
      by (intro conjI impI allI; rule st; simp)
  qed
qed

lemma CallCode_post:
  assumes ok: "env_ok E" and R: "runner_ok E n R" and inv: "m_inv E m" and gas: "unat gas < n"
  shows "post (CallCode E R m caller addr input gas val) (call_ok E (m_readOnly m) m gas)"
proof -
  let ?D = "e_db E" and ?ro = "m_readOnly m" and ?a = "ref_Address caller"
  obtain m0 okv where e0: "m_get m (\<lambda>s. bc_CanTransfer (e_Context E) s ?a val) = (m0, okv)"
    by (cases "m_get m (\<lambda>s. bc_CanTransfer (e_Context E) s ?a val)")
  obtain m1 snap where sn: "m_get m0 Snapshot = (m1, snap)" by (cases "m_get m0 Snapshot")
  obtain m2 h where e2: "m_get m1 (\<lambda>s. GetCodeHash ?D s addr) = (m2, h)" by (cases "m_get m1 (\<lambda>s. GetCodeHash ?D s addr)")
  obtain m3 code where e3: "m_get m2 (\<lambda>s. GetCode ?D s addr) = (m3, code)" by (cases "m_get m2 (\<lambda>s. GetCode ?D s addr)")
  note m0 = CanTransfer_evolves(1) [OF ok inv e0, of ?ro] CanTransfer_evolves(2) [OF ok inv e0]
  have m1: "m_evolves E ?ro m0 m1" by (rule m_get_reads(11) [OF ok m_evolves_inv [OF m0(1)] sn])
  note i1 = m_evolves_inv [OF m1]
  have m2: "m_evolves E ?ro m1 m2" by (rule m_get_reads(5) [OF ok i1 e2])
  have "m_evolves E ?ro m2 m3" by (rule m_get_reads(6) [OF ok m_evolves_inv [OF m2] e3])
  note m3 = m_evolves_trans [OF m2 this i1 ok]
  let ?c = "SetCallCode (NewContract caller ?a (Some val) gas) addr h code"
  have c: "unat (c_Gas ?c) < n" "c_Gas ?c \<le> gas" using gas by (simp_all add: SetCallCode_def NewContract_def)
  note st = call_early(1) [OF m_evolves_refl [OF inv]] call_early(2) [OF m_evolves_refl [OF inv] m_inv_sdb_eq [OF inv]]
    call_early(3) [OF m0] call_precompile [OF ok inv m0 sn m_evolves_refl [OF i1]] call_run [OF ok R inv m0 sn m3 c]
  show ?thesis
    unfolding CallCode_def Let_def e0 prod.case sn e2 e3 post_if post_option
    by (intro conjI impI allI; rule st; simp)
qed

lemma DelegateCall_post:
  assumes ok: "env_ok E" and R: "runner_ok E n R" and inv: "m_inv E m" and gas: "unat gas < n"
  shows "post (DelegateCall E R m (CallerContract p) addr input gas) (call_ok E (m_readOnly m) m gas)"
proof -
  let ?D = "e_db E" and ?ro = "m_readOnly m" and ?a = "ref_Address (CallerContract p)"
  obtain m1 snap where sn: "m_get m Snapshot = (m1, snap)" by (cases "m_get m Snapshot")
  obtain m2 h where e2: "m_get m1 (\<lambda>s. GetCodeHash ?D s addr) = (m2, h)" by (cases "m_get m1 (\<lambda>s. GetCodeHash ?D s addr)")
  obtain m3 code where e3: "m_get m2 (\<lambda>s. GetCode ?D s addr) = (m3, code)" by (cases "m_get m2 (\<lambda>s. GetCode ?D s addr)")
  note m0 = m_evolves_refl [OF inv] m_inv_sdb_eq [OF inv]
  have m1: "m_evolves E ?ro m m1" by (rule m_get_reads(11) [OF ok inv sn])
  note i1 = m_evolves_inv [OF m1]
  have m2: "m_evolves E ?ro m1 m2" by (rule m_get_reads(5) [OF ok i1 e2])
  have "m_evolves E ?ro m2 m3" by (rule m_get_reads(6) [OF ok m_evolves_inv [OF m2] e3])
  note m3 = m_evolves_trans [OF m2 this i1 ok]
  define c where "c = (NewContract (CallerContract p) ?a None gas)\<lparr>c_CallerAddress := c_CallerAddress p, c_value := c_value p\<rparr>"
  have c: "unat (c_Gas (SetCallCode c addr h code)) < n" "c_Gas (SetCallCode c addr h code) \<le> gas"
    "AsDelegate (CallerContract p) (NewContract (CallerContract p) ?a None gas) = Ok c"
    using gas by (simp_all add: SetCallCode_def NewContract_def c_def AsDelegate_def)
  note st = call_early(1) [OF m_evolves_refl [OF inv]] call_early(2) [OF m_evolves_refl [OF inv] m_inv_sdb_eq [OF inv]]
    call_precompile [OF ok inv m0 sn m_evolves_refl [OF i1]] call_run [OF ok R inv m0 sn m3 c(1,2)]
  show ?thesis
    unfolding DelegateCall_def Let_def prod.case sn e2 e3 c(3) bnd.simps post_if post_option
    by (intro conjI impI allI; rule st; simp)
qed

lemma StaticCall_post:
  assumes ok: "env_ok E" and R: "runner_ok E n R" and inv: "m_inv E m" and gas: "unat gas < n"
  shows "post (StaticCall E R m caller addr input gas) (call_ok E True m gas)"
proof -
  let ?D = "e_db E" and ?ro = True
  obtain m1 snap where sn: "m_get m Snapshot = (m1, snap)" by (cases "m_get m Snapshot")
  define m2 where "m2 = m_do m1 (\<lambda>s. AddBalance ?D s addr 0)"
  obtain m3 h where e3: "m_get m2 (\<lambda>s. GetCodeHash ?D s addr) = (m3, h)" by (cases "m_get m2 (\<lambda>s. GetCodeHash ?D s addr)")
  obtain m4 code where e4: "m_get m3 (\<lambda>s. GetCode ?D s addr) = (m4, code)" by (cases "m_get m3 (\<lambda>s. GetCode ?D s addr)")
  note m0 = m_evolves_refl [OF inv] m_inv_sdb_eq [OF inv]
  have m1: "m_evolves E ?ro m m1" by (rule m_get_reads(11) [OF ok inv sn])
  note i1 = m_evolves_inv [OF m1]
  have m2: "m_evolves E ?ro m1 m2"
    unfolding m2_def using i1 ok by (intro m_do_evolves evolves_quiet) (simp_all add: m_inv_def env_ok_def)
  have m3: "m_evolves E ?ro m2 m3" by (rule m_get_reads(5) [OF ok m_evolves_inv [OF m2] e3])
  have "m_evolves E ?ro m3 m4" by (rule m_get_reads(6) [OF ok m_evolves_inv [OF m3] e4])
  note m4 = m_evolves_trans [OF m_evolves_trans [OF m2 m3 i1 ok] this i1 ok]
  let ?c = "SetCallCode (NewContract caller addr (Some 0) gas) addr h code"
  have c: "unat (c_Gas ?c) < n" "c_Gas ?c \<le> gas" using gas by (simp_all add: SetCallCode_def NewContract_def)
  note st = call_early(1) [OF m_evolves_refl [OF inv]] call_early(2) [OF m_evolves_refl [OF inv] m_inv_sdb_eq [OF inv]]
    call_precompile [OF ok inv m0 sn m2] call_run [OF ok R inv m0 sn m4 c]
  show ?thesis
    unfolding StaticCall_def Let_def prod.case sn m2_def [symmetric] e3 e4 post_if post_option
    by (intro conjI impI allI; rule st; simp)
qed

section \<open>Creations\<close>

text \<open>
  A failed creation leaves the accounts as they were, except that the creator's nonce may have gone up.
\<close>

definition undone :: "'t env \<Rightarrow> address \<Rightarrow> 't machine \<Rightarrow> 't machine \<Rightarrow> bool" where
  "undone E a m m' \<longleftrightarrow> m_view E m' = m_view E m \<or>
     updates_at a (\<lambda>w. w\<lparr>av_nonce := snd (GetNonce (e_db E) (m_StateDB m) a) + 1\<rparr>) (m_view E m) (m_view E m')"

definition create_ok ::
  "'t env \<Rightarrow> ContractRef \<Rightarrow> 't machine \<Rightarrow> u64 \<Rightarrow> 't machine \<times> bytes \<times> address \<times> u64 \<times> vmError option \<Rightarrow> bool" where
  "create_ok E caller m gas = (\<lambda>(m', ret, addr, gas', err).
     m_evolves E (m_readOnly m) m m' \<and> gas' \<le> gas \<and>
     (err \<noteq> None \<and> (r_IsHomestead (e_rules E) \<or> err \<noteq> Some ErrCodeStoreOutOfGas) \<longrightarrow>
        undone E (ref_Address caller) m m' \<and> (gas' = 0 \<or> keeps_gas err)))"

lemma UseGas_le: "c_Gas (fst (UseGas c g)) \<le> c_Gas c"
  by (simp add: UseGas_def word_le_nat_alt word_less_nat_alt unat_sub_le)

text \<open>Changes of the state outside a static context.\<close>

lemma m_do_writes:
  assumes ok: "env_ok E" and inv: "m_inv E m" and w: "\<not> (ro \<and> r_IsByzantium (e_rules E))"
  shows "m_evolves E ro m (m_do m (\<lambda>s. SetNonce (e_db E) s a n))" "m_evolves E ro m (m_do m (\<lambda>s. SetCode (e_db E) s a c))"
    "m_evolves E ro m (m_do m (\<lambda>s. SetState (e_db E) s a k v))" "m_evolves E ro m (m_do m (\<lambda>s. CreateAccount (e_db E) s a))"
    "m_evolves E ro m (m_do m (\<lambda>s. AddLog s lg))"
  by (rule m_do_evolves, rule evolves_writes [OF _ _ w]; use ok inv in \<open>simp add: env_ok_def m_inv_def\<close>)+

lemma m_do_quiet:
  assumes ok: "env_ok E" and inv: "m_inv E m"
  shows "m_evolves E ro m (m_do m (\<lambda>s. AddAddressToAccessList s a))" "m_evolves E ro m (m_do m (\<lambda>s. AddPreimage s h p))"
    "m_evolves E ro m (m_do m (\<lambda>s. AddRefund s g))"
  by (rule m_do_evolves, rule evolves_quiet; use ok inv in \<open>simp add: env_ok_def m_inv_def\<close>)+

lemma storeCode_post:
  assumes ok: "env_ok E" and inv: "m_inv E m" and w: "\<not> (ro \<and> r_IsByzantium (e_rules E))"
    and s: "storeCode E address m c ret err = (m', c', err')"
  shows "m_evolves E ro m m'" "c_Gas c' \<le> c_Gas c"
proof -
  obtain c1 b where u: "UseGas c (of_nat (length ret) * CreateDataGas) = (c1, b)" by fastforce
  have "(m' = m \<or> m' = m_do m (\<lambda>s. SetCode (e_db E) s address ret)) \<and> (c' = c \<or> c' = c1)"
    using s unfolding storeCode_def Let_def u by (auto split: if_splits bool.splits)
  moreover have "c1 = fst (UseGas c (of_nat (length ret) * CreateDataGas))" by (simp add: u)
  ultimately show "m_evolves E ro m m'" "c_Gas c' \<le> c_Gas c"
    using m_evolves_refl [OF inv] m_do_writes(2) [OF ok inv w] UseGas_le by auto
qed

lemma create_end:
  assumes ok: "env_ok E" and inv: "m_inv E m" and i0: "m_inv E m0" and m0: "m_evolves E (m_readOnly m) m m0"
    and und: "undone E (ref_Address caller) m m0"
    and sn: "m_get m0 Snapshot = (m1, snap)" and ev: "m_evolves E (m_readOnly m) m1 m2" and g: "c_Gas c \<le> gas"
    and b: "b \<longleftrightarrow> err \<noteq> None \<and> (r_IsHomestead (e_rules E) \<or> err \<noteq> Some ErrCodeStoreOutOfGas)"
  shows "post (if b then bnd (m_try m2 (\<lambda>s. RevertToSnapshot (e_db E) s snap)) (\<lambda>m. Ok (m, ret, address,
      c_Gas (if err \<noteq> Some ErrExecutionReverted then fst (UseGas c (c_Gas c)) else c), err))
    else Ok (m2, ret, address, c_Gas c, err)) (create_ok E caller m gas)"
proof -
  have inj: "addrHash_inj (e_db E)" and i: "sdb_inv (e_db E) (m_StateDB m0)" using ok i0 by (simp_all add: env_ok_def m_inv_def)
  have m1: "Snapshot (m_StateDB m0) = (m_StateDB m1, snap)" "m_depth m1 = m_depth m0" "m_readOnly m1 = m_readOnly m0"
    using sn by (auto simp: m_get_def split: prod.splits)
  have e: "evolves (e_db E) (m_readOnly m \<and> r_IsByzantium (e_rules E)) (m_StateDB m1) (m_StateDB m2)"
    "m_depth m2 = m_depth m1" "m_readOnly m2 = m_readOnly m1" using ev by (simp_all add: m_evolves_def)
  from evolves_revert [OF i inj m1(1) e(1)] obtain u where
    u: "RevertToSnapshot (e_db E) (m_StateDB m2) snap = Ok u" "sdb_eq (e_db E) u (m_StateDB m0)"
      "evolves (e_db E) (m_readOnly m \<and> r_IsByzantium (e_rules E)) (m_StateDB m0) u" by blast
  have "m_evolves E (m_readOnly m) m0 (m2\<lparr>m_StateDB := u\<rparr>)" using u(3) e m1 by (simp add: m_evolves_def)
  note r = m_evolves_trans [OF m0 this inv ok]
  have und': "undone E (ref_Address caller) m (m2\<lparr>m_StateDB := u\<rparr>)"
    using und view_sdb_eq [OF u(2)] by (simp add: undone_def)
  have g': "c_Gas (fst (UseGas c (c_Gas c))) = 0" by (simp add: UseGas_def)
  have m2: "m_evolves E (m_readOnly m) m m2"
    by (rule m_evolves_trans [OF m0 m_evolves_trans [OF m_get_reads(11) [OF ok i0 sn] ev i0 ok] inv ok])
  show ?thesis using r und' g' g m2 b by (simp add: create_ok_def m_try_def u(1) keeps_gas_def)
qed

lemma create_post:
  assumes ok: "env_ok E" and R: "runner_ok E n R" and inv: "m_inv E m" and gas: "unat gas < n"
    and w: "\<not> (m_readOnly m \<and> r_IsByzantium (e_rules E))" and pos: "0 \<le> val"
  shows "post (create E R m caller ch gas val address) (create_ok E caller m gas)"
proof -
  let ?D = "e_db E" and ?ro = "m_readOnly m" and ?a = "ref_Address caller"
  obtain m0 okv where e0: "m_get m (\<lambda>s. bc_CanTransfer (e_Context E) s ?a val) = (m0, okv)"
    by (cases "m_get m (\<lambda>s. bc_CanTransfer (e_Context E) s ?a val)")
  obtain m1 nonce where e1: "m_get m0 (\<lambda>s. GetNonce ?D s ?a) = (m1, nonce)" by (cases "m_get m0 (\<lambda>s. GetNonce ?D s ?a)")
  define m2 where "m2 = m_do m1 (\<lambda>s. SetNonce ?D s ?a (nonce + 1))"
  define m3 where "m3 = (if r_IsBerlin (e_rules E) then m_do m2 (\<lambda>s. AddAddressToAccessList s address) else m2)"
  obtain m4 h where e4: "m_get m3 (\<lambda>s. GetCodeHash ?D s address) = (m4, h)" by (cases "m_get m3 (\<lambda>s. GetCodeHash ?D s address)")
  obtain m5 k where e5: "m_get m4 (\<lambda>s. GetNonce ?D s address) = (m5, k)" by (cases "m_get m4 (\<lambda>s. GetNonce ?D s address)")
  obtain m6 snap where sn: "m_get m5 Snapshot = (m6, snap)" by (cases "m_get m5 Snapshot")
  define m7 where "m7 = m_do m6 (\<lambda>s. CreateAccount ?D s address)"
  define m8 where "m8 = (if r_IsEIP158 (e_rules E) then m_do m7 (\<lambda>s. SetNonce ?D s address 1) else m7)"
  define m9 where "m9 = m_do m8 (\<lambda>s. bc_Transfer (e_Context E) s ?a address val)"
  define c where "c = SetCodeOptionalHash (NewContract caller address (Some val) gas) address ch"
  note tr = m_evolves_trans [OF _ _ inv ok]
  note m0 = CanTransfer_evolves(1) [OF ok inv e0, of ?ro] CanTransfer_evolves(2,3) [OF ok inv e0]
  have v0: "m_view E m0 = m_view E m" by (rule view_sdb_eq [OF m0(2)])
  have start: "post (Ok (m, ret, a, gas, Some ErrDepth)) (create_ok E caller m gas)"
    "post (Ok (m0, ret, a, gas, Some ErrInsufficientBalance)) (create_ok E caller m gas)" for ret a
    using m_evolves_refl [OF inv] m0 v0 by (simp_all add: create_ok_def undone_def keeps_gas_def)
  show ?thesis
  proof (cases okv)
    case False
    show ?thesis unfolding create_def Let_def e0 prod.case using False start by (simp del: post_bnd)
  next
    case okv: True
    have m1: "m_evolves E ?ro m m1" by (rule tr [OF m0(1) m_get_reads(4) [OF ok m_evolves_inv [OF m0(1)] e1]])
    have m2: "m_evolves E ?ro m m2"
      unfolding m2_def by (rule tr [OF m1 m_do_writes(1) [OF ok m_evolves_inv [OF m1] w]])
    have m3: "m_evolves E ?ro m m3"
      unfolding m3_def using m2 tr [OF m2 m_do_quiet(1) [OF ok m_evolves_inv [OF m2]]] by simp
    have m4: "m_evolves E ?ro m m4" by (rule tr [OF m3 m_get_reads(5) [OF ok m_evolves_inv [OF m3] e4]])
    have m5: "m_evolves E ?ro m m5" by (rule tr [OF m4 m_get_reads(4) [OF ok m_evolves_inv [OF m4] e5]])
    note i5 = m_evolves_inv [OF m5]
    have inj: "addrHash_inj ?D" using ok by (simp add: env_ok_def)
    have v1: "m_view E m1 = m_view E m" using m_get_view(2) [OF m_evolves_inv [OF m0(1)] e1] v0 by simp
    have n: "nonce = snd (GetNonce ?D (m_StateDB m) ?a)"
    proof -
      have "nonce = snd (GetNonce ?D (m_StateDB m0) ?a)" using e1 by (auto simp: m_get_def split: prod.splits)
      then show ?thesis using v0 inv m_evolves_inv [OF m0(1)] by (simp add: getters_view(3) m_inv_def inv_wf)
    qed
    have u2: "updates_at ?a (\<lambda>w. w\<lparr>av_nonce := nonce + 1\<rparr>) (m_view E m) (m_view E m2)"
      using view_SetNonce [of ?D "m_StateDB m1" ?a "nonce + 1"] m_evolves_inv [OF m1] inj v1 by (simp add: m2_def m_do_def m_inv_def)
    have "m_view E m3 = m_view E m2"
    proof -
      have "look ?D (AddAddressToAccessList s a) = look ?D s" for s a
        by (rule look_frame) (simp_all add: AddAddressToAccessList_def Let_def split: prod.split)
      then show ?thesis
        by (simp add: m3_def m_do_def view_def account_def fun_eq_iff AddAddressToAccessList_def Let_def split: prod.split)
    qed
    then have v5: "m_view E m5 = m_view E m2"
      using m_get_view(3) [OF m_evolves_inv [OF m3] e4] m_get_view(2) [OF m_evolves_inv [OF m4] e5] by simp
    then have und: "undone E ?a m m5" using u2 n by (simp add: undone_def)
    have m6: "m_evolves E ?ro m5 m6" by (rule m_get_reads(11) [OF ok i5 sn])
    note i6 = m_evolves_inv [OF m6] and tr6 = m_evolves_trans [OF _ _ m_evolves_inv [OF m6] ok]
    have m7: "m_evolves E ?ro m6 m7" unfolding m7_def by (rule m_do_writes(4) [OF ok i6 w])
    have m8: "m_evolves E ?ro m6 m8"
      unfolding m8_def using m7 tr6 [OF m7 m_do_writes(1) [OF ok m_evolves_inv [OF m7] w]] by simp
    have "balance ?D (m_StateDB m8) = balance ?D (m_StateDB m6)"
      using balance_setters(3) [of ?D "m_StateDB m7" address 1] balance_CreateAccount [of ?D "m_StateDB m6" address]
        m_evolves_inv [OF m7] i6 inj by (simp add: m8_def m7_def m_do_def m_inv_def)
    also have "\<dots> = balance ?D (m_StateDB m2)" using balance_view [OF m_get_view(4) [OF i5 sn]] balance_view [OF v5] by simp
    also have "\<dots> = balance ?D (m_StateDB m)"
      using balance_setters(3) [of ?D "m_StateDB m1" ?a] m_evolves_inv [OF m1] inj balance_view [OF v1]
      by (simp add: m2_def m_do_def m_inv_def)
    finally have cover: "val \<le> balance ?D (m_StateDB m8) ?a" using m0(3) okv by simp
    have m9: "m_evolves E ?ro m6 m9"
      unfolding m9_def by (rule tr6 [OF m8 Transfer_evolves [OF ok m_evolves_inv [OF m8] _ pos]]) (use w cover in simp_all)
    have ro: "m_readOnly m9 = ?ro" using m9 m6 m5 by (simp add: m_evolves_def)
    have c: "unat (c_Gas c) < n" "c_Gas c = gas" using gas by (simp_all add: c_def SetCodeOptionalHash_def NewContract_def)
    let ?m = "m9\<lparr>m_jumpdests := newJumpdests caller (m_jumpdests m9)\<rparr>"
    have run: "post (bnd (R ?m c [] False) (\<lambda>(m, c, ret, err).
         case storeCode E address m c ret err of (m, c, err) \<Rightarrow>
           if err \<noteq> None \<and> (r_IsHomestead (e_rules E) \<or> err \<noteq> Some ErrCodeStoreOutOfGas) then
             bnd (m_try m (\<lambda>s. RevertToSnapshot ?D s snap)) (\<lambda>m. Ok (m, ret, address,
               c_Gas (if err \<noteq> Some ErrExecutionReverted then fst (UseGas c (c_Gas c)) else c), err))
           else Ok (m, ret, address, c_Gas c, err))) (create_ok E caller m gas)"
      unfolding post_bnd
    proof (rule post_mono [OF runner_okD [OF R _ c(1)]])
      show "m_inv E ?m" using m_evolves_inv [OF m9] by (simp add: m_inv_def)
    next
      fix r :: "_ \<times> Contract \<times> bytes \<times> vmError option"
      assume r: "case r of (m', c', ret, err) \<Rightarrow> m_evolves E (m_readOnly ?m \<or> False) ?m m' \<and> c_Gas c' \<le> c_Gas c"
      obtain m10 c10 ret err where rr: "r = (m10, c10, ret, err)" by (cases r) auto
      have e10: "m_evolves E ?ro m9 m10" and g10: "c_Gas c10 \<le> gas" using r ro c(2) by (simp_all add: rr m_evolves_def)
      have m10: "m_evolves E ?ro m6 m10" by (rule tr6 [OF m9 e10])
      obtain m11 c11 err' where st: "storeCode E address m10 c10 ret err = (m11, c11, err')"
        by (cases "storeCode E address m10 c10 ret err") auto
      note s = storeCode_post [OF ok m_evolves_inv [OF m10] w st]
      show "post (case r of (m, c, ret, err) \<Rightarrow> case storeCode E address m c ret err of (m, c, err) \<Rightarrow>
           if err \<noteq> None \<and> (r_IsHomestead (e_rules E) \<or> err \<noteq> Some ErrCodeStoreOutOfGas) then
             bnd (m_try m (\<lambda>s. RevertToSnapshot ?D s snap)) (\<lambda>m. Ok (m, ret, address,
               c_Gas (if err \<noteq> Some ErrExecutionReverted then fst (UseGas c (c_Gas c)) else c), err))
           else Ok (m, ret, address, c_Gas c, err)) (create_ok E caller m gas)"
        unfolding rr prod.case st
        by (rule create_end [OF ok inv i5 m5 und sn tr6 [OF m10 s(1)] order_trans [OF s(2) g10] refl])
    qed
    have st: "post (Ok (m5, ret, a, 0, e)) (create_ok E caller m gas)" "post (Ok (m9, ret, a, gas, None)) (create_ok E caller m gas)"
      for ret a e
      using m5 und tr [OF m5 m_evolves_trans [OF m6 m9 i5 ok]] by (simp_all add: create_ok_def)
    show ?thesis
      unfolding create_def Let_def e0 prod.case e1 m2_def [symmetric] m3_def [symmetric] e4 e5 sn m7_def [symmetric]
        m8_def [symmetric] m9_def [symmetric] c_def [symmetric] post_if
      by (intro conjI impI; rule start st run)
  qed
qed

lemma CreateAddress_fuel: "CreateAddress k b nonce \<noteq> NoFuel"
proof -
  let ?v = "VSlice [VArray (address_Bytes b), VUint nonce]"
  have "length (big_bytes (uint nonce)) \<le> 8"
    using byte_len_u64 [of nonce] by (simp add: length_big_bytes byte_len_def)
  then have "length (rlp_string (big_bytes (uint nonce))) \<le> 17" "length (rlp_string (address_Bytes b)) \<le> 29"
    using length_rlp_string_le [of "big_bytes (uint nonce)"] length_rlp_string_le [of "address_Bytes b"] by simp_all
  then have "length (rlp_enc ?v) \<le> 55"
    using length_rlp_list_le [of "rlp_string (address_Bytes b) @ rlp_string (big_bytes (uint nonce))"] by simp
  then have "length (rlp_enc ?v) < 2 ^ 64" by simp
  then have "EncodeToBytes ?v = Ok (Inr (rlp_enc ?v))" by (intro EncodeToBytes_eq) simp_all
  then show ?thesis by (simp add: CreateAddress_def Let_def)
qed

lemma create_ok_before:
  assumes "create_ok E caller m' gas r" "m_evolves E (m_readOnly m) m m'" "m_inv E m" "env_ok E" "m_view E m' = m_view E m"
  shows "create_ok E caller m gas r"
proof -
  obtain m2 ret a g err where r: "r = (m2, ret, a, g, err)" by (cases r) auto
  have "m_evolves E (m_readOnly m) m' m2" using assms(1,2) by (simp add: create_ok_def r m_evolves_def)
  note ev = m_evolves_trans [OF assms(2) this assms(3,4)]
  have "snd (GetNonce (e_db E) (m_StateDB m') b) = snd (GetNonce (e_db E) (m_StateDB m) b)" for b
    using assms(3,5) m_evolves_inv [OF assms(2)] by (simp add: getters_view(3) m_inv_def inv_wf)
  then show ?thesis using assms(1,5) ev by (simp add: create_ok_def undone_def r)
qed

lemma Create_post:
  assumes ok: "env_ok E" and R: "runner_ok E n R" and inv: "m_inv E m" and gas: "unat gas < n"
    and w: "\<not> (m_readOnly m \<and> r_IsByzantium (e_rules E))" and pos: "0 \<le> val"
  shows "post (Create E R m caller code gas val) (create_ok E caller m gas)"
proof -
  let ?a = "ref_Address caller"
  obtain m1 nonce where e: "m_get m (\<lambda>s. GetNonce (e_db E) s ?a) = (m1, nonce)"
    by (cases "m_get m (\<lambda>s. GetNonce (e_db E) s ?a)")
  have m1: "m_evolves E (m_readOnly m) m m1" by (rule m_get_reads(4) [OF ok inv e])
  then have "\<not> (m_readOnly m1 \<and> r_IsByzantium (e_rules E))" using w by (simp add: m_evolves_def)
  note c = create_post [OF ok R m_evolves_inv [OF m1] gas this pos]
  have "post (create E R m1 caller ch gas val x) (create_ok E caller m gas)" for ch x
    using c [of caller ch x] by (rule post_mono) (rule create_ok_before [OF _ m1 inv ok m_get_view(2) [OF inv e]])
  then show ?thesis
    unfolding Create_def Let_def e prod.case post_bnd by (intro post_const [OF CreateAddress_fuel])
qed

lemma Create2_post:
  assumes "env_ok E" "runner_ok E n R" "m_inv E m" "unat gas < n" "\<not> (m_readOnly m \<and> r_IsByzantium (e_rules E))" "0 \<le> val"
  shows "post (Create2 E R m caller code gas val salt) (create_ok E caller m gas)"
  unfolding Create2_def Let_def by (rule create_post [OF assms])

end
