(* ===== verification/OpEffects.thy ===== *)
theory OpEffects
  imports EvmEffects
begin

text \<open>
  What every instruction does to the machine, the stack, the memory and the gas: its stack effect,
  that it keeps the size of the memory, and that only calls and creations change the gas.
\<close>

definition v_evolves :: "'t env \<Rightarrow> bool \<Rightarrow> 't vm \<Rightarrow> 't vm \<Rightarrow> bool" where
  "v_evolves E ro v v' \<longleftrightarrow>
     m_evolves E ro (v_m v) (v_m v') \<and> length (mem_store (v_mem v')) = length (mem_store (v_mem v)) \<and>
     mem_lastGasCost (v_mem v') = mem_lastGasCost (v_mem v)"

abbreviation gas_of :: "'t vm \<Rightarrow> nat" where
  "gas_of v \<equiv> unat (c_Gas (v_contract v))"

abbreviation v_inv :: "'t env \<Rightarrow> 't vm \<Rightarrow> bool" where
  "v_inv E v \<equiv> m_inv E (v_m v)"

text \<open>
  An instruction that pops and pushes the given numbers of items.  With \<open>ro\<close> it leaves the accounts
  alone.
\<close>

definition op_post :: "'t env \<Rightarrow> bool \<Rightarrow> nat \<Rightarrow> nat \<Rightarrow> 't vm \<Rightarrow> 't vm \<times> bytes \<times> vmError option \<Rightarrow> bool" where
  "op_post E ro pops push v = (\<lambda>(v', res, err).
     v_evolves E ro v v' \<and> c_Gas (v_contract v') = c_Gas (v_contract v) \<and>
     (err = None \<longrightarrow> length (v_stack v') + pops = length (v_stack v) + push))"

definition op_ok :: "'t env \<Rightarrow> bool \<Rightarrow> nat \<Rightarrow> nat \<Rightarrow> 't executionFunc \<Rightarrow> bool" where
  "op_ok E ro pops push f \<longleftrightarrow> (\<forall>R v. v_inv E v \<longrightarrow> post (f E R v) (op_post E ro pops push v))"

lemma op_okI:
  assumes "\<And>R v. v_inv E v \<Longrightarrow> post (f E R v) (op_post E ro pops push v)"
  shows "op_ok E ro pops push f"
  using assms by (simp add: op_ok_def)

lemma op_post_iff: "op_post E ro pops push v (v', res, err) \<longleftrightarrow>
    v_evolves E ro v v' \<and> c_Gas (v_contract v') = c_Gas (v_contract v) \<and>
    (err = None \<longrightarrow> length (v_stack v') + pops = length (v_stack v) + push)"
  by (simp add: op_post_def)

lemma v_evolves_refl: "v_inv E v \<Longrightarrow> v_evolves E ro v v"
  by (simp add: v_evolves_def m_evolves_refl)

lemma v_evolves_simps [simp]:
  "v_evolves E ro v (v'\<lparr>v_stack := st\<rparr>) = v_evolves E ro v v'"
  "v_evolves E ro v (v'\<lparr>v_pc := pc\<rparr>) = v_evolves E ro v v'"
  "v_evolves E ro v (v'\<lparr>v_contract := c\<rparr>) = v_evolves E ro v v'"
  "v_evolves E ro (v\<lparr>v_stack := st\<rparr>) v' = v_evolves E ro v v'"
  "v_evolves E ro (v\<lparr>v_contract := c\<rparr>) v' = v_evolves E ro v v'"
  "v_evolves E ro v (v'\<lparr>v_m := (v_m v')\<lparr>m_jumpdests := jd\<rparr>\<rparr>) = v_evolves E ro v v'"
  "v_evolves E ro v (v'\<lparr>v_m := (v_m v')\<lparr>m_returnData := rd\<rparr>\<rparr>) = v_evolves E ro v v'"
  "v_evolves E ro v (v'\<lparr>v_m := (v_m v')\<lparr>m_callGasTemp := g\<rparr>\<rparr>) = v_evolves E ro v v'"
  "v_evolves E ro v (v'\<lparr>v_m := (v_m v')\<lparr>m_polls := k\<rparr>\<rparr>) = v_evolves E ro v v'"
  by (simp_all add: v_evolves_def m_evolves_def)

lemma v_evolves_trans:
  assumes "v_evolves E ro v v1" "v_evolves E ro v1 v2" "v_inv E v" "env_ok E"
  shows "v_evolves E ro v v2"
  using assms m_evolves_trans [of E ro "v_m v" "v_m v1" "v_m v2"] by (simp add: v_evolves_def)

lemma v_evolves_weaken: "v_evolves E True v v' \<Longrightarrow> v_evolves E ro v v'"
  unfolding v_evolves_def using m_evolves_weaken by blast

lemma v_evolves_setMem:
  assumes "v_evolves E ro v v'" "length (mem_store mem) = length (mem_store (v_mem v'))"
    "mem_lastGasCost mem = mem_lastGasCost (v_mem v')"
  shows "v_evolves E ro v (setMem v' mem)"
  using assms by (simp add: v_evolves_def setMem_def)

lemma setMem_sel [simp]: "v_contract (setMem v mem) = v_contract v" "v_stack (setMem v mem) = v_stack v" "v_m (setMem v mem) = v_m v"
  by (simp_all add: setMem_def)

lemma v_do_sel [simp]:
  "v_contract (v_do v f) = v_contract v" "v_stack (v_do v f) = v_stack v" "v_mem (v_do v f) = v_mem v"
  "v_m (v_do v f) = m_do (v_m v) f" "v_pc (v_do v f) = v_pc v"
  by (simp_all add: v_do_def)

lemma v_do_evolves: "m_evolves E ro (v_m v) (m_do (v_m v) f) \<Longrightarrow> v_evolves E ro v (v_do v f)"
  by (simp add: v_evolves_def)

lemma v_getE:
  assumes "v_get v f = (v', x)"
  obtains m where "m_get (v_m v) f = (m, x)" "v' = v\<lparr>v_m := m\<rparr>"
  using assms by (auto simp: v_get_def split: prod.splits)

lemma v_get_evolves:
  assumes "v_get v f = (v', x)" "\<And>m. m_get (v_m v) f = (m, x) \<Longrightarrow> m_evolves E ro (v_m v) m"
  shows "v_evolves E ro v v'" "v_contract v' = v_contract v" "v_stack v' = v_stack v" "v_mem v' = v_mem v" "v_pc v' = v_pc v"
  using assms by (auto elim!: v_getE simp: v_evolves_def)

lemma v_get_reads:
  assumes ok: "env_ok E" and inv: "v_inv E v"
  shows "v_get v (\<lambda>s. Exist (e_db E) s a) = (v', b) \<Longrightarrow> v_evolves E ro v v'"
    "v_get v (\<lambda>s. Empty (e_db E) s a) = (v', b) \<Longrightarrow> v_evolves E ro v v'"
    "v_get v (\<lambda>s. GetBalance (e_db E) s a) = (v', i) \<Longrightarrow> v_evolves E ro v v'"
    "v_get v (\<lambda>s. GetCodeHash (e_db E) s a) = (v', h) \<Longrightarrow> v_evolves E ro v v'"
    "v_get v (\<lambda>s. GetCode (e_db E) s a) = (v', c) \<Longrightarrow> v_evolves E ro v v'"
    "v_get v (\<lambda>s. GetCodeSize (e_db E) s a) = (v', i) \<Longrightarrow> v_evolves E ro v v'"
    "v_get v (\<lambda>s. HasSuicided (e_db E) s a) = (v', b) \<Longrightarrow> v_evolves E ro v v'"
    "v_get v (\<lambda>s. GetState (e_db E) s a k) = (v', h) \<Longrightarrow> v_evolves E ro v v'"
    "v_get v (\<lambda>s. GetCommittedState (e_db E) s a k) = (v', h) \<Longrightarrow> v_evolves E ro v v'"
  using m_get_reads [OF ok inv] by (auto elim!: v_getE simp: v_evolves_def)

lemma v_get_frame:
  assumes "v_get v f = (v', x)"
  shows "v_contract v' = v_contract v" "v_stack v' = v_stack v" "v_mem v' = v_mem v" "v_pc v' = v_pc v"
  using assms by (auto elim!: v_getE)

section \<open>Instructions on the stack\<close>

lemma nxt_post [simp]: "post (nxt v st) Q = Q (v\<lparr>v_stack := st\<rparr>, [], None)"
  by (simp add: nxt_def)

lemma stack_ops_ok:
  "(\<And>R v. f E R v = unop g v) \<Longrightarrow> op_ok E ro 1 1 f"
  "(\<And>R v. f E R v = binop g2 v) \<Longrightarrow> op_ok E ro 2 1 f"
  "(\<And>R v. f E R v = triop g3 v) \<Longrightarrow> op_ok E ro 3 1 f"
  "(\<And>R v. f E R v = pushop (h v) v) \<Longrightarrow> op_ok E ro 0 1 f"
  by (rule op_okI, simp add: op_post_iff unop_def binop_def triop_def pushop_def v_evolves_refl split: list.split)+

lemma pushBig_ok: "(\<And>R v. f E R v = pushBig E (h v) v) \<Longrightarrow> op_ok E ro 0 1 f"
  by (rule op_okI) (simp add: op_post_iff pushBig_def pushop_def v_evolves_refl split: option.split)

lemmas arith_defs = opAdd_def opSub_def opMul_def opDiv_def opSdiv_def opMod_def opSmod_def opExp_def opSignExtend_def
  opNot_def opLt_def opGt_def opSlt_def opSgt_def opEq_def opIszero_def opAnd_def opOr_def opXor_def opByte_def
  opAddmod_def opMulmod_def opSHL_def opSHR_def opSAR_def

lemma arith_ok:
  "op_ok E ro 2 1 opAdd" "op_ok E ro 2 1 opSub" "op_ok E ro 2 1 opMul" "op_ok E ro 2 1 opDiv" "op_ok E ro 2 1 opSdiv"
  "op_ok E ro 2 1 opMod" "op_ok E ro 2 1 opSmod" "op_ok E ro 2 1 opExp" "op_ok E ro 2 1 opSignExtend"
  "op_ok E ro 1 1 opNot" "op_ok E ro 2 1 opLt" "op_ok E ro 2 1 opGt" "op_ok E ro 2 1 opSlt" "op_ok E ro 2 1 opSgt"
  "op_ok E ro 2 1 opEq" "op_ok E ro 1 1 opIszero" "op_ok E ro 2 1 opAnd" "op_ok E ro 2 1 opOr" "op_ok E ro 2 1 opXor"
  "op_ok E ro 2 1 opByte" "op_ok E ro 3 1 opAddmod" "op_ok E ro 3 1 opMulmod" "op_ok E ro 2 1 opSHL"
  "op_ok E ro 2 1 opSHR" "op_ok E ro 2 1 opSAR"
  by (rule stack_ops_ok, rule arith_defs)+

lemma push_ok:
  "op_ok E ro 0 1 opAddress" "op_ok E ro 0 1 opOrigin" "op_ok E ro 0 1 opCaller" "op_ok E ro 0 1 opCallValue"
  "op_ok E ro 0 1 opCallDataSize" "op_ok E ro 0 1 opReturnDataSize" "op_ok E ro 0 1 opCodeSize" "op_ok E ro 0 1 opGasprice"
  "op_ok E ro 1 1 opBlockhash" "op_ok E ro 0 1 opCoinbase" "op_ok E ro 0 1 opTimestamp" "op_ok E ro 0 1 opNumber"
  "op_ok E ro 0 1 opDifficulty" "op_ok E ro 0 1 opGasLimit" "op_ok E ro 0 1 opChainID" "op_ok E ro 0 1 opBaseFee"
  "op_ok E ro 0 1 opPc" "op_ok E ro 0 1 opMsize" "op_ok E ro 0 1 opGas"
  unfolding pushLen_def
  by ((rule stack_ops_ok pushBig_ok), simp only: opAddress_def opOrigin_def opCaller_def opCallValue_def opCallDataSize_def
      opReturnDataSize_def opCodeSize_def opGasprice_def opBlockhash_def opCoinbase_def opTimestamp_def opNumber_def
      opDifficulty_def opGasLimit_def opChainID_def opBaseFee_def opPc_def opMsize_def opGas_def pushLen_def)+

section \<open>Instructions on memory and code\<close>

lemma Memory_ptr_fuel [simp]: "Memory_GetPtr m x y \<noteq> NoFuel" "Memory_GetCopy m x y \<noteq> NoFuel"
  by (simp_all add: Memory_GetPtr_def Memory_GetCopy_def)

lemma Memory_Set_post:
  "post (Memory_Set m x n d) (\<lambda>mem. length (mem_store mem) = length (mem_store m) \<and> mem_lastGasCost mem = mem_lastGasCost m)"
  by (simp add: Memory_Set_def)

lemma Memory_Set32_post:
  assumes "uint256_ok U"
  shows "post (Memory_Set32 U m x y) (\<lambda>mem. length (mem_store mem) = length (mem_store m) \<and> mem_lastGasCost mem = mem_lastGasCost m)"
  using assms by (simp add: Memory_Set32_def uint256_ok_def Let_def min_def)

lemma set_post:
  assumes m: "post r (\<lambda>mem. length (mem_store mem) = length (mem_store (v_mem v1)) \<and> mem_lastGasCost mem = mem_lastGasCost (v_mem v1))"
    and v1: "v_evolves E ro v v1" "v_contract v1 = v_contract v"
    and l: "length st + pops = length (v_stack v) + push"
  shows "post (bnd r (\<lambda>mem. nxt (setMem v1 mem) st)) (op_post E ro pops push v)"
  unfolding post_bnd
  by (rule post_mono [OF m]) (use v1 l in \<open>auto intro: v_evolves_setMem simp: op_post_iff\<close>)

lemma copyOp_post:
  assumes "v_evolves E ro v v1" "v_contract v1 = v_contract v" "length st + pops = length (v_stack v) + push"
  shows "post (copyOp E data a b c st v1) (op_post E ro pops push v)"
  unfolding copyOp_def Let_def
  by (cases "u_Uint64WithOverflow (e_U E) b", simp only: prod.case, subst post_bnd, rule post_const [OF getData_fuel])
    (rule set_post [OF Memory_Set_post assms])

lemma copy_ok:
  assumes ok: "env_ok E"
  shows "op_ok E ro 3 0 opCallDataCopy" "op_ok E ro 3 0 opCodeCopy" "op_ok E ro 4 0 opExtCodeCopy"
    "op_ok E ro 3 0 opReturnDataCopy"
proof -
  show "op_ok E ro 3 0 opCallDataCopy" "op_ok E ro 3 0 opCodeCopy"
    by (rule op_okI, unfold opCallDataCopy_def opCodeCopy_def;
        auto split: list.split intro!: copyOp_post v_evolves_refl)+
  show "op_ok E ro 4 0 opExtCodeCopy"
  proof (rule op_okI)
    fix R :: "'a runner" and v :: "'a vm" assume inv: "v_inv E v"
    show "post (opExtCodeCopy E R v) (op_post E ro 4 0 v)"
      unfolding opExtCodeCopy_def
      by (auto split: list.split prod.split intro!: copyOp_post dest: v_get_frame v_get_reads(5) [OF ok inv])
  qed
  show "op_ok E ro 3 0 opReturnDataCopy"
  proof (rule op_okI)
    fix R :: "'a runner" and v :: "'a vm" assume inv: "v_inv E v"
    have e: "v_evolves E ro v (v\<lparr>v_stack := st\<rparr>)" "v_contract (v\<lparr>v_stack := st\<rparr>) = v_contract v" for st
      using v_evolves_refl [OF inv] by simp_all
    show "post (opReturnDataCopy E R v) (op_post E ro 3 0 v)"
      unfolding opReturnDataCopy_def Let_def
      using v_evolves_refl [OF inv]
      by (auto split: list.split prod.split simp: op_post_iff simp del: post_bnd
          intro!: set_post [OF _ e]) (simp_all add: Memory_Set_post)
  qed
qed

lemma memory_ok:
  assumes ok: "env_ok E"
  shows "op_ok E ro 2 1 opSha3" "op_ok E ro 1 1 opMload" "op_ok E ro 2 0 opMstore" "op_ok E ro 2 0 opMstore8"
    "op_ok E ro 2 0 opReturn" "op_ok E ro 2 0 opRevert" "op_ok E ro 1 1 opCallDataLoad"
proof -
  have ptr: "post (bnd (Memory_GetPtr m x y) g) Q" if "\<And>d. post (g d) Q" for m x y Q
    and g :: "bytes \<Rightarrow> 'c outcome"
    using that by (simp add: post_const)
  show "op_ok E ro 2 1 opSha3"
  proof (rule op_okI)
    fix R :: "'a runner" and v :: "'a vm" assume inv: "v_inv E v"
    note q = v_do_evolves [OF m_do_quiet(2) [OF ok inv]] v_evolves_refl [OF inv]
    show "post (opSha3 E R v) (op_post E ro 2 1 v)"
      unfolding opSha3_def Let_def
      by (auto split: list.split intro!: ptr simp: op_post_iff q simp del: post_bnd)
  qed
  show "op_ok E ro 1 1 opMload" "op_ok E ro 2 0 opReturn" "op_ok E ro 2 0 opRevert"
    unfolding opMload_def [abs_def] opReturn_def [abs_def] opRevert_def [abs_def] returnRange_def
    by (rule op_okI; auto split: list.split intro!: ptr simp: op_post_iff v_evolves_refl simp del: post_bnd)+
  have u: "uint256_ok (e_U E)" using ok by (simp add: env_ok_def)
  show "op_ok E ro 2 0 opMstore"
    unfolding opMstore_def [abs_def]
    by (rule op_okI; auto split: list.split intro!: set_post [OF Memory_Set32_post [OF u]] simp: v_evolves_refl simp del: post_bnd)
  show "op_ok E ro 2 0 opMstore8"
    unfolding opMstore8_def [abs_def] Let_def
    by (rule op_okI; auto split: list.split simp: op_post_iff intro!: v_evolves_setMem v_evolves_refl)
  show "op_ok E ro 1 1 opCallDataLoad"
    unfolding opCallDataLoad_def [abs_def]
    by (rule op_okI; auto split: list.split prod.split intro!: post_const simp: op_post_iff v_evolves_refl)
qed

section \<open>Instructions on the state and on control flow\<close>

lemma state_reads_ok:
  assumes ok: "env_ok E"
  shows "op_ok E ro 1 1 opBalance" "op_ok E ro 1 1 opExtCodeSize" "op_ok E ro 1 1 opExtCodeHash"
    "op_ok E ro 0 1 opSelfBalance" "op_ok E ro 1 1 opSload"
proof -
  note fr = v_get_frame
  show "op_ok E ro 1 1 opBalance" "op_ok E ro 1 1 opExtCodeSize" "op_ok E ro 0 1 opSelfBalance" "op_ok E ro 1 1 opSload"
    unfolding opBalance_def [abs_def] opExtCodeSize_def [abs_def] opSelfBalance_def [abs_def] opSload_def [abs_def]
      pushBig_def pushop_def
    by (rule op_okI; auto split: list.split prod.split simp: op_post_iff dest: fr v_get_reads [OF ok])+
  show "op_ok E ro 1 1 opExtCodeHash"
  proof (rule op_okI)
    fix R :: "'a runner" and v :: "'a vm" assume inv: "v_inv E v"
    have two: "v_evolves E ro v v2 \<and> v_contract v2 = v_contract v"
      if g: "v_get v (\<lambda>s. Empty (e_db E) s a) = (v1, b)" "v_get v1 (\<lambda>s. GetCodeHash (e_db E) s a) = (v2, h)" for a v1 b v2 h
    proof -
      have 1: "v_evolves E ro v v1" by (rule v_get_reads(2) [OF ok inv g(1)])
      then have "v_inv E v1" using m_evolves_inv by (auto simp: v_evolves_def)
      from v_evolves_trans [OF 1 v_get_reads(4) [OF ok this g(2)] inv ok] v_get_frame [OF g(1)] v_get_frame [OF g(2)]
      show ?thesis by simp
    qed
    show "post (opExtCodeHash E R v) (op_post E ro 1 1 v)"
      unfolding opExtCodeHash_def Let_def
      by (auto split: list.split prod.split simp: op_post_iff dest: fr two v_get_reads(2) [OF ok inv])
  qed
qed

lemma writes_ok:
  assumes ok: "env_ok E" and w: "\<not> (ro \<and> r_IsByzantium (e_rules E))"
  shows "op_ok E ro 2 0 opSstore" "op_ok E ro 1 0 opSuicide" "op_ok E ro (n + 2) 0 (makeLog n)"
proof -
  note do = v_do_evolves [OF m_do_writes(3) [OF ok _ w]] v_do_evolves [OF m_do_writes(5) [OF ok _ w]]
  show "op_ok E ro 2 0 opSstore"
    unfolding opSstore_def [abs_def]
    by (rule op_okI; auto split: list.split simp: op_post_iff do)
  show "op_ok E ro (n + 2) 0 (makeLog n)"
    unfolding makeLog_def [abs_def] Let_def
    by (rule op_okI; auto split: list.split intro!: post_const simp: op_post_iff do)
  show "op_ok E ro 1 0 opSuicide"
  proof (rule op_okI)
    fix R :: "'a runner" and v :: "'a vm" assume inv: "v_inv E v"
    have "v_evolves E ro v (v_do (v_do v1 (\<lambda>s. AddBalance (e_db E) s b x)) (\<lambda>s. fst (Suicide (e_db E) s a))) \<and>
        v_contract v1 = v_contract v"
      if g: "v_get v (\<lambda>s. GetBalance (e_db E) s a) = (v1, x)" for a v1 x b
    proof -
      let ?v2 = "v_do (v_do v1 (\<lambda>s. AddBalance (e_db E) s b x)) (\<lambda>s. fst (Suicide (e_db E) s a))"
      have 1: "v_evolves E ro v v1" by (rule v_get_reads(3) [OF ok inv g])
      then have i1: "v_inv E v1" using m_evolves_inv by (auto simp: v_evolves_def)
      obtain m where m: "m_get (v_m v) (\<lambda>s. GetBalance (e_db E) s a) = (m, x)" "v1 = v\<lparr>v_m := m\<rparr>" using g by (rule v_getE)
      have "x = balance (e_db E) (m_StateDB (v_m v)) a"
        using m(1) GetBalance_balance [of "e_db E" "m_StateDB (v_m v)" a] inv
        by (auto simp: m_get_def m_inv_def inv_wf split: prod.splits)
      also have "\<dots> = balance (e_db E) (m_StateDB (v_m v1)) a"
        using balance_view [OF m_get_view(5) [OF inv m(1)]] m(2) by simp
      finally have x: "x = balance (e_db E) (m_StateDB (v_m v1)) a" .
      have si: "sdb_inv (e_db E) (m_StateDB (v_m v1))" and inj: "addrHash_inj (e_db E)"
        using i1 ok by (simp_all add: m_inv_def env_ok_def)
      have "m_evolves E ro (v_m v1) (v_m ?v2)"
        using evolves_selfdestruct [OF si inj w, of b a]
        by (simp add: m_evolves_def v_do_def m_do_def x)
      then have 2: "v_evolves E ro v1 ?v2" by (simp add: v_evolves_def v_do_def)
      from v_evolves_trans [OF 1 2 inv ok] v_get_frame(1) [OF g] show ?thesis by simp
    qed
    then show "post (opSuicide E R v) (op_post E ro 1 0 v)"
      unfolding opSuicide_def Let_def
      by (auto split: list.split prod.split simp: op_post_iff dest: v_get_frame)
  qed
qed

lemma validJumpdest_post: "post (validJumpdest U jd c d) (\<lambda>(jd', c', b). c_Gas c' = c_Gas c)"
proof -
  have seg: "codeSegment b u \<noteq> NoFuel" for b u by (simp add: codeSegment_def)
  obtain bits where "codeBitmap (c_Code c) = Ok bits" using codeBitmap_spec by blast
  with seg have "post (isCode jd c u) (\<lambda>(jd', c', b). c_Gas c' = c_Gas c)" for u
    by (auto simp: isCode_def intro!: post_const split: option.split)
  then show ?thesis by (simp add: validJumpdest_def split: prod.split)
qed

lemma jumpTo_post:
  assumes "v_inv E v" "length (v_stack v) + pops = length (v_stack v0) + push" "v_evolves E ro v0 v" "v_contract v = v_contract v0"
  shows "post (jumpTo E pos v) (op_post E ro pops push v0)"
  unfolding jumpTo_def Let_def post_bnd
  by (rule post_mono [OF validJumpdest_post]) (use assms in \<open>auto simp: op_post_iff\<close>)

lemma flow_ok:
  "op_ok E ro 1 0 opPop" "op_ok E ro 1 0 opJump" "op_ok E ro 2 0 opJumpi" "op_ok E ro 0 0 opJumpdest"
  "op_ok E ro 0 0 opStop" "op_ok E ro 0 1 opPush1" "op_ok E ro 0 1 (makePush sz k)" "op_ok E ro 0 1 (makeDup k)"
  "op_ok E ro 0 0 (makeSwap k)"
proof -
  show "op_ok E ro 1 0 opPop" "op_ok E ro 0 0 opJumpdest" "op_ok E ro 0 0 opStop"
    unfolding opPop_def [abs_def] opJumpdest_def [abs_def] opStop_def [abs_def]
    by (rule op_okI; auto split: list.split simp: op_post_iff v_evolves_refl)+
  show "op_ok E ro 1 0 opJump" "op_ok E ro 2 0 opJumpi"
    unfolding opJump_def [abs_def] opJumpi_def [abs_def] Let_def
    by (rule op_okI; auto split: list.split intro!: jumpTo_post simp: op_post_iff v_evolves_refl)+
  show "op_ok E ro 0 1 opPush1" "op_ok E ro 0 1 (makePush sz k)" "op_ok E ro 0 1 (makeDup k)" "op_ok E ro 0 0 (makeSwap k)"
    unfolding opPush1_def [abs_def] makePush_def [abs_def] makeDup_def [abs_def] makeSwap_def [abs_def] Let_def pushop_def
      stack_dup_def stack_swap_def
    by (rule op_okI; auto simp: op_post_iff v_evolves_refl nxt_def)+
qed

section \<open>Calls and creations\<close>

definition exec_post :: "'t env \<Rightarrow> nat \<Rightarrow> nat \<Rightarrow> nat \<Rightarrow> 't vm \<Rightarrow> 't vm \<times> bytes \<times> vmError option \<Rightarrow> bool" where
  "exec_post E pops push extra v = (\<lambda>(v', res, err).
     v_evolves E (m_readOnly (v_m v)) v v' \<and> gas_of v' \<le> gas_of v + extra \<and>
     (err = None \<longrightarrow> length (v_stack v') + pops = length (v_stack v) + push))"

lemma setGas_sel [simp]:
  "v_m (setGas v g) = v_m v" "v_stack (setGas v g) = v_stack v" "v_mem (setGas v g) = v_mem v"
  "c_Gas (v_contract (setGas v g)) = g"
  by (simp_all add: setGas_def)

lemma setGas_evolves [simp]: "v_evolves E ro v (setGas v' g) = v_evolves E ro v v'"
  by (simp add: v_evolves_def)

lemma gas_add:
  assumes "unat (g :: u64) + unat b < 2 ^ 64" "r \<le> b"
  shows "unat (g + r) \<le> unat g + unat b"
proof -
  have "unat r \<le> unat b" using assms(2) by (simp add: word_le_nat_alt)
  then show ?thesis using assms(1) by (subst unat_add_u64) simp_all
qed

lemma endCallOp_post:
  assumes r: "call_ok E (m_readOnly (v_m v)) (v_m v) gas r" and g: "gas_of v + unat gas < 2 ^ 64"
    and l: "length st + pops = length (v_stack v)"
  shows "post (endCallOp E i j k n st v r) (exec_post E pops 1 (unat gas) v)"
proof -
  obtain m ret g' err al where e: "r = (m, ret, g', err, al)" by (cases r) auto
  have m: "m_evolves E (m_readOnly (v_m v)) (v_m v) m" "g' \<le> gas" using r by (simp_all add: e call_ok_def)
  have s: "post (if err = None \<or> err = Some ErrExecutionReverted
      then Memory_Set (v_mem v) (u_Uint64 (e_U E) k) (u_Uint64 (e_U E) n) ret else Ok (v_mem v))
      (\<lambda>mem. length (mem_store mem) = length (mem_store (v_mem v)) \<and> mem_lastGasCost mem = mem_lastGasCost (v_mem v))"
    using Memory_Set_post by simp
  have a: "(if al then Memory_GetPtr mem x y else Ok ret) \<noteq> NoFuel" for mem x y by simp
  show ?thesis
    unfolding endCallOp_def e prod.case post_bnd
    by (rule post_mono [OF s], rule post_const [OF a])
      (use m l gas_add [OF g m(2)] in \<open>auto simp: exec_post_def v_evolves_def Let_def\<close>)
qed

text \<open>The extra gas of a call that transfers value.\<close>

definition stipend :: "'t vm \<Rightarrow> nat" where
  "stipend v = (if v_stack v ! 2 = 0 then 0 else 2300)"

lemma call_gas:
  assumes "unat g + 2300 < 2 ^ 64 \<or> z"
  shows "unat (if \<not> z then g + CallStipend else g :: u64) = unat g + (if z then 0 else 2300)"
  using assms by (auto simp: unat_add_u64)

lemma call_op:
  assumes c: "\<And>args. post (r args) (call_ok E (m_readOnly (v_m v)) (v_m v) gas)" and g: "gas_of v + unat gas < 2 ^ 64"
    and l: "length st + pops = length (v_stack v)"
  shows "post (bnd (Memory_GetPtr mem a b) (\<lambda>args. bnd (r args) (endCallOp E i j k n st v)))
    (exec_post E pops 1 (unat gas) v)"
  unfolding post_bnd
  by (rule post_const [OF Memory_ptr_fuel(1)], rule post_mono [OF c], rule endCallOp_post [OF _ g l])

lemma bigVal_nonneg: "env_ok E \<Longrightarrow> 0 \<le> bigVal E x"
  by (simp add: bigVal_def env_ok_def uint256_ok_def)

lemma opCall_post:
  assumes ok: "env_ok E" and R: "runner_ok E n R" and inv: "v_inv E v"
    and g: "gas_of v + (unat (m_callGasTemp (v_m v)) + stipend v) < 2 ^ 64"
    and n: "unat (m_callGasTemp (v_m v)) + stipend v < n"
    and z: "m_readOnly (v_m v) \<Longrightarrow> r_IsByzantium (e_rules E) \<Longrightarrow> v_stack v ! 2 = 0"
  shows "post (opCall E R v) (exec_post E 7 1 (unat (m_callGasTemp (v_m v)) + stipend v) v)"
proof (cases "length (v_stack v) < 7")
  case True
  then show ?thesis by (auto simp: opCall_def split: list.split)
next
  case False
  then obtain t a x i j k l st where st: "v_stack v = t # a # x # i # j # k # l # st"
    by (auto simp: not_less numeral_eq_Suc Suc_le_length_iff)
  have u: "u_IsZero (e_U E) x \<longleftrightarrow> x = 0" using ok by (simp add: env_ok_def uint256_ok_def)
  let ?g = "if \<not> u_IsZero (e_U E) x then m_callGasTemp (v_m v) + CallStipend else m_callGasTemp (v_m v)"
  have gas: "unat (m_callGasTemp (v_m v)) + stipend v = unat ?g"
    using g by (subst call_gas) (auto simp: stipend_def st u split: if_splits)
  show ?thesis
    unfolding opCall_def st list.case Let_def gas
    by (intro call_op Call_post [OF ok R inv]) (use g n gas z st u bigVal_nonneg [OF ok, of x] in \<open>auto simp: bigVal_def\<close>)
qed

lemma opCallCode_post:
  assumes ok: "env_ok E" and R: "runner_ok E n R" and inv: "v_inv E v"
    and g: "gas_of v + (unat (m_callGasTemp (v_m v)) + stipend v) < 2 ^ 64"
    and n: "unat (m_callGasTemp (v_m v)) + stipend v < n"
  shows "post (opCallCode E R v) (exec_post E 7 1 (unat (m_callGasTemp (v_m v)) + stipend v) v)"
proof (cases "length (v_stack v) < 7")
  case True
  then show ?thesis by (auto simp: opCallCode_def split: list.split)
next
  case False
  then obtain t a x i j k l st where st: "v_stack v = t # a # x # i # j # k # l # st"
    by (auto simp: not_less numeral_eq_Suc Suc_le_length_iff)
  have u: "u_IsZero (e_U E) x \<longleftrightarrow> x = 0" using ok by (simp add: env_ok_def uint256_ok_def)
  let ?g = "if \<not> u_IsZero (e_U E) x then m_callGasTemp (v_m v) + CallStipend else m_callGasTemp (v_m v)"
  have gas: "unat (m_callGasTemp (v_m v)) + stipend v = unat ?g"
    using g by (subst call_gas) (auto simp: stipend_def st u split: if_splits)
  show ?thesis
    unfolding opCallCode_def st list.case Let_def gas
    by (intro call_op CallCode_post [OF ok R inv]) (use g n gas st in auto)
qed

lemma opDelegateCall_post:
  assumes ok: "env_ok E" and R: "runner_ok E n R" and inv: "v_inv E v"
    and g: "gas_of v + unat (m_callGasTemp (v_m v)) < 2 ^ 64" and n: "unat (m_callGasTemp (v_m v)) < n"
  shows "post (opDelegateCall E R v) (exec_post E 6 1 (unat (m_callGasTemp (v_m v))) v)"
    "post (opStaticCall E R v) (exec_post E 6 1 (unat (m_callGasTemp (v_m v))) v)"
proof -
  have "post (opDelegateCall E R v) (exec_post E 6 1 (unat (m_callGasTemp (v_m v))) v) \<and>
    post (opStaticCall E R v) (exec_post E 6 1 (unat (m_callGasTemp (v_m v))) v)"
  proof (cases "length (v_stack v) < 6")
    case True
    then show ?thesis by (auto simp: opDelegateCall_def opStaticCall_def split: list.split)
  next
    case False
    then obtain t a i j k l st where st: "v_stack v = t # a # i # j # k # l # st"
      by (auto simp: not_less numeral_eq_Suc Suc_le_length_iff)
    have l: "length st + 6 = length (v_stack v)" by (simp add: st)
    show ?thesis
      unfolding opDelegateCall_def opStaticCall_def st list.case
      by (intro conjI call_op [OF _ g l] DelegateCall_post [OF ok R inv n]) (rule post_mono [OF StaticCall_post [OF ok R inv n] call_ok_weaken])
  qed
  then show "post (opDelegateCall E R v) (exec_post E 6 1 (unat (m_callGasTemp (v_m v))) v)"
    "post (opStaticCall E R v) (exec_post E 6 1 (unat (m_callGasTemp (v_m v))) v)" by blast+
qed

text \<open>A creation reserves gas, and hands back at most as much.\<close>

lemma useGas_sel [simp]: "v_m (useGas v g) = v_m v" "v_stack (useGas v g) = v_stack v" "v_mem (useGas v g) = v_mem v"
  by (simp_all add: useGas_def)

lemma endCreate_post:
  assumes r: "create_ok E caller (v_m v) gas r" and g: "gas \<le> c_Gas (v_contract v)"
    and l: "length st + pops = length (v_stack v)"
  shows "post (endCreate E b st (useGas v gas) r) (exec_post E pops 1 0 v)"
proof -
  obtain m ret a g' err where e: "r = (m, ret, a, g', err)" by (cases r) auto
  have m: "m_evolves E (m_readOnly (v_m v)) (v_m v) m" "g' \<le> gas" using r by (simp_all add: e create_ok_def)
  have u: "unat (c_Gas (v_contract (useGas v gas))) = gas_of v - unat gas"
    using g by (simp add: useGas_def UseGas_def unat_sub_le leD)
  have le: "unat gas \<le> gas_of v" using g by (simp add: word_le_nat_alt)
  have "unat (c_Gas (v_contract (useGas v gas)) + g') \<le> gas_of v"
    using gas_add [of "c_Gas (v_contract (useGas v gas))" gas g', OF _ m(2)] u le unat_u64_bound [of "c_Gas (v_contract v)"]
    by simp
  then show ?thesis unfolding endCreate_def e using m l by (simp add: exec_post_def v_evolves_def Let_def)
qed

lemma create_op:
  assumes c: "\<And>input. post (r input) (create_ok E caller (v_m v) gas)" and g: "gas \<le> c_Gas (v_contract v)"
    and l: "length st + pops = length (v_stack v)"
  shows "post (bnd (Memory_GetCopy mem a b) (\<lambda>input. bnd (r input) (\<lambda>x. endCreate E (f x) st (useGas v gas) x)))
    (exec_post E pops 1 0 v)"
  unfolding post_bnd
  by (rule post_const [OF Memory_ptr_fuel(2)], rule post_mono [OF c], rule endCreate_post [OF _ g l])

lemma sub_div_le: "(x :: u64) - x div 64 \<le> x"
proof -
  have "x div 64 \<le> x" by (simp add: word_le_nat_alt unat_div)
  then show ?thesis by (simp add: word_le_nat_alt unat_sub_le)
qed

lemma opCreate_post:
  assumes ok: "env_ok E" and R: "runner_ok E n R" and inv: "v_inv E v" and n: "gas_of v < n"
    and w: "\<not> (m_readOnly (v_m v) \<and> r_IsByzantium (e_rules E))"
  shows "post (opCreate E R v) (exec_post E 3 1 0 v)" "post (opCreate2 E R v) (exec_post E 4 1 0 v)"
proof -
  have lt: "unat g < n" if "g \<le> c_Gas (v_contract v)" for g using that n by (simp add: word_le_nat_alt)
  show "post (opCreate E R v) (exec_post E 3 1 0 v)"
  proof (cases "length (v_stack v) < 3")
    case True
    then show ?thesis by (auto simp: opCreate_def split: list.split)
  next
    case False
    then obtain x i j st where st: "v_stack v = x # i # j # st"
      by (auto simp: not_less numeral_eq_Suc Suc_le_length_iff)
    let ?g = "c_Gas (v_contract v)"
    let ?h = "if r_IsEIP150 (e_rules E) then ?g - ?g div 64 else ?g"
    have h: "?h \<le> ?g" using sub_div_le by simp
    show ?thesis
      unfolding opCreate_def st list.case Let_def useGas_sel
      by (rule create_op [OF Create_post [OF ok R inv lt [OF h] w bigVal_nonneg [OF ok]] h]) (simp add: st)
  qed
  show "post (opCreate2 E R v) (exec_post E 4 1 0 v)"
  proof (cases "length (v_stack v) < 4")
    case True
    then show ?thesis by (auto simp: opCreate2_def split: list.split)
  next
    case False
    then obtain x i j k st where st: "v_stack v = x # i # j # k # st"
      by (auto simp: not_less numeral_eq_Suc Suc_le_length_iff)
    show ?thesis
      unfolding opCreate2_def st list.case Let_def useGas_sel
      by (rule create_op [OF Create2_post [OF ok R inv lt [OF sub_div_le] w bigVal_nonneg [OF ok]] sub_div_le]) (simp add: st)
  qed
qed

end
