(* ===== verification/GasEffects.thy ===== *)
theory GasEffects
  imports OpEffects
begin

text \<open>
  What the gas functions charge and change: the quadratic cost of memory, the reservation of the gas
  of a call, and that computing a cost never changes the accounts, the stack or the code.
\<close>

section \<open>Memory\<close>

definition mem_fee :: "nat \<Rightarrow> nat" where
  "mem_fee w = 3 * w + w * w div 512"

text \<open>The memory consists of whole words, and \<open>lastGasCost\<close> is what they have cost.\<close>

definition mem_ok :: "Memory \<Rightarrow> bool" where
  "mem_ok m \<longleftrightarrow> (\<exists>w. length (mem_store m) = 32 * w \<and> w < 2 ^ 32 \<and> unat (mem_lastGasCost m) = mem_fee w)"

definition resized :: "Memory \<Rightarrow> u64 \<Rightarrow> Memory" where
  "resized mem sz = (if sz > 0 then Memory_Resize mem sz else mem)"

lemma mem_ok_New: "mem_ok NewMemory"
  by (simp add: mem_ok_def NewMemory_def mem_fee_def)

lemma mem_fee_mono: "v \<le> w \<Longrightarrow> mem_fee v \<le> mem_fee w"
  unfolding mem_fee_def by (intro add_mono div_le_mono mult_le_mono) simp_all

lemma mem_fee_bound: "w < 2 ^ 32 \<Longrightarrow> mem_fee w < 2 ^ 56"
proof -
  assume "w < 2 ^ 32"
  then have "w \<le> 2 ^ 32 - 1" by simp
  from mem_fee_mono [OF this] show ?thesis by (simp add: mem_fee_def)
qed

lemma toWordSize_exact:
  assumes "unat sz \<le> 0x1FFFFFFFE0"
  shows "unat (toWordSize sz) = (unat sz + 31) div 32"
proof -
  have "\<not> sz > 0xFFFFFFFFFFFFFFFF - 31" using assms by (simp add: word_less_nat_alt)
  moreover have "unat (sz + 31) = unat sz + 31" using assms by (subst unat_add_u64) simp_all
  ultimately show ?thesis by (simp add: toWordSize_def unat_div)
qed

lemma memoryGasCost_spec:
  assumes mem: "length (mem_store mem) = 32 * w" "w < 2 ^ 32" "unat (mem_lastGasCost mem) = mem_fee w"
    and sz: "unat sz \<le> 0x1FFFFFFFE0" and k: "k = (unat sz + 31) div 32"
  shows "\<exists>mem' c. memoryGasCost mem sz = (mem', Inr c) \<and> mem_store mem' = mem_store mem \<and>
    unat c = mem_fee (max w k) - mem_fee w \<and> unat (mem_lastGasCost mem') = mem_fee (max w k)"
proof (cases "sz = 0")
  case True
  then show ?thesis using mem k by (simp add: memoryGasCost_def)
next
  case False
  have k32: "k < 2 ^ 32" using k sz div_le_mono [of "unat sz + 31" 137438953471 32] by simp
  have tw: "unat (toWordSize sz) = k" using toWordSize_exact [OF sz] k by simp
  have ns: "unat (toWordSize sz * 32) = k * 32" using tw k32 by (subst unat_mult_u64) simp_all
  have kk: "k * k < 2 ^ 64"
  proof -
    have "k * k < 2 ^ 32 * 2 ^ 32" using k32 by (intro mult_strict_mono) simp_all
    then show ?thesis by simp
  qed
  then have sq: "unat (toWordSize sz * toWordSize sz) = k * k" using tw by (subst unat_mult_u64) simp_all
  have q: "unat (toWordSize sz * toWordSize sz div QuadCoeffDiv) = k * k div 512" using sq by (simp add: unat_div)
  have l: "unat (toWordSize sz * MemoryGas) = 3 * k" using tw k32 by (subst unat_mult_u64) simp_all
  have fee: "unat (toWordSize sz * MemoryGas + toWordSize sz * toWordSize sz div QuadCoeffDiv) = mem_fee k"
    using mem_fee_bound [OF k32] by (subst unat_add_u64) (simp_all add: q l mem_fee_def)
  have ng: "\<not> sz > 0x1FFFFFFFE0" using sz by (simp add: word_less_nat_alt)
  show ?thesis
  proof (cases "w < k")
    case True
    have "unat (toWordSize sz * MemoryGas + toWordSize sz * toWordSize sz div QuadCoeffDiv - mem_lastGasCost mem) =
        mem_fee k - mem_fee w"
      using fee mem(3) mem_fee_mono [of w k] True by (subst unat_sub_le) (simp_all add: word_le_nat_alt)
    then show ?thesis using True False ng ns fee mem by (simp add: memoryGasCost_def Let_def max_def)
  next
    case False2: False
    then show ?thesis using False ng ns mem by (simp add: memoryGasCost_def Let_def max_def)
  qed
qed

text \<open>C28. Growing the memory to \<open>sz\<close> bytes costs the difference of the quadratic fees of the two sizes in
  words, without overflow, for every size up to the limit; above the limit it is an error.  The
  counter \<open>lastGasCost\<close> then holds the fee of the new size.\<close>

theorem memory_gas_quadratic:
  assumes "length (mem_store mem) = 32 * w" "w < 2 ^ 32" "unat (mem_lastGasCost mem) = mem_fee w"
  shows "if unat sz \<le> 0x1FFFFFFFE0
    then \<exists>mem' c. memoryGasCost mem sz = (mem', Inr c) \<and> mem_store mem' = mem_store mem \<and>
      unat c + mem_fee w = mem_fee (max w ((unat sz + 31) div 32)) \<and>
      unat (mem_lastGasCost mem') = mem_fee (max w ((unat sz + 31) div 32))
    else memoryGasCost mem sz = (mem, Inl ErrGasUintOverflow)"
proof (cases "unat sz \<le> 0x1FFFFFFFE0")
  case True
  from memoryGasCost_spec [OF assms True refl] mem_fee_mono [of w "max w ((unat sz + 31) div 32)"] True
  show ?thesis by auto
next
  case False
  then have "sz > 0x1FFFFFFFE0" "sz \<noteq> 0" by (auto simp: word_less_nat_alt)
  then show ?thesis using False by (simp add: memoryGasCost_def)
qed

theorem memory_gas_quadratic_witness:
  "\<exists>mem' c. memoryGasCost NewMemory 1024 = (mem', Inr c) \<and> unat c = 98"
  using memory_gas_quadratic [of NewMemory 0 1024] by (auto simp: NewMemory_def mem_fee_def max_def)

lemma Memory_Resize_store: "length (mem_store (Memory_Resize m sz)) = max (length (mem_store m)) (unat sz)"
  by (auto simp: Memory_Resize_def)

lemma Memory_Resize_cost [simp]: "mem_lastGasCost (Memory_Resize m sz) = mem_lastGasCost m"
  by (simp add: Memory_Resize_def)

lemma memoryGasCost_ok:
  assumes mem: "mem_ok mem" and d: "32 dvd unat sz" and c: "memoryGasCost mem sz = (mem', r)"
  shows "mem_store mem' = mem_store mem" "r = Inr c \<Longrightarrow> mem_ok (resized mem' sz) \<and> unat c < 2 ^ 56"
proof -
  obtain w where w: "length (mem_store mem) = 32 * w" "w < 2 ^ 32" "unat (mem_lastGasCost mem) = mem_fee w"
    using mem by (auto simp: mem_ok_def)
  show "mem_store mem' = mem_store mem" using c by (auto simp: memoryGasCost_def Let_def split: if_splits)
  assume r: "r = Inr c"
  have "unat sz \<le> 0x1FFFFFFFE0"
    using c r by (auto simp: memoryGasCost_def word_less_nat_alt not_less split: if_splits)
  note s = this
  obtain k where k: "unat sz = 32 * k" using d by blast
  then have k': "k = (unat sz + 31) div 32" "k < 2 ^ 32" using s by simp_all
  from memoryGasCost_spec [OF w s k'(1)] c r
  have m': "mem_store mem' = mem_store mem" "unat c = mem_fee (max w k) - mem_fee w"
    "unat (mem_lastGasCost mem') = mem_fee (max w k)" by auto
  have x: "max w k < 2 ^ 32" using w(2) k'(2) by simp
  have "length (mem_store (resized mem' sz)) = 32 * max w k" "mem_lastGasCost (resized mem' sz) = mem_lastGasCost mem'"
    using w(1) m'(1) k by (simp_all add: resized_def Memory_Resize_store word_less_nat_alt max_def)
  then show "mem_ok (resized mem' sz) \<and> unat c < 2 ^ 56"
    using x m' mem_fee_bound [OF x] by (auto simp: mem_ok_def)
qed

section \<open>Steps of a gas function\<close>

text \<open>The state a gas function has reached: it has at most read the accounts and charged memory.\<close>

definition g_step :: "'t env \<Rightarrow> 't vm \<Rightarrow> 't vm \<Rightarrow> bool" where
  "g_step E v v' \<longleftrightarrow> m_evolves E True (v_m v) (v_m v') \<and> v_stack v' = v_stack v \<and> v_contract v' = v_contract v \<and>
     mem_store (v_mem v') = mem_store (v_mem v)"

definition g_post :: "'t env \<Rightarrow> 't vm \<Rightarrow> u64 \<Rightarrow> nat \<Rightarrow> ('t vm \<Rightarrow> u64 \<Rightarrow> bool) \<Rightarrow> 't vm \<times> (vmError + u64) \<Rightarrow> bool" where
  "g_post E v ms lo Q = (\<lambda>(v', r).
     m_evolves E True (v_m v) (v_m v') \<and> v_stack v' = v_stack v \<and> mem_store (v_mem v') = mem_store (v_mem v) \<and>
     (case r of
        Inl _ \<Rightarrow> gas_of v' \<le> gas_of v
      | Inr c \<Rightarrow> v_contract v' = v_contract v \<and> lo \<le> unat c \<and> mem_ok (resized (v_mem v') ms) \<and> Q v' c))"

lemma g_post_iff:
  "g_post E v ms lo Q (v', Inl e) \<longleftrightarrow> m_evolves E True (v_m v) (v_m v') \<and> v_stack v' = v_stack v \<and>
     mem_store (v_mem v') = mem_store (v_mem v) \<and> gas_of v' \<le> gas_of v"
  "g_post E v ms lo Q (v', Inr c) \<longleftrightarrow> g_step E v v' \<and> lo \<le> unat c \<and> mem_ok (resized (v_mem v') ms) \<and> Q v' c"
  by (auto simp: g_post_def g_step_def)

lemma g_step_refl: "v_inv E v \<Longrightarrow> g_step E v v"
  by (simp add: g_step_def m_evolves_refl)

lemma g_step_inv: "g_step E v v' \<Longrightarrow> v_inv E v'"
  unfolding g_step_def using m_evolves_inv by blast

lemma g_step_trans:
  assumes "g_step E v v1" "v_evolves E True v1 v2" "v_stack v2 = v_stack v1" "v_contract v2 = v_contract v1"
    "v_mem v2 = v_mem v1" "v_inv E v" "env_ok E"
  shows "g_step E v v2"
  using assms m_evolves_trans [of E True "v_m v" "v_m v1" "v_m v2"] by (simp add: g_step_def v_evolves_def)

lemma g_cost:
  assumes "g_step E v v1" "lo \<le> unat c" "mem_ok (resized (v_mem v1) ms)" "Q v1 c"
  shows "post (cost v1 c) (g_post E v ms lo Q)"
  using assms by (simp add: cost_def g_post_def g_step_def)

lemma g_fail: "g_step E v v1 \<Longrightarrow> post (fail v1 e) (g_post E v ms lo Q)"
  by (simp add: fail_def g_post_def g_step_def)

lemma g_addCost:
  assumes "g_step E v v1" "lo \<le> unat a + unat b" "mem_ok (resized (v_mem v1) ms)"
    "\<And>c. unat c = unat a + unat b \<Longrightarrow> Q v1 c"
  shows "post (addCost v1 a b) (g_post E v ms lo Q)"
proof -
  obtain s ov where s: "SafeAdd a b = (s, ov)" by fastforce
  show ?thesis
  proof (cases ov)
    case True
    then show ?thesis using g_fail [OF assms(1)] by (simp add: addCost_def s)
  next
    case False
    then have "unat s = unat a + unat b" using s SafeAdd_exact [of a b s] by simp
    then show ?thesis using g_cost [OF assms(1) _ assms(3)] assms(2,4) False by (simp add: addCost_def s)
  qed
qed

lemma g_then:
  assumes "post r (\<lambda>(v1, x). case x of Inl e \<Rightarrow> g_post E v ms lo Q (v1, Inl e) | Inr g \<Rightarrow> post (f v1 g) (g_post E v ms lo Q))"
  shows "post (gthen r f) (g_post E v ms lo Q)"
  unfolding gthen_def post_bnd
  by (rule post_mono [OF assms]) (auto simp: fail_def split: sum.splits)

lemma g_memCost:
  assumes v: "g_step E v v1" "v_mem v1 = v_mem v" and m: "mem_ok (v_mem v)" "32 dvd unat ms"
    and f: "\<And>v2 g. g_step E v v2 \<Longrightarrow> v_m v2 = v_m v1 \<Longrightarrow> mem_ok (resized (v_mem v2) ms) \<Longrightarrow> unat g < 2 ^ 56 \<Longrightarrow>
      post (f v2 g) (g_post E v ms lo Q)"
  shows "post (gthen (memCost v1 ms) f) (g_post E v ms lo Q)"
proof (rule g_then)
  obtain mem r where c: "memoryGasCost (v_mem v) ms = (mem, r)" by fastforce
  note k = memoryGasCost_ok [OF m c]
  have s: "g_step E v (v1\<lparr>v_mem := mem\<rparr>)" using v k(1) by (simp add: g_step_def)
  from f [OF s] k g_fail [OF s, of _ ms lo Q] show "post (memCost v1 ms) (\<lambda>(v1, x). case x of Inl e \<Rightarrow> g_post E v ms lo Q (v1, Inl e)
      | Inr g \<Rightarrow> post (f v1 g) (g_post E v ms lo Q))"
    by (auto simp: memCost_def v(2) c fail_def split: sum.split)
qed

lemma g_back64:
  assumes "g_step E v v1" "\<And>g. post (f v1 g) (g_post E v ms lo Q)"
  shows "post (gthen (back64 E v1 i) f) (g_post E v ms lo Q)"
  by (rule g_then) (use assms g_fail [OF assms(1), of _ ms lo Q] in
    \<open>auto simp: back64_def stack_Back_def fail_def cost_def split: prod.split\<close>)

lemma g_mulCost:
  assumes "g_step E v v1" "\<And>g. post (f v1 g) (g_post E v ms lo Q)"
  shows "post (gthen (mulCost v1 a b) f) (g_post E v ms lo Q)"
  by (rule g_then) (use assms g_fail [OF assms(1), of _ ms lo Q] in
    \<open>auto simp: mulCost_def fail_def cost_def split: prod.split\<close>)

lemma g_addCost_then:
  assumes "g_step E v v1" "\<And>g. unat g = unat a + unat b \<Longrightarrow> post (f v1 g) (g_post E v ms lo Q)"
  shows "post (gthen (addCost v1 a b) f) (g_post E v ms lo Q)"
  by (rule g_then) (use assms g_fail [OF assms(1), of _ ms lo Q] SafeAdd_exact in
    \<open>auto simp: addCost_def fail_def cost_def split: prod.split\<close>)

lemma g_back:
  assumes "\<And>x. i < length st \<Longrightarrow> x = st ! i \<Longrightarrow> post (f x) P"
  shows "post (bnd (stack_Back st i) f) P"
  using assms by (simp add: stack_Back_def)

text \<open>The contract of a gas function; \<open>mem\<close> says that it charges for memory.\<close>

definition gas_fn_ok :: "'t env \<Rightarrow> nat \<Rightarrow> bool \<Rightarrow> 't gasFunc \<Rightarrow> bool" where
  "gas_fn_ok E lo mem f \<longleftrightarrow>
     (\<forall>v ms. v_inv E v \<longrightarrow> mem_ok (v_mem v) \<longrightarrow> 32 dvd unat ms \<longrightarrow> mem \<or> ms = 0 \<longrightarrow>
        post (f E v ms) (g_post E v ms lo (\<lambda>_ _. True)))"

lemma gas_fn_okI:
  assumes "\<And>v ms. v_inv E v \<Longrightarrow> mem_ok (v_mem v) \<Longrightarrow> 32 dvd unat ms \<Longrightarrow> mem \<or> ms = 0 \<Longrightarrow>
    post (f E v ms) (g_post E v ms lo (\<lambda>_ _. True))"
  shows "gas_fn_ok E lo mem f"
  using assms by (simp add: gas_fn_ok_def)

lemma memory_gas_ok:
  "gas_fn_ok E 0 True pureMemoryGascost" "gas_fn_ok E 0 True (memoryCopierGas k)" "gas_fn_ok E 0 True gasSha3"
  "gas_fn_ok E 0 True gasCreate2" "gas_fn_ok E 375 True (makeGasLog n)" "gas_fn_ok E 10 False (gasExp b)"
proof -
  show "gas_fn_ok E 0 True pureMemoryGascost"
  proof (rule gas_fn_okI)
    fix v and ms :: u64 assume a: "v_inv E v" "mem_ok (v_mem v)" "32 dvd unat ms"
    have "gthen (memCost v ms) cost = memCost v ms"
      by (simp add: gthen_def memCost_def fail_def cost_def split: prod.split sum.split)
    moreover have "post (gthen (memCost v ms) cost) (g_post E v ms 0 (\<lambda>_ _. True))"
      by (rule g_memCost [OF g_step_refl [OF a(1)] refl a(2,3)]) (rule g_cost; simp)
    ultimately show "post (pureMemoryGascost E v ms) (g_post E v ms 0 (\<lambda>_ _. True))" by (simp add: pureMemoryGascost_def)
  qed
  show "gas_fn_ok E 0 True (memoryCopierGas k)" "gas_fn_ok E 0 True gasSha3" "gas_fn_ok E 0 True gasCreate2"
    unfolding memoryCopierGas_def [abs_def] gasSha3_def [abs_def] gasCreate2_def [abs_def]
    by (rule gas_fn_okI; intro g_memCost g_back64 g_mulCost g_addCost g_step_refl; simp)+
  show "gas_fn_ok E 375 True (makeGasLog n)"
    unfolding makeGasLog_def [abs_def]
    by (rule gas_fn_okI; intro g_memCost g_back64 g_mulCost g_addCost_then g_addCost g_step_refl; simp)
  show "gas_fn_ok E 10 False (gasExp b)"
    unfolding gasExp_def [abs_def] Let_def
    by (rule gas_fn_okI; intro g_back g_addCost g_step_refl; simp add: resized_def)
qed

text \<open>The rules that take a gas function apart.\<close>

lemma g_if: "(b \<Longrightarrow> post x P) \<Longrightarrow> (\<not> b \<Longrightarrow> post y P) \<Longrightarrow> post (if b then x else y) P"
  by simp

lemma g_bnd: "post r (\<lambda>x. post (f x) P) \<Longrightarrow> post (bnd r f) P"
  by simp

lemma g_Ok: "P x \<Longrightarrow> post (Ok x) P"
  by simp

section \<open>Gas of state accesses\<close>

lemma g_read:
  assumes "env_ok E" "v_inv E v" "g_step E v v1" "\<And>v2 x. v_get v1 h = (v2, x) \<Longrightarrow> v_evolves E True v1 v2"
    "\<And>v2 x. g_step E v v2 \<Longrightarrow> v_mem v2 = v_mem v1 \<Longrightarrow> post (f v2 x) P"
  shows "post (case v_get v1 h of (v2, x) \<Rightarrow> f v2 x) P"
proof -
  obtain v2 x where g: "v_get v1 h = (v2, x)" by (cases "v_get v1 h")
  note fr = v_get_frame [OF g]
  have "g_step E v v2" by (rule g_step_trans [OF assms(3) assms(4) [OF g] fr(2,1,3) assms(2,1)])
  with assms(5) fr(3) show ?thesis by (simp add: g)
qed

lemma g_reads:
  assumes "env_ok E" "v_inv E v" "g_step E v v1"
  shows "(\<And>v2 b. g_step E v v2 \<Longrightarrow> v_mem v2 = v_mem v1 \<Longrightarrow> post (f v2 b) P) \<Longrightarrow>
      post (case v_get v1 (\<lambda>s. Exist (e_db E) s a) of (v2, b) \<Rightarrow> f v2 b) P"
    "(\<And>v2 b. g_step E v v2 \<Longrightarrow> v_mem v2 = v_mem v1 \<Longrightarrow> post (f v2 b) P) \<Longrightarrow>
      post (case v_get v1 (\<lambda>s. Empty (e_db E) s a) of (v2, b) \<Rightarrow> f v2 b) P"
    "(\<And>v2 b. g_step E v v2 \<Longrightarrow> v_mem v2 = v_mem v1 \<Longrightarrow> post (f v2 b) P) \<Longrightarrow>
      post (case v_get v1 (\<lambda>s. HasSuicided (e_db E) s a) of (v2, b) \<Rightarrow> f v2 b) P"
    "(\<And>v2 i. g_step E v v2 \<Longrightarrow> v_mem v2 = v_mem v1 \<Longrightarrow> post (fi v2 i) P) \<Longrightarrow>
      post (case v_get v1 (\<lambda>s. GetBalance (e_db E) s a) of (v2, i) \<Rightarrow> fi v2 i) P"
    "(\<And>v2 h. g_step E v v2 \<Longrightarrow> v_mem v2 = v_mem v1 \<Longrightarrow> post (fh v2 h) P) \<Longrightarrow>
      post (case v_get v1 (\<lambda>s. GetState (e_db E) s a k) of (v2, h) \<Rightarrow> fh v2 h) P"
    "(\<And>v2 h. g_step E v v2 \<Longrightarrow> v_mem v2 = v_mem v1 \<Longrightarrow> post (fh v2 h) P) \<Longrightarrow>
      post (case v_get v1 (\<lambda>s. GetCommittedState (e_db E) s a k) of (v2, h) \<Rightarrow> fh v2 h) P"
  by (rule g_read [OF assms], erule v_get_reads [OF assms(1) g_step_inv [OF assms(3)]]; blast)+

lemma g_AddRefund:
  assumes "env_ok E" "v_inv E v" "g_step E v v1"
  shows "g_step E v (addRefund v1 x)" "v_mem (addRefund v1 x) = v_mem v1"
proof -
  have "v_evolves E True v1 (v_do v1 (\<lambda>s. AddRefund s x))"
    by (rule v_do_evolves, rule m_do_quiet(3) [OF assms(1) g_step_inv [OF assms(3)]])
  from g_step_trans [OF assms(3) this _ _ _ assms(2,1)] show "g_step E v (addRefund v1 x)" by (simp add: addRefund_def)
qed (simp add: addRefund_def)

lemma g_AddAddress:
  assumes "env_ok E" "v_inv E v" "g_step E v v1"
  shows "g_step E v (v_do v1 (\<lambda>s. AddAddressToAccessList s a))"
proof -
  have "v_evolves E True v1 (v_do v1 (\<lambda>s. AddAddressToAccessList s a))"
    by (rule v_do_evolves, rule m_do_quiet(1) [OF assms(1) g_step_inv [OF assms(3)]])
  from g_step_trans [OF assms(3) this _ _ _ assms(2,1)] show ?thesis by simp
qed

lemma g_try:
  assumes ok: "env_ok E" and inv: "v_inv E v" and st: "g_step E v v1"
    and h: "\<And>s. h (m_StateDB (v_m v1)) = Ok s \<Longrightarrow> evolves (e_db E) (True \<and> r_IsByzantium (e_rules E)) (m_StateDB (v_m v1)) s"
      "h (m_StateDB (v_m v1)) \<noteq> NoFuel"
    and f: "\<And>v2. g_step E v v2 \<Longrightarrow> v_mem v2 = v_mem v1 \<Longrightarrow> Q v2"
  shows "post (v_try v1 h) Q"
  unfolding v_try_def post_bnd
proof (rule post_mono [OF m_try_post [where f = h and m = "v_m v1" and E = E and ro = True, OF h]])
  fix m assume m: "m_evolves E True (v_m v1) m"
  have "g_step E v (v1\<lparr>v_m := m\<rparr>)"
    by (rule g_step_trans [OF st _ _ _ _ inv ok]) (use m in \<open>simp_all add: v_evolves_def\<close>)
  then show "post (Ok (v1\<lparr>v_m := m\<rparr>)) Q" using f by simp
qed

lemma g_tries:
  assumes ok: "env_ok E" and inv: "v_inv E v" and st: "g_step E v v1"
    and f: "\<And>v2. g_step E v v2 \<Longrightarrow> v_mem v2 = v_mem v1 \<Longrightarrow> Q v2"
  shows "post (v_try v1 (\<lambda>s. SubRefund s x)) Q" "post (v_try v1 (\<lambda>s. AddSlotToAccessList s a k)) Q"
proof -
  have i: "sdb_inv (e_db E) (m_StateDB (v_m v1))" "addrHash_inj (e_db E)"
    using g_step_inv [OF st] ok by (simp_all add: m_inv_def env_ok_def)
  show "post (v_try v1 (\<lambda>s. SubRefund s x)) Q"
    by (rule g_try [OF ok inv st _ _ f]) (use evolves_quiet(9) [OF i] in \<open>auto simp: SubRefund_def\<close>)
  have "AddSlot al b l \<noteq> NoFuel" for al b l by (auto simp: AddSlot_def Let_def outcome_simps split: option.split)
  then show "post (v_try v1 (\<lambda>s. AddSlotToAccessList s a k)) Q"
    by (intro g_try [OF ok inv st _ _ f] evolves_quiet(7) [OF i])
      (auto simp: AddSlotToAccessList_def Let_def outcome_simps split: prod.splits)
qed

lemma g_SlotIn:
  assumes "\<And>b c. post (f (b, c)) P"
  shows "post (bnd (SlotInAccessList s a k) f) P"
proof -
  have "SlotInAccessList s a k \<noteq> NoFuel"
    by (auto simp: SlotInAccessList_def Contains_def outcome_simps split: option.split)
  with assms show ?thesis by (cases "SlotInAccessList s a k") auto
qed

lemma g_refund_if:
  assumes "env_ok E" "v_inv E v" "g_step E v v1"
  shows "g_step E v (if b then addRefund v1 x else v1)" "v_mem (if b then addRefund v1 x else v1) = v_mem v1"
    "g_step E v (if b then if c then addRefund v1 x else addRefund v1 y else v1)"
    "v_mem (if b then if c then addRefund v1 x else addRefund v1 y else v1) = v_mem v1"
  using assms g_AddRefund by auto

lemma g_refund_suicide:
  assumes "env_ok E" "v_inv E v" "g_step E v v1"
  shows "g_step E v (if r then case v_get v1 (\<lambda>s. HasSuicided (e_db E) s a) of (v, b) \<Rightarrow> if b then v else addRefund v x else v1)"
    "v_mem (if r then case v_get v1 (\<lambda>s. HasSuicided (e_db E) s a) of (v, b) \<Rightarrow> if b then v else addRefund v x else v1) = v_mem v1"
proof -
  have "post (case v_get v1 (\<lambda>s. HasSuicided (e_db E) s a) of (v, b) \<Rightarrow> Ok (if b then v else addRefund v x))
      (\<lambda>v2. g_step E v v2 \<and> v_mem v2 = v_mem v1)"
    by (rule g_reads(3) [OF assms]) (use g_AddRefund [OF assms(1,2)] in simp)
  then show "g_step E v (if r then case v_get v1 (\<lambda>s. HasSuicided (e_db E) s a) of (v, b) \<Rightarrow> if b then v else addRefund v x else v1)"
    "v_mem (if r then case v_get v1 (\<lambda>s. HasSuicided (e_db E) s a) of (v, b) \<Rightarrow> if b then v else addRefund v x else v1) = v_mem v1"
    using assms(3) by (auto split: prod.splits)
qed

lemmas g_refunds = g_AddRefund g_refund_if g_refund_suicide

lemma case_flat:
  "(case (if b then x else y) of (p, q) \<Rightarrow> f p q) = (if b then case x of (p, q) \<Rightarrow> f p q else case y of (p, q) \<Rightarrow> f p q)"
  "(case (case z of (c, d) \<Rightarrow> h c d) of (p, q) \<Rightarrow> f p q) = (case z of (c, d) \<Rightarrow> case h c d of (p, q) \<Rightarrow> f p q)"
  by (simp_all split: prod.split)

lemma g_Panic: "post Panic P"
  by simp

lemma state_gas_ok:
  assumes ok: "env_ok E"
  shows "gas_fn_ok E 1 False gasSStore" "gas_fn_ok E 1 False gasSStoreEIP2200" "gas_fn_ok E 1 False (makeGasSStoreFunc y)"
    "gas_fn_ok E 1 False gasSLoadEIP2929" "gas_fn_ok E 0 False gasEip2929AccountCheck" "gas_fn_ok E 0 False gasSelfdestruct"
    "gas_fn_ok E 0 False (makeSelfdestructGasFn r)"
  unfolding gasSStore_def [abs_def] gasSStoreEIP2200_def [abs_def] makeGasSStoreFunc_def [abs_def] gasSLoadEIP2929_def [abs_def]
    gasEip2929AccountCheck_def [abs_def] gasSelfdestruct_def [abs_def] makeSelfdestructGasFn_def [abs_def] Let_def case_flat
  by (rule gas_fn_okI;
      (rule g_back g_SlotIn g_if g_fail g_Panic g_cost g_reads [OF ok] g_tries [OF ok] g_refunds [OF ok] g_AddAddress [OF ok]
          g_step_refl g_Ok impI
        | assumption | (simp add: resized_def g_refunds [OF ok]; fail) | simp only: prod.case case_flat | rule g_bnd)+)+

lemma g_fn_then:
  assumes f: "gas_fn_ok E lo True f" and v: "v_inv E v" "mem_ok (v_mem v)" "32 dvd unat ms"
    and k: "\<And>v1 g. g_step E v v1 \<Longrightarrow> mem_ok (resized (v_mem v1) ms) \<Longrightarrow> post (k v1 g) (g_post E v ms lo' Q)"
  shows "post (gthen (f E v ms) k) (g_post E v ms lo' Q)"
proof (rule g_then)
  have "post (f E v ms) (g_post E v ms lo (\<lambda>_ _. True))" using f v by (simp add: gas_fn_ok_def)
  then show "post (f E v ms) (\<lambda>(v1, x). case x of Inl e \<Rightarrow> g_post E v ms lo' Q (v1, Inl e) | Inr g \<Rightarrow> post (k v1 g) (g_post E v ms lo' Q))"
    by (rule post_mono) (use k in \<open>auto simp: g_post_iff split: sum.splits\<close>)
qed

lemma ext_copy_gas_ok:
  assumes ok: "env_ok E"
  shows "gas_fn_ok E 0 True gasExtCodeCopyEIP2929"
  unfolding gasExtCodeCopyEIP2929_def [abs_def] gasExtCodeCopy_def Let_def
  by (rule gas_fn_okI;
      (rule g_fn_then [OF memory_gas_ok(2)] g_back g_if g_cost g_addCost g_AddAddress [OF ok] g_step_refl
        | assumption | (simp; fail))+)

section \<open>Gas of calls\<close>

lemma unat_wrap_sub: "unat (a - b :: u64) = (if unat b \<le> unat a then unat a - unat b else unat a + 2 ^ 64 - unat b)"
  unfolding unat_sub_if' word_le_nat_alt by simp

lemma unat_63_64: "unat (x - x div 64 :: u64) = unat x - unat x div 64"
  by (subst unat_sub_le) (simp_all add: word_le_nat_alt unat_div)

text \<open>C22. After EIP-150 the gas of a call never fails to be computed: it is the smaller of the requested gas
  and all but one 64th of the gas left after the base cost.\<close>

theorem callGas_all_but_one_64th:
  assumes "uint256_ok U" "base \<le> availableGas"
  shows "\<exists>g. callGas U True availableGas base callCost = Inr g \<and>
    unat g = min (unat callCost) ((unat availableGas - unat base) - (unat availableGas - unat base) div 64)"
proof -
  define g where "g = availableGas - base - (availableGas - base) div 64"
  have g': "unat g = (unat availableGas - unat base) - (unat availableGas - unat base) div 64"
    unfolding g_def unat_63_64 unat_sub_le [OF assms(2)] ..
  have r: "callGas U True availableGas base callCost =
      (if \<not> u_IsUint64 U callCost \<or> g < u_Uint64 U callCost then Inr g
       else if \<not> u_IsUint64 U callCost then Inl ErrGasUintOverflow else Inr (u_Uint64 U callCost))"
    unfolding callGas_def Let_def g_def by simp
  have u: "u_IsUint64 U callCost \<longleftrightarrow> unat callCost < 2 ^ 64" "u_Uint64 U callCost = ucast callCost"
    using assms(1) by (simp_all add: uint256_ok_def)
  have c: "unat (ucast callCost :: u64) = unat callCost" if "unat callCost < 2 ^ 64"
    using that by (simp add: unsigned_ucast_eq take_bit_nat_eq_self)
  show ?thesis
  proof (cases "unat callCost < 2 ^ 64")
    case True
    then have "g < ucast callCost \<longleftrightarrow> unat g < unat callCost" using c by (simp add: word_less_nat_alt)
    then show ?thesis unfolding r u g' [symmetric] using True c [OF True] by (simp add: min_def)
  next
    case False
    then have "unat g < unat callCost" using unat_u64_bound [of g] by simp
    then show ?thesis unfolding r u g' [symmetric] using False by simp
  qed
qed

theorem callGas_all_but_one_64th_witness:
  "\<exists>g. callGas uint256_ref True 6500 100 1000000 = Inr g \<and> unat g = 6300"
  using callGas_all_but_one_64th [OF uint256_ok_ref, of 100 6500 1000000] by simp

text \<open>With the cap in force the base cost plus the gas of the call stays clear of the 64-bit limit.\<close>

lemma callGas_capped:
  assumes c: "callGas U True avail base x = Inr g" and b: "unat base \<le> 2 ^ 57" and a: "unat avail + 2500 < 2 ^ 64"
  shows "unat base + unat g + 2500 < 2 ^ 64"
proof -
  define d where "d = unat (avail - base)"
  have "g \<le> (avail - base) - (avail - base) div 64"
    using c by (auto simp: callGas_def Let_def split: if_splits)
  then have g: "unat g \<le> d - d div 64" by (simp add: word_le_nat_alt unat_63_64 d_def)
  show ?thesis
  proof (cases "unat base \<le> unat avail")
    case True
    then have "d = unat avail - unat base" by (simp add: d_def unat_wrap_sub)
    with g True a show ?thesis by linarith
  next
    case False
    then have d: "d = unat avail + 2 ^ 64 - unat base" by (simp add: d_def unat_wrap_sub)
    then have "2 ^ 64 - 2 ^ 57 \<le> d" using b by simp
    then have "(2 ^ 64 - 2 ^ 57) div 64 \<le> d div 64" by (rule div_le_mono)
    with g d False b show ?thesis by simp
  qed
qed

text \<open>The contract of the gas functions of calls: the gas they reserve is part of the cost.\<close>

definition call_fn_ok :: "'t env \<Rightarrow> bool \<Rightarrow> 't gasFunc \<Rightarrow> bool" where
  "call_fn_ok E valued f \<longleftrightarrow>
     (\<forall>v ms. v_inv E v \<longrightarrow> mem_ok (v_mem v) \<longrightarrow> 32 dvd unat ms \<longrightarrow>
        post (f E v ms) (g_post E v ms 0 (\<lambda>v' c.
          unat (m_callGasTemp (v_m v')) + (if valued then stipend v else 0) \<le> unat c)))"

text \<open>In addition the cost leaves room for the cold access surcharge.\<close>

definition call_fn_small :: "'t env \<Rightarrow> bool \<Rightarrow> 't gasFunc \<Rightarrow> bool" where
  "call_fn_small E valued f \<longleftrightarrow>
     (\<forall>v ms. v_inv E v \<longrightarrow> mem_ok (v_mem v) \<longrightarrow> 32 dvd unat ms \<longrightarrow>
        post (f E v ms) (g_post E v ms 0 (\<lambda>v' c.
          unat (m_callGasTemp (v_m v')) + (if valued then stipend v else 0) \<le> unat c \<and>
          (r_IsEIP150 (e_rules E) \<and> gas_of v + 2500 < 2 ^ 64 \<longrightarrow> unat c + 2500 < 2 ^ 64))))"

lemma g_step_temp: "g_step E v v1 \<Longrightarrow> g_step E v (v1\<lparr>v_m := (v_m v1)\<lparr>m_callGasTemp := g\<rparr>\<rparr>)"
  by (simp add: g_step_def m_evolves_def)

lemma withCallGas_post:
  assumes v: "g_step E v v1" and m: "mem_ok (resized (v_mem v1) ms)" and b: "unat gas \<le> 2 ^ 57" and x: "x \<le> unat gas"
  shows "post (withCallGas E v1 gas) (g_post E v ms 0 (\<lambda>v' c. unat (m_callGasTemp (v_m v')) + x \<le> unat c \<and>
    (r_IsEIP150 (e_rules E) \<and> gas_of v + 2500 < 2 ^ 64 \<longrightarrow> unat c + 2500 < 2 ^ 64)))"
  unfolding withCallGas_def
proof (rule g_back)
  fix y
  have gas: "v_contract v1 = v_contract v" using v by (simp add: g_step_def)
  show "post (case callGas (e_U E) (r_IsEIP150 (e_rules E)) (c_Gas (v_contract v1)) gas y of
      Inl err \<Rightarrow> fail (v1\<lparr>v_m := (v_m v1)\<lparr>m_callGasTemp := 0\<rparr>\<rparr>) err
    | Inr g \<Rightarrow> addCost (v1\<lparr>v_m := (v_m v1)\<lparr>m_callGasTemp := g\<rparr>\<rparr>) gas g)
    (g_post E v ms 0 (\<lambda>v' c. unat (m_callGasTemp (v_m v')) + x \<le> unat c \<and>
      (r_IsEIP150 (e_rules E) \<and> gas_of v + 2500 < 2 ^ 64 \<longrightarrow> unat c + 2500 < 2 ^ 64)))"
  proof (cases "callGas (e_U E) (r_IsEIP150 (e_rules E)) (c_Gas (v_contract v1)) gas y")
    case (Inl err)
    then show ?thesis using g_fail [OF g_step_temp [OF v]] by simp
  next
    case (Inr g)
    have "unat gas + unat g + 2500 < 2 ^ 64" if "r_IsEIP150 (e_rules E)" "gas_of v + 2500 < 2 ^ 64"
      by (rule callGas_capped [OF _ b, of "e_U E" "c_Gas (v_contract v)" y]) (use Inr that gas in simp_all)
    with m x show ?thesis unfolding Inr sum.case
      by (intro g_addCost [OF g_step_temp [OF v]]) simp_all
  qed
qed

lemma call_fn_smallI:
  assumes "\<And>v ms. v_inv E v \<Longrightarrow> mem_ok (v_mem v) \<Longrightarrow> 32 dvd unat ms \<Longrightarrow> post (f E v ms) (g_post E v ms 0 (\<lambda>v' c.
    unat (m_callGasTemp (v_m v')) + (if valued then stipend v else 0) \<le> unat c \<and>
    (r_IsEIP150 (e_rules E) \<and> gas_of v + 2500 < 2 ^ 64 \<longrightarrow> unat c + 2500 < 2 ^ 64)))"
  shows "call_fn_small E valued f"
  using assms by (simp add: call_fn_small_def)

lemma delegate_gas_ok: "call_fn_small E False gasDelegateCall" "call_fn_small E False gasStaticCall"
  unfolding gasDelegateCall_def [abs_def] gasStaticCall_def [abs_def]
  by (rule call_fn_smallI, rule g_memCost [OF g_step_refl refl], assumption+, rule withCallGas_post, assumption+, simp, simp)+

lemma gasCallCode_ok:
  assumes ok: "env_ok E"
  shows "call_fn_small E True gasCallCode"
proof (rule call_fn_smallI)
  fix v and ms :: u64 assume a: "v_inv E v" "mem_ok (v_mem v)" "32 dvd unat ms"
  have u: "u_Sign (e_U E) x = 0 \<longleftrightarrow> x = 0" for x using ok by (simp add: env_ok_def uint256_ok_def)
  show "post (gasCallCode E v ms) (g_post E v ms 0 (\<lambda>v' c.
    unat (m_callGasTemp (v_m v')) + (if True then stipend v else 0) \<le> unat c \<and>
    (r_IsEIP150 (e_rules E) \<and> gas_of v + 2500 < 2 ^ 64 \<longrightarrow> unat c + 2500 < 2 ^ 64)))"
    unfolding gasCallCode_def Let_def
  proof (rule g_memCost [OF g_step_refl [OF a(1)] refl a(2,3)], rule g_back, rule g_addCost_then, assumption, rule withCallGas_post, assumption+)
    fix v2 mg x g
    assume 1: "g_step E v v2" "unat (mg :: u64) < 2 ^ 56" "x = v_stack v2 ! 2"
      "unat (g :: u64) = unat (if u_Sign (e_U E) x \<noteq> 0 then CallValueTransferGas else 0 :: u64) + unat mg"
    then have s: "x = v_stack v ! 2" by (simp add: g_step_def)
    show "unat g \<le> 2 ^ 57" using 1 by (simp split: if_splits)
    show "(if True then stipend v else 0) \<le> unat g" using 1(4) by (simp add: stipend_def s u split: if_splits)
  qed
qed

lemma gasCall_ok:
  assumes ok: "env_ok E"
  shows "call_fn_small E True gasCall"
proof (rule call_fn_smallI)
  fix v and ms :: u64 assume a: "v_inv E v" "mem_ok (v_mem v)" "32 dvd unat ms"
  have u: "u_IsZero (e_U E) x \<longleftrightarrow> x = 0" for x using ok by (simp add: env_ok_def uint256_ok_def)
  let ?P = "g_post E v ms 0 (\<lambda>v' c.
    unat (m_callGasTemp (v_m v')) + (if True then stipend v else 0) \<le> unat c \<and>
    (r_IsEIP150 (e_rules E) \<and> gas_of v + 2500 < 2 ^ 64 \<longrightarrow> unat c + 2500 < 2 ^ 64))"
  let ?g = "\<lambda>new. (if new then CallNewAccountGas else 0) + (if \<not> u_IsZero (e_U E) (v_stack v ! 2) then CallValueTransferGas else 0) :: u64"
  have tail: "post (gthen (memCost v1 ms) (\<lambda>v mg. gthen (addCost v (?g new) mg) (withCallGas E))) ?P"
    if v1: "g_step E v v1" "v_mem v1 = v_mem v" for v1 new
  proof (rule g_memCost [OF v1 a(2,3)], rule g_addCost_then, assumption, rule withCallGas_post, assumption+)
    fix mg g assume 1: "unat (mg :: u64) < 2 ^ 56" "unat (g :: u64) = unat (?g new) + unat mg"
    show "unat g \<le> 2 ^ 57" using 1 by (simp split: if_splits)
    show "(if True then stipend v else 0) \<le> unat g" using 1(2) by (simp add: stipend_def u split: if_splits)
  qed
  note tail' = tail [where new = False, simplified] 
  show "post (gasCall E v ms) ?P"
    unfolding gasCall_def Let_def
  proof (rule g_back, rule g_back, hypsubst, subst case_flat(1), rule g_if)
    show "post (case if \<not> u_IsZero (e_U E) (v_stack v ! 2)
              then v_get v (\<lambda>s. Empty (e_db E) s (u_Bytes20 (e_U E) (v_stack v ! 1))) else (v, False) of
         (v, new) \<Rightarrow> gthen (memCost v ms) (\<lambda>v mg. gthen (addCost v (?g new) mg) (withCallGas E))) ?P"
      unfolding case_flat(1)
    proof (rule g_if)
      show "post (case v_get v (\<lambda>s. Empty (e_db E) s (u_Bytes20 (e_U E) (v_stack v ! 1))) of
         (v, new) \<Rightarrow> gthen (memCost v ms) (\<lambda>v mg. gthen (addCost v (?g new) mg) (withCallGas E))) ?P"
        by (rule g_reads(2) [OF ok a(1) g_step_refl [OF a(1)]]) (rule tail)
      show "post (case (v, False) of (v, new) \<Rightarrow> gthen (memCost v ms) (\<lambda>v mg. gthen (addCost v (?g new) mg) (withCallGas E))) ?P"
        unfolding prod.case by (rule tail [OF g_step_refl [OF a(1)] refl])
    qed
    show "post (case case v_get v (\<lambda>s. Exist (e_db E) s (u_Bytes20 (e_U E) (v_stack v ! 1))) of (v, b) \<Rightarrow> (v, \<not> b) of
         (v, new) \<Rightarrow> gthen (memCost v ms) (\<lambda>v mg. gthen (addCost v (?g new) mg) (withCallGas E))) ?P"
      unfolding case_flat(2) prod.case
      by (rule g_reads(1) [OF ok a(1) g_step_refl [OF a(1)]]) (rule tail)
  qed
qed

lemma call_fn_small_ok: "call_fn_small E b f \<Longrightarrow> call_fn_ok E b f"
  unfolding call_fn_small_def call_fn_ok_def
proof (intro allI impI)
  fix v and ms :: u64
  assume f: "\<forall>v ms. v_inv E v \<longrightarrow> mem_ok (v_mem v) \<longrightarrow> 32 dvd unat ms \<longrightarrow> post (f E v ms) (g_post E v ms 0 (\<lambda>v' c.
    unat (m_callGasTemp (v_m v')) + (if b then stipend v else 0) \<le> unat c \<and>
    (r_IsEIP150 (e_rules E) \<and> gas_of v + 2500 < 2 ^ 64 \<longrightarrow> unat c + 2500 < 2 ^ 64)))"
    and a: "v_inv E v" "mem_ok (v_mem v)" "32 dvd unat ms"
  show "post (f E v ms) (g_post E v ms 0 (\<lambda>v' c. unat (m_callGasTemp (v_m v')) + (if b then stipend v else 0) \<le> unat c))"
    by (rule post_mono [OF f [rule_format, OF a]]) (cases b; simp add: g_post_def split: prod.splits sum.splits)
qed

text \<open>The surcharge is paid before the old function runs, and handed back to be part of the cost.\<close>

lemma variant_ok:
  assumes ok: "env_ok E" and f: "call_fn_small E b f" and r: "r_IsEIP150 (e_rules E)"
  shows "call_fn_ok E b (makeCallVariantGasCallEIP2929 f)"
  unfolding call_fn_ok_def
proof (intro allI impI)
  fix v and ms :: u64 assume a: "v_inv E v" "mem_ok (v_mem v)" "32 dvd unat ms"
  let ?Q = "\<lambda>v' c. unat (m_callGasTemp (v_m v')) + (if b then stipend v else 0) \<le> unat c"
  let ?k = "ColdAccountAccessCostEIP2929 - WarmStorageReadCostEIP2929 :: u64"
  show "post (makeCallVariantGasCallEIP2929 f E v ms) (g_post E v ms 0 ?Q)"
    unfolding makeCallVariantGasCallEIP2929_def Let_def
  proof (rule g_back, rule g_if)
    show "post (f E v ms) (g_post E v ms 0 ?Q)" using call_fn_small_ok [OF f] a by (simp add: call_fn_ok_def)
  next
    fix x
    define v1 where "v1 = v_do v (\<lambda>s. AddAddressToAccessList s (u_Bytes20 (e_U E) x))"
    have v1: "g_step E v v1" unfolding v1_def by (rule g_AddAddress [OF ok a(1) g_step_refl [OF a(1)]])
    have c1: "v_contract v1 = v_contract v" "v_stack v1 = v_stack v" "v_mem v1 = v_mem v" by (simp_all add: v1_def)
    show "post (case UseGas (v_contract v1) ?k of
        (c, True) \<Rightarrow> gthen (f E (v1\<lparr>v_contract := c\<rparr>) ms) (\<lambda>v gas. cost
          (v\<lparr>v_contract := (v_contract v)\<lparr>c_Gas := c_Gas (v_contract v) + ?k\<rparr>\<rparr>) (gas + ?k))
      | (c, False) \<Rightarrow> fail v1 ErrOutOfGas) (g_post E v ms 0 ?Q)"
    proof (cases "c_Gas (v_contract v) < ?k")
      case True
      then show ?thesis using g_fail [OF v1] by (simp add: UseGas_def c1)
    next
      case False
      define c where "c = (v_contract v)\<lparr>c_Gas := c_Gas (v_contract v) - ?k\<rparr>"
      define v2 where "v2 = v1\<lparr>v_contract := c\<rparr>"
      have g2: "gas_of v2 + 2500 = gas_of v" "gas_of v2 + 2500 < 2 ^ 64"
        using False unat_u64_bound [of "c_Gas (v_contract v)"]
        by (simp_all add: v2_def c_def unat_sub_if' word_le_nat_alt word_less_nat_alt)
      have i2: "v_inv E v2" "mem_ok (v_mem v2)" using g_step_inv [OF v1] a(2) by (simp_all add: v2_def c1)
      have s2: "stipend v2 = stipend v" by (simp add: stipend_def v2_def c1)
      have bk: "c\<lparr>c_Gas := c_Gas c + ?k\<rparr> = v_contract v" by (simp add: c_def)
      from f i2 a(3) have "post (f E v2 ms) (g_post E v2 ms 0 (\<lambda>v' c.
          unat (m_callGasTemp (v_m v')) + (if b then stipend v2 else 0) \<le> unat c \<and>
          (r_IsEIP150 (e_rules E) \<and> gas_of v2 + 2500 < 2 ^ 64 \<longrightarrow> unat c + 2500 < 2 ^ 64)))"
        by (simp add: call_fn_small_def)
      then have "post (gthen (f E v2 ms) (\<lambda>v gas. cost
          (v\<lparr>v_contract := (v_contract v)\<lparr>c_Gas := c_Gas (v_contract v) + ?k\<rparr>\<rparr>) (gas + ?k))) (g_post E v ms 0 ?Q)"
        unfolding gthen_def post_bnd
      proof (rule post_mono)
        fix y :: "'a vm \<times> (vmError + u64)"
        obtain v3 r3 where y: "y = (v3, r3)" by (cases y)
        assume p: "g_post E v2 ms 0 (\<lambda>v' c. unat (m_callGasTemp (v_m v')) + (if b then stipend v2 else 0) \<le> unat c \<and>
          (r_IsEIP150 (e_rules E) \<and> gas_of v2 + 2500 < 2 ^ 64 \<longrightarrow> unat c + 2500 < 2 ^ 64)) y"
        have m: "m_evolves E True (v_m v2) (v_m v3)" using p by (simp add: y g_post_def)
        have m2: "m_evolves E True (v_m v) (v_m v2)" using v1 by (simp add: g_step_def v2_def)
        note m3 = m_evolves_trans [OF m2 m a(1) ok]
        have st: "v_stack v3 = v_stack v" "mem_store (v_mem v3) = mem_store (v_mem v)"
          using p c1 by (simp_all add: y g_post_def v2_def)
        show "post (case y of (v, x) \<Rightarrow> case x of Inl e \<Rightarrow> fail v e | Inr gas \<Rightarrow> cost
            (v\<lparr>v_contract := (v_contract v)\<lparr>c_Gas := c_Gas (v_contract v) + ?k\<rparr>\<rparr>) (gas + ?k)) (g_post E v ms 0 ?Q)"
        proof (cases r3)
          case (Inl e)
          then show ?thesis using p m3 st g2(1) by (simp add: y fail_def g_post_def)
        next
          case (Inr gas)
          have q: "v_contract v3 = c" "mem_ok (resized (v_mem v3) ms)"
            "unat (m_callGasTemp (v_m v3)) + (if b then stipend v else 0) \<le> unat gas" "unat gas + 2500 < 2 ^ 64"
            using p r g2(2) by (cases b; simp add: y Inr g_post_def s2; simp add: v2_def)+
          have "unat (gas + ?k) = unat gas + 2500" using q(4) by (subst unat_add_u64) simp_all
          then show ?thesis using m3 st q bk by (simp add: y Inr cost_def g_post_def)
        qed
      qed
      then show ?thesis using False by (simp add: UseGas_def c1 c_def v2_def)
    qed
  qed
qed

end
