(* ===== verification/TableEffects.thy ===== *)
theory TableEffects
  imports GasEffects
begin

text \<open>
  The contract of an entry of an instruction table: the stack bound fits the instruction, the write
  flag covers the instructions that write, and the charges cover what a call hands to the callee and
  are positive unless the instruction ends the run.  Every table of \<open>jump_table.go\<close> keeps it.
\<close>

abbreviation (input) "is_call opc \<equiv> opc \<in> {CALL, CALLCODE, DELEGATECALL, STATICCALL}"

text \<open>What a call may hand to the callee on top of the gas of the caller.\<close>

definition budget :: "byte \<Rightarrow> 't vm \<Rightarrow> nat" where
  "budget opc v =
     (if opc = CALL \<or> opc = CALLCODE then unat (m_callGasTemp (v_m v)) + stipend v
      else if opc = DELEGATECALL \<or> opc = STATICCALL then unat (m_callGasTemp (v_m v)) else 0)"

definition halting :: "'t operation \<Rightarrow> bool" where
  "halting o' \<longleftrightarrow> o_halts o' \<or> o_reverts o'"

definition may_run :: "'t env \<Rightarrow> byte \<Rightarrow> 't operation \<Rightarrow> 't vm \<Rightarrow> bool" where
  "may_run E opc o' v \<longleftrightarrow>
     (m_readOnly (v_m v) \<and> r_IsByzantium (e_rules E) \<longrightarrow> \<not> o_writes o' \<and> (opc = CALL \<longrightarrow> v_stack v ! 2 = 0))"

definition entry_exec :: "'t env \<Rightarrow> byte \<Rightarrow> 't operation \<Rightarrow> bool" where
  "entry_exec E opc o' \<longleftrightarrow>
     (\<exists>pops push. o_maxStack o' = 1024 + int pops - int push \<and>
        (\<forall>n R v. runner_ok E n R \<longrightarrow> v_inv E v \<longrightarrow> gas_of v + budget opc v < 2 ^ 64 \<longrightarrow>
           halting o' \<or> gas_of v + budget opc v < n \<longrightarrow> may_run E opc o' v \<longrightarrow>
           post (o_execute o' E R v) (exec_post E pops push (budget opc v) v)))"

definition charge_post :: "'t env \<Rightarrow> byte \<Rightarrow> nat \<Rightarrow> 't vm \<Rightarrow> u64 \<Rightarrow> 't vm \<times> bool \<Rightarrow> bool" where
  "charge_post E opc lo v ms = (\<lambda>(v', ok).
     m_evolves E True (v_m v) (v_m v') \<and> gas_of v' \<le> gas_of v \<and>
     (ok \<longrightarrow> v_stack v' = v_stack v \<and> mem_ok (resized (v_mem v') ms) \<and> gas_of v' + budget opc v' + lo \<le> gas_of v))"

definition charges :: "'t env \<Rightarrow> byte \<Rightarrow> 't operation \<Rightarrow> nat \<Rightarrow> bool" where
  "charges E opc o' lo \<longleftrightarrow>
     (\<forall>v ms. v_inv E v \<longrightarrow> mem_ok (v_mem v) \<longrightarrow> 32 dvd unat ms \<longrightarrow> (o_memorySize o' = None \<longrightarrow> ms = 0) \<longrightarrow>
        post (chargeDynamic E o' v ms) (charge_post E opc lo v ms))"

definition entry_gas :: "'t env \<Rightarrow> byte \<Rightarrow> 't operation \<Rightarrow> bool" where
  "entry_gas E opc o' \<longleftrightarrow> (\<exists>lo. (halting o' \<or> 1 \<le> unat (o_constantGas o') + lo) \<and> charges E opc o' lo)"

text \<open>The parts of an entry that later forks do not change.\<close>

definition entry_shape :: "byte \<Rightarrow> 't operation \<Rightarrow> bool" where
  "entry_shape opc o' \<longleftrightarrow>
     (opc \<in> {EXP, BALANCE, EXTCODESIZE, EXTCODEHASH, SLOAD, SSTORE, SELFDESTRUCT} \<longrightarrow> o_memorySize o' = None) \<and>
     (opc = SELFDESTRUCT \<longrightarrow> halting o') \<and>
     (case o_memorySize o' of None \<Rightarrow> True | Some f \<Rightarrow> \<forall>U st. f U st \<noteq> NoFuel)"

definition entry_ok :: "'t env \<Rightarrow> byte \<Rightarrow> 't operation \<Rightarrow> bool" where
  "entry_ok E opc o' \<longleftrightarrow> entry_exec E opc o' \<and> entry_gas E opc o' \<and> entry_shape opc o'"

section \<open>Charges\<close>

lemma charges_none:
  assumes "o_dynamicGas o' = None" "o_memorySize o' = None" "\<not> is_call opc"
  shows "charges E opc o' 0"
  using assms by (simp add: charges_def chargeDynamic_def charge_post_def m_evolves_refl budget_def resized_def)

lemma charges_fn:
  assumes f: "o_dynamicGas o' = Some f"
    and p: "\<And>v ms. v_inv E v \<Longrightarrow> mem_ok (v_mem v) \<Longrightarrow> 32 dvd unat ms \<Longrightarrow> (o_memorySize o' = None \<longrightarrow> ms = 0) \<Longrightarrow>
      post (f E v ms) (g_post E v ms lo' (\<lambda>v' c. budget opc v' + lo \<le> unat c))"
  shows "charges E opc o' lo"
  unfolding charges_def
proof (intro allI impI)
  fix v :: "'a vm" and ms :: u64
  assume a: "v_inv E v" "mem_ok (v_mem v)" "32 dvd unat ms" "o_memorySize o' = None \<longrightarrow> ms = 0"
  show "post (chargeDynamic E o' v ms) (charge_post E opc lo v ms)"
    unfolding chargeDynamic_def f option.case post_bnd
  proof (rule post_mono [OF p [OF a]])
    fix r :: "'a vm \<times> (vmError + u64)"
    assume r: "g_post E v ms lo' (\<lambda>v' c. budget opc v' + lo \<le> unat c) r"
    obtain v' x where e: "r = (v', x)" by (cases r)
    show "post (case r of (v, Inl err) \<Rightarrow> Ok (v, False)
      | (v, Inr dynamicCost) \<Rightarrow> (case UseGas (v_contract v) dynamicCost of (c, ok) \<Rightarrow> Ok (v\<lparr>v_contract := c\<rparr>, ok)))
      (charge_post E opc lo v ms)"
    proof (cases x)
      case (Inl err)
      then show ?thesis using r by (simp add: e charge_post_def g_post_def)
    next
      case (Inr c)
      have b: "budget opc (v'\<lparr>v_contract := d\<rparr>) = budget opc v'" for d by (simp add: budget_def stipend_def)
      show ?thesis
      proof (cases "c_Gas (v_contract v) < c")
        case True
        then show ?thesis using r by (simp add: e Inr UseGas_def charge_post_def g_post_def)
      next
        case False
        then have "unat c \<le> gas_of v" "unat (c_Gas (v_contract v) - c) = gas_of v - unat c"
          by (simp_all add: not_less word_le_nat_alt unat_sub_le)
        then show ?thesis using r False by (auto simp: e Inr UseGas_def charge_post_def g_post_def b)
      qed
    qed
  qed
qed

lemma charges_gas_fn:
  assumes "gas_fn_ok E lo mem f" "o_dynamicGas o' = Some f" "mem \<or> o_memorySize o' = None" "\<not> is_call opc"
  shows "charges E opc o' lo"
proof (rule charges_fn [OF assms(2)])
  fix v and ms :: u64
  assume "v_inv E v" "mem_ok (v_mem v)" "32 dvd unat ms" "o_memorySize o' = None \<longrightarrow> ms = 0"
  with assms have "post (f E v ms) (g_post E v ms lo (\<lambda>_ _. True))" by (auto simp: gas_fn_ok_def)
  then show "post (f E v ms) (g_post E v ms lo (\<lambda>v' c. budget opc v' + lo \<le> unat c))"
    by (rule post_mono) (use assms(4) in \<open>auto simp: g_post_def budget_def split: sum.splits\<close>)
qed

lemma charges_call_fn:
  assumes "call_fn_ok E valued f" "o_dynamicGas o' = Some f"
    "valued \<and> (opc = CALL \<or> opc = CALLCODE) \<or> \<not> valued \<and> (opc = DELEGATECALL \<or> opc = STATICCALL)"
  shows "charges E opc o' 0"
proof (rule charges_fn [OF assms(2)])
  fix v and ms :: u64
  assume "v_inv E v" "mem_ok (v_mem v)" "32 dvd unat ms"
  with assms(1) have "post (f E v ms) (g_post E v ms 0 (\<lambda>v' c.
      unat (m_callGasTemp (v_m v')) + (if valued then stipend v else 0) \<le> unat c))" by (simp add: call_fn_ok_def)
  then show "post (f E v ms) (g_post E v ms 0 (\<lambda>v' c. budget opc v' + 0 \<le> unat c))"
    by (rule post_mono) (use assms(3) in \<open>auto simp: g_post_def budget_def stipend_def split: sum.splits\<close>)
qed

section \<open>Entries\<close>

lemma entry_execI:
  assumes "o_maxStack o' = 1024 + int pops - int push"
    "\<And>n R v. runner_ok E n R \<Longrightarrow> v_inv E v \<Longrightarrow> gas_of v + budget opc v < 2 ^ 64 \<Longrightarrow>
      halting o' \<or> gas_of v + budget opc v < n \<Longrightarrow> may_run E opc o' v \<Longrightarrow>
      post (o_execute o' E R v) (exec_post E pops push (budget opc v) v)"
  shows "entry_exec E opc o'"
  using assms unfolding entry_exec_def by blast

lemma exec_entry:
  assumes "\<And>ro. op_ok E ro pops push f" "o_execute o' = f" "o_maxStack o' = 1024 + int pops - int push"
  shows "entry_exec E opc o'"
  unfolding entry_exec_def
proof (intro exI conjI allI impI)
  show "o_maxStack o' = 1024 + int pops - int push" by fact
  fix n R v assume "v_inv E v"
  with assms(1) have "post (f E R v) (op_post E (m_readOnly (v_m v)) pops push v)" by (simp add: op_ok_def)
  then show "post (o_execute o' E R v) (exec_post E pops push (budget opc v) v)"
    unfolding assms(2) by (rule post_mono) (auto simp: op_post_def exec_post_def)
qed

text \<open>Instructions that write are only asked about when they may run.\<close>

lemma exec_write:
  assumes "\<And>ro. \<not> (ro \<and> r_IsByzantium (e_rules E)) \<Longrightarrow> op_ok E ro pops push f"
    "o_execute o' = f" "o_maxStack o' = 1024 + int pops - int push" "o_writes o'"
  shows "entry_exec E opc o'"
  unfolding entry_exec_def
proof (intro exI conjI allI impI)
  show "o_maxStack o' = 1024 + int pops - int push" by fact
  fix n R v assume a: "v_inv E v" "may_run E opc o' v"
  with assms(4) have "\<not> (m_readOnly (v_m v) \<and> r_IsByzantium (e_rules E))" by (auto simp: may_run_def)
  with assms(1) a have "post (f E R v) (op_post E (m_readOnly (v_m v)) pops push v)" by (simp add: op_ok_def)
  then show "post (o_execute o' E R v) (exec_post E pops push (budget opc v) v)"
    unfolding assms(2) by (rule post_mono) (auto simp: op_post_def exec_post_def)
qed

lemma budget_simps:
  "budget CALL v = unat (m_callGasTemp (v_m v)) + stipend v" "budget CALLCODE v = unat (m_callGasTemp (v_m v)) + stipend v"
  "budget DELEGATECALL v = unat (m_callGasTemp (v_m v))" "budget STATICCALL v = unat (m_callGasTemp (v_m v))"
  "budget CREATE v = 0" "budget CREATE2 v = 0"
  by (simp_all add: budget_def)

lemma exec_calls:
  assumes ok: "env_ok E" and h: "\<not> halting o'"
  shows "o_execute o' = opCall \<Longrightarrow> o_maxStack o' = 1030 \<Longrightarrow> entry_exec E CALL o'"
    "o_execute o' = opCallCode \<Longrightarrow> o_maxStack o' = 1030 \<Longrightarrow> entry_exec E CALLCODE o'"
    "o_execute o' = opDelegateCall \<Longrightarrow> o_maxStack o' = 1029 \<Longrightarrow> entry_exec E DELEGATECALL o'"
    "o_execute o' = opStaticCall \<Longrightarrow> o_maxStack o' = 1029 \<Longrightarrow> entry_exec E STATICCALL o'"
    "o_execute o' = opCreate \<Longrightarrow> o_maxStack o' = 1026 \<Longrightarrow> o_writes o' \<Longrightarrow> entry_exec E CREATE o'"
    "o_execute o' = opCreate2 \<Longrightarrow> o_maxStack o' = 1027 \<Longrightarrow> o_writes o' \<Longrightarrow> entry_exec E CREATE2 o'"
proof -
  show "entry_exec E CALL o'" if o: "o_execute o' = opCall" "o_maxStack o' = 1030"
  proof (rule entry_execI [of _ 7 1], simp add: o)
    fix n R v assume a: "runner_ok E n R" "v_inv E v" "gas_of v + budget CALL v < 2 ^ 64"
      "halting o' \<or> gas_of v + budget CALL v < n" "may_run E CALL o' v"
    show "post (o_execute o' E R v) (exec_post E 7 1 (budget CALL v) v)"
      unfolding budget_simps o(1) by (rule opCall_post [OF ok a(1,2)]) (use a(3-5) h o in \<open>auto simp: budget_simps may_run_def\<close>)
  qed
  show "entry_exec E CALLCODE o'" if o: "o_execute o' = opCallCode" "o_maxStack o' = 1030"
  proof (rule entry_execI [of _ 7 1], simp add: o)
    fix n R v assume a: "runner_ok E n R" "v_inv E v" "gas_of v + budget CALLCODE v < 2 ^ 64"
      "halting o' \<or> gas_of v + budget CALLCODE v < n" "may_run E CALLCODE o' v"
    show "post (o_execute o' E R v) (exec_post E 7 1 (budget CALLCODE v) v)"
      unfolding budget_simps o(1) by (rule opCallCode_post [OF ok a(1,2)]) (use a(3-5) h o in \<open>auto simp: budget_simps may_run_def\<close>)
  qed
  show "entry_exec E DELEGATECALL o'" if o: "o_execute o' = opDelegateCall" "o_maxStack o' = 1029"
  proof (rule entry_execI [of _ 6 1], simp add: o)
    fix n R v assume a: "runner_ok E n R" "v_inv E v" "gas_of v + budget DELEGATECALL v < 2 ^ 64"
      "halting o' \<or> gas_of v + budget DELEGATECALL v < n" "may_run E DELEGATECALL o' v"
    show "post (o_execute o' E R v) (exec_post E 6 1 (budget DELEGATECALL v) v)"
      unfolding budget_simps o(1) by (rule opDelegateCall_post(1) [OF ok a(1,2)]) (use a(3-5) h o in \<open>auto simp: budget_simps may_run_def\<close>)
  qed
  show "entry_exec E STATICCALL o'" if o: "o_execute o' = opStaticCall" "o_maxStack o' = 1029"
  proof (rule entry_execI [of _ 6 1], simp add: o)
    fix n R v assume a: "runner_ok E n R" "v_inv E v" "gas_of v + budget STATICCALL v < 2 ^ 64"
      "halting o' \<or> gas_of v + budget STATICCALL v < n" "may_run E STATICCALL o' v"
    show "post (o_execute o' E R v) (exec_post E 6 1 (budget STATICCALL v) v)"
      unfolding budget_simps o(1) by (rule opDelegateCall_post(2) [OF ok a(1,2)]) (use a(3-5) h o in \<open>auto simp: budget_simps may_run_def\<close>)
  qed
  show "entry_exec E CREATE o'" if o: "o_execute o' = opCreate" "o_maxStack o' = 1026" "o_writes o'"
  proof (rule entry_execI [of _ 3 1], simp add: o)
    fix n R v assume a: "runner_ok E n R" "v_inv E v" "gas_of v + budget CREATE v < 2 ^ 64"
      "halting o' \<or> gas_of v + budget CREATE v < n" "may_run E CREATE o' v"
    show "post (o_execute o' E R v) (exec_post E 3 1 (budget CREATE v) v)"
      unfolding budget_simps o(1) by (rule opCreate_post(1) [OF ok a(1,2)]) (use a(3-5) h o in \<open>auto simp: budget_simps may_run_def\<close>)
  qed
  show "entry_exec E CREATE2 o'" if o: "o_execute o' = opCreate2" "o_maxStack o' = 1027" "o_writes o'"
  proof (rule entry_execI [of _ 4 1], simp add: o)
    fix n R v assume a: "runner_ok E n R" "v_inv E v" "gas_of v + budget CREATE2 v < 2 ^ 64"
      "halting o' \<or> gas_of v + budget CREATE2 v < n" "may_run E CREATE2 o' v"
    show "post (o_execute o' E R v) (exec_post E 4 1 (budget CREATE2 v) v)"
      unfolding budget_simps o(1) by (rule opCreate_post(2) [OF ok a(1,2)]) (use a(3-5) h o in \<open>auto simp: budget_simps may_run_def\<close>)
  qed
qed

section \<open>The tables\<close>

definition entries_ok :: "'t env \<Rightarrow> (byte \<times> 't operation) list \<Rightarrow> bool" where
  "entries_ok E = list_all (\<lambda>(opc, o'). entry_ok E opc o')"

definition table_ok :: "'t env \<Rightarrow> 't JumpTable \<Rightarrow> bool" where
  "table_ok E jt \<longleftrightarrow> (\<forall>opc o'. jt opc = Some o' \<longrightarrow> entry_ok E opc o')"

lemma entries_ok_simps:
  "entries_ok E []" "entries_ok E ((opc, o') # xs) \<longleftrightarrow> entry_ok E opc o' \<and> entries_ok E xs"
  "entries_ok E (xs @ ys) \<longleftrightarrow> entries_ok E xs \<and> entries_ok E ys"
  by (simp_all add: entries_ok_def)

lemma table_ok_map_of: "entries_ok E xs \<Longrightarrow> table_ok E (map_of xs)"
  unfolding table_ok_def entries_ok_def list_all_iff by (auto dest: map_of_SomeD)

lemma opn_sel [simp]:
  "o_execute (opn f g p q) = f" "o_constantGas (opn f g p q) = g" "o_dynamicGas (opn f g p q) = None"
  "o_maxStack (opn f g p q) = 1024 + p - q" "o_memorySize (opn f g p q) = None" "\<not> o_halts (opn f g p q)"
  "\<not> o_reverts (opn f g p q)" "\<not> o_writes (opn f g p q)"
  by (simp_all add: opn_def maxStack_def)

lemma entry_okI:
  assumes "entry_exec E opc o'" "charges E opc o' lo" "halting o' \<or> 1 \<le> unat (o_constantGas o') + lo" "entry_shape opc o'"
  shows "entry_ok E opc o'"
  using assms unfolding entry_ok_def entry_gas_def by blast

lemma simple_entry:
  assumes "\<And>ro. op_ok E ro pops push f" "p = int pops" "q = int push" "\<not> is_call opc" "opc \<noteq> SELFDESTRUCT" "1 \<le> unat g"
  shows "entry_ok E opc (opn f g p q)"
  by (rule entry_okI [OF exec_entry [OF assms(1)] charges_none]) (use assms in \<open>simp_all add: entry_shape_def\<close>)

lemma memory_entry:
  assumes "o_execute o' = x" "\<And>ro. op_ok E ro pops push x" "o_dynamicGas o' = Some f" "gas_fn_ok E lo mem f"
    "o_maxStack o' = 1024 + int pops - int push" "mem \<or> o_memorySize o' = None" "\<not> is_call opc"
    "halting o' \<or> 1 \<le> unat (o_constantGas o') + lo" "entry_shape opc o'"
  shows "entry_ok E opc o'"
  by (rule entry_okI [OF exec_entry [OF assms(2,1,5)] charges_gas_fn [OF assms(4,3,6,7)] assms(8,9)])

lemma write_entry:
  assumes "o_execute o' = x" "\<And>ro. \<not> (ro \<and> r_IsByzantium (e_rules E)) \<Longrightarrow> op_ok E ro pops push x"
    "o_dynamicGas o' = Some f" "gas_fn_ok E lo mem f"
    "o_maxStack o' = 1024 + int pops - int push" "mem \<or> o_memorySize o' = None" "\<not> is_call opc"
    "halting o' \<or> 1 \<le> unat (o_constantGas o') + lo" "entry_shape opc o'" "o_writes o'"
  shows "entry_ok E opc o'"
  by (rule entry_okI [OF exec_write [OF assms(2,1,5,10)] charges_gas_fn [OF assms(4,3,6,7)] assms(8,9)])

lemma call_entry:
  assumes "entry_exec E opc o'" "o_dynamicGas o' = Some f" "call_fn_ok E valued f"
    "valued \<and> (opc = CALL \<or> opc = CALLCODE) \<or> \<not> valued \<and> (opc = DELEGATECALL \<or> opc = STATICCALL)"
    "1 \<le> unat (o_constantGas o')" "entry_shape opc o'"
  shows "entry_ok E opc o'"
  by (rule entry_okI [OF assms(1) charges_call_fn [OF assms(3,2,4)] _ assms(6)]) (use assms(5) in simp)

lemma mem_fuel: "memRange i j U st \<noteq> NoFuel" "memFixed i l U st \<noteq> NoFuel"
  "(\<And>U st. f U st \<noteq> NoFuel) \<Longrightarrow> (\<And>U st. g U st \<noteq> NoFuel) \<Longrightarrow> memMax f g U st \<noteq> NoFuel"
  by (simp_all add: memRange_def memFixed_def memMax_def stack_Back_def outcome_simps split: prod.split)

lemma memory_size_fuel [simp]:
  "memorySha3 U st \<noteq> NoFuel" "memoryCallDataCopy U st \<noteq> NoFuel" "memoryReturnDataCopy U st \<noteq> NoFuel"
  "memoryCodeCopy U st \<noteq> NoFuel" "memoryExtCodeCopy U st \<noteq> NoFuel" "memoryMLoad U st \<noteq> NoFuel"
  "memoryMStore8 U st \<noteq> NoFuel" "memoryMStore U st \<noteq> NoFuel" "memoryCreate U st \<noteq> NoFuel"
  "memoryCreate2 U st \<noteq> NoFuel" "memoryCall U st \<noteq> NoFuel" "memoryDelegateCall U st \<noteq> NoFuel"
  "memoryStaticCall U st \<noteq> NoFuel" "memoryReturn U st \<noteq> NoFuel" "memoryRevert U st \<noteq> NoFuel" "memoryLog U st \<noteq> NoFuel"
  by (simp_all add: memorySha3_def memoryCallDataCopy_def memoryReturnDataCopy_def memoryCodeCopy_def memoryExtCodeCopy_def
      memoryMLoad_def memoryMStore8_def memoryMStore_def memoryCreate_def memoryCreate2_def memoryCall_def
      memoryDelegateCall_def memoryStaticCall_def memoryReturn_def memoryRevert_def memoryLog_def mem_fuel)

lemmas entry_defs = entry_shape_def halting_def

lemma frontier_entries:
  assumes ok: "env_ok E"
  shows "entries_ok E (frontierArithmetic @ frontierEnvironment @ frontierBlock @ frontierFlow @ frontierSystem)"
  unfolding frontierArithmetic_def frontierEnvironment_def frontierBlock_def frontierFlow_def frontierSystem_def
    entries_ok_simps(2) append.simps gasExpFrontier_def gasCallDataCopy_def gasCodeCopy_def gasExtCodeCopy_def
  by (intro conjI entries_ok_simps(1);
      (((rule simple_entry, rule arith_ok push_ok flow_ok state_reads_ok [OF ok] memory_ok [OF ok] copy_ok [OF ok]); simp; fail)
       | ((rule memory_entry, (simp; fail), rule arith_ok push_ok memory_ok [OF ok] copy_ok [OF ok], (simp; fail),
           rule memory_gas_ok); simp add: entry_defs; fail)
       | ((rule write_entry, (simp; fail), erule writes_ok [OF ok], (simp; fail), rule memory_gas_ok state_gas_ok [OF ok]);
           simp add: entry_defs; fail)
       | ((rule call_entry, rule exec_calls [OF ok], simp add: halting_def, (simp; fail), (simp; fail), (simp; fail),
           rule call_fn_small_ok, rule gasCall_ok [OF ok] gasCallCode_ok [OF ok]); simp add: entry_defs; fail)
       | ((rule entry_okI [OF exec_calls(5) [OF ok] charges_gas_fn [OF memory_gas_ok(1)]]); simp add: entry_defs; fail)
       | ((rule entry_okI [OF exec_entry charges_none], rule flow_ok); simp add: entry_defs; fail)))

lemma family_entry:
  assumes "\<not> is_call opc" "opc \<noteq> SELFDESTRUCT"
  shows "entry_ok E opc (opn (makePush sz k) 3 0 1)" "entry_ok E opc (opn opPush1 3 0 1)"
    "entry_ok E opc ((opn (makeDup k) 3 0 0)\<lparr>o_minStack := l, o_maxStack := maxDupStack n\<rparr>)"
    "entry_ok E opc ((opn (makeSwap k) 3 0 0)\<lparr>o_minStack := l, o_maxStack := maxSwapStack n\<rparr>)"
proof -
  show "entry_ok E opc (opn (makePush sz k) 3 0 1)" "entry_ok E opc (opn opPush1 3 0 1)"
    by ((rule simple_entry, rule flow_ok); use assms in simp)+
  show "entry_ok E opc ((opn (makeDup k) 3 0 0)\<lparr>o_minStack := l, o_maxStack := maxDupStack n\<rparr>)"
    "entry_ok E opc ((opn (makeSwap k) 3 0 0)\<lparr>o_minStack := l, o_maxStack := maxSwapStack n\<rparr>)"
    by ((rule entry_okI [OF exec_entry charges_none], rule flow_ok);
        use assms in \<open>simp add: entry_defs maxDupStack_def maxSwapStack_def maxStack_def\<close>)+
qed

lemma log_entry_ok:
  assumes "env_ok E" "\<not> is_call opc" "opc \<notin> {EXP, BALANCE, EXTCODESIZE, EXTCODEHASH, SLOAD, SSTORE, SELFDESTRUCT}"
  shows "entry_ok E opc ((opn (makeLog n) 0 (int n + 2) 0)\<lparr>o_dynamicGas := Some (makeGasLog k), o_memorySize := Some memoryLog,
    o_writes := True\<rparr>)"
  by ((rule write_entry, (simp; fail), erule writes_ok [OF assms(1)], (simp; fail), rule memory_gas_ok);
      use assms(2,3) in \<open>simp add: entry_defs\<close>)

lemma family_codes:
  "\<forall>n \<in> set [2..<33]. \<not> is_call (PUSH1 + of_nat (n - 1)) \<and> PUSH1 + of_nat (n - 1) \<noteq> SELFDESTRUCT"
  "\<forall>n \<in> set [1..<17]. \<not> is_call (0x80 + of_nat (n - 1)) \<and> 0x80 + of_nat (n - 1) \<noteq> SELFDESTRUCT"
  "\<forall>n \<in> set [1..<17]. \<not> is_call (0x90 + of_nat (n - 1)) \<and> 0x90 + of_nat (n - 1) \<noteq> SELFDESTRUCT"
  "\<forall>n \<in> set [0..<5]. \<not> is_call (0xa0 + of_nat n) \<and>
     0xa0 + of_nat n \<notin> {EXP, BALANCE, EXTCODESIZE, EXTCODEHASH, SLOAD, SSTORE, SELFDESTRUCT}"
  by code_simp+

lemma entries_ok_map: "entries_ok E (map (\<lambda>n. (k n, f n)) xs) \<longleftrightarrow> (\<forall>n \<in> set xs. entry_ok E (k n) (f n))"
  by (simp add: entries_ok_def list_all_iff)

lemma frontier_families:
  assumes ok: "env_ok E"
  shows "entries_ok E (frontierPush @ frontierDup @ frontierSwap @ frontierLog)"
  unfolding frontierPush_def frontierDup_def frontierSwap_def frontierLog_def entries_ok_simps entries_ok_map
  by (intro conjI ballI; (rule family_entry log_entry_ok [OF ok]))
    (use family_codes in \<open>(simp; fail) | blast\<close>)+

lemma frontier_ok: "env_ok E \<Longrightarrow> table_ok E newFrontierInstructionSet"
  unfolding newFrontierInstructionSet_def
  by (rule table_ok_map_of) (use frontier_entries frontier_families in \<open>auto simp: entries_ok_simps\<close>)

text \<open>Later forks add entries, or change the gas of an entry and nothing else.\<close>

lemma table_ok_fun_upd: "table_ok E jt \<Longrightarrow> entry_ok E k o' \<Longrightarrow> table_ok E (jt(k \<mapsto> o'))"
  by (simp add: table_ok_def)

lemma table_ok_upd_op:
  assumes "table_ok E jt" "\<And>o'. entry_ok E k o' \<Longrightarrow> entry_ok E k (f o')"
  shows "table_ok E (upd_op jt k f)"
  using assms by (auto simp: table_ok_def upd_op_def)

lemma upd_op_upd_op: "upd_op (upd_op jt k f) k g = upd_op jt k (\<lambda>o'. g (f o'))"
  by (simp add: upd_op_def option.map_comp comp_def)

lemma entry_frame:
  assumes "o_execute o2 = o_execute o1" "o_maxStack o2 = o_maxStack o1" "o_memorySize o2 = o_memorySize o1"
    "o_halts o2 = o_halts o1" "o_reverts o2 = o_reverts o1" "o_writes o2 = o_writes o1"
  shows "entry_exec E opc o2 = entry_exec E opc o1" "entry_shape opc o2 = entry_shape opc o1" "halting o2 = halting o1"
  using assms by (simp_all add: entry_exec_def entry_shape_def halting_def may_run_def)

lemma chargeDynamic_const [simp]: "chargeDynamic E (o'\<lparr>o_constantGas := g\<rparr>) = chargeDynamic E o'"
  by (simp add: chargeDynamic_def fun_eq_iff)

lemma const_gas_ok:
  assumes "entry_ok E opc o'" "1 \<le> unat g"
  shows "entry_ok E opc (const_gas g o')"
proof -
  from assms(1) obtain lo where "charges E opc o' lo" by (auto simp: entry_ok_def entry_gas_def)
  then have "charges E opc (const_gas g o') lo" by (simp add: charges_def)
  with assms show ?thesis
    by (intro entry_okI [of E opc _ lo]) (auto simp: entry_ok_def entry_frame [of "const_gas g o'" o'])
qed

lemma dyn_gas_ok:
  assumes "entry_ok E opc o'" "gas_fn_ok E lo mem f" "\<not> is_call opc"
    "mem \<or> opc \<in> {EXP, BALANCE, EXTCODESIZE, EXTCODEHASH, SLOAD, SSTORE, SELFDESTRUCT}"
    "1 \<le> unat g + lo \<or> opc = SELFDESTRUCT"
  shows "entry_ok E opc (dyn_gas f (const_gas g o'))"
    "g = o_constantGas o' \<Longrightarrow> entry_ok E opc (dyn_gas f o')"
proof -
  let ?o = "dyn_gas f (const_gas g o')"
  have fr: "entry_exec E opc ?o = entry_exec E opc o'" "entry_shape opc ?o = entry_shape opc o'" "halting ?o = halting o'"
    by (rule entry_frame; simp)+
  have sh: "entry_shape opc o'" "entry_exec E opc o'" using assms(1) by (simp_all add: entry_ok_def)
  note parts = sh(1) [unfolded entry_shape_def]
  have m: "mem \<or> o_memorySize o' = None" using assms(4) parts [THEN conjunct1] by argo
  have h: "opc = SELFDESTRUCT \<longrightarrow> halting o'" by (rule parts [THEN conjunct2, THEN conjunct1])
  have c: "charges E opc ?o lo" by (rule charges_gas_fn [OF assms(2) _ _ assms(3)]) (use m in simp_all)
  have p: "halting ?o \<or> 1 \<le> unat (o_constantGas ?o) + lo" using assms(5) h unfolding fr by auto
  show r: "entry_ok E opc ?o" by (rule entry_okI [OF _ c p]) (simp_all only: fr sh)
  show "entry_ok E opc (dyn_gas f o')" if "g = o_constantGas o'" using r unfolding that by simp
qed

lemma call_gas_ok:
  assumes "entry_ok E opc o'" "call_fn_ok E valued f"
    "valued \<and> (opc = CALL \<or> opc = CALLCODE) \<or> \<not> valued \<and> (opc = DELEGATECALL \<or> opc = STATICCALL)" "1 \<le> unat g"
  shows "entry_ok E opc (dyn_gas f (const_gas g o'))"
  by (rule call_entry [OF _ _ assms(2,3)])
    (use assms(1,4) in \<open>simp_all add: entry_ok_def entry_frame [of "dyn_gas f (const_gas g o')" o']\<close>)

lemma homestead_ok: "env_ok E \<Longrightarrow> table_ok E newHomesteadInstructionSet"
  unfolding newHomesteadInstructionSet_def
  by (rule table_ok_fun_upd [OF frontier_ok], assumption)
    ((rule call_entry, rule exec_calls, assumption, simp add: halting_def, (simp; fail), (simp; fail), (simp; fail),
      rule call_fn_small_ok, rule delegate_gas_ok); simp add: entry_defs)

lemma tangerine_ok: "env_ok E \<Longrightarrow> table_ok E newTangerineWhistleInstructionSet"
  unfolding newTangerineWhistleInstructionSet_def Let_def
  by (intro table_ok_upd_op const_gas_ok homestead_ok) simp_all

lemma dyn_gas_ok':
  assumes "entry_ok E opc o'" "gas_fn_ok E lo mem f" "\<not> is_call opc"
    "mem \<or> opc \<in> {EXP, BALANCE, EXTCODESIZE, EXTCODEHASH, SLOAD, SSTORE, SELFDESTRUCT}" "1 \<le> lo \<or> opc = SELFDESTRUCT"
  shows "entry_ok E opc (dyn_gas f o')"
  by (rule dyn_gas_ok(2) [OF assms(1-4) _ refl]) (use assms(5) in auto)

lemma spurious_ok: "env_ok E \<Longrightarrow> table_ok E newSpuriousDragonInstructionSet"
  unfolding newSpuriousDragonInstructionSet_def gasExpEIP158_def
  by (rule table_ok_upd_op [OF tangerine_ok], assumption) (rule dyn_gas_ok' [OF _ memory_gas_ok(6)]; simp)

lemma byzantium_ok: "env_ok E \<Longrightarrow> table_ok E newByzantiumInstructionSet"
  unfolding newByzantiumInstructionSet_def gasReturnDataCopy_def
  by (intro table_ok_fun_upd spurious_ok;
      (assumption | ((rule simple_entry, rule push_ok); simp; fail)
       | ((rule memory_entry, (simp; fail), rule memory_ok copy_ok, assumption, (simp; fail), rule memory_gas_ok);
           simp add: entry_defs; fail)
       | ((rule call_entry, rule exec_calls, assumption, simp add: halting_def, (simp; fail), (simp; fail), (simp; fail),
           rule call_fn_small_ok, rule delegate_gas_ok); simp add: entry_defs; fail)))

lemma constantinople_ok: "env_ok E \<Longrightarrow> table_ok E newConstantinopleInstructionSet"
  unfolding newConstantinopleInstructionSet_def
  by (intro table_ok_fun_upd byzantium_ok;
      (assumption | ((rule simple_entry, rule arith_ok state_reads_ok, assumption?); simp; fail)
       | (rule entry_okI [OF exec_calls(6) charges_gas_fn [OF memory_gas_ok(4)]]; simp add: entry_defs; fail)))

lemma istanbul_ok: "env_ok E \<Longrightarrow> table_ok E newIstanbulInstructionSet"
  unfolding newIstanbulInstructionSet_def enable2200_def enable1884_def enable1344_def Let_def
  by (intro table_ok_upd_op const_gas_ok table_ok_fun_upd constantinople_ok;
      (assumption | (simp; fail) | (rule dyn_gas_ok' [OF _ state_gas_ok(2)]; simp; fail)
       | ((rule simple_entry, rule push_ok state_reads_ok, assumption?); simp; fail)))

lemma berlin_ok:
  assumes ok: "env_ok E" and r: "r_IsEIP150 (e_rules E)"
  shows "table_ok E newBerlinInstructionSet"
proof -
  note acc = dyn_gas_ok(1) [OF _ state_gas_ok(5) [OF ok]]
  note v = variant_ok [OF ok _ r]
  have c: "call_fn_ok E True gasCallEIP2929" "call_fn_ok E True gasCallCodeEIP2929"
    "call_fn_ok E False gasStaticCallEIP2929" "call_fn_ok E False gasDelegateCallEIP2929"
    unfolding gasCallEIP2929_def gasCallCodeEIP2929_def gasStaticCallEIP2929_def gasDelegateCallEIP2929_def
    by (rule v gasCall_ok gasCallCode_ok delegate_gas_ok ok)+
  show ?thesis
    unfolding newBerlinInstructionSet_def enable2929_def Let_def upd_op_upd_op
      gasSStoreEIP2929_def gasSelfdestructEIP2929_def
    by (intro table_ok_upd_op istanbul_ok [OF ok];
        ((rule dyn_gas_ok' [OF _ state_gas_ok(3) [OF ok]]; simp; fail)
         | (rule dyn_gas_ok(1) [OF _ state_gas_ok(4) [OF ok]]; simp; fail)
         | (rule dyn_gas_ok(1) [OF _ ext_copy_gas_ok [OF ok]]; simp; fail)
         | (rule dyn_gas_ok(1) [OF _ state_gas_ok(7) [OF ok]]; simp; fail)
         | (rule acc; simp; fail) | ((rule call_gas_ok, assumption, rule c); simp; fail)))
qed

lemma london_ok:
  assumes ok: "env_ok E" and r: "r_IsEIP150 (e_rules E)"
  shows "table_ok E newLondonInstructionSet"
  unfolding newLondonInstructionSet_def enable3529_def enable3198_def Let_def gasSStoreEIP3529_def gasSelfdestructEIP3529_def
  by (intro table_ok_upd_op table_ok_fun_upd berlin_ok [OF ok r];
      ((rule dyn_gas_ok' [OF _ state_gas_ok(3) [OF ok]]; simp; fail)
       | (rule dyn_gas_ok' [OF _ state_gas_ok(7) [OF ok]]; simp; fail)
       | ((rule simple_entry, rule push_ok); simp; fail)))

text \<open>The rules for which the tables are written: the access costs of Berlin presuppose EIP-150.\<close>

definition rules_ok :: "Rules \<Rightarrow> bool" where
  "rules_ok r \<longleftrightarrow> (r_IsBerlin r \<or> r_IsLondon r \<longrightarrow> r_IsEIP150 r)"

lemma instructionSet_ok:
  assumes "env_ok E" "rules_ok (e_rules E)"
  shows "table_ok E (instructionSet (e_rules E))"
  using assms unfolding instructionSet_def rules_ok_def
  by (simp add: frontier_ok homestead_ok tangerine_ok spurious_ok byzantium_ok constantinople_ok istanbul_ok berlin_ok london_ok)

end
