(* ===== verification/RunEffects.thy ===== *)
theory RunEffects
  imports TableEffects
begin

text \<open>
  The run of a contract.  The loop of \<open>Run\<close> is verified once for every instruction table that keeps
  the contract of \<open>TableEffects\<close>, and the tables of the forks are then put in its place.
\<close>

section \<open>One iteration\<close>

text \<open>The invariant of a frame: the state, the memory, and the stack limit.\<close>

definition frame_ok :: "'t env \<Rightarrow> 't vm \<Rightarrow> bool" where
  "frame_ok E v \<longleftrightarrow> v_inv E v \<and> mem_ok (v_mem v) \<and> length (v_stack v) \<le> 1024"

definition step_post :: "'t env \<Rightarrow> 't vm \<Rightarrow> 't stepResult \<Rightarrow> bool" where
  "step_post E v r =
     (case r of
        Continue v' \<Rightarrow> m_evolves E (m_readOnly (v_m v)) (v_m v) (v_m v') \<and> frame_ok E v' \<and> gas_of v' < gas_of v
      | Return v' res err \<Rightarrow> m_evolves E (m_readOnly (v_m v)) (v_m v) (v_m v') \<and> gas_of v' \<le> gas_of v)"

lemma checkOperation_post:
  assumes "env_ok E"
  shows "post (checkOperation E opc o' v) (\<lambda>bad. bad = None \<longrightarrow> int (length (v_stack v)) \<le> o_maxStack o' \<and> may_run E opc o' v)"
proof -
  have u: "u_Sign (e_U E) x = 0 \<longleftrightarrow> x = 0" for x using assms by (simp add: env_ok_def uint256_ok_def)
  have "post (stack_Back (v_stack v) 2) (\<lambda>x. x = v_stack v ! 2)"
    by (simp add: stack_Back_def go_index_def)
  then show ?thesis
    unfolding checkOperation_def Let_def
    by (auto simp: may_run_def u elim: post_mono)
qed

lemma memorySizeOf_post:
  assumes "entry_shape opc o'"
  shows "post (memorySizeOf E o' v) (\<lambda>sz. case sz of Inl _ \<Rightarrow> True
    | Inr ms \<Rightarrow> 32 dvd unat ms \<and> (o_memorySize o' = None \<longrightarrow> ms = 0))"
proof (cases "o_memorySize o'")
  case None
  then show ?thesis by (simp add: memorySizeOf_def)
next
  case (Some f)
  with assms have f: "f (e_U E) st \<noteq> NoFuel" for st by (simp add: entry_shape_def)
  have "32 dvd unat p" if "SafeMul x 32 = (p, False)" for x p
    using SafeMul_exact [of x 32] that by auto
  then show ?thesis
    unfolding memorySizeOf_def Some by (auto intro!: post_const [OF f] split: prod.split)
qed

text \<open>The execution phase, after the charges: \<open>v0\<close> is the frame at the start of the iteration.\<close>

lemma execute_post:
  assumes ok: "env_ok E" and e: "entry_exec E opc o'" and R: "runner_ok E n R"
    and v: "v_inv E v" "mem_ok (v_mem v)" "m_evolves E (m_readOnly (v_m v0)) (v_m v0) (v_m v)" "v_inv E v0"
    and st: "int (length (v_stack v)) \<le> o_maxStack o'" and run: "may_run E opc o' v"
    and g: "gas_of v + budget opc v \<le> gas_of v0" "halting o' \<or> gas_of v + budget opc v < gas_of v0" "gas_of v0 \<le> n"
  shows "post (bnd (o_execute o' E R v) (\<lambda>r. Ok (finishStep o' r))) (step_post E v0)"
proof -
  have ro: "m_readOnly (v_m v) = m_readOnly (v_m v0)" using v(3) by (simp add: m_evolves_def)
  have "gas_of v + budget opc v < 2 ^ 64" "halting o' \<or> gas_of v + budget opc v < n"
    using g unat_u64_bound [of "c_Gas (v_contract v0)"] by auto
  with e obtain pops push where p: "o_maxStack o' = 1024 + int pops - int push"
    and x: "post (o_execute o' E R v) (exec_post E pops push (budget opc v) v)"
    using R v(1) run unfolding entry_exec_def by blast
  show ?thesis
    unfolding post_bnd
  proof (rule post_mono [OF x])
    fix r :: "'a vm \<times> bytes \<times> vmError option"
    obtain v' res err where r: "r = (v', res, err)" by (cases r)
    assume "exec_post E pops push (budget opc v) v r"
    then have y: "v_evolves E (m_readOnly (v_m v0)) v v'" "gas_of v' \<le> gas_of v + budget opc v"
      "err = None \<longrightarrow> length (v_stack v') + pops = length (v_stack v) + push" by (simp_all add: r exec_post_def ro)
    define v2 where "v2 = (if o_returns o' then v'\<lparr>v_m := (v_m v')\<lparr>m_returnData := res\<rparr>\<rparr> else v')"
    have y2: "v_evolves E (m_readOnly (v_m v0)) v v2" "gas_of v2 = gas_of v'" "v_stack v2 = v_stack v'"
      using y(1) by (simp_all add: v2_def)
    have m2: "m_evolves E (m_readOnly (v_m v0)) (v_m v0) (v_m v2)"
      using m_evolves_trans [OF v(3) _ v(4) ok] y2(1) by (simp add: v_evolves_def)
    have mem: "mem_ok (v_mem v2)" using y2(1) v(2) by (simp add: v_evolves_def mem_ok_def)
    have ret: "step_post E v0 (Return v2 a b)" for a b using m2 y2 y(2) g(1) by (simp add: step_post_def)
    have "err = None \<Longrightarrow> length (v_stack v2) \<le> 1024" using y(3) y2(3) st p by simp
    then have cont: "step_post E v0 (Continue (v2\<lparr>v_pc := pc\<rparr>))" "step_post E v0 (Continue v2)"
      if "err = None" "\<not> halting o'" for pc
      using m2 m_evolves_inv [OF m2] mem y2 y(2) g(2) that by (simp_all add: step_post_def frame_ok_def)
    show "post (Ok (finishStep o' r)) (step_post E v0)"
      unfolding finishStep_def r prod.case Let_def v2_def [symmetric]
      using ret cont by (auto simp: halting_def split: option.split)
  qed
qed

lemma runOperation_eq:
  "runOperation E o' R v ms =
    bnd (o_execute o' E R (v\<lparr>v_mem := resized (v_mem v) ms\<rparr>)) (\<lambda>r. Ok (finishStep o' r))"
proof -
  have "(if ms > 0 then v\<lparr>v_mem := Memory_Resize (v_mem v) ms\<rparr> else v) = v\<lparr>v_mem := resized (v_mem v) ms\<rparr>"
    by (simp add: resized_def)
  then show ?thesis by (simp add: runOperation_def Let_def)
qed

lemma charged_post:
  assumes ok: "env_ok E" and e: "entry_exec E opc o'" and R: "runner_ok E n R" and v: "v_inv E v0" "gas_of v0 \<le> n"
    and c: "unat (c_Gas c) + k = gas_of v0" "halting o' \<or> 1 \<le> k + lo"
    and st: "int (length (v_stack v0)) \<le> o_maxStack o'" "may_run E opc o' v0"
    and p: "charge_post E opc lo (v0\<lparr>v_contract := c\<rparr>) ms (v, good)"
  shows "post (if \<not> good then Ok (Return v [] (Some ErrOutOfGas)) else runOperation E o' R v ms) (step_post E v0)"
proof -
  have q: "m_evolves E True (v_m v0) (v_m v)" "gas_of v \<le> unat (c_Gas c)"
    "good \<Longrightarrow> v_stack v = v_stack v0 \<and> mem_ok (resized (v_mem v) ms) \<and> gas_of v + budget opc v + lo \<le> unat (c_Gas c)"
    using p by (simp_all add: charge_post_def)
  have m: "m_evolves E (m_readOnly (v_m v0)) (v_m v0) (v_m v)" by (rule m_evolves_weaken [OF q(1)])
  show ?thesis
  proof (cases good)
    case False
    then show ?thesis using m q(2) c by (simp add: step_post_def)
  next
    case True
    let ?v = "v\<lparr>v_mem := resized (v_mem v) ms\<rparr>"
    note t = q(3) [OF True]
    have run: "may_run E opc o' ?v" using st(2) m t by (simp add: may_run_def m_evolves_def)
    have b: "budget opc ?v = budget opc v" by (simp add: budget_def stipend_def)
    have g: "gas_of ?v + budget opc ?v \<le> gas_of v0" "halting o' \<or> gas_of ?v + budget opc ?v < gas_of v0"
      using t c by (auto simp: b)
    have "post (runOperation E o' R v ms) (step_post E v0)"
      unfolding runOperation_eq
      by (rule execute_post [OF ok e R _ _ _ v(1) _ run g v(2)]) (use m m_evolves_inv [OF m] t st(1) in simp_all)
    then show ?thesis using True by simp
  qed
qed

lemma chargeAndRun_post:
  assumes ok: "env_ok E" and e: "entry_ok E opc o'" and R: "runner_ok E n R" and v: "frame_ok E v0" "gas_of v0 \<le> n"
    and c: "unat (c_Gas c) + unat (o_constantGas o') = gas_of v0"
    and st: "int (length (v_stack v0)) \<le> o_maxStack o'" "may_run E opc o' v0"
  shows "post (chargeAndRun E o' R (v0\<lparr>v_contract := c\<rparr>)) (step_post E v0)"
proof -
  have inv: "v_inv E v0" "mem_ok (v_mem v0)" using v(1) by (simp_all add: frame_ok_def)
  from e obtain lo where lo: "halting o' \<or> 1 \<le> unat (o_constantGas o') + lo" "charges E opc o' lo"
    by (auto simp: entry_ok_def entry_gas_def)
  have x: "entry_exec E opc o'" "entry_shape opc o'" using e by (simp_all add: entry_ok_def)
  have stop: "step_post E v0 (Return (v0\<lparr>v_contract := c\<rparr>) [] err)" for err
    using inv(1) c by (simp add: step_post_def m_evolves_refl)
  show ?thesis
    unfolding chargeAndRun_def post_bnd
  proof (rule post_mono [OF memorySizeOf_post [OF x(2)]])
    fix sz :: "vmError + u64"
    assume sz: "case sz of Inl _ \<Rightarrow> True | Inr ms \<Rightarrow> 32 dvd unat ms \<and> (o_memorySize o' = None \<longrightarrow> ms = 0)"
    have ch: "post (bnd (chargeDynamic E o' (v0\<lparr>v_contract := c\<rparr>) ms) (\<lambda>(v, good).
        if \<not> good then Ok (Return v [] (Some ErrOutOfGas)) else runOperation E o' R v ms)) (step_post E v0)"
      if ms: "sz = Inr ms" for ms
    proof -
      have p: "post (chargeDynamic E o' (v0\<lparr>v_contract := c\<rparr>) ms) (charge_post E opc lo (v0\<lparr>v_contract := c\<rparr>) ms)"
        using lo(2) inv sz ms by (simp add: charges_def)
      show ?thesis
        unfolding post_bnd
        by (rule post_mono [OF p]) (use charged_post [OF ok x(1) R inv(1) v(2) c lo(1) st] in \<open>auto simp del: post_if\<close>)
    qed
    show "post (case sz of Inl e \<Rightarrow> Ok (Return (v0\<lparr>v_contract := c\<rparr>) [] (Some e))
        | Inr ms \<Rightarrow> bnd (chargeDynamic E o' (v0\<lparr>v_contract := c\<rparr>) ms) (\<lambda>(v, good).
            if \<not> good then Ok (Return v [] (Some ErrOutOfGas)) else runOperation E o' R v ms)) (step_post E v0)"
      using stop ch by (cases sz) (simp_all del: post_bnd)
  qed
qed

lemma step_ok:
  assumes ok: "env_ok E" and jt: "table_ok E jt" and R: "runner_ok E n R" and v: "frame_ok E v" "gas_of v \<le> n"
  shows "post (step E jt R v) (step_post E v)"
proof -
  have stop: "step_post E v (Return v a b)" for a b
    using v(1) by (simp add: step_post_def m_evolves_refl frame_ok_def)
  show ?thesis
  proof (cases "jt (GetOp (v_contract v) (v_pc v))")
    case None
    then show ?thesis using stop by (simp add: step_def)
  next
    case (Some o')
    define opc where "opc = GetOp (v_contract v) (v_pc v)"
    have e: "entry_ok E opc o'" using jt Some by (simp add: table_ok_def opc_def)
    have run: "post (case UseGas (v_contract v) (o_constantGas o') of
          (c, False) \<Rightarrow> Ok (Return v [] (Some ErrOutOfGas)) | (c, True) \<Rightarrow> chargeAndRun E o' R (v\<lparr>v_contract := c\<rparr>)) (step_post E v)"
      if st: "int (length (v_stack v)) \<le> o_maxStack o'" "may_run E opc o' v"
    proof (cases "c_Gas (v_contract v) < o_constantGas o'")
      case True
      then show ?thesis using stop by (simp add: UseGas_def)
    next
      case False
      then show ?thesis
        by (simp add: UseGas_def) (rule chargeAndRun_post [OF ok e R v _ st], simp add: unat_sub_le not_less word_le_nat_alt)
    qed
    show ?thesis
      unfolding step_def Let_def opc_def [symmetric] Some [folded opc_def] option.case post_bnd
      by (rule post_mono [OF checkOperation_post [OF ok]]) (use run stop in \<open>auto split: option.split simp del: post_bnd\<close>)
  qed
qed

section \<open>The loop, for any instruction table that keeps the contract\<close>

definition run_post :: "'t env \<Rightarrow> 't vm \<Rightarrow> 't vm \<times> bytes \<times> vmError option \<Rightarrow> bool" where
  "run_post E v = (\<lambda>(v', res, err). m_evolves E (m_readOnly (v_m v)) (v_m v) (v_m v') \<and> gas_of v' \<le> gas_of v)"

text \<open>A frame and the frames that the loop reaches from it, each iteration with fuel for its nested runs.\<close>

inductive frame_reaches :: "'t env \<Rightarrow> 't JumpTable \<Rightarrow> 't vm \<Rightarrow> 't vm \<Rightarrow> bool" for E jt v0 where
  start: "frame_reaches E jt v0 v0"
| iteration: "frame_reaches E jt v0 v \<Longrightarrow> poll E k v = (v1, False) \<Longrightarrow> gas_of v1 \<le> n \<Longrightarrow>
    step E jt (Run n E jt) v1 = Ok (Continue v2) \<Longrightarrow> frame_reaches E jt v0 v2"

lemma poll_frame:
  assumes "poll E k v = (v', b)"
  shows "m_evolves E ro m (v_m v') = m_evolves E ro m (v_m v)" "m_evolves E ro (v_m v') m = m_evolves E ro (v_m v) m"
    "frame_ok E v' = frame_ok E v" "c_Gas (v_contract v') = c_Gas (v_contract v)" "m_readOnly (v_m v') = m_readOnly (v_m v)"
    "v_stack v' = v_stack v" "v_mem v' = v_mem v"
  using assms by (auto simp: poll_def m_evolves_def frame_ok_def m_inv_def split: if_splits)

locale instruction_table =
  fixes table :: "Rules \<Rightarrow> 't JumpTable" and admissible :: "Rules \<Rightarrow> bool"
  assumes entries: "env_ok E \<Longrightarrow> admissible (e_rules E) \<Longrightarrow> table_ok E (table (e_rules E))"
begin

lemma run_ok_of_loop:
  assumes "env_ok E" "\<And>steps v. frame_ok E v \<Longrightarrow> gas_of v < n \<Longrightarrow> post (k steps v) (run_post E v)"
  shows "runner_ok E n (runWith k)"
  unfolding runner_ok_def
proof (intro allI impI)
  fix m and c :: Contract and input ro assume a: "m_inv E m" "unat (c_Gas c) < n"
  let ?m = "enterRun ro m"
  have r: "m_evolves E (m_readOnly m \<or> ro) m (leaveRun ro m m') \<longleftrightarrow> m_evolves E (m_readOnly ?m) ?m m'"
    if "m_evolves E (m_readOnly ?m) ?m m'" for m'
    using that by (auto simp: m_evolves_def enterRun_def leaveRun_def)
  have i: "m_inv E ?m" using a(1) by (simp add: m_inv_def enterRun_def)
  have f: "frame_ok E (newFrame ?m c input)" using i by (simp add: frame_ok_def newFrame_def mem_ok_New)
  have p: "post (k 0 (newFrame ?m c input)) (run_post E (newFrame ?m c input))"
    by (rule assms(2) [OF f]) (simp add: newFrame_def a(2))
  show "post (runWith k m c input ro) (\<lambda>(m', c', ret, err). m_evolves E (m_readOnly m \<or> ro) m m' \<and> c_Gas c' \<le> c_Gas c)"
  proof (cases "c_Code c = []")
    case True
    then show ?thesis using r [OF m_evolves_refl [OF i]] m_evolves_refl [OF i] by (simp add: runWith_def)
  next
    case False
    then show ?thesis
      unfolding runWith_def Let_def
      by (simp, intro post_mono [OF p]) (auto simp: run_post_def newFrame_def r word_le_nat_alt)
  qed
qed

lemma loop_ok:
  assumes ok: "env_ok E" "admissible (e_rules E)"
  shows "frame_ok E v \<Longrightarrow> gas_of v < n \<Longrightarrow> post (loop n E (table (e_rules E)) steps v) (run_post E v)"
proof (induction n arbitrary: v steps)
  case (Suc n)
  let ?jt = "table (e_rules E)"
  obtain v1 aborted where v1: "poll E (steps + 1) v = (v1, aborted)" by (cases "poll E (steps + 1) v")
  note pf = poll_frame [OF v1]
  have inv: "v_inv E v" using Suc.prems by (simp add: frame_ok_def)
  have R: "runner_ok E n (runWith (loop n E ?jt))" by (rule run_ok_of_loop [OF ok(1)]) (rule Suc.IH)
  have s: "post (step E ?jt (runWith (loop n E ?jt)) v1) (step_post E v1)"
    by (rule step_ok [OF ok(1) entries [OF ok] R]) (use Suc.prems pf in simp_all)
  have go: "post (case r of Return v res err \<Rightarrow> Ok (v, res, err) | Continue v \<Rightarrow> loop n E ?jt (steps + 1) v) (run_post E v)"
    if r: "step_post E v1 r" for r
  proof (cases r)
    case (Continue v2)
    with r have q: "m_evolves E (m_readOnly (v_m v)) (v_m v) (v_m v2)" "frame_ok E v2" "gas_of v2 < gas_of v"
      by (simp_all add: step_post_def pf)
    have ro: "m_readOnly (v_m v2) = m_readOnly (v_m v)" using q(1) by (simp add: m_evolves_def)
    have "post (loop n E ?jt (steps + 1) v2) (run_post E v2)" by (rule Suc.IH [OF q(2)]) (use q(3) Suc.prems in simp)
    then show ?thesis
      unfolding Continue stepResult.case
      by (rule post_mono) (use m_evolves_trans [OF q(1) _ inv ok(1)] q(3) ro in \<open>auto simp: run_post_def\<close>)
  next
    case (Return v2 res err)
    with r show ?thesis by (simp add: step_post_def run_post_def pf)
  qed
  show ?case
    unfolding loop.simps iterate_def v1 prod.case post_if post_bnd
    using post_mono [OF s go] inv by (auto simp: run_post_def pf m_evolves_refl simp del: post_bnd)
qed simp

lemma Run_ok: "env_ok E \<Longrightarrow> admissible (e_rules E) \<Longrightarrow> runner_ok E n (Run n E (table (e_rules E)))"
  unfolding Run_def by (rule run_ok_of_loop) (simp_all add: loop_ok)

lemma reaches_ok:
  assumes ok: "env_ok E" "admissible (e_rules E)" and v0: "frame_ok E v0"
  shows "frame_reaches E (table (e_rules E)) v0 v \<Longrightarrow>
    frame_ok E v \<and> gas_of v \<le> gas_of v0 \<and> m_evolves E (m_readOnly (v_m v0)) (v_m v0) (v_m v)"
proof (induction rule: frame_reaches.induct)
  case start
  then show ?case using v0 by (simp add: frame_ok_def m_evolves_refl)
next
  case (iteration v k v1 n v2)
  note pf = poll_frame [OF iteration.hyps(2)]
  have "post (step E (table (e_rules E)) (Run n E (table (e_rules E))) v1) (step_post E v1)"
    by (rule step_ok [OF ok(1) entries [OF ok] Run_ok [OF ok]]) (use iteration pf in simp_all)
  then have q: "m_evolves E (m_readOnly (v_m v)) (v_m v) (v_m v2)" "frame_ok E v2" "gas_of v2 < gas_of v"
    using iteration.hyps(4) by (simp_all add: step_post_def pf)
  have "m_readOnly (v_m v) = m_readOnly (v_m v0)" using iteration.IH by (simp add: m_evolves_def)
  with q iteration.IH m_evolves_trans [of E "m_readOnly (v_m v0)" "v_m v0" "v_m v" "v_m v2"] v0 ok(1)
  show ?case by (simp add: frame_ok_def)
qed

end

text \<open>The tables of the forks keep the contract, so the loop may be run on them.\<close>

interpretation forks: instruction_table instructionSet rules_ok
  by unfold_locales (rule instructionSet_ok)

end
