(* ===== verification/Fuel.thy ===== *)
theory Fuel
  imports RunEffects
begin

text \<open>
  The fuel of the interpreter loop does not matter once there is enough of it: more fuel never
  changes a result that was reached with less.
\<close>

definition fuel_le :: "'a outcome \<Rightarrow> 'a outcome \<Rightarrow> bool" where
  "fuel_le r r' \<longleftrightarrow> r = NoFuel \<or> r = r'"

definition runner_le :: "'t runner \<Rightarrow> 't runner \<Rightarrow> bool" where
  "runner_le R R' \<longleftrightarrow> (\<forall>m c input ro. fuel_le (R m c input ro) (R' m c input ro))"

definition exec_mono :: "'t executionFunc \<Rightarrow> bool" where
  "exec_mono f \<longleftrightarrow> (\<forall>E R R' v. runner_le R R' \<longrightarrow> fuel_le (f E R v) (f E R' v))"

definition table_mono :: "'t JumpTable \<Rightarrow> bool" where
  "table_mono jt \<longleftrightarrow> (\<forall>opc o'. jt opc = Some o' \<longrightarrow> exec_mono (o_execute o'))"

lemma fuel_le_refl [simp]: "fuel_le r r"
  by (simp add: fuel_le_def)

lemma fuel_le_trans: "fuel_le a b \<Longrightarrow> fuel_le b c \<Longrightarrow> fuel_le a c"
  by (auto simp: fuel_le_def)

lemma fuel_le_bnd: "fuel_le r r' \<Longrightarrow> (\<And>x. fuel_le (f x) (f' x)) \<Longrightarrow> fuel_le (bnd r f) (bnd r' f')"
  by (cases r'; cases r) (auto simp: fuel_le_def)

lemma fuel_le_cases:
  "(b \<Longrightarrow> fuel_le x x') \<Longrightarrow> (\<not> b \<Longrightarrow> fuel_le y y') \<Longrightarrow> fuel_le (if b then x else y) (if b then x' else y')"
  "(\<And>a b. fuel_le (f a b) (f' a b)) \<Longrightarrow> fuel_le (case p of (a, b) \<Rightarrow> f a b) (case p of (a, b) \<Rightarrow> f' a b)"
  "fuel_le x x' \<Longrightarrow> (\<And>a. fuel_le (g a) (g' a)) \<Longrightarrow>
    fuel_le (case z of None \<Rightarrow> x | Some a \<Rightarrow> g a) (case z of None \<Rightarrow> x' | Some a \<Rightarrow> g' a)"
  by (auto split: prod.split option.split)

lemmas fuel_le_rules = fuel_le_refl fuel_le_bnd fuel_le_cases

lemma runner_leD: "runner_le R R' \<Longrightarrow> fuel_le (R m c input ro) (R' m c input ro)"
  by (simp add: runner_le_def)

lemma runContract_mono: "runner_le R R' \<Longrightarrow> fuel_le (runContract R a m c i ro) (runContract R' a m c i ro)"
  unfolding runContract_def by (intro fuel_le_rules runner_leD)

lemma calls_mono:
  assumes "runner_le R R'"
  shows "fuel_le (Call E R m a b i g x) (Call E R' m a b i g x)" "fuel_le (CallCode E R m a b i g x) (CallCode E R' m a b i g x)"
    "fuel_le (DelegateCall E R m a b i g) (DelegateCall E R' m a b i g)" "fuel_le (StaticCall E R m a b i g) (StaticCall E R' m a b i g)"
    "fuel_le (create E R m a ch g x b) (create E R' m a ch g x b)"
  unfolding Call_def CallCode_def DelegateCall_def StaticCall_def create_def Let_def
  by (intro fuel_le_rules runContract_mono runner_leD assms)+

lemma creations_mono:
  assumes "runner_le R R'"
  shows "fuel_le (Create E R m a code g x) (Create E R' m a code g x)"
    "fuel_le (Create2 E R m a code g x salt) (Create2 E R' m a code g x salt)"
  unfolding Create_def Create2_def Let_def by (intro fuel_le_rules calls_mono assms)+

lemma fuel_le_list: "fuel_le x x' \<Longrightarrow> (\<And>a l. fuel_le (f a l) (f' a l)) \<Longrightarrow>
    fuel_le (case xs of [] \<Rightarrow> x | a # l \<Rightarrow> f a l) (case xs of [] \<Rightarrow> x' | a # l \<Rightarrow> f' a l)"
  by (auto split: list.split)

lemma exec_mono_calls:
  "exec_mono opCall" "exec_mono opCallCode" "exec_mono opDelegateCall" "exec_mono opStaticCall" "exec_mono opCreate" "exec_mono opCreate2"
  unfolding exec_mono_def opCall_def opCallCode_def opDelegateCall_def opStaticCall_def opCreate_def opCreate2_def Let_def
  by (intro allI impI fuel_le_rules fuel_le_list calls_mono creations_mono; assumption)+

text \<open>Every other instruction ignores the interpreter.\<close>

lemma exec_mono_const: "(\<And>E R R' v. f E R v = f E R' v) \<Longrightarrow> exec_mono f"
  unfolding exec_mono_def by (metis fuel_le_refl)

lemma exec_mono_ops:
  "exec_mono opAdd" "exec_mono opSub" "exec_mono opMul" "exec_mono opDiv" "exec_mono opSdiv" "exec_mono opMod" "exec_mono opSmod"
  "exec_mono opExp" "exec_mono opSignExtend" "exec_mono opNot" "exec_mono opLt" "exec_mono opGt" "exec_mono opSlt" "exec_mono opSgt"
  "exec_mono opEq" "exec_mono opIszero" "exec_mono opAnd" "exec_mono opOr" "exec_mono opXor" "exec_mono opByte" "exec_mono opAddmod"
  "exec_mono opMulmod" "exec_mono opSHL" "exec_mono opSHR" "exec_mono opSAR"
  "exec_mono opAddress" "exec_mono opOrigin" "exec_mono opCaller" "exec_mono opCallValue" "exec_mono opCallDataSize"
  "exec_mono opReturnDataSize" "exec_mono opCodeSize" "exec_mono opGasprice" "exec_mono opBlockhash" "exec_mono opCoinbase"
  "exec_mono opTimestamp" "exec_mono opNumber" "exec_mono opDifficulty" "exec_mono opGasLimit" "exec_mono opChainID"
  "exec_mono opBaseFee" "exec_mono opPc" "exec_mono opMsize" "exec_mono opGas"
  by (rule exec_mono_const; simp only: arith_defs opAddress_def opOrigin_def opCaller_def opCallValue_def opCallDataSize_def
      opReturnDataSize_def opCodeSize_def opGasprice_def opBlockhash_def opCoinbase_def opTimestamp_def opNumber_def
      opDifficulty_def opGasLimit_def opChainID_def opBaseFee_def opPc_def opMsize_def opGas_def)+

lemma exec_mono_more:
  "exec_mono opCallDataCopy" "exec_mono opCodeCopy" "exec_mono opExtCodeCopy" "exec_mono opReturnDataCopy" "exec_mono opSha3"
  "exec_mono opMload" "exec_mono opMstore" "exec_mono opMstore8" "exec_mono opReturn" "exec_mono opRevert" "exec_mono opCallDataLoad"
  "exec_mono opBalance" "exec_mono opExtCodeSize" "exec_mono opExtCodeHash" "exec_mono opSelfBalance" "exec_mono opSload"
  "exec_mono opSstore" "exec_mono opSuicide" "exec_mono (makeLog n)" "exec_mono opPop" "exec_mono opJump" "exec_mono opJumpi"
  "exec_mono opJumpdest" "exec_mono opStop" "exec_mono opPush1" "exec_mono (makePush sz k)" "exec_mono (makeDup k)" "exec_mono (makeSwap k)"
  by (rule exec_mono_const; simp only: opCallDataCopy_def opCodeCopy_def opExtCodeCopy_def opReturnDataCopy_def opSha3_def
      opMload_def opMstore_def opMstore8_def opReturn_def opRevert_def opCallDataLoad_def opBalance_def opExtCodeSize_def
      opExtCodeHash_def opSelfBalance_def opSload_def opSstore_def opSuicide_def makeLog_def opPop_def opJump_def opJumpi_def
      opJumpdest_def opStop_def opPush1_def makePush_def makeDup_def makeSwap_def)+

lemmas exec_mono_all = exec_mono_calls exec_mono_ops exec_mono_more

section \<open>Tables\<close>

lemma table_mono_map_of: "(\<forall>(opc, o') \<in> set xs. exec_mono (o_execute o')) \<Longrightarrow> table_mono (map_of xs)"
  unfolding table_mono_def by (auto dest: map_of_SomeD)

lemma table_mono_upd:
  "table_mono jt \<Longrightarrow> exec_mono (o_execute o') \<Longrightarrow> table_mono (jt(k \<mapsto> o'))"
  "table_mono jt \<Longrightarrow> (\<And>o'. o_execute (f o') = o_execute o') \<Longrightarrow> table_mono (upd_op jt k f)"
  by (auto simp: table_mono_def upd_op_def)

lemma table_mono_if: "table_mono x \<Longrightarrow> table_mono y \<Longrightarrow> table_mono (if b then x else y)"
  by simp

lemma frontier_mono: "table_mono newFrontierInstructionSet"
  unfolding newFrontierInstructionSet_def
  by (rule table_mono_map_of)
    (simp add: frontierArithmetic_def frontierEnvironment_def frontierBlock_def frontierFlow_def frontierPush_def
      frontierDup_def frontierSwap_def frontierLog_def frontierSystem_def exec_mono_all ball_Un)

lemma instructionSet_mono: "table_mono (instructionSet r)"
  unfolding instructionSet_def newLondonInstructionSet_def newBerlinInstructionSet_def newIstanbulInstructionSet_def
    newConstantinopleInstructionSet_def newByzantiumInstructionSet_def newSpuriousDragonInstructionSet_def
    newTangerineWhistleInstructionSet_def newHomesteadInstructionSet_def enable1884_def enable1344_def enable2200_def
    enable2929_def enable3529_def enable3198_def Let_def
  by (intro table_mono_if table_mono_upd frontier_mono) (simp_all add: exec_mono_all)

section \<open>The loop\<close>

lemma step_mono:
  assumes "table_mono jt" "runner_le R R'"
  shows "fuel_le (step E jt R v) (step E jt R' v)"
proof -
  have run: "fuel_le (runOperation E o' R w ms) (runOperation E o' R' w ms)" if "exec_mono (o_execute o')" for o' w ms
    using that assms(2) unfolding runOperation_def Let_def exec_mono_def by (intro fuel_le_rules) blast
  have "fuel_le (chargeAndRun E o' R w) (chargeAndRun E o' R' w)" if "exec_mono (o_execute o')" for o' w
    unfolding chargeAndRun_def by (intro fuel_le_rules) (auto split: sum.split intro!: fuel_le_rules run [OF that])
  then show ?thesis
    using assms(1) unfolding step_def Let_def table_mono_def
    by (auto split: option.split prod.split bool.split intro!: fuel_le_rules)
qed

lemma runWith_mono:
  assumes "\<And>v. fuel_le (k 0 v) (k' 0 v)"
  shows "runner_le (runWith k) (runWith k')"
  unfolding runner_le_def runWith_def Let_def by (intro allI fuel_le_rules assms)

lemma loop_mono_Suc: "table_mono jt \<Longrightarrow> fuel_le (loop n E jt steps v) (loop (Suc n) E jt steps v)"
proof (induction n arbitrary: steps v)
  case (Suc n)
  have R: "runner_le (runWith (loop n E jt)) (runWith (loop (Suc n) E jt))"
    by (rule runWith_mono) (rule Suc.IH [OF Suc.prems])
  have "fuel_le (iterate E jt (runWith (loop n E jt)) (loop n E jt) steps v)
      (iterate E jt (runWith (loop (Suc n) E jt)) (loop (Suc n) E jt) steps v)"
    unfolding iterate_def
    by (intro fuel_le_rules step_mono [OF Suc.prems R]) (auto split: stepResult.split intro: Suc simp del: loop.simps)
  then show ?case by (simp only: loop.simps)
qed (simp add: fuel_le_def)

lemma loop_mono:
  assumes jt: "table_mono jt" and n: "n \<le> n'"
  shows "fuel_le (loop n E jt steps v) (loop n' E jt steps v)"
  using n by (induction rule: dec_induct) (auto intro: fuel_le_trans loop_mono_Suc [OF jt] simp del: loop.simps)

lemma Run_mono: "table_mono jt \<Longrightarrow> n \<le> n' \<Longrightarrow> runner_le (Run n E jt) (Run n' E jt)"
  unfolding Run_def by (rule runWith_mono) (rule loop_mono)

end
