(* ===== verification/StateTransition.thy ===== *)
theory StateTransition
  imports Fuel
begin

text \<open>
  The execution of a message as a state transition: \<open>core/state_transition.go\<close> with the block's gas
  pool of \<open>core/gaspool.go\<close>.  The nonce and fee checks and the purchase of gas (\<open>preCheck\<close>, \<open>buyGas\<close>),
  the intrinsic gas, the call or creation, the refund and the payment of the miner.  Errors are
  the sentinel errors of \<open>core/error.go\<close> without the formatted context.  An error does not undo what the
  transition has done before it: the transition is returned in every case.
\<close>

section \<open>The gas pool\<close>

datatype coreError =
    ErrNonceTooLow | ErrNonceTooHigh | ErrGasLimitReached | ErrInsufficientFundsForTransfer
  | ErrInsufficientFunds | ErrTxGasUintOverflow | ErrIntrinsicGas | ErrTipAboveFeeCap | ErrTipVeryHigh
  | ErrFeeCapVeryHigh | ErrFeeCapTooLow

type_synonym GasPool = u64

abbreviation (input) MaxUint64 :: u64 where "MaxUint64 \<equiv> 18446744073709551615"

definition AddGas :: "GasPool \<Rightarrow> u64 \<Rightarrow> GasPool outcome" where
  "AddGas gp amount = (if gp > MaxUint64 - amount then Panic else Ok (gp + amount))"

definition SubGas :: "GasPool \<Rightarrow> u64 \<Rightarrow> GasPool \<times> coreError option" where
  "SubGas gp amount = (if gp < amount then (gp, Some ErrGasLimitReached) else (gp - amount, None))"

section \<open>Messages and transitions\<close>

text \<open>
  The value and the gas price of a message are always set; the fee cap and the tip cap may be nil.  A
  nil access list is the empty list, which costs nothing either.
\<close>

record Message =
  msg_From :: address
  msg_To :: "address option"
  msg_GasPrice :: int
  msg_GasFeeCap :: "int option"
  msg_GasTipCap :: "int option"
  msg_Gas :: u64
  msg_Value :: int
  msg_Nonce :: u64
  msg_CheckNonce :: bool
  msg_Data :: bytes
  msg_AccessList :: "AccessTuple list"

record ExecutionResult =
  res_UsedGas :: u64
  res_Err :: "vmError option"
  res_ReturnData :: bytes

text \<open>No return data is \<open>None\<close>; a nil and an empty \<open>ReturnData\<close> are not told apart.\<close>

definition res_Failed :: "ExecutionResult \<Rightarrow> bool" where
  "res_Failed r \<longleftrightarrow> res_Err r \<noteq> None"

definition res_Return :: "ExecutionResult \<Rightarrow> bytes option" where
  "res_Return r = (if res_Err r \<noteq> None then None else Some (res_ReturnData r))"

definition res_Revert :: "ExecutionResult \<Rightarrow> bytes option" where
  "res_Revert r = (if res_Err r \<noteq> Some ErrExecutionReverted then None else Some (res_ReturnData r))"

record 't StateTransition =
  st_gp :: GasPool
  st_msg :: Message
  st_gas :: u64
  st_gasPrice :: int
  st_gasFeeCap :: "int option"
  st_gasTipCap :: "int option"
  st_initialGas :: u64
  st_value :: int
  st_data :: bytes
  st_evm :: "'t machine"

definition NewStateTransition :: "'t machine \<Rightarrow> Message \<Rightarrow> GasPool \<Rightarrow> 't StateTransition" where
  "NewStateTransition evm msg gp =
     \<lparr>st_gp = gp, st_msg = msg, st_gas = 0, st_gasPrice = msg_GasPrice msg, st_gasFeeCap = msg_GasFeeCap msg,
      st_gasTipCap = msg_GasTipCap msg, st_initialGas = 0, st_value = msg_Value msg, st_data = msg_Data msg, st_evm = evm\<rparr>"

text \<open>Queries and updates of the state that the transition works on.\<close>

definition st_get :: "'t StateTransition \<Rightarrow> ('t StateDB \<Rightarrow> 't StateDB \<times> 'a) \<Rightarrow> 't StateTransition \<times> 'a" where
  "st_get st f = (case m_get (st_evm st) f of (m, x) \<Rightarrow> (st\<lparr>st_evm := m\<rparr>, x))"

definition st_do :: "'t StateTransition \<Rightarrow> ('t StateDB \<Rightarrow> 't StateDB) \<Rightarrow> 't StateTransition" where
  "st_do st f = st\<lparr>st_evm := m_do (st_evm st) f\<rparr>"

section \<open>Intrinsic gas\<close>

primrec countNonZero :: "bytes \<Rightarrow> u64 \<Rightarrow> u64" where
  "countNonZero [] nz = nz"
| "countNonZero (b # data) nz = countNonZero data (if b \<noteq> 0 then nz + 1 else nz)"

definition dataGas :: "bytes \<Rightarrow> bool \<Rightarrow> u64 \<Rightarrow> coreError + u64" where
  "dataGas data isEIP2028 gas =
     (let nz = countNonZero data 0;
          nonZeroGas = (if isEIP2028 then TxDataNonZeroGasEIP2028 else TxDataNonZeroGasFrontier)
      in if (MaxUint64 - gas) div nonZeroGas < nz then Inl ErrTxGasUintOverflow
         else
           let gas = gas + nz * nonZeroGas;
               z = of_nat (length data) - nz
           in if (MaxUint64 - gas) div TxDataZeroGas < z then Inl ErrTxGasUintOverflow
              else Inr (gas + z * TxDataZeroGas))"

definition StorageKeys :: "AccessTuple list \<Rightarrow> nat" where
  "StorageKeys al = foldl (\<lambda>n tuple. n + length (at_StorageKeys tuple)) 0 al"

definition IntrinsicGas :: "bytes \<Rightarrow> AccessTuple list \<Rightarrow> bool \<Rightarrow> bool \<Rightarrow> bool \<Rightarrow> coreError + u64" where
  "IntrinsicGas data accessList isContractCreation isHomestead isEIP2028 =
     (let gas = (if isContractCreation \<and> isHomestead then TxGasContractCreation else TxGas)
      in case (if length data > 0 then dataGas data isEIP2028 gas else Inr gas) of
           Inl e \<Rightarrow> Inl e
         | Inr gas \<Rightarrow>
             Inr (gas + of_nat (length accessList) * TxAccessListAddressGas
                  + of_nat (StorageKeys accessList) * TxAccessListStorageKeyGas))"

section \<open>Checks before the execution\<close>

definition st_to :: "'t StateTransition \<Rightarrow> address" where
  "st_to st = (case msg_To (st_msg st) of None \<Rightarrow> 0 | Some a \<Rightarrow> a)"

definition buyGas :: "'t env \<Rightarrow> 't StateTransition \<Rightarrow> 't StateTransition \<times> coreError option" where
  "buyGas E st =
     (let msg = st_msg st;
          mgval = uint (msg_Gas msg) * st_gasPrice st;
          balanceCheck = (case st_gasFeeCap st of None \<Rightarrow> mgval | Some cap \<Rightarrow> uint (msg_Gas msg) * cap);
          (st, have) = st_get st (\<lambda>s. GetBalance (e_db E) s (msg_From msg))
      in if have < balanceCheck then (st, Some ErrInsufficientFunds)
         else
           case SubGas (st_gp st) (msg_Gas msg) of
             (gp, Some e) \<Rightarrow> (st\<lparr>st_gp := gp\<rparr>, Some e)
           | (gp, None) \<Rightarrow>
               let st = st\<lparr>st_gp := gp, st_gas := st_gas st + msg_Gas msg, st_initialGas := msg_Gas msg\<rparr>
               in (st_do st (\<lambda>s. SubBalance (e_db E) s (msg_From msg) mgval), None))"

text \<open>\<open>big.Int.BitLen\<close>.\<close>

definition BitLen :: "int \<Rightarrow> nat" where
  "BitLen x = bit_len (nat \<bar>x\<bar>)"

definition checkNonce :: "'t env \<Rightarrow> 't StateTransition \<Rightarrow> 't StateTransition \<times> coreError option" where
  "checkNonce E st =
     (if msg_CheckNonce (st_msg st) then
        let (st, stNonce) = st_get st (\<lambda>s. GetNonce (e_db E) s (msg_From (st_msg st)));
            msgNonce = msg_Nonce (st_msg st)
        in (st, if stNonce < msgNonce then Some ErrNonceTooHigh else if stNonce > msgNonce then Some ErrNonceTooLow else None)
      else (st, None))"

text \<open>Whether the fee fields are checked: always, unless the base fee is disabled and both fields are zero.\<close>

definition feesChecked :: "'t env \<Rightarrow> 't StateTransition \<Rightarrow> bool outcome" where
  "feesChecked E st =
     (if \<not> e_NoBaseFee E then Ok True
      else
        bnd (deref (st_gasFeeCap st)) (\<lambda>cap.
        if BitLen cap > 0 then Ok True
        else bnd (deref (st_gasTipCap st)) (\<lambda>tip. Ok (BitLen tip > 0))))"

definition checkFees :: "'t env \<Rightarrow> 't StateTransition \<Rightarrow> coreError option outcome" where
  "checkFees E st =
     bnd (feesChecked E st) (\<lambda>checked.
       if \<not> checked then Ok None
       else
         bnd (deref (st_gasFeeCap st)) (\<lambda>cap.
         if BitLen cap > 256 then Ok (Some ErrFeeCapVeryHigh)
         else
           bnd (deref (st_gasTipCap st)) (\<lambda>tip.
           if BitLen tip > 256 then Ok (Some ErrTipVeryHigh)
           else if cap < tip then Ok (Some ErrTipAboveFeeCap)
           else
             bnd (deref (bc_BaseFee (e_Context E))) (\<lambda>baseFee.
             if cap < baseFee then Ok (Some ErrFeeCapTooLow) else Ok None))))"

definition preCheck :: "'t env \<Rightarrow> 't StateTransition \<Rightarrow> ('t StateTransition \<times> coreError option) outcome" where
  "preCheck E st =
     (case checkNonce E st of
        (st, Some e) \<Rightarrow> Ok (st, Some e)
      | (st, None) \<Rightarrow>
          bnd (if r_IsLondon (e_rules E) then checkFees E st else Ok None) (\<lambda>err.
            case err of Some e \<Rightarrow> Ok (st, Some e) | None \<Rightarrow> Ok (buyGas E st)))"

section \<open>Execution\<close>

definition GetRefund :: "'t StateDB \<Rightarrow> u64" where
  "GetRefund s = s_refund s"

definition gasUsed :: "'t StateTransition \<Rightarrow> u64" where
  "gasUsed st = st_initialGas st - st_gas st"

definition refundGas :: "'t env \<Rightarrow> 't StateTransition \<Rightarrow> u64 \<Rightarrow> 't StateTransition outcome" where
  "refundGas E st refundQuotient =
     (let refund = gasUsed st div refundQuotient;
          refund = (if refund > GetRefund (m_StateDB (st_evm st)) then GetRefund (m_StateDB (st_evm st)) else refund);
          st = st\<lparr>st_gas := st_gas st + refund\<rparr>;
          remaining = uint (st_gas st) * st_gasPrice st;
          st = st_do st (\<lambda>s. AddBalance (e_db E) s (msg_From (st_msg st)) remaining)
      in bnd (AddGas (st_gp st) (st_gas st)) (\<lambda>gp. Ok (st\<lparr>st_gp := gp\<rparr>)))"

text \<open>The call or the creation of the message; the result is the returned data and the error of the machine.\<close>

definition executeMessage :: "'t env \<Rightarrow> 't runner \<Rightarrow> 't StateTransition \<Rightarrow> ('t StateTransition \<times> bytes \<times> vmError option) outcome" where
  "executeMessage E R st =
     (let msg = st_msg st; sender = AccountRef (msg_From msg)
      in if msg_To msg = None then
           bnd (Create E R (st_evm st) sender (st_data st) (st_gas st) (st_value st)) (\<lambda>(m, ret, addr, gas, vmerr).
             Ok (st\<lparr>st_evm := m, st_gas := gas\<rparr>, ret, vmerr))
         else
           let (st, nonce) = st_get st (\<lambda>s. GetNonce (e_db E) s (ref_Address sender));
               st = st_do st (\<lambda>s. SetNonce (e_db E) s (msg_From msg) (nonce + 1))
           in bnd (Call E R (st_evm st) sender (st_to st) (st_data st) (st_gas st) (st_value st)) (\<lambda>(m, ret, gas, vmerr, alias).
                Ok (st\<lparr>st_evm := m, st_gas := gas\<rparr>, ret, vmerr)))"

text \<open>The part of the price that goes to the miner: all of it before London, what the base fee leaves since then.\<close>

definition effectiveTip :: "'t env \<Rightarrow> 't StateTransition \<Rightarrow> int outcome" where
  "effectiveTip E st =
     (if r_IsLondon (e_rules E) then
        bnd (deref (st_gasFeeCap st)) (\<lambda>cap.
        bnd (deref (bc_BaseFee (e_Context E))) (\<lambda>baseFee.
        bnd (deref (st_gasTipCap st)) (\<lambda>tip. Ok (BigMin tip (cap - baseFee)))))
      else Ok (st_gasPrice st))"

text \<open>The refund of the unused gas and the payment of the miner.\<close>

definition settle :: "'t env \<Rightarrow> 't StateTransition \<Rightarrow> 't StateTransition outcome" where
  "settle E st =
     bnd (refundGas E st (if \<not> r_IsLondon (e_rules E) then RefundQuotient else RefundQuotientEIP3529)) (\<lambda>st.
     bnd (effectiveTip E st) (\<lambda>tip.
     Ok (st_do st (\<lambda>s. AddBalance (e_db E) s (bc_Coinbase (e_Context E)) (uint (gasUsed st) * tip)))))"

text \<open>Clauses 4 to 6: the intrinsic gas, the funds for the topmost transfer, and the initial access list.\<close>

definition beginMessage :: "'t env \<Rightarrow> 't StateTransition \<Rightarrow> ('t StateTransition \<times> coreError option) outcome" where
  "beginMessage E st =
     (let msg = st_msg st
      in case IntrinsicGas (st_data st) (msg_AccessList msg) (msg_To msg = None) (r_IsHomestead (e_rules E))
                (r_IsIstanbul (e_rules E)) of
           Inl e \<Rightarrow> Ok (st, Some e)
         | Inr gas \<Rightarrow>
             if st_gas st < gas then Ok (st, Some ErrIntrinsicGas)
             else
               let st = st\<lparr>st_gas := st_gas st - gas\<rparr>;
                   (st, can) = (if msg_Value msg > 0
                                then st_get st (\<lambda>s. bc_CanTransfer (e_Context E) s (msg_From msg) (msg_Value msg))
                                else (st, True))
               in if \<not> can then Ok (st, Some ErrInsufficientFundsForTransfer)
                  else if r_IsBerlin (e_rules E) then
                    bnd (m_try (st_evm st) (\<lambda>s. PrepareAccessList s (msg_From msg) (msg_To msg)
                           (ActivePrecompiles (e_rules E)) (msg_AccessList msg)))
                        (\<lambda>m. Ok (st\<lparr>st_evm := m\<rparr>, None))
                  else Ok (st, None))"

definition TransitionDb ::
  "'t env \<Rightarrow> 't runner \<Rightarrow> 't StateTransition \<Rightarrow> ('t StateTransition \<times> (coreError + ExecutionResult)) outcome" where
  "TransitionDb E R st =
     bnd (preCheck E st) (\<lambda>(st, err).
       case err of
         Some e \<Rightarrow> Ok (st, Inl e)
       | None \<Rightarrow>
           bnd (beginMessage E st) (\<lambda>(st, err).
             case err of
               Some e \<Rightarrow> Ok (st, Inl e)
             | None \<Rightarrow>
                 bnd (executeMessage E R st) (\<lambda>(st, ret, vmerr).
                 bnd (settle E st) (\<lambda>st.
                 Ok (st, Inr \<lparr>res_UsedGas = gasUsed st, res_Err = vmerr, res_ReturnData = ret\<rparr>)))))"

definition ApplyMessage ::
  "'t env \<Rightarrow> 't runner \<Rightarrow> 't machine \<Rightarrow> Message \<Rightarrow> GasPool \<Rightarrow> ('t StateTransition \<times> (coreError + ExecutionResult)) outcome" where
  "ApplyMessage E R evm msg gp = TransitionDb E R (NewStateTransition evm msg gp)"

end
