(* ===== verification/VmProperties.thy ===== *)
theory VmProperties
  imports Fuel
begin

text \<open>
  The properties of the virtual machine as a whole: runs end, frames keep their limits, failed calls
  leave no trace, static calls change nothing, and transfers conserve the money.
\<close>

section \<open>An example environment\<close>

text \<open>A chain with the rules of Byzantium over an empty in-memory state, for the witnesses.\<close>

definition byzantiumRules :: Rules where
  "byzantiumRules = \<lparr>r_ChainID = 1, r_IsHomestead = True, r_IsEIP150 = True, r_IsEIP155 = True, r_IsEIP158 = True,
     r_IsByzantium = True, r_IsConstantinople = False, r_IsPetersburg = False, r_IsIstanbul = False, r_IsBerlin = False,
     r_IsLondon = False, r_IsCatalyst = False\<rparr>"

definition exampleCrypto :: crypto where
  "exampleCrypto = \<lparr>cr_keccak256 = (\<lambda>_. 0), cr_sha256 = (\<lambda>_. replicate 32 0), cr_ripemd160 = (\<lambda>_. replicate 20 0),
     cr_Ecrecover = (\<lambda>_ _. Inl ''unsupported''), cr_G1Unmarshal = (\<lambda>_. Inl ''unsupported''),
     cr_G2Unmarshal = (\<lambda>_. Inl ''unsupported''), cr_G1Add = (\<lambda>_ _. []), cr_G1ScalarMult = (\<lambda>_ _. []),
     cr_PairingCheck = (\<lambda>_ _. False), cr_blake2bF = (\<lambda>h _ _ _ _. h)\<rparr>"

definition exampleEnv :: "(bytes \<Rightarrow> bytes option) env" where
  "exampleEnv = \<lparr>e_db = memoryBackend, e_U = uint256_ref, e_C = exampleCrypto,
     e_Context = \<lparr>bc_CanTransfer = CanTransfer memoryBackend, bc_Transfer = Transfer memoryBackend, bc_GetHash = (\<lambda>_. 0),
       bc_Coinbase = 9, bc_GasLimit = 1000000, bc_BlockNumber = 5, bc_Time = 0, bc_Difficulty = 1, bc_BaseFee = None\<rparr>,
     e_Tx = \<lparr>tx_Origin = 1, tx_GasPrice = 1\<rparr>, e_ChainID = Some 1, e_rules = byzantiumRules, e_NoRecursion = False,
     e_NoBaseFee = False, e_EnablePreimageRecording = False, e_abort = (\<lambda>_. False)\<rparr>"

definition exampleMachine :: "(bytes \<Rightarrow> bytes option) machine" where
  "exampleMachine = \<lparr>m_StateDB = emptyState, m_depth = 0, m_callGasTemp = 0, m_readOnly = False, m_returnData = [],
     m_jumpdests = (\<lambda>_. None), m_polls = 0\<rparr>"

lemma example_ok: "env_ok exampleEnv" "rules_ok (e_rules exampleEnv)" "m_inv exampleEnv exampleMachine"
  by (simp_all add: env_ok_def exampleEnv_def addrHash_inj_memory uint256_ok_ref rules_ok_def byzantiumRules_def m_inv_def
      exampleMachine_def sdb_inv_emptyState)

lemma example_state: "e_db exampleEnv = memoryBackend" "m_StateDB exampleMachine = emptyState" "\<not> m_readOnly exampleMachine"
  by (simp_all add: exampleEnv_def exampleMachine_def)

text \<open>A call and a creation that the sender cannot pay for.\<close>

lemma example_broke:
  obtains m where "m_get exampleMachine (\<lambda>s. bc_CanTransfer (e_Context exampleEnv) s 1 5) = (m, False)"
  using GetBalance_emptyState [of 1]
  by (cases "GetBalance memoryBackend emptyState 1") (simp add: m_get_def exampleMachine_def exampleEnv_def CanTransfer_def)

lemma example_call:
  obtains m where "Call exampleEnv R exampleMachine (AccountRef 1) 2 [] 50 5 = Ok (m, [], 50, Some ErrInsufficientBalance, False)"
proof -
  obtain m1 where g: "m_get exampleMachine (\<lambda>s. bc_CanTransfer (e_Context exampleEnv) s 1 5) = (m1, False)" by (rule example_broke)
  show thesis by (rule that [of m1], unfold Call_def ref_Address.simps g) (simp add: exampleMachine_def exampleEnv_def)
qed

lemma example_create2:
  obtains m where "Create2 exampleEnv R exampleMachine (AccountRef 1) [] 50 5 0 = Ok (m, [], 0, 50, Some ErrInsufficientBalance)"
proof -
  obtain m1 where g: "m_get exampleMachine (\<lambda>s. bc_CanTransfer (e_Context exampleEnv) s 1 5) = (m1, False)" by (rule example_broke)
  show thesis
    by (rule that [of m1], unfold Create2_def create_def Let_def ref_Address.simps g) (simp add: exampleMachine_def exampleEnv_def)
qed

section \<open>Runs\<close>

text \<open>C14. Running a contract always ends: with more fuel than gas, \<open>Run\<close> does not run out of fuel, more fuel gives
  the same result, and the contract comes back with no more gas than it had, at the call depth and
  with the write protection of the caller.\<close>

theorem Run_terminates:
  assumes "env_ok E" "rules_ok (e_rules E)" "m_inv E m" "unat (c_Gas c) < fuel"
  shows "Run fuel E (instructionSet (e_rules E)) m c input ro \<noteq> NoFuel \<and>
    (\<forall>fuel' \<ge> fuel. Run fuel' E (instructionSet (e_rules E)) m c input ro = Run fuel E (instructionSet (e_rules E)) m c input ro) \<and>
    (\<forall>m' c' ret err. Run fuel E (instructionSet (e_rules E)) m c input ro = Ok (m', c', ret, err) \<longrightarrow>
       c_Gas c' \<le> c_Gas c \<and> m_depth m' = m_depth m \<and> m_readOnly m' = m_readOnly m)"
proof -
  let ?r = "Run fuel E (instructionSet (e_rules E)) m c input ro"
  note p = runner_okD [OF forks.Run_ok [OF assms(1,2)] assms(3,4), of input ro]
  have n: "?r \<noteq> NoFuel" using p by auto
  moreover have "Run fuel' E (instructionSet (e_rules E)) m c input ro = ?r" if "fuel \<le> fuel'" for fuel'
  proof -
    have "?r = NoFuel \<or> ?r = Run fuel' E (instructionSet (e_rules E)) m c input ro"
      using runner_leD [OF Run_mono [OF instructionSet_mono that]] unfolding fuel_le_def by blast
    with n show ?thesis by argo
  qed
  moreover have "c_Gas c' \<le> c_Gas c \<and> m_depth m' = m_depth m \<and> m_readOnly m' = m_readOnly m"
    if "?r = Ok (m', c', ret, err)" for m' c' ret err
    using p that by (simp add: m_evolves_def)
  ultimately show ?thesis by blast
qed

theorem Run_terminates_witness:
  "Run 101 exampleEnv (instructionSet (e_rules exampleEnv)) exampleMachine exampleContract [] False \<noteq> NoFuel"
proof -
  have "unat (c_Gas exampleContract) < 101" by (simp add: exampleContract_def NewContract_def)
  from Run_terminates [OF example_ok this] show ?thesis by blast
qed

text \<open>C18. In every frame that the loop reaches, the stack holds at most 1024 items, the memory consists of whole
  words, the recorded memory fee is the quadratic fee of its size, and the gas has not grown.\<close>

theorem frame_limits:
  assumes "env_ok E" "rules_ok (e_rules E)" "m_inv E m"
    "frame_reaches E (instructionSet (e_rules E)) (newFrame m c input) v"
  shows "length (v_stack v) \<le> 1024 \<and>
    (\<exists>w. length (mem_store (v_mem v)) = 32 * w \<and> w < 2 ^ 32 \<and> unat (mem_lastGasCost (v_mem v)) = 3 * w + w * w div 512) \<and>
    c_Gas (v_contract v) \<le> c_Gas c"
proof -
  have "frame_ok E (newFrame m c input)" using assms(3) by (simp add: frame_ok_def newFrame_def mem_ok_New)
  from forks.reaches_ok [OF assms(1,2) this assms(4)] show ?thesis
    by (simp add: frame_ok_def mem_ok_def mem_fee_def newFrame_def word_le_nat_alt)
qed

lemma push_entry: "instructionSet byzantiumRules 0x60 = Some (opn opPush1 3 0 1)"
proof -
  have "newFrontierInstructionSet 0x60 = Some (opn opPush1 3 0 1)"
    by (simp add: newFrontierInstructionSet_def frontierArithmetic_def frontierEnvironment_def frontierBlock_def
        frontierFlow_def frontierPush_def)
  then show ?thesis
    by (simp add: instructionSet_def byzantiumRules_def newByzantiumInstructionSet_def newSpuriousDragonInstructionSet_def
        newTangerineWhistleInstructionSet_def newHomesteadInstructionSet_def upd_op_def)
qed

lemma example_step:
  "step exampleEnv (instructionSet byzantiumRules) R (newFrame exampleMachine exampleContract []) =
    Ok (Continue ((newFrame exampleMachine exampleContract [])\<lparr>v_pc := 2, v_stack := [0x5b],
      v_contract := exampleContract\<lparr>c_Gas := 97\<rparr>\<rparr>))"
  by (simp add: step_def newFrame_def GetOp_def GetByte_def exampleContract_def NewContract_def push_entry Let_def
      checkOperation_def exampleMachine_def UseGas_def chargeAndRun_def memorySizeOf_def chargeDynamic_def runOperation_def
      opPush1_def opn_def minStack_def maxStack_def pushop_def nxt_def finishStep_def exampleEnv_def uint256_ref_def)

theorem frame_limits_witness:
  "\<exists>v. frame_reaches exampleEnv (instructionSet (e_rules exampleEnv)) (newFrame exampleMachine exampleContract []) v \<and>
    v_stack v = [0x5b] \<and> length (v_stack v) \<le> 1024"
proof -
  let ?v = "newFrame exampleMachine exampleContract []"
  let ?w = "?v\<lparr>v_pc := 2, v_stack := [0x5b], v_contract := exampleContract\<lparr>c_Gas := 97\<rparr>\<rparr>"
  have r: "e_rules exampleEnv = byzantiumRules" by (simp add: exampleEnv_def)
  have "frame_reaches exampleEnv (instructionSet (e_rules exampleEnv)) ?v ?w"
    unfolding r
    by (rule frame_reaches.iteration [where k = 1 and n = 100, OF frame_reaches.start _ _ example_step])
      (simp_all add: poll_def newFrame_def exampleContract_def NewContract_def)
  with frame_limits [OF example_ok this] show ?thesis by (intro exI [of _ ?w]) simp
qed

section \<open>Calls\<close>

text \<open>C6. A failed call leaves no trace: when any of the four kinds of call returns an error, however deep the callee
  went, every query of the state answers as before the call; the gas is consumed unless the callee
  reverted or the call did not start.\<close>

theorem failed_call_restores_state:
  assumes "env_ok E" "rules_ok (e_rules E)" "m_inv E m" "unat gas < fuel"
    "m_readOnly m \<Longrightarrow> r_IsByzantium (e_rules E) \<Longrightarrow> val = 0" "0 \<le> val"
    "Ok (m', ret, gas', Some err, alias) \<in>
       {Call E (Run fuel E (instructionSet (e_rules E))) m caller addr input gas val,
        CallCode E (Run fuel E (instructionSet (e_rules E))) m caller addr input gas val,
        DelegateCall E (Run fuel E (instructionSet (e_rules E))) m (CallerContract p) addr input gas,
        StaticCall E (Run fuel E (instructionSet (e_rules E))) m caller addr input gas}"
  shows "getters_agree (e_db E) (m_StateDB m') (m_StateDB m) \<and> gas' \<le> gas \<and>
    (err \<notin> {ErrExecutionReverted, ErrDepth, ErrInsufficientBalance} \<longrightarrow> gas' = 0)"
proof -
  note R = forks.Run_ok [OF assms(1,2)]
  note posts = Call_post [OF assms(1) R assms(3,4,5,6)] CallCode_post [OF assms(1) R assms(3,4)]
    DelegateCall_post [OF assms(1) R assms(3,4)] post_mono [OF StaticCall_post [OF assms(1) R assms(3,4)] call_ok_weaken]
  from assms(7) have "call_ok E (m_readOnly m) m gas (m', ret, gas', Some err, alias)"
    by (elim insertE emptyE) (rule postD, rule posts, simp_all)+
  then have c: "m_evolves E (m_readOnly m) m m'" "gas' \<le> gas" "sdb_eq (e_db E) (m_StateDB m') (m_StateDB m)"
    "gas' = 0 \<or> keeps_gas (Some err)" by (simp_all add: call_ok_def)
  have "getters_agree (e_db E) (m_StateDB m') (m_StateDB m)"
    by (rule getters_agreeI [OF c(3)]) (use assms(3) m_evolves_inv [OF c(1)] in \<open>simp_all add: m_inv_def inv_wf\<close>)
  with c show ?thesis by (auto simp: keeps_gas_def)
qed

theorem failed_call_restores_state_witness:
  "\<exists>m'. Call exampleEnv (Run 51 exampleEnv (instructionSet (e_rules exampleEnv))) exampleMachine (AccountRef 1) 2 [] 50 5 =
      Ok (m', [], 50, Some ErrInsufficientBalance, False) \<and>
    getters_agree memoryBackend (m_StateDB m') emptyState"
proof -
  let ?R = "Run 51 exampleEnv (instructionSet (e_rules exampleEnv))"
  obtain m' where c: "Call exampleEnv ?R exampleMachine (AccountRef 1) 2 [] 50 5 =
      Ok (m', [], 50, Some ErrInsufficientBalance, False)" by (rule example_call)
  from failed_call_restores_state [OF example_ok, of 50 51 5 m' "[]" 50 ErrInsufficientBalance False "AccountRef 1" 2 "[]"] c
    example_state show ?thesis by auto
qed

lemma undone_getters:
  assumes "undone E a m m'" "m_inv E m" "m_inv E m'"
  shows "snd (GetBalance (e_db E) (m_StateDB m') b) = snd (GetBalance (e_db E) (m_StateDB m) b)"
    "snd (GetCode (e_db E) (m_StateDB m') b) = snd (GetCode (e_db E) (m_StateDB m) b)"
    "snd (HasSuicided (e_db E) (m_StateDB m') b) = snd (HasSuicided (e_db E) (m_StateDB m) b)"
    "snd (GetNonce (e_db E) (m_StateDB m') b) = snd (GetNonce (e_db E) (m_StateDB m) b) \<or>
       b = a \<and> snd (GetNonce (e_db E) (m_StateDB m') b) = snd (GetNonce (e_db E) (m_StateDB m) b) + 1"
    "snd (Exist (e_db E) (m_StateDB m) b) \<Longrightarrow>
       snd (GetState (e_db E) (m_StateDB m') b k) = snd (GetState (e_db E) (m_StateDB m) b k)"
proof -
  have wf: "sdb_wf (e_db E) (m_StateDB m)" "sdb_wf (e_db E) (m_StateDB m')" using assms(2,3) by (simp_all add: m_inv_def inv_wf)
  show "snd (GetBalance (e_db E) (m_StateDB m') b) = snd (GetBalance (e_db E) (m_StateDB m) b)"
    "snd (GetCode (e_db E) (m_StateDB m') b) = snd (GetCode (e_db E) (m_StateDB m) b)"
    "snd (HasSuicided (e_db E) (m_StateDB m') b) = snd (HasSuicided (e_db E) (m_StateDB m) b)"
    "snd (GetNonce (e_db E) (m_StateDB m') b) = snd (GetNonce (e_db E) (m_StateDB m) b) \<or>
       b = a \<and> snd (GetNonce (e_db E) (m_StateDB m') b) = snd (GetNonce (e_db E) (m_StateDB m) b) + 1"
    "snd (Exist (e_db E) (m_StateDB m) b) \<Longrightarrow>
       snd (GetState (e_db E) (m_StateDB m') b k) = snd (GetState (e_db E) (m_StateDB m) b k)"
    using assms(1) unfolding undone_def updates_at_def getters_view [OF wf(1)] getters_view [OF wf(2)]
    by (auto simp: blank_def split: option.splits if_splits)
qed

text \<open>C17. A failed creation leaves nothing behind but the creator's incremented nonce: when \<open>Create\<close> or \<open>Create2\<close>
  returns an error that reverts, all balances, codes, storage slots and self-destruct marks are those
  before it, as are the nonces of all other accounts (storage slots are those of the accounts that existed before); the gas is consumed unless the constructor
  reverted or the creation did not start.\<close>

theorem failed_creation_undone:
  assumes "env_ok E" "rules_ok (e_rules E)" "m_inv E m" "unat gas < fuel" "\<not> (m_readOnly m \<and> r_IsByzantium (e_rules E))" "0 \<le> val"
    "Ok (m', ret, addr, gas', Some err) \<in>
       {Create E (Run fuel E (instructionSet (e_rules E))) m caller code gas val,
        Create2 E (Run fuel E (instructionSet (e_rules E))) m caller code gas val salt}"
    "r_IsHomestead (e_rules E) \<or> err \<noteq> ErrCodeStoreOutOfGas"
  shows "(\<forall>a. snd (GetBalance (e_db E) (m_StateDB m') a) = snd (GetBalance (e_db E) (m_StateDB m) a) \<and>
      snd (GetCode (e_db E) (m_StateDB m') a) = snd (GetCode (e_db E) (m_StateDB m) a) \<and>
      snd (HasSuicided (e_db E) (m_StateDB m') a) = snd (HasSuicided (e_db E) (m_StateDB m) a) \<and>
      (snd (GetNonce (e_db E) (m_StateDB m') a) = snd (GetNonce (e_db E) (m_StateDB m) a) \<or>
        a = ref_Address caller \<and> snd (GetNonce (e_db E) (m_StateDB m') a) = snd (GetNonce (e_db E) (m_StateDB m) a) + 1) \<and>
      (snd (Exist (e_db E) (m_StateDB m) a) \<longrightarrow>
        (\<forall>k. snd (GetState (e_db E) (m_StateDB m') a k) = snd (GetState (e_db E) (m_StateDB m) a k)))) \<and>
    gas' \<le> gas \<and> (err \<notin> {ErrExecutionReverted, ErrDepth, ErrInsufficientBalance} \<longrightarrow> gas' = 0)"
proof -
  note R = forks.Run_ok [OF assms(1,2)]
  from assms(7) have "create_ok E caller m gas (m', ret, addr, gas', Some err)"
    by (elim insertE emptyE)
      (rule postD, rule Create_post [OF assms(1) R assms(3-6)] Create2_post [OF assms(1) R assms(3-6)], simp)+
  with assms(8) have c: "m_evolves E (m_readOnly m) m m'" "gas' \<le> gas" "undone E (ref_Address caller) m m'"
    "gas' = 0 \<or> keeps_gas (Some err)" by (simp_all add: create_ok_def)
  from undone_getters [OF c(3) assms(3) m_evolves_inv [OF c(1)]] c(2,4) show ?thesis by (auto simp: keeps_gas_def)
qed

theorem failed_creation_undone_witness:
  "\<exists>m'. Create2 exampleEnv (Run 51 exampleEnv (instructionSet (e_rules exampleEnv))) exampleMachine (AccountRef 1) [] 50 5 0 =
      Ok (m', [], 0, 50, Some ErrInsufficientBalance) \<and>
    (\<forall>a. snd (GetBalance memoryBackend (m_StateDB m') a) = 0)"
proof -
  let ?R = "Run 51 exampleEnv (instructionSet (e_rules exampleEnv))"
  obtain m' where c: "Create2 exampleEnv ?R exampleMachine (AccountRef 1) [] 50 5 0 =
      Ok (m', [], 0, 50, Some ErrInsufficientBalance)" by (rule example_create2)
  from failed_creation_undone [OF example_ok, of 50 51 5 m' "[]" 0 50 ErrInsufficientBalance "AccountRef 1" "[]" 0] c
    example_state show ?thesis by (auto simp: GetBalance_emptyState)
qed

section \<open>Money\<close>

text \<open>C5. Execution creates no money: when no balance is negative, then after any call or creation, with everything
  the executed contracts do, no balance is negative and the sum of all balances is at most what it
  was.\<close>

theorem execution_creates_no_money:
  assumes "env_ok E" "rules_ok (e_rules E)" "m_inv E m" "unat gas < fuel" "\<not> (m_readOnly m \<and> r_IsByzantium (e_rules E))" "0 \<le> val"
    "(\<exists>ret gas' err alias. Ok (m', ret, gas', err, alias) \<in>
       {Call E (Run fuel E (instructionSet (e_rules E))) m caller addr input gas val,
        CallCode E (Run fuel E (instructionSet (e_rules E))) m caller addr input gas val,
        DelegateCall E (Run fuel E (instructionSet (e_rules E))) m (CallerContract p) addr input gas,
        StaticCall E (Run fuel E (instructionSet (e_rules E))) m caller addr input gas}) \<or>
     (\<exists>ret a gas' err. Ok (m', ret, a, gas', err) \<in>
       {Create E (Run fuel E (instructionSet (e_rules E))) m caller input gas val,
        Create2 E (Run fuel E (instructionSet (e_rules E))) m caller input gas val salt})"
    "\<forall>a. 0 \<le> snd (GetBalance (e_db E) (m_StateDB m) a)"
  shows "(\<forall>a. 0 \<le> snd (GetBalance (e_db E) (m_StateDB m') a)) \<and>
    (\<Sum>a \<in> UNIV. snd (GetBalance (e_db E) (m_StateDB m') a)) \<le> (\<Sum>a \<in> UNIV. snd (GetBalance (e_db E) (m_StateDB m) a))"
proof -
  note R = forks.Run_ok [OF assms(1,2)]
  have z: "m_readOnly m \<Longrightarrow> r_IsByzantium (e_rules E) \<Longrightarrow> val = 0" using assms(5) by blast
  note posts = Call_post [OF assms(1) R assms(3,4) z assms(6)] CallCode_post [OF assms(1) R assms(3,4)]
    DelegateCall_post [OF assms(1) R assms(3,4)] post_mono [OF StaticCall_post [OF assms(1) R assms(3,4)] call_ok_weaken]
    Create_post [OF assms(1) R assms(3-6)] Create2_post [OF assms(1) R assms(3-6)]
  have "(\<exists>x. call_ok E (m_readOnly m) m gas (m', x)) \<or> (\<exists>x. create_ok E caller m gas (m', x))"
    using assms(7)
  proof (elim disjE exE)
    fix ret gas' err b
    assume "Ok (m', ret, gas', err, b) \<in>
       {Call E (Run fuel E (instructionSet (e_rules E))) m caller addr input gas val,
        CallCode E (Run fuel E (instructionSet (e_rules E))) m caller addr input gas val,
        DelegateCall E (Run fuel E (instructionSet (e_rules E))) m (CallerContract p) addr input gas,
        StaticCall E (Run fuel E (instructionSet (e_rules E))) m caller addr input gas}"
    then have "call_ok E (m_readOnly m) m gas (m', ret, gas', err, b)"
      by (elim insertE emptyE) (rule postD, rule posts, simp_all)+
    then show ?thesis by blast
  next
    fix ret a gas' err
    assume "Ok (m', ret, a, gas', err) \<in>
       {Create E (Run fuel E (instructionSet (e_rules E))) m caller input gas val,
        Create2 E (Run fuel E (instructionSet (e_rules E))) m caller input gas val salt}"
    then have "create_ok E caller m gas (m', ret, a, gas', err)"
      by (elim insertE emptyE) (rule postD, rule posts, simp_all)+
    then show ?thesis by blast
  qed
  then have m: "m_evolves E (m_readOnly m) m m'" by (auto simp: call_ok_def create_ok_def)
  have wf: "sdb_wf (e_db E) (m_StateDB m)" "sdb_wf (e_db E) (m_StateDB m')"
    using assms(3) m_evolves_inv [OF m] by (simp_all add: m_inv_def inv_wf)
  show ?thesis
    using m assms(8) unfolding GetBalance_balance [OF wf(1)] GetBalance_balance [OF wf(2)]
    by (simp add: m_evolves_def evolves_def spends_def solvent_def totalSupply_def)
qed

theorem execution_creates_no_money_witness:
  "\<exists>m'. Call exampleEnv (Run 51 exampleEnv (instructionSet (e_rules exampleEnv))) exampleMachine (AccountRef 1) 2 [] 50 5 =
      Ok (m', [], 50, Some ErrInsufficientBalance, False) \<and>
    (\<forall>a. 0 \<le> snd (GetBalance memoryBackend (m_StateDB m') a))"
proof -
  let ?R = "Run 51 exampleEnv (instructionSet (e_rules exampleEnv))"
  obtain m' where c: "Call exampleEnv ?R exampleMachine (AccountRef 1) 2 [] 50 5 =
      Ok (m', [], 50, Some ErrInsufficientBalance, False)" by (rule example_call)
  have "\<forall>a. 0 \<le> snd (GetBalance (e_db exampleEnv) (m_StateDB m') a)"
    by (rule conjunct1 [OF execution_creates_no_money [OF example_ok, of 50 51 5 m' "AccountRef 1" 2 "[]" _ 0]])
      (use c example_state in \<open>auto simp: GetBalance_emptyState\<close>)
  with c example_state show ?thesis by auto
qed

lemma world_getters:
  assumes "world_eq D s s'" "sdb_wf D s" "sdb_wf D s'"
  shows "snd (GetBalance D s' a) = snd (GetBalance D s a)" "snd (GetNonce D s' a) = snd (GetNonce D s a)"
    "snd (GetCode D s' a) = snd (GetCode D s a)" "snd (HasSuicided D s' a) = snd (HasSuicided D s a)"
    "snd (Exist D s a) \<Longrightarrow> snd (GetState D s' a k) = snd (GetState D s a k)"
proof -
  have v: "case view D s a of Some x \<Rightarrow> view D s' a = Some x
      | None \<Rightarrow> (case view D s' a of None \<Rightarrow> True | Some x \<Rightarrow> blank x)" using assms(1) by (simp add: world_eq_def)
  show "snd (GetBalance D s' a) = snd (GetBalance D s a)" "snd (GetNonce D s' a) = snd (GetNonce D s a)"
    "snd (GetCode D s' a) = snd (GetCode D s a)" "snd (HasSuicided D s' a) = snd (HasSuicided D s a)"
    "snd (Exist D s a) \<Longrightarrow> snd (GetState D s' a k) = snd (GetState D s a k)"
    unfolding getters_view [OF assms(2)] getters_view [OF assms(3)]
    using v by (auto simp: blank_def split: option.splits)
qed

text \<open>C7. A static call is read-only: after Byzantium, whatever the callee and its callees do, no balance, nonce,
  code, storage slot, self-destruct mark or log changes.  Storage slots are those of the accounts that existed before the call.\<close>

theorem static_call_read_only:
  assumes "env_ok E" "rules_ok (e_rules E)" "m_inv E m" "unat gas < fuel" "r_IsByzantium (e_rules E)"
    "StaticCall E (Run fuel E (instructionSet (e_rules E))) m caller addr input gas = Ok (m', ret, gas', err, alias)"
  shows "(\<forall>a. snd (GetBalance (e_db E) (m_StateDB m') a) = snd (GetBalance (e_db E) (m_StateDB m) a) \<and>
      snd (GetNonce (e_db E) (m_StateDB m') a) = snd (GetNonce (e_db E) (m_StateDB m) a) \<and>
      snd (GetCode (e_db E) (m_StateDB m') a) = snd (GetCode (e_db E) (m_StateDB m) a) \<and>
      snd (HasSuicided (e_db E) (m_StateDB m') a) = snd (HasSuicided (e_db E) (m_StateDB m) a) \<and>
      (snd (Exist (e_db E) (m_StateDB m) a) \<longrightarrow>
        (\<forall>k. snd (GetState (e_db E) (m_StateDB m') a k) = snd (GetState (e_db E) (m_StateDB m) a k)))) \<and>
    logsOf (m_StateDB m') = logsOf (m_StateDB m)"
proof -
  note p = StaticCall_post [OF assms(1) forks.Run_ok [OF assms(1,2)] assms(3,4), of caller addr input]
  have m: "m_evolves E True m m'" using postD [OF p assms(6)] by (simp add: call_ok_def)
  then have w: "world_eq (e_db E) (m_StateDB m) (m_StateDB m')" using assms(5) by (simp add: m_evolves_def evolves_def)
  have wf: "sdb_wf (e_db E) (m_StateDB m)" "sdb_wf (e_db E) (m_StateDB m')"
    using assms(3) m_evolves_inv [OF m] by (simp_all add: m_inv_def inv_wf)
  have l: "logsOf (m_StateDB m') = logsOf (m_StateDB m)" using w by (simp add: world_eq_def)
  show ?thesis using world_getters [OF w wf] l by simp
qed

theorem static_call_read_only_witness:
  "\<exists>m' gas'. StaticCall exampleEnv (Run 51 exampleEnv (instructionSet (e_rules exampleEnv))) exampleMachine (AccountRef 1) 200 [] 50 =
      Ok (m', [], gas', None, False) \<and>
    (\<forall>a. snd (GetBalance memoryBackend (m_StateDB m') a) = 0)"
proof -
  let ?E = exampleEnv and ?R = "Run 51 exampleEnv (instructionSet (e_rules exampleEnv))"
  have d: "e_db ?E = memoryBackend" "m_StateDB exampleMachine = emptyState" "r_IsByzantium (e_rules ?E)"
    "\<not> e_NoRecursion ?E" "m_depth exampleMachine = 0"
    by (simp_all add: exampleEnv_def exampleMachine_def byzantiumRules_def)
  have p: "precompile (e_rules ?E) 200 = None" by (simp add: exampleEnv_def byzantiumRules_def precompile_def PrecompiledContractsByzantium_def BytesToAddress_eq be_nat_Cons)
  obtain m1 snap where 1: "m_get exampleMachine Snapshot = (m1, snap)" by (cases "m_get exampleMachine Snapshot")
  define m2 where "m2 = m_do m1 (\<lambda>s. AddBalance (e_db ?E) s 200 0)"
  obtain m3 h where 3: "m_get m2 (\<lambda>s. GetCodeHash (e_db ?E) s 200) = (m3, h)" by (cases "m_get m2 (\<lambda>s. GetCodeHash (e_db ?E) s 200)")
  obtain m4 code where 4: "m_get m3 (\<lambda>s. GetCode (e_db ?E) s 200) = (m4, code)" by (cases "m_get m3 (\<lambda>s. GetCode (e_db ?E) s 200)")
  let ?s = "fst (Snapshot emptyState)"
  have inv: "sdb_inv memoryBackend ?s" "sdb_inv memoryBackend (AddBalance memoryBackend ?s 200 0)"
    using extends_inv [OF extends_Snapshot [OF sdb_inv_emptyState]] extends_inv [OF extends_ops(1) [OF _ addrHash_inj_memory]] by blast+
  have s3: "m_StateDB m2 = AddBalance memoryBackend ?s 200 0" "m_StateDB m3 = fst (GetCodeHash memoryBackend (m_StateDB m2) 200)"
    using 1 3 by (auto simp: m2_def m_get_def m_do_def d split: prod.splits)
  have "code = snd (GetCode memoryBackend (m_StateDB m3) 200)" using 4 by (auto simp: m_get_def d split: prod.splits)
  also have "\<dots> = snd (GetCode memoryBackend (m_StateDB m2) 200)"
    using getters_agreeI [OF getters_sdb_eq(5) [OF inv_wf [OF inv(2)]]
        inv_wf [OF extends_inv [OF extends_getters(5) [OF inv(2) addrHash_inj_memory]]] inv_wf [OF inv(2)]]
    by (simp add: s3 getters_agree_def)
  also have "\<dots> = []"
    unfolding s3(1) setter_getters(3) [OF inv(1) addrHash_inj_memory]
    by (simp add: GetCode_def Snapshot_def Let_def getStateObject_def getDeletedStateObject_def emptyState_def
        memoryBackend_def StateDB_New_def)
  finally have code: "code = []" .
  have "\<exists>m'. StaticCall ?E ?R exampleMachine (AccountRef 1) 200 [] 50 = Ok (m', [], 50, None, False)"
    unfolding StaticCall_def Let_def 1 prod.case m2_def [symmetric] p option.case 3 4
    by (simp add: d code runContract_def Run_def runWith_def SetCallCode_def NewContract_def endCall_def)
  then obtain m' where s: "StaticCall ?E ?R exampleMachine (AccountRef 1) 200 [] 50 = Ok (m', [], 50, None, False)" by blast
  from static_call_read_only [OF example_ok _ d(3) s] s show ?thesis by (auto simp: d GetBalance_emptyState)
qed

text \<open>C34. A transfer conserves the money: over any finite set of accounts with the two parties, the total balance
  stays the same.  Nonces, codes and the balances of all others are kept, and the sender is left with
  what the check before the transfer guarantees to be non-negative.\<close>

theorem Transfer_conserves_balance:
  assumes "sdb_inv D s" "addrHash_inj D" "finite A" "sender \<in> A" "recipient \<in> A"
  shows "(\<Sum>a \<in> A. snd (GetBalance D (Transfer D s sender recipient amount) a)) = (\<Sum>a \<in> A. snd (GetBalance D s a)) \<and>
    (\<forall>a. a \<noteq> sender \<and> a \<noteq> recipient \<longrightarrow>
       snd (GetBalance D (Transfer D s sender recipient amount) a) = snd (GetBalance D s a)) \<and>
    (\<forall>a. snd (GetNonce D (Transfer D s sender recipient amount) a) = snd (GetNonce D s a) \<and>
       snd (GetCode D (Transfer D s sender recipient amount) a) = snd (GetCode D s a)) \<and>
    (snd (CanTransfer D s sender amount) \<and> 0 \<le> amount \<longrightarrow>
       0 \<le> snd (GetBalance D (Transfer D s sender recipient amount) sender))"
proof -
  have i: "sdb_inv D (SubBalance D s sender amount)" by (rule extends_inv [OF extends_ops(2) [OF assms(1,2)]])
  note g = setter_getters [OF i assms(2)] setter_getters [OF assms(1,2)]
  have b: "snd (GetBalance D (Transfer D s sender recipient amount) a) =
      snd (GetBalance D s a) + ((if a = recipient then amount else 0) - (if a = sender then amount else 0))" for a
    by (simp add: Transfer_def g)
  have "(\<Sum>a \<in> A. snd (GetBalance D (Transfer D s sender recipient amount) a)) = (\<Sum>a \<in> A. snd (GetBalance D s a))"
    unfolding b sum.distrib sum_subtractf using assms(3-5) by simp
  then show ?thesis
    by (auto simp: b CanTransfer_def Transfer_def [of D s sender recipient amount] g split: prod.splits)
qed

theorem Transfer_conserves_balance_witness:
  "(\<Sum>a \<in> {1, 2}. snd (GetBalance memoryBackend (Transfer memoryBackend (AddBalance memoryBackend emptyState 1 5) 1 2 3) a)) = 5"
proof -
  note i = sdb_inv_emptyState addrHash_inj_memory
  have "sdb_inv memoryBackend (AddBalance memoryBackend emptyState 1 5)" by (rule extends_inv [OF extends_ops(1) [OF i]])
  from Transfer_conserves_balance [OF this i(2), of "{1, 2}" 1 2 3] show ?thesis
    by (simp add: setter_getters [OF i] GetBalance_emptyState)
qed

end
