(* ===== verification/TransitionEffects.thy ===== *)
theory TransitionEffects
  imports StateTransition VmProperties
begin

text \<open>
  What a message does to the gas pool, the balances and the state: the phases of \<open>TransitionDb\<close> one by one,
  and the accounting of gas and money over the whole transition.
\<close>

section \<open>Intrinsic gas\<close>

definition dataPrice :: "bytes \<Rightarrow> bool \<Rightarrow> nat" where
  "dataPrice data isEIP2028 = (if isEIP2028 then 16 else 68) * length (filter (\<lambda>b. b \<noteq> 0) data) + 4 * length (filter (\<lambda>b. b = 0) data)"

definition listPrice :: "AccessTuple list \<Rightarrow> nat" where
  "listPrice al = 2400 * length al + 1900 * sum_list (map (length \<circ> at_StorageKeys) al)"

lemma countNonZero_eq: "countNonZero data nz = nz + of_nat (length (filter (\<lambda>b. b \<noteq> 0) data))"
  by (induction data arbitrary: nz) simp_all

lemma StorageKeys_eq: "StorageKeys al = sum_list (map (length \<circ> at_StorageKeys) al)"
proof -
  have "foldl (\<lambda>n tuple. n + length (at_StorageKeys tuple)) k al = k + sum_list (map (length \<circ> at_StorageKeys) al)" for k
    by (induction al arbitrary: k) simp_all
  then show ?thesis by (simp add: StorageKeys_def)
qed

lemma length_zero_bytes: "length data - length (filter (\<lambda>b. b \<noteq> 0) data) = length (filter (\<lambda>b. b = 0) data)" for data :: bytes
  using sum_length_filter_compl [of "\<lambda>b. b \<noteq> 0" data] by simp

text \<open>The overflow check before a product is added is exact.\<close>

lemma overflow_check:
  assumes "0 < (p :: u64)"
  shows "(MaxUint64 - gas) div p < n \<longleftrightarrow> \<not> unat gas + unat n * unat p < 2 ^ 64"
proof -
  have u: "unat (MaxUint64 - gas) = 18446744073709551615 - unat gas"
    using unat_u64_bound [of gas] by (subst unat_sub) (simp_all add: word_le_nat_alt)
  have p: "0 < unat p" using assms by (simp add: word_less_nat_alt)
  have "(MaxUint64 - gas) div p < n \<longleftrightarrow> (18446744073709551615 - unat gas) div unat p < unat n"
    unfolding word_less_nat_alt unat_div u ..
  also have "\<dots> \<longleftrightarrow> 18446744073709551615 - unat gas < unat n * unat p" using p by (rule div_less_iff_less_mult)
  finally show ?thesis using unat_u64_bound [of gas] by auto
qed

lemma unat_muladd:
  assumes "unat (gas :: u64) + unat n * unat p < 2 ^ 64"
  shows "unat (gas + n * p) = unat gas + unat n * unat p"
proof -
  have "unat (n * p) = unat n * unat p" using assms by (simp add: unat_mult_lem [symmetric])
  then show ?thesis using assms by (subst unat_add_lem [THEN iffD1]) simp_all
qed

lemma dataGas_exact:
  assumes "length data < 2 ^ 63"
  shows "unat gas + dataPrice data b < 2 ^ 64 \<Longrightarrow> \<exists>g. dataGas data b gas = Inr g \<and> unat g = unat gas + dataPrice data b"
    "\<not> unat gas + dataPrice data b < 2 ^ 64 \<Longrightarrow> dataGas data b gas = Inl ErrTxGasUintOverflow"
proof -
  let ?nz = "length (filter (\<lambda>b. b \<noteq> 0) data)" and ?z = "length (filter (\<lambda>b. b = 0) data)"
  define p where "p = (if b then TxDataNonZeroGasEIP2028 else TxDataNonZeroGasFrontier)"
  have le: "?nz \<le> length data" "?z \<le> length data" by simp_all
  have p: "0 < p" "unat p = (if b then 16 else 68)" by (simp_all add: p_def)
  have n: "unat (of_nat ?nz :: u64) = ?nz" "unat (of_nat ?z :: u64) = ?z" 
    using order_le_less_trans [OF le(1) assms] order_le_less_trans [OF le(2) assms] by (simp_all add: unat_of_nat)
  have z: "(of_nat (length data) :: u64) - of_nat ?nz = of_nat ?z"
    using length_zero_bytes [of data] le(1) by (metis of_nat_diff)
  have d: "dataPrice data b = ?nz * unat p + ?z * 4" by (simp add: dataPrice_def p(2))
  note c1 = overflow_check [OF p(1), of gas "of_nat ?nz", unfolded n]
  have c2: "(MaxUint64 - (gas + of_nat ?nz * p)) div 4 < of_nat ?z \<longleftrightarrow> \<not> unat gas + ?nz * unat p + ?z * 4 < 2 ^ 64"
    if "unat gas + ?nz * unat p < 2 ^ 64"
    using overflow_check [of 4 "gas + of_nat ?nz * p" "of_nat ?z"] unat_muladd [of gas "of_nat ?nz" p] that n by simp
  have e: "dataGas data b gas = (if \<not> unat gas + ?nz * unat p < 2 ^ 64 then Inl ErrTxGasUintOverflow
      else if (MaxUint64 - (gas + of_nat ?nz * p)) div 4 < of_nat ?z then Inl ErrTxGasUintOverflow
      else Inr (gas + of_nat ?nz * p + of_nat ?z * 4))"
    unfolding dataGas_def countNonZero_eq Let_def p_def [symmetric] add_0 z c1 ..
  show "\<exists>g. dataGas data b gas = Inr g \<and> unat g = unat gas + dataPrice data b" if "unat gas + dataPrice data b < 2 ^ 64"
  proof -
    have a: "unat gas + ?nz * unat p < 2 ^ 64" "unat gas + ?nz * unat p + ?z * 4 < 2 ^ 64" using that unfolding d by linarith+
    have "unat (gas + of_nat ?nz * p + of_nat ?z * 4) = unat gas + dataPrice data b"
      using unat_muladd [of gas "of_nat ?nz" p] unat_muladd [of "gas + of_nat ?nz * p" "of_nat ?z" 4] a n d by simp
    then show ?thesis using e c2 a by simp
  qed
  show "dataGas data b gas = Inl ErrTxGasUintOverflow" if "\<not> unat gas + dataPrice data b < 2 ^ 64"
    using e c2 that unfolding d by (simp add: add.assoc)
qed

text \<open>C33. The intrinsic gas is exact: the base cost, the prices of the zero and non-zero bytes and of the access
  list, as natural numbers, whenever their sum fits 64 bits.  When the base cost and the data alone exceed 64 bits, the
  result is the overflow error.\<close>

theorem IntrinsicGas_exact:
  assumes "length data < 2 ^ 63"
  shows "((if creation \<and> homestead then 53000 else 21000) + dataPrice data eip2028 + listPrice al < 2 ^ 64 \<longrightarrow>
      (\<exists>g. IntrinsicGas data al creation homestead eip2028 = Inr g \<and>
        unat g = (if creation \<and> homestead then 53000 else 21000) + dataPrice data eip2028 + listPrice al)) \<and>
    ((if creation \<and> homestead then 53000 else 21000) + dataPrice data eip2028 \<ge> 2 ^ 64 \<longrightarrow>
      IntrinsicGas data al creation homestead eip2028 = Inl ErrTxGasUintOverflow)"
proof -
  define base where "base = (if creation \<and> homestead then TxGasContractCreation else TxGas)"
  have b: "(if creation \<and> homestead then 53000 else 21000) = unat base" by (simp add: base_def)
  define d where "d = (if length data > 0 then dataGas data eip2028 base else Inr base)"
  have d1: "\<exists>g. d = Inr g \<and> unat g = unat base + dataPrice data eip2028" if "unat base + dataPrice data eip2028 < 2 ^ 64"
    using dataGas_exact(1) [OF assms that] by (cases "data = []") (auto simp: d_def dataPrice_def)
  have d2: "d = Inl ErrTxGasUintOverflow" if "\<not> unat base + dataPrice data eip2028 < 2 ^ 64"
    using dataGas_exact(2) [OF assms that] that unat_u64_bound [of base] by (cases "data = []") (auto simp: d_def dataPrice_def)
  have i: "IntrinsicGas data al creation homestead eip2028 = (case d of Inl e \<Rightarrow> Inl e | Inr gas \<Rightarrow>
      Inr (gas + of_nat (length al) * 2400 + of_nat (StorageKeys al) * 1900))"
    unfolding IntrinsicGas_def Let_def d_def base_def ..
  have "unat (g + of_nat (length al) * 2400 + of_nat (StorageKeys al) * 1900 :: u64) = unat g + listPrice al"
    if "unat g + listPrice al < 2 ^ 64" for g
  proof -
    have n: "unat (of_nat (length al) :: u64) = length al" "unat (of_nat (StorageKeys al) :: u64) = StorageKeys al"
      using that by (simp_all add: unat_of_nat take_bit_nat_eq_self listPrice_def StorageKeys_eq)
    have k: "listPrice al = length al * 2400 + StorageKeys al * 1900" by (simp add: listPrice_def StorageKeys_eq)
    have a: "unat g + length al * 2400 < 2 ^ 64" "unat g + length al * 2400 + StorageKeys al * 1900 < 2 ^ 64"
      using that unfolding k by linarith+
    show ?thesis
      using unat_muladd [of g "of_nat (length al)" 2400]
        unat_muladd [of "g + of_nat (length al) * 2400" "of_nat (StorageKeys al)" 1900] n a k by simp
  qed
  with d1 d2 show ?thesis unfolding b i by (fastforce simp: not_le)
qed

theorem IntrinsicGas_exact_witness:
  "\<exists>g. IntrinsicGas [0, 7, 0] [\<lparr>at_Address = 5, at_StorageKeys = [1, 2]\<rparr>] True True True = Inr g \<and> unat g = 59224"
  using IntrinsicGas_exact [of "[0, 7, 0]" True True True "[\<lparr>at_Address = 5, at_StorageKeys = [1, 2]\<rparr>]"]
  by (simp add: dataPrice_def listPrice_def)

section \<open>Phases\<close>

abbreviation st_state :: "'t StateTransition \<Rightarrow> 't StateDB" where
  "st_state st \<equiv> m_StateDB (st_evm st)"

text \<open>The fields that no phase changes.\<close>

definition same_message :: "'t StateTransition \<Rightarrow> 't StateTransition \<Rightarrow> bool" where
  "same_message st st' \<longleftrightarrow> st_msg st' = st_msg st \<and> st_gasPrice st' = st_gasPrice st \<and> st_gasFeeCap st' = st_gasFeeCap st \<and>
     st_gasTipCap st' = st_gasTipCap st \<and> st_value st' = st_value st \<and> st_data st' = st_data st \<and>
     m_depth (st_evm st') = m_depth (st_evm st)"

definition ready :: "'t env \<Rightarrow> 't StateTransition \<Rightarrow> bool" where
  "ready E st \<longleftrightarrow> m_inv E (st_evm st) \<and> \<not> m_readOnly (st_evm st)"

lemma st_getE:
  assumes "st_get st f = (st', x)"
  obtains m where "m_get (st_evm st) f = (m, x)" "st' = st\<lparr>st_evm := m\<rparr>"
  using assms by (auto simp: st_get_def split: prod.splits)

lemma m_evolves_depth: "m_evolves E ro m m' \<Longrightarrow> m_depth m' = m_depth m"
  by (simp add: m_evolves_def)

lemma m_get_balance:
  assumes "m_inv E m" "m_get m (\<lambda>s. GetBalance (e_db E) s a) = (m', x)"
  shows "x = balance (e_db E) (m_StateDB m) a"
  using assms GetBalance_balance [of "e_db E" "m_StateDB m" a] by (auto simp: m_get_def m_inv_def inv_wf split: prod.splits)

definition required :: "'t StateTransition \<Rightarrow> int" where
  "required st = uint (msg_Gas (st_msg st)) * (case st_gasFeeCap st of None \<Rightarrow> st_gasPrice st | Some cap \<Rightarrow> cap)"

text \<open>The gas has been bought: taken from the pool, given to the transition, and paid by the sender.\<close>

definition bought :: "'t env \<Rightarrow> 't StateTransition \<Rightarrow> 't StateTransition \<Rightarrow> bool" where
  "bought E st st' \<longleftrightarrow>
     (let g = msg_Gas (st_msg st); a = msg_From (st_msg st); b = balance (e_db E) (st_state st) in
      required st \<le> b a \<and> g \<le> st_gp st \<and> st_gp st' = st_gp st - g \<and> st_gas st' = st_gas st + g \<and> st_initialGas st' = g \<and>
      balance (e_db E) (st_state st') = b(a := b a - uint g * st_gasPrice st))"

lemma buyGas_effect:
  assumes ok: "env_ok E" and r: "ready E st" and e: "buyGas E st = (st', err)"
  shows "ready E st' \<and> same_message st st' \<and>
    (case err of
       None \<Rightarrow> bought E st st'
     | Some x \<Rightarrow> st_gp st' = st_gp st \<and> sdb_eq (e_db E) (st_state st') (st_state st) \<and>
         (x = ErrInsufficientFunds \<and> balance (e_db E) (st_state st) (msg_From (st_msg st)) < required st \<or>
          x = ErrGasLimitReached \<and> st_gp st < msg_Gas (st_msg st)))"
proof -
  let ?D = "e_db E" and ?a = "msg_From (st_msg st)"
  have inj: "addrHash_inj ?D" and inv: "m_inv E (st_evm st)" using ok r by (simp_all add: env_ok_def ready_def)
  obtain m x where g: "m_get (st_evm st) (\<lambda>s. GetBalance ?D s ?a) = (m, x)"
    by (cases "m_get (st_evm st) (\<lambda>s. GetBalance ?D s ?a)")
  have st: "st_get st (\<lambda>s. GetBalance ?D s ?a) = (st\<lparr>st_evm := m\<rparr>, x)" by (simp add: st_get_def g)
  note x = m_get_balance [OF inv g]
  have ev: "m_evolves E False (st_evm st) m" by (rule m_get_reads(3) [OF ok inv g])
  have m: "m_inv E m" "\<not> m_readOnly m" "m_depth m = m_depth (st_evm st)" using m_evolves_inv [OF ev] ev r by (simp_all add: m_evolves_def ready_def)
  have b: "balance ?D (m_StateDB m) = balance ?D (st_state st)" by (rule balance_view [OF m_get_view(5) [OF inv g]])
  have q: "sdb_eq ?D (m_StateDB m) (st_state st)"
    using getters_sdb_eq(3) [of ?D "st_state st" ?a] inv g by (auto simp: m_get_def m_inv_def inv_wf split: prod.splits)
  have w: "sdb_inv ?D (SubBalance ?D (m_StateDB m) ?a y)" for y
    using extends_inv [OF extends_ops(2) [OF _ inj]] m(1) by (simp add: m_inv_def)
  have c: "(case st_gasFeeCap st of None \<Rightarrow> uint (msg_Gas (st_msg st)) * st_gasPrice st | Some cap \<Rightarrow> uint (msg_Gas (st_msg st)) * cap) = required st"
    by (simp add: required_def split: option.split)
  note bal = balance_setters(2) [of ?D "m_StateDB m" ?a, OF _ inj]
  from e show ?thesis
    unfolding buyGas_def Let_def st prod.case c
    using m q x w b bal by (auto simp: SubGas_def ready_def same_message_def bought_def st_do_def m_do_def m_inv_def Let_def split: if_splits)
qed

lemma checkNonce_effect:
  assumes ok: "env_ok E" and r: "ready E st" and e: "checkNonce E st = (st', err)"
  shows "ready E st' \<and> same_message st st' \<and> st_gp st' = st_gp st \<and> st_gas st' = st_gas st \<and> sdb_eq (e_db E) (st_state st') (st_state st) \<and>
    (let n = snd (GetNonce (e_db E) (st_state st) (msg_From (st_msg st))); k = msg_Nonce (st_msg st)
     in (case err of None \<Rightarrow> msg_CheckNonce (st_msg st) \<longrightarrow> n = k
         | Some x \<Rightarrow> msg_CheckNonce (st_msg st) \<and> (x = ErrNonceTooHigh \<and> n < k \<or> x = ErrNonceTooLow \<and> n > k)))"
proof -
  let ?D = "e_db E" and ?a = "msg_From (st_msg st)"
  have inv: "m_inv E (st_evm st)" using r by (simp add: ready_def)
  obtain m x where g: "m_get (st_evm st) (\<lambda>s. GetNonce ?D s ?a) = (m, x)"
    by (cases "m_get (st_evm st) (\<lambda>s. GetNonce ?D s ?a)")
  have st: "st_get st (\<lambda>s. GetNonce ?D s ?a) = (st\<lparr>st_evm := m\<rparr>, x)" by (simp add: st_get_def g)
  have ev: "m_evolves E False (st_evm st) m" by (rule m_get_reads(4) [OF ok inv g])
  have m: "m_inv E m" "\<not> m_readOnly m" "m_depth m = m_depth (st_evm st)" using m_evolves_inv [OF ev] ev r by (simp_all add: m_evolves_def ready_def)
  have x: "x = snd (GetNonce ?D (st_state st) ?a)" and q: "sdb_eq ?D (m_StateDB m) (st_state st)" "sdb_eq ?D (st_state st) (st_state st)"
    using getters_sdb_eq(4) [of ?D "st_state st" ?a] m_inv_sdb_eq [OF inv] inv g
    by (auto simp: m_get_def m_inv_def inv_wf split: prod.splits)
  from e show ?thesis
    unfolding checkNonce_def Let_def st prod.case using m q x r
    by (auto simp: ready_def same_message_def split: if_splits)
qed

lemma BitLen_gt: "BitLen x > k \<longleftrightarrow> 2 ^ k \<le> \<bar>x\<bar>"
proof -
  have "BitLen x \<le> k \<longleftrightarrow> \<bar>x\<bar> < 2 ^ k" unfolding BitLen_def bit_len_le_iff by (simp add: nat_less_iff)
  then show ?thesis by linarith
qed

text \<open>What the errors of the fee check say of the fee fields.\<close>

fun fee_error :: "'t env \<Rightarrow> 't StateTransition \<Rightarrow> coreError \<Rightarrow> bool" where
  "fee_error E st ErrFeeCapVeryHigh = (\<exists>cap. st_gasFeeCap st = Some cap \<and> 2 ^ 256 \<le> \<bar>cap\<bar>)"
| "fee_error E st ErrTipVeryHigh = (\<exists>tip. st_gasTipCap st = Some tip \<and> 2 ^ 256 \<le> \<bar>tip\<bar>)"
| "fee_error E st ErrTipAboveFeeCap = (\<exists>cap tip. st_gasFeeCap st = Some cap \<and> st_gasTipCap st = Some tip \<and> cap < tip)"
| "fee_error E st ErrFeeCapTooLow = (\<exists>cap b. st_gasFeeCap st = Some cap \<and> bc_BaseFee (e_Context E) = Some b \<and> cap < b)"
| "fee_error E st _ = False"

definition fees_ok :: "'t env \<Rightarrow> 't StateTransition \<Rightarrow> bool" where
  "fees_ok E st \<longleftrightarrow> (\<exists>cap tip b. st_gasFeeCap st = Some cap \<and> st_gasTipCap st = Some tip \<and> bc_BaseFee (e_Context E) = Some b \<and>
     \<bar>cap\<bar> < 2 ^ 256 \<and> \<bar>tip\<bar> < 2 ^ 256 \<and> tip \<le> cap \<and> b \<le> cap)"

lemma feesChecked_effect:
  assumes "feesChecked E st = Ok b" "\<not> b"
  shows "e_NoBaseFee E \<and> st_gasFeeCap st = Some 0 \<and> st_gasTipCap st = Some 0"
proof -
  have z: "BitLen x > 0 \<longleftrightarrow> x \<noteq> 0" for x using BitLen_gt [of 0 x] by (simp, linarith)
  show ?thesis using assms unfolding feesChecked_def by (auto simp: z elim!: derefE split: if_splits)
qed

lemma checkFees_effect:
  assumes "checkFees E st = Ok err"
  shows "case err of
      Some x \<Rightarrow> fee_error E st x
    | None \<Rightarrow> fees_ok E st \<or> e_NoBaseFee E \<and> st_gasFeeCap st = Some 0 \<and> st_gasTipCap st = Some 0"
proof -
  obtain b where b: "feesChecked E st = Ok b" using assms by (cases "feesChecked E st") (simp_all add: checkFees_def)
  show ?thesis
  proof (cases b)
    case True
    with assms b show ?thesis unfolding checkFees_def
      by (auto simp: BitLen_gt fees_ok_def not_le not_less elim!: derefE split: if_splits)
  next
    case False
    with assms b feesChecked_effect [OF b False] show ?thesis by (simp add: checkFees_def)
  qed
qed

definition preCheck_spec :: "'t env \<Rightarrow> 't StateTransition \<Rightarrow> 't StateTransition \<Rightarrow> coreError option \<Rightarrow> bool" where
  "preCheck_spec E st st' err \<longleftrightarrow>
     (let n = snd (GetNonce (e_db E) (st_state st) (msg_From (st_msg st))); k = msg_Nonce (st_msg st) in
      case err of
        None \<Rightarrow> (msg_CheckNonce (st_msg st) \<longrightarrow> n = k) \<and>
          (r_IsLondon (e_rules E) \<longrightarrow> fees_ok E st \<or> e_NoBaseFee E \<and> st_gasFeeCap st = Some 0 \<and> st_gasTipCap st = Some 0) \<and>
          bought E st st'
      | Some x \<Rightarrow> st_gp st' = st_gp st \<and> sdb_eq (e_db E) (st_state st') (st_state st) \<and>
          (msg_CheckNonce (st_msg st) \<and> (x = ErrNonceTooHigh \<and> n < k \<or> x = ErrNonceTooLow \<and> n > k) \<or>
           r_IsLondon (e_rules E) \<and> fee_error E st x \<or>
           x = ErrInsufficientFunds \<and> balance (e_db E) (st_state st) (msg_From (st_msg st)) < required st \<or>
           x = ErrGasLimitReached \<and> st_gp st < msg_Gas (st_msg st)))"

lemma same_message_fees:
  assumes "same_message st st'"
  shows "fee_error E st' x = fee_error E st x" "fees_ok E st' = fees_ok E st" "required st' = required st"
    "checkFees E st' = checkFees E st"
proof -
  have f: "st_msg st' = st_msg st" "st_gasPrice st' = st_gasPrice st" "st_gasFeeCap st' = st_gasFeeCap st" "st_gasTipCap st' = st_gasTipCap st"
    using assms by (simp_all add: same_message_def)
  show "fee_error E st' x = fee_error E st x" by (cases x) (simp_all add: f)
  show "fees_ok E st' = fees_ok E st" "required st' = required st" "checkFees E st' = checkFees E st"
    by (simp_all only: fees_ok_def required_def checkFees_def feesChecked_def f)
qed

lemma same_message_trans: "same_message st st' \<Longrightarrow> same_message st' st'' \<Longrightarrow> same_message st st''"
  by (simp add: same_message_def)

lemma preCheck_effect:
  assumes ok: "env_ok E" and r: "ready E st" and e: "preCheck E st = Ok (st', err)"
  shows "ready E st' \<and> same_message st st' \<and> preCheck_spec E st st' err"
proof -
  obtain st1 e1 where n: "checkNonce E st = (st1, e1)" by fastforce
  note c = checkNonce_effect [OF ok r n]
  have inv: "sdb_inv (e_db E) (st_state st)" "sdb_inv (e_db E) (st_state st1)" using r c by (simp_all add: ready_def m_inv_def)
  have b: "balance (e_db E) (st_state st1) = balance (e_db E) (st_state st)" using c balance_sdb_eq by blast
  show ?thesis
  proof (cases e1)
    case (Some x)
    then show ?thesis using e n c by (auto simp: preCheck_def preCheck_spec_def Let_def)
  next
    case None
    define fees where "fees = (if r_IsLondon (e_rules E) then checkFees E st1 else Ok None)"
    have sm: "same_message st st1" using c by blast
    obtain e2 where f: "fees = Ok e2" using e n None by (cases fees) (simp_all add: preCheck_def fees_def)
    have e2: "case e2 of Some x \<Rightarrow> r_IsLondon (e_rules E) \<and> fee_error E st x
        | None \<Rightarrow> r_IsLondon (e_rules E) \<longrightarrow> fees_ok E st \<or> e_NoBaseFee E \<and> st_gasFeeCap st = Some 0 \<and> st_gasTipCap st = Some 0"
      using checkFees_effect [of E st e2] f unfolding fees_def same_message_fees(4) [OF sm] by (auto split: if_splits option.splits)
    have t: "preCheck E st = (case e2 of Some x \<Rightarrow> Ok (st1, Some x) | None \<Rightarrow> Ok (buyGas E st1))"
      using f unfolding preCheck_def n None fees_def by simp
    show ?thesis
    proof (cases e2)
      case (Some x)
      then show ?thesis using t e c e2 by (auto simp: preCheck_spec_def Let_def)
    next
      case N2: None
      then have "buyGas E st1 = (st', err)" using t e by simp
      note g = buyGas_effect [OF ok _ this]
      have q: "sdb_eq (e_db E) (st_state st') (st_state st)" if "sdb_eq (e_db E) (st_state st') (st_state st1)"
        using sdb_eq_trans [OF that] c by blast
      have "bought E st1 st' \<Longrightarrow> bought E st st'"
        using c sm by (simp add: bought_def Let_def b same_message_def same_message_fees(3) [OF sm])
      moreover have "msg_Gas (st_msg st1) = msg_Gas (st_msg st)" "msg_From (st_msg st1) = msg_From (st_msg st)"
        using sm by (simp_all add: same_message_def)
      ultimately show ?thesis
        using g c N2 e2 q same_message_trans [OF sm] None
        by (auto simp: preCheck_spec_def Let_def b same_message_fees(3) [OF sm] split: option.splits)
    qed
  qed
qed

lemma evolves_AddAddresses:
  assumes "addrHash_inj D"
  shows "sdb_inv D s \<Longrightarrow> evolves D ro s (foldl AddAddressToAccessList s as)"
proof (induction as arbitrary: s)
  case Nil
  then show ?case by (simp add: evolves_refl)
next
  case (Cons a as)
  have e: "evolves D ro s (AddAddressToAccessList s a)" by (rule evolves_quiet(4) [OF Cons.prems assms])
  from evolves_trans [OF e Cons.IH [OF evolves_inv [OF e]] Cons.prems assms] show ?case by simp
qed

lemma AddSlot_post:
  assumes "sdb_inv D s" "addrHash_inj D"
  shows "post (AddSlotToAccessList s a k) (evolves D ro s)"
proof (cases "AddSlotToAccessList s a k")
  case NoFuel
  then show ?thesis by (simp add: AddSlotToAccessList_def AddSlot_def Let_def go_index_def split: option.splits outcome.splits prod.splits if_splits)
qed (use evolves_quiet(7) [OF assms] in simp_all)

lemma addSlots_post:
  assumes inj: "addrHash_inj D"
  shows "sdb_inv D s \<Longrightarrow> post (addSlots s a ks) (evolves D ro s)"
proof (induction ks arbitrary: s)
  case Nil
  then show ?case by (simp add: evolves_refl)
next
  case (Cons k ks)
  have "post (addSlots s' a ks) (evolves D ro s)" if e: "evolves D ro s s'" for s'
    by (rule post_mono [OF Cons.IH [OF evolves_inv [OF e]]]) (rule evolves_trans [OF e _ Cons.prems inj])
  then show ?case unfolding addSlots.simps post_bnd by (rule post_mono [OF AddSlot_post [OF Cons.prems inj]])
qed

lemma addTuples_post:
  assumes inj: "addrHash_inj D"
  shows "sdb_inv D s \<Longrightarrow> post (addTuples s al) (evolves D ro s)"
proof (induction al arbitrary: s)
  case Nil
  then show ?case by (simp add: evolves_refl)
next
  case (Cons t al)
  let ?s = "AddAddressToAccessList s (at_Address t)"
  have a: "evolves D ro s ?s" by (rule evolves_quiet(4) [OF Cons.prems inj])
  have "post (addTuples s' al) (evolves D ro s)" if e: "evolves D ro ?s s'" for s'
    by (rule post_mono [OF Cons.IH [OF evolves_inv [OF e]]])
      (rule evolves_trans [OF evolves_trans [OF a e Cons.prems inj] _ Cons.prems inj])
  then show ?case unfolding addTuples.simps post_bnd by (rule post_mono [OF addSlots_post [OF inj evolves_inv [OF a]]])
qed

lemma PrepareAccessList_post:
  assumes inv: "sdb_inv D s" and inj: "addrHash_inj D"
  shows "post (PrepareAccessList s sender dst pre al) (evolves D ro s)"
proof -
  let ?s = "foldl AddAddressToAccessList s (sender # (case dst of None \<Rightarrow> [] | Some d \<Rightarrow> [d]) @ pre)"
  have e: "evolves D ro s ?s" by (rule evolves_AddAddresses [OF inj inv])
  have "PrepareAccessList s sender dst pre al = addTuples ?s al" by (simp add: PrepareAccessList_def Let_def split: option.split)
  then show ?thesis using post_mono [OF addTuples_post [OF inj evolves_inv [OF e]] evolves_trans [OF e _ inv inj]] by simp
qed

text \<open>A phase that works within the machine: the pool and the price of the message stay.\<close>

definition within :: "'t env \<Rightarrow> 't StateTransition \<Rightarrow> 't StateTransition \<Rightarrow> bool" where
  "within E st st' \<longleftrightarrow> same_message st st' \<and> st_gp st' = st_gp st \<and> st_initialGas st' = st_initialGas st \<and>
     st_gas st' \<le> st_gas st \<and> m_evolves E False (st_evm st) (st_evm st')"

lemma within_ready: "within E st st' \<Longrightarrow> ready E st \<Longrightarrow> ready E st'"
  using m_evolves_inv [of E False "st_evm st" "st_evm st'"] by (simp add: within_def ready_def) (simp add: m_evolves_def)

abbreviation intrinsicOf :: "'t env \<Rightarrow> 't StateTransition \<Rightarrow> coreError + u64" where
  "intrinsicOf E st \<equiv> IntrinsicGas (st_data st) (msg_AccessList (st_msg st)) (msg_To (st_msg st) = None)
     (r_IsHomestead (e_rules E)) (r_IsIstanbul (e_rules E))"

definition begun :: "'t env \<Rightarrow> 't StateTransition \<Rightarrow> 't StateTransition \<Rightarrow> bool" where
  "begun E st st' \<longleftrightarrow> (\<exists>g. intrinsicOf E st = Inr g \<and> g \<le> st_gas st \<and> st_gas st' = st_gas st - g)"

lemma beginMessage_post:
  assumes ok: "env_ok E" and r: "ready E st"
  shows "post (beginMessage E st) (\<lambda>(st', err). within E st st' \<and> (err = None \<longrightarrow> begun E st st'))"
proof -
  have inv: "m_inv E (st_evm st)" using r by (simp add: ready_def)
  have w0: "within E st st" using m_evolves_refl [OF inv] by (simp add: within_def same_message_def)
  show ?thesis
  proof (cases "intrinsicOf E st")
    case (Inl e)
    then show ?thesis using w0 by (simp add: beginMessage_def)
  next
    case (Inr g)
    define st1 where "st1 = st\<lparr>st_gas := st_gas st - g\<rparr>"
    define chk where "chk = (if msg_Value (st_msg st) > 0
      then st_get st1 (\<lambda>s. bc_CanTransfer (e_Context E) s (msg_From (st_msg st)) (msg_Value (st_msg st))) else (st1, True))"
    obtain st2 can where c: "chk = (st2, can)" by fastforce
    have w2: "within E st st2 \<and> begun E st st2" if g: "g \<le> st_gas st"
    proof -
      have "st_gas st1 \<le> st_gas st" using g by (simp add: st1_def word_sub_le)
      moreover have "\<exists>m. st2 = st1\<lparr>st_evm := m\<rparr> \<and> m_evolves E False (st_evm st) m"
      proof (cases "msg_Value (st_msg st) > 0")
        case True
        then obtain m where "m_get (st_evm st1) (\<lambda>s. bc_CanTransfer (e_Context E) s (msg_From (st_msg st)) (msg_Value (st_msg st))) = (m, can)"
          "st2 = st1\<lparr>st_evm := m\<rparr>" using c by (auto simp: chk_def elim: st_getE)
        then show ?thesis using CanTransfer_evolves(1) [OF ok inv] by (auto simp: st1_def)
      next
        case False
        then show ?thesis using c m_evolves_refl [OF inv] by (intro exI [of _ "st_evm st"]) (auto simp: chk_def st1_def)
      qed
      ultimately show ?thesis using Inr g m_evolves_depth by (auto simp: within_def begun_def same_message_def st1_def)
    qed
    have pal: "post (m_try (st_evm st2) (\<lambda>s. PrepareAccessList s (msg_From (st_msg st)) (msg_To (st_msg st)) pre al))
        (\<lambda>m. within E st (st2\<lparr>st_evm := m\<rparr>) \<and> begun E st (st2\<lparr>st_evm := m\<rparr>))" if g: "g \<le> st_gas st" for pre al
    proof -
      have i2: "m_inv E (st_evm st2)" using w2 [OF g] within_ready [OF _ r] by (auto simp: ready_def)
      have "post (m_try (st_evm st2) (\<lambda>s. PrepareAccessList s (msg_From (st_msg st)) (msg_To (st_msg st)) pre al))
          (m_evolves E False (st_evm st2))"
        unfolding m_try_def post_bnd
        by (rule post_mono [OF PrepareAccessList_post [where D = "e_db E" and ro = False]])
          (use i2 ok in \<open>auto simp: m_inv_def env_ok_def m_evolves_def\<close>)
      then show ?thesis
        by (rule post_mono) (use w2 [OF g] m_evolves_trans [OF _ _ inv ok] in \<open>auto simp: within_def begun_def same_message_def dest: m_evolves_depth\<close>)
    qed
    have b: "beginMessage E st = (if st_gas st < g then Ok (st, Some ErrIntrinsicGas)
        else if \<not> can then Ok (st2, Some ErrInsufficientFundsForTransfer)
        else if r_IsBerlin (e_rules E) then
          bnd (m_try (st_evm st2) (\<lambda>s. PrepareAccessList s (msg_From (st_msg st)) (msg_To (st_msg st))
                 (ActivePrecompiles (e_rules E)) (msg_AccessList (st_msg st)))) (\<lambda>m. Ok (st2\<lparr>st_evm := m\<rparr>, None))
        else Ok (st2, None))"
      unfolding beginMessage_def Let_def Inr sum.case st1_def [symmetric] chk_def [symmetric] c by simp
    show ?thesis unfolding b using w0 w2 pal by (simp add: not_less)
  qed
qed

lemma executeMessage_post:
  assumes ok: "env_ok E" and R: "runner_ok E n R" and r: "ready E st" and n: "unat (st_gas st) < n" and pos: "0 \<le> st_value st"
  shows "post (executeMessage E R st) (\<lambda>(st', ret, err). within E st st')"
proof -
  let ?D = "e_db E" and ?a = "msg_From (st_msg st)"
  have inv: "m_inv E (st_evm st)" and ro: "\<not> m_readOnly (st_evm st)" using r by (simp_all add: ready_def)
  have m_ev: "m_evolves E False (st_evm st) m \<and> g \<le> st_gas st \<Longrightarrow> within E st (st\<lparr>st_evm := m, st_gas := g\<rparr>)" for m g
    using m_evolves_depth by (auto simp: within_def same_message_def)
  have create: "post (Create E R (st_evm st) c d (st_gas st) (st_value st)) (\<lambda>(m, ret, addr, g, err). within E st (st\<lparr>st_evm := m, st_gas := g\<rparr>))" for c d
    by (rule post_mono [OF Create_post [OF ok R inv n _ pos]]) (use ro in \<open>auto simp: create_ok_def intro: m_ev\<close>)
  obtain m1 nonce where g: "m_get (st_evm st) (\<lambda>s. GetNonce ?D s ?a) = (m1, nonce)" by (cases "m_get (st_evm st) (\<lambda>s. GetNonce ?D s ?a)")
  define m2 where "m2 = m_do m1 (\<lambda>s. SetNonce ?D s ?a (nonce + 1))"
  have m1: "m_evolves E False (st_evm st) m1" by (rule m_get_reads(4) [OF ok inv g])
  have m2: "m_evolves E False (st_evm st) m2"
    unfolding m2_def by (rule m_evolves_trans [OF m1 m_do_writes(1) [OF ok m_evolves_inv [OF m1]] inv ok]) simp
  have ro2: "\<not> m_readOnly m2" using m2 ro by (simp add: m_evolves_def)
  have call: "post (Call E R m2 c to d (st_gas st) (st_value st))
      (\<lambda>(m, ret, g, err, al). within E st (st\<lparr>st_evm := m, st_gas := g\<rparr>))" for c to d
    by (rule post_mono [OF Call_post [OF ok R m_evolves_inv [OF m2] n _ pos]])
      (use ro2 m_evolves_trans [OF m2 _ inv ok] in \<open>auto simp: call_ok_def intro!: m_ev\<close>)
  show ?thesis
    unfolding executeMessage_def Let_def st_get_def ref_Address.simps g prod.case
    by (auto simp: st_do_def m2_def [symmetric] intro!: post_mono [OF create] post_mono [OF call])
qed

text \<open>An account receives an amount.\<close>

lemma st_pay:
  assumes ok: "env_ok E" and r: "ready E st"
  shows "ready E (st_do st (\<lambda>s. AddBalance (e_db E) s a x))" "same_message st (st_do st (\<lambda>s. AddBalance (e_db E) s a x))"
    "totalSupply (e_db E) (st_state (st_do st (\<lambda>s. AddBalance (e_db E) s a x))) = totalSupply (e_db E) (st_state st) + x"
    "0 \<le> x \<Longrightarrow> solvent (e_db E) (st_state st) \<Longrightarrow> solvent (e_db E) (st_state (st_do st (\<lambda>s. AddBalance (e_db E) s a x)))"
proof -
  have inj: "addrHash_inj (e_db E)" and inv: "sdb_inv (e_db E) (st_state st)" using ok r by (simp_all add: env_ok_def ready_def m_inv_def)
  note b = balance_setters(1) [OF inv inj, of a x]
  show "ready E (st_do st (\<lambda>s. AddBalance (e_db E) s a x))"
    using r extends_inv [OF extends_ops(1) [OF inv inj]] by (simp add: ready_def st_do_def m_do_def m_inv_def)
  show "same_message st (st_do st (\<lambda>s. AddBalance (e_db E) s a x))" by (simp add: same_message_def st_do_def m_do_def)
  show "totalSupply (e_db E) (st_state (st_do st (\<lambda>s. AddBalance (e_db E) s a x))) = totalSupply (e_db E) (st_state st) + x"
    by (simp add: st_do_def m_do_def totalSupply_def b sum_upd del: fun_upd_apply)
  show "0 \<le> x \<Longrightarrow> solvent (e_db E) (st_state st) \<Longrightarrow> solvent (e_db E) (st_state (st_do st (\<lambda>s. AddBalance (e_db E) s a x)))"
    by (simp add: st_do_def m_do_def solvent_def b)
qed

lemma refundGas_effect:
  assumes ok: "env_ok E" and r: "ready E st" and g: "st_gas st \<le> st_initialGas st" and q: "0 < q"
    and room: "unat (st_gp st) + unat (st_initialGas st) < 2 ^ 64"
  shows "\<exists>st' refund. refundGas E st q = Ok st' \<and> ready E st' \<and> same_message st st' \<and> st_initialGas st' = st_initialGas st \<and>
    unat refund \<le> (unat (st_initialGas st) - unat (st_gas st)) div unat q \<and> refund \<le> GetRefund (st_state st) \<and>
    unat (st_gas st') = unat (st_gas st) + unat refund \<and> st_gas st' \<le> st_initialGas st \<and>
    unat (st_gp st') = unat (st_gp st) + unat (st_gas st') \<and>
    totalSupply (e_db E) (st_state st') = totalSupply (e_db E) (st_state st) + uint (st_gas st') * st_gasPrice st \<and>
    (0 \<le> st_gasPrice st \<and> solvent (e_db E) (st_state st) \<longrightarrow> solvent (e_db E) (st_state st'))"
proof -
  define refund where "refund = (if gasUsed st div q > GetRefund (st_state st) then GetRefund (st_state st) else gasUsed st div q)"
  define st1 where "st1 = st\<lparr>st_gas := st_gas st + refund\<rparr>"
  have used: "unat (gasUsed st) = unat (st_initialGas st) - unat (st_gas st)" using g by (simp add: gasUsed_def unat_sub)
  have rf: "unat refund \<le> unat (gasUsed st) div unat q" "refund \<le> GetRefund (st_state st)"
    by (auto simp: refund_def word_le_nat_alt word_less_nat_alt unat_div)
  have "unat refund \<le> unat (gasUsed st)" by (rule order_trans [OF rf(1) div_le_dividend])
  then have le: "unat (st_gas st) + unat refund \<le> unat (st_initialGas st)" using used g by (simp add: word_le_nat_alt)
  then have g1: "unat (st_gas st1) = unat (st_gas st) + unat refund"
    using unat_u64_bound [of "st_initialGas st"] by (simp add: st1_def unat_add_lem [THEN iffD1])
  have r1: "ready E st1" using r by (simp add: ready_def st1_def)
  have room1: "unat (st_gp st) + unat (st_gas st1) < 2 ^ 64" using room le g1 by linarith
  have ng: "\<not> st_gp st > MaxUint64 - st_gas st1"
  proof -
    have "unat (MaxUint64 - st_gas st1) = 18446744073709551615 - unat (st_gas st1)"
      using unat_u64_bound [of "st_gas st1"] by (subst unat_sub) (simp_all add: word_le_nat_alt)
    then show ?thesis using room1 by (simp add: word_less_nat_alt)
  qed
  define st2 where "st2 = st_do st1 (\<lambda>s. AddBalance (e_db E) s (msg_From (st_msg st)) (uint (st_gas st1) * st_gasPrice st))"
  note pay = st_pay [OF ok r1, where a = "msg_From (st_msg st)" and x = "uint (st_gas st1) * st_gasPrice st", folded st2_def]
  have "refundGas E st q = Ok (st2\<lparr>st_gp := st_gp st + st_gas st1\<rparr>)"
    unfolding refundGas_def Let_def refund_def [symmetric] st1_def [symmetric]
    using ng by (simp add: AddGas_def st2_def st_do_def st1_def)
  moreover have "st_gas st2 = st_gas st1" "st_state st1 = st_state st" "st_initialGas st2 = st_initialGas st" "st_gasPrice st1 = st_gasPrice st"
    "same_message st st1" "unat (st_gp st + st_gas st1) = unat (st_gp st) + unat (st_gas st1)"
    using room1 by (simp_all add: st2_def st_do_def st1_def same_message_def unat_add_lem [THEN iffD1])
  ultimately show ?thesis
    using pay rf used g1 le same_message_trans [OF _ pay(2)]
    by (intro exI [of _ "st2\<lparr>st_gp := st_gp st + st_gas st1\<rparr>"] exI [of _ refund])
      (simp add: ready_def same_message_def word_le_nat_alt)
qed

definition quotient :: "'t env \<Rightarrow> nat" where
  "quotient E = (if r_IsLondon (e_rules E) then 5 else 2)"

definition settled :: "'t env \<Rightarrow> 't StateTransition \<Rightarrow> 't StateTransition \<Rightarrow> bool" where
  "settled E st st' \<longleftrightarrow> ready E st' \<and> same_message st st' \<and> st_initialGas st' = st_initialGas st \<and> st_gas st' \<le> st_initialGas st \<and>
     (\<exists>refund tip. unat refund \<le> (unat (st_initialGas st) - unat (st_gas st)) div quotient E \<and> refund \<le> GetRefund (st_state st) \<and>
        unat (st_gas st') = unat (st_gas st) + unat refund \<and> unat (st_gp st') = unat (st_gp st) + unat (st_gas st') \<and>
        effectiveTip E st = Ok tip \<and>
        totalSupply (e_db E) (st_state st') = totalSupply (e_db E) (st_state st) + uint (st_gas st') * st_gasPrice st + uint (gasUsed st') * tip \<and>
        (0 \<le> st_gasPrice st \<and> 0 \<le> tip \<and> solvent (e_db E) (st_state st) \<longrightarrow> solvent (e_db E) (st_state st')))"

lemma settle_post:
  assumes ok: "env_ok E" and r: "ready E st" and g: "st_gas st \<le> st_initialGas st"
    and room: "unat (st_gp st) + unat (st_initialGas st) < 2 ^ 64"
  shows "post (settle E st) (settled E st)" "settle E st = Panic \<longleftrightarrow> effectiveTip E st = Panic"
proof -
  define q where "q = (if \<not> r_IsLondon (e_rules E) then RefundQuotient else RefundQuotientEIP3529)"
  have q: "0 < q" "unat q = quotient E" by (simp_all add: q_def quotient_def)
  obtain st1 refund where 1: "refundGas E st q = Ok st1" "ready E st1" "same_message st st1" "st_initialGas st1 = st_initialGas st"
    "unat refund \<le> (unat (st_initialGas st) - unat (st_gas st)) div unat q" "refund \<le> GetRefund (st_state st)"
    "unat (st_gas st1) = unat (st_gas st) + unat refund" "st_gas st1 \<le> st_initialGas st"
    "unat (st_gp st1) = unat (st_gp st) + unat (st_gas st1)"
    "totalSupply (e_db E) (st_state st1) = totalSupply (e_db E) (st_state st) + uint (st_gas st1) * st_gasPrice st"
    "0 \<le> st_gasPrice st \<and> solvent (e_db E) (st_state st) \<Longrightarrow> solvent (e_db E) (st_state st1)"
    using refundGas_effect [OF ok r g q(1) room] by blast
  have tip: "effectiveTip E st1 = effectiveTip E st"
    using 1(3) unfolding same_message_def effectiveTip_def by (elim conjE) (simp only:)
  have s: "settle E st = bnd (effectiveTip E st) (\<lambda>tip.
      Ok (st_do st1 (\<lambda>s. AddBalance (e_db E) s (bc_Coinbase (e_Context E)) (uint (gasUsed st1) * tip))))"
    unfolding settle_def q_def [symmetric] 1(1) by (simp add: tip)
  show "settle E st = Panic \<longleftrightarrow> effectiveTip E st = Panic" unfolding s by (cases "effectiveTip E st") simp_all
  have nf: "effectiveTip E st \<noteq> NoFuel" by (auto simp: effectiveTip_def deref_def split: option.splits if_splits)
  show "post (settle E st) (settled E st)"
  proof (cases "effectiveTip E st")
    case (Ok tip)
    define st2 where "st2 = st_do st1 (\<lambda>s. AddBalance (e_db E) s (bc_Coinbase (e_Context E)) (uint (gasUsed st1) * tip))"
    note pay = st_pay [OF ok 1(2), where a = "bc_Coinbase (e_Context E)" and x = "uint (gasUsed st1) * tip", folded st2_def]
    have f: "st_gas st2 = st_gas st1" "st_gp st2 = st_gp st1" "st_initialGas st2 = st_initialGas st1" "gasUsed st2 = gasUsed st1"
      by (simp_all add: st2_def st_do_def gasUsed_def)
    have "settled E st st2"
      unfolding settled_def using 1 pay f Ok q(2) same_message_trans [OF 1(3) pay(2)]
      by (intro conjI exI [of _ refund] exI [of _ tip]) simp_all
    then show ?thesis by (simp add: s Ok st2_def)
  qed (use nf s in simp_all)
qed

section \<open>Whole transitions\<close>

definition applied :: "'t env \<Rightarrow> 't StateTransition \<Rightarrow> 't StateTransition \<Rightarrow> ExecutionResult \<Rightarrow> bool" where
  "applied E st st' res \<longleftrightarrow>
     (\<exists>st1 st2 st3. preCheck_spec E st st1 None \<and> same_message st st1 \<and> within E st1 st2 \<and> begun E st1 st2 \<and> within E st2 st3 \<and>
        settled E st3 st' \<and> res_UsedGas res = gasUsed st')"

lemma ApplyMessage_post:
  assumes ok: "env_ok E" and R: "runner_ok E n R" and inv: "m_inv E m" and ro: "\<not> m_readOnly m"
    and n: "unat (msg_Gas msg) < n" and pos: "0 \<le> msg_Value msg"
  shows "post (ApplyMessage E R m msg gp)
    (\<lambda>(st', r). \<forall>res. r = Inr res \<longrightarrow> applied E (NewStateTransition m msg gp) st' res)"
proof -
  define st where "st = NewStateTransition m msg gp"
  have st: "ready E st" "st_gas st = 0" "st_msg st = msg" "st_gp st = gp" "st_value st = msg_Value msg"
    using inv ro by (simp_all add: st_def NewStateTransition_def ready_def)
  have nf: "preCheck E st \<noteq> NoFuel"
    by (auto simp: preCheck_def checkFees_def feesChecked_def deref_def split: prod.splits option.splits if_splits)
  have exec: "post (executeMessage E R st2) (\<lambda>(st3, ret, err). post (settle E st3) (\<lambda>st'. applied E st st' \<lparr>res_UsedGas = gasUsed st', res_Err = err, res_ReturnData = ret\<rparr>))"
    if p: "preCheck E st = Ok (st1, None)" and w: "within E st1 st2" and b: "begun E st1 st2" for st1 st2
  proof -
    note pc = preCheck_effect [OF ok st(1) p]
    have bt: "bought E st st1" using pc by (simp add: preCheck_spec_def Let_def)
    have r2: "ready E st2" using within_ready [OF w] pc by blast
    have g1: "st_gas st1 = msg_Gas msg" "st_initialGas st1 = msg_Gas msg" using bt st by (simp_all add: bought_def Let_def)
    have room: "unat (st_gp st1) + unat (msg_Gas msg) < 2 ^ 64"
      using bt st unat_u64_bound [of gp] by (simp add: bought_def Let_def unat_sub word_le_nat_alt)
    have n2: "unat (st_gas st2) < n" using w g1 n by (simp add: within_def word_le_nat_alt)
    have v: "0 \<le> st_value st2" using pc w st pos by (simp add: within_def same_message_def)
    have fin: "post (settle E st3) (\<lambda>st'. applied E st st' \<lparr>res_UsedGas = gasUsed st', res_Err = err, res_ReturnData = ret\<rparr>)"
      if w3: "within E st2 st3" for st3 ret err
    proof (rule post_mono [OF settle_post(1) [OF ok within_ready [OF w3 r2]]])
      show "st_gas st3 \<le> st_initialGas st3" using w w3 g1 by (auto simp: within_def)
      show "unat (st_gp st3) + unat (st_initialGas st3) < 2 ^ 64" using w w3 g1 room by (simp add: within_def)
    qed (use pc w b w3 in \<open>auto simp: applied_def\<close>)
    show ?thesis by (rule post_mono [OF executeMessage_post [OF ok R r2 n2 v]]) (auto intro: fin)
  qed
  show ?thesis
  proof (cases "preCheck E st")
    case (Ok x)
    then obtain st1 err where p: "preCheck E st = Ok (st1, err)" by (cases x) auto
    have "post (TransitionDb E R st) (\<lambda>(st', r). \<forall>res. r = Inr res \<longrightarrow> applied E st st' res)"
    proof (cases err)
      case None
      note p' = p [unfolded None]
      have "post (beginMessage E st1) (\<lambda>(st2, err). within E st1 st2 \<and> (err = None \<longrightarrow> begun E st1 st2))"
        using beginMessage_post [OF ok] preCheck_effect [OF ok st(1) p'] by blast
      then have "post (beginMessage E st1) (\<lambda>(st2, err). err = None \<longrightarrow> post (executeMessage E R st2) (\<lambda>(st3, ret, err).
          post (settle E st3) (\<lambda>st'. applied E st st' \<lparr>res_UsedGas = gasUsed st', res_Err = err, res_ReturnData = ret\<rparr>)))"
        by (rule post_mono) (auto intro: exec [OF p'])
      then show ?thesis
        unfolding TransitionDb_def p' by (auto elim!: post_mono split: option.splits)
    qed (simp add: TransitionDb_def p)
    then show ?thesis by (simp add: ApplyMessage_def st_def)
  qed (use nf in \<open>simp_all add: ApplyMessage_def TransitionDb_def st_def [symmetric]\<close>)
qed



section \<open>An example message\<close>

text \<open>Account 1 sends nothing to the identity contract, at the price zero.\<close>

definition exampleMessage :: Message where
  "exampleMessage = \<lparr>msg_From = 1, msg_To = Some 4, msg_GasPrice = 0, msg_GasFeeCap = None, msg_GasTipCap = None, msg_Gas = 21015,
     msg_Value = 0, msg_Nonce = 0, msg_CheckNonce = False, msg_Data = [], msg_AccessList = []\<rparr>"

abbreviation exampleRun :: "(bytes \<Rightarrow> bytes option) runner" where
  "exampleRun \<equiv> Run 21016 exampleEnv (instructionSet (e_rules exampleEnv))"

lemma example_rules: "r_IsByzantium (e_rules exampleEnv)" "\<not> r_IsLondon (e_rules exampleEnv)" "\<not> r_IsBerlin (e_rules exampleEnv)"
  "r_IsHomestead (e_rules exampleEnv)" "\<not> r_IsIstanbul (e_rules exampleEnv)" "\<not> e_NoRecursion exampleEnv"
  by (simp_all add: exampleEnv_def byzantiumRules_def)

lemma example_identity:
  assumes "m_depth m = 0"
  shows "\<exists>m'. Call exampleEnv R m (AccountRef 1) 4 [] 15 0 = Ok (m', [], 0, None, True)"
proof -
  have p: "precompile (e_rules exampleEnv) 4 = Some P_dataCopy"
    by (simp add: exampleEnv_def byzantiumRules_def precompile_def PrecompiledContractsByzantium_def BytesToAddress_eq be_nat_Cons)
  have r: "RunPrecompiledContract (e_C exampleEnv) P_dataCopy [] 15 = Ok ([], 0, None, True)"
    by (simp add: RunPrecompiledContract_def words32_def dataCopy_RequiredGas_def dataCopy_Run_def sha256hash_RequiredGas_def)
  show ?thesis unfolding Call_def Let_def p r by (simp add: assms example_rules r endCall_def split: prod.split)
qed

lemma example_message:
  obtains st res where "ApplyMessage exampleEnv exampleRun exampleMachine exampleMessage 30000 = Ok (st, Inr res)"
proof -
  let ?E = exampleEnv
  note R = forks.Run_ok [OF example_ok(1,2), of 21016]
  define st where "st = NewStateTransition exampleMachine exampleMessage 30000"
  have r: "ready ?E st" using example_ok(3) example_state by (simp add: st_def NewStateTransition_def ready_def)
  have msg: "st_msg st = exampleMessage" "st_data st = []" "st_value st = 0" "st_gas st = 0" "st_gasFeeCap st = None" "st_gasTipCap st = None"
    "st_gasPrice st = 0" "m_depth (st_evm st) = 0" "st_gp st = 30000"
    by (simp_all add: st_def NewStateTransition_def exampleMessage_def exampleMachine_def)
  obtain st1 err where b: "buyGas ?E st = (st1, err)" by (cases "buyGas ?E st")
  have pc: "preCheck ?E st = Ok (st1, err)"
    unfolding preCheck_def checkNonce_def by (simp add: example_rules msg exampleMessage_def b)
  note bs = buyGas_effect [OF example_ok(1) r b]
  have "balance memoryBackend emptyState 1 = 0"
    using GetBalance_emptyState [of 1] GetBalance_balance [OF inv_wf [OF sdb_inv_emptyState], of 1] by simp
  then have "err = None"
    using bs by (simp add: required_def msg exampleMessage_def st_def NewStateTransition_def example_state split: option.splits)
  then have bt: "bought ?E st st1" and r1: "ready ?E st1" and s1: "same_message st st1" using bs by simp_all
  define st2 where "st2 = st1\<lparr>st_gas := 15\<rparr>"
  have g1: "st_gas st1 = 21015" using bt by (simp add: bought_def Let_def msg exampleMessage_def)
  have m1: "st_msg st1 = exampleMessage" "st_data st1 = []" "st_value st1 = 0" using s1 msg by (simp_all add: same_message_def)
  have bg: "beginMessage ?E st1 = Ok (st2, None)"
    by (simp add: beginMessage_def m1 exampleMessage_def IntrinsicGas_def StorageKeys_def g1 example_rules st2_def)
  have w: "within ?E st1 st2" using beginMessage_post [OF example_ok(1) r1] by (simp add: bg)
  have d: "m_depth (st_evm st1) = 0" using s1 msg by (simp add: same_message_def)
  have "\<exists>st3 ret err. executeMessage ?E exampleRun st2 = Ok (st3, ret, err)"
  proof -
    obtain m1 nonce where g: "m_get (st_evm st2) (\<lambda>s. GetNonce (e_db ?E) s 1) = (m1, nonce)"
      by (cases "m_get (st_evm st2) (\<lambda>s. GetNonce (e_db ?E) s 1)")
    then have "m_depth m1 = 0" using d by (auto simp: m_get_def st2_def split: prod.splits)
    then obtain m' where c: "Call ?E exampleRun (m_do m1 (\<lambda>s. SetNonce (e_db ?E) s 1 (nonce + 1))) (AccountRef 1) 4 [] 15 0 = Ok (m', [], 0, None, True)"
      using example_identity [of "m_do m1 (\<lambda>s. SetNonce (e_db ?E) s 1 (nonce + 1))" exampleRun] by (auto simp: m_do_def)
    show ?thesis
      using g c by (simp add: executeMessage_def st_get_def st_do_def st_to_def st2_def m1 exampleMessage_def)
  qed
  then obtain st3 ret err3 where ex: "executeMessage ?E exampleRun st2 = Ok (st3, ret, err3)" by blast
  have v2: "unat (st_gas st2) < 21016" "0 \<le> st_value st2" by (simp_all add: st2_def m1)
  have w3: "within ?E st2 st3" using postD [OF executeMessage_post [OF example_ok(1) R within_ready [OF w r1] v2] ex] by simp
  have "\<exists>st4. settle ?E st3 = Ok st4"
  proof -
    have p: "effectiveTip ?E st3 \<noteq> Panic" by (simp add: effectiveTip_def example_rules)
    have i: "st_initialGas st3 = 21015" "st_gas st3 \<le> 15" "st_gp st3 = 30000 - 21015"
      using w3 bt by (simp_all add: within_def st2_def bought_def Let_def msg exampleMessage_def)
    have le: "st_gas st3 \<le> st_initialGas st3" unfolding i(1) by (rule order_trans [OF i(2)]) simp
    have room: "unat (st_gp st3) + unat (st_initialGas st3) < 2 ^ 64" unfolding i by simp
    note s = settle_post [OF example_ok(1) within_ready [OF w3 within_ready [OF w r1]] le room]
    show ?thesis using s p by (cases "settle ?E st3") auto
  qed
  then obtain st4 where "settle ?E st3 = Ok st4" by blast
  then show thesis
    by (intro that) (simp add: ApplyMessage_def TransitionDb_def st_def [symmetric] pc \<open>err = None\<close> bg ex)
qed

section \<open>Properties\<close>



text \<open>C23. Applying a message always ends: with more fuel than gas it does not run out of fuel.\<close>

theorem ApplyMessage_terminates:
  assumes "env_ok E" "rules_ok (e_rules E)" "m_inv E m" "\<not> m_readOnly m" "unat (msg_Gas msg) < fuel" "0 \<le> msg_Value msg"
  shows "ApplyMessage E (Run fuel E (instructionSet (e_rules E))) m msg gp \<noteq> NoFuel"
  using ApplyMessage_post [OF assms(1) forks.Run_ok [OF assms(1,2)] assms(3-6), of gp] by auto

theorem ApplyMessage_terminates_witness:
  "ApplyMessage exampleEnv exampleRun exampleMachine exampleMessage 30000 \<noteq> NoFuel"
  by (rule ApplyMessage_terminates [OF example_ok]) (simp_all add: exampleMessage_def exampleMachine_def)

lemma applied_money:
  assumes ok: "env_ok E" and a: "applied E st st' res" and sol: "solvent (e_db E) (st_state st)"
    and p: "0 \<le> st_gasPrice st" "\<And>cap. st_gasFeeCap st = Some cap \<Longrightarrow> st_gasPrice st \<le> cap"
    and tip: "effectiveTip E st = Ok tip" "0 \<le> tip"
  shows "solvent (e_db E) (st_state st') \<and>
    totalSupply (e_db E) (st_state st') \<le> totalSupply (e_db E) (st_state st) - uint (res_UsedGas res) * (st_gasPrice st - tip)"
proof -
  let ?D = "e_db E" and ?g = "uint (msg_Gas (st_msg st))" and ?a = "msg_From (st_msg st)" and ?p = "st_gasPrice st"
  obtain st1 st2 st3 where b: "bought E st st1" and s: "same_message st st1" and w: "within E st1 st2" "within E st2 st3"
    and f: "settled E st3 st'" and u: "res_UsedGas res = gasUsed st'"
    using a by (auto simp: applied_def preCheck_spec_def Let_def)
  have s3: "same_message st st3" using same_message_trans [OF s] same_message_trans w by (auto simp: within_def)
  have i3: "st_initialGas st3 = msg_Gas (st_msg st)" using w b by (simp add: within_def bought_def Let_def)
  have b1: "balance ?D (st_state st1) = (balance ?D (st_state st))(?a := balance ?D (st_state st) ?a - ?g * ?p)"
    and req: "required st \<le> balance ?D (st_state st) ?a" using b by (simp_all add: bought_def Let_def)
  have "?g * ?p \<le> required st"
    using p(2) by (auto simp: required_def split: option.split intro: mult_left_mono)
  then have sol1: "solvent ?D (st_state st1)" using sol req unfolding solvent_def b1 by auto
  have t1: "totalSupply ?D (st_state st1) = totalSupply ?D (st_state st) - ?g * ?p" unfolding totalSupply_def b1 sum_upd by simp
  have sp: "spends ?D (st_state st1) (st_state st3)"
    using w spends_trans by (auto simp: within_def m_evolves_def evolves_def)
  then have 3: "solvent ?D (st_state st3)" "totalSupply ?D (st_state st3) \<le> totalSupply ?D (st_state st) - ?g * ?p"
    using sol1 t1 by (simp_all add: spends_def)
  have e: "effectiveTip E st3 = Ok tip"
    using s3 tip(1) unfolding same_message_def effectiveTip_def by (elim conjE) (simp only:)
  have pr: "st_gasPrice st3 = ?p" using s3 by (simp add: same_message_def)
  have s': "totalSupply ?D (st_state st') = totalSupply ?D (st_state st3) + uint (st_gas st') * ?p + uint (gasUsed st') * tip"
    "solvent ?D (st_state st')" "st_gas st' \<le> msg_Gas (st_msg st)" "st_initialGas st' = msg_Gas (st_msg st)"
    using f 3(1) p(1) tip(2) unfolding settled_def e pr i3 by auto
  have "uint (gasUsed st') = ?g - uint (st_gas st')" using s'(3,4) by (simp add: gasUsed_def uint_sub_if' word_le_def)
  then have g: "uint (st_gas st') = ?g - uint (gasUsed st')" by linarith
  have "totalSupply ?D (st_state st') \<le> totalSupply ?D (st_state st) - ?g * ?p + (?g - uint (gasUsed st')) * ?p + uint (gasUsed st') * tip"
    using 3(2) s'(1) unfolding g by linarith
  also have "\<dots> = totalSupply ?D (st_state st) - uint (gasUsed st') * (?p - tip)" by (simp add: algebra_simps)
  finally show ?thesis using s'(2) u by simp
qed

text \<open>C1. A message neither creates money nor overdraws an account.  The gas price is the one \<open>AsMessage\<close> builds: the lower of
  the fee cap and base fee plus tip since London, with a cap of at least the base fee, which leaves out the messages
  of zero fees that \<open>NoBaseFee\<close> admits.  When no balance is negative, none is after the message, and the sum of all
  balances has fallen by at least the base fee times the used gas: gas bought, executed, refunded and
  paid to the miner add up, and the base fee is burnt.\<close>

theorem message_conserves_money:
  assumes "env_ok E" "rules_ok (e_rules E)" "m_inv E m" "\<not> m_readOnly m" "unat (msg_Gas msg) < fuel" "0 \<le> msg_Value msg"
    "0 \<le> msg_GasPrice msg" "\<forall>a. 0 \<le> snd (GetBalance (e_db E) (m_StateDB m) a)"
    "if r_IsLondon (e_rules E)
     then bc_BaseFee (e_Context E) = Some baseFee \<and> 0 \<le> tip \<and> baseFee \<le> cap \<and> msg_GasFeeCap msg = Some cap \<and>
       msg_GasTipCap msg = Some tip \<and> msg_GasPrice msg = min (tip + baseFee) cap
     else baseFee = 0 \<and> (msg_GasFeeCap msg = None \<or> msg_GasFeeCap msg = Some (msg_GasPrice msg))"
    "ApplyMessage E (Run fuel E (instructionSet (e_rules E))) m msg gp = Ok (st, Inr res)"
  shows "(\<forall>a. 0 \<le> snd (GetBalance (e_db E) (m_StateDB (st_evm st)) a)) \<and>
    (\<Sum>a \<in> UNIV. snd (GetBalance (e_db E) (m_StateDB (st_evm st)) a)) \<le>
      (\<Sum>a \<in> UNIV. snd (GetBalance (e_db E) (m_StateDB m) a)) - uint (res_UsedGas res) * baseFee"
proof -
  let ?st = "NewStateTransition m msg gp"
  have f: "st_gasPrice ?st = msg_GasPrice msg" "st_gasFeeCap ?st = msg_GasFeeCap msg" "st_gasTipCap ?st = msg_GasTipCap msg" "st_evm ?st = m"
    by (simp_all add: NewStateTransition_def)
  have ap: "applied E ?st st res"
    using postD [OF ApplyMessage_post [OF assms(1) forks.Run_ok [OF assms(1,2)] assms(3-6)] assms(10)] by simp
  then have "ready E st" by (auto simp: applied_def settled_def)
  have tip: "effectiveTip E ?st = Ok (msg_GasPrice msg - baseFee)" "0 \<le> msg_GasPrice msg - baseFee"
    "\<And>cap. msg_GasFeeCap msg = Some cap \<Longrightarrow> msg_GasPrice msg \<le> cap"
    using assms(7,9) by (auto simp: effectiveTip_def f deref_def split: if_splits)
  have wf: "sdb_wf (e_db E) (m_StateDB m)" "sdb_wf (e_db E) (st_state st)"
    using assms(3) \<open>ready E st\<close> by (simp_all add: ready_def m_inv_def inv_wf)
  have sol: "solvent (e_db E) (st_state ?st)" using assms(8) by (simp add: solvent_def f GetBalance_balance [OF wf(1)])
  from applied_money [OF assms(1) ap sol, of "msg_GasPrice msg - baseFee"] tip assms(7)
  show ?thesis unfolding GetBalance_balance [OF wf(1)] GetBalance_balance [OF wf(2)]
    by (simp add: f solvent_def totalSupply_def)
qed

theorem message_conserves_money_witness:
  "\<exists>st res. ApplyMessage exampleEnv exampleRun exampleMachine exampleMessage 30000 = Ok (st, Inr res) \<and>
     (\<forall>a. 0 \<le> snd (GetBalance memoryBackend (m_StateDB (st_evm st)) a))"
proof -
  obtain st res where a: "ApplyMessage exampleEnv exampleRun exampleMachine exampleMessage 30000 = Ok (st, Inr res)" by (rule example_message)
  have "\<forall>a. 0 \<le> snd (GetBalance (e_db exampleEnv) (m_StateDB (st_evm st)) a)"
    by (rule conjunct1 [OF message_conserves_money [OF example_ok _ _ _ _ _ _ a, where baseFee = 0]])
      (simp_all add: exampleMessage_def exampleMachine_def example_state GetBalance_emptyState example_rules)
  then show ?thesis using a example_state by auto
qed

text \<open>C16. The checks before a message decide exactly: an error names a condition that holds and leaves the gas pool
  and every query of the state as they were; success means that the nonce matches, the sender covers the
  gas at the fee cap, and the gas has moved from the pool to the message at the price of the sender.\<close>

theorem preCheck_decides:
  assumes "env_ok E" "m_inv E (st_evm st)" "\<not> m_readOnly (st_evm st)" "preCheck E st = Ok (st', err)"
  shows "case err of
      Some x \<Rightarrow> st_gp st' = st_gp st \<and> getters_agree (e_db E) (m_StateDB (st_evm st')) (m_StateDB (st_evm st)) \<and>
        (msg_CheckNonce (st_msg st) \<and> x = ErrNonceTooHigh \<and> snd (GetNonce (e_db E) (m_StateDB (st_evm st)) (msg_From (st_msg st))) < msg_Nonce (st_msg st) \<or>
         msg_CheckNonce (st_msg st) \<and> x = ErrNonceTooLow \<and> snd (GetNonce (e_db E) (m_StateDB (st_evm st)) (msg_From (st_msg st))) > msg_Nonce (st_msg st) \<or>
         r_IsLondon (e_rules E) \<and> fee_error E st x \<or>
         x = ErrInsufficientFunds \<and> snd (GetBalance (e_db E) (m_StateDB (st_evm st)) (msg_From (st_msg st))) < required st \<or>
         x = ErrGasLimitReached \<and> st_gp st < msg_Gas (st_msg st))
    | None \<Rightarrow> (msg_CheckNonce (st_msg st) \<longrightarrow> snd (GetNonce (e_db E) (m_StateDB (st_evm st)) (msg_From (st_msg st))) = msg_Nonce (st_msg st)) \<and>
        (r_IsLondon (e_rules E) \<longrightarrow> fees_ok E st \<or> e_NoBaseFee E \<and> st_gasFeeCap st = Some 0 \<and> st_gasTipCap st = Some 0) \<and>
        required st \<le> snd (GetBalance (e_db E) (m_StateDB (st_evm st)) (msg_From (st_msg st))) \<and>
        msg_Gas (st_msg st) \<le> st_gp st \<and> st_gp st' = st_gp st - msg_Gas (st_msg st) \<and> st_gas st' = st_gas st + msg_Gas (st_msg st) \<and>
        (\<forall>a. snd (GetBalance (e_db E) (m_StateDB (st_evm st')) a) = snd (GetBalance (e_db E) (m_StateDB (st_evm st)) a) -
           (if a = msg_From (st_msg st) then uint (msg_Gas (st_msg st)) * st_gasPrice st else 0))"
proof -
  have r: "ready E st" using assms(2,3) by (simp add: ready_def)
  note p = preCheck_effect [OF assms(1) r assms(4)]
  have wf: "sdb_wf (e_db E) (st_state st)" "sdb_wf (e_db E) (st_state st')"
    using assms(2) p by (simp_all add: ready_def m_inv_def inv_wf)
  show ?thesis
  proof (cases err)
    case None
    then have b: "bought E st st'" using p by (simp add: preCheck_spec_def Let_def)
    then have "balance (e_db E) (st_state st') a = balance (e_db E) (st_state st) a -
        (if a = msg_From (st_msg st) then uint (msg_Gas (st_msg st)) * st_gasPrice st else 0)" for a
      by (simp add: bought_def Let_def)
    with b p None show ?thesis
      unfolding GetBalance_balance [OF wf(1)] GetBalance_balance [OF wf(2)] by (simp add: preCheck_spec_def bought_def Let_def)
  next
    case (Some x)
    then show ?thesis
      using p getters_agreeI [OF _ wf(2,1)] unfolding GetBalance_balance [OF wf(1)] by (auto simp: preCheck_spec_def Let_def)
  qed
qed

theorem preCheck_decides_witness:
  "\<exists>st'. preCheck exampleEnv (NewStateTransition exampleMachine (exampleMessage\<lparr>msg_GasPrice := 1\<rparr>) 30000) =
      Ok (st', Some ErrInsufficientFunds) \<and> st_gp st' = 30000"
proof -
  let ?st = "NewStateTransition exampleMachine (exampleMessage\<lparr>msg_GasPrice := 1\<rparr>) 30000"
  obtain s where "GetBalance memoryBackend emptyState 1 = (s, 0)"
    using GetBalance_emptyState [of 1] by (cases "GetBalance memoryBackend emptyState 1") simp
  then have p: "preCheck exampleEnv ?st = Ok (?st\<lparr>st_evm := exampleMachine\<lparr>m_StateDB := s\<rparr>\<rparr>, Some ErrInsufficientFunds)"
    by (simp add: preCheck_def checkNonce_def buyGas_def exampleMessage_def NewStateTransition_def st_get_def m_get_def example_state example_rules)
  have "m_inv exampleEnv (st_evm ?st)" "\<not> m_readOnly (st_evm ?st)" "st_gp ?st = 30000"
    using example_ok(3) example_state by (simp_all add: NewStateTransition_def)
  from preCheck_decides [OF example_ok(1) this(1,2) p] this(3) p show ?thesis by auto
qed

text \<open>
  The purchase of gas does not look at the value of the message, although the text of its error speaks
  of \<open>gas * price + value\<close>; the value is checked later, against another error.
\<close>

lemma buyGas_ignores_value:
  "snd (buyGas E (st\<lparr>st_msg := (st_msg st)\<lparr>msg_Value := v\<rparr>, st_value := v\<rparr>)) = snd (buyGas E st)"
  by (simp add: buyGas_def Let_def st_get_def split: prod.split option.split)

end
