(* ===== verification/Consensus.thy ===== *)
theory Consensus
  imports StateTransition
begin

text \<open>
  Block headers (\<open>core/types/block.go\<close>) and the header rules: the gas limit, base fee and fork checks of
  \<open>consensus/misc\<close>, and the difficulty, header verification and rewards of \<open>consensus/ethash\<close>.  The number and
  the difficulty of a header are always set; its base fee may be nil.  The proof-of-work check
  \<open>verifySeal\<close> is an argument of \<open>verifyHeader\<close>.
\<close>

section \<open>Headers\<close>

record Header =
  hd_ParentHash :: hash
  hd_UncleHash :: hash
  hd_Coinbase :: address
  hd_Root :: hash
  hd_TxHash :: hash
  hd_ReceiptHash :: hash
  hd_Bloom :: bytes
  hd_Difficulty :: int
  hd_Number :: int
  hd_GasLimit :: u64
  hd_GasUsed :: u64
  hd_Time :: u64
  hd_Extra :: bytes
  hd_MixDigest :: hash
  hd_Nonce :: bytes
  hd_BaseFee :: "int option"

text \<open>An encoding error leaves the hasher without input.\<close>

definition rlpHash :: "(bytes \<Rightarrow> hash) \<Rightarrow> gval \<Rightarrow> hash outcome" where
  "rlpHash keccak x =
     bnd (EncodeToBytes x) (\<lambda>r. Ok (keccak (case r of Inr d \<Rightarrow> d | Inl _ \<Rightarrow> [])))"

definition Header_fields :: "Header \<Rightarrow> gval list" where
  "Header_fields h =
     [VArray (hash_Bytes (hd_ParentHash h)), VArray (hash_Bytes (hd_UncleHash h)), VArray (address_Bytes (hd_Coinbase h)),
      VArray (hash_Bytes (hd_Root h)), VArray (hash_Bytes (hd_TxHash h)), VArray (hash_Bytes (hd_ReceiptHash h)),
      VArray (hd_Bloom h), VBigInt (hd_Difficulty h), VBigInt (hd_Number h), VUint (hd_GasLimit h), VUint (hd_GasUsed h),
      VUint (hd_Time h), VBytes (hd_Extra h), VArray (hash_Bytes (hd_MixDigest h)), VArray (hd_Nonce h)]
     @ (case hd_BaseFee h of None \<Rightarrow> [] | Some b \<Rightarrow> [VBigInt b])"

definition Header_Hash :: "(bytes \<Rightarrow> hash) \<Rightarrow> Header \<Rightarrow> hash outcome" where
  "Header_Hash keccak h = rlpHash keccak (VStruct (Header_fields h))"

definition EmptyUncleHash :: "(bytes \<Rightarrow> hash) \<Rightarrow> hash" where
  "EmptyUncleHash keccak = keccak [0xc0]"

section \<open>Gas limit and base fee\<close>

datatype headerError =
    InvalidGasLimit | GasLimitBelowMinimum | MissingBaseFee | InvalidBaseFee | ErrBadProDAOExtra | ErrBadNoDAOExtra
  | ForkHashMismatch | ExtraDataTooLong | ErrFutureBlock | ErrOlderBlockTime | InvalidDifficulty | GasLimitAboveCap
  | GasUsedAboveLimit | BaseFeeBeforeFork | ErrInvalidNumber | SealError gerror

text \<open>The difference is taken in 64-bit signed integers.\<close>

definition VerifyGaslimit :: "u64 \<Rightarrow> u64 \<Rightarrow> headerError option" where
  "VerifyGaslimit parentGasLimit headerGasLimit =
     (let diff = parentGasLimit - headerGasLimit;
          diff = (if sint diff < 0 then diff * (- 1) else diff);
          limit = parentGasLimit div GasLimitBoundDivisor
      in if diff \<ge> limit then Some InvalidGasLimit
         else if headerGasLimit < MinGasLimit then Some GasLimitBelowMinimum
         else None)"

text \<open>\<open>big.Int.Div\<close> is Euclidean division; dividing by zero panics.\<close>

definition bigDiv :: "int \<Rightarrow> int \<Rightarrow> int outcome" where
  "bigDiv x y = (if y = 0 then Panic else Ok (if y > 0 then x div y else - (x div (- y))))"

definition CalcBaseFee :: "ChainConfig \<Rightarrow> Header \<Rightarrow> int outcome" where
  "CalcBaseFee config parent =
     (if \<not> IsLondon config (Some (hd_Number parent)) then Ok InitialBaseFee
      else
        let parentGasTarget = hd_GasLimit parent div ElasticityMultiplier
        in if hd_GasUsed parent = parentGasTarget then deref (hd_BaseFee parent)
           else if hd_GasUsed parent > parentGasTarget then
             let gasUsedDelta = uint (hd_GasUsed parent - parentGasTarget)
             in bnd (deref (hd_BaseFee parent)) (\<lambda>baseFee.
                bnd (bigDiv (baseFee * gasUsedDelta) (uint parentGasTarget)) (\<lambda>y.
                bnd (bigDiv y BaseFeeChangeDenominator) (\<lambda>x.
                Ok (baseFee + BigMax x 1))))
           else
             let gasUsedDelta = uint (parentGasTarget - hd_GasUsed parent)
             in bnd (deref (hd_BaseFee parent)) (\<lambda>baseFee.
                bnd (bigDiv (baseFee * gasUsedDelta) (uint parentGasTarget)) (\<lambda>y.
                bnd (bigDiv y BaseFeeChangeDenominator) (\<lambda>baseFeeDelta.
                Ok (BigMax (baseFee - baseFeeDelta) 0)))))"

definition VerifyEip1559Header :: "ChainConfig \<Rightarrow> Header \<Rightarrow> Header \<Rightarrow> headerError option outcome" where
  "VerifyEip1559Header config parent header =
     (let parentGasLimit = (if \<not> IsLondon config (Some (hd_Number parent)) then hd_GasLimit parent * ElasticityMultiplier
                            else hd_GasLimit parent)
      in case VerifyGaslimit parentGasLimit (hd_GasLimit header) of
           Some e \<Rightarrow> Ok (Some e)
         | None \<Rightarrow>
             (case hd_BaseFee header of
                None \<Rightarrow> Ok (Some MissingBaseFee)
              | Some baseFee \<Rightarrow>
                  bnd (CalcBaseFee config parent) (\<lambda>expectedBaseFee.
                    Ok (if baseFee \<noteq> expectedBaseFee then Some InvalidBaseFee else None))))"

section \<open>Forks\<close>

definition DAOForkBlockExtra :: bytes where
  "DAOForkBlockExtra = [0x64, 0x61, 0x6f, 0x2d, 0x68, 0x61, 0x72, 0x64, 0x2d, 0x66, 0x6f, 0x72, 0x6b]"

definition VerifyDAOHeaderExtraData :: "ChainConfig \<Rightarrow> Header \<Rightarrow> headerError option" where
  "VerifyDAOHeaderExtraData config header =
     (case DAOForkBlock config of
        None \<Rightarrow> None
      | Some fork \<Rightarrow>
          if hd_Number header < fork \<or> hd_Number header \<ge> fork + 10 then None
          else if DAOForkSupport config then
            (if hd_Extra header \<noteq> DAOForkBlockExtra then Some ErrBadProDAOExtra else None)
          else (if hd_Extra header = DAOForkBlockExtra then Some ErrBadNoDAOExtra else None))"

definition DAORefundContract :: address where
  "DAORefundContract = 0xbf4ed7b27f1d666546e30d74d50d173d20bca754"

text \<open>The drained accounts, a table of \<open>params/dao.go\<close>, are an argument.\<close>

primrec drainAccounts :: "'t backend \<Rightarrow> 't StateDB \<Rightarrow> address list \<Rightarrow> 't StateDB" where
  "drainAccounts D s [] = s"
| "drainAccounts D s (addr # drainList) =
     (let (s, b) = GetBalance D s addr
      in drainAccounts D (SetBalance D (AddBalance D s DAORefundContract b) addr 0) drainList)"

definition ApplyDAOHardFork :: "'t backend \<Rightarrow> address list \<Rightarrow> 't StateDB \<Rightarrow> 't StateDB" where
  "ApplyDAOHardFork D drainList s =
     (let (s, ex) = Exist D s DAORefundContract;
          s = (if \<not> ex then CreateAccount D s DAORefundContract else s)
      in drainAccounts D s drainList)"

definition VerifyForkHashes :: "(bytes \<Rightarrow> hash) \<Rightarrow> ChainConfig \<Rightarrow> Header \<Rightarrow> bool \<Rightarrow> headerError option outcome" where
  "VerifyForkHashes keccak config header uncle =
     (if uncle then Ok None
      else if EIP150Block config = Some (hd_Number header) \<and> EIP150Hash config \<noteq> 0 then
        bnd (Header_Hash keccak header) (\<lambda>h. Ok (if EIP150Hash config \<noteq> h then Some ForkHashMismatch else None))
      else Ok None)"

section \<open>Difficulty\<close>

definition bomb :: "int \<Rightarrow> int \<Rightarrow> int" where
  "bomb periodCount x = (if periodCount > 1 then x + 2 ^ nat (periodCount - 2) else x)"

definition makeDifficultyCalculator :: "(bytes \<Rightarrow> hash) \<Rightarrow> int \<Rightarrow> u64 \<Rightarrow> Header \<Rightarrow> int" where
  "makeDifficultyCalculator keccak bombDelay time parent =
     (let bombDelayFromParent = bombDelay - 1;
          x = (uint time - uint (hd_Time parent)) div 9;
          x = (if hd_UncleHash parent = EmptyUncleHash keccak then 1 - x else 2 - x);
          x = (if x < - 99 then - 99 else x);
          y = hd_Difficulty parent div DifficultyBoundDivisor;
          x = hd_Difficulty parent + y * x;
          x = (if x < MinimumDifficulty then MinimumDifficulty else x);
          fakeBlockNumber = (if hd_Number parent \<ge> bombDelayFromParent then hd_Number parent - bombDelayFromParent else 0);
          periodCount = fakeBlockNumber div 100000
      in bomb periodCount x)"

definition calcDifficultyHomestead :: "u64 \<Rightarrow> Header \<Rightarrow> int" where
  "calcDifficultyHomestead time parent =
     (let x = (uint time - uint (hd_Time parent)) div 10;
          x = 1 - x;
          x = (if x < - 99 then - 99 else x);
          y = hd_Difficulty parent div DifficultyBoundDivisor;
          x = hd_Difficulty parent + y * x;
          x = (if x < MinimumDifficulty then MinimumDifficulty else x);
          periodCount = (hd_Number parent + 1) div 100000
      in bomb periodCount x)"

definition calcDifficultyFrontier :: "u64 \<Rightarrow> Header \<Rightarrow> int" where
  "calcDifficultyFrontier time parent =
     (let adjust = hd_Difficulty parent div DifficultyBoundDivisor;
          diff = (if uint time - uint (hd_Time parent) < DurationLimit then hd_Difficulty parent + adjust
                  else hd_Difficulty parent - adjust);
          diff = (if diff < MinimumDifficulty then MinimumDifficulty else diff);
          periodCount = (hd_Number parent + 1) div 100000
      in if periodCount > 1 then BigMax (diff + 2 ^ nat (periodCount - 2)) MinimumDifficulty else diff)"

definition CalcDifficulty :: "(bytes \<Rightarrow> hash) \<Rightarrow> ChainConfig \<Rightarrow> u64 \<Rightarrow> Header \<Rightarrow> int" where
  "CalcDifficulty keccak config time parent =
     (let next = Some (hd_Number parent + 1)
      in if IsCatalyst config next then 1
         else if IsLondon config next then makeDifficultyCalculator keccak 9700000 time parent
         else if IsMuirGlacier config next then makeDifficultyCalculator keccak 9000000 time parent
         else if IsConstantinople config next then makeDifficultyCalculator keccak 5000000 time parent
         else if IsByzantium config next then makeDifficultyCalculator keccak 3000000 time parent
         else if IsHomestead config next then calcDifficultyHomestead time parent
         else calcDifficultyFrontier time parent)"

text \<open>The same calculations on 256-bit and 64-bit words (\<open>consensus/ethash/difficulty.go\<close>).\<close>

definition clampU256 :: "uint256 \<Rightarrow> u256 \<Rightarrow> u256" where
  "clampU256 U x = (if u_LtUint64 U x 131072 then u_SetUint64 U 131072 else x)"

definition CalcDifficultyFrontierU256 :: "uint256 \<Rightarrow> u64 \<Rightarrow> Header \<Rightarrow> int" where
  "CalcDifficultyFrontierU256 U time parent =
     (let pDiff = u_FromBig U (hd_Difficulty parent);
          adjust = u_Rsh U pDiff 11;
          pDiff = (if time - hd_Time parent < 13 then u_Add U pDiff adjust else u_Sub U pDiff adjust);
          pDiff = clampU256 U pDiff;
          periodCount = (big_Uint64 (hd_Number parent) + 1) div 100000;
          pDiff = (if periodCount > 1 then u_Add U pDiff (u_Lsh U 1 (periodCount - 2)) else pDiff)
      in u_ToBig U pDiff)"

definition CalcDifficultyHomesteadU256 :: "uint256 \<Rightarrow> u64 \<Rightarrow> Header \<Rightarrow> int" where
  "CalcDifficultyHomesteadU256 U time parent =
     (let pDiff = u_FromBig U (hd_Difficulty parent);
          adjust = u_Rsh U pDiff 11;
          x = (time - hd_Time parent) div 10;
          (x, neg) = (if x = 0 then (1, False) else if x \<ge> 100 then (99, True) else (x - 1, True));
          z = u_SetUint64 U x;
          adjust = u_Mul U adjust z;
          pDiff = (if neg then u_Sub U pDiff adjust else u_Add U pDiff adjust);
          pDiff = clampU256 U pDiff;
          periodCount = (1 + big_Uint64 (hd_Number parent)) div 100000;
          pDiff = (if periodCount > 1 then u_Add U pDiff (u_Lsh U 1 (periodCount - 2)) else pDiff)
      in u_ToBig U pDiff)"

definition MakeDifficultyCalculatorU256 :: "uint256 \<Rightarrow> (bytes \<Rightarrow> hash) \<Rightarrow> int \<Rightarrow> u64 \<Rightarrow> Header \<Rightarrow> int" where
  "MakeDifficultyCalculatorU256 U keccak bombDelay time parent =
     (let bombDelayFromParent = big_Uint64 bombDelay - 1;
          x = (time - hd_Time parent) div 9;
          c = (if hd_UncleHash parent \<noteq> EmptyUncleHash keccak then 2 else 1);
          xNeg = (x \<ge> c);
          x = (if xNeg then x - c else c - x);
          x = (if x > 99 then 99 else x);
          pDiff = u_FromBig U (hd_Difficulty parent);
          z = u_SetUint64 U x;
          y = u_Rsh U pDiff 11;
          z = u_Mul U y z;
          y = (if xNeg then u_Sub U pDiff z else u_Add U pDiff z);
          y = clampU256 U y;
          pNum = big_Uint64 (hd_Number parent);
          y = (if pNum \<ge> bombDelayFromParent \<and> pNum - bombDelayFromParent \<ge> 200000
               then u_Add U (u_Lsh U 1 ((pNum - bombDelayFromParent) div 100000 - 2)) y else y)
      in u_ToBig U y)"

section \<open>Header verification and rewards\<close>

definition verifyHeader ::
  "(bytes \<Rightarrow> hash) \<Rightarrow> ChainConfig \<Rightarrow> (Header \<Rightarrow> gerror option) \<Rightarrow> Header \<Rightarrow> Header \<Rightarrow> bool \<Rightarrow> bool \<Rightarrow> u64 \<Rightarrow> headerError option outcome" where
  "verifyHeader keccak config verifySeal header parent uncle seal unixNow =
     (if of_nat (length (hd_Extra header)) > MaximumExtraDataSize then Ok (Some ExtraDataTooLong)
      else if \<not> uncle \<and> hd_Time header > unixNow + 15 then Ok (Some ErrFutureBlock)
      else if hd_Time header \<le> hd_Time parent then Ok (Some ErrOlderBlockTime)
      else if CalcDifficulty keccak config (hd_Time header) parent \<noteq> hd_Difficulty header then Ok (Some InvalidDifficulty)
      else if hd_GasLimit header > 0x7fffffffffffffff then Ok (Some GasLimitAboveCap)
      else if hd_GasUsed header > hd_GasLimit header then Ok (Some GasUsedAboveLimit)
      else
        bnd (if \<not> IsLondon config (Some (hd_Number header)) then
               Ok (if hd_BaseFee header \<noteq> None then Some BaseFeeBeforeFork
                   else VerifyGaslimit (hd_GasLimit parent) (hd_GasLimit header))
             else VerifyEip1559Header config parent header) (\<lambda>err.
        case err of
          Some e \<Rightarrow> Ok (Some e)
        | None \<Rightarrow>
            if hd_Number header - hd_Number parent \<noteq> 1 then Ok (Some ErrInvalidNumber)
            else
              case (if seal then verifySeal header else None) of
                Some e \<Rightarrow> Ok (Some (SealError e))
              | None \<Rightarrow>
                  (case VerifyDAOHeaderExtraData config header of
                     Some e \<Rightarrow> Ok (Some e)
                   | None \<Rightarrow> VerifyForkHashes keccak config header uncle)))"

primrec rewardUncles :: "'t backend \<Rightarrow> int \<Rightarrow> int \<Rightarrow> 't StateDB \<Rightarrow> int \<Rightarrow> Header list \<Rightarrow> 't StateDB \<times> int" where
  "rewardUncles D number blockReward s reward [] = (s, reward)"
| "rewardUncles D number blockReward s reward (uncle # uncles) =
     (let r = (hd_Number uncle + 8 - number) * blockReward div 8
      in rewardUncles D number blockReward (AddBalance D s (hd_Coinbase uncle) r) (reward + blockReward div 32) uncles)"

definition accumulateRewards :: "ChainConfig \<Rightarrow> 't backend \<Rightarrow> 't StateDB \<Rightarrow> Header \<Rightarrow> Header list \<Rightarrow> 't StateDB" where
  "accumulateRewards config D s header uncles =
     (if IsCatalyst config (Some (hd_Number header)) then s
      else
        let blockReward = 5000000000000000000;
            blockReward = (if IsByzantium config (Some (hd_Number header)) then 3000000000000000000 else blockReward);
            blockReward = (if IsConstantinople config (Some (hd_Number header)) then 2000000000000000000 else blockReward);
            (s, reward) = rewardUncles D (hd_Number header) blockReward s blockReward uncles
        in AddBalance D s (hd_Coinbase header) reward)"

end
