(* ===== verification/ConsensusEffects.thy ===== *)
theory ConsensusEffects
  imports Consensus VmProperties
begin

text \<open>
  The two ways of calculating the difficulty agree: the arithmetic of 256-bit words gives what the one of big integers gives, as
  long as the values stay in the range where the words do not wrap.
\<close>

lemma rlpHash_no_uncles: "rlpHash keccak (VSlice []) = Ok (EmptyUncleHash keccak)"
  using EncodeToBytes_eq [of "VSlice []"] by (simp add: rlpHash_def EmptyUncleHash_def rlp_list_def puthead_def)

section \<open>Difficulty\<close>

text \<open>What the calculations rely on from the 256-bit integer package.\<close>

definition uint256_arith :: "uint256 \<Rightarrow> bool" where
  "uint256_arith U \<longleftrightarrow>
     (\<forall>x y. u_Add U x y = x + y) \<and> (\<forall>x y. u_Sub U x y = x - y) \<and> (\<forall>x y. u_Mul U x y = x * y) \<and>
     (\<forall>x n. u_Rsh U x n = drop_bit (unat n) x) \<and> (\<forall>x n. u_Lsh U x n = push_bit (unat n) x) \<and>
     (\<forall>x n. u_LtUint64 U x n \<longleftrightarrow> unat x < unat n) \<and> (\<forall>n. u_SetUint64 U n = ucast n) \<and>
     (\<forall>i. u_FromBig U i = word_of_int i) \<and> (\<forall>x. u_ToBig U x = uint x)"

lemma uint256_arith_ref: "uint256_arith uint256_ref"
  by (simp add: uint256_arith_def uint256_ref_def)

text \<open>Words that stand for numbers: the operations do what they do on the numbers, when the results are in range.\<close>

definition stands :: "u256 \<Rightarrow> int \<Rightarrow> bool" where
  "stands w x \<longleftrightarrow> uint w = x"

lemma stands_range: "stands w x \<Longrightarrow> 0 \<le> x \<and> x < 2 ^ 256"
  using unsigned_less [of w, where ?'a = int] by (auto simp: stands_def)

lemma stands_add: "stands v x \<Longrightarrow> stands w y \<Longrightarrow> x + y < 2 ^ 256 \<Longrightarrow> stands (v + w) (x + y)"
  by (simp add: stands_def uint_add_lem [THEN iffD1])

lemma stands_sub: "stands v x \<Longrightarrow> stands w y \<Longrightarrow> y \<le> x \<Longrightarrow> stands (v - w) (x - y)"
  by (simp add: stands_def uint_sub_lem [THEN iffD1])

lemma stands_mul: "stands v x \<Longrightarrow> stands w y \<Longrightarrow> x * y < 2 ^ 256 \<Longrightarrow> stands (v * w) (x * y)"
  by (simp add: stands_def uint_mult_lem [THEN iffD1])

lemma stands_of_int: "0 \<le> x \<Longrightarrow> x < 2 ^ 256 \<Longrightarrow> stands (word_of_int x) x"
  by (simp add: stands_def uint_word_of_int)

lemma stands_drop: "stands w x \<Longrightarrow> stands (drop_bit 11 w) (x div 2048)"
  by (simp add: stands_def drop_bit_eq_div uint_div)

lemma stands_u64: "stands (ucast (n :: u64)) (uint n)"
  by (simp add: stands_def unsigned_ucast_eq take_bit_int_eq_self_iff order_less_le_trans [OF unsigned_less [of n, where ?'a = int]])

lemma stands_bit: "n < 256 \<Longrightarrow> stands (push_bit n 1) (2 ^ n)"
proof -
  assume n: "n < 256"
  then have "(2 :: int) ^ n < 2 ^ 256" by (intro power_strict_increasing) simp_all
  then have "stands (word_of_int (2 ^ n)) (2 ^ n)" by (intro stands_of_int) simp_all
  then show ?thesis by (simp add: push_bit_eq_mult)
qed

lemma uint_of_int_u64: "0 \<le> x \<Longrightarrow> x < 2 ^ 64 \<Longrightarrow> uint (of_int x :: u64) = x"
  by (simp add: uint_word_of_int)

lemma uint_later:
  assumes "hd_Time parent \<le> time"
  shows "uint (time - hd_Time parent) = uint time - uint (hd_Time parent)"
  using assms by (simp add: uint_sub_if' word_le_def)

lemma clamp_stands:
  assumes "uint256_arith U" "stands w x"
  shows "stands (clampU256 U w) (if x < 131072 then 131072 else x)"
proof -
  have "unat w < 131072 \<longleftrightarrow> x < 131072" using assms(2) stands_range [OF assms(2)]
    by (simp add: stands_def unat_eq_nat_uint nat_less_iff)
  then show ?thesis using assms stands_u64 [of 131072] by (simp add: clampU256_def uint256_arith_def)
qed

lemma bomb_ge: "x \<le> bomb pc x"
  by (simp add: bomb_def)

lemma bomb_fits:
  assumes "bomb pc x < 2 ^ 256" "0 \<le> x" "1 < pc"
  shows "x + 2 ^ nat (pc - 2) < 2 ^ 256" "nat (pc - 2) < 256"
proof -
  show x: "x + 2 ^ nat (pc - 2) < 2 ^ 256" using assms by (simp add: bomb_def)
  then have "(2 :: int) ^ nat (pc - 2) < 2 ^ 256" using assms(2) by linarith
  then show "nat (pc - 2) < 256" by (rule power_less_imp_less_exp [rotated]) simp
qed

lemma bomb_stands:
  assumes "stands w x" "uint (p :: u64) = pc" "bomb pc x < 2 ^ 256"
  shows "stands (if p > 1 then w + push_bit (unat (p - 2)) 1 else w) (bomb pc x)"
proof (cases "p > 1")
  case True
  then have pc: "1 < pc" using assms(2) by (simp add: word_less_def)
  have "uint (p - 2) = pc - 2" using pc assms(2) by (simp add: uint_sub_if')
  then have n: "unat (p - 2) = nat (pc - 2)" by (simp add: unat_eq_nat_uint)
  show ?thesis
    using True pc stands_add [OF assms(1) stands_bit] bomb_fits [OF assms(3) stands_range [OF assms(1), THEN conjunct1] pc]
    by (simp add: bomb_def n)
next
  case False
  then show ?thesis using assms by (simp add: bomb_def word_less_def)
qed

lemma period_u64:
  assumes "0 \<le> n" "0 \<le> x" "bomb ((n + 1) div 100000) x < 2 ^ 256"
  shows "uint ((big_Uint64 n + 1) div 100000) = (n + 1) div 100000"
proof -
  have "nat ((n + 1) div 100000 - 2) < 256" if "1 < (n + 1) div 100000" using bomb_fits(2) [OF assms(3,2) that] .
  then have "n < 2 ^ 32" using assms(1) by (cases "1 < (n + 1) div 100000") auto
  then have "uint (big_Uint64 n + 1) = n + 1" using assms(1) uint_big_Uint64 [of n] by (simp add: uint_plus_simple_iff [THEN iffD1] uint_add_lem [THEN iffD1])
  then show ?thesis by (simp add: uint_div)
qed

text \<open>The adjusted difficulty: a multiple of a 2048th is added or taken away, down to the minimum.\<close>

definition adjusted :: "int \<Rightarrow> int \<Rightarrow> int" where
  "adjusted d k = (if d + d div 2048 * k < 131072 then 131072 else d + d div 2048 * k)"

lemma adjusted_stands:
  assumes U: "uint256_arith U" and d: "0 \<le> d" "d < 2 ^ 256" and k: "uint (k :: u64) \<le> 99"
  shows "stands (clampU256 U (u_Sub U (u_FromBig U d) (u_Mul U (u_Rsh U (u_FromBig U d) 11) (u_SetUint64 U k)))) (adjusted d (- uint k))"
    "adjusted d (uint k) < 2 ^ 256 \<Longrightarrow>
      stands (clampU256 U (u_Add U (u_FromBig U d) (u_Mul U (u_Rsh U (u_FromBig U d) 11) (u_SetUint64 U k)))) (adjusted d (uint k))"
proof -
  let ?w = "u_FromBig U d" and ?a = "u_Mul U (u_Rsh U (u_FromBig U d) 11) (u_SetUint64 U k)"
  have q: "0 \<le> d div 2048" "d div 2048 * 2048 \<le> d" using d(1) by simp_all
  have m: "d div 2048 * uint k \<le> d div 2048 * 99" using k q(1) by (simp add: mult_left_mono)
  have le: "d div 2048 * uint k \<le> d" using m q by linarith
  have sw: "stands ?w d" using stands_of_int [of d] d U by (simp add: uint256_arith_def)
  have sa: "stands ?a (d div 2048 * uint k)"
    using stands_mul [OF stands_drop [OF sw] stands_u64 [of k]] le d U by (simp add: uint256_arith_def)
  have "stands (u_Sub U ?w ?a) (d + d div 2048 * (- uint k))"
    using stands_sub [OF sw sa le] U by (simp add: uint256_arith_def)
  from clamp_stands [OF U this]
  show "stands (clampU256 U (u_Sub U ?w ?a)) (adjusted d (- uint k))" unfolding adjusted_def .
  assume "adjusted d (uint k) < 2 ^ 256"
  then have "d + d div 2048 * uint k < 2 ^ 256" unfolding adjusted_def by (simp split: if_splits)
  then have "stands (u_Add U ?w ?a) (d + d div 2048 * uint k)"
    using stands_add [OF sw sa] U by (simp add: uint256_arith_def)
  from clamp_stands [OF U this]
  show "stands (clampU256 U (u_Add U ?w ?a)) (adjusted d (uint k))" unfolding adjusted_def .
qed

lemma adjusted_ge: "131072 \<le> adjusted d k"
  by (simp add: adjusted_def)

lemma bombed:
  assumes U: "uint256_arith U" and w: "stands w x" and p: "uint (p :: u64) = pc" "bomb pc x < 2 ^ 256"
  shows "u_ToBig U (if p > 1 then u_Add U w (u_Lsh U 1 (p - 2)) else w) = bomb pc x"
  using bomb_stands [OF w p] U by (simp only: uint256_arith_def stands_def)

lemma frontier_agrees:
  assumes U: "uint256_arith U" and time: "hd_Time parent \<le> time" and d: "0 \<le> hd_Difficulty parent" "hd_Difficulty parent < 2 ^ 256"
    and n: "0 \<le> hd_Number parent" and fit: "calcDifficultyFrontier time parent < 2 ^ 256"
  shows "CalcDifficultyFrontierU256 U time parent = calcDifficultyFrontier time parent"
proof -
  let ?d = "hd_Difficulty parent" and ?t = "uint time - uint (hd_Time parent)"
  have c: "time - hd_Time parent < 13 \<longleftrightarrow> ?t < 13" by (simp add: word_less_def uint_later [OF time])
  have m: "u_Mul U x (u_SetUint64 U 1) = x" for x using U by (simp add: uint256_arith_def)
  have k: "uint (1 :: u64) \<le> 99" by simp
  note a = adjusted_stands [OF U d k, unfolded m uint_1]
  define w where "w = clampU256 U (if ?t < 13 then u_Add U (u_FromBig U ?d) (u_Rsh U (u_FromBig U ?d) 11)
    else u_Sub U (u_FromBig U ?d) (u_Rsh U (u_FromBig U ?d) 11))"
  define x where "x = adjusted ?d (if ?t < 13 then 1 else - 1)"
  have r: "calcDifficultyFrontier time parent = bomb ((hd_Number parent + 1) div 100000) x"
  proof -
    have x: "131072 \<le> x" by (simp add: x_def adjusted_def)
    have "131072 \<le> x + 2 ^ k" for k using x zero_le_power [of "2 :: int" k] by linarith
    then have "BigMax (x + 2 ^ k) 131072 = x + 2 ^ k" for k by (simp add: max_absorb1)
    moreover have "calcDifficultyFrontier time parent = (if (hd_Number parent + 1) div 100000 > 1
        then BigMax (x + 2 ^ nat ((hd_Number parent + 1) div 100000 - 2)) 131072 else x)"
      by (simp add: calcDifficultyFrontier_def Let_def x_def adjusted_def)
    ultimately show ?thesis by (simp add: bomb_def)
  qed
  note fit' = fit [unfolded r]
  have x: "x < 2 ^ 256" "0 \<le> x"
    by (rule order_le_less_trans [OF bomb_ge fit'], unfold x_def, rule order_trans [OF _ adjusted_ge], simp)
  have w: "stands w x" using a x(1) unfolding w_def x_def by (cases "?t < 13") simp_all
  show ?thesis
    unfolding r CalcDifficultyFrontierU256_def Let_def c w_def [symmetric]
    by (rule bombed [OF U w period_u64 [OF n x(2) fit'] fit'])
qed

lemma homestead_agrees:
  assumes U: "uint256_arith U" and time: "hd_Time parent \<le> time" and d: "0 \<le> hd_Difficulty parent" "hd_Difficulty parent < 2 ^ 256"
    and n: "0 \<le> hd_Number parent" and fit: "calcDifficultyHomestead time parent < 2 ^ 256"
  shows "CalcDifficultyHomesteadU256 U time parent = calcDifficultyHomestead time parent"
proof -
  let ?d = "hd_Difficulty parent" and ?q = "(time - hd_Time parent) div 10" and ?t = "(uint time - uint (hd_Time parent)) div 10"
  have q: "uint ?q = ?t" by (simp add: uint_div uint_later [OF time])
  define k where "k = (if ?q = 0 then 1 else if ?q \<ge> 100 then 99 else ?q - 1)"
  have z: "?q = 0 \<longleftrightarrow> ?t = 0" "?q \<ge> 100 \<longleftrightarrow> ?t \<ge> 100" using q by (simp_all add: word_le_def uint_0_iff [symmetric])
  have t0: "0 \<le> ?t" using q by (metis uint_ge_0)
  have uk: "uint k = (if ?t = 0 then 1 else if ?t \<ge> 100 then 99 else ?t - 1)"
    using z q t0 by (auto simp: k_def uint_sub_if')
  then have k99: "uint k \<le> 99" using t0 by auto
  define w where "w = clampU256 U (if ?t \<noteq> 0
    then u_Sub U (u_FromBig U ?d) (u_Mul U (u_Rsh U (u_FromBig U ?d) 11) (u_SetUint64 U k))
    else u_Add U (u_FromBig U ?d) (u_Mul U (u_Rsh U (u_FromBig U ?d) 11) (u_SetUint64 U k)))"
  define x where "x = adjusted ?d (if ?t \<noteq> 0 then - uint k else uint k)"
  have "(if 1 - ?t < - 99 then - 99 else 1 - ?t) = (if ?t \<noteq> 0 then - uint k else uint k)" using uk t0 by auto
  then have r: "calcDifficultyHomestead time parent = bomb ((hd_Number parent + 1) div 100000) x"
    unfolding calcDifficultyHomestead_def Let_def x_def adjusted_def by simp
  note fit' = fit [unfolded r]
  have x: "x < 2 ^ 256" "0 \<le> x"
    by (rule order_le_less_trans [OF bomb_ge fit'], unfold x_def, rule order_trans [OF _ adjusted_ge], simp)
  have w: "stands w x" using adjusted_stands [OF U d k99] x(1) unfolding w_def x_def by (cases "?t = 0") simp_all
  have k: "(if ?q = 0 then (1, False) else if ?q \<ge> 100 then (99, True) else (?q - 1, True)) = (k, ?t \<noteq> 0)"
    using z by (simp add: k_def)
  have one: "1 + big_Uint64 (hd_Number parent) = big_Uint64 (hd_Number parent) + 1" by simp
  show ?thesis
    unfolding r CalcDifficultyHomesteadU256_def Let_def k prod.case one w_def [symmetric]
    by (rule bombed [OF U w period_u64 [OF n x(2) fit'] fit'])
qed

lemma dynamic_agrees:
  assumes U: "uint256_arith U" and time: "hd_Time parent \<le> time" and d: "0 \<le> hd_Difficulty parent" "hd_Difficulty parent < 2 ^ 256"
    and n: "0 \<le> hd_Number parent" "hd_Number parent < 2 ^ 64" and b: "0 < bombDelay" "bombDelay < 2 ^ 64"
    and fit: "makeDifficultyCalculator keccak bombDelay time parent < 2 ^ 256"
  shows "MakeDifficultyCalculatorU256 U keccak bombDelay time parent = makeDifficultyCalculator keccak bombDelay time parent"
proof -
  let ?d = "hd_Difficulty parent" and ?q = "(time - hd_Time parent) div 9" and ?t = "(uint time - uint (hd_Time parent)) div 9"
  let ?c = "if hd_UncleHash parent \<noteq> EmptyUncleHash keccak then 2 else 1 :: u64"
  have q: "uint ?q = ?t" by (simp add: uint_div uint_later [OF time])
  have t0: "0 \<le> ?t" using q by (metis uint_ge_0)
  define c where "c = uint ?c"
  have c: "c = (if hd_UncleHash parent = EmptyUncleHash keccak then 1 else 2)" by (simp add: c_def)
  have neg: "?q \<ge> ?c \<longleftrightarrow> ?t \<ge> c" unfolding word_le_def q c_def ..
  define y where "y = (if ?q \<ge> ?c then ?q - ?c else ?c - ?q)"
  have y: "uint y = (if ?t \<ge> c then ?t - c else c - ?t)"
    unfolding y_def neg using t0 q c_def by (auto simp: uint_sub_if')
  define k where "k = (if y > 99 then 99 else y)"
  have uk: "uint k = (if uint y > 99 then 99 else uint y)" by (simp add: k_def word_less_def)
  then have k99: "uint k \<le> 99" by simp
  define w where "w = clampU256 U (if ?t \<ge> c
    then u_Sub U (u_FromBig U ?d) (u_Mul U (u_Rsh U (u_FromBig U ?d) 11) (u_SetUint64 U k))
    else u_Add U (u_FromBig U ?d) (u_Mul U (u_Rsh U (u_FromBig U ?d) 11) (u_SetUint64 U k)))"
  define x where "x = adjusted ?d (if ?t \<ge> c then - uint k else uint k)"
  define f where "f = (if hd_Number parent \<ge> bombDelay - 1 then hd_Number parent - (bombDelay - 1) else 0)"
  have "(if c - ?t < - 99 then - 99 else c - ?t) = (if ?t \<ge> c then - uint k else uint k)" using uk y t0 c by auto
  then have r: "makeDifficultyCalculator keccak bombDelay time parent = bomb (f div 100000) x"
    unfolding makeDifficultyCalculator_def Let_def x_def adjusted_def f_def c by (simp split: if_splits)
  note fit' = fit [unfolded r]
  have x: "x < 2 ^ 256" by (rule order_le_less_trans [OF bomb_ge fit'])
  have w: "stands w x" using adjusted_stands [OF U d k99] x unfolding w_def x_def by (cases "?t \<ge> c") simp_all
  define n' b' :: u64 where "n' = big_Uint64 (hd_Number parent)" and "b' = big_Uint64 bombDelay - 1"
  have nb: "uint n' = hd_Number parent" "uint b' = bombDelay - 1"
    using n b uint_big_Uint64 [of "hd_Number parent"] uint_big_Uint64 [of bombDelay] by (simp_all add: n'_def b'_def uint_sub_if')
  have l: "MakeDifficultyCalculatorU256 U keccak bombDelay time parent =
      u_ToBig U (if n' \<ge> b' \<and> n' - b' \<ge> 200000 then u_Add U (u_Lsh U 1 ((n' - b') div 100000 - 2)) w else w)"
    unfolding MakeDifficultyCalculatorU256_def Let_def unfolding y_def [symmetric] k_def [symmetric] unfolding neg w_def n'_def b'_def ..
  show ?thesis
  proof (cases "n' \<ge> b'")
    case True
    then have f: "f = uint (n' - b')" by (simp add: f_def uint_sub_if' word_le_def nb)
    have p: "uint ((n' - b') div 100000) = f div 100000" by (simp add: uint_div f)
    have g: "n' - b' \<ge> 200000 \<longleftrightarrow> (n' - b') div 100000 > 1" unfolding word_le_def word_less_def p f [symmetric] by simp linarith
    have cm: "u_Add U u v = u_Add U v u" for u v using U by (simp add: uint256_arith_def)
    show ?thesis unfolding l r using True g bombed [OF U w p fit'] by (simp add: cm split: if_splits)
  next
    case False
    then have "f = 0" by (simp add: f_def word_le_def nb)
    then show ?thesis unfolding l r using False w U by (simp add: bomb_def stands_def uint256_arith_def)
  qed
qed

text \<open>C19. The difficulty calculations on 256-bit words agree with those on big integers, for the Frontier, the Homestead
  and the Byzantium rules with any positive 64-bit bomb delay, whenever the difficulty of the big integers fits into 256 bits.
  The parent is not younger than the block, its difficulty is a 256-bit number and its number a 64-bit one.  Where the
  difficulty does not fit, the words wrap around or lose the shifted bomb; a bomb delay of zero wraps around and turns the bomb off.\<close>

theorem difficulty_u256_agrees:
  assumes "uint256_arith U" "hd_Time parent \<le> time" "0 \<le> hd_Difficulty parent" "hd_Difficulty parent < 2 ^ 256"
    "0 \<le> hd_Number parent" "hd_Number parent < 2 ^ 64" "0 < bombDelay" "bombDelay < 2 ^ 64"
  shows "(calcDifficultyFrontier time parent < 2 ^ 256 \<longrightarrow>
      CalcDifficultyFrontierU256 U time parent = calcDifficultyFrontier time parent) \<and>
    (calcDifficultyHomestead time parent < 2 ^ 256 \<longrightarrow>
      CalcDifficultyHomesteadU256 U time parent = calcDifficultyHomestead time parent) \<and>
    (makeDifficultyCalculator keccak bombDelay time parent < 2 ^ 256 \<longrightarrow>
      MakeDifficultyCalculatorU256 U keccak bombDelay time parent = makeDifficultyCalculator keccak bombDelay time parent)"
  using frontier_agrees [OF assms(1-5)] homestead_agrees [OF assms(1-5)] dynamic_agrees [OF assms] by simp

definition exampleHeader :: Header where
  "exampleHeader = \<lparr>hd_ParentHash = 0, hd_UncleHash = 0, hd_Coinbase = 9, hd_Root = 0, hd_TxHash = 0, hd_ReceiptHash = 0, hd_Bloom = [],
     hd_Difficulty = 200000, hd_Number = 250000, hd_GasLimit = 8000000, hd_GasUsed = 5000000, hd_Time = 100, hd_Extra = [],
     hd_MixDigest = 0, hd_Nonce = [], hd_BaseFee = Some 1000\<rparr>"

theorem difficulty_u256_agrees_witness:
  "CalcDifficultyHomesteadU256 uint256_ref 135 exampleHeader = calcDifficultyHomestead 135 exampleHeader \<and>
   calcDifficultyHomestead 135 exampleHeader = 199807"
  using difficulty_u256_agrees [OF uint256_arith_ref, of exampleHeader 135 5000000 "\<lambda>_. 0"]
  by (simp add: exampleHeader_def calcDifficultyHomestead_def bomb_def)

end
