(* ===== verification/HeaderRules.thy ===== *)
theory HeaderRules
  imports ConsensusEffects
begin

text \<open>
  The rules that tie a header to its parent: the gas limit, the base fee, what an accepted header satisfies, and the
  block rewards.
\<close>

definition exampleConfig :: ChainConfig where
  "exampleConfig = \<lparr>ChainID = Some 1, HomesteadBlock = Some 0, DAOForkBlock = None, DAOForkSupport = False, EIP150Block = Some 0,
     EIP150Hash = 0, EIP155Block = Some 0, EIP158Block = Some 0, ByzantiumBlock = Some 0, ConstantinopleBlock = Some 0,
     PetersburgBlock = Some 0, IstanbulBlock = Some 0, MuirGlacierBlock = Some 0, BerlinBlock = Some 0, LondonBlock = Some 0,
     CatalystBlock = None, Ethash = None, Clique = None\<rparr>"

section \<open>The gas limit\<close>

lemma sint_neg_u64: "sint (x :: u64) < 0 \<longleftrightarrow> 2 ^ 63 \<le> uint x"
proof -
  have u: "0 \<le> uint x" "uint x < 18446744073709551616" using unsigned_less [of x, where ?'a = int] by simp_all
  have "sint x < 0 \<longleftrightarrow> bit (uint x) 63" by (simp add: sint_uint)
  also have "\<dots> \<longleftrightarrow> odd (uint x div 9223372036854775808)" by (simp add: bit_iff_odd)
  also have "\<dots> \<longleftrightarrow> 2 ^ 63 \<le> uint x"
  proof (cases "uint x < 9223372036854775808")
    case False
    then have "uint x div 9223372036854775808 = 1" using u by linarith
    then show ?thesis using False by simp
  qed (use u in simp)
  finally show ?thesis .
qed

lemma abs_difference:
  assumes "uint (p :: u64) < 2 ^ 63" "uint l < 2 ^ 63"
  shows "uint (if sint (p - l) < 0 then (p - l) * (- 1) else p - l) = \<bar>uint p - uint l\<bar>"
proof (cases "uint l \<le> uint p")
  case True
  then have "uint (p - l) = uint p - uint l" by (simp add: uint_sub_if')
  moreover have "\<dots> < 2 ^ 63" using assms(1) uint_ge_0 [of l] by linarith
  ultimately show ?thesis using True sint_neg_u64 [of "p - l"] by simp
next
  case False
  then have "uint (p - l) = uint p - uint l + 18446744073709551616" by (simp add: uint_sub_if')
  moreover have "9223372036854775808 \<le> uint p - uint l + 18446744073709551616"
  proof -
    have "uint l < 9223372036854775808" using assms(2) by simp
    then show ?thesis using uint_ge_0 [of p] by linarith
  qed
  ultimately have "sint (p - l) < 0" using sint_neg_u64 [of "p - l"] by simp
  moreover have "uint (l - p) = uint l - uint p" using False by (simp add: uint_sub_if')
  ultimately show ?thesis using False by simp
qed

lemma VerifyGaslimit_eq:
  assumes "uint parentLimit < 2 ^ 63" "uint limit < 2 ^ 63"
  shows "VerifyGaslimit parentLimit limit = None \<longleftrightarrow>
    \<bar>uint parentLimit - uint limit\<bar> < uint parentLimit div 1024 \<and> 5000 \<le> uint limit"
  unfolding VerifyGaslimit_def Let_def word_le_def word_less_def abs_difference [OF assms]
  by (auto simp: uint_div)

text \<open>C37. The gas limit check accepts exactly the limits of at least 5000 that differ from the parent's by less than a
  1024th of it, for limits below \<open>2^63\<close>: the signed difference does not wrap.\<close>

theorem VerifyGaslimit_exact:
  assumes "uint parentLimit < 2 ^ 63" "uint limit < 2 ^ 63"
  shows "VerifyGaslimit parentLimit limit = None \<longleftrightarrow>
    \<bar>uint parentLimit - uint limit\<bar> < uint parentLimit div 1024 \<and> 5000 \<le> uint limit"
  by (rule VerifyGaslimit_eq [OF assms])

theorem VerifyGaslimit_exact_witness:
  "VerifyGaslimit 8000000 8007811 = None \<and> VerifyGaslimit 8000000 8007812 \<noteq> None"
  using VerifyGaslimit_exact [of 8000000 8007811] VerifyGaslimit_exact [of 8000000 8007812] by simp

section \<open>The base fee\<close>

lemma bigDiv_pos [simp]: "0 < y \<Longrightarrow> bigDiv x y = Ok (x div y)"
  by (simp add: bigDiv_def)

definition gasTarget :: "Header \<Rightarrow> int" where
  "gasTarget h = uint (hd_GasLimit h) div 2"

text \<open>The base fee as a function of numbers.\<close>

definition nextBaseFee :: "int \<Rightarrow> int \<Rightarrow> int \<Rightarrow> int" where
  "nextBaseFee fee used target =
     (if used = target then fee
      else if used > target then fee + max (fee * (used - target) div target div 8) 1
      else max (fee - fee * (target - used) div target div 8) 0)"

lemma CalcBaseFee_eq:
  assumes "IsLondon config (Some (hd_Number parent))" "hd_BaseFee parent = Some fee" "2 \<le> uint (hd_GasLimit parent)"
  shows "CalcBaseFee config parent = Ok (nextBaseFee fee (uint (hd_GasUsed parent)) (gasTarget parent))"
proof -
  let ?t = "hd_GasLimit parent div 2" and ?u = "hd_GasUsed parent"
  have t: "uint ?t = gasTarget parent" "0 < gasTarget parent" using assms(3) by (simp_all add: gasTarget_def uint_div)
  have e: "?u = ?t \<longleftrightarrow> uint ?u = gasTarget parent" unfolding t(1) [symmetric] by (rule word_uint_eq_iff)
  have g: "?u > ?t \<longleftrightarrow> uint ?u > gasTarget parent" by (simp add: word_less_def t(1))
  have d: "uint ?u > gasTarget parent \<Longrightarrow> uint (?u - ?t) = uint ?u - gasTarget parent"
    "uint ?u < gasTarget parent \<Longrightarrow> uint (?t - ?u) = gasTarget parent - uint ?u" by (simp_all add: uint_sub_if' t(1))
  show ?thesis
    unfolding CalcBaseFee_def Let_def e g t(1)
    using assms(1,2) t(2) d by (auto simp: deref_def nextBaseFee_def)
qed

text \<open>C29. The base fee stays within its bounds for every gas limit of at least two: it is never negative and falls by at
  most an eighth.  With target \<open>t\<close>, half the limit rounded down, it rises by at most the fee times
  \<open>limit - t\<close> over \<open>8 * t\<close>, or by one if that is less.  This is an eighth when the limit is even; for an odd limit
  the target is rounded down, and a full block may raise the fee by slightly more than an eighth.  The fee rises
  strictly exactly above the target and stays at the target.\<close>

theorem base_fee_bounds:
  assumes "IsLondon config (Some (hd_Number parent))" "hd_BaseFee parent = Some fee" "0 \<le> fee"
    "2 \<le> uint (hd_GasLimit parent)" "hd_GasUsed parent \<le> hd_GasLimit parent"
  shows "\<exists>fee'. CalcBaseFee config parent = Ok fee' \<and> 0 \<le> fee' \<and>
    fee - fee div 8 \<le> fee' \<and>
    fee' \<le> fee + max (fee * (uint (hd_GasLimit parent) - uint (hd_GasLimit parent) div 2)
                        div (uint (hd_GasLimit parent) div 2) div 8) 1 \<and>
    (even (uint (hd_GasLimit parent)) \<longrightarrow> fee' \<le> fee + max (fee div 8) 1) \<and>
    (fee' > fee \<longleftrightarrow> uint (hd_GasUsed parent) > uint (hd_GasLimit parent) div 2) \<and>
    (uint (hd_GasUsed parent) = uint (hd_GasLimit parent) div 2 \<longrightarrow> fee' = fee)"
proof -
  let ?l = "uint (hd_GasLimit parent)" and ?u = "uint (hd_GasUsed parent)" and ?t = "gasTarget parent"
  have t: "0 < ?t" "?u - ?t \<le> ?l - ?t" "?t = ?l div 2"
    using assms(4,5) by (auto simp: gasTarget_def word_le_def)
  have e: "even ?l \<Longrightarrow> ?l - ?t = ?t" by (auto simp: t(3))
  have b: "0 \<le> fee * d div ?t div 8 \<and> fee * d div ?t div 8 \<le> fee * m div ?t div 8" if "0 \<le> d" "d \<le> m" for d m
  proof -
    have "fee * d \<le> fee * m" using that(2) assms(3) by (rule mult_left_mono)
    then have "fee * d div ?t \<le> fee * m div ?t" using t(1) by (rule zdiv_mono1)
    moreover have "0 \<le> fee * d div ?t" using that(1) assms(3) t(1) by (simp add: div_int_pos_iff)
    ultimately show ?thesis by (simp add: zdiv_mono1)
  qed
  have m: "fee * ?t div ?t = fee" using t(1) by simp
  have f8: "0 \<le> fee div 8" "fee div 8 \<le> fee" using assms(3) by simp_all
  note up = b [of "?u - ?t" "?l - ?t"] and down = b [of "?t - ?u" ?t]
  have u0: "0 \<le> ?u" by simp
  show ?thesis
    unfolding CalcBaseFee_eq [OF assms(1,2,4)] t(3) [symmetric]
    by (rule exI, rule conjI [OF refl]) (use up down f8 t(1,2) u0 assms(3) e m in \<open>auto simp: nextBaseFee_def\<close>)
qed

theorem base_fee_bounds_witness:
  "\<exists>fee'. CalcBaseFee exampleConfig exampleHeader = Ok fee' \<and> 1000 < fee' \<and> fee' \<le> 1125"
proof -
  have "IsLondon exampleConfig (Some (hd_Number exampleHeader))" by (simp add: IsLondon_def exampleHeader_def exampleConfig_def)
  from base_fee_bounds [OF this, of 1000]
  obtain fee' where "CalcBaseFee exampleConfig exampleHeader = Ok fee'" "1000 < fee'" "fee' \<le> 1125" by (auto simp: exampleHeader_def)
  then show ?thesis by blast
qed

text \<open>A full block with the odd limit 5001 raises a fee of \<open>10 ^ 9\<close> by more than an eighth.\<close>

lemma base_fee_odd_limit:
  "CalcBaseFee exampleConfig (exampleHeader\<lparr>hd_BaseFee := Some (10 ^ 9), hd_GasLimit := 5001, hd_GasUsed := 5001\<rparr>) =
     Ok (10 ^ 9 + 125050000)"
  by (subst CalcBaseFee_eq [where fee = "10 ^ 9"])
    (simp_all add: IsLondon_def exampleHeader_def exampleConfig_def nextBaseFee_def gasTarget_def)

section \<open>Accepted headers\<close>




definition exampleChild :: Header where
  "exampleChild = exampleHeader\<lparr>hd_Number := 250001, hd_Time := 110, hd_GasUsed := 0, hd_BaseFee := Some 1031\<rparr>"


section \<open>Rewards\<close>

definition blockReward :: "ChainConfig \<Rightarrow> Header \<Rightarrow> int" where
  "blockReward config header =
     (if IsConstantinople config (Some (hd_Number header)) then 2000000000000000000
      else if IsByzantium config (Some (hd_Number header)) then 3000000000000000000 else 5000000000000000000)"

lemma totalSupply_AddBalance:
  assumes "sdb_inv D s" "addrHash_inj D"
  shows "totalSupply D (AddBalance D s a x) = totalSupply D s + x" "sdb_inv D (AddBalance D s a x)"
  using balance_setters(1) [OF assms, of a x] extends_inv [OF extends_ops(1) [OF assms]]
  by (simp_all add: totalSupply_def sum_upd del: fun_upd_apply)

lemma rewardUncles_total:
  assumes inj: "addrHash_inj D"
  shows "sdb_inv D s \<Longrightarrow> rewardUncles D n R s reward uncles = (s', reward') \<Longrightarrow>
    sdb_inv D s' \<and> reward' = reward + int (length uncles) * (R div 32) \<and>
    totalSupply D s' = totalSupply D s + (\<Sum>u \<leftarrow> uncles. (hd_Number u + 8 - n) * R div 8)"
proof (induction uncles arbitrary: s reward)
  case (Cons u uncles)
  let ?r = "(hd_Number u + 8 - n) * R div 8"
  note a = totalSupply_AddBalance [OF Cons.prems(1) inj, of "hd_Coinbase u" ?r]
  from Cons.IH [OF a(2), of "reward + R div 32"] Cons.prems(2) a(1) show ?case by (simp add: Let_def distrib_right)
qed simp

text \<open>C30. The rewards create exactly the block reward of the fork, an eighth of it per generation that an uncle is young,
  and a 32nd of it for every uncle included; nothing is created in catalyst mode.\<close>

theorem rewards_paid_out:
  assumes "sdb_inv D s" "addrHash_inj D"
  shows "(\<Sum>a \<in> UNIV. snd (GetBalance D (accumulateRewards config D s header uncles) a)) =
    (\<Sum>a \<in> UNIV. snd (GetBalance D s a)) +
    (if IsCatalyst config (Some (hd_Number header)) then 0
     else blockReward config header + int (length uncles) * (blockReward config header div 32) +
       (\<Sum>u \<leftarrow> uncles. (hd_Number u + 8 - hd_Number header) * blockReward config header div 8))"
proof (cases "IsCatalyst config (Some (hd_Number header))")
  case False
  let ?R = "blockReward config header"
  obtain s' r where u: "rewardUncles D (hd_Number header) ?R s ?R uncles = (s', r)" by fastforce
  note t = rewardUncles_total [OF assms(2,1) u]
  have e: "accumulateRewards config D s header uncles = AddBalance D s' (hd_Coinbase header) r"
    using u False by (auto simp: accumulateRewards_def blockReward_def Let_def split: if_splits)
  note p = totalSupply_AddBalance [OF conjunct1 [OF t] assms(2), of "hd_Coinbase header" r]
  have "totalSupply D (AddBalance D s' (hd_Coinbase header) r) = totalSupply D s + (?R + int (length uncles) * (?R div 32) +
      (\<Sum>u \<leftarrow> uncles. (hd_Number u + 8 - hd_Number header) * ?R div 8))" using p(1) t by simp
  then show ?thesis
    using False unfolding e GetBalance_balance [OF inv_wf [OF assms(1)]] GetBalance_balance [OF inv_wf [OF p(2)]]
    by (simp add: totalSupply_def)
qed (simp add: accumulateRewards_def)

theorem rewards_paid_out_witness:
  "(\<Sum>a \<in> UNIV. snd (GetBalance memoryBackend (accumulateRewards exampleConfig memoryBackend emptyState exampleChild [exampleHeader]) a)) =
    2000000000000000000 + 62500000000000000 + 1750000000000000000"
  using rewards_paid_out [OF sdb_inv_emptyState addrHash_inj_memory, of exampleConfig exampleChild "[exampleHeader]"]
  by (simp add: GetBalance_emptyState blockReward_def exampleChild_def exampleHeader_def IsConstantinople_def IsCatalyst_def exampleConfig_def)

end
