(* ===== verification/Clique.thy ===== *)
theory Clique
  imports Consensus
begin

text \<open>
  The authorization snapshots of the proof-of-authority engine (\<open>consensus/clique/snapshot.go\<close>): the set of signers, their
  votes on adding and removing signers, and the signers of recent blocks, updated header by header.  The
  signer of a header is recovered from its seal (\<open>ecrecover\<close>, \<open>SealHash\<close> of \<open>clique.go\<close>); the cache of recovered
  signers, which returns what the recovery returns, is left out.
\<close>

datatype cliqueError =
    ErrInvalidVote | ErrMissingSignature | ErrInvalidVotingChain | ErrUnauthorizedSigner | ErrRecentlySigned | EcrecoverError gerror

record Vote =
  vt_Signer :: address
  vt_Block :: u64
  vt_Address :: address
  vt_Authorize :: bool

record Tally =
  ty_Authorize :: bool
  ty_Votes :: int

record CliqueSnapshot =
  cs_config :: CliqueConfig
  cs_Number :: u64
  cs_Hash :: hash
  cs_Signers :: "address set"
  cs_Recents :: "u64 \<Rightarrow> address option"
  cs_Votes :: "Vote list"
  cs_Tally :: "address \<Rightarrow> Tally option"

definition newSnapshot :: "CliqueConfig \<Rightarrow> u64 \<Rightarrow> hash \<Rightarrow> address list \<Rightarrow> CliqueSnapshot" where
  "newSnapshot config number hash signers =
     \<lparr>cs_config = config, cs_Number = number, cs_Hash = hash, cs_Signers = set signers, cs_Recents = (\<lambda>_. None),
      cs_Votes = [], cs_Tally = (\<lambda>_. None)\<rparr>"

section \<open>Signatures\<close>

definition SealHash :: "crypto \<Rightarrow> Header \<Rightarrow> hash outcome" where
  "SealHash C header =
     (if length (hd_Extra header) < 65 then Panic
      else
        bnd (EncodeToBytes (VSlice (Header_fields
               (header\<lparr>hd_Extra := take (length (hd_Extra header) - 65) (hd_Extra header)\<rparr>)))) (\<lambda>r.
          case r of Inl _ \<Rightarrow> Panic | Inr d \<Rightarrow> Ok (cr_keccak256 C d)))"

definition clique_ecrecover :: "crypto \<Rightarrow> Header \<Rightarrow> (cliqueError + address) outcome" where
  "clique_ecrecover C header =
     (if length (hd_Extra header) < 65 then Ok (Inl ErrMissingSignature)
      else
        let signature = drop (length (hd_Extra header) - 65) (hd_Extra header)
        in bnd (SealHash C header) (\<lambda>h.
             case cr_Ecrecover C (hash_Bytes h) signature of
               Inl e \<Rightarrow> Ok (Inl (EcrecoverError e))
             | Inr [] \<Rightarrow> Panic
             | Inr (_ # key) \<Rightarrow> Ok (Inr (BytesToAddress (drop 12 (hash_Bytes (cr_keccak256 C key)))))))"

section \<open>Votes\<close>

definition validVote :: "CliqueSnapshot \<Rightarrow> address \<Rightarrow> bool \<Rightarrow> bool" where
  "validVote s address authorize \<longleftrightarrow>
     (let signer = (address \<in> cs_Signers s) in signer \<and> \<not> authorize \<or> \<not> signer \<and> authorize)"

definition cast :: "CliqueSnapshot \<Rightarrow> address \<Rightarrow> bool \<Rightarrow> CliqueSnapshot \<times> bool" where
  "cast s address authorize =
     (if \<not> validVote s address authorize then (s, False)
      else
        let tally = (case cs_Tally s address of
                       Some old \<Rightarrow> old\<lparr>ty_Votes := ty_Votes old + 1\<rparr>
                     | None \<Rightarrow> \<lparr>ty_Authorize = authorize, ty_Votes = 1\<rparr>)
        in (s\<lparr>cs_Tally := (cs_Tally s)(address \<mapsto> tally)\<rparr>, True))"

definition uncast :: "CliqueSnapshot \<Rightarrow> address \<Rightarrow> bool \<Rightarrow> CliqueSnapshot \<times> bool" where
  "uncast s address authorize =
     (case cs_Tally s address of
        None \<Rightarrow> (s, False)
      | Some tally \<Rightarrow>
          if ty_Authorize tally \<noteq> authorize then (s, False)
          else if ty_Votes tally > 1 then
            (s\<lparr>cs_Tally := (cs_Tally s)(address \<mapsto> tally\<lparr>ty_Votes := ty_Votes tally - 1\<rparr>)\<rparr>, True)
          else (s\<lparr>cs_Tally := (cs_Tally s)(address := None)\<rparr>, True))"

text \<open>Discarding the previous vote of a signer on an account: the first one in the list.\<close>

primrec discardVote :: "address \<Rightarrow> address \<Rightarrow> Vote list \<Rightarrow> Vote list \<Rightarrow> CliqueSnapshot \<Rightarrow> CliqueSnapshot" where
  "discardVote signer coinbase seen [] s = s"
| "discardVote signer coinbase seen (vote # votes) s =
     (if vt_Signer vote = signer \<and> vt_Address vote = coinbase
      then (fst (uncast s (vt_Address vote) (vt_Authorize vote)))\<lparr>cs_Votes := seen @ votes\<rparr>
      else discardVote signer coinbase (seen @ [vote]) votes s)"

text \<open>Discarding all votes that a removed signer cast.\<close>

primrec discardVotesOf :: "address \<Rightarrow> Vote list \<Rightarrow> Vote list \<Rightarrow> CliqueSnapshot \<Rightarrow> CliqueSnapshot" where
  "discardVotesOf signer seen [] s = s\<lparr>cs_Votes := seen\<rparr>"
| "discardVotesOf signer seen (vote # votes) s =
     (if vt_Signer vote = signer
      then discardVotesOf signer seen votes (fst (uncast s (vt_Address vote) (vt_Authorize vote)))
      else discardVotesOf signer (seen @ [vote]) votes s)"

section \<open>Applying headers\<close>

definition recentLimit :: "CliqueSnapshot \<Rightarrow> u64" where
  "recentLimit s = of_nat (card (cs_Signers s) div 2 + 1)"

definition forgetRecent :: "u64 \<Rightarrow> CliqueSnapshot \<Rightarrow> CliqueSnapshot" where
  "forgetRecent number s =
     (if number \<ge> recentLimit s then s\<lparr>cs_Recents := (cs_Recents s)(number - recentLimit s := None)\<rparr> else s)"

text \<open>Carrying out a vote on an account that has a majority.\<close>

definition passVote :: "u64 \<Rightarrow> address \<Rightarrow> CliqueSnapshot \<Rightarrow> CliqueSnapshot" where
  "passVote number coinbase s =
     (case cs_Tally s coinbase of
        None \<Rightarrow> s
      | Some tally \<Rightarrow>
          if ty_Votes tally > int (card (cs_Signers s) div 2) then
            let s = (if ty_Authorize tally then s\<lparr>cs_Signers := insert coinbase (cs_Signers s)\<rparr>
                     else
                       let s = s\<lparr>cs_Signers := cs_Signers s - {coinbase}\<rparr>;
                           s = forgetRecent number s
                       in discardVotesOf coinbase [] (cs_Votes s) s);
                s = s\<lparr>cs_Votes := filter (\<lambda>v. vt_Address v \<noteq> coinbase) (cs_Votes s)\<rparr>
            in s\<lparr>cs_Tally := (cs_Tally s)(coinbase := None)\<rparr>
          else s)"

definition nonceAuthVote :: bytes where
  "nonceAuthVote = replicate 8 0xff"

definition nonceDropVote :: bytes where
  "nonceDropVote = replicate 8 0"

text \<open>The vote of an authorized header: the previous vote is discarded, the new one is counted, and the majority carried out.\<close>

definition applyVote :: "u64 \<Rightarrow> address \<Rightarrow> address \<Rightarrow> bool \<Rightarrow> CliqueSnapshot \<Rightarrow> CliqueSnapshot" where
  "applyVote number signer coinbase authorize s =
     (let (s, counted) = cast s coinbase authorize;
          s = (if counted
               then s\<lparr>cs_Votes := cs_Votes s @ [\<lparr>vt_Signer = signer, vt_Block = number, vt_Address = coinbase, vt_Authorize = authorize\<rparr>]\<rparr>
               else s)
      in passVote number coinbase s)"

definition applyHeader :: "crypto \<Rightarrow> Header \<Rightarrow> CliqueSnapshot \<Rightarrow> (cliqueError + CliqueSnapshot) outcome" where
  "applyHeader C header s =
     (let number = big_Uint64 (hd_Number header)
      in if Epoch (cs_config s) = 0 then Panic
         else
           let s = (if number mod Epoch (cs_config s) = 0 then s\<lparr>cs_Votes := [], cs_Tally := (\<lambda>_. None)\<rparr> else s);
               s = forgetRecent number s
           in bnd (clique_ecrecover C header) (\<lambda>r.
                case r of
                  Inl e \<Rightarrow> Ok (Inl e)
                | Inr signer \<Rightarrow>
                    if signer \<notin> cs_Signers s then Ok (Inl ErrUnauthorizedSigner)
                    else if signer \<in> ran (cs_Recents s) then Ok (Inl ErrRecentlySigned)
                    else
                      let s = s\<lparr>cs_Recents := (cs_Recents s)(number \<mapsto> signer)\<rparr>;
                          s = discardVote signer (hd_Coinbase header) [] (cs_Votes s) s
                      in if hd_Nonce header = nonceAuthVote then Ok (Inr (applyVote number signer (hd_Coinbase header) True s))
                         else if hd_Nonce header = nonceDropVote then Ok (Inr (applyVote number signer (hd_Coinbase header) False s))
                         else Ok (Inl ErrInvalidVote)))"

primrec applyHeaders :: "crypto \<Rightarrow> Header list \<Rightarrow> CliqueSnapshot \<Rightarrow> (cliqueError + CliqueSnapshot) outcome" where
  "applyHeaders C [] s = Ok (Inr s)"
| "applyHeaders C (header # headers) s =
     bnd (applyHeader C header s) (\<lambda>r. case r of Inl e \<Rightarrow> Ok (Inl e) | Inr s \<Rightarrow> applyHeaders C headers s)"

fun consecutive :: "Header list \<Rightarrow> bool" where
  "consecutive (h1 # h2 # hs) \<longleftrightarrow> big_Uint64 (hd_Number h2) = big_Uint64 (hd_Number h1) + 1 \<and> consecutive (h2 # hs)"
| "consecutive _ \<longleftrightarrow> True"

definition snapshot_apply :: "crypto \<Rightarrow> CliqueSnapshot \<Rightarrow> Header list \<Rightarrow> (cliqueError + CliqueSnapshot) outcome" where
  "snapshot_apply C s headers =
     (if headers = [] then Ok (Inr s)
      else if \<not> consecutive headers then Ok (Inl ErrInvalidVotingChain)
      else if big_Uint64 (hd_Number (hd headers)) \<noteq> cs_Number s + 1 then Ok (Inl ErrInvalidVotingChain)
      else
        bnd (applyHeaders C headers s) (\<lambda>r.
          case r of
            Inl e \<Rightarrow> Ok (Inl e)
          | Inr snap \<Rightarrow>
              bnd (Header_Hash (cr_keccak256 C) (last headers)) (\<lambda>h.
                Ok (Inr (snap\<lparr>cs_Number := cs_Number snap + of_nat (length headers), cs_Hash := h\<rparr>)))))"

section \<open>Turns\<close>

definition snapshot_signers :: "CliqueSnapshot \<Rightarrow> address list" where
  "snapshot_signers s = sorted_list_of_set (cs_Signers s)"

primrec signerOffset :: "address list \<Rightarrow> address \<Rightarrow> nat" where
  "signerOffset [] signer = 0"
| "signerOffset (a # as) signer = (if a \<noteq> signer then Suc (signerOffset as signer) else 0)"

definition inturn :: "CliqueSnapshot \<Rightarrow> u64 \<Rightarrow> address \<Rightarrow> bool outcome" where
  "inturn s number signer =
     (let signers = snapshot_signers s
      in if signers = [] then Panic
         else Ok (number mod of_nat (length signers) = of_nat (signerOffset signers signer)))"

end
