(* ===== verification/CliqueEffects.thy ===== *)
theory CliqueEffects
  imports Clique HeaderRules
begin

text \<open>
  The invariant of the authorization snapshots: every pending vote is cast by a signer, on each account at most one by
  each, it would change something, and the cached tally is the count of the votes.  From it follows that signers
  are added and removed by majorities only.
\<close>

section \<open>The invariant\<close>

abbreviation votesOn :: "address \<Rightarrow> Vote list \<Rightarrow> Vote list" where
  "votesOn a vs \<equiv> filter (\<lambda>v. vt_Address v = a) vs"

definition tallied :: "address set \<Rightarrow> Vote list \<Rightarrow> (address \<Rightarrow> Tally option) \<Rightarrow> bool" where
  "tallied S vs T \<longleftrightarrow>
     (\<forall>a. T a = (if votesOn a vs = [] then None
                 else Some \<lparr>ty_Authorize = (a \<notin> S), ty_Votes = int (length (votesOn a vs))\<rparr>))"

definition ballot :: "Vote \<Rightarrow> address \<times> address" where
  "ballot v = (vt_Signer v, vt_Address v)"

definition votes_ok :: "address set \<Rightarrow> Vote list \<Rightarrow> bool" where
  "votes_ok S vs \<longleftrightarrow> distinct (map ballot vs) \<and> (\<forall>v \<in> set vs. vt_Signer v \<in> S \<and> vt_Authorize v = (vt_Address v \<notin> S))"

definition snap_ok :: "CliqueSnapshot \<Rightarrow> bool" where
  "snap_ok s \<longleftrightarrow> finite (cs_Signers s) \<and> votes_ok (cs_Signers s) (cs_Votes s) \<and> tallied (cs_Signers s) (cs_Votes s) (cs_Tally s)"

lemma snap_ok_new: "snap_ok (newSnapshot config number hash signers)"
  by (simp add: snap_ok_def newSnapshot_def votes_ok_def tallied_def)

lemma uncast_frame:
  "cs_Signers (fst (uncast s a b)) = cs_Signers s" "cs_Votes (fst (uncast s a b)) = cs_Votes s" "cs_config (fst (uncast s a b)) = cs_config s"
  by (simp_all add: uncast_def split: option.split)

lemma uncast_tallied:
  assumes "tallied S (xs @ v # ys) (cs_Tally s)" "vt_Authorize v = (vt_Address v \<notin> S)"
  shows "tallied S (xs @ ys) (cs_Tally (fst (uncast s (vt_Address v) (vt_Authorize v))))"
proof -
  let ?a = "vt_Address v"
  have T: "cs_Tally s ?a = Some \<lparr>ty_Authorize = (?a \<notin> S), ty_Votes = int (length (votesOn ?a (xs @ ys))) + 1\<rparr>"
    using assms(1) by (simp add: tallied_def)
  have o: "cs_Tally s b = (if votesOn b (xs @ ys) = [] then None
      else Some \<lparr>ty_Authorize = (b \<notin> S), ty_Votes = int (length (votesOn b (xs @ ys)))\<rparr>)" if "b \<noteq> ?a" for b
    using assms(1) that by (simp add: tallied_def)
  show ?thesis
  proof (cases "votesOn ?a (xs @ ys) = []")
    case True
    then show ?thesis using T o assms(2) by (simp add: tallied_def uncast_def)
  next
    case False
    then have "0 < length (votesOn ?a (xs @ ys))" by blast
    then have "1 < int (length (votesOn ?a (xs @ ys))) + 1" by linarith
    then show ?thesis using T o assms(2) False by (simp add: tallied_def uncast_def del: filter_append)
  qed
qed

lemma cast_tallied:
  assumes "tallied (cs_Signers s) (cs_Votes s) (cs_Tally s)" "cast s a b = (s', True)" "vt_Address v = a"
  shows "tallied (cs_Signers s) (cs_Votes s @ [v]) (cs_Tally s')" "b = (a \<notin> cs_Signers s)"
    "cs_Signers s' = cs_Signers s" "cs_Votes s' = cs_Votes s" "cs_config s' = cs_config s" "cs_Recents s' = cs_Recents s"
proof -
  show b: "b = (a \<notin> cs_Signers s)" using assms(2) by (auto simp: cast_def validVote_def Let_def split: if_splits)
  show "cs_Signers s' = cs_Signers s" "cs_Votes s' = cs_Votes s" "cs_config s' = cs_config s" "cs_Recents s' = cs_Recents s"
    using assms(2) by (auto simp: cast_def Let_def split: if_splits)
  show "tallied (cs_Signers s) (cs_Votes s @ [v]) (cs_Tally s')"
  proof -
    have T: "cs_Tally s c = (if votesOn c (cs_Votes s) = [] then None
        else Some \<lparr>ty_Authorize = (c \<notin> cs_Signers s), ty_Votes = int (length (votesOn c (cs_Votes s)))\<rparr>)" for c
      using assms(1) by (simp add: tallied_def)
    have "cs_Tally s' = (cs_Tally s)(a \<mapsto> \<lparr>ty_Authorize = (a \<notin> cs_Signers s), ty_Votes = int (length (votesOn a (cs_Votes s))) + 1\<rparr>)"
      using assms(2) T [of a] b by (auto simp: cast_def Let_def split: if_splits)
    then show ?thesis using T assms(3) by (simp add: tallied_def)
  qed
qed

lemma discardVotesOf_tallied:
  assumes "tallied S (seen @ votes) (cs_Tally s)" "\<forall>v \<in> set votes. vt_Authorize v = (vt_Address v \<notin> S)"
  shows "tallied S (seen @ filter (\<lambda>v. vt_Signer v \<noteq> x) votes) (cs_Tally (discardVotesOf x seen votes s)) \<and>
    cs_Votes (discardVotesOf x seen votes s) = seen @ filter (\<lambda>v. vt_Signer v \<noteq> x) votes \<and>
    cs_Signers (discardVotesOf x seen votes s) = cs_Signers s \<and> cs_config (discardVotesOf x seen votes s) = cs_config s"
  using assms
proof (induction votes arbitrary: seen s)
  case (Cons v votes)
  show ?case
  proof (cases "vt_Signer v = x")
    case True
    have "tallied S (seen @ votes) (cs_Tally (fst (uncast s (vt_Address v) (vt_Authorize v))))"
      by (rule uncast_tallied) (use Cons.prems in auto)
    from Cons.IH [OF this] Cons.prems(2) True show ?thesis by (simp add: uncast_frame)
  next
    case False
    then show ?thesis using Cons.IH [of "seen @ [v]" s] Cons.prems by simp
  qed
qed simp

lemma discardVote_ok:
  assumes "tallied S (seen @ votes) (cs_Tally s)" "cs_Votes s = seen @ votes" "votes_ok S (seen @ votes)"
    "(x, a) \<notin> ballot ` set seen"
  shows "\<exists>vs. cs_Votes (discardVote x a seen votes s) = vs \<and> votes_ok S vs \<and> tallied S vs (cs_Tally (discardVote x a seen votes s)) \<and>
    (x, a) \<notin> ballot ` set vs \<and> set vs \<subseteq> set (seen @ votes) \<and> cs_Signers (discardVote x a seen votes s) = cs_Signers s \<and>
    cs_config (discardVote x a seen votes s) = cs_config s"
  using assms
proof (induction votes arbitrary: seen)
  case (Cons v votes)
  show ?case
  proof (cases "vt_Signer v = x \<and> vt_Address v = a")
    case True
    have "tallied S (seen @ votes) (cs_Tally (fst (uncast s (vt_Address v) (vt_Authorize v))))"
      by (rule uncast_tallied) (use Cons.prems in \<open>auto simp: votes_ok_def\<close>)
    moreover have "(x, a) \<notin> ballot ` set votes"
      using Cons.prems(3) True by (auto simp: votes_ok_def ballot_def)
    ultimately show ?thesis using Cons.prems True by (auto simp: votes_ok_def uncast_frame)
  next
    case False
    then have "(x, a) \<notin> ballot ` set (seen @ [v])" using Cons.prems(4) by (auto simp: ballot_def)
    moreover have "discardVote x a seen (v # votes) s = discardVote x a (seen @ [v]) votes s" using False by auto
    ultimately show ?thesis using Cons.IH [of "seen @ [v]"] Cons.prems by simp
  qed
qed auto

lemma forgetRecent_frame [simp]:
  "cs_Signers (forgetRecent n s) = cs_Signers s" "cs_Votes (forgetRecent n s) = cs_Votes s" "cs_Tally (forgetRecent n s) = cs_Tally s"
  "cs_config (forgetRecent n s) = cs_config s"
  by (simp_all add: forgetRecent_def)

lemma tallied_drop:
  assumes "tallied S vs T" "\<And>b. b \<noteq> a \<Longrightarrow> (b \<notin> S') = (b \<notin> S)"
  shows "tallied S' (filter (\<lambda>v. vt_Address v \<noteq> a) vs) (T(a := None))"
proof -
  have "votesOn b (filter (\<lambda>v. vt_Address v \<noteq> a) vs) = (if b = a then [] else votesOn b vs)" for b
    by (auto simp: filter_filter intro: filter_cong)
  then show ?thesis using assms by (simp add: tallied_def)
qed

lemma votes_ok_filter: "votes_ok S vs \<Longrightarrow> votes_ok S (filter P vs)"
  by (auto simp: votes_ok_def distinct_map_filter)

lemma votes_ok_change:
  assumes "votes_ok S vs" "\<And>v. v \<in> set vs \<Longrightarrow> vt_Signer v \<in> S' \<and> (vt_Address v \<notin> S') = (vt_Address v \<notin> S)"
  shows "votes_ok S' vs"
  using assms by (auto simp: votes_ok_def)

text \<open>The signers who have a vote pending on an account.\<close>

definition voters :: "CliqueSnapshot \<Rightarrow> address \<Rightarrow> address set" where
  "voters s a = vt_Signer ` {v \<in> set (cs_Votes s). vt_Address v = a}"

lemma card_voters:
  assumes "votes_ok S (cs_Votes s)"
  shows "card (voters s a) = length (votesOn a (cs_Votes s))" "voters s a \<subseteq> S"
proof -
  have d: "distinct (map vt_Signer (votesOn a vs))" if "distinct (map ballot vs)" for vs
    using that by (induction vs) (auto simp: ballot_def)
  have "voters s a = set (map vt_Signer (votesOn a (cs_Votes s)))" by (auto simp: voters_def)
  moreover have "card (set (map vt_Signer (votesOn a (cs_Votes s)))) = length (map vt_Signer (votesOn a (cs_Votes s)))"
    by (rule distinct_card [OF d]) (use assms in \<open>simp add: votes_ok_def\<close>)
  ultimately show "card (voters s a) = length (votesOn a (cs_Votes s))" by simp
  show "voters s a \<subseteq> S" using assms by (auto simp: voters_def votes_ok_def)
qed

lemma passVote_ok:
  assumes ok: "snap_ok s"
  shows "snap_ok (passVote n a s) \<and> cs_config (passVote n a s) = cs_config s \<and>
    (cs_Signers (passVote n a s) = cs_Signers s \<or>
     card (voters s a) > card (cs_Signers s) div 2 \<and>
     cs_Signers (passVote n a s) = (if a \<in> cs_Signers s then cs_Signers s - {a} else insert a (cs_Signers s)))"
proof -
  let ?S = "cs_Signers s" and ?vs = "cs_Votes s"
  have fin: "finite ?S" and v: "votes_ok ?S ?vs" and t: "tallied ?S ?vs (cs_Tally s)" using ok by (simp_all add: snap_ok_def)
  show ?thesis
  proof (cases "votesOn a ?vs = []")
    case True
    then have "cs_Tally s a = None" using t by (simp add: tallied_def)
    then show ?thesis using ok by (simp add: passVote_def)
  next
    case False
    let ?k = "int (length (votesOn a ?vs))"
    have T: "cs_Tally s a = Some \<lparr>ty_Authorize = (a \<notin> ?S), ty_Votes = ?k\<rparr>" using t False by (simp add: tallied_def)
    show ?thesis
    proof (cases "?k > int (card ?S div 2)")
      case False
      then show ?thesis using ok T by (simp add: passVote_def)
    next
      case pass: True
      then have maj: "card (voters s a) > card ?S div 2" using card_voters(1) [OF v] by simp
      show ?thesis
      proof (cases "a \<in> ?S")
        case False
        define s' where "s' = passVote n a s"
        have e: "cs_Signers s' = insert a ?S" "cs_Votes s' = filter (\<lambda>v. vt_Address v \<noteq> a) ?vs" "cs_Tally s' = (cs_Tally s)(a := None)"
          "cs_config s' = cs_config s"
          using False pass T by (simp_all add: s'_def passVote_def)
        have "votes_ok (insert a ?S) (filter (\<lambda>v. vt_Address v \<noteq> a) ?vs)"
          by (rule votes_ok_change [OF votes_ok_filter [OF v]]) (use v in \<open>auto simp: votes_ok_def\<close>)
        moreover have "tallied (insert a ?S) (filter (\<lambda>v. vt_Address v \<noteq> a) ?vs) ((cs_Tally s)(a := None))"
          by (rule tallied_drop [OF t]) simp
        ultimately have "snap_ok s'" using fin e by (simp add: snap_ok_def)
        then show ?thesis using e maj False by (simp add: s'_def)
      next
        case True
        define s1 where "s1 = forgetRecent n (s\<lparr>cs_Signers := ?S - {a}\<rparr>)"
        define s2 where "s2 = discardVotesOf a [] ?vs s1"
        have s1: "cs_Votes s1 = ?vs" "cs_Tally s1 = cs_Tally s" "cs_Signers s1 = ?S - {a}" "cs_config s1 = cs_config s" by (simp_all add: s1_def)
        let ?ws = "filter (\<lambda>v. vt_Signer v \<noteq> a) ?vs"
        have s2: "tallied ?S ?ws (cs_Tally s2)" "cs_Votes s2 = ?ws" "cs_Signers s2 = ?S - {a}" "cs_config s2 = cs_config s"
          using discardVotesOf_tallied [of ?S "[]" ?vs s1 a] t v s1 by (simp_all add: s2_def votes_ok_def)
        define s' where "s' = passVote n a s"
        have e: "cs_Signers s' = ?S - {a}" "cs_Votes s' = filter (\<lambda>v. vt_Address v \<noteq> a) ?ws" "cs_Tally s' = (cs_Tally s2)(a := None)"
          "cs_config s' = cs_config s"
          using True pass T s2 by (simp_all add: s'_def passVote_def Let_def s1_def [symmetric] s2_def [symmetric])
        have "votes_ok (?S - {a}) (filter (\<lambda>v. vt_Address v \<noteq> a) ?ws)"
          by (rule votes_ok_change [OF votes_ok_filter [OF votes_ok_filter [OF v]]]) (use v in \<open>auto simp: votes_ok_def\<close>)
        moreover have "tallied (?S - {a}) (filter (\<lambda>v. vt_Address v \<noteq> a) ?ws) ((cs_Tally s2)(a := None))"
          by (rule tallied_drop [OF s2(1)]) simp
        ultimately have "snap_ok s'" using fin e by (simp add: snap_ok_def)
        then show ?thesis using e maj True by (simp add: s'_def)
      qed
    qed
  qed
qed

lemma applyVote_ok:
  assumes ok: "snap_ok s" and x: "x \<in> cs_Signers s" "(x, a) \<notin> ballot ` set (cs_Votes s)"
  shows "snap_ok (applyVote n x a b s) \<and> cs_config (applyVote n x a b s) = cs_config s \<and>
    (cs_Signers (applyVote n x a b s) = cs_Signers s \<or>
     (\<exists>V. V \<subseteq> insert x (voters s a) \<and> V \<subseteq> cs_Signers s \<and> card V > card (cs_Signers s) div 2 \<and>
        cs_Signers (applyVote n x a b s) = (if a \<in> cs_Signers s then cs_Signers s - {a} else insert a (cs_Signers s))))"
proof -
  obtain s1 c where cs: "cast s a b = (s1, c)" by fastforce
  define s2 where "s2 = (if c then s1\<lparr>cs_Votes := cs_Votes s1 @ [\<lparr>vt_Signer = x, vt_Block = n, vt_Address = a, vt_Authorize = b\<rparr>]\<rparr> else s1)"
  have e: "applyVote n x a b s = passVote n a s2" by (simp add: applyVote_def cs s2_def Let_def)
  have s2: "snap_ok s2 \<and> cs_Signers s2 = cs_Signers s \<and> cs_config s2 = cs_config s \<and> voters s2 a \<subseteq> insert x (voters s a)"
  proof (cases c)
    case True
    define v where "v = \<lparr>vt_Signer = x, vt_Block = n, vt_Address = a, vt_Authorize = b\<rparr>"
    have vs: "vt_Signer v = x" "vt_Address v = a" "vt_Authorize v = b" by (simp_all add: v_def)
    have t: "tallied (cs_Signers s) (cs_Votes s) (cs_Tally s)" using ok by (simp add: snap_ok_def)
    have "cast s a b = (s1, True)" using cs True by simp
    note k = cast_tallied [OF t this vs(2)]
    have "votes_ok (cs_Signers s) (cs_Votes s @ [v])"
      using ok x k(2) vs by (auto simp: snap_ok_def votes_ok_def ballot_def)
    moreover have "s2 = s1\<lparr>cs_Votes := cs_Votes s @ [v]\<rparr>" using True k(4) by (simp add: s2_def v_def)
    moreover have "voters s2 a \<subseteq> insert x (voters s a)" using vs calculation(2) by (auto simp: voters_def)
    ultimately show ?thesis using ok k by (simp add: snap_ok_def)
  next
    case False
    then show ?thesis using ok cs by (auto simp: s2_def cast_def Let_def split: if_splits)
  qed
  then have f: "snap_ok s2" "cs_Signers s2 = cs_Signers s" "cs_config s2 = cs_config s" "voters s2 a \<subseteq> insert x (voters s a)"
    by blast+
  have "voters s2 a \<subseteq> cs_Signers s2" by (rule card_voters(2)) (use f(1) in \<open>simp add: snap_ok_def\<close>)
  then show ?thesis using passVote_ok [OF f(1), of n a] f(4) unfolding e f(2,3) by blast
qed

section \<open>Headers\<close>

lemma snap_ok_recents: "snap_ok (s\<lparr>cs_Recents := r\<rparr>) = snap_ok s"
  by (simp add: snap_ok_def)

text \<open>What an applied header does to the signers.\<close>

definition majority_change :: "CliqueSnapshot \<Rightarrow> address \<Rightarrow> address \<Rightarrow> CliqueSnapshot \<Rightarrow> bool" where
  "majority_change s signer a s' \<longleftrightarrow>
     cs_Signers s' = cs_Signers s \<or>
     (\<exists>V. V \<subseteq> insert signer (voters s a) \<and> V \<subseteq> cs_Signers s \<and> card V > card (cs_Signers s) div 2 \<and>
        cs_Signers s' = (if a \<in> cs_Signers s then cs_Signers s - {a} else insert a (cs_Signers s)))"

lemma applyHeader_ok:
  assumes ok: "snap_ok s" and a: "applyHeader C header s = Ok (Inr s')"
  shows "\<exists>signer. clique_ecrecover C header = Ok (Inr signer) \<and> signer \<in> cs_Signers s \<and>
    snap_ok s' \<and> cs_config s' = cs_config s \<and> majority_change s signer (hd_Coinbase header) s'"
proof -
  let ?a = "hd_Coinbase header"
  define n :: u64 where "n = big_Uint64 (hd_Number header)"
  have ep: "Epoch (cs_config s) \<noteq> 0" using a by (auto simp: applyHeader_def Let_def)
  define s0 where "s0 = (if n mod Epoch (cs_config s) = 0 then s\<lparr>cs_Votes := [], cs_Tally := (\<lambda>_. None)\<rparr> else s)"
  define s1 where "s1 = forgetRecent n s0"
  have s1: "snap_ok s1" "cs_Signers s1 = cs_Signers s" "cs_config s1 = cs_config s" "set (cs_Votes s1) \<subseteq> set (cs_Votes s)"
    using ok by (auto simp: s1_def s0_def snap_ok_def votes_ok_def tallied_def)
  obtain r where r: "clique_ecrecover C header = Ok r"
    using a ep by (cases "clique_ecrecover C header") (simp_all add: applyHeader_def Let_def)
  define apply' where "apply' signer = (let s = s1\<lparr>cs_Recents := (cs_Recents s1)(n \<mapsto> signer)\<rparr>;
      s = discardVote signer ?a [] (cs_Votes s) s
    in if hd_Nonce header = nonceAuthVote then Ok (Inr (applyVote n signer ?a True s))
       else if hd_Nonce header = nonceDropVote then Ok (Inr (applyVote n signer ?a False s)) else Ok (Inl ErrInvalidVote))" for signer
  have e: "applyHeader C header s = (case r of Inl e \<Rightarrow> Ok (Inl e) | Inr signer \<Rightarrow>
      if signer \<notin> cs_Signers s1 then Ok (Inl ErrUnauthorizedSigner)
      else if signer \<in> ran (cs_Recents s1) then Ok (Inl ErrRecentlySigned) else apply' signer)"
    unfolding applyHeader_def Let_def n_def [symmetric] s0_def [symmetric] s1_def [symmetric] r apply'_def using ep by simp
  then obtain x where x: "r = Inr x" "x \<in> cs_Signers s" "apply' x = Ok (Inr s')"
    using a s1(2) by (auto split: sum.splits if_splits)
  define s2 where "s2 = s1\<lparr>cs_Recents := (cs_Recents s1)(n \<mapsto> x)\<rparr>"
  define s3 where "s3 = discardVote x ?a [] (cs_Votes s2) s2"
  have s2: "snap_ok s2" "cs_Votes s2 = cs_Votes s1" "cs_Signers s2 = cs_Signers s" "cs_config s2 = cs_config s"
    using s1 by (simp_all add: s2_def snap_ok_recents)
  have s3: "snap_ok s3" "cs_Signers s3 = cs_Signers s" "cs_config s3 = cs_config s" "(x, ?a) \<notin> ballot ` set (cs_Votes s3)"
    "set (cs_Votes s3) \<subseteq> set (cs_Votes s)"
    using discardVote_ok [of "cs_Signers s" "[]" "cs_Votes s2" s2 x ?a] s2 s1(4) by (auto simp: s3_def snap_ok_def)
  have v: "voters s3 b \<subseteq> voters s b" for b using s3(5) by (auto simp: voters_def)
  obtain b where b: "s' = applyVote n x ?a b s3"
    using x(3) by (auto simp: apply'_def s2_def [symmetric] s3_def [symmetric] Let_def split: if_splits)
  have "snap_ok s' \<and> cs_config s' = cs_config s \<and> majority_change s x ?a s'"
  proof -
    have "snap_ok s' \<and> cs_config s' = cs_config s \<and> (cs_Signers s' = cs_Signers s \<or>
      (\<exists>V. V \<subseteq> insert x (voters s3 ?a) \<and> V \<subseteq> cs_Signers s \<and> card V > card (cs_Signers s) div 2 \<and>
        cs_Signers s' = (if ?a \<in> cs_Signers s then cs_Signers s - {?a} else insert ?a (cs_Signers s))))"
      using applyVote_ok [OF s3(1) _ s3(4), of n b] x(2) unfolding b s3(2,3) by blast
    then show ?thesis unfolding majority_change_def using insert_mono [OF v [of ?a], of x] by (meson order_trans)
  qed
  then show ?thesis using r x by auto
qed

text \<open>The number and the configuration of a snapshot are not touched.\<close>

definition same_chain :: "CliqueSnapshot \<Rightarrow> CliqueSnapshot \<Rightarrow> bool" where
  "same_chain s s' \<longleftrightarrow> cs_Number s' = cs_Number s \<and> cs_config s' = cs_config s"

lemma uncast_chain: "same_chain t (fst (uncast s a b)) = same_chain t s"
  by (simp add: uncast_def same_chain_def split: option.split)

lemma discardVote_chain: "same_chain t (discardVote x a seen votes s) = same_chain t s"
proof (induction votes arbitrary: seen)
  case (Cons v votes)
  then show ?case using uncast_chain [of t s] by (simp add: same_chain_def)
qed simp

lemma discardVotesOf_chain: "same_chain t (discardVotesOf x seen votes s) = same_chain t s"
  by (induction votes arbitrary: seen s) (simp_all add: uncast_chain, simp add: same_chain_def)

lemma forgetRecent_chain: "same_chain t (forgetRecent n s) = same_chain t s"
  by (simp add: forgetRecent_def same_chain_def)

lemma passVote_chain: "same_chain t (passVote n a s) = same_chain t s"
proof -
  have "same_chain t (discardVotesOf a [] vs (forgetRecent n (s\<lparr>cs_Signers := S\<rparr>))) = same_chain t s" for S vs
    by (simp add: discardVotesOf_chain forgetRecent_chain) (simp add: same_chain_def)
  then show ?thesis by (simp add: passVote_def Let_def same_chain_def split: option.split)
qed

lemma applyVote_chain: "same_chain t (applyVote n x a b s) = same_chain t s"
  by (simp add: applyVote_def passVote_chain cast_def Let_def) (simp add: same_chain_def)

lemma applyHeader_chain: "applyHeader C header s = Ok (Inr s') \<Longrightarrow> same_chain s s'"
  by (auto simp: applyHeader_def Let_def outcome_simps applyVote_chain discardVote_chain forgetRecent_def
      split: if_splits sum.splits) (simp_all add: same_chain_def)

lemma applyHeaders_ok:
  "snap_ok s \<Longrightarrow> applyHeaders C headers s = Ok (Inr s') \<Longrightarrow> snap_ok s' \<and> same_chain s s'"
proof (induction headers arbitrary: s)
  case (Cons header headers)
  then obtain r where r: "applyHeader C header s = Ok r" by (cases "applyHeader C header s") simp_all
  with Cons.prems(2) obtain s1 where s1: "r = Inr s1" "applyHeaders C headers s1 = Ok (Inr s')" by (auto split: sum.splits)
  with applyHeader_ok [OF Cons.prems(1)] r have "snap_ok s1" by blast
  with Cons.IH s1 applyHeader_chain r show ?case by (metis same_chain_def)
qed (simp add: same_chain_def)

section \<open>Recent signers\<close>

lemma uncast_recents: "cs_Recents (fst (uncast s a b)) = cs_Recents s"
  by (simp add: uncast_def split: option.split)

lemma discardVote_recents: "cs_Recents (discardVote x a seen votes s) = cs_Recents s"
  by (induction votes arbitrary: seen) (simp_all add: uncast_recents)

lemma discardVotesOf_recents: "cs_Recents (discardVotesOf x seen votes s) = cs_Recents s"
  by (induction votes arbitrary: seen s) (simp_all add: uncast_recents)

lemma forgetRecent_now:
  assumes "card (cs_Signers s) < 2 ^ 63"
  shows "cs_Recents (forgetRecent n s) n = cs_Recents s n"
proof -
  define k where "k = card (cs_Signers s) div 2 + 1"
  have "0 < k" "k < 2 ^ 64" using assms by (simp_all add: k_def)
  then have "unat (of_nat k :: u64) \<noteq> 0" by (simp add: unsigned_of_nat take_bit_eq_mod)
  then have "recentLimit s \<noteq> 0" unfolding recentLimit_def k_def [symmetric] by (metis unsigned_0)
  then show ?thesis by (simp add: forgetRecent_def)
qed

lemma passVote_recents:
  assumes "finite (cs_Signers s)" "card (cs_Signers s) < 2 ^ 63"
  shows "cs_Recents (passVote n a s) n = cs_Recents s n"
proof -
  have "card (cs_Signers s - {a}) < 2 ^ 63" using assms card_Diff1_le [of "cs_Signers s" a] by linarith
  then have "cs_Recents (forgetRecent n (s\<lparr>cs_Signers := cs_Signers s - {a}\<rparr>)) n = cs_Recents s n"
    using forgetRecent_now [of "s\<lparr>cs_Signers := cs_Signers s - {a}\<rparr>" n] by simp
  then show ?thesis by (simp add: passVote_def Let_def discardVotesOf_recents split: option.split)
qed

lemma applyVote_recents:
  assumes "finite (cs_Signers s)" "card (cs_Signers s) < 2 ^ 63"
  shows "cs_Recents (applyVote n x a b s) n = cs_Recents s n"
proof -
  obtain s1 c where cs: "cast s a b = (s1, c)" by fastforce
  then have "cs_Signers s1 = cs_Signers s" "cs_Recents s1 = cs_Recents s"
    by (auto simp: cast_def Let_def split: if_splits)
  with assms show ?thesis by (simp add: applyVote_def cs passVote_recents)
qed

lemma discardVote_signers: "cs_Signers (discardVote x a seen votes s) = cs_Signers s"
  by (induction votes arbitrary: seen) (simp_all add: uncast_frame)

lemma applyHeader_recents:
  assumes fin: "finite (cs_Signers s)" "card (cs_Signers s) < 2 ^ 63"
    and a: "applyHeader C header s = Ok (Inr s')" "clique_ecrecover C header = Ok (Inr x)"
  shows "x \<notin> ran (cs_Recents (forgetRecent (big_Uint64 (hd_Number header)) s)) \<and> cs_Recents s' (big_Uint64 (hd_Number header)) = Some x"
proof -
  define n :: u64 where "n = big_Uint64 (hd_Number header)"
  have ep: "Epoch (cs_config s) \<noteq> 0" using a by (auto simp: applyHeader_def Let_def)
  define s0 where "s0 = (if n mod Epoch (cs_config s) = 0 then s\<lparr>cs_Votes := [], cs_Tally := (\<lambda>_. None)\<rparr> else s)"
  define s1 where "s1 = forgetRecent n s0"
  have s1: "cs_Signers s1 = cs_Signers s" "cs_Recents s1 = cs_Recents (forgetRecent n s)"
    by (simp_all add: s1_def s0_def forgetRecent_def recentLimit_def)
  define s3 where "s3 = discardVote x (hd_Coinbase header) [] (cs_Votes s1) (s1\<lparr>cs_Recents := (cs_Recents s1)(n \<mapsto> x)\<rparr>)"
  have e: "applyHeader C header s = (if x \<notin> cs_Signers s1 then Ok (Inl ErrUnauthorizedSigner)
      else if x \<in> ran (cs_Recents s1) then Ok (Inl ErrRecentlySigned)
      else if hd_Nonce header = nonceAuthVote then Ok (Inr (applyVote n x (hd_Coinbase header) True s3))
      else if hd_Nonce header = nonceDropVote then Ok (Inr (applyVote n x (hd_Coinbase header) False s3))
      else Ok (Inl ErrInvalidVote))"
    unfolding applyHeader_def Let_def n_def [symmetric] s0_def [symmetric] s1_def [symmetric] a(2) using ep by (simp add: s3_def)
  have "cs_Signers s3 = cs_Signers s" "cs_Recents s3 n = Some x"
    by (simp_all add: s3_def discardVote_signers discardVote_recents s1)
  then have "cs_Recents (applyVote n x (hd_Coinbase header) b s3) n = Some x" for b
    using applyVote_recents fin by simp
  then show ?thesis using a(1) e s1 by (auto simp: n_def [symmetric] split: if_splits)
qed

section \<open>Encoding headers\<close>

text \<open>Headers whose numbers fit into 256 bits and whose byte fields are of moderate length can be encoded, so their hashes exist.\<close>

definition header_fits :: "Header \<Rightarrow> bool" where
  "header_fits h \<longleftrightarrow> 0 \<le> hd_Difficulty h \<and> hd_Difficulty h < 2 ^ 256 \<and> 0 \<le> hd_Number h \<and> hd_Number h < 2 ^ 256 \<and>
     (case hd_BaseFee h of None \<Rightarrow> True | Some b \<Rightarrow> 0 \<le> b \<and> b < 2 ^ 256) \<and>
     length (hd_Bloom h) < 2 ^ 32 \<and> length (hd_Extra h) < 2 ^ 32 \<and> length (hd_Nonce h) < 2 ^ 32"

lemma length_big_bytes_256: "0 \<le> x \<Longrightarrow> x < 2 ^ 256 \<Longrightarrow> length (big_bytes x) \<le> 32"
proof -
  assume "0 \<le> x" "x < 2 ^ 256"
  then have "bit_len (nat \<bar>x\<bar>) \<le> 256" by (simp add: bit_len_le_iff nat_less_iff)
  then show ?thesis by (simp add: length_big_bytes)
qed

lemma Header_fields_fit:
  assumes "header_fits h"
  shows "list_all encodable (Header_fields h)" "length (concat (map rlp_enc (Header_fields h))) \<le> 2 ^ 40"
proof -
  show "list_all encodable (Header_fields h)"
    using assms by (simp add: Header_fields_def header_fits_def split: option.splits)
  define K :: nat where "K = 2 ^ 32"
  have k: "32 \<le> K" by (simp add: K_def)
  have n: "length (big_bytes x) \<le> K" if "0 \<le> x" "x < 2 ^ 256" for x
    using length_big_bytes_256 [OF that] k by linarith
  have w: "length (big_bytes (uint x)) \<le> K" for x :: u64
    by (rule n) (use uint_bounded [of x] in \<open>simp_all\<close>)
  have r: "length (rlp_string b) \<le> 9 + K" if "length b \<le> K" for b
    using length_rlp_string_le [of b] that by linarith
  have "list_all (\<lambda>v. length (rlp_enc v) \<le> 9 + K) (Header_fields h)"
    using assms k unfolding Header_fields_def header_fits_def K_def [symmetric]
    by (auto intro!: r w n split: option.splits)
  then have l: "length (rlp_enc v) \<le> 9 + 2 ^ 32" if "v \<in> set (Header_fields h)" for v
    using that by (auto simp: list_all_iff K_def)
  have "length (concat (map rlp_enc (Header_fields h))) \<le> length (Header_fields h) * (9 + 2 ^ 32)"
    by (rule length_concat_le) (rule l)
  moreover have "length (Header_fields h) \<le> 16" by (simp add: Header_fields_def split: option.split)
  then have "length (Header_fields h) * (9 + 2 ^ 32) \<le> 16 * (9 + 2 ^ 32)" by (rule mult_le_mono1)
  ultimately show "length (concat (map rlp_enc (Header_fields h))) \<le> 2 ^ 40" by simp
qed

lemma header_encodes:
  assumes "header_fits h"
  shows "\<exists>d. EncodeToBytes (VSlice (Header_fields h)) = Ok (Inr d)" "\<exists>d. EncodeToBytes (VStruct (Header_fields h)) = Ok (Inr d)"
proof -
  note f = Header_fields_fit [OF assms]
  have l: "length (rlp_list (concat (map rlp_enc (Header_fields h)))) < 2 ^ 64"
    using length_rlp_list_le [of "concat (map rlp_enc (Header_fields h))"] f(2) by simp
  have "EncodeToBytes v = Ok (Inr (rlp_enc v))" if "v \<in> {VSlice (Header_fields h), VStruct (Header_fields h)}" for v
    by (rule EncodeToBytes_eq) (use that f(1) l in auto)
  then show "\<exists>d. EncodeToBytes (VSlice (Header_fields h)) = Ok (Inr d)" "\<exists>d. EncodeToBytes (VStruct (Header_fields h)) = Ok (Inr d)"
    by blast+
qed

section \<open>An example\<close>

text \<open>A chain with one signer, whose first header proposes a second one.  In the signature scheme of the example the
  key is the signature.\<close>

definition cliqueCrypto :: crypto where
  "cliqueCrypto = exampleCrypto\<lparr>cr_Ecrecover := (\<lambda>_ sig. Inr sig)\<rparr>"

definition cliqueHeader :: Header where
  "cliqueHeader = exampleHeader\<lparr>hd_Number := 1, hd_Coinbase := 8, hd_Extra := replicate 65 0, hd_Nonce := nonceAuthVote\<rparr>"

definition cliqueGenesis :: CliqueSnapshot where
  "cliqueGenesis = newSnapshot \<lparr>Period = 15, Epoch = 30000\<rparr> 0 0 [0]"

lemma cliqueHeader_fits: "header_fits cliqueHeader" "header_fits (cliqueHeader\<lparr>hd_Extra := []\<rparr>)"
  by (simp_all add: header_fits_def cliqueHeader_def exampleHeader_def nonceAuthVote_def)

lemma example_signer: "clique_ecrecover cliqueCrypto cliqueHeader = Ok (Inr 0)"
proof -
  have k: "BytesToAddress (drop 12 (hash_Bytes 0)) = 0" by code_simp
  obtain d where d: "EncodeToBytes (VSlice (Header_fields (cliqueHeader\<lparr>hd_Extra := []\<rparr>))) = Ok (Inr d)"
    using header_encodes(1) [OF cliqueHeader_fits(2)] by blast
  have "length (hd_Extra cliqueHeader) = 65" "cr_keccak256 cliqueCrypto = (\<lambda>_. 0)" "cr_Ecrecover cliqueCrypto = (\<lambda>_ sig. Inr sig)"
    "hd_Extra cliqueHeader = 0 # replicate 64 0"
    by (simp_all add: cliqueHeader_def cliqueCrypto_def exampleCrypto_def replicate_Suc [symmetric] del: replicate_Suc)
  with d k show ?thesis by (simp add: clique_ecrecover_def SealHash_def)
qed

lemma example_vote:
  "\<exists>s. applyHeader cliqueCrypto cliqueHeader cliqueGenesis = Ok (Inr s) \<and> cs_Signers s = {0, 8}"
proof -
  have n: "hd_Nonce cliqueHeader = nonceAuthVote" "hd_Coinbase cliqueHeader = 8" "hd_Number cliqueHeader = 1"
    by (simp_all add: cliqueHeader_def)
  show ?thesis
    by (simp add: applyHeader_def Let_def example_signer n)
      (simp add: cliqueGenesis_def newSnapshot_def forgetRecent_def recentLimit_def applyVote_def cast_def validVote_def passVote_def insert_commute)
qed

lemma example_snapshot:
  "\<exists>s. snapshot_apply cliqueCrypto cliqueGenesis [cliqueHeader] = Ok (Inr s) \<and> cs_Signers s = {0, 8}"
proof -
  obtain s where "applyHeader cliqueCrypto cliqueHeader cliqueGenesis = Ok (Inr s)" "cs_Signers s = {0, 8}"
    using example_vote by blast
  moreover obtain d where "EncodeToBytes (VStruct (Header_fields cliqueHeader)) = Ok (Inr d)"
    using header_encodes(2) [OF cliqueHeader_fits(1)] by blast
  moreover have "hd_Number cliqueHeader = 1" "cs_Number cliqueGenesis = 0"
    by (simp_all add: cliqueHeader_def cliqueGenesis_def newSnapshot_def)
  ultimately show ?thesis by (simp add: snapshot_apply_def Header_Hash_def rlpHash_def big_Uint64_def)
qed

lemma cliqueGenesis_ok: "snap_ok cliqueGenesis" "card (cs_Signers cliqueGenesis) < 2 ^ 63"
  by (simp_all add: cliqueGenesis_def snap_ok_new) (simp add: newSnapshot_def)

section \<open>Properties\<close>

text \<open>C20. Applying headers to a consistent snapshot keeps it consistent (every pending vote is by a current signer and
  would change something, at most one per signer and account, and the cached tally counts the votes), advances its number by the
  number of headers, keeps the configuration, and starts from consistent genesis snapshots.\<close>

theorem snapshots_stay_consistent:
  assumes "snap_ok s" "snapshot_apply C s headers = Ok (Inr s')"
  shows "snap_ok s' \<and> cs_config s' = cs_config s \<and> cs_Number s' = cs_Number s + of_nat (length headers) \<and>
    snap_ok (newSnapshot config number hash signers)"
proof (cases "headers = []")
  case True
  then show ?thesis using assms snap_ok_new by (simp add: snapshot_apply_def)
next
  case False
  then obtain r where r: "applyHeaders C headers s = Ok r"
    using assms(2) by (auto simp: snapshot_apply_def outcome_simps split: if_splits)
  then obtain snap where a: "applyHeaders C headers s = Ok (Inr snap)"
    using assms(2) False by (cases r) (auto simp: snapshot_apply_def split: if_splits)
  then obtain h where s': "s' = snap\<lparr>cs_Number := cs_Number snap + of_nat (length headers), cs_Hash := h\<rparr>"
    using assms(2) False by (auto simp: snapshot_apply_def outcome_simps split: if_splits)
  then show ?thesis using applyHeaders_ok [OF assms(1) a] snap_ok_new by (simp add: snap_ok_def same_chain_def)
qed

theorem snapshots_stay_consistent_witness:
  "\<exists>s. snapshot_apply cliqueCrypto cliqueGenesis [cliqueHeader] = Ok (Inr s) \<and> cs_Signers s = {0, 8} \<and>
     snap_ok cliqueGenesis \<and> snap_ok s \<and> cs_Number s = 1"
proof -
  obtain s where s: "snapshot_apply cliqueCrypto cliqueGenesis [cliqueHeader] = Ok (Inr s)" "cs_Signers s = {0, 8}"
    using example_snapshot by blast
  with snapshots_stay_consistent [OF cliqueGenesis_ok(1) s(1)] cliqueGenesis_ok(1) show ?thesis
    by (auto simp: cliqueGenesis_def newSnapshot_def)
qed

text \<open>C9. A header changes the signers only by a majority: it must be sealed by a current signer who did not seal one of
  the recent blocks and who is recorded as the sealer of this one, and the signers stay as they are unless more than half of
  them, each with a vote pending on the header's beneficiary or cast by this header, agree; then exactly the beneficiary is added or removed.\<close>

theorem signers_change_by_majority:
  assumes "snap_ok s" "card (cs_Signers s) < 2 ^ 63" "applyHeader C header s = Ok (Inr s')"
  shows "\<exists>signer. clique_ecrecover C header = Ok (Inr signer) \<and> signer \<in> cs_Signers s \<and>
    signer \<notin> ran (cs_Recents (forgetRecent (big_Uint64 (hd_Number header)) s)) \<and>
    cs_Recents s' (big_Uint64 (hd_Number header)) = Some signer \<and>
    majority_change s signer (hd_Coinbase header) s'"
proof -
  have "finite (cs_Signers s)" using assms(1) by (simp add: snap_ok_def)
  with applyHeader_ok [OF assms(1,3)] applyHeader_recents [OF _ assms(2,3)] show ?thesis by blast
qed

theorem signers_change_by_majority_witness:
  "\<exists>s. applyHeader cliqueCrypto cliqueHeader cliqueGenesis = Ok (Inr s) \<and> cs_Signers s = {0, 8} \<and>
     snap_ok cliqueGenesis \<and> card (cs_Signers cliqueGenesis) < 2 ^ 63 \<and> cs_Recents s 1 = Some 0 \<and> majority_change cliqueGenesis 0 8 s"
proof -
  obtain s where s: "applyHeader cliqueCrypto cliqueHeader cliqueGenesis = Ok (Inr s)" "cs_Signers s = {0, 8}"
    using example_vote by blast
  from signers_change_by_majority [OF cliqueGenesis_ok s(1)] example_signer
  have "cs_Recents s 1 = Some 0 \<and> majority_change cliqueGenesis 0 8 s" by (simp add: cliqueHeader_def big_Uint64_def)
  with s cliqueGenesis_ok show ?thesis by blast
qed

end
