(* ===== verification/TrieEncoding.thy ===== *)
theory TrieEncoding
  imports Prelude
begin

text \<open>
  The three encodings of trie keys (\<open>trie/encoding.go\<close>): key bytes, one byte per nibble with an optional terminator (HEX),
  and the hex-prefix form stored on disk (COMPACT).  The conversions between them are inverse to each other, and the in-place
  variant computes what the allocating one returns.
\<close>

unbundle bit_operations_syntax

section \<open>Conversions\<close>

definition hasTerm :: "bytes \<Rightarrow> bool" where
  "hasTerm s \<longleftrightarrow> 0 < length s \<and> s ! (length s - 1) = 16"

text \<open>Writing pairs of nibbles into a buffer; an odd number of nibbles and a short buffer are index errors.\<close>

fun decodeNibbles :: "bytes \<Rightarrow> bytes \<Rightarrow> bytes outcome" where
  "decodeNibbles [] buf = Ok buf"
| "decodeNibbles [_] buf = Panic"
| "decodeNibbles (a # b # nibbles) [] = Panic"
| "decodeNibbles (a # b # nibbles) (_ # buf) =
     bnd (decodeNibbles nibbles buf) (\<lambda>rest. Ok ((push_bit 4 a OR b) # rest))"

definition hexToCompact :: "bytes \<Rightarrow> bytes outcome" where
  "hexToCompact hex =
     (let terminator = (if hasTerm hex then 1 else 0 :: byte);
          hex = (if hasTerm hex then take (length hex - 1) hex else hex);
          buf = replicate (length hex div 2 + 1) 0;
          flag = push_bit 5 terminator
      in if odd (length hex)
         then bnd (decodeNibbles (tl hex) (tl buf)) (\<lambda>rest. Ok ((flag OR push_bit 4 1 OR hd hex) # rest))
         else bnd (decodeNibbles hex (tl buf)) (\<lambda>rest. Ok (flag # rest)))"

text \<open>The loop over the nibbles that writes the compact key over the hex key.\<close>

function compactLoop :: "nat \<Rightarrow> nat \<Rightarrow> nat \<Rightarrow> bytes \<Rightarrow> bytes outcome" where
  "compactLoop hexLen bi ni hex =
     (if ni < hexLen then
        bnd (go_index hex (int ni)) (\<lambda>a.
        bnd (go_index hex (int ni + 1)) (\<lambda>b.
          if bi < length hex then compactLoop hexLen (bi + 1) (ni + 2) (hex[bi := push_bit 4 a OR b]) else Panic))
      else Ok hex)"
  by pat_completeness auto
termination by (relation "measure (\<lambda>(hexLen, bi, ni, hex). hexLen - ni)") auto

declare compactLoop.simps [simp del]

definition hexToCompactInPlace :: "bytes \<Rightarrow> (bytes \<times> nat) outcome" where
  "hexToCompactInPlace hex =
     (let terminated = (0 < length hex \<and> hex ! (length hex - 1) = 16);
          firstByte = (if terminated then push_bit 5 1 else 0 :: byte);
          hexLen = (if terminated then length hex - 1 else length hex);
          binLen = hexLen div 2 + 1;
          firstByte = (if odd hexLen then firstByte OR push_bit 4 1 OR hex ! 0 else firstByte);
          ni = (if odd hexLen then 1 else 0)
      in bnd (compactLoop hexLen 1 ni hex) (\<lambda>hex.
           if hex = [] then Panic else Ok (hex[0 := firstByte], binLen)))"

definition keybytesToHex :: "bytes \<Rightarrow> bytes" where
  "keybytesToHex str = concat (map (\<lambda>b. [b div 16, b mod 16]) str) @ [16]"

definition compactToHex :: "bytes \<Rightarrow> bytes" where
  "compactToHex compact =
     (if compact = [] then compact
      else
        let base = keybytesToHex compact;
            base = (if base ! 0 < 2 then take (length base - 1) base else base);
            chop = 2 - (base ! 0 AND 1)
        in drop (unat chop) base)"

definition hexToKeybytes :: "bytes \<Rightarrow> bytes outcome" where
  "hexToKeybytes hex =
     (let hex = (if hasTerm hex then take (length hex - 1) hex else hex)
      in if odd (length hex) then Panic else decodeNibbles hex (replicate (length hex div 2) 0))"

fun prefixLen :: "bytes \<Rightarrow> bytes \<Rightarrow> nat" where
  "prefixLen (x # a) (y # b) = (if x \<noteq> y then 0 else Suc (prefixLen a b))"
| "prefixLen _ _ = 0"

section \<open>Nibbles\<close>

definition nibbles :: "bytes \<Rightarrow> bool" where
  "nibbles ns \<longleftrightarrow> (\<forall>n \<in> set ns. n < 16)"

lemma nibbles_simps [simp]:
  "nibbles []" "nibbles (n # ns) \<longleftrightarrow> n < 16 \<and> nibbles ns" "nibbles (ns @ ms) \<longleftrightarrow> nibbles ns \<and> nibbles ms"
  by (auto simp: nibbles_def)

lemma nibble_take: "n < 16 \<longleftrightarrow> take_bit 4 n = n" for n :: byte
proof -
  have "unat (take_bit 4 n) = unat n mod 16" by (simp add: unat_mod take_bit_eq_mod)
  moreover have "n < 16 \<longleftrightarrow> unat n < 16" by (simp add: word_less_nat_alt)
  ultimately show ?thesis by (metis mod_less mod_less_divisor unsigned_word_eqI zero_less_numeral)
qed

lemma byte_div_mod: "b div 16 = drop_bit 4 b" "b mod 16 = take_bit 4 b" for b :: byte
  by (simp_all add: drop_bit_eq_div take_bit_eq_mod)

lemma nibble_pair:
  assumes "a < 16" "b < (16 :: byte)"
  shows "(push_bit 4 a OR b) div 16 = a" "(push_bit 4 a OR b) mod 16 = b"
proof -
  have a: "n < 4" if "bit a n" for n using assms(1) that unfolding nibble_take by (metis bit_take_bit_iff)
  have b: "n < 4" if "bit b n" for n using assms(2) that unfolding nibble_take by (metis bit_take_bit_iff)
  show "(push_bit 4 a OR b) div 16 = a" unfolding byte_div_mod
    by (rule bit_word_eqI) (use a in \<open>auto simp: bit_simps dest: a b\<close>)
  show "(push_bit 4 a OR b) mod 16 = b" unfolding byte_div_mod
    by (rule bit_word_eqI) (use a b in \<open>auto simp: bit_simps\<close>)
qed

lemma nibbles_of_byte: "b div 16 < 16" "b mod 16 < 16" "push_bit 4 (b div 16) OR b mod 16 = b" for b :: byte
proof -
  show "push_bit 4 (b div 16) OR b mod 16 = b" unfolding byte_div_mod
    by (rule bit_word_eqI) (auto simp: bit_simps)
  have "take_bit 4 (drop_bit 4 b) = drop_bit 4 b" by (rule bit_word_eqI) (auto simp: bit_simps dest: bit_imp_le_length)
  then show "b div 16 < 16" by (simp add: nibble_take byte_div_mod)
  show "b mod 16 < 16" by (simp add: nibble_take byte_div_mod)
qed

section \<open>Round trips\<close>

abbreviation unpack :: "bytes \<Rightarrow> bytes" where
  "unpack bs \<equiv> concat (map (\<lambda>b. [b div 16, b mod 16]) bs)"

abbreviation terminated :: "bytes \<Rightarrow> bool \<Rightarrow> bytes" where
  "terminated ns t \<equiv> ns @ (if t then [16] else [])"

lemma length_unpack [simp]: "length (unpack bs) = 2 * length bs"
  by (induction bs) simp_all

lemma nibbles_unpack: "nibbles (unpack bs)"
  by (induction bs) (simp_all add: nibbles_of_byte)

lemma decodeNibbles_unpack: "length buf = length bs \<Longrightarrow> decodeNibbles (unpack bs) buf = Ok bs"
  by (induction bs arbitrary: buf) (auto simp: nibbles_of_byte length_Suc_conv)

lemma decodeNibbles_ok:
  assumes "nibbles ns" "length ns = 2 * length buf"
  shows "\<exists>bs. decodeNibbles ns buf = Ok bs \<and> unpack bs = ns \<and> length bs = length buf"
  using assms
proof (induction ns buf rule: decodeNibbles.induct)
  case (4 a b ns x buf)
  then obtain bs where "decodeNibbles ns buf = Ok bs" "unpack bs = ns" "length bs = length buf" by auto
  with 4(2) show ?case by (intro exI [of _ "(push_bit 4 a OR b) # bs"]) (simp add: nibble_pair)
qed simp_all

lemma hasTerm_nibbles: "nibbles ns \<Longrightarrow> hasTerm (terminated ns t) \<longleftrightarrow> t"
  by (cases ns rule: rev_cases) (auto simp: hasTerm_def nth_append nibbles_def)

lemma strip_terminated: "nibbles ns \<Longrightarrow>
    (if hasTerm (terminated ns t) then take (length (terminated ns t) - 1) (terminated ns t) else terminated ns t) = ns"
  by (simp add: hasTerm_nibbles del: split_paired_All)

text \<open>The first byte of a compact key.\<close>

lemma flag_even: "push_bit 5 (if t then 1 else 0 :: byte) = push_bit 4 (if t then 2 else 0) OR 0"
  by simp

lemma flag_odd: "push_bit 5 (if t then 1 else 0 :: byte) OR push_bit 4 1 OR n = push_bit 4 (if t then 3 else 1) OR n"
proof -
  have "push_bit 5 (if t then 1 else 0 :: byte) OR push_bit 4 1 = push_bit 4 (if t then 3 else 1)" by (cases t) simp_all
  from arg_cong [OF this, of "\<lambda>x. x OR n"] show ?thesis by (simp only: or.assoc)
qed

lemma hexToCompact_spec:
  assumes "nibbles ns"
  shows "\<exists>bs. hexToCompact (terminated ns t) = Ok ((push_bit 4 (if t then (if odd (length ns) then 3 else 2) else if odd (length ns) then 1 else 0)
       OR (if odd (length ns) then hd ns else 0)) # bs) \<and> unpack bs = (if odd (length ns) then tl ns else ns)"
proof -
  let ?ms = "if odd (length ns) then tl ns else ns"
  have "length ?ms = 2 * (length ns div 2)" by (auto elim: oddE)
  moreover have "nibbles ?ms" using assms by (cases ns) auto
  ultimately obtain bs where "decodeNibbles ?ms (replicate (length ns div 2) 0) = Ok bs" "unpack bs = ?ms"
    using decodeNibbles_ok [of ?ms "replicate (length ns div 2) 0"] by auto
  then show ?thesis
    unfolding hexToCompact_def Let_def strip_terminated [OF assms] hasTerm_nibbles [OF assms] flag_odd
    by (auto simp: flag_even split: if_splits)
qed

lemma compactToHex_flag:
  assumes "f < 4" "n < 16"
  shows "compactToHex ((push_bit 4 f OR n) # bs) =
    (if odd (unat f) then [n] else []) @ unpack bs @ (if f < 2 then [] else [16])"
proof -
  have "unat f < 4" using assms(1) by (simp add: word_less_nat_alt)
  then have "unat f \<in> {0, 1, 2, 3}" by auto
  then have "of_nat (unat f) \<in> {0, 1, 2, 3 :: byte}" by fastforce
  then have "f \<in> {0, 1, 2, 3}" by simp
  moreover have "f < 16" using assms(1) by (simp add: word_less_nat_alt)
  ultimately show ?thesis using assms(2)
    by (auto simp: compactToHex_def keybytesToHex_def nibble_pair Let_def)
qed

lemma hexToKeybytes_inverse: "hexToKeybytes (keybytesToHex key) = Ok key"
proof -
  have "keybytesToHex key = terminated (unpack key) True" by (simp add: keybytesToHex_def)
  moreover have "hasTerm (unpack key @ [16])" using hasTerm_nibbles [OF nibbles_unpack, of key True] by simp
  ultimately show ?thesis by (simp add: hexToKeybytes_def decodeNibbles_unpack)
qed

lemma keybytesToHex_inj: "inj keybytesToHex"
  by (rule injI) (metis hexToKeybytes_inverse outcome.inject)

lemma length_keybytesToHex: "length (keybytesToHex key) = 2 * length key + 1"
  by (simp add: keybytesToHex_def)

text \<open>C35. The key encodings are inverse to each other: converting a key of nibbles, with or without terminator, into the
  compact form and back gives the key; converting key bytes to nibbles and back gives the bytes; and a nibble key is the
  image of key bytes exactly when its length is even.\<close>

theorem key_encodings_roundtrip:
  assumes "nibbles ns"
  shows "(\<exists>c. hexToCompact (terminated ns t) = Ok c \<and> compactToHex c = terminated ns t) \<and>
    hexToKeybytes (keybytesToHex key) = Ok key \<and>
    (if even (length ns) then \<exists>k. hexToKeybytes (terminated ns t) = Ok k \<and> keybytesToHex k = terminated ns True
     else hexToKeybytes (terminated ns t) = Panic)"
proof (intro conjI)
  let ?f = "if t then (if odd (length ns) then 3 else 2) else if odd (length ns) then 1 else 0 :: byte"
    and ?n = "if odd (length ns) then hd ns else 0"
  obtain bs where c: "hexToCompact (terminated ns t) = Ok ((push_bit 4 ?f OR ?n) # bs)" "unpack bs = (if odd (length ns) then tl ns else ns)"
    using hexToCompact_spec [OF assms] by blast
  have f: "?f < 4" by simp
  have n: "?n < 16" using assms by (cases ns) simp_all
  have "compactToHex ((push_bit 4 ?f OR ?n) # bs) = terminated ns t"
    unfolding compactToHex_flag [OF f n] c(2) by (cases ns) simp_all
  with c(1) show "\<exists>c. hexToCompact (terminated ns t) = Ok c \<and> compactToHex c = terminated ns t" by blast
  show "hexToKeybytes (keybytesToHex key) = Ok key" by (rule hexToKeybytes_inverse)
  show "if even (length ns) then \<exists>k. hexToKeybytes (terminated ns t) = Ok k \<and> keybytesToHex k = terminated ns True
     else hexToKeybytes (terminated ns t) = Panic"
  proof (cases "even (length ns)")
    case True
    then obtain k where "decodeNibbles ns (replicate (length ns div 2) 0) = Ok k" "unpack k = ns"
      using decodeNibbles_ok [OF assms, of "replicate (length ns div 2) 0"] by auto
    then show ?thesis using True unfolding hexToKeybytes_def Let_def strip_terminated [OF assms] keybytesToHex_def by simp
  qed (simp add: hexToKeybytes_def Let_def strip_terminated [OF assms])
qed

theorem key_encodings_roundtrip_witness:
  "nibbles [1, 2, 3, 15] \<and> hexToCompact [1, 2, 3, 15, 16] = Ok [0x20, 0x12, 0x3f] \<and>
   compactToHex [0x20, 0x12, 0x3f] = [1, 2, 3, 15, 16] \<and> hexToKeybytes [1, 2, 3, 15, 16] = Ok [0x12, 0x3f]"
proof -
  have "hexToCompact [1, 2, 3, 15, 16] = Ok [0x20, 0x12, 0x3f]" "hexToKeybytes [1, 2, 3, 15, 16] = Ok [0x12, 0x3f]" by code_simp+
  then show ?thesis using key_encodings_roundtrip [of "[1, 2, 3, 15]" True "[]"] by simp
qed

section \<open>The conversion in place\<close>

lemma compactLoop_eq:
  assumes "bi \<le> ni + 1" "even (hexLen - ni)" "ni \<le> hexLen" "hexLen \<le> length hex"
  shows "\<exists>buf. compactLoop hexLen bi ni hex = Ok buf \<and> length buf = length hex \<and> take bi buf = take bi hex \<and>
    (\<forall>dst. length dst = (hexLen - ni) div 2 \<longrightarrow>
       decodeNibbles (slice hex ni hexLen) dst = Ok (take ((hexLen - ni) div 2) (drop bi buf)))"
  using assms
proof (induction hexLen bi ni hex rule: compactLoop.induct)
  case (1 hexLen bi ni hex)
  show ?case
  proof (cases "ni < hexLen")
    case True
    have "ni + 1 \<noteq> hexLen" using 1(3) True by auto
    then have lt: "ni + 2 \<le> hexLen" using True by simp
    define a where "a = hex ! ni"
    define b where "b = hex ! (ni + 1)"
    define hex' where "hex' = hex[bi := push_bit 4 a OR b]"
    have i: "go_index hex (int ni) = Ok a" "go_index hex (int ni + 1) = Ok b"
      using lt 1(5) by (simp_all add: a_def b_def nat_add_distrib)
    have bi: "bi < length hex" using 1(2,5) lt by linarith
    have e: "compactLoop hexLen bi ni hex = compactLoop hexLen (bi + 1) (ni + 2) hex'"
      using True i bi by (subst compactLoop.simps) (simp add: hex'_def)
    obtain buf where buf: "compactLoop hexLen (bi + 1) (ni + 2) hex' = Ok buf" "length buf = length hex'" "take (bi + 1) buf = take (bi + 1) hex'"
      "\<And>dst. length dst = (hexLen - (ni + 2)) div 2 \<Longrightarrow>
         decodeNibbles (slice hex' (ni + 2) hexLen) dst = Ok (take ((hexLen - (ni + 2)) div 2) (drop (bi + 1) buf))"
      using 1(1) [OF True, of a b] i bi 1(2-5) lt by (auto simp: hex'_def a_def b_def)
    have len: "length buf = length hex" using buf(2) by (simp add: hex'_def)
    have k: "(hexLen - ni) div 2 = Suc ((hexLen - (ni + 2)) div 2)" using lt by simp
    have s1: "slice hex ni hexLen = a # b # slice hex (ni + 2) hexLen"
    proof -
      have "drop ni hex = a # b # drop (ni + 2) hex" using lt 1(5) by (simp add: a_def b_def Cons_nth_drop_Suc)
      moreover have "hexLen - ni = Suc (Suc (hexLen - (ni + 2)))" using lt by simp
      ultimately show ?thesis by (simp add: slice_def)
    qed
    have s2: "slice hex' (ni + 2) hexLen = slice hex (ni + 2) hexLen" using 1(2) by (simp add: slice_def hex'_def)
    have "buf ! bi = take (bi + 1) buf ! bi" by simp
    also have "\<dots> = push_bit 4 a OR b" unfolding buf(3) using bi by (simp add: hex'_def)
    finally have d: "drop bi buf = (push_bit 4 a OR b) # drop (bi + 1) buf"
      using bi len by (simp add: Cons_nth_drop_Suc [symmetric])
    have "take bi buf = take bi hex" using arg_cong [OF buf(3), of "take bi"] by (simp add: hex'_def)
    moreover have "decodeNibbles (slice hex ni hexLen) dst = Ok (take ((hexLen - ni) div 2) (drop bi buf))"
      if ld: "length dst = (hexLen - ni) div 2" for dst
    proof -
      obtain x dst' where x: "dst = x # dst'" "length dst' = (hexLen - (ni + 2)) div 2" using ld k by (cases dst) simp_all
      show ?thesis unfolding s1 x(1) d k using buf(4) [OF x(2)] unfolding s2 by simp
    qed
    ultimately show ?thesis unfolding e using buf(1) len by auto
  next
    case False
    then show ?thesis using 1(4) by (simp add: slice_def compactLoop.simps)
  qed
qed

text \<open>C36. Writing the compact key over the hex key gives, for every non-empty key, the bytes that the allocating conversion
  returns, in a prefix of the buffer of the returned length; on the empty key it panics.\<close>

theorem compact_in_place_agrees:
  "if hex = [] then hexToCompactInPlace hex = Panic
   else \<exists>buf n. hexToCompactInPlace hex = Ok (buf, n) \<and> length buf = length hex \<and> n \<le> length hex \<and> hexToCompact hex = Ok (take n buf)"
proof (cases "hex = []")
  case False
  define t where "t = hasTerm hex"
  define l where "l = (if t then length hex - 1 else length hex)"
  define ni :: nat where "ni = (if odd l then 1 else 0)"
  define ms where "ms = slice hex ni l"
  have l: "l \<le> length hex" "ni \<le> l" "even (l - ni)" "(l - ni) div 2 = l div 2"
  proof -
    show "l \<le> length hex" by (simp add: l_def)
    show "ni \<le> l" "even (l - ni)" "(l - ni) div 2 = l div 2" unfolding ni_def by (auto elim: oddE)
  qed
  obtain buf where buf: "compactLoop l 1 ni hex = Ok buf" "length buf = length hex" "take 1 buf = take 1 hex"
    "\<And>dst. length dst = (l - ni) div 2 \<Longrightarrow> decodeNibbles (slice hex ni l) dst = Ok (take ((l - ni) div 2) (drop 1 buf))"
    using compactLoop_eq [of 1 ni l hex] l by auto
  define fb where "fb = (if odd l then push_bit 5 (if t then 1 else 0 :: byte) OR push_bit 4 1 OR hex ! 0 else push_bit 5 (if t then 1 else 0))"
  have "hexToCompactInPlace hex = Ok (buf[0 := fb], l div 2 + 1)"
  proof -
    have "buf \<noteq> []" using buf(2) False by auto
    moreover have tt: "(0 < length hex \<and> hex ! (length hex - 1) = 16) = t" by (simp add: t_def hasTerm_def)
    have "hexToCompactInPlace hex = bnd (compactLoop l 1 ni hex) (\<lambda>hex. if hex = [] then Panic else Ok (hex[0 := fb], l div 2 + 1))"
      unfolding hexToCompactInPlace_def Let_def tt l_def [symmetric] ni_def [symmetric] fb_def by (cases t) (simp_all cong: if_cong)
    ultimately show ?thesis unfolding buf(1) by simp
  qed
  moreover have "hexToCompact hex = Ok (take (l div 2 + 1) (buf[0 := fb]))"
  proof -
    have h: "(if t then take (length hex - 1) hex else hex) = take l hex" by (simp add: l_def)
    have m: "slice hex ni l = (if odd l then tl (take l hex) else take l hex)" by (cases hex; cases l) (simp_all add: slice_def ni_def)
    have "take (l div 2 + 1) (buf[0 := fb]) = fb # take (l div 2) (drop 1 buf)"
      using buf(2) False by (cases buf) simp_all
    moreover have "decodeNibbles (slice hex ni l) (replicate (l div 2) 0) = Ok (take (l div 2) (drop 1 buf))"
      using buf(4) [of "replicate (l div 2) 0"] l(4) by simp
    moreover have "odd l \<Longrightarrow> hd (take l hex) = hex ! 0" using False by (cases hex) (auto dest: odd_pos)
    ultimately show ?thesis using l(1) m
      unfolding hexToCompact_def Let_def t_def [symmetric] h by (cases "odd l") (simp_all add: fb_def min_absorb2)
  qed
  moreover have "l div 2 + 1 \<le> length hex" using l(1) False by (cases hex) (auto simp: l_def)
  ultimately show ?thesis using buf(2) False by auto
qed (simp add: hexToCompactInPlace_def compactLoop.simps)

end
