(* ===== verification/Trie.thy ===== *)
theory Trie
  imports TrieEncoding Common
begin

text \<open>
  The Merkle Patricia trie (\<open>trie/trie.go\<close>, \<open>trie/node.go\<close>): lookup, insertion and deletion on nodes that are partly in
  memory and partly referenced by their hash.  The node database is the argument \<open>nodes\<close>, which returns the decoded node of a hash
  (the nil node when it is unknown).  Following a chain of references may not end in an arbitrary database, so the recursive
  functions carry fuel; on the tries that represent a map twice the length of the key and a bit is always enough.
\<close>

section \<open>Nodes\<close>

record nodeFlag =
  nf_hash :: "bytes option"
  nf_dirty :: bool

text \<open>The nil interface value is a node of its own; a full node has seventeen children.\<close>

datatype node =
    NilNode
  | FullNode (Children: "node list") (flags: nodeFlag)
  | ShortNode (Key: bytes) (Val: node) (flags: nodeFlag)
  | HashNode bytes
  | ValueNode bytes

datatype trieError = MissingNodeError hash bytes

record Trie =
  t_root :: node
  t_unhashed :: int

definition newFlag :: nodeFlag where
  "newFlag = \<lparr>nf_hash = None, nf_dirty = True\<rparr>"

type_synonym nodeReader = "hash \<Rightarrow> node outcome"

definition resolveHash :: "nodeReader \<Rightarrow> bytes \<Rightarrow> bytes \<Rightarrow> (trieError + node) outcome" where
  "resolveHash nodes n prefix =
     bnd (nodes (BytesToHash n)) (\<lambda>node.
       if node \<noteq> NilNode then Ok (Inr node) else Ok (Inl (MissingNodeError (BytesToHash n) prefix)))"

definition resolve :: "nodeReader \<Rightarrow> node \<Rightarrow> bytes \<Rightarrow> (trieError + node) outcome" where
  "resolve nodes n prefix = (case n of HashNode h \<Rightarrow> resolveHash nodes h prefix | _ \<Rightarrow> Ok (Inr n))"

text \<open>Indexing the array of seventeen children by a nibble of the key.\<close>

definition childAt :: "node list \<Rightarrow> byte \<Rightarrow> node outcome" where
  "childAt children i = go_index children (int (unat i))"

section \<open>Lookup\<close>

fun tryGet :: "nodeReader \<Rightarrow> nat \<Rightarrow> node \<Rightarrow> bytes \<Rightarrow> nat \<Rightarrow> (bytes option \<times> node \<times> bool \<times> trieError option) outcome" where
  "tryGet nodes 0 n key pos = NoFuel"
| "tryGet nodes (Suc fuel) NilNode key pos = Ok (None, NilNode, False, None)"
| "tryGet nodes (Suc fuel) (ValueNode v) key pos = Ok (Some v, ValueNode v, False, None)"
| "tryGet nodes (Suc fuel) (ShortNode k val f) key pos =
     (if length key < pos + length k \<or> k \<noteq> slice key pos (pos + length k) then Ok (None, ShortNode k val f, False, None)
      else
        bnd (tryGet nodes fuel val key (pos + length k)) (\<lambda>(value, newnode, didResolve, err).
          Ok (value, if err = None \<and> didResolve then ShortNode k newnode f else ShortNode k val f, didResolve, err)))"
| "tryGet nodes (Suc fuel) (FullNode children f) key pos =
     bnd (go_index key (int pos)) (\<lambda>i.
     bnd (childAt children i) (\<lambda>child.
     bnd (tryGet nodes fuel child key (pos + 1)) (\<lambda>(value, newnode, didResolve, err).
       Ok (value, if err = None \<and> didResolve then FullNode (children[unat i := newnode]) f else FullNode children f, didResolve, err))))"
| "tryGet nodes (Suc fuel) (HashNode n) key pos =
     bnd (resolveHash nodes n (take pos key)) (\<lambda>r.
       case r of
         Inl err \<Rightarrow> Ok (None, HashNode n, True, Some err)
       | Inr child \<Rightarrow>
           bnd (tryGet nodes fuel child key pos) (\<lambda>(value, newnode, _, err). Ok (value, newnode, True, err)))"

definition Trie_TryGet :: "nodeReader \<Rightarrow> nat \<Rightarrow> Trie \<Rightarrow> bytes \<Rightarrow> (Trie \<times> bytes option \<times> trieError option) outcome" where
  "Trie_TryGet nodes fuel t key =
     bnd (tryGet nodes fuel (t_root t) (keybytesToHex key) 0) (\<lambda>(value, newroot, didResolve, err).
       Ok (if err = None \<and> didResolve then t\<lparr>t_root := newroot\<rparr> else t, value, err))"

section \<open>Insertion\<close>

fun insert_node :: "nodeReader \<Rightarrow> nat \<Rightarrow> node \<Rightarrow> bytes \<Rightarrow> bytes \<Rightarrow> node \<Rightarrow> (bool \<times> node \<times> trieError option) outcome" where
  "insert_node nodes 0 n prefix key val = NoFuel"
| "insert_node nodes (Suc fuel) n prefix [] val =
     (case n of
        ValueNode v \<Rightarrow> (case val of ValueNode w \<Rightarrow> Ok (v \<noteq> w, val, None) | _ \<Rightarrow> Panic)
      | _ \<Rightarrow> Ok (True, val, None))"
| "insert_node nodes (Suc fuel) (ShortNode k v f) prefix (x # xs) val =
     (let key = x # xs; matchlen = prefixLen key k
      in if matchlen = length k then
           bnd (insert_node nodes fuel v (prefix @ take matchlen key) (drop matchlen key) val) (\<lambda>(dirty, nn, err).
             if \<not> dirty \<or> err \<noteq> None then Ok (False, ShortNode k v f, err)
             else Ok (True, ShortNode k nn newFlag, None))
         else
           bnd (insert_node nodes fuel NilNode (prefix @ take (matchlen + 1) k) (drop (matchlen + 1) k) v) (\<lambda>(_, c1, err).
           if 16 < k ! matchlen then Panic
           else if err \<noteq> None then Ok (False, NilNode, err)
           else
             bnd (go_index key (int matchlen)) (\<lambda>i.
             bnd (insert_node nodes fuel NilNode (prefix @ take (matchlen + 1) key) (drop (matchlen + 1) key) val) (\<lambda>(_, c2, err).
               if 16 < i then Panic
               else if err \<noteq> None then Ok (False, NilNode, err)
               else
                 let branch = FullNode ((replicate 17 NilNode)[unat (k ! matchlen) := c1, unat i := c2]) newFlag
                 in if matchlen = 0 then Ok (True, branch, None)
                    else Ok (True, ShortNode (take matchlen key) branch newFlag, None)))))"
| "insert_node nodes (Suc fuel) (FullNode children f) prefix (x # xs) val =
     bnd (childAt children x) (\<lambda>child.
     bnd (insert_node nodes fuel child (prefix @ [x]) xs val) (\<lambda>(dirty, nn, err).
       if \<not> dirty \<or> err \<noteq> None then Ok (False, FullNode children f, err)
       else Ok (True, FullNode (children[unat x := nn]) newFlag, None)))"
| "insert_node nodes (Suc fuel) NilNode prefix (x # xs) val = Ok (True, ShortNode (x # xs) val newFlag, None)"
| "insert_node nodes (Suc fuel) (HashNode n) prefix (x # xs) val =
     bnd (resolveHash nodes n prefix) (\<lambda>r.
       case r of
         Inl err \<Rightarrow> Ok (False, NilNode, Some err)
       | Inr rn \<Rightarrow>
           bnd (insert_node nodes fuel rn prefix (x # xs) val) (\<lambda>(dirty, nn, err).
             if \<not> dirty \<or> err \<noteq> None then Ok (False, rn, err) else Ok (True, nn, None)))"
| "insert_node nodes (Suc fuel) (ValueNode v) prefix (x # xs) val = Panic"

section \<open>Deletion\<close>

text \<open>The index of the only child that is not nil, \<open>-2\<close> if there are several, \<open>-1\<close> if there is none.\<close>

primrec onlyChild :: "node list \<Rightarrow> nat \<Rightarrow> int \<Rightarrow> int" where
  "onlyChild [] i pos = pos"
| "onlyChild (cld # children) i pos =
     (if cld \<noteq> NilNode then if pos = -1 then onlyChild children (i + 1) (int i) else -2
      else onlyChild children (i + 1) pos)"

text \<open>A full node that lost a child is reduced to a short node when a single child is left.\<close>

definition reduceFull :: "nodeReader \<Rightarrow> bytes \<Rightarrow> node list \<Rightarrow> (bool \<times> node \<times> trieError option) outcome" where
  "reduceFull nodes prefix children =
     (let pos = onlyChild children 0 (-1)
      in if pos \<ge> 0 then
           let child = children ! nat pos; short = ShortNode [of_int pos] child newFlag
           in if pos \<noteq> 16 then
                bnd (resolve nodes child prefix) (\<lambda>r.
                  case r of
                    Inl err \<Rightarrow> Ok (False, NilNode, Some err)
                  | Inr (ShortNode k v _) \<Rightarrow> Ok (True, ShortNode (of_int pos # k) v newFlag, None)
                  | Inr _ \<Rightarrow> Ok (True, short, None))
              else Ok (True, short, None)
         else Ok (True, FullNode children newFlag, None))"

fun delete_node :: "nodeReader \<Rightarrow> nat \<Rightarrow> node \<Rightarrow> bytes \<Rightarrow> bytes \<Rightarrow> (bool \<times> node \<times> trieError option) outcome" where
  "delete_node nodes 0 n prefix key = NoFuel"
| "delete_node nodes (Suc fuel) (ShortNode k v f) prefix key =
     (let matchlen = prefixLen key k
      in if matchlen < length k then Ok (False, ShortNode k v f, None)
         else if matchlen = length key then Ok (True, NilNode, None)
         else
           bnd (delete_node nodes fuel v (prefix @ take (length k) key) (drop (length k) key)) (\<lambda>(dirty, child, err).
             if \<not> dirty \<or> err \<noteq> None then Ok (False, ShortNode k v f, err)
             else
               case child of
                 ShortNode k' v' _ \<Rightarrow> Ok (True, ShortNode (k @ k') v' newFlag, None)
               | _ \<Rightarrow> Ok (True, ShortNode k child newFlag, None)))"
| "delete_node nodes (Suc fuel) (FullNode children f) prefix key =
     bnd (go_index key 0) (\<lambda>i.
     bnd (childAt children i) (\<lambda>child.
     bnd (delete_node nodes fuel child (prefix @ [i]) (drop 1 key)) (\<lambda>(dirty, nn, err).
       if \<not> dirty \<or> err \<noteq> None then Ok (False, FullNode children f, err)
       else if nn \<noteq> NilNode then Ok (True, FullNode (children[unat i := nn]) newFlag, None)
       else reduceFull nodes prefix (children[unat i := nn]))))"
| "delete_node nodes (Suc fuel) (ValueNode v) prefix key = Ok (True, NilNode, None)"
| "delete_node nodes (Suc fuel) NilNode prefix key = Ok (False, NilNode, None)"
| "delete_node nodes (Suc fuel) (HashNode n) prefix key =
     bnd (resolveHash nodes n prefix) (\<lambda>r.
       case r of
         Inl err \<Rightarrow> Ok (False, NilNode, Some err)
       | Inr rn \<Rightarrow>
           bnd (delete_node nodes fuel rn prefix key) (\<lambda>(dirty, nn, err).
             if \<not> dirty \<or> err \<noteq> None then Ok (False, rn, err) else Ok (True, nn, None)))"

definition storeRoot :: "Trie \<Rightarrow> bool \<times> node \<times> trieError option \<Rightarrow> Trie \<times> trieError option" where
  "storeRoot t r = (let t = t\<lparr>t_unhashed := t_unhashed t + 1\<rparr>; (_, n, err) = r
     in case err of Some e \<Rightarrow> (t, Some e) | None \<Rightarrow> (t\<lparr>t_root := n\<rparr>, None))"

definition Trie_TryUpdate :: "nodeReader \<Rightarrow> nat \<Rightarrow> Trie \<Rightarrow> bytes \<Rightarrow> bytes \<Rightarrow> (Trie \<times> trieError option) outcome" where
  "Trie_TryUpdate nodes fuel t key val =
     (let k = keybytesToHex key
      in if length val \<noteq> 0 then bnd (insert_node nodes fuel (t_root t) [] k (ValueNode val)) (\<lambda>r. Ok (storeRoot t r))
         else bnd (delete_node nodes fuel (t_root t) [] k) (\<lambda>r. Ok (storeRoot t r)))"

definition Trie_TryDelete :: "nodeReader \<Rightarrow> nat \<Rightarrow> Trie \<Rightarrow> bytes \<Rightarrow> (Trie \<times> trieError option) outcome" where
  "Trie_TryDelete nodes fuel t key = bnd (delete_node nodes fuel (t_root t) [] (keybytesToHex key)) (\<lambda>r. Ok (storeRoot t r))"

definition emptyTrieRoot :: hash where
  "emptyTrieRoot = 0x56e81f171bcc55a6ff8345e692c0f86e5b48e01b996cadc001622fb5e363b421"

definition Trie_New :: "nodeReader \<Rightarrow> hash \<Rightarrow> (trieError + Trie) outcome" where
  "Trie_New nodes root =
     (if root \<noteq> 0 \<and> root \<noteq> emptyTrieRoot then
        bnd (resolveHash nodes (hash_Bytes root) []) (\<lambda>r.
          case r of Inl err \<Rightarrow> Ok (Inl err) | Inr rootnode \<Rightarrow> Ok (Inr \<lparr>t_root = rootnode, t_unhashed = 0\<rparr>))
      else Ok (Inr \<lparr>t_root = NilNode, t_unhashed = 0\<rparr>))"

end
