(* ===== verification/TrieEffects.thy ===== *)
theory TrieEffects
  imports Trie
begin

text \<open>
  Tries as maps.  A node in canonical form denotes a finite map from the remaining nibbles of a key to values; lookup reads this
  map, insertion and deletion update it and keep the canonical form.
\<close>

section \<open>Maps\<close>

definition tkey :: "bytes \<Rightarrow> bool" where
  "tkey k \<longleftrightarrow> (\<exists>ns. k = ns @ [16] \<and> nibbles ns)"

definition prefixed :: "bytes \<Rightarrow> (bytes \<Rightarrow> bytes option) \<Rightarrow> bytes \<Rightarrow> bytes option" where
  "prefixed p m k = (if take (length p) k = p then m (drop (length p) k) else None)"

definition branch_map :: "(nat \<Rightarrow> bytes \<Rightarrow> bytes option) \<Rightarrow> bytes \<Rightarrow> bytes option" where
  "branch_map ms k = (case k of [] \<Rightarrow> None | x # xs \<Rightarrow> if unat x < 17 then ms (unat x) xs else None)"

definition resolved :: "nodeReader \<Rightarrow> node \<Rightarrow> node" where
  "resolved nodes n = (case n of HashNode h \<Rightarrow> (case nodes (BytesToHash h) of Ok r \<Rightarrow> r | _ \<Rightarrow> NilNode) | _ \<Rightarrow> n)"

definition live :: "node list \<Rightarrow> nat set" where
  "live children = {i. i < length children \<and> children ! i \<noteq> NilNode}"

text \<open>The canonical form: leaves end in the terminator, extensions lead to full nodes, a full node has at least two children, values
  are the children at the terminator only, and references resolve to short or full nodes.\<close>

inductive denotes :: "nodeReader \<Rightarrow> node \<Rightarrow> (bytes \<Rightarrow> bytes option) \<Rightarrow> bool" for nodes where
  val: "v \<noteq> [] \<Longrightarrow> denotes nodes (ValueNode v) [[] \<mapsto> v]"
| leaf: "nibbles ns \<Longrightarrow> v \<noteq> [] \<Longrightarrow> denotes nodes (ShortNode (ns @ [16]) (ValueNode v) f) [ns @ [16] \<mapsto> v]"
| extension: "nibbles ns \<Longrightarrow> ns \<noteq> [] \<Longrightarrow> denotes nodes c m \<Longrightarrow> is_FullNode (resolved nodes c) \<Longrightarrow>
    denotes nodes (ShortNode ns c f) (prefixed ns m)"
| full: "length children = 17 \<Longrightarrow>
    (\<And>i. i \<in> live children \<Longrightarrow> denotes nodes (children ! i) (ms i) \<and> is_ValueNode (children ! i) = (i = 16)) \<Longrightarrow>
    (\<And>i. i \<notin> live children \<Longrightarrow> ms i = Map.empty) \<Longrightarrow>
    2 \<le> card (live children) \<Longrightarrow> denotes nodes (FullNode children f) (branch_map ms)"
| hash: "nodes (BytesToHash h) = Ok n \<Longrightarrow> is_ShortNode n \<or> is_FullNode n \<Longrightarrow> denotes nodes n m \<Longrightarrow> denotes nodes (HashNode h) m"

inductive_cases denotes_ValueE: "denotes nodes (ValueNode v) m"
inductive_cases denotes_NilE: "denotes nodes NilNode m"
inductive_cases denotes_ShortE: "denotes nodes (ShortNode k v f) m"
inductive_cases denotes_FullE: "denotes nodes (FullNode children f) m"
inductive_cases denotes_HashE: "denotes nodes (HashNode h) m"

text \<open>The trie of a map: nil is the empty map.\<close>

definition sub :: "nodeReader \<Rightarrow> node \<Rightarrow> (bytes \<Rightarrow> bytes option) \<Rightarrow> bool" where
  "sub nodes n m \<longleftrightarrow> n = NilNode \<and> m = Map.empty \<or> denotes nodes n m \<and> \<not> is_ValueNode n"

lemma resolved_self [simp]: "\<not> is_HashNode n \<Longrightarrow> resolved nodes n = n"
  by (cases n) (simp_all add: resolved_def)

lemma resolved_hash: "nodes (BytesToHash h) = Ok n \<Longrightarrow> resolved nodes (HashNode h) = n"
  by (simp add: resolved_def)

lemma denotes_not_Nil: "denotes nodes n m \<Longrightarrow> n \<noteq> NilNode"
  by (auto elim: denotes_NilE)

lemma tkey_Cons: "tkey (x # k) \<longleftrightarrow> (x = 16 \<and> k = [] \<or> x < 16 \<and> tkey k)"
  by (auto simp: tkey_def Cons_eq_append_conv)

lemma tkey_not_Nil: "\<not> tkey []"
  by (simp add: tkey_def)

lemma tkey_append: "nibbles ns \<Longrightarrow> tkey (ns @ k) \<longleftrightarrow> tkey k"
  by (induction ns) (auto simp: tkey_Cons)

lemma tkey_leaf:
  assumes "tkey k" "take (length (ns @ [16])) k = ns @ [16]" "nibbles ns"
  shows "k = ns @ [16]"
proof -
  have k: "k = ns @ 16 # drop (length (ns @ [16])) k" using assms(2) append_take_drop_id [of "length (ns @ [16])" k] by simp
  then have "tkey (16 # drop (length (ns @ [16])) k)" using assms(1,3) tkey_append by metis
  then have "drop (length (ns @ [16])) k = []" by (simp add: tkey_Cons)
  with k show ?thesis by simp
qed

lemma drop_ConsD: "drop i xs = y # ys \<Longrightarrow> i < length xs \<and> xs ! i = y \<and> drop (i + 1) xs = ys"
  by (metis Suc_eq_plus1 drop_eq_Nil2 drop_Suc hd_drop_conv_nth linorder_not_less list.distinct(1) list.sel(1,3) tl_drop)

lemma nibble_lt: "x < 16 \<Longrightarrow> unat x < 16" for x :: byte
  by (simp add: word_less_nat_alt)

section \<open>Common prefixes\<close>

lemma prefixLen_le: "prefixLen a b \<le> length a" "prefixLen a b \<le> length b"
  by (induction a b rule: prefixLen.induct) auto

lemma prefixLen_take: "take (prefixLen a b) a = take (prefixLen a b) b"
  by (induction a b rule: prefixLen.induct) auto

lemma prefixLen_full: "prefixLen a b = length b \<longleftrightarrow> take (length b) a = b"
  by (induction a b rule: prefixLen.induct) auto

lemma prefixLen_differ: "prefixLen a b < length a \<Longrightarrow> prefixLen a b < length b \<Longrightarrow> a ! prefixLen a b \<noteq> b ! prefixLen a b"
  by (induction a b rule: prefixLen.induct) auto

section \<open>Lookup\<close>

text \<open>Loading references keeps the kind of a node.\<close>

definition same_kind :: "nodeReader \<Rightarrow> node \<Rightarrow> node \<Rightarrow> bool" where
  "same_kind nodes n n' \<longleftrightarrow> is_ValueNode n' = is_ValueNode n \<and> is_FullNode (resolved nodes n') = is_FullNode (resolved nodes n)"

definition fits :: "node \<Rightarrow> bytes \<Rightarrow> bool" where
  "fits n k \<longleftrightarrow> (if is_ValueNode n then k = [] else tkey k)"

text \<open>The fuel that a lookup of the remaining key needs.\<close>

definition need :: "node \<Rightarrow> bytes \<Rightarrow> nat" where
  "need n k = 2 * length k + (if is_HashNode n then 2 else 1)"

lemma prefixed_append [simp]: "prefixed ns m (ns @ k) = m k"
  by (simp add: prefixed_def)

lemma resolveHash_Ok: "nodes (BytesToHash h) = Ok n \<Longrightarrow> n \<noteq> NilNode \<Longrightarrow> resolveHash nodes h p = Ok (Inr n)"
  by (simp add: resolveHash_def)

lemma childAt_Ok: "length children = 17 \<Longrightarrow> unat x < 17 \<Longrightarrow> childAt children x = Ok (children ! unat x)"
  by (simp only: childAt_def go_index_Ok of_nat_0_le_iff of_nat_less_iff nat_int)

lemma live_update: "i < length children \<Longrightarrow> live (children[i := n]) = (if n = NilNode then live children - {i} else insert i (live children))"
  by (auto simp: live_def nth_list_update split: if_splits)

lemma tkey_nibble: "tkey (x # k) \<Longrightarrow> unat x < 17"
  by (auto simp: tkey_Cons word_less_nat_alt)

lemma not_value_of_full: "is_FullNode (resolved nodes c) \<Longrightarrow> \<not> is_ValueNode c"
  by (auto simp: resolved_def split: node.splits)

text \<open>The children of a full node fit what is left of the key.\<close>

lemma child_fits: "tkey (x # k) \<Longrightarrow> is_ValueNode c = (unat x = 16) \<Longrightarrow> fits c k"
proof -
  assume a: "tkey (x # k)" "is_ValueNode c = (unat x = 16)"
  have "unat x = 16 \<longleftrightarrow> x = 16" by (simp add: word_unat_eq_iff)
  then show ?thesis using a by (auto simp: fits_def tkey_Cons dest: nibble_lt)
qed

text \<open>Replacing a child of a full node.\<close>

lemma denotes_full_update:
  assumes "length children = 17" "i < 17"
    and "\<And>j. j \<in> live children \<Longrightarrow> j \<noteq> i \<Longrightarrow> denotes nodes (children ! j) (ms j) \<and> is_ValueNode (children ! j) = (j = 16)"
    and "\<And>j. j \<notin> live children \<Longrightarrow> j \<noteq> i \<Longrightarrow> ms j = Map.empty"
    and "denotes nodes n m" "is_ValueNode n = (i = 16)" "2 \<le> card (insert i (live children))"
  shows "denotes nodes (FullNode (children[i := n]) f) (branch_map (ms(i := m)))"
proof -
  have l: "live (children[i := n]) = insert i (live children)"
    using assms(1,2) denotes_not_Nil [OF assms(5)] by (simp add: live_update)
  show ?thesis
    by (rule denotes.full) (use assms l in \<open>auto simp: nth_list_update\<close>)
qed

lemma tryGet_ok:
  assumes "denotes nodes n m" "fits n k" "need n k \<le> fuel" "drop pos key = k" "pos \<le> length key"
  shows "\<exists>n' d. tryGet nodes fuel n key pos = Ok (m k, n', d, None) \<and> (if d then denotes nodes n' m \<and> same_kind nodes n n' else n' = n)"
  using assms
proof (induction arbitrary: k fuel pos rule: denotes.induct)
  case (val v)
  then show ?case by (cases fuel) (auto simp: need_def fits_def)
next
  case (leaf ns v f)
  then obtain fl where fl: "fuel = Suc (Suc fl)" by (cases fuel; cases "fuel - 1") (auto simp: need_def fits_def tkey_def)
  have k: "slice key pos (pos + length (ns @ [16])) = take (length (ns @ [16])) k" using leaf(5) by (simp add: slice_def)
  show ?case
  proof (cases "k = ns @ [16]")
    case True
    then have "length key = pos + length (ns @ [16])" using leaf(5,6) by (metis length_drop le_add_diff_inverse)
    then show ?thesis using True k by (auto simp: fl)
  next
    case False
    have "take (length (ns @ [16])) k \<noteq> ns @ [16]"
      using False leaf(1,3) tkey_leaf [of k ns] by (auto simp: fits_def)
    then show ?thesis using False k by (auto simp: fl)
  qed
next
  case (extension ns c m f)
  then obtain fl where fl: "fuel = Suc fl" by (cases fuel) (auto simp: need_def)
  have k: "slice key pos (pos + length ns) = take (length ns) k" using extension(8) by (simp add: slice_def)
  show ?case
  proof (cases "take (length ns) k = ns")
    case True
    define k' where "k' = drop (length ns) k"
    have kk: "k = ns @ k'" using True k'_def by (metis append_take_drop_id)
    have len: "pos + length ns \<le> length key" using extension(8,9) kk by (metis add_le_cancel_left le_add_diff_inverse length_append length_drop le_add1)
    have "fits c k'" using extension(1,4,6) kk not_value_of_full [OF extension(4)] by (simp add: fits_def tkey_append)
    moreover have "need c k' \<le> fl" using extension(2,7) fl kk by (cases ns) (auto simp: need_def split: if_splits)
    moreover have "drop (pos + length ns) key = k'" unfolding k'_def extension(8) [symmetric] by (simp add: add.commute)
    ultimately obtain n' d where "tryGet nodes fl c key (pos + length ns) = Ok (m k', n', d, None)"
      "if d then denotes nodes n' m \<and> same_kind nodes c n' else n' = c" using extension(5) len by blast
    then show ?thesis using k len True extension(1,2,3,4) by (auto simp: fl kk same_kind_def resolved_def split: if_splits intro: denotes.extension)
  next
    case False
    then show ?thesis using k by (auto simp: fl prefixed_def)
  qed
next
  case (full children ms f)
  obtain fl where fl: "fuel = Suc fl" using full.prems(2) by (cases fuel) (simp_all add: need_def)
  obtain x xs where x: "k = x # xs" "tkey (x # xs)" using full.prems(1) by (cases k) (auto simp: fits_def tkey_not_Nil)
  have i: "unat x < 17" using x(2) by (rule tkey_nibble)
  have pos: "pos < length key" "key ! pos = x" "drop (pos + 1) key = xs"
    using drop_ConsD [of pos key x xs] full.prems(3) x(1) by simp_all
  let ?i = "unat x" and ?n = "FullNode children f"
  have step: "tryGet nodes fuel ?n key pos = bnd (tryGet nodes fl (children ! ?i) key (pos + 1)) (\<lambda>(value, newnode, didResolve, err).
       Ok (value, if err = None \<and> didResolve then FullNode (children[?i := newnode]) f else ?n, didResolve, err))"
    using pos i full.hyps(1) by (simp add: fl childAt_Ok)
  have m: "branch_map ms k = ms ?i xs" using i by (simp add: branch_map_def x(1))
  have fl1: "2 * length xs + 2 \<le> fl" using full.prems(2) by (simp add: need_def x(1) fl)
  show ?case
  proof (cases "?i \<in> live children")
    case False
    then have "children ! ?i = NilNode" "ms ?i = Map.empty" using i full.hyps(1,2) by (auto simp: live_def)
    then show ?thesis unfolding step m using fl1 by (cases fl) auto
  next
    case True
    have c: "denotes nodes (children ! ?i) (ms ?i)" "is_ValueNode (children ! ?i) = (?i = 16)" using full.IH [OF True] by blast+
    have f: "fits (children ! ?i) xs" using child_fits [OF x(2) c(2)] .
    have nd: "need (children ! ?i) xs \<le> fl" using fl1 by (simp add: need_def)
    have ps: "pos + 1 \<le> length key" using pos(1) by simp
    obtain n' d where r: "tryGet nodes fl (children ! ?i) key (pos + 1) = Ok (ms ?i xs, n', d, None)"
      and n': "if d then denotes nodes n' (ms ?i) \<and> same_kind nodes (children ! ?i) n' else n' = children ! ?i"
      using full.IH [OF True, THEN conjunct1, THEN conjunct2, rule_format, OF f nd pos(3) ps] by blast
    have up: "denotes nodes (FullNode (children[?i := n']) f) (branch_map ms)"
      if "denotes nodes n' (ms ?i)" "same_kind nodes (children ! ?i) n'"
      using denotes_full_update [of children ?i nodes ms n' "ms ?i" f] full.IH full.hyps i that c(2) True
      by (auto simp: same_kind_def insert_absorb)
    show ?thesis
    proof (cases d)
      case True
      then have "denotes nodes (FullNode (children[?i := n']) f) (branch_map ms)" using up n' by simp
      then show ?thesis using True unfolding step m r by (auto simp: same_kind_def)
    next
      case False
      then show ?thesis unfolding step m r by auto
    qed
  qed
next
  case (hash h n m)
  then obtain fl where fl: "fuel = Suc fl" by (cases fuel) (auto simp: need_def)
  have "fits n k" "need n k \<le> fl" using hash fl by (auto simp: fits_def need_def)
  then obtain n' d where "tryGet nodes fl n key pos = Ok (m k, n', d, None)"
      and n': "if d then denotes nodes n' m \<and> same_kind nodes n n' else n' = n" using hash by blast
  moreover have "resolveHash nodes h (take pos key) = Ok (Inr n)" using hash(1,2) by (intro resolveHash_Ok) auto
  ultimately have e: "tryGet nodes fuel (HashNode h) key pos = Ok (m k, n', True, None)" by (simp add: fl)
  have "denotes nodes n' m" "same_kind nodes n n'" using n' hash.hyps by (auto simp: same_kind_def split: if_splits)
  moreover have "same_kind nodes (HashNode h) n'"
    using calculation(2) hash.hyps resolved_hash [of nodes h n] resolved_self [of n nodes] by (auto simp: same_kind_def)
  ultimately show ?case using e by auto
qed

section \<open>Insertion\<close>

text \<open>A node below a possibly empty key.\<close>

definition put :: "bytes \<Rightarrow> node \<Rightarrow> node" where
  "put k c = (if k = [] then c else ShortNode k c newFlag)"

lemma put_Nil [simp]: "put [] c = c"
  by (simp add: put_def)

lemma insert_Nil: "0 < fuel \<Longrightarrow> insert_node nodes fuel NilNode p k val = Ok (True, put k val, None)"
  by (cases fuel; cases k) (simp_all add: put_def)

lemma prefixed_Nil [simp]: "prefixed [] m = m"
  by (rule ext) (simp add: prefixed_def)

lemma prefixed_prefixed: "prefixed (a @ b) m = prefixed a (prefixed b m)"
proof (rule ext)
  fix k
  have "take (length a + length b) k = a @ b \<longleftrightarrow> take (length a) k = a \<and> take (length b) (drop (length a) k) = b"
    by (auto simp: take_add append_eq_conv_conj min_def split: if_splits)
  then show "prefixed (a @ b) m k = prefixed a (prefixed b m) k" by (simp add: prefixed_def add.commute)
qed

lemma prefixed_single: "prefixed p [k \<mapsto> v] = [p @ k \<mapsto> v]"
  by (rule ext) (auto simp: prefixed_def append_eq_conv_conj, metis append_take_drop_id)

lemma put_value: "v \<noteq> [] \<Longrightarrow> k = [] \<or> tkey k \<Longrightarrow> denotes nodes (put k (ValueNode v)) [k \<mapsto> v]"
  by (auto simp: put_def tkey_def intro: denotes.val denotes.leaf)

lemma put_full: "nibbles k \<Longrightarrow> denotes nodes c m \<Longrightarrow> is_FullNode (resolved nodes c) \<Longrightarrow> denotes nodes (put k c) (prefixed k m)"
  by (auto simp: put_def intro: denotes.extension)

lemma is_ValueNode_put: "is_ValueNode (put k c) \<longleftrightarrow> k = [] \<and> is_ValueNode c"
  by (simp add: put_def)

lemma live_two:
  assumes "i < 17" "j < 17" "i \<noteq> j" "c1 \<noteq> NilNode" "c2 \<noteq> NilNode"
  shows "live ((replicate 17 NilNode)[i := c1, j := c2]) = {i, j}"
  using assms by (auto simp: live_def nth_list_update split: if_splits)

lemma branch_denotes:
  assumes xy: "unat x < 17" "unat y < 17" "x \<noteq> y" and p: "nibbles p"
    and c1: "denotes nodes c1 m1" "is_ValueNode c1 = (unat x = 16)"
    and c2: "denotes nodes c2 [k \<mapsto> v]" "is_ValueNode c2 = (unat y = 16)"
  shows "denotes nodes (put p (FullNode ((replicate 17 NilNode)[unat x := c1, unat y := c2]) newFlag))
    ((prefixed (p @ [x]) m1)(p @ y # k \<mapsto> v))"
proof -
  let ?ms = "(\<lambda>_. Map.empty)(unat x := m1, unat y := [k \<mapsto> v])" and ?ch = "(replicate 17 NilNode)[unat x := c1, unat y := c2]"
  have ne: "unat x \<noteq> unat y" using xy(3) by (simp add: word_unat_eq_iff)
  have l: "live ?ch = {unat x, unat y}" by (rule live_two) (use xy ne c1 c2 denotes_not_Nil in auto)
  have "denotes nodes (FullNode ?ch newFlag) (branch_map ?ms)"
  proof (rule denotes.full)
    show "denotes nodes (?ch ! i) (?ms i) \<and> is_ValueNode (?ch ! i) = (i = 16)" if "i \<in> live ?ch" for i
      using that c1 c2 xy ne unfolding l by (auto simp: nth_list_update)
    show "?ms i = Map.empty" if "i \<notin> live ?ch" for i using that unfolding l by simp
    show "2 \<le> card (live ?ch)" unfolding l using ne by simp
  qed simp
  moreover have "prefixed p (branch_map ?ms) = (prefixed (p @ [x]) m1)(p @ y # k \<mapsto> v)"
  proof -
    have "branch_map ?ms = (prefixed [x] m1)(y # k \<mapsto> v)"
    proof (rule ext)
      fix z
      show "branch_map ?ms z = ((prefixed [x] m1)(y # k \<mapsto> v)) z"
        using xy ne by (cases z) (auto simp: branch_map_def prefixed_def word_unat_eq_iff)
    qed
    moreover have "prefixed p (m(z \<mapsto> v)) = (prefixed p m)(p @ z \<mapsto> v)" for m z
      by (rule ext) (auto simp: prefixed_def append_eq_conv_conj, metis append_take_drop_id)
    ultimately show ?thesis by (simp add: prefixed_prefixed)
  qed
  ultimately show ?thesis using put_full [OF p, of nodes "FullNode ?ch newFlag" "branch_map ?ms"] by simp
qed

text \<open>Where the key of a short node and the key to insert part.\<close>

lemma tkey_split: "tkey (p @ y # k) \<Longrightarrow> nibbles p \<and> (y = 16 \<and> k = [] \<or> y < 16 \<and> tkey k)"
  by (induction p) (auto simp: tkey_Cons)

lemma tkey_index: "tkey (p @ y # k) \<Longrightarrow> unat y < 17 \<and> (unat y = 16) = (k = []) \<and> (k = [] \<or> tkey k)"
  using tkey_split [of p y k] tkey_not_Nil by (auto simp: word_less_nat_alt)

lemma keys_part:
  assumes "tkey k" "prefixLen k K \<noteq> length K" "nibbles K \<or> tkey K"
  obtains p x K' y k' where "k = p @ y # k'" "K = p @ x # K'" "x \<noteq> y" "prefixLen k K = length p"
proof -
  let ?l = "prefixLen k K"
  have l: "?l < length K" using assms(2) prefixLen_le(2) [of k K] by simp
  have "?l < length k"
  proof (rule ccontr)
    assume "\<not> ?l < length k"
    then have "?l = length k" using prefixLen_le(1) [of k K] by simp
    then have K: "K = k @ K ! ?l # drop (Suc ?l) K"
      using prefixLen_take [of k K] id_take_nth_drop [OF l] by simp
    obtain ns where "k = ns @ [16]" using assms(1) by (auto simp: tkey_def)
    with K have "K = ns @ 16 # K ! ?l # drop (Suc ?l) K" by simp
    moreover have "\<not> nibbles (ns @ 16 # K ! ?l # drop (Suc ?l) K)" by simp
    moreover have "\<not> tkey (ns @ 16 # K ! ?l # drop (Suc ?l) K)" using tkey_split by fastforce
    ultimately show False using assms(3) by metis
  qed
  then have "k = take ?l k @ k ! ?l # drop (Suc ?l) k" by (rule id_take_nth_drop)
  moreover have "K = take ?l k @ K ! ?l # drop (Suc ?l) K" using id_take_nth_drop [OF l] prefixLen_take [of k K] by simp
  moreover have "K ! ?l \<noteq> k ! ?l" using prefixLen_differ [OF \<open>?l < length k\<close> l] by simp
  moreover have "?l = length (take ?l k)" using \<open>?l < length k\<close> by simp
  ultimately show thesis using that by blast
qed

lemma insert_part:
  assumes "k = p @ y # k'" "K = p @ x # K'" "prefixLen k K = length p" "unat x < 17" "unat y < 17" "2 \<le> fuel"
  shows "insert_node nodes fuel (ShortNode K c f) pre k val =
    Ok (True, put p (FullNode ((replicate 17 NilNode)[unat x := put K' c, unat y := put k' val]) newFlag), None)"
proof -
  obtain fl where fl: "fuel = Suc fl" "0 < fl" using assms(6) by (cases fuel) auto
  obtain z zs where k: "k = z # zs" using assms(1) by (metis append_is_Nil_conv list.distinct(1) neq_Nil_conv)
  have le: "\<not> 16 < x" "\<not> 16 < y" using assms(4,5) by (simp_all add: word_less_nat_alt)
  have e: "k ! length p = y" "K ! length p = x" "drop (length p + 1) k = k'" "drop (length p + 1) K = K'" "take (length p) k = p"
    "length p < length k" "length p < length K"
    by (simp_all add: assms(1,2))
  have "go_index k (int (length p)) = Ok y" using e by simp
  then show ?thesis
    using e le assms(3) fl unfolding k by (simp add: insert_Nil put_def Let_def)
qed

lemma insert_same:
  assumes "prefixLen k K = length K" "k \<noteq> []" "insert_node nodes fl c (pre @ K) (drop (length K) k) val = Ok (d, nn, None)"
  shows "insert_node nodes (Suc fl) (ShortNode K c f) pre k val = Ok (d, if d then ShortNode K nn newFlag else ShortNode K c f, None)"
proof -
  obtain z zs where k: "k = z # zs" using assms(2) by (cases k) auto
  have "take (length K) k = K" using assms(1) prefixLen_full by metis
  with assms show ?thesis unfolding k by simp
qed

text \<open>What an insertion leaves: the updated map in canonical form, at a node of the same kind where full nodes stay full.\<close>

definition inserted :: "nodeReader \<Rightarrow> node \<Rightarrow> (bytes \<Rightarrow> bytes option) \<Rightarrow> bytes \<Rightarrow> bytes \<Rightarrow> bool \<Rightarrow> node \<Rightarrow> bool" where
  "inserted nodes n m k v d n' \<longleftrightarrow>
     denotes nodes n' (m(k \<mapsto> v)) \<and> (d \<or> m k = Some v) \<and> is_ValueNode n' = is_ValueNode n \<and>
     (is_FullNode (resolved nodes n) \<longrightarrow> is_FullNode (resolved nodes n'))"

lemma inserted_same: "denotes nodes n m \<Longrightarrow> m k = Some v \<Longrightarrow> inserted nodes n m k v d n"
  by (simp add: inserted_def map_upd_triv)

lemma prefixed_upd: "(prefixed p m)(p @ z := w) = prefixed p (m(z := w))"
  by (rule ext) (auto simp: prefixed_def append_eq_conv_conj, metis append_take_drop_id)

lemma insert_short:
  assumes "tkey k" "v \<noteq> []" "2 \<le> fuel" "prefixLen k K \<noteq> length K" "nibbles K \<or> tkey K"
    and c: "\<And>K'. K' = [] \<or> nibbles K' \<or> tkey K' \<Longrightarrow> (\<exists>p x. K = p @ x # K') \<Longrightarrow>
      denotes nodes (put K' c) (mm K') \<and> (\<forall>p x. K = p @ x # K' \<longrightarrow> is_ValueNode (put K' c) = (unat x = 16) \<and> m = prefixed (p @ [x]) (mm K'))"
  shows "\<exists>n'. insert_node nodes fuel (ShortNode K c f) pre k (ValueNode v) = Ok (True, n', None) \<and> inserted nodes (ShortNode K c f) m k v True n'"
proof -
  obtain p x K' y k' where s: "k = p @ y # k'" "K = p @ x # K'" "x \<noteq> y" "prefixLen k K = length p"
    by (rule keys_part [OF assms(1,4,5)])
  have y: "unat y < 17" "(unat y = 16) = (k' = [])" "k' = [] \<or> tkey k'" using tkey_index [of p y k'] assms(1) s(1) by auto
  have p: "nibbles p" using tkey_split assms(1) s(1) by blast
  have x: "unat x < 17" using assms(5) s(2) tkey_index [of p x K'] nibble_lt [of x] by fastforce
  have K': "K' = [] \<or> nibbles K' \<or> tkey K'" using assms(5) s(2) tkey_index [of p x K'] by auto
  note cc = c [OF K'] s(2)
  have c1: "denotes nodes (put K' c) (mm K')" "is_ValueNode (put K' c) = (unat x = 16)" "m = prefixed (p @ [x]) (mm K')"
    using cc by blast+
  have c2: "denotes nodes (put k' (ValueNode v)) [k' \<mapsto> v]" "is_ValueNode (put k' (ValueNode v)) = (unat y = 16)"
    using put_value [OF assms(2) y(3)] y(2) by (simp_all add: is_ValueNode_put)
  let ?b = "put p (FullNode ((replicate 17 NilNode)[unat x := put K' c, unat y := put k' (ValueNode v)]) newFlag)"
  have "denotes nodes ?b (m(k \<mapsto> v))"
    using branch_denotes [OF x y(1) s(3) p c1(1,2) c2] unfolding c1(3) s(1) by simp
  moreover have "insert_node nodes fuel (ShortNode K c f) pre k (ValueNode v) = Ok (True, ?b, None)"
    by (rule insert_part [OF s(1,2,4) x y(1) assms(3)])
  ultimately show ?thesis by (auto simp: inserted_def is_ValueNode_put)
qed

lemma insert_ok:
  assumes "denotes nodes n m" "fits n k" "v \<noteq> []" "need n k \<le> fuel"
  shows "\<exists>d n'. insert_node nodes fuel n pre k (ValueNode v) = Ok (d, n', None) \<and> inserted nodes n m k v d n'"
  using assms
proof (induction arbitrary: k fuel pre rule: denotes.induct)
  case (val w)
  then obtain fl where fl: "fuel = Suc fl" "k = []" by (cases fuel) (auto simp: need_def fits_def)
  have "denotes nodes (ValueNode v) ([[] \<mapsto> w](k \<mapsto> v))" using denotes.val [OF val.prems(2)] by (simp add: fl)
  then have "inserted nodes (ValueNode w) [[] \<mapsto> w] k v (w \<noteq> v) (ValueNode v)" by (simp add: inserted_def fl(2))
  moreover have "insert_node nodes fuel (ValueNode w) pre k (ValueNode v) = Ok (w \<noteq> v, ValueNode v, None)" by (simp add: fl)
  ultimately show ?case by blast
next
  case (leaf ns w f)
  have k: "tkey k" "2 < fuel" using leaf.prems by (auto simp: fits_def need_def tkey_def)
  obtain fl where fl: "fuel = Suc fl" "0 < fl" using k(2) by (cases fuel) auto
  show ?case
  proof (cases "prefixLen k (ns @ [16]) = length (ns @ [16])")
    case True
    then have kk: "k = ns @ [16]" using tkey_leaf [OF k(1) _ leaf.hyps(1)] prefixLen_full by metis
    have "insert_node nodes fl (ValueNode w) (pre @ ns @ [16]) (drop (length (ns @ [16])) k) (ValueNode v) = Ok (w \<noteq> v, ValueNode v, None)"
      using fl(2) by (cases fl) (simp_all add: kk)
    from insert_same [OF True _ this] kk
    have "insert_node nodes fuel (ShortNode (ns @ [16]) (ValueNode w) f) pre k (ValueNode v) =
        Ok (w \<noteq> v, if w \<noteq> v then ShortNode (ns @ [16]) (ValueNode v) newFlag else ShortNode (ns @ [16]) (ValueNode w) f, None)"
      unfolding fl(1) by simp
    moreover have "denotes nodes (ShortNode (ns @ [16]) (ValueNode v) g) ([ns @ [16] \<mapsto> w](k \<mapsto> v))" for g
      using denotes.leaf [OF leaf.hyps(1) leaf.prems(2)] kk by simp
    then have "inserted nodes (ShortNode (ns @ [16]) (ValueNode w) f) [ns @ [16] \<mapsto> w] k v (w \<noteq> v)
        (if w \<noteq> v then ShortNode (ns @ [16]) (ValueNode v) newFlag else ShortNode (ns @ [16]) (ValueNode w) f)"
      by (simp add: inserted_def kk)
    ultimately show ?thesis by blast
  next
    case False
    have "2 \<le> fuel" using k(2) by simp
    moreover have "tkey (ns @ [16])" using leaf.hyps(1) by (auto simp: tkey_def)
    moreover have "denotes nodes (put K' (ValueNode w)) [K' \<mapsto> w] \<and> is_ValueNode (put K' (ValueNode w)) = (unat x = 16) \<and>
        [ns @ [16] \<mapsto> w] = prefixed (p @ [x]) [K' \<mapsto> w]" if "ns @ [16] = p @ x # K'" for p x K'
      using tkey_index [of p x K'] put_value [OF leaf.hyps(2)] calculation(2) unfolding that by (simp add: is_ValueNode_put prefixed_single)
    ultimately have "\<exists>n'. insert_node nodes fuel (ShortNode (ns @ [16]) (ValueNode w) f) pre k (ValueNode v) = Ok (True, n', None) \<and>
        inserted nodes (ShortNode (ns @ [16]) (ValueNode w) f) [ns @ [16] \<mapsto> w] k v True n'"
      by (intro insert_short [OF k(1) leaf.prems(2) _ False, where mm = "\<lambda>K'. [K' \<mapsto> w]"]) blast+
    then show ?thesis by blast
  qed
next
  case (extension ns c m f)
  have nv: "\<not> is_ValueNode c" by (rule not_value_of_full [OF extension.hyps(4)])
  have k: "tkey k" using extension.prems(1) by (simp add: fits_def)
  have fuel: "2 \<le> fuel" using extension.prems(3) k tkey_not_Nil by (cases k) (simp_all add: need_def)
  obtain fl where fl: "fuel = Suc fl" using fuel by (cases fuel) auto
  show ?case
  proof (cases "prefixLen k ns = length ns")
    case True
    define k' where "k' = drop (length ns) k"
    have kk: "k = ns @ k'" using True prefixLen_full [of k ns] append_take_drop_id [of "length ns" k] by (simp add: k'_def)
    have "fits c k'" using extension.hyps(1) nv k by (simp add: kk fits_def tkey_append)
    moreover have "need c k' \<le> fl" using extension.hyps(2) extension.prems(3) by (cases ns) (auto simp: need_def kk fl split: if_splits)
    ultimately obtain d nn where r: "insert_node nodes fl c (pre @ ns) k' (ValueNode v) = Ok (d, nn, None)" and nn: "inserted nodes c m k' v d nn"
      using extension.IH extension.prems(2) by blast
    have "k \<noteq> []" using k tkey_not_Nil by auto
    from insert_same [OF True this r [unfolded k'_def]]
    have "insert_node nodes fuel (ShortNode ns c f) pre k (ValueNode v) = Ok (d, if d then ShortNode ns nn newFlag else ShortNode ns c f, None)"
      unfolding fl .
    moreover have "inserted nodes (ShortNode ns c f) (prefixed ns m) k v d (if d then ShortNode ns nn newFlag else ShortNode ns c f)"
    proof (cases d)
      case True
      have "denotes nodes (ShortNode ns nn newFlag) (prefixed ns (m(k' \<mapsto> v)))"
        by (rule denotes.extension) (use extension.hyps nn in \<open>simp_all add: inserted_def\<close>)
      then show ?thesis using True unfolding kk by (simp add: inserted_def prefixed_upd)
    next
      case False
      then have "prefixed ns m k = Some v" using nn unfolding kk by (simp add: inserted_def)
      then show ?thesis using inserted_same denotes.extension [OF extension.hyps] False by auto
    qed
    ultimately show ?thesis by blast
  next
    case False
    have "denotes nodes (put K' c) (prefixed K' m) \<and> is_ValueNode (put K' c) = (unat x = 16) \<and>
        prefixed ns m = prefixed (p @ [x]) (prefixed K' m)" if "ns = p @ x # K'" for p x K'
    proof -
      have "nibbles K'" "x < 16" using extension.hyps(1) that by simp_all
      moreover have "prefixed ns m = prefixed (p @ [x]) (prefixed K' m)" unfolding that by (simp add: prefixed_prefixed [symmetric])
      ultimately show ?thesis using put_full [OF _ extension.hyps(3,4), of K'] nv nibble_lt [of x] by (auto simp: is_ValueNode_put)
    qed
    then have "\<exists>n'. insert_node nodes fuel (ShortNode ns c f) pre k (ValueNode v) = Ok (True, n', None) \<and>
        inserted nodes (ShortNode ns c f) (prefixed ns m) k v True n'"
      using extension.hyps(1)
      by (intro insert_short [OF k extension.prems(2) fuel False, where mm = "\<lambda>K'. prefixed K' m"]) blast+
    then show ?thesis by blast
  qed
next
  case (full children ms f)
  obtain fl where fl: "fuel = Suc fl" using full.prems(3) by (cases fuel) (simp_all add: need_def)
  obtain x xs where x: "k = x # xs" "tkey (x # xs)" using full.prems(1) by (cases k) (auto simp: fits_def tkey_not_Nil)
  let ?i = "unat x" and ?n = "FullNode children f"
  have i: "?i < 17" using x(2) by (rule tkey_nibble)
  have fl1: "2 * length xs + 2 \<le> fl" using full.prems(3) by (simp add: need_def x(1) fl)
  have up: "(branch_map ms)(k \<mapsto> v) = branch_map (ms(?i := (ms ?i)(xs \<mapsto> v)))"
    by (rule ext) (use i in \<open>auto simp: branch_map_def x(1) word_unat_eq_iff split: list.split\<close>)
  have "\<exists>d nn. insert_node nodes fl (children ! ?i) (pre @ [x]) xs (ValueNode v) = Ok (d, nn, None) \<and>
      denotes nodes nn ((ms ?i)(xs \<mapsto> v)) \<and> is_ValueNode nn = (?i = 16) \<and> (d \<or> ms ?i xs = Some v) \<and> (?i \<in> live children \<or> d)"
  proof (cases "?i \<in> live children")
    case False
    then have "children ! ?i = NilNode" "ms ?i = Map.empty" using i full.hyps(1,2) by (auto simp: live_def)
    moreover have "xs = [] \<or> tkey xs" "(?i = 16) = (xs = [])" using tkey_index [of "[]" x xs] x(2) by auto
    ultimately show ?thesis using insert_Nil [of fl nodes "pre @ [x]" xs "ValueNode v"] fl1 put_value [OF full.prems(2), of xs nodes]
      by (auto simp: is_ValueNode_put)
  next
    case True
    have c: "denotes nodes (children ! ?i) (ms ?i)" "is_ValueNode (children ! ?i) = (?i = 16)" using full.IH [OF True] by blast+
    have f: "fits (children ! ?i) xs" using child_fits [OF x(2) c(2)] .
    have nd: "need (children ! ?i) xs \<le> fl" using fl1 by (simp add: need_def)
    show ?thesis
      using full.IH [OF True, THEN conjunct1, THEN conjunct2, rule_format, OF f full.prems(2) nd, of "pre @ [x]"] c(2) True
      unfolding inserted_def by blast
  qed
  then obtain d nn where r: "insert_node nodes fl (children ! ?i) (pre @ [x]) xs (ValueNode v) = Ok (d, nn, None)"
    and nn: "denotes nodes nn ((ms ?i)(xs \<mapsto> v))" "is_ValueNode nn = (?i = 16)" "d \<or> ms ?i xs = Some v" "?i \<in> live children \<or> d"
    by blast
  have e: "insert_node nodes fuel ?n pre k (ValueNode v) = Ok (d, if d then FullNode (children[?i := nn]) newFlag else ?n, None)"
    using r i full.hyps(1) by (simp add: fl x(1) childAt_Ok)
  have old: "denotes nodes ?n (branch_map ms)" by (rule denotes.full) (use full.IH full.hyps in blast)+
  have "inserted nodes ?n (branch_map ms) k v d (if d then FullNode (children[?i := nn]) newFlag else ?n)"
  proof (cases d)
    case True
    have "2 \<le> card (insert ?i (live children))" using full.hyps(3) card_insert_le [of "live children" ?i] by linarith
    then have "denotes nodes (FullNode (children[?i := nn]) newFlag) (branch_map (ms(?i := (ms ?i)(xs \<mapsto> v))))"
      using denotes_full_update [of children ?i nodes ms nn "(ms ?i)(xs \<mapsto> v)" newFlag] full.IH full.hyps(1,2) i nn(1,2) by blast
    then show ?thesis using True by (simp add: inserted_def up)
  next
    case False
    then have "branch_map ms k = Some v" using nn(3) i by (simp add: branch_map_def x(1))
    then show ?thesis using inserted_same [OF old] False by simp
  qed
  then show ?case using e by blast
next
  case (hash h n m)
  obtain fl where fl: "fuel = Suc fl" using hash.prems(3) by (cases fuel) (simp_all add: need_def)
  have k: "tkey k" using hash.prems(1) by (simp add: fits_def)
  then obtain x xs where x: "k = x # xs" using tkey_not_Nil by (cases k) auto
  have "fits n k" "need n k \<le> fl" using hash.prems hash.hyps(2) fl by (auto simp: fits_def need_def)
  then obtain d n' where r: "insert_node nodes fl n pre k (ValueNode v) = Ok (d, n', None)" and n': "inserted nodes n m k v d n'"
    using hash.IH hash.prems(2) by blast
  have "resolveHash nodes h pre = Ok (Inr n)" using hash.hyps(1,2) by (intro resolveHash_Ok) auto
  then have e: "insert_node nodes fuel (HashNode h) pre k (ValueNode v) = Ok (d, if d then n' else n, None)"
    using r by (simp add: fl x)
  have "inserted nodes n m k v d (if d then n' else n)"
    using n' inserted_same [OF hash.hyps(3)] by (cases d) (simp_all add: inserted_def [of nodes n m k v False n'])
  moreover have "resolved nodes (HashNode h) = n" "resolved nodes n = n" "\<not> is_ValueNode n"
    using hash.hyps(1,2) resolved_hash [of nodes h n] by auto
  ultimately show ?case using e by (auto simp: inserted_def)
qed

section \<open>Deletion\<close>

lemma merge_denotes:
  assumes "denotes nodes (ShortNode k c g) m" "nibbles ns"
  shows "denotes nodes (ShortNode (ns @ k) c f) (prefixed ns m)"
  using assms(1)
proof (cases rule: denotes.cases)
  case (leaf ns' v)
  then show ?thesis using denotes.leaf [of "ns @ ns'" v nodes f] assms(2) by (simp add: prefixed_single)
next
  case (extension m')
  then show ?thesis using denotes.extension [of "ns @ k" nodes c m' f] assms(2) by (simp add: prefixed_prefixed)
qed

lemma live_Cons: "j \<in> live (c # children) \<longleftrightarrow> (case j of 0 \<Rightarrow> c \<noteq> NilNode | Suc j' \<Rightarrow> j' \<in> live children)"
  by (cases j) (simp_all add: live_def)

lemma onlyChild_acc: "0 \<le> pos \<Longrightarrow> onlyChild children i pos = (if live children = {} then pos else -2)"
proof (induction children arbitrary: i)
  case (Cons c children)
  have "live (c # children) = {} \<longleftrightarrow> c = NilNode \<and> live children = {}"
    unfolding set_eq_iff live_Cons by (auto split: nat.splits)
  with Cons show ?case by simp
qed (simp add: live_def)

lemma onlyChild_single: "live children = {j} \<Longrightarrow> onlyChild children i (-1) = int (i + j)"
proof (induction children arbitrary: i j)
  case (Cons c children)
  have l: "(case j' of 0 \<Rightarrow> c \<noteq> NilNode | Suc j'' \<Rightarrow> j'' \<in> live children) \<longleftrightarrow> j' = j" for j'
    using Cons.prems live_Cons [of j' c children] by auto
  show ?case
  proof (cases j)
    case 0
    then have "c \<noteq> NilNode" "live children = {}" using l [of 0] l [of "Suc _"] by auto
    then show ?thesis using 0 by (simp add: onlyChild_acc)
  next
    case (Suc j')
    then have "c = NilNode" "live children = {j'}" using l [of 0] l [of "Suc _"] by auto
    then show ?thesis using Suc Cons.IH [of j' "i + 1"] by simp
  qed
qed (simp add: live_def)

lemma onlyChild_several: "j \<in> live children \<Longrightarrow> j' \<in> live children \<Longrightarrow> j \<noteq> j' \<Longrightarrow> onlyChild children i (-1) = -2"
proof (induction children arbitrary: i j j')
  case (Cons c children)
  show ?case
  proof (cases "c = NilNode")
    case True
    with Cons.prems obtain a b where "j = Suc a" "j' = Suc b" "a \<in> live children" "b \<in> live children"
      by (auto simp: live_Cons split: nat.splits)
    then show ?thesis using Cons.IH [of a b] Cons.prems(3) True by simp
  next
    case False
    have "live children \<noteq> {}" using Cons.prems by (auto simp: live_Cons split: nat.splits)
    then show ?thesis using False by (simp add: onlyChild_acc)
  qed
qed (simp add: live_def)

lemma denotes_open: "denotes nodes n m \<Longrightarrow> \<not> is_ValueNode n \<Longrightarrow> is_ShortNode (resolved nodes n) \<or> is_FullNode (resolved nodes n)"
  by (erule denotes.cases) (auto simp: resolved_def)

lemma denotes_resolved: "denotes nodes n m \<Longrightarrow> denotes nodes (resolved nodes n) m"
  by (erule denotes.cases) (auto simp: resolved_def intro: denotes.intros)

lemma resolve_Ok: "denotes nodes n m \<Longrightarrow> \<not> is_ValueNode n \<Longrightarrow> resolve nodes n p = Ok (Inr (resolved nodes n))"
  by (erule denotes.cases) (auto simp: resolve_def resolved_def intro!: resolveHash_Ok)

lemma branch_single:
  assumes "j < 17" "\<And>i. i \<noteq> j \<Longrightarrow> ms i = Map.empty"
  shows "branch_map ms = prefixed [of_nat j] (ms j)"
proof (rule ext)
  fix k
  have "unat (of_nat j :: byte) = j" using assms(1) by (simp add: unsigned_of_nat take_bit_nat_eq_self_iff)
  then show "branch_map ms k = prefixed [of_nat j] (ms j) k"
    using assms by (cases k) (auto simp: branch_map_def prefixed_def word_unat_eq_iff)
qed

lemma reduceFull_ok:
  assumes len: "length children = 17" and ne: "live children \<noteq> {}"
    and ch: "\<And>i. i \<in> live children \<Longrightarrow> denotes nodes (children ! i) (ms i) \<and> is_ValueNode (children ! i) = (i = 16)"
    and out: "\<And>i. i \<notin> live children \<Longrightarrow> ms i = Map.empty"
  shows "\<exists>n'. reduceFull nodes p children = Ok (True, n', None) \<and> denotes nodes n' (branch_map ms) \<and> \<not> is_ValueNode n' \<and> \<not> is_HashNode n'"
proof -
  obtain j where j: "j \<in> live children" using ne by auto
  then have j17: "j < 17" using len by (simp add: live_def)
  show ?thesis
  proof (cases "live children = {j}")
    case False
    then obtain i where i: "i \<in> live children" "i \<noteq> j" using j by auto
    have fin: "finite (live children)" by (simp add: live_def)
    have "card {i, j} \<le> card (live children)" by (rule card_mono [OF fin]) (use i j in auto)
    then have "denotes nodes (FullNode children newFlag) (branch_map ms)"
      using i(2) by (intro denotes.full) (use len ch out in auto)
    moreover have "onlyChild children 0 (-1) = -2" using onlyChild_several [OF i(1) j i(2)] .
    ultimately show ?thesis by (simp add: reduceFull_def)
  next
    case True
    let ?c = "children ! j" and ?b = "of_nat j :: byte"
    have o: "onlyChild children 0 (-1) = int j" using onlyChild_single [OF True, of 0] by simp
    have c: "denotes nodes ?c (ms j)" "is_ValueNode ?c = (j = 16)" using ch [OF j] by blast+
    have m: "branch_map ms = prefixed [?b] (ms j)" by (rule branch_single [OF j17]) (use out True in simp)
    show ?thesis
    proof (cases "j = 16")
      case 16: True
      then obtain v where v: "?c = ValueNode v" using c(2) by (cases ?c) auto
      then have "v \<noteq> []" "ms j = [[] \<mapsto> v]" using c(1) by (auto elim: denotes_ValueE)
      then have "denotes nodes (ShortNode [?b] ?c newFlag) (branch_map ms)"
        using denotes.leaf [of "[]" v nodes newFlag] unfolding m v by (simp add: 16 prefixed_single)
      then show ?thesis by (simp add: reduceFull_def o 16)
    next
      case False
      have b: "nibbles [?b]" using j17 False by (simp add: word_less_nat_alt unsigned_of_nat take_bit_eq_mod)
      have nv: "\<not> is_ValueNode ?c" using c(2) False by simp
      have r: "resolve nodes ?c p = Ok (Inr (resolved nodes ?c))" by (rule resolve_Ok [OF c(1) nv])
      show ?thesis
      proof (cases "resolved nodes ?c")
        case (ShortNode k v g)
        have "denotes nodes (ShortNode (?b # k) v newFlag) (branch_map ms)"
          using merge_denotes [of nodes k v g "ms j" "[?b]"] denotes_resolved [OF c(1)] b unfolding ShortNode m by simp
        then show ?thesis using r False by (simp add: reduceFull_def o ShortNode)
      next
        case (FullNode ch' g)
        have "denotes nodes (ShortNode [?b] ?c newFlag) (branch_map ms)"
          unfolding m by (rule denotes.extension [OF b _ c(1)]) (simp_all add: FullNode)
        then show ?thesis using r False by (simp add: reduceFull_def o FullNode)
      qed (use denotes_open [OF c(1) nv] in simp_all)
    qed
  qed
qed

text \<open>No subtrie is empty, and below a full node there are at least two keys.\<close>

lemma branch_at: "i < 17 \<Longrightarrow> branch_map ms (of_nat i # k) = ms i k"
  by (simp add: branch_map_def unsigned_of_nat take_bit_eq_mod)

lemma live_one: "2 \<le> card (live children) \<Longrightarrow> \<exists>i j. i \<in> live children \<and> j \<in> live children \<and> i \<noteq> j"
proof (rule ccontr)
  assume a: "2 \<le> card (live children)" "\<not> (\<exists>i j. i \<in> live children \<and> j \<in> live children \<and> i \<noteq> j)"
  have "finite (live children)" by (simp add: live_def)
  then have "card (live children) \<le> Suc 0" using a(2) card_le_Suc0_iff_eq [of "live children"] by blast
  then show False using a(1) by simp
qed

lemma denotes_nonempty: "denotes nodes n m \<Longrightarrow> \<exists>k. m k \<noteq> None"
proof (induction rule: denotes.induct)
  case (extension ns c m f)
  then show ?case by (metis prefixed_append)
next
  case (full children ms f)
  then obtain i k where "i \<in> live children" "ms i k \<noteq> None" using live_one [of children] by blast
  then show ?case using full.hyps(1) branch_at [of i ms k] by (metis live_def mem_Collect_eq)
qed auto

text \<open>Below a full node keys start with different nibbles.\<close>

definition spread :: "(bytes \<Rightarrow> bytes option) \<Rightarrow> bool" where
  "spread m \<longleftrightarrow> (\<exists>a b x y. x \<noteq> y \<and> m (x # a) \<noteq> None \<and> m (y # b) \<noteq> None)"

lemma full_spread:
  assumes "denotes nodes n m" "is_FullNode (resolved nodes n)"
  shows "spread m"
proof -
  obtain children f where n: "resolved nodes n = FullNode children f" using assms(2) by (cases "resolved nodes n") auto
  obtain ms where ms: "m = branch_map ms" "length children = 17" "2 \<le> card (live children)"
    "\<And>i. i \<in> live children \<Longrightarrow> denotes nodes (children ! i) (ms i)"
    using denotes_resolved [OF assms(1)] unfolding n by (auto elim: denotes_FullE)
  obtain i j where ij: "i \<in> live children" "j \<in> live children" "i \<noteq> j" using live_one [OF ms(3)] by blast
  then have lt: "i < 17" "j < 17" using ms(2) by (auto simp: live_def)
  obtain a b where "ms i a \<noteq> None" "ms j b \<noteq> None" using denotes_nonempty ms(4) ij by meson
  then have e: "m (of_nat i # a) \<noteq> None" "m (of_nat j # b) \<noteq> None" using lt by (simp_all add: ms(1) branch_at)
  moreover have "(of_nat i :: byte) \<noteq> of_nat j"
    using lt ij(3) by (simp add: word_unat_eq_iff unsigned_of_nat take_bit_eq_mod)
  ultimately show ?thesis unfolding spread_def by blast
qed

lemma full_keeps:
  assumes "denotes nodes n m" "is_FullNode (resolved nodes n)"
  shows "m(k := None) \<noteq> Map.empty"
proof -
  obtain a b x y where "x \<noteq> y" "m (x # a) \<noteq> None" "m (y # b) \<noteq> None" using full_spread [OF assms] unfolding spread_def by blast
  moreover from this have "k \<noteq> x # a \<or> k \<noteq> y # b" by auto
  ultimately show ?thesis by (metis fun_upd_other)
qed

definition deleted :: "nodeReader \<Rightarrow> (bytes \<Rightarrow> bytes option) \<Rightarrow> bytes \<Rightarrow> bool \<Rightarrow> node \<Rightarrow> bool" where
  "deleted nodes m k d n' \<longleftrightarrow> sub nodes n' (m(k := None)) \<and> (d \<or> m k = None) \<and> (d \<longrightarrow> \<not> is_HashNode n')"

lemma deleted_same: "denotes nodes n m \<Longrightarrow> \<not> is_ValueNode n \<Longrightarrow> m k = None \<Longrightarrow> deleted nodes m k False n"
  by (simp add: deleted_def sub_def fun_upd_idem)

lemma delete_ok:
  assumes "denotes nodes n m" "fits n k" "need n k \<le> fuel"
  shows "\<exists>d n'. delete_node nodes fuel n pre k = Ok (d, n', None) \<and> deleted nodes m k d n'"
  using assms
proof (induction arbitrary: k fuel pre rule: denotes.induct)
  case (val w)
  then obtain fl where fl: "fuel = Suc fl" "k = []" by (cases fuel) (auto simp: need_def fits_def)
  have "deleted nodes [[] \<mapsto> w] k True NilNode" by (simp add: deleted_def sub_def fl)
  moreover have "delete_node nodes fuel (ValueNode w) pre k = Ok (True, NilNode, None)" by (simp add: fl)
  ultimately show ?case by blast
next
  case (leaf ns w f)
  have k: "tkey k" using leaf.prems by (simp add: fits_def)
  obtain fl where fl: "fuel = Suc fl" using leaf.prems(2) by (cases fuel) (simp_all add: need_def)
  let ?n = "ShortNode (ns @ [16]) (ValueNode w) f"
  show ?case
  proof (cases "k = ns @ [16]")
    case True
    have "prefixLen (ns @ [16]) (ns @ [16]) = length (ns @ [16])" using prefixLen_full [of "ns @ [16]" "ns @ [16]"] by simp
    then have "delete_node nodes fuel ?n pre k = Ok (True, NilNode, None)" by (simp add: fl True)
    moreover have "deleted nodes [ns @ [16] \<mapsto> w] k True NilNode" by (simp add: deleted_def sub_def True)
    ultimately show ?thesis by blast
  next
    case False
    then have "prefixLen k (ns @ [16]) \<noteq> length (ns @ [16])" using tkey_leaf [OF k _ leaf.hyps(1)] prefixLen_full by metis
    then have "prefixLen k (ns @ [16]) < length (ns @ [16])" using prefixLen_le(2) [of k "ns @ [16]"] by linarith
    then have "delete_node nodes fuel ?n pre k = Ok (False, ?n, None)" by (simp add: fl)
    moreover have "deleted nodes [ns @ [16] \<mapsto> w] k False ?n"
      by (rule deleted_same) (use False denotes.leaf [OF leaf.hyps] in simp_all)
    ultimately show ?thesis by blast
  qed
next
  case (extension ns c m f)
  let ?n = "ShortNode ns c f"
  have nv: "\<not> is_ValueNode c" by (rule not_value_of_full [OF extension.hyps(4)])
  have k: "tkey k" using extension.prems(1) by (simp add: fits_def)
  obtain fl where fl: "fuel = Suc fl" using extension.prems(2) by (cases fuel) (simp_all add: need_def)
  have old: "denotes nodes ?n (prefixed ns m)" by (rule denotes.extension [OF extension.hyps])
  show ?case
  proof (cases "prefixLen k ns = length ns")
    case False
    then have "prefixLen k ns < length ns" using prefixLen_le(2) [of k ns] by simp
    then have "delete_node nodes fuel ?n pre k = Ok (False, ?n, None)" by (simp add: fl)
    moreover have "prefixed ns m k = None" using False prefixLen_full [of k ns] by (simp add: prefixed_def)
    ultimately show ?thesis using deleted_same [OF old] by auto
  next
    case True
    define k' where "k' = drop (length ns) k"
    have kk: "k = ns @ k'" using True prefixLen_full [of k ns] append_take_drop_id [of "length ns" k] by (simp add: k'_def)
    have k': "tkey k'" using extension.hyps(1) k by (simp add: kk tkey_append)
    have "fits c k'" using nv k' by (simp add: fits_def)
    moreover have "need c k' \<le> fl" using extension.hyps(2) extension.prems(2) by (cases ns) (auto simp: need_def kk fl split: if_splits)
    ultimately obtain d nn where r: "delete_node nodes fl c (pre @ ns) k' = Ok (d, nn, None)" and nn: "deleted nodes m k' d nn"
      using extension.IH by blast
    have "length ns < length k" using k' tkey_not_Nil unfolding kk by (cases k') auto
    then have e: "delete_node nodes fuel ?n pre k = (if \<not> d then Ok (False, ?n, None)
        else case nn of ShortNode k2 v2 _ \<Rightarrow> Ok (True, ShortNode (ns @ k2) v2 newFlag, None) | _ \<Rightarrow> Ok (True, ShortNode ns nn newFlag, None))"
      using True r unfolding fl by (simp add: k'_def) (simp add: kk)
    have up: "(prefixed ns m)(k := None) = prefixed ns (m(k' := None))" unfolding kk by (rule prefixed_upd)
    show ?thesis
    proof (cases d)
      case False
      then have "prefixed ns m k = None" using nn unfolding kk by (simp add: deleted_def)
      then show ?thesis using deleted_same [OF old] False e by auto
    next
      case True
      have n': "denotes nodes nn (m(k' := None))" "\<not> is_ValueNode nn" "\<not> is_HashNode nn"
        using nn True full_keeps [OF extension.hyps(3,4), of k'] by (auto simp: deleted_def sub_def)
      then have "is_ShortNode nn \<or> is_FullNode nn" using denotes_open [OF n'(1,2)] by simp
      then show ?thesis
      proof
        assume "is_ShortNode nn"
        then obtain k2 v2 g where s: "nn = ShortNode k2 v2 g" by (cases nn) auto
        have "denotes nodes (ShortNode (ns @ k2) v2 newFlag) (prefixed ns (m(k' := None)))"
          by (rule merge_denotes) (use n'(1) s extension.hyps(1) in auto)
        then have "deleted nodes (prefixed ns m) k True (ShortNode (ns @ k2) v2 newFlag)" by (simp add: deleted_def sub_def up)
        then show ?thesis using e True s by auto
      next
        assume "is_FullNode nn"
        then obtain ch g where s: "nn = FullNode ch g" by (cases nn) auto
        have "denotes nodes (ShortNode ns nn newFlag) (prefixed ns (m(k' := None)))"
          by (rule denotes.extension [OF extension.hyps(1,2) n'(1)]) (simp add: s)
        then have "deleted nodes (prefixed ns m) k True (ShortNode ns nn newFlag)" by (simp add: deleted_def sub_def up)
        then show ?thesis using e True s by auto
      qed
    qed
  qed
next
  case (full children ms f)
  let ?n = "FullNode children f"
  obtain fl where fl: "fuel = Suc fl" using full.prems(2) by (cases fuel) (simp_all add: need_def)
  obtain x xs where x: "k = x # xs" "tkey (x # xs)" using full.prems(1) by (cases k) (auto simp: fits_def tkey_not_Nil)
  let ?i = "unat x"
  have i: "?i < 17" using x(2) by (rule tkey_nibble)
  have fl1: "2 * length xs + 2 \<le> fl" using full.prems(2) by (simp add: need_def x(1) fl)
  have old: "denotes nodes ?n (branch_map ms)" by (rule denotes.full) (use full.IH full.hyps in blast)+
  have up: "(branch_map ms)(k := None) = branch_map (ms(?i := (ms ?i)(xs := None)))"
    by (rule ext) (use i in \<open>auto simp: branch_map_def x(1) word_unat_eq_iff split: list.split\<close>)
  have mk: "branch_map ms k = ms ?i xs" using i by (simp add: branch_map_def x(1))
  show ?case
  proof (cases "?i \<in> live children")
    case False
    then have "children ! ?i = NilNode" "ms ?i = Map.empty" using i full.hyps(1,2) by (auto simp: live_def)
    moreover obtain fl' where "fl = Suc fl'" using fl1 by (cases fl) auto
    ultimately have "delete_node nodes fuel ?n pre k = Ok (False, ?n, None)" "branch_map ms k = None"
      using i full.hyps(1) mk by (simp_all add: fl x(1) childAt_Ok)
    then show ?thesis using deleted_same [OF old] by auto
  next
    case True
    have c: "denotes nodes (children ! ?i) (ms ?i)" "is_ValueNode (children ! ?i) = (?i = 16)" using full.IH [OF True] by blast+
    have f: "fits (children ! ?i) xs" using child_fits [OF x(2) c(2)] .
    have nd: "need (children ! ?i) xs \<le> fl" using fl1 by (simp add: need_def)
    obtain d nn where r: "delete_node nodes fl (children ! ?i) (pre @ [x]) xs = Ok (d, nn, None)" and nn: "deleted nodes (ms ?i) xs d nn"
      using full.IH [OF True, THEN conjunct1, THEN conjunct2, rule_format, OF f nd, of "pre @ [x]"] by blast
    have e: "delete_node nodes fuel ?n pre k = (if \<not> d then Ok (False, ?n, None)
        else if nn \<noteq> NilNode then Ok (True, FullNode (children[?i := nn]) newFlag, None) else reduceFull nodes pre (children[?i := nn]))"
      using r i full.hyps(1) by (simp add: fl x(1) childAt_Ok)
    consider "\<not> d" | "d" "nn \<noteq> NilNode" | "d" "nn = NilNode" by blast
    then show ?thesis
    proof cases
      case 1
      then have "branch_map ms k = None" using nn mk by (simp add: deleted_def)
      then show ?thesis using deleted_same [OF old] 1 e by auto
    next
      case 2
      have n': "denotes nodes nn ((ms ?i)(xs := None))" "\<not> is_ValueNode nn" using nn 2 by (auto simp: deleted_def sub_def)
      have "?i \<noteq> 16"
      proof
        assume "?i = 16"
        then obtain v where "children ! ?i = ValueNode v" using c(2) by (cases "children ! ?i") auto
        then show False using r 2(2) fl1 by (cases fl) auto
      qed
      then have "denotes nodes (FullNode (children[?i := nn]) newFlag) (branch_map (ms(?i := (ms ?i)(xs := None))))"
        using denotes_full_update [of children ?i nodes ms nn "(ms ?i)(xs := None)" newFlag] full.IH full.hyps i n' True
        by (simp add: insert_absorb)
      then have "deleted nodes (branch_map ms) k True (FullNode (children[?i := nn]) newFlag)" by (simp add: deleted_def sub_def up)
      then show ?thesis using e 2 by auto
    next
      case 3
      let ?ch = "children[?i := NilNode]" and ?ms = "ms(?i := (ms ?i)(xs := None))"
      have em: "(ms ?i)(xs := None) = Map.empty" using nn 3 denotes_not_Nil by (auto simp: deleted_def sub_def)
      have l: "live ?ch = live children - {?i}" using i full.hyps(1) by (simp add: live_update)
      obtain a b where "a \<in> live children" "b \<in> live children" "a \<noteq> b" using live_one [OF full.hyps(3)] by blast
      then have "live ?ch \<noteq> {}" unfolding l by auto
      moreover have "denotes nodes (?ch ! j) (?ms j) \<and> is_ValueNode (?ch ! j) = (j = 16)" if "j \<in> live ?ch" for j
        using that full.IH [of j] unfolding l by (auto simp: nth_list_update)
      moreover have "?ms j = Map.empty" if "j \<notin> live ?ch" for j
        using that full.hyps(2) [of j] em unfolding l by (cases "j = ?i") auto
      moreover have "length ?ch = 17" using full.hyps(1) by simp
      ultimately obtain n' where "reduceFull nodes pre ?ch = Ok (True, n', None)" "denotes nodes n' (branch_map ?ms)" "\<not> is_ValueNode n'" "\<not> is_HashNode n'"
        using reduceFull_ok [of ?ch nodes ?ms pre] by blast
      moreover from this have "deleted nodes (branch_map ms) k True n'" by (simp add: deleted_def sub_def up)
      ultimately show ?thesis using e 3 by auto
    qed
  qed
next
  case (hash h n m)
  obtain fl where fl: "fuel = Suc fl" using hash.prems(2) by (cases fuel) (simp_all add: need_def)
  have nv: "\<not> is_ValueNode n" using hash.hyps(2) by (cases n) auto
  have "fits n k" "need n k \<le> fl" using hash.prems hash.hyps(2) fl by (auto simp: fits_def need_def)
  then obtain d n' where r: "delete_node nodes fl n pre k = Ok (d, n', None)" and n': "deleted nodes m k d n'"
    using hash.IH by blast
  have "resolveHash nodes h pre = Ok (Inr n)" using hash.hyps(1,2) by (intro resolveHash_Ok) auto
  then have e: "delete_node nodes fuel (HashNode h) pre k = Ok (d, if d then n' else n, None)" using r by (simp add: fl)
  have "deleted nodes m k d (if d then n' else n)"
    using n' deleted_same [OF hash.hyps(3) nv] by (cases d) (simp_all add: deleted_def [of nodes m k False n'])
  then show ?case using e by blast
qed

end
