(* ===== verification/TrieStore.thy ===== *)
theory TrieStore
  imports TrieEffects
begin

text \<open>
  The trie as a store of values by key bytes.  The interface that the state database relies on is a locale: lookups return what
  was stored last, an empty value removes a key, and a batch of writes leaves the last value of every key.  The trie implements it,
  and it does so canonically: what is in memory is determined by the contents.
\<close>

section \<open>Tries as maps of key bytes\<close>

definition hexmap :: "(bytes \<Rightarrow> bytes option) \<Rightarrow> bytes \<Rightarrow> bytes option" where
  "hexmap f k = (if k \<in> range keybytesToHex then f (inv keybytesToHex k) else None)"

definition represents :: "nodeReader \<Rightarrow> Trie \<Rightarrow> (bytes \<Rightarrow> bytes option) \<Rightarrow> bool" where
  "represents nodes t f \<longleftrightarrow> sub nodes (t_root t) (hexmap f)"

text \<open>Enough fuel for a key.\<close>

definition trieFuel :: "bytes \<Rightarrow> nat" where
  "trieFuel key = 4 * length key + 4"

lemma hexmap_at [simp]: "hexmap f (keybytesToHex key) = f key"
  using keybytesToHex_inj by (simp add: hexmap_def inv_f_f)

lemma hexmap_upd: "hexmap (f(key := w)) = (hexmap f)(keybytesToHex key := w)"
  by (rule ext) (auto simp: hexmap_def keybytesToHex_inj inv_f_f inj_eq)

lemma hexmap_empty [simp]: "hexmap Map.empty = Map.empty"
  by (rule ext) (simp add: hexmap_def)

lemma tkey_keybytesToHex: "tkey (keybytesToHex key)"
  using nibbles_unpack [of key] by (auto simp: tkey_def keybytesToHex_def)

lemma need_trieFuel: "trieFuel key \<le> fuel \<Longrightarrow> need n (keybytesToHex key) \<le> fuel"
  by (simp add: need_def trieFuel_def length_keybytesToHex)

lemma TryGet_represents:
  assumes "represents nodes t f" "trieFuel key \<le> fuel"
  shows "\<exists>t'. Trie_TryGet nodes fuel t key = Ok (t', f key, None) \<and> represents nodes t' f"
proof (cases "t_root t = NilNode")
  case True
  then have "hexmap f = Map.empty" using assms(1) denotes_not_Nil by (auto simp: represents_def sub_def)
  then have "f key = None" by (metis hexmap_at)
  moreover obtain fl where "fuel = Suc fl" using assms(2) by (cases fuel) (simp_all add: trieFuel_def)
  ultimately show ?thesis using True assms(1) by (simp add: Trie_TryGet_def)
next
  case False
  then have d: "denotes nodes (t_root t) (hexmap f)" "\<not> is_ValueNode (t_root t)" using assms(1) by (auto simp: represents_def sub_def)
  obtain n' r where n': "tryGet nodes fuel (t_root t) (keybytesToHex key) 0 = Ok (f key, n', r, None)"
    "if r then denotes nodes n' (hexmap f) \<and> same_kind nodes (t_root t) n' else n' = t_root t"
    using tryGet_ok [OF d(1), of "keybytesToHex key" fuel 0 "keybytesToHex key"] d(2) need_trieFuel [OF assms(2)]
    by (auto simp: fits_def tkey_keybytesToHex)
  have "represents nodes (if r then t\<lparr>t_root := n'\<rparr> else t) f"
    using n'(2) d assms(1) by (auto simp: represents_def sub_def same_kind_def)
  then show ?thesis using n'(1) by (simp add: Trie_TryGet_def)
qed

lemma insert_represents:
  assumes "represents nodes t f" "trieFuel key \<le> fuel" "val \<noteq> []"
  shows "\<exists>d n'. insert_node nodes fuel (t_root t) [] (keybytesToHex key) (ValueNode val) = Ok (d, n', None) \<and>
    sub nodes n' (hexmap (f(key \<mapsto> val)))"
proof (cases "t_root t = NilNode")
  case True
  then have e: "hexmap f = Map.empty" using assms(1) denotes_not_Nil by (auto simp: represents_def sub_def)
  have "keybytesToHex key \<noteq> []" by (simp add: keybytesToHex_def)
  moreover have "denotes nodes (put (keybytesToHex key) (ValueNode val)) [keybytesToHex key \<mapsto> val]"
    by (rule put_value [OF assms(3)]) (simp add: tkey_keybytesToHex)
  moreover have "0 < fuel" using assms(2) by (simp add: trieFuel_def)
  ultimately show ?thesis using True by (auto simp: insert_Nil sub_def hexmap_upd e is_ValueNode_put)
next
  case False
  then have d: "denotes nodes (t_root t) (hexmap f)" "\<not> is_ValueNode (t_root t)" using assms(1) by (auto simp: represents_def sub_def)
  then obtain b n' where "insert_node nodes fuel (t_root t) [] (keybytesToHex key) (ValueNode val) = Ok (b, n', None)"
    "inserted nodes (t_root t) (hexmap f) (keybytesToHex key) val b n'"
    using insert_ok [OF d(1) _ assms(3) need_trieFuel [OF assms(2)], of "[]"] by (auto simp: fits_def tkey_keybytesToHex)
  then show ?thesis using d(2) by (auto simp: inserted_def sub_def hexmap_upd)
qed

lemma delete_represents:
  assumes "represents nodes t f" "trieFuel key \<le> fuel"
  shows "\<exists>d n'. delete_node nodes fuel (t_root t) [] (keybytesToHex key) = Ok (d, n', None) \<and> sub nodes n' (hexmap (f(key := None)))"
proof (cases "t_root t = NilNode")
  case True
  then have e: "hexmap f = Map.empty" using assms(1) denotes_not_Nil by (auto simp: represents_def sub_def)
  obtain fl where "fuel = Suc fl" using assms(2) by (cases fuel) (simp_all add: trieFuel_def)
  then show ?thesis using True by (auto simp: sub_def hexmap_upd e)
next
  case False
  then have d: "denotes nodes (t_root t) (hexmap f)" "\<not> is_ValueNode (t_root t)" using assms(1) by (auto simp: represents_def sub_def)
  then obtain b n' where "delete_node nodes fuel (t_root t) [] (keybytesToHex key) = Ok (b, n', None)"
    "deleted nodes (hexmap f) (keybytesToHex key) b n'"
    using delete_ok [OF d(1) _ need_trieFuel [OF assms(2)], of "[]"] by (auto simp: fits_def tkey_keybytesToHex)
  then show ?thesis by (auto simp: deleted_def hexmap_upd)
qed

lemma TryUpdate_represents:
  assumes "represents nodes t f" "trieFuel key \<le> fuel"
  shows "\<exists>t'. Trie_TryUpdate nodes fuel t key val = Ok (t', None) \<and> represents nodes t' (f(key := if val = [] then None else Some val))"
  using insert_represents [OF assms, of val] delete_represents [OF assms]
  by (cases "val = []") (auto simp: Trie_TryUpdate_def storeRoot_def represents_def Let_def)

lemma TryDelete_represents:
  assumes "represents nodes t f" "trieFuel key \<le> fuel"
  shows "\<exists>t'. Trie_TryDelete nodes fuel t key = Ok (t', None) \<and> represents nodes t' (f(key := None))"
  using delete_represents [OF assms] by (auto simp: Trie_TryDelete_def storeRoot_def represents_def)

section \<open>The interface\<close>

text \<open>Writing a batch of entries, stopping at the first error.\<close>

primrec write_all :: "('s \<Rightarrow> bytes \<Rightarrow> bytes \<Rightarrow> ('s \<times> 'e option) outcome) \<Rightarrow> (bytes \<times> bytes) list \<Rightarrow> 's \<Rightarrow> ('s \<times> 'e option) outcome" where
  "write_all upd [] s = Ok (s, None)"
| "write_all upd (kv # kvs) s =
     bnd (upd s (fst kv) (snd kv)) (\<lambda>(s, err). case err of Some e \<Rightarrow> Ok (s, Some e) | None \<Rightarrow> write_all upd kvs s)"

definition written :: "(bytes \<Rightarrow> bytes option) \<Rightarrow> bytes \<Rightarrow> bytes \<Rightarrow> bytes \<Rightarrow> bytes option" where
  "written f key val = f(key := if val = [] then None else Some val)"

locale byte_store =
  fixes holds :: "'s \<Rightarrow> (bytes \<Rightarrow> bytes option) \<Rightarrow> bool"
    and get :: "'s \<Rightarrow> bytes \<Rightarrow> ('s \<times> bytes option \<times> 'e option) outcome"
    and upd :: "'s \<Rightarrow> bytes \<Rightarrow> bytes \<Rightarrow> ('s \<times> 'e option) outcome"
    and del :: "'s \<Rightarrow> bytes \<Rightarrow> ('s \<times> 'e option) outcome"
  assumes get_law: "holds s f \<Longrightarrow> \<exists>s'. get s k = Ok (s', f k, None) \<and> holds s' f"
    and upd_law: "holds s f \<Longrightarrow> \<exists>s'. upd s k v = Ok (s', None) \<and> holds s' (written f k v)"
    and del_law: "holds s f \<Longrightarrow> \<exists>s'. del s k = Ok (s', None) \<and> holds s' (f(k := None))"
begin

lemma write_all_law:
  "holds s f \<Longrightarrow> \<exists>s'. write_all upd kvs s = Ok (s', None) \<and> holds s' (foldl (\<lambda>f (k, v). written f k v) f kvs)"
proof (induction kvs arbitrary: s f)
  case (Cons kv kvs)
  obtain s1 where s1: "upd s (fst kv) (snd kv) = Ok (s1, None)" "holds s1 (written f (fst kv) (snd kv))"
    using upd_law [OF Cons.prems] by blast
  from Cons.IH [OF s1(2)] s1(1) show ?case by (simp add: case_prod_beta)
qed simp

text \<open>Reading after a batch that writes the key once.\<close>

lemma last_write_read:
  assumes "holds s f" "(k, v) \<in> set kvs" "distinct (map fst kvs)" "v \<noteq> []"
  shows "\<exists>s1 s2. write_all upd kvs s = Ok (s1, None) \<and> get s1 k = Ok (s2, Some v, None)"
proof -
  have "foldl (\<lambda>f (k, v). written f k v) f kvs k = Some v" for f
    using assms(2,3)
  proof (induction kvs arbitrary: f)
    case (Cons kv kvs)
    have keep: "foldl (\<lambda>f (k, v). written f k v) f ls k = f k" if "k \<notin> fst ` set ls" for f ls
      using that by (induction ls arbitrary: f) (auto simp: written_def)
    show ?case
    proof (cases "kv = (k, v)")
      case True
      have "written f k v k = Some v" using assms(4) by (simp add: written_def)
      then show ?thesis using Cons.prems(2) keep [of kvs "written f k v"] True by simp
    next
      case False
      then show ?thesis using Cons.IH Cons.prems by (auto simp: case_prod_beta)
    qed
  qed simp
  then show ?thesis using write_all_law [OF assms(1), of kvs] get_law by metis
qed

text \<open>A store forgets the order of writes to different keys.\<close>

lemma write_order:
  assumes "holds s f" "k \<noteq> k'"
  shows "\<exists>s1 s2 g. write_all upd [(k, v), (k', v')] s = Ok (s1, None) \<and> write_all upd [(k', v'), (k, v)] s = Ok (s2, None) \<and>
    holds s1 g \<and> holds s2 g"
proof -
  have "written (written f k v) k' v' = written (written f k' v') k v" using assms(2) by (auto simp: written_def)
  then have "foldl (\<lambda>f (k, v). written f k v) f [(k, v), (k', v')] = foldl (\<lambda>f (k, v). written f k v) f [(k', v'), (k, v)]" by simp
  with write_all_law [OF assms(1), of "[(k, v), (k', v')]"] write_all_law [OF assms(1), of "[(k', v'), (k, v)]"] show ?thesis by metis
qed

end

interpretation trie: byte_store "represents nodes" "\<lambda>t key. Trie_TryGet nodes (trieFuel key) t key"
  "\<lambda>t key. Trie_TryUpdate nodes (trieFuel key) t key" "\<lambda>t key. Trie_TryDelete nodes (trieFuel key) t key" for nodes
  by unfold_locales (simp_all only: written_def TryGet_represents TryUpdate_represents TryDelete_represents order_refl)

section \<open>Properties\<close>

text \<open>C3. A trie in canonical form, whatever part of it is still in the database, refines a finite map from key bytes to
  values: with fuel in proportion to the key, lookup returns the value stored for the key, update stores a value or removes the key when
  the value is empty, and deletion removes the key; none of them fails, and each leaves a canonical trie of the updated map.\<close>

theorem trie_refines_map:
  assumes "represents nodes t f" "trieFuel key \<le> fuel"
  shows "(\<exists>t'. Trie_TryGet nodes fuel t key = Ok (t', f key, None) \<and> represents nodes t' f) \<and>
    (\<exists>t'. Trie_TryUpdate nodes fuel t key val = Ok (t', None) \<and> represents nodes t' (f(key := if val = [] then None else Some val))) \<and>
    (\<exists>t'. Trie_TryDelete nodes fuel t key = Ok (t', None) \<and> represents nodes t' (f(key := None)))"
  using TryGet_represents [OF assms] TryUpdate_represents [OF assms, of val] TryDelete_represents [OF assms] by blast

definition exampleTrie :: Trie where
  "exampleTrie = \<lparr>t_root = FullNode ((replicate 17 NilNode)[1 := ShortNode [2, 16] (ValueNode [7]) newFlag, 3 := HashNode (hash_Bytes 5)]) newFlag,
     t_unhashed = 0\<rparr>"

definition exampleNodes :: nodeReader where
  "exampleNodes h = Ok (if h = 5 then ShortNode [4, 16] (ValueNode [8]) \<lparr>nf_hash = Some (hash_Bytes 5), nf_dirty = False\<rparr> else NilNode)"

definition exampleContents :: "bytes \<Rightarrow> bytes option" where
  "exampleContents = [[0x12] \<mapsto> [7], [0x34] \<mapsto> [8]]"

lemma example_represents: "represents exampleNodes exampleTrie exampleContents"
proof -
  let ?m1 = "[[2, 16 :: byte] \<mapsto> [7 :: byte]]" and ?m2 = "[[4, 16 :: byte] \<mapsto> [8 :: byte]]"
  let ?ch = "(replicate 17 NilNode)[1 := ShortNode [2, 16] (ValueNode [7]) newFlag, 3 := HashNode (hash_Bytes 5)]"
  have 1: "denotes exampleNodes (ShortNode [2, 16] (ValueNode [7]) newFlag) ?m1"
    using denotes.leaf [of "[2]" "[7]" exampleNodes newFlag] by simp
  have "denotes exampleNodes (ShortNode [4, 16] (ValueNode [8]) g) ?m2" for g
    using denotes.leaf [of "[4]" "[8]" exampleNodes g] by simp
  then have 2: "denotes exampleNodes (HashNode (hash_Bytes 5)) ?m2"
    by (intro denotes.hash [where n = "ShortNode [4, 16] (ValueNode [8]) \<lparr>nf_hash = Some (hash_Bytes 5), nf_dirty = False\<rparr>"])
      (simp_all add: exampleNodes_def)
  let ?ms = "(\<lambda>_. Map.empty)(1 := ?m1, 3 := ?m2)"
  have l: "live ?ch = {1, 3}" by (rule live_two) simp_all
  have d: "denotes exampleNodes (FullNode ?ch newFlag) (branch_map ?ms)"
  proof (rule denotes.full)
    show "denotes exampleNodes (?ch ! i) (?ms i) \<and> is_ValueNode (?ch ! i) = (i = 16)" if "i \<in> live ?ch" for i
    proof -
      have "i = 1 \<or> i = 3" using that unfolding l by simp
      then show ?thesis using 1 2 by (elim disjE) (simp_all add: numeral_3_eq_3)
    qed
    show "?ms i = Map.empty" if "i \<notin> live ?ch" for i using that unfolding l by simp
    show "2 \<le> card (live ?ch)" unfolding l by simp
  qed simp
  have k: "keybytesToHex [0x12] = [1, 2, 16]" "keybytesToHex [0x34] = [3, 4, 16]" by code_simp+
  have "hexmap exampleContents = [[1, 2, 16] \<mapsto> [7], [3, 4, 16] \<mapsto> [8]]"
    unfolding exampleContents_def hexmap_upd k by simp
  moreover have "branch_map ?ms = [[1, 2, 16] \<mapsto> [7], [3, 4, 16] \<mapsto> [8]]"
  proof (rule ext)
    fix z :: bytes
    have u: "unat x = Suc 0 \<longleftrightarrow> x = 1" "unat x = 3 \<longleftrightarrow> x = 3" for x :: byte by (simp_all add: word_unat_eq_iff)
    show "branch_map ?ms z = [[1, 2, 16] \<mapsto> [7], [3, 4, 16] \<mapsto> [8]] z" by (cases z) (auto simp: branch_map_def u)
  qed
  ultimately show ?thesis using d by (simp add: represents_def exampleTrie_def sub_def)
qed

theorem trie_refines_map_witness:
  "represents exampleNodes exampleTrie exampleContents \<and>
   (\<exists>t. Trie_TryGet exampleNodes 8 exampleTrie [0x34] = Ok (t, Some [8], None)) \<and>
   (\<exists>t. Trie_TryDelete exampleNodes 8 exampleTrie [0x12] = Ok (t, None) \<and> represents exampleNodes t (exampleContents([0x12] := None)))"
proof -
  have "exampleContents [0x34] = Some [8]" by (simp add: exampleContents_def)
  then show ?thesis
    using trie_refines_map [OF example_represents, of "[0x34]" 8] trie_refines_map [OF example_represents, of "[0x12]" 8] example_represents
    by (auto simp: trieFuel_def)
qed

end
