(* ===== verification/TrieHash.thy ===== *)
theory TrieHash
  imports TrieStore RlpEncode
begin

text \<open>
  Hashing a trie (\<open>trie/hasher.go\<close>, \<open>fullNode.EncodeRLP\<close> of \<open>trie/node.go\<close>): nodes are encoded bottom up, a node whose
  encoding has at least 32 bytes is replaced by its hash, and the hashes are cached in the nodes.  The variant that hashes the
  sixteen children in goroutines writes disjoint entries and computes the same nodes.
\<close>

section \<open>Encoding nodes\<close>

fun node_val :: "node \<Rightarrow> gval" where
  "node_val NilNode = VInterfaceNil"
| "node_val (ValueNode v) = VBytes v"
| "node_val (HashNode h) = VBytes h"
| "node_val (ShortNode k v f) = VStruct [VBytes k, node_val v]"
| "node_val (FullNode children f) = VSlice (map (\<lambda>c. if c = NilNode then VBytes [] else node_val c) children)"

definition encodeNode :: "node \<Rightarrow> bytes outcome" where
  "encodeNode n = bnd (EncodeToBytes (node_val n)) (\<lambda>r. case r of Inl _ \<Rightarrow> Panic | Inr data \<Rightarrow> Ok data)"

definition hashData :: "(bytes \<Rightarrow> hash) \<Rightarrow> bytes \<Rightarrow> bytes" where
  "hashData keccak data = hash_Bytes (keccak data)"

text \<open>\<open>shortnodeToHash\<close> and \<open>fullnodeToHash\<close>.\<close>

definition nodeToHash :: "(bytes \<Rightarrow> hash) \<Rightarrow> node \<Rightarrow> bool \<Rightarrow> node outcome" where
  "nodeToHash keccak n force =
     bnd (encodeNode n) (\<lambda>tmp. Ok (if length tmp < 32 \<and> \<not> force then n else HashNode (hashData keccak tmp)))"

definition hashOf :: "node \<Rightarrow> bytes option" where
  "hashOf n = (case n of HashNode h \<Rightarrow> Some h | _ \<Rightarrow> None)"

section \<open>The hasher\<close>

fun hash_node :: "(bytes \<Rightarrow> hash) \<Rightarrow> node \<Rightarrow> bool \<Rightarrow> (node \<times> node) outcome"
  and hash_children :: "(bytes \<Rightarrow> hash) \<Rightarrow> nat \<Rightarrow> node list \<Rightarrow> (node list \<times> node list) outcome" where
  "hash_node keccak NilNode force = Panic"
| "hash_node keccak (ShortNode k v f) force =
     (case nf_hash f of
        Some h \<Rightarrow> Ok (HashNode h, ShortNode k v f)
      | None \<Rightarrow>
          bnd (hexToCompact k) (\<lambda>k'.
          bnd (if is_FullNode v \<or> is_ShortNode v then hash_node keccak v False else Ok (v, v)) (\<lambda>(v', cached).
          bnd (nodeToHash keccak (ShortNode k' v' f) force) (\<lambda>hashed.
            Ok (hashed, ShortNode k cached (f\<lparr>nf_hash := hashOf hashed\<rparr>))))))"
| "hash_node keccak (FullNode children f) force =
     (case nf_hash f of
        Some h \<Rightarrow> Ok (HashNode h, FullNode children f)
      | None \<Rightarrow>
          bnd (hash_children keccak 16 children) (\<lambda>(collapsed, cached).
          bnd (nodeToHash keccak (FullNode collapsed f) force) (\<lambda>hashed.
            Ok (hashed, FullNode cached (f\<lparr>nf_hash := hashOf hashed\<rparr>)))))"
| "hash_node keccak (HashNode h) force = Ok (HashNode h, HashNode h)"
| "hash_node keccak (ValueNode v) force = Ok (ValueNode v, ValueNode v)"
| "hash_children keccak i [] = Ok ([], [])"
| "hash_children keccak i (c # children) =
     (if i = 0 then Ok (c # children, c # children)
      else
        bnd (if c = NilNode then Ok (ValueNode [], NilNode) else hash_node keccak c False) (\<lambda>(c', cached).
        bnd (hash_children keccak (i - 1) children) (\<lambda>(cs', cacheds). Ok (c' # cs', cached # cacheds))))"

definition hashRoot :: "(bytes \<Rightarrow> hash) \<Rightarrow> Trie \<Rightarrow> (node \<times> Trie) outcome" where
  "hashRoot keccak t =
     (if t_root t = NilNode then Ok (HashNode (hash_Bytes emptyTrieRoot), t)
      else bnd (hash_node keccak (t_root t) True) (\<lambda>(hashed, cached). Ok (hashed, t\<lparr>t_root := cached, t_unhashed := 0\<rparr>)))"

definition Trie_Hash :: "(bytes \<Rightarrow> hash) \<Rightarrow> Trie \<Rightarrow> (hash \<times> Trie) outcome" where
  "Trie_Hash keccak t =
     bnd (hashRoot keccak t) (\<lambda>(hashed, t). case hashed of HashNode h \<Rightarrow> Ok (BytesToHash h, t) | _ \<Rightarrow> Panic)"

end
