(* ===== verification/TrieRoot.thy ===== *)
theory TrieRoot
  imports TrieHash
begin

text \<open>
  What the hasher computes: the Merkle root of the contents.  The reference definition hashes the fully loaded trie without
  caches; the hasher agrees with it on every trie whose cached hashes and references are genuine, and because canonical tries are
  determined by their contents, so is the root hash.
\<close>

section \<open>The Merkle root of a loaded trie\<close>

definition compactKey :: "bytes \<Rightarrow> bytes" where
  "compactKey k = (case hexToCompact k of Ok c \<Rightarrow> c | _ \<Rightarrow> [])"

fun merkle_body :: "(bytes \<Rightarrow> hash) \<Rightarrow> node \<Rightarrow> gval" and merkle_ref :: "(bytes \<Rightarrow> hash) \<Rightarrow> node \<Rightarrow> gval" where
  "merkle_body keccak (ShortNode k v f) = VStruct [VBytes (compactKey k), merkle_ref keccak v]"
| "merkle_body keccak (FullNode children f) = VSlice (map (merkle_ref keccak) children)"
| "merkle_body keccak (ValueNode v) = VBytes v"
| "merkle_body keccak (HashNode h) = VBytes h"
| "merkle_body keccak NilNode = VBytes []"
| "merkle_ref keccak (ShortNode k v f) =
     (let b = VStruct [VBytes (compactKey k), merkle_ref keccak v]
      in if length (rlp_enc b) < 32 then b else VBytes (hashData keccak (rlp_enc b)))"
| "merkle_ref keccak (FullNode children f) =
     (let b = VSlice (map (merkle_ref keccak) children)
      in if length (rlp_enc b) < 32 then b else VBytes (hashData keccak (rlp_enc b)))"
| "merkle_ref keccak (ValueNode v) = VBytes v"
| "merkle_ref keccak (HashNode h) = VBytes h"
| "merkle_ref keccak NilNode = VBytes []"

definition merkle_root :: "(bytes \<Rightarrow> hash) \<Rightarrow> node \<Rightarrow> hash" where
  "merkle_root keccak p = (if p = NilNode then emptyTrieRoot else keccak (rlp_enc (merkle_body keccak p)))"

abbreviation inner :: "node \<Rightarrow> bool" where
  "inner n \<equiv> is_ShortNode n \<or> is_FullNode n"

lemma merkle_ref_inner:
  "inner p \<Longrightarrow> merkle_ref keccak p =
     (if length (rlp_enc (merkle_body keccak p)) < 32 then merkle_body keccak p else VBytes (hashData keccak (rlp_enc (merkle_body keccak p))))"
  by (cases p) (simp_all add: Let_def)

text \<open>The hash by which a node is known: the hash of a node that is referenced, and always that of the root.\<close>

definition digest :: "(bytes \<Rightarrow> hash) \<Rightarrow> bool \<Rightarrow> node \<Rightarrow> bytes option" where
  "digest keccak r p = (if r \<or> 32 \<le> length (rlp_enc (merkle_body keccak p)) then Some (hashData keccak (rlp_enc (merkle_body keccak p))) else None)"

definition cache_ok :: "(bytes \<Rightarrow> hash) \<Rightarrow> bool \<Rightarrow> nodeFlag \<Rightarrow> node \<Rightarrow> bool" where
  "cache_ok keccak r f p \<longleftrightarrow> nf_hash f = None \<or> nf_hash f = digest keccak r p"

definition noFlag :: nodeFlag where
  "noFlag = \<lparr>nf_hash = None, nf_dirty = False\<rparr>"

section \<open>Loading a trie\<close>

text \<open>\<open>expands keccak nodes r n p\<close>: the node \<open>n\<close> with everything below it loaded is \<open>p\<close>, and its cached hashes and references
  are those of the loaded nodes (\<open>r\<close> at the root, where the hash is forced).\<close>

inductive expands :: "(bytes \<Rightarrow> hash) \<Rightarrow> nodeReader \<Rightarrow> bool \<Rightarrow> node \<Rightarrow> node \<Rightarrow> bool" for keccak nodes where
  nil: "expands keccak nodes r NilNode NilNode"
| val: "expands keccak nodes r (ValueNode v) (ValueNode v)"
| short: "expands keccak nodes False c p \<Longrightarrow> cache_ok keccak r f (ShortNode k p noFlag) \<Longrightarrow>
    expands keccak nodes r (ShortNode k c f) (ShortNode k p noFlag)"
| full: "list_all2 (expands keccak nodes False) children ps \<Longrightarrow> cache_ok keccak r f (FullNode ps noFlag) \<Longrightarrow>
    expands keccak nodes r (FullNode children f) (FullNode ps noFlag)"
| hash: "nodes (BytesToHash h) = Ok n \<Longrightarrow> inner n \<Longrightarrow> expands keccak nodes r n p \<Longrightarrow> digest keccak r p = Some h \<Longrightarrow>
    expands keccak nodes r (HashNode h) p"

inductive_cases expands_NilE: "expands keccak nodes r NilNode p"
inductive_cases expands_ValueE: "expands keccak nodes r (ValueNode v) p"
inductive_cases expands_ShortE: "expands keccak nodes r (ShortNode k c f) p"
inductive_cases expands_FullE: "expands keccak nodes r (FullNode children f) p"
inductive_cases expands_HashE: "expands keccak nodes r (HashNode h) p"

text \<open>Loaded tries hold no references and no caches.\<close>

fun loaded :: "node \<Rightarrow> bool" where
  "loaded (ShortNode k v f) \<longleftrightarrow> f = noFlag \<and> loaded v"
| "loaded (FullNode children f) \<longleftrightarrow> f = noFlag \<and> (\<forall>c \<in> set children. loaded c)"
| "loaded (HashNode h) \<longleftrightarrow> False"
| "loaded _ \<longleftrightarrow> True"

lemma expands_loaded: "expands keccak nodes r n p \<Longrightarrow> loaded p"
proof (induction rule: expands.induct)
  case (full children ps r f)
  then show ?case by (auto simp: list_all2_conv_all_nth in_set_conv_nth)
qed auto

lemma expands_kind:
  assumes "expands keccak nodes r n p"
  shows "is_ValueNode p = is_ValueNode n" "is_FullNode p = is_FullNode (resolved nodes n)" "p = NilNode \<longleftrightarrow> n = NilNode" "inner n \<Longrightarrow> inner p"
proof -
  have *: "is_ValueNode p = is_ValueNode n \<and> is_FullNode p = is_FullNode (resolved nodes n) \<and> (p = NilNode \<longleftrightarrow> n = NilNode) \<and> (inner n \<longrightarrow> inner p)"
    using assms
  proof (induction rule: expands.induct)
    case (hash h n r p)
    have "resolved nodes (HashNode h) = n" using hash.hyps(1) by (rule resolved_hash)
    moreover have "resolved nodes n = n" using hash.hyps(2) by auto
    ultimately show ?case using hash.IH hash.hyps(2) by auto
  qed auto
  then show "is_ValueNode p = is_ValueNode n" "is_FullNode p = is_FullNode (resolved nodes n)" "p = NilNode \<longleftrightarrow> n = NilNode" "inner n \<Longrightarrow> inner p"
    by blast+
qed

lemma digest_mono: "digest keccak False p = Some h \<Longrightarrow> digest keccak r p = Some h"
  by (simp add: digest_def split: if_splits)

lemma cache_ok_mono: "cache_ok keccak False f p \<Longrightarrow> cache_ok keccak r f p"
  by (auto simp: cache_ok_def digest_def split: if_splits)

lemma expands_mono: "expands keccak nodes b n p \<Longrightarrow> \<not> b \<Longrightarrow> expands keccak nodes r n p"
proof (induction rule: expands.induct)
  case (full children ps b f)
  then have "list_all2 (expands keccak nodes False) children ps" by (auto elim: list_all2_mono)
  then show ?case using full by (auto intro: expands.full cache_ok_mono)
qed (auto intro: expands.intros cache_ok_mono digest_mono)

section \<open>The hasher computes the Merkle root\<close>

text \<open>Tries whose nodes can be encoded: keys of nibbles, moderate lengths, and nothing but a value under the terminator.\<close>

fun tidy :: "node \<Rightarrow> bool" where
  "tidy (ShortNode k v f) \<longleftrightarrow> (\<exists>ns t. k = terminated ns t \<and> nibbles ns) \<and> length k \<le> 2 ^ 32 \<and> tidy v \<and> v \<noteq> NilNode"
| "tidy (FullNode children f) \<longleftrightarrow> length children = 17 \<and> (\<forall>c \<in> set children. tidy c) \<and> \<not> inner (children ! 16)"
| "tidy (ValueNode v) \<longleftrightarrow> length v \<le> 2 ^ 32"
| "tidy (HashNode h) \<longleftrightarrow> False"
| "tidy NilNode \<longleftrightarrow> True"

lemma hexToCompact_ok:
  assumes "nibbles ns"
  shows "hexToCompact (terminated ns t) = Ok (compactKey (terminated ns t)) \<and> length (compactKey (terminated ns t)) \<le> length ns + 1"
proof -
  obtain b bs where c: "hexToCompact (terminated ns t) = Ok (b # bs)" "unpack bs = (if odd (length ns) then tl ns else ns)"
    using hexToCompact_spec [OF assms, of t] by blast
  have "2 * length bs \<le> length ns" using arg_cong [OF c(2), of length] by (simp split: if_splits)
  then show ?thesis using c(1) by (simp add: compactKey_def)
qed

lemma length_hashData [simp]: "length (hashData keccak data) = 32"
  by (simp add: hashData_def)

lemma merkle_ref_small: "tidy p \<Longrightarrow> length (rlp_enc (merkle_ref keccak p)) \<le> 9 + 2 ^ 32"
proof -
  assume t: "tidy p"
  have h: "length (rlp_enc (VBytes (hashData keccak d))) \<le> 9 + 2 ^ 32" for d
    using length_rlp_string_le [of "hashData keccak d"] by simp
  show ?thesis
  proof (cases "inner p")
    case True
    then show ?thesis using h by (simp add: merkle_ref_inner)
  next
    case False
    then show ?thesis
    proof (cases p)
      case (ValueNode v)
      then show ?thesis using t length_rlp_string_le [of v] by simp
    qed (use t length_rlp_string_le [of "[]"] in simp_all)
  qed
qed

lemma merkle_ref_encodable: "tidy p \<Longrightarrow> encodable (merkle_ref keccak p)"
proof (induction p)
  case (FullNode children f)
  then show ?case by (auto simp: Let_def list_all_iff)
next
  case (ShortNode k v f)
  then show ?case by (auto simp: Let_def)
qed simp_all

lemma merkle_body_small:
  assumes "tidy p"
  shows "encodable (merkle_body keccak p) \<and> length (rlp_enc (merkle_body keccak p)) < 2 ^ 64"
proof (cases p)
  case (ShortNode k v f)
  then obtain ns t where k: "k = terminated ns t" "nibbles ns" "length k \<le> 2 ^ 32" "tidy v" using assms by auto
  let ?b = "rlp_string (compactKey k) @ rlp_enc (merkle_ref keccak v)"
  have "length (compactKey k) \<le> 2 ^ 32 + 1" using hexToCompact_ok [OF k(2), of t] k(1,3) by auto
  then have "length ?b \<le> 9 + (2 ^ 32 + 1) + (9 + 2 ^ 32)"
    using length_rlp_string_le [of "compactKey k"] merkle_ref_small [OF k(4), of keccak] by simp
  then have "length (rlp_list ?b) < 2 ^ 64" using length_rlp_list_le [of ?b] by simp
  then show ?thesis using ShortNode merkle_ref_encodable [OF k(4)] by simp
next
  case (FullNode children f)
  have "length (concat (map (rlp_enc \<circ> merkle_ref keccak) children)) \<le> length children * (9 + 2 ^ 32)"
    by (rule length_concat_le) (use assms FullNode merkle_ref_small in auto)
  then have "length (rlp_list (concat (map (rlp_enc \<circ> merkle_ref keccak) children))) < 2 ^ 64"
    using length_rlp_list_le [of "concat (map (rlp_enc \<circ> merkle_ref keccak) children)"] assms FullNode by simp
  then show ?thesis using FullNode assms merkle_ref_encodable by (auto simp: list_all_iff)
next
  case (ValueNode v)
  then show ?thesis using assms length_rlp_string_le [of v] by simp
qed (use assms length_rlp_string_le [of "[]"] in simp_all)

lemma nodeToHash_eq:
  assumes "node_val n = b" "encodable b" "length (rlp_enc b) < 2 ^ 64"
  shows "nodeToHash keccak n force = Ok (if length (rlp_enc b) < 32 \<and> \<not> force then n else HashNode (hashData keccak (rlp_enc b)))"
  using EncodeToBytes_eq [OF assms(2,3)] by (simp add: nodeToHash_def encodeNode_def assms(1))

text \<open>What the hasher returns for a node that loads as \<open>p\<close>: its hash if it has one, its collapsed form otherwise.\<close>

definition hashed_as :: "(bytes \<Rightarrow> hash) \<Rightarrow> bool \<Rightarrow> node \<Rightarrow> node \<Rightarrow> bool" where
  "hashed_as keccak force p r \<longleftrightarrow>
     (if inner p then hashOf r = digest keccak force p \<and> (digest keccak force p = None \<longrightarrow> node_val r = merkle_body keccak p) else r = p)"

lemma hashOf_Some: "hashOf r = Some h \<longleftrightarrow> r = HashNode h"
  by (cases r) (auto simp: hashOf_def)

lemma hashed_as_ref: "hashed_as keccak False p r \<Longrightarrow> p \<noteq> NilNode \<Longrightarrow> \<not> is_HashNode p \<Longrightarrow> node_val r = merkle_ref keccak p"
  by (cases p) (auto simp: hashed_as_def digest_def hashOf_Some merkle_ref_inner not_less split: if_splits)

lemma merkle_ref_not_nil: "merkle_ref keccak p \<noteq> VInterfaceNil"
  by (cases p) (simp_all add: Let_def)

lemma hashed_as_digest: "inner p \<Longrightarrow> digest keccak force p = Some h \<Longrightarrow> hashed_as keccak force p (HashNode h)"
  by (simp add: hashed_as_def hashOf_def)

lemma nodeToHash_hashed:
  assumes "node_val n = merkle_body keccak p" "tidy p" "inner p" "\<not> is_HashNode n"
  shows "\<exists>r. nodeToHash keccak n force = Ok r \<and> hashed_as keccak force p r"
proof -
  have "nodeToHash keccak n force = Ok (if length (rlp_enc (merkle_body keccak p)) < 32 \<and> \<not> force then n
      else HashNode (hashData keccak (rlp_enc (merkle_body keccak p))))"
    using merkle_body_small [OF assms(2), of keccak] by (intro nodeToHash_eq [OF assms(1)]) blast+
  moreover have "hashOf n = None" using assms(4) by (cases n) (simp_all add: hashOf_def)
  ultimately show ?thesis using assms by (auto simp: hashed_as_def digest_def hashOf_def not_less)
qed

text \<open>Children of full nodes: the hashed children encode as the references of the loaded ones.\<close>

definition hashes_to :: "(bytes \<Rightarrow> hash) \<Rightarrow> nodeReader \<Rightarrow> bool \<Rightarrow> node \<Rightarrow> node \<Rightarrow> bool" where
  "hashes_to keccak nodes force n p \<longleftrightarrow>
     (\<exists>r n'. hash_node keccak n force = Ok (r, n') \<and> expands keccak nodes force n' p \<and> hashed_as keccak force p r)"

abbreviation child_val :: "node \<Rightarrow> gval" where
  "child_val c \<equiv> if c = NilNode then VBytes [] else node_val c"

lemma expands_not_Hash: "expands keccak nodes r n p \<Longrightarrow> \<not> is_HashNode p"
  by (drule expands_loaded) (cases p; simp)

lemma leaf_child_val: "expands keccak nodes r c p \<Longrightarrow> \<not> inner p \<Longrightarrow> child_val c = merkle_ref keccak p"
  by (erule expands.cases) (auto dest: expands_kind(4))

lemma hash_children_ok:
  assumes "list_all2 (\<lambda>c p. expands keccak nodes False c p \<and> (c \<noteq> NilNode \<longrightarrow> hashes_to keccak nodes False c p)) cs ps"
    and "\<And>j. j < length ps \<Longrightarrow> i \<le> j \<Longrightarrow> \<not> inner (ps ! j)"
  shows "\<exists>cs' cached. hash_children keccak i cs = Ok (cs', cached) \<and> map child_val cs' = map (merkle_ref keccak) ps \<and>
    list_all2 (expands keccak nodes False) cached ps"
  using assms
proof (induction arbitrary: i rule: list_all2_induct)
  case (Cons c cs p ps)
  show ?case
  proof (cases "i = 0")
    case True
    have all: "list_all2 (expands keccak nodes False) (c # cs) (p # ps)"
      using Cons.hyps list_all2_mono [OF Cons.hyps(2)] by simp
    have "map child_val (c # cs) = map (merkle_ref keccak) (p # ps)"
    proof (rule nth_equalityI)
      fix j assume j: "j < length (map child_val (c # cs))"
      have "expands keccak nodes False ((c # cs) ! j) ((p # ps) ! j)" using list_all2_nthD [OF all, of j] j by simp
      moreover have "\<not> inner ((p # ps) ! j)" using Cons.prems [of j] j list_all2_lengthD [OF all] True by simp
      ultimately have "child_val ((c # cs) ! j) = merkle_ref keccak ((p # ps) ! j)" by (rule leaf_child_val)
      moreover have "j < length (c # cs)" "j < length (p # ps)" using j list_all2_lengthD [OF all] by simp_all
      ultimately show "map child_val (c # cs) ! j = map (merkle_ref keccak) (p # ps) ! j" by (simp only: nth_map)
    qed (use list_all2_lengthD [OF all] in simp)
    then show ?thesis using all True by simp
  next
    case False
    then obtain i' where i: "i = Suc i'" by (cases i) auto
    obtain cs' cached where r: "hash_children keccak i' cs = Ok (cs', cached)" "map child_val cs' = map (merkle_ref keccak) ps"
      "list_all2 (expands keccak nodes False) cached ps"
      using Cons.IH [of i'] Cons.prems [of "Suc _"] i by force
    show ?thesis
    proof (cases "c = NilNode")
      case True
      then have "p = NilNode" using Cons.hyps(1) expands_kind(3) by blast
      then show ?thesis using r True i by (auto intro: expands.nil)
    next
      case False
      then obtain x c' where x: "hash_node keccak c False = Ok (x, c')" "expands keccak nodes False c' p" "hashed_as keccak False p x"
        using Cons.hyps(1) by (auto simp: hashes_to_def)
      have "p \<noteq> NilNode" using False Cons.hyps(1) expands_kind(3) by blast
      then have "node_val x = merkle_ref keccak p" using hashed_as_ref [OF x(3)] expands_not_Hash [OF x(2)] by blast
      moreover from this have "x \<noteq> NilNode" using merkle_ref_not_nil [of keccak p] by auto
      ultimately show ?thesis using r x False i by auto
    qed
  qed
qed simp

lemma hash_node_ok:
  assumes "expands keccak nodes b n p" "tidy p" "n \<noteq> NilNode" "b \<longrightarrow> force"
  shows "hashes_to keccak nodes force n p"
  using assms
proof (induction arbitrary: force rule: expands.induct)
  case (val r v)
  then show ?case by (simp add: hashes_to_def hashed_as_def expands.val)
next
  case (short c pc r f k)
  let ?p = "ShortNode k pc noFlag"
  have sh: "expands keccak nodes force (ShortNode k c g) ?p" if "cache_ok keccak force g ?p" for g
    using short.hyps(1) that by (rule expands.short)
  show ?case
  proof (cases "nf_hash f")
    case (Some h)
    then have "digest keccak r ?p = Some h" using short.hyps(2) by (simp add: cache_ok_def)
    then have d: "digest keccak force ?p = Some h" using short.prems(3) by (auto simp: digest_def split: if_splits)
    then have "expands keccak nodes force (ShortNode k c f) ?p" using Some by (intro sh) (simp add: cache_ok_def)
    then show ?thesis using Some hashed_as_digest [OF _ d] by (simp add: hashes_to_def)
  next
    case None
    obtain ns t where k: "k = terminated ns t" "nibbles ns" "tidy pc" "pc \<noteq> NilNode" using short.prems(1) by auto
    have hc: "hexToCompact k = Ok (compactKey k)" using hexToCompact_ok [OF k(2)] k(1) by simp
    have "c \<noteq> NilNode" using short.hyps(1) k(4) expands_kind(3) by blast
    have "\<exists>v' c'. (if is_FullNode c \<or> is_ShortNode c then hash_node keccak c False else Ok (c, c)) = Ok (v', c') \<and>
        node_val v' = merkle_ref keccak pc \<and> expands keccak nodes False c' pc"
    proof (cases "inner c")
      case True
      then obtain v' c' where "hash_node keccak c False = Ok (v', c')" "expands keccak nodes False c' pc" "hashed_as keccak False pc v'"
        using short.IH [OF k(3) \<open>c \<noteq> NilNode\<close>, of False] unfolding hashes_to_def by blast
      then show ?thesis using True hashed_as_ref [OF _ k(4)] expands_not_Hash by auto
    next
      case False
      have "node_val c = merkle_ref keccak pc"
        using short.hyps(1)
      proof cases
        case (hash h n)
        then have "inner pc" using expands_kind(4) by blast
        then show ?thesis using hash by (auto simp: merkle_ref_inner digest_def split: if_splits)
      qed (use False k(4) in simp_all)
      then show ?thesis using False short.hyps(1) by auto
    qed
    then obtain v' c' where v': "(if is_FullNode c \<or> is_ShortNode c then hash_node keccak c False else Ok (c, c)) = Ok (v', c')"
      "node_val v' = merkle_ref keccak pc" "expands keccak nodes False c' pc" by blast
    obtain x where x: "nodeToHash keccak (ShortNode (compactKey k) v' f) force = Ok x" "hashed_as keccak force ?p x"
      using nodeToHash_hashed [of "ShortNode (compactKey k) v' f" keccak ?p force] v'(2) short.prems(1) by auto
    have "expands keccak nodes force (ShortNode k c' (f\<lparr>nf_hash := hashOf x\<rparr>)) ?p"
      using x(2) by (intro expands.short [OF v'(3)]) (simp add: cache_ok_def hashed_as_def)
    then show ?thesis using None hc v'(1) x by (auto simp: hashes_to_def)
  qed
next
  case (full children ps r f)
  let ?p = "FullNode ps noFlag"
  have all: "list_all2 (expands keccak nodes False) children ps" using full.IH by (auto elim: list_all2_mono)
  show ?case
  proof (cases "nf_hash f")
    case (Some h)
    then have "digest keccak r ?p = Some h" using full.hyps by (simp add: cache_ok_def)
    then have d: "digest keccak force ?p = Some h" using full.prems(3) by (auto simp: digest_def split: if_splits)
    then have "expands keccak nodes force (FullNode children f) ?p" using Some by (intro expands.full [OF all]) (simp add: cache_ok_def)
    then show ?thesis using Some hashed_as_digest [OF _ d] by (simp add: hashes_to_def)
  next
    case None
    have t: "length ps = 17" "\<And>q. q \<in> set ps \<Longrightarrow> tidy q" "\<not> inner (ps ! 16)" using full.prems(1) by auto
    have "list_all2 (\<lambda>c p. expands keccak nodes False c p \<and> (c \<noteq> NilNode \<longrightarrow> hashes_to keccak nodes False c p)) children ps"
      using full.IH by (rule list.rel_mono_strong) (use t(2) in auto)
    moreover have "\<not> inner (ps ! j)" if "j < length ps" "16 \<le> j" for j
    proof -
      have "j = 16" using that t(1) by linarith
      then show ?thesis using t(3) by simp
    qed
    ultimately obtain cs' cached where c: "hash_children keccak 16 children = Ok (cs', cached)" "map child_val cs' = map (merkle_ref keccak) ps"
      "list_all2 (expands keccak nodes False) cached ps"
      using hash_children_ok by blast
    obtain x where x: "nodeToHash keccak (FullNode cs' f) force = Ok x" "hashed_as keccak force ?p x"
      using nodeToHash_hashed [of "FullNode cs' f" keccak ?p force] c(2) full.prems(1) by auto
    have "expands keccak nodes force (FullNode cached (f\<lparr>nf_hash := hashOf x\<rparr>)) ?p"
      using x(2) by (intro expands.full [OF c(3)]) (simp add: cache_ok_def hashed_as_def)
    then show ?thesis using None c(1) x by (auto simp: hashes_to_def)
  qed
next
  case (hash h n r p)
  have i: "inner p" using expands_kind(4) hash.hyps by blast
  have d: "digest keccak force p = Some h" using hash.hyps(4) hash.prems(3) by (auto simp: digest_def split: if_splits)
  have "expands keccak nodes force n p" using hash.hyps(3) hash.prems(3) expands_mono [of keccak nodes r n p] by (cases r) simp_all
  then have "expands keccak nodes force (HashNode h) p" using expands.hash [of nodes h n keccak force p] hash.hyps(1,2) d by blast
  then show ?case using hashed_as_digest [OF i d] by (simp add: hashes_to_def)
qed simp

lemma Trie_Hash_ok:
  assumes "expands keccak nodes True (t_root t) p" "tidy p" "\<not> is_ValueNode p"
  shows "\<exists>u. Trie_Hash keccak t = Ok (merkle_root keccak p, u) \<and> expands keccak nodes True (t_root u) p"
proof (cases "t_root t = NilNode")
  case True
  then have "p = NilNode" using assms(1) expands_kind(3) by blast
  then show ?thesis using True assms(1) by (simp add: Trie_Hash_def hashRoot_def merkle_root_def)
next
  case False
  obtain r n' where r: "hash_node keccak (t_root t) True = Ok (r, n')" "expands keccak nodes True n' p" "hashed_as keccak True p r"
    using hash_node_ok [OF assms(1,2) False, of True] unfolding hashes_to_def by blast
  have p: "inner p" "p \<noteq> NilNode" using assms(3) expands_kind(3) [OF assms(1)] expands_not_Hash [OF assms(1)] False by (cases p; simp)+
  then have "r = HashNode (hashData keccak (rlp_enc (merkle_body keccak p)))" using r(3) by (simp add: hashed_as_def digest_def hashOf_Some)
  then have "Trie_Hash keccak t = Ok (merkle_root keccak p, t\<lparr>t_root := n', t_unhashed := 0\<rparr>)"
    using r(1) False p(2) by (simp add: Trie_Hash_def hashRoot_def merkle_root_def hashData_def)
  then show ?thesis using r(2) by simp
qed

section \<open>Canonical tries are determined by their contents\<close>

lemma expands_denotes:
  assumes "denotes nodes n m" "expands keccak nodes r n p"
  shows "denotes N p m"
  using assms
proof (induction arbitrary: r p rule: denotes.induct)
  case (val v)
  from val.prems have "p = ValueNode v" by (rule expands_ValueE)
  with denotes.val [OF val.hyps] show ?case by (simp only:)
next
  case (leaf ns v f)
  from leaf.prems have "p = ShortNode (ns @ [16]) (ValueNode v) noFlag" by (auto elim!: expands_ShortE expands_ValueE)
  with denotes.leaf [OF leaf.hyps] show ?case by (simp only:)
next
  case (extension ns c m f)
  then obtain q where q: "expands keccak nodes False c q" "p = ShortNode ns q noFlag" by (auto elim: expands_ShortE)
  have "is_FullNode q" using expands_kind(2) [OF q(1)] extension.hyps(4) by simp
  then have "is_FullNode (resolved N q)" by (cases q) simp_all
  then show ?case using extension.IH [OF q(1)] extension.hyps(1,2) unfolding q(2) by (intro denotes.extension) auto
next
  case (full children ms f)
  from full.prems obtain ps where ps: "list_all2 (expands keccak nodes False) children ps" "p = FullNode ps noFlag" by (auto elim: expands_FullE)
  have len: "length ps = 17" using list_all2_lengthD [OF ps(1)] full.hyps(1) by simp
  have e: "expands keccak nodes False (children ! i) (ps ! i)" if "i < 17" for i
    using list_all2_nthD [OF ps(1), of i] that full.hyps(1) by simp
  have l: "live ps = live children" using len full.hyps(1) expands_kind(3) [OF e] by (auto simp: live_def)
  have lt: "i < 17" if "i \<in> live children" for i using that full.hyps(1) by (simp add: live_def)
  show ?case unfolding ps(2)
  proof (rule denotes.full)
    show "denotes N (ps ! i) (ms i) \<and> is_ValueNode (ps ! i) = (i = 16)" if "i \<in> live ps" for i
      using full.IH [of i] that e [OF lt] expands_kind(1) [OF e [OF lt]] unfolding l by blast
  qed (use len l full.hyps in auto)
next
  case (hash h n m)
  from hash.prems obtain n' where "nodes (BytesToHash h) = Ok n'" "expands keccak nodes r n' p" by (auto elim: expands_HashE)
  then show ?case using hash.IH hash.hyps(1) by simp
qed

lemma prefix_le:
  assumes "spread m" "prefixed ns m = prefixed ns' m'"
  shows "length ns' \<le> length ns"
proof (rule ccontr)
  assume l: "\<not> length ns' \<le> length ns"
  obtain a b x y where s: "x \<noteq> y" "m (x # a) \<noteq> None" "m (y # b) \<noteq> None" using assms(1) unfolding spread_def by blast
  have k: "take (length ns') (ns @ z # c) = ns'" if "m (z # c) \<noteq> None" for z c
    using fun_cong [OF assms(2), of "ns @ z # c"] that by (auto simp: prefixed_def split: if_splits)
  have "ns' ! length ns = z" if "m (z # c) \<noteq> None" for z c
    using arg_cong [OF k [OF that], of "\<lambda>l. l ! length ns"] l by (cases "length ns' - length ns") (simp_all add: nth_append)
  then show False using s by metis
qed

lemma prefix_unique:
  assumes "spread m" "spread m'" "prefixed ns m = prefixed ns' m'"
  shows "ns = ns' \<and> m = m'"
proof -
  have len: "length ns = length ns'" using prefix_le [OF assms(1,3)] prefix_le [OF assms(2) assms(3) [symmetric]] by simp
  obtain x a where "m (x # a) \<noteq> None" using assms(1) unfolding spread_def by blast
  then have "take (length ns') (ns @ x # a) = ns'" using fun_cong [OF assms(3), of "ns @ x # a"] by (auto simp: prefixed_def split: if_splits)
  then have ns: "ns = ns'" using len by simp
  have "m k = m' k" for k using fun_cong [OF assms(3), of "ns @ k"] unfolding ns by simp
  then show ?thesis using ns by blast
qed

text \<open>What the contents say about the root node of a loaded trie.\<close>

lemma denotes_at_Nil: "denotes nodes p m \<Longrightarrow> (m [] \<noteq> None) = is_ValueNode p"
proof (induction rule: denotes.induct)
  case (extension ns c m f)
  then show ?case by (simp add: prefixed_def)
next
  case (full children ms f)
  then show ?case by (simp add: branch_map_def)
qed auto

lemma short_not_spread: "denotes nodes (ShortNode k c f) m \<Longrightarrow> \<not> spread m"
proof
  assume d: "denotes nodes (ShortNode k c f) m" and "spread m"
  then obtain a b x y where s: "x \<noteq> y" "m (x # a) \<noteq> None" "m (y # b) \<noteq> None" unfolding spread_def by blast
  from d show False
  proof (cases rule: denotes.cases)
    case (leaf ns v)
    have "x # a = ns @ [16]" "y # b = ns @ [16]" using s(2,3) unfolding leaf by (auto split: if_splits)
    then show ?thesis using s(1) by (metis list.inject)
  next
    case (extension m')
    then obtain z ns where "k = z # ns" by (cases k) auto
    then show ?thesis using s extension by (auto simp: prefixed_def split: if_splits)
  qed
qed

lemma full_not_short:
  assumes "denotes N p m" "is_FullNode p" "denotes N' (ShortNode k c f) m"
  shows False
proof -
  have "is_FullNode (resolved N p)" using assms(2) by (cases p) simp_all
  then show False using full_spread [OF assms(1)] short_not_spread [OF assms(3)] by blast
qed

lemma leaf_not_extension:
  assumes "denotes nodes c m" "is_FullNode (resolved nodes c)"
  shows "prefixed ns m \<noteq> [k \<mapsto> v]"
proof
  assume e: "prefixed ns m = [k \<mapsto> v]"
  obtain a b x y where s: "x \<noteq> y" "m (x # a) \<noteq> None" "m (y # b) \<noteq> None" using full_spread [OF assms] unfolding spread_def by blast
  have "ns @ x # a = k" "ns @ y # b = k"
    using s(2,3) fun_cong [OF e, of "ns @ x # a"] fun_cong [OF e, of "ns @ y # b"] by (auto split: if_splits)
  then show False using s(1) by auto
qed

lemma canonical:
  assumes "denotes N p m" "loaded p" "denotes N' p' m" "loaded p'"
  shows "p = p'"
  using assms
proof (induction arbitrary: p' rule: denotes.induct)
  case (val v)
  have "is_ValueNode p'" using denotes_at_Nil [OF val.prems(2)] by simp
  then obtain v' where p': "p' = ValueNode v'" by (cases p') auto
  from val.prems(2) have "[([] :: bytes) \<mapsto> v] = [[] \<mapsto> v']" unfolding p' by (rule denotes_ValueE)
  then have "v = v'" by (metis fun_upd_same option.inject)
  then show ?case using p' by simp
next
  case (leaf ns v f)
  let ?m = "[ns @ [16] \<mapsto> v]"
  have d: "denotes N (ShortNode (ns @ [16]) (ValueNode v) f) ?m" by (rule denotes.leaf [OF leaf.hyps])
  have nf: "\<not> is_FullNode p'" using full_not_short [OF leaf.prems(2) _ d] by blast
  have "\<not> is_ValueNode p'" using denotes_at_Nil [OF leaf.prems(2)] by simp
  then obtain k c where p': "p' = ShortNode k c noFlag"
    using nf leaf.prems(3) denotes_not_Nil [OF leaf.prems(2)] by (cases p') simp_all
  from leaf.prems(2) show ?case unfolding p'
  proof (cases rule: denotes.cases)
    case (leaf ns' v')
    then have "ns' @ [16] = ns @ [16] \<and> v' = v" by (metis fun_upd_same fun_upd_other option.distinct(1) option.inject)
    then show "ShortNode (ns @ [16]) (ValueNode v) f = ShortNode k c noFlag" using leaf leaf.prems(1) by simp
  next
    case (extension m')
    then show "ShortNode (ns @ [16]) (ValueNode v) f = ShortNode k c noFlag"
      using leaf_not_extension [of N' c m' k "ns @ [16]" v] by simp
  qed
next
  case (extension ns c m f)
  let ?m = "prefixed ns m"
  have d: "denotes N (ShortNode ns c f) ?m" by (rule denotes.extension [OF extension.hyps])
  have nf: "\<not> is_FullNode p'" using full_not_short [OF extension.prems(2) _ d] by blast
  have "\<not> is_ValueNode p'" using denotes_at_Nil [OF extension.prems(2)] extension.hyps(2) by (simp add: prefixed_def)
  then obtain k c' where p': "p' = ShortNode k c' noFlag"
    using nf extension.prems(3) denotes_not_Nil [OF extension.prems(2)] by (cases p') simp_all
  from extension.prems(2) show ?case unfolding p'
  proof (cases rule: denotes.cases)
    case (leaf ns' v')
    then show "ShortNode ns c f = ShortNode k c' noFlag" using leaf_not_extension [OF extension.hyps(3,4)] by metis
  next
    case (extension m')
    have "ns = k \<and> m = m'"
      using prefix_unique [OF full_spread full_spread] extension extension.hyps by blast
    then show "ShortNode ns c f = ShortNode k c' noFlag" using extension extension.IH [of c'] extension.prems p' by simp
  qed
next
  case (full children ms f)
  have d: "denotes N (FullNode children f) (branch_map ms)" by (rule denotes.full) (use full.IH full.hyps in blast)+
  have ns: "\<not> is_ShortNode p'"
  proof
    assume "is_ShortNode p'"
    then obtain k c g where "p' = ShortNode k c g" by (cases p') auto
    then show False using full_not_short [OF d] full.prems(2) by auto
  qed
  have "\<not> is_ValueNode p'" using denotes_at_Nil [OF full.prems(2)] by (simp add: branch_map_def)
  then obtain ch where p': "p' = FullNode ch noFlag"
    using ns full.prems(3) denotes_not_Nil [OF full.prems(2)] by (cases p') simp_all
  obtain ms' where ms': "branch_map ms = branch_map ms'" "length ch = 17"
    "\<And>i. i \<in> live ch \<Longrightarrow> denotes N' (ch ! i) (ms' i)" "\<And>i. i \<notin> live ch \<Longrightarrow> ms' i = Map.empty"
    using full.prems(2) unfolding p' by (elim denotes_FullE) blast
  have m: "ms i = ms' i" if "i < 17" for i
    by (rule ext) (use fun_cong [OF ms'(1), of "of_nat i # _"] that in \<open>simp add: branch_at\<close>)
  have "children = ch"
  proof (rule nth_equalityI)
    fix i assume "i < length children"
    then have i: "i < 17" using full.hyps(1) by simp
    have live: "i \<in> live children \<longleftrightarrow> ms i \<noteq> Map.empty" "i \<in> live ch \<longleftrightarrow> ms' i \<noteq> Map.empty"
      using full.IH [of i] full.hyps(2) [of i] ms'(3,4) [of i] denotes_nonempty by fastforce+
    show "children ! i = ch ! i"
    proof (cases "i \<in> live children")
      case True
      then have l: "i \<in> live ch" using live m [OF i] by simp
      have "loaded (children ! i)" "loaded (ch ! i)"
        using full.prems(1,3) i full.hyps(1) ms'(2) unfolding p' by auto
      then show ?thesis using full.IH [OF True] ms'(3) [OF l] m [OF i] by auto
    next
      case False
      then have "i \<notin> live ch" using live m [OF i] by simp
      then show ?thesis using False i full.hyps(1) ms'(2) by (simp add: live_def)
    qed
  qed (use full.hyps(1) ms'(2) in simp)
  then show ?case using p' full.prems(1) by simp
next
  case (hash h n m)
  then show ?case by simp
qed

end
