(* ===== verification/TrieIntact.thy ===== *)
theory TrieIntact
  imports TrieRoot
begin

text \<open>
  Lookup, insertion, deletion and hashing keep cached hashes and references genuine.  With the results on canonical tries this
  makes the root hash a function of the contents, whatever the history of a trie.
\<close>

section \<open>The operations keep the caches genuine\<close>

definition intact :: "(bytes \<Rightarrow> hash) \<Rightarrow> nodeReader \<Rightarrow> bool \<Rightarrow> node \<Rightarrow> bool" where
  "intact keccak nodes r n \<longleftrightarrow> (\<exists>p. expands keccak nodes r n p)"

lemma intact_mono: "intact keccak nodes False n \<Longrightarrow> intact keccak nodes r n"
  using expands_mono unfolding intact_def by blast

lemma intact_Nil [simp]: "intact keccak nodes r NilNode"
  by (auto simp: intact_def intro: expands.nil)

lemma intact_Value [simp]: "intact keccak nodes r (ValueNode v)"
  by (auto simp: intact_def intro: expands.val)

lemma cache_ok_newFlag [simp]: "cache_ok keccak r newFlag p"
  by (simp add: cache_ok_def newFlag_def)

lemma intact_Short_iff: "intact keccak nodes r (ShortNode k c newFlag) \<longleftrightarrow> intact keccak nodes False c"
  unfolding intact_def using expands.short [of keccak nodes c _ r newFlag k] by (metis cache_ok_newFlag expands_ShortE)

lemma intact_ShortD: "intact keccak nodes r (ShortNode k c f) \<Longrightarrow> intact keccak nodes False c"
  unfolding intact_def by (auto elim: expands_ShortE)

lemma intact_FullI:
  assumes "\<And>c. c \<in> set cs \<Longrightarrow> intact keccak nodes False c"
  shows "intact keccak nodes r (FullNode cs newFlag)"
proof -
  have "list_all2 (expands keccak nodes False) cs (map (\<lambda>c. SOME p. expands keccak nodes False c p) cs)"
    using assms unfolding list_all2_conv_all_nth intact_def by (auto intro: someI_ex)
  then show ?thesis unfolding intact_def using expands.full [OF _ cache_ok_newFlag] by blast
qed

lemma intact_FullD: "intact keccak nodes r (FullNode cs f) \<Longrightarrow> c \<in> set cs \<Longrightarrow> intact keccak nodes False c"
  unfolding intact_def by (elim exE expands_FullE) (metis in_set_conv_nth list_all2_conv_all_nth)

lemma intact_resolve:
  "intact keccak nodes r (HashNode h) \<Longrightarrow> resolveHash nodes h p = Ok (Inr n) \<Longrightarrow> intact keccak nodes r n"
  unfolding intact_def by (auto elim!: expands_HashE simp: resolveHash_def split: if_splits)

lemma intact_update:
  assumes "intact keccak nodes r (FullNode cs f)" "intact keccak nodes False n"
  shows "intact keccak nodes b (FullNode (cs[i := n]) newFlag)"
  by (rule intact_FullI) (use assms intact_FullD set_update_subset_insert [of cs i n] in blast)

lemma childAt_OkD: "childAt cs x = Ok c \<Longrightarrow> unat x < length cs \<and> c = cs ! unat x"
  unfolding childAt_def go_index_def of_nat_less_iff nat_int by (auto split: if_splits)

lemma intact_child: "intact keccak nodes r (FullNode cs f) \<Longrightarrow> childAt cs x = Ok c \<Longrightarrow> intact keccak nodes False c"
  using childAt_OkD [of cs x c] intact_FullD [of keccak nodes r cs f c] by auto

lemma intact_two:
  "intact keccak nodes False a \<Longrightarrow> intact keccak nodes False b \<Longrightarrow> intact keccak nodes r (FullNode ((replicate 17 NilNode)[i := a, j := b]) newFlag)"
proof (rule intact_FullI)
  fix c assume "intact keccak nodes False a" "intact keccak nodes False b" "c \<in> set ((replicate 17 NilNode)[i := a, j := b])"
  moreover have "set ((replicate 17 NilNode)[i := a, j := b]) \<subseteq> {a, b, NilNode}"
    using set_update_subset_insert [of "(replicate 17 NilNode)[i := a]" j b] set_update_subset_insert [of "replicate 17 NilNode" i a] by auto
  ultimately show "intact keccak nodes False c" by auto
qed

lemma insert_Nil_intact:
  assumes "insert_node nodes fuel NilNode pre k c = Ok (b, n', e)" "intact keccak nodes False c"
  shows "intact keccak nodes False n'"
proof -
  have "0 < fuel" using assms(1) by (cases fuel) simp_all
  then have "n' = put k c" using assms(1) by (simp add: insert_Nil)
  then show ?thesis using assms(2) by (simp add: put_def intact_Short_iff)
qed

lemma insert_intact:
  "insert_node nodes fuel n pre k val = Ok (d, n', None) \<Longrightarrow> intact keccak nodes r n \<Longrightarrow> intact keccak nodes False val \<Longrightarrow>
   intact keccak nodes r n'"
proof (induction nodes fuel n pre k val arbitrary: d n' r rule: insert_node.induct)
  case (2 nodes fuel n pre val)
  then show ?case by (auto split: node.splits intro: intact_mono)
next
  case (3 nodes fuel k v f pre x xs val)
  let ?key = "x # xs" and ?l = "prefixLen (x # xs) k"
  have v: "intact keccak nodes False v" by (rule intact_ShortD [OF "3.prems"(2)])
  show ?case
  proof (cases "?l = length k")
    case True
    from "3.prems"(1) True obtain b nn e where c: "insert_node nodes fuel v (pre @ take ?l ?key) (drop ?l ?key) val = Ok (b, nn, e)"
      "n' = (if \<not> b \<or> e \<noteq> None then ShortNode k v f else ShortNode k nn newFlag)"
      by (auto simp: outcome_simps Let_def split: if_splits)
    show ?thesis
    proof (cases "\<not> b \<or> e \<noteq> None")
      case False
      then have "intact keccak nodes False nn" using "3.IH"(1) [OF refl refl True, of b nn False] c(1) v "3.prems"(3) by auto
      then show ?thesis using False c(2) by (simp add: intact_Short_iff)
    qed (use c(2) "3.prems"(2) in simp)
  next
    case False
    then show ?thesis using "3.prems"(1,3) v
      by (auto simp: outcome_simps Let_def intact_Short_iff split: if_splits intro!: intact_two elim: insert_Nil_intact)
  qed
next
  case (4 nodes fuel children f pre x xs val)
  from "4.prems"(1) obtain c b nn e where c: "childAt children x = Ok c" "insert_node nodes fuel c (pre @ [x]) xs val = Ok (b, nn, e)"
    "n' = (if \<not> b \<or> e \<noteq> None then FullNode children f else FullNode (children[unat x := nn]) newFlag)"
    by (auto simp: outcome_simps split: if_splits)
  show ?case
  proof (cases "\<not> b \<or> e \<noteq> None")
    case False
    then have "intact keccak nodes False nn" using "4.IH" [of c b nn False] c(2) intact_child [OF "4.prems"(2) c(1)] "4.prems"(3) by auto
    then show ?thesis using False c(3) intact_update "4.prems"(2) by auto
  qed (use c(3) "4.prems"(2) in simp)
next
  case (5 nodes fuel pre x xs val)
  then show ?case by (auto simp: intact_Short_iff)
next
  case (6 nodes fuel h pre x xs val)
  obtain q where q: "resolveHash nodes h pre = Ok q" using "6.prems"(1) by (cases "resolveHash nodes h pre") simp_all
  then obtain rn where c: "resolveHash nodes h pre = Ok (Inr rn)" using "6.prems"(1) by (cases q) simp_all
  with "6.prems"(1) obtain b nn e where n1: "insert_node nodes fuel rn pre (x # xs) val = Ok (b, nn, e)"
    by (cases "insert_node nodes fuel rn pre (x # xs) val") (auto intro: prod_cases3)
  with "6.prems"(1) c have n': "n' = (if \<not> b \<or> e \<noteq> None then rn else nn)" by (auto split: if_splits)
  have "intact keccak nodes r rn" by (rule intact_resolve [OF "6.prems"(2) c])
  moreover have "intact keccak nodes r nn" if "e = None" "intact keccak nodes r rn" using "6.IH" n1 "6.prems"(3) that by blast
  ultimately show ?case using n' by auto
qed auto

lemma onlyChild_none: "live cs = {} \<Longrightarrow> onlyChild cs i (-1) = -1"
proof (induction cs arbitrary: i)
  case (Cons c cs)
  have "c = NilNode" "live cs = {}" using Cons.prems live_Cons [of 0 c cs] live_Cons [of "Suc _" c cs] by auto
  then show ?case using Cons.IH by simp
qed simp

lemma onlyChild_live: "0 \<le> onlyChild cs 0 (-1) \<Longrightarrow> \<exists>j \<in> live cs. onlyChild cs 0 (-1) = int j"
proof -
  assume a: "0 \<le> onlyChild cs 0 (-1)"
  obtain j where j: "j \<in> live cs" using a onlyChild_none [of cs 0] by fastforce
  have "live cs = {j}"
  proof (rule ccontr)
    assume "live cs \<noteq> {j}"
    then obtain i where "i \<in> live cs" "i \<noteq> j" using j by auto
    then show False using onlyChild_several [of i cs j 0] j a by simp
  qed
  then show ?thesis using onlyChild_single [of cs j 0] by simp
qed

lemma resolve_intact:
  "intact keccak nodes False c \<Longrightarrow> resolve nodes c p = Ok (Inr n) \<Longrightarrow> intact keccak nodes False n"
  by (auto simp: resolve_def intro: intact_resolve split: node.splits)

lemma reduceFull_intact:
  assumes "reduceFull nodes pre cs = Ok (d, n', None)" "\<And>c. c \<in> set cs \<Longrightarrow> intact keccak nodes False c"
  shows "intact keccak nodes r n'"
proof (cases "0 \<le> onlyChild cs 0 (-1)")
  case False
  then show ?thesis using assms by (auto simp: reduceFull_def Let_def intro: intact_FullI)
next
  case True
  then obtain j where j: "j \<in> live cs" "onlyChild cs 0 (-1) = int j" using onlyChild_live by blast
  have c: "intact keccak nodes False (cs ! j)" using j(1) assms(2) by (simp add: live_def)
  show ?thesis
  proof (cases "j = 16")
    case True
    then show ?thesis using assms(1) c by (auto simp: reduceFull_def j(2) intact_Short_iff)
  next
    case False
    obtain q where q: "resolve nodes (cs ! j) pre = Ok q"
      using assms(1) False by (cases "resolve nodes (cs ! j) pre") (simp_all add: reduceFull_def j(2))
    obtain rn where rn: "q = Inr rn" using assms(1) False q by (cases q) (simp_all add: reduceFull_def j(2))
    have i: "intact keccak nodes False rn" using resolve_intact [OF c] q rn by simp
    show ?thesis
    proof (cases rn)
      case (ShortNode k v f)
      have "intact keccak nodes False v" using intact_ShortD i unfolding ShortNode by blast
      then show ?thesis using assms(1) False q rn by (auto simp: reduceFull_def j(2) ShortNode intact_Short_iff)
    qed (use assms(1) False q rn c in \<open>auto simp: reduceFull_def j(2) intact_Short_iff\<close>)
  qed
qed

lemma delete_intact:
  "delete_node nodes fuel n pre k = Ok (d, n', None) \<Longrightarrow> intact keccak nodes r n \<Longrightarrow> intact keccak nodes r n'"
proof (induction nodes fuel n pre k arbitrary: d n' r rule: delete_node.induct)
  case (2 nodes fuel k v f pre key)
  have v: "intact keccak nodes False v" by (rule intact_ShortD [OF "2.prems"(2)])
  consider "prefixLen key k < length k \<or> prefixLen key k = length key" | "\<not> prefixLen key k < length k" "prefixLen key k \<noteq> length key" by blast
  then show ?case
  proof cases
    case 1
    then show ?thesis using "2.prems" by (auto simp: Let_def split: if_splits)
  next
    case 2
    from "2.prems"(1) 2 obtain b nn e where c: "delete_node nodes fuel v (pre @ take (length k) key) (drop (length k) key) = Ok (b, nn, e)"
      by (cases "delete_node nodes fuel v (pre @ take (length k) key) (drop (length k) key)") (auto simp: Let_def intro: prod_cases3)
    show ?thesis
    proof (cases "\<not> b \<or> e \<noteq> None")
      case True
      then show ?thesis using "2.prems" 2 c by (auto simp: Let_def)
    next
      case False
      then have nn: "intact keccak nodes False nn" using "2.IH" [OF refl 2(1,2), of b nn False] c v by simp
      show ?thesis
      proof (cases nn)
        case (ShortNode k' v' g)
        have "intact keccak nodes False v'" using intact_ShortD nn unfolding ShortNode by blast
        then show ?thesis using "2.prems"(1) 2 c False by (auto simp: Let_def ShortNode intact_Short_iff)
      qed (use "2.prems"(1) 2 c False nn in \<open>simp_all add: Let_def\<close>, auto simp: intact_Short_iff)
    qed
  qed
next
  case (3 nodes fuel children f pre key)
  obtain x where x: "go_index key 0 = Ok x" using "3.prems"(1) by (cases "go_index key 0") simp_all
  obtain c where c: "childAt children x = Ok c" using "3.prems"(1) x by (cases "childAt children x") simp_all
  obtain b nn e where n1: "delete_node nodes fuel c (pre @ [x]) (drop 1 key) = Ok (b, nn, e)"
    using "3.prems"(1) x c by (cases "delete_node nodes fuel c (pre @ [x]) (drop 1 key)") (auto intro: prod_cases3)
  show ?case
  proof (cases "\<not> b \<or> e \<noteq> None")
    case True
    then show ?thesis using "3.prems" x c n1 by auto
  next
    case False
    then have e: "e = None" by blast
    have nn: "intact keccak nodes False nn" using "3.IH" [OF n1 [unfolded e] intact_child [OF "3.prems"(2) c]] .
    show ?thesis
    proof (cases "nn = NilNode")
      case True
      have "reduceFull nodes pre (children[unat x := nn]) = Ok (d, n', None)" using "3.prems"(1) x c n1 False True by simp
      then show ?thesis
        by (rule reduceFull_intact) (use nn intact_FullD [OF "3.prems"(2)] set_update_subset_insert [of children "unat x" nn] in blast)
    next
      case nz: False
      then have "n' = FullNode (children[unat x := nn]) newFlag" using "3.prems"(1) x c n1 False by simp
      then show ?thesis using intact_update [OF "3.prems"(2) nn] by simp
    qed
  qed
next
  case (6 nodes fuel h pre key)
  obtain q where q: "resolveHash nodes h pre = Ok q" using "6.prems"(1) by (cases "resolveHash nodes h pre") simp_all
  then obtain rn where c: "resolveHash nodes h pre = Ok (Inr rn)" using "6.prems"(1) by (cases q) simp_all
  with "6.prems"(1) obtain b nn e where n1: "delete_node nodes fuel rn pre key = Ok (b, nn, e)"
    by (cases "delete_node nodes fuel rn pre key") (auto intro: prod_cases3)
  with "6.prems"(1) c have n': "n' = (if \<not> b \<or> e \<noteq> None then rn else nn)" by (auto split: if_splits)
  have "intact keccak nodes r rn" by (rule intact_resolve [OF "6.prems"(2) c])
  moreover have "intact keccak nodes r nn" if "e = None" "intact keccak nodes r rn" using "6.IH" n1 that by blast
  ultimately show ?case using n' by auto
qed auto

lemma tryGet_expands:
  "tryGet nodes fuel n key pos = Ok (v, n', d, e) \<Longrightarrow> expands keccak nodes r n p \<Longrightarrow> expands keccak nodes r n' p"
proof (induction nodes fuel n key pos arbitrary: v n' d e r p rule: tryGet.induct)
  case (4 nodes fuel k c f key pos)
  from "4.prems"(2) obtain q where q: "expands keccak nodes False c q" "cache_ok keccak r f (ShortNode k q noFlag)" "p = ShortNode k q noFlag"
    by (auto elim: expands_ShortE)
  show ?case
  proof (cases "length key < pos + length k \<or> k \<noteq> slice key pos (pos + length k)")
    case True
    then show ?thesis using "4.prems" by auto
  next
    case False
    obtain v1 n1 d1 e1 where t: "tryGet nodes fuel c key (pos + length k) = Ok (v1, n1, d1, e1)"
      using "4.prems"(1) False by (cases "tryGet nodes fuel c key (pos + length k)") (auto intro: prod_cases4)
    have "expands keccak nodes False n1 q" using "4.IH" [OF False t q(1)] .
    then show ?thesis using "4.prems" False t q expands.short [of keccak nodes n1 q r f k] by auto
  qed
next
  case (5 nodes fuel children f key pos)
  from "5.prems"(2) obtain ps where q: "list_all2 (expands keccak nodes False) children ps" "cache_ok keccak r f (FullNode ps noFlag)" "p = FullNode ps noFlag"
    by (auto elim: expands_FullE)
  obtain x where x: "go_index key (int pos) = Ok x" using "5.prems"(1) by (cases "go_index key (int pos)") simp_all
  obtain c where c: "childAt children x = Ok c" using "5.prems"(1) x by (cases "childAt children x") simp_all
  obtain v1 n1 d1 e1 where t: "tryGet nodes fuel c key (pos + 1) = Ok (v1, n1, d1, e1)"
    using "5.prems"(1) x c by (cases "tryGet nodes fuel c key (pos + 1)") (auto intro: prod_cases4)
  have i: "unat x < length children" "c = children ! unat x" using childAt_OkD [OF c] by auto
  then have "expands keccak nodes False c (ps ! unat x)" using list_all2_nthD [OF q(1)] by blast
  with t have "expands keccak nodes False n1 (ps ! unat x)" by (rule "5.IH")
  then have "list_all2 (expands keccak nodes False) (children[unat x := n1]) (ps[unat x := ps ! unat x])"
    by (rule list_all2_update_cong [OF q(1)])
  then have "expands keccak nodes r (FullNode (children[unat x := n1]) f) (FullNode ps noFlag)"
    using q(2) by (simp add: expands.full)
  then show ?case using "5.prems" x c t q(3) by auto
next
  case (6 nodes fuel h key pos)
  from "6.prems"(2) obtain m where m: "nodes (BytesToHash h) = Ok m" "inner m" "expands keccak nodes r m p" by (auto elim: expands_HashE)
  have rs: "resolveHash nodes h (take pos key) = Ok (Inr m)" using m(1,2) by (intro resolveHash_Ok) auto
  obtain v1 n1 d1 e1 where t: "tryGet nodes fuel m key pos = Ok (v1, n1, d1, e1)"
    using "6.prems"(1) rs by (cases "tryGet nodes fuel m key pos") (auto intro: prod_cases4)
  have "expands keccak nodes r n1 p" using "6.IH" t m(3) by blast
  then show ?case using "6.prems"(1) rs t by auto
qed auto

section \<open>The root hash is a function of the contents\<close>

definition genuine :: "(bytes \<Rightarrow> hash) \<Rightarrow> nodeReader \<Rightarrow> Trie \<Rightarrow> bool" where
  "genuine keccak nodes t \<longleftrightarrow> intact keccak nodes True (t_root t)"

lemma genuine_get: "Trie_TryGet nodes fuel t key = Ok (t', r) \<Longrightarrow> genuine keccak nodes t \<Longrightarrow> genuine keccak nodes t'"
proof -
  assume a: "Trie_TryGet nodes fuel t key = Ok (t', r)" "genuine keccak nodes t"
  then obtain v n' d e where g: "tryGet nodes fuel (t_root t) (keybytesToHex key) 0 = Ok (v, n', d, e)" "t_root t' = n' \<or> t' = t"
    by (auto simp: Trie_TryGet_def outcome_simps split: if_splits)
  from a(2) obtain p where "expands keccak nodes True (t_root t) p" unfolding genuine_def intact_def by blast
  with g show ?thesis using tryGet_expands unfolding genuine_def intact_def by metis
qed

lemma storeRoot_None: "storeRoot t (d, n, e) = (t', None) \<Longrightarrow> e = None \<and> t_root t' = n"
  by (auto simp: storeRoot_def Let_def split: option.splits)

lemma genuine_delete_node:
  assumes "bnd (delete_node nodes fuel (t_root t) [] k) (\<lambda>r. Ok (storeRoot t r)) = Ok (t', None)" "genuine keccak nodes t"
  shows "genuine keccak nodes t'"
proof -
  obtain d n e where n: "delete_node nodes fuel (t_root t) [] k = Ok (d, n, e)" "storeRoot t (d, n, e) = (t', None)"
    using assms(1) by (auto simp: outcome_simps)
  with storeRoot_None [OF n(2)] show ?thesis using delete_intact [of nodes fuel "t_root t" "[]" k d n keccak True] assms(2)
    unfolding genuine_def by simp
qed

lemma genuine_insert_node:
  assumes "bnd (insert_node nodes fuel (t_root t) [] k (ValueNode v)) (\<lambda>r. Ok (storeRoot t r)) = Ok (t', None)" "genuine keccak nodes t"
  shows "genuine keccak nodes t'"
proof -
  obtain d n e where n: "insert_node nodes fuel (t_root t) [] k (ValueNode v) = Ok (d, n, e)" "storeRoot t (d, n, e) = (t', None)"
    using assms(1) by (auto simp: outcome_simps)
  with storeRoot_None [OF n(2)] show ?thesis using insert_intact [of nodes fuel "t_root t" "[]" k "ValueNode v" d n keccak True] assms(2)
    unfolding genuine_def by simp
qed

lemma genuine_update:
  "Trie_TryUpdate nodes fuel t key v = Ok (t', None) \<Longrightarrow> genuine keccak nodes t \<Longrightarrow> genuine keccak nodes t'"
  unfolding Trie_TryUpdate_def Let_def using genuine_delete_node genuine_insert_node by (metis (no_types, lifting))

lemma genuine_delete:
  "Trie_TryDelete nodes fuel t key = Ok (t', None) \<Longrightarrow> genuine keccak nodes t \<Longrightarrow> genuine keccak nodes t'"
  unfolding Trie_TryDelete_def by (rule genuine_delete_node)

interpretation genuine: byte_store "\<lambda>t f. represents nodes t f \<and> genuine keccak nodes t" "\<lambda>t key. Trie_TryGet nodes (trieFuel key) t key"
  "\<lambda>t key. Trie_TryUpdate nodes (trieFuel key) t key" "\<lambda>t key. Trie_TryDelete nodes (trieFuel key) t key" for nodes keccak
proof unfold_locales
  fix s f k v assume a: "represents nodes s f \<and> genuine keccak nodes s"
  show "\<exists>s'. Trie_TryGet nodes (trieFuel k) s k = Ok (s', f k, None) \<and> represents nodes s' f \<and> genuine keccak nodes s'"
    using trie.get_law [of nodes s f k] genuine_get a by blast
  show "\<exists>s'. Trie_TryUpdate nodes (trieFuel k) s k v = Ok (s', None) \<and> represents nodes s' (written f k v) \<and> genuine keccak nodes s'"
    using trie.upd_law [of nodes s f k v] genuine_update a by blast
  show "\<exists>s'. Trie_TryDelete nodes (trieFuel k) s k = Ok (s', None) \<and> represents nodes s' (f(k := None)) \<and> genuine keccak nodes s'"
    using trie.del_law [of nodes s f k] genuine_delete a by blast
qed

text \<open>Contents of moderate size can be hashed.\<close>

definition moderate :: "(bytes \<Rightarrow> bytes option) \<Rightarrow> bool" where
  "moderate m \<longleftrightarrow> (\<forall>k v. m k = Some v \<longrightarrow> length k \<le> 2 ^ 32 \<and> length v \<le> 2 ^ 32)"

lemma denotes_tidy: "denotes N p m \<Longrightarrow> loaded p \<Longrightarrow> moderate m \<Longrightarrow> tidy p"
proof (induction rule: denotes.induct)
  case (val v)
  then show ?case by (simp add: moderate_def)
next
  case (leaf ns v f)
  have "length (ns @ [16]) \<le> 2 ^ 32 \<and> length v \<le> 2 ^ 32"
    using leaf.prems(2) [unfolded moderate_def, rule_format, of "ns @ [16]" v] by simp
  moreover have "\<exists>ns' t. ns @ [16] = terminated ns' t \<and> nibbles ns'" using leaf.hyps(1) by (intro exI [of _ ns] exI [of _ True]) simp
  ultimately show ?case by simp
next
  case (extension ns c m f)
  have le: "length ns + length k \<le> 2 ^ 32 \<and> length v \<le> 2 ^ 32" if "m k = Some v" for k v
    using extension.prems(2) that prefixed_append [of ns m k] unfolding moderate_def by (metis length_append)
  obtain k where "m k \<noteq> None" using denotes_nonempty [OF extension.hyps(3)] by blast
  then have "length ns \<le> 2 ^ 32" using le by fastforce
  moreover have "moderate m" unfolding moderate_def using le by fastforce
  moreover have "\<exists>ns' t. ns = terminated ns' t \<and> nibbles ns'" using extension.hyps(1) by (intro exI [of _ ns] exI [of _ False]) simp
  ultimately show ?case using extension.IH extension.prems(1) denotes_not_Nil [OF extension.hyps(3)] by auto
next
  case (full children ms f)
  have t: "tidy (children ! i)" if i: "i < 17" for i
  proof (cases "i \<in> live children")
    case True
    have "moderate (ms i)" unfolding moderate_def
    proof (intro allI impI)
      fix k v assume "ms i k = Some v"
      then have "branch_map ms (of_nat i # k) = Some v" using i by (simp add: branch_at)
      then have "length (of_nat i # k) \<le> 2 ^ 32 \<and> length v \<le> 2 ^ 32" using full.prems(2) unfolding moderate_def by blast
      then show "length k \<le> 2 ^ 32 \<and> length v \<le> 2 ^ 32" by simp
    qed
    moreover have "loaded (children ! i)" using full.prems(1) i full.hyps(1) by simp
    ultimately show ?thesis using full.IH [OF True] by blast
  next
    case False
    then show ?thesis using i full.hyps(1) by (simp add: live_def)
  qed
  have "\<not> inner (children ! 16)"
    using full.IH [of 16] full.hyps(1) by (cases "16 \<in> live children"; cases "children ! 16") (auto simp: live_def)
  then show ?case using t full.hyps(1) by (auto simp: in_set_conv_nth)
qed simp

lemma denotes_expands: "expands keccak nodes r n p \<Longrightarrow> denotes N p m \<Longrightarrow> denotes nodes n m"
proof (induction arbitrary: m rule: expands.induct)
  case (nil r)
  then show ?case using denotes_not_Nil by blast
next
  case (val r v)
  from val.prems have "m = [[] \<mapsto> v] \<and> v \<noteq> []" by (rule denotes_ValueE) blast
  then show ?case using denotes.val [of v nodes] by blast
next
  case (short c p r f k)
  from short.prems show ?case
  proof (cases rule: denotes.cases)
    case (leaf ns v)
    have "is_ValueNode c" using expands_kind(1) [OF short.hyps(1)] leaf(2) by simp
    then have "c = ValueNode v" using short.hyps(1) leaf(2) by (cases c) (auto elim: expands_ValueE)
    then show ?thesis using denotes.leaf [OF leaf(4,5)] unfolding leaf(1,3) by (simp only:)
  next
    case (extension m')
    have "is_FullNode (resolved nodes c)"
      using expands_kind(2) [OF short.hyps(1)] extension(5) expands_not_Hash [OF short.hyps(1)] by simp
    then show ?thesis using short.IH [OF extension(4)] denotes.extension extension by blast
  qed
next
  case (full children ps r f)
  from full.prems obtain ms where ms: "m = branch_map ms" "length ps = 17"
    "\<And>i. i \<in> live ps \<Longrightarrow> denotes N (ps ! i) (ms i) \<and> is_ValueNode (ps ! i) = (i = 16)" "\<And>i. i \<notin> live ps \<Longrightarrow> ms i = Map.empty" "2 \<le> card (live ps)"
    by (elim denotes_FullE) blast
  have len: "length children = 17" using list_all2_lengthD [OF full.IH] ms(2) by simp
  have e: "expands keccak nodes False (children ! i) (ps ! i)" "\<And>m. denotes N (ps ! i) m \<Longrightarrow> denotes nodes (children ! i) m" if "i < 17" for i
    using list_all2_nthD [OF full.IH, of i] that len by auto
  have l: "live children = live ps" using len ms(2) expands_kind(3) [OF e(1)] by (auto simp: live_def)
  have lt: "i < 17" if "i \<in> live ps" for i using that ms(2) by (simp add: live_def)
  show ?case unfolding ms(1)
  proof (rule denotes.full [OF len])
    show "denotes nodes (children ! i) (ms i) \<and> is_ValueNode (children ! i) = (i = 16)" if "i \<in> live children" for i
      using that ms(3) e(2) [OF lt] expands_kind(1) [OF e(1) [OF lt]] unfolding l by blast
  qed (use l ms(4,5) in auto)
next
  case (hash h n r p)
  then show ?case using denotes.hash [of nodes h n m] by blast
qed

text \<open>The loaded form of a genuine trie, and its root.\<close>

lemma loaded_form:
  assumes "represents nodes t f" "genuine keccak nodes t"
  obtains p where "expands keccak nodes True (t_root t) p" "sub N p (hexmap f)" "loaded p"
proof -
  obtain p where p: "expands keccak nodes True (t_root t) p" using assms(2) unfolding genuine_def intact_def by blast
  have "sub N p (hexmap f)"
    using assms(1) expands_denotes [OF _ p] expands_kind [OF p] unfolding represents_def sub_def by blast
  then show thesis using that p expands_loaded [OF p] by blast
qed

lemma sub_unique: "sub N p m \<Longrightarrow> loaded p \<Longrightarrow> sub N' p' m \<Longrightarrow> loaded p' \<Longrightarrow> p = p'"
  unfolding sub_def using canonical denotes_nonempty by metis

lemma sub_tidy: "sub N p m \<Longrightarrow> loaded p \<Longrightarrow> moderate m \<Longrightarrow> tidy p"
  unfolding sub_def using denotes_tidy by (metis tidy.simps(5))

definition bounded :: "(bytes \<Rightarrow> bytes option) \<Rightarrow> bool" where
  "bounded f \<longleftrightarrow> (\<forall>k v. f k = Some v \<longrightarrow> length k < 2 ^ 31 \<and> length v \<le> 2 ^ 32)"

lemma moderate_hexmap: "bounded f \<Longrightarrow> moderate (hexmap f)"
  unfolding moderate_def
proof (intro allI impI)
  fix k v assume a: "bounded f" "hexmap f k = Some v"
  then obtain key where k: "k = keybytesToHex key" by (auto simp: hexmap_def split: if_splits)
  then have "length key < 2 ^ 31 \<and> length v \<le> 2 ^ 32" using a unfolding bounded_def by simp
  then show "length k \<le> 2 ^ 32 \<and> length v \<le> 2 ^ 32" by (simp add: k length_keybytesToHex)
qed

lemma Trie_Hash_represents:
  assumes "represents nodes t f" "genuine keccak nodes t" "bounded f" "sub N p (hexmap f)" "loaded p"
  shows "\<exists>u. Trie_Hash keccak t = Ok (merkle_root keccak p, u) \<and> represents nodes u f \<and> genuine keccak nodes u"
proof -
  obtain q where q: "expands keccak nodes True (t_root t) q" "sub N q (hexmap f)" "loaded q" by (rule loaded_form [OF assms(1,2)])
  have e: "q = p" by (rule sub_unique [OF q(2,3) assms(4,5)])
  have "\<not> is_ValueNode p" using assms(4) by (auto simp: sub_def)
  then obtain u where u: "Trie_Hash keccak t = Ok (merkle_root keccak p, u)" "expands keccak nodes True (t_root u) p"
    using Trie_Hash_ok [OF q(1)] sub_tidy [OF assms(4,5) moderate_hexmap [OF assms(3)]] unfolding e by blast
  have "represents nodes u f"
    using assms(4) denotes_expands [OF u(2)] expands_kind [OF u(2)] unfolding represents_def sub_def by blast
  moreover have "genuine keccak nodes u" using u(2) unfolding genuine_def intact_def by blast
  ultimately show ?thesis using u(1) by blast
qed

section \<open>Properties\<close>

abbreviation writes :: "nodeReader \<Rightarrow> (bytes \<times> bytes) list \<Rightarrow> Trie \<Rightarrow> (Trie \<times> trieError option) outcome" where
  "writes nodes \<equiv> write_all (\<lambda>t key. Trie_TryUpdate nodes (trieFuel key) t key)"

abbreviation after :: "(bytes \<times> bytes) list \<Rightarrow> (bytes \<Rightarrow> bytes option) \<Rightarrow> bytes \<Rightarrow> bytes option" where
  "after kvs f \<equiv> foldl (\<lambda>f (k, v). written f k v) f kvs"

text \<open>C4. The root hash is a function of the contents: two tries with genuine caches, possibly over different databases,
  that are brought to the same contents by any two batches of updates get the same root hash, and hashing changes neither the contents
  nor the validity of the caches.\<close>

theorem root_determined_by_contents:
  assumes "represents nodes t f" "genuine keccak nodes t" "represents nodes' t' f'" "genuine keccak nodes' t'"
    and "after kvs f = g" "after kvs' f' = g" "bounded g"
  shows "\<exists>s s' h u u'. writes nodes kvs t = Ok (s, None) \<and> writes nodes' kvs' t' = Ok (s', None) \<and>
    Trie_Hash keccak s = Ok (h, u) \<and> Trie_Hash keccak s' = Ok (h, u') \<and> represents nodes u g \<and> genuine keccak nodes u"
proof -
  obtain s where s: "writes nodes kvs t = Ok (s, None)" "represents nodes s g" "genuine keccak nodes s"
    using genuine.write_all_law [of nodes t f keccak kvs] assms(1,2,5) by blast
  obtain s' where s': "writes nodes' kvs' t' = Ok (s', None)" "represents nodes' s' g" "genuine keccak nodes' s'"
    using genuine.write_all_law [of nodes' t' f' keccak kvs'] assms(3,4,6) by blast
  obtain p where p: "sub nodes p (hexmap g)" "loaded p" by (rule loaded_form [OF s(2,3)])
  show ?thesis
    using s s' Trie_Hash_represents [OF s(2,3) assms(7) p] Trie_Hash_represents [OF s'(2,3) assms(7) p] by blast
qed

definition emptyTrie :: Trie where
  "emptyTrie = \<lparr>t_root = NilNode, t_unhashed = 0\<rparr>"

lemma emptyTrie_represents: "represents nodes emptyTrie Map.empty" "genuine keccak nodes emptyTrie"
  by (simp_all add: represents_def emptyTrie_def sub_def genuine_def)

theorem root_determined_by_contents_witness:
  "\<exists>s s' h u u'. writes (\<lambda>_. Ok NilNode) [([1], [7]), ([2], [8])] emptyTrie = Ok (s, None) \<and>
     writes (\<lambda>_. Ok NilNode) [([2], [9]), ([2], [8]), ([1], [7])] emptyTrie = Ok (s', None) \<and>
     Trie_Hash (\<lambda>b. of_nat (be_nat b)) s = Ok (h, u) \<and> Trie_Hash (\<lambda>b. of_nat (be_nat b)) s' = Ok (h, u')"
proof -
  let ?g = "[[1 :: byte] \<mapsto> [7 :: byte], [2] \<mapsto> [8]]"
  have "after [([1], [7]), ([2], [8])] Map.empty = ?g" by (simp add: written_def)
  moreover have "after [([2], [9]), ([2], [8]), ([1], [7])] Map.empty = ?g" by (auto simp: written_def)
  moreover have "bounded ?g" by (auto simp: bounded_def split: if_splits)
  ultimately show ?thesis
    using root_determined_by_contents [OF emptyTrie_represents emptyTrie_represents, where kvs = "[([1], [7]), ([2], [8])]"
        and kvs' = "[([2], [9]), ([2], [8]), ([1], [7])]" and g = ?g and nodes = "\<lambda>_. Ok NilNode" and nodes' = "\<lambda>_. Ok NilNode"
        and keccak = "\<lambda>b. of_nat (be_nat b)"] by blast
qed

end
