(* ===== verification/Transaction.thy ===== *)
theory Transaction
  imports Consensus
begin

text \<open>
  Transactions of the three types (\<open>core/types/transaction.go\<close> with \<open>legacy_tx.go\<close>, \<open>access_list_tx.go\<close> and
  \<open>dynamic_fee_tx.go\<close>), their hashes, and the signers that recover their senders
  (\<open>core/types/transaction_signing.go\<close>).  Keccak, the recovery of public keys and the signing are arguments.  The integers
  of a transaction are always set, as \<open>NewTx\<close> and the decoder leave them.  The cached sender is part of a
  transaction; the cached hash and size, and the time it was first seen, are not.
\<close>

section \<open>Transaction data\<close>

record LegacyTx =
  lt_Nonce :: u64
  lt_GasPrice :: int
  lt_Gas :: u64
  lt_To :: "address option"
  lt_Value :: int
  lt_Data :: bytes
  lt_V :: int
  lt_R :: int
  lt_S :: int

record AccessListTx =
  ax_ChainID :: int
  ax_Nonce :: u64
  ax_GasPrice :: int
  ax_Gas :: u64
  ax_To :: "address option"
  ax_Value :: int
  ax_Data :: bytes
  ax_AccessList :: "AccessTuple list"
  ax_V :: int
  ax_R :: int
  ax_S :: int

record DynamicFeeTx =
  dx_ChainID :: int
  dx_Nonce :: u64
  dx_GasTipCap :: int
  dx_GasFeeCap :: int
  dx_Gas :: u64
  dx_To :: "address option"
  dx_Value :: int
  dx_Data :: bytes
  dx_AccessList :: "AccessTuple list"
  dx_V :: int
  dx_R :: int
  dx_S :: int

datatype TxData = Legacy LegacyTx | AccessListed AccessListTx | DynamicFee DynamicFeeTx

abbreviation (input) LegacyTxType :: byte where "LegacyTxType \<equiv> 0"
abbreviation (input) AccessListTxType :: byte where "AccessListTxType \<equiv> 1"
abbreviation (input) DynamicFeeTxType :: byte where "DynamicFeeTxType \<equiv> 2"

definition isProtectedV :: "int \<Rightarrow> bool" where
  "isProtectedV V =
     (if BitLen V \<le> 8 then let v = big_Uint64 V in v \<noteq> 27 \<and> v \<noteq> 28 \<and> v \<noteq> 1 \<and> v \<noteq> 0 else True)"

definition deriveChainId :: "int \<Rightarrow> int" where
  "deriveChainId v =
     (if BitLen v \<le> 64 then
        let v = big_Uint64 v in if v = 27 \<or> v = 28 then 0 else uint ((v - 35) div 2)
      else (v - 35) div 2)"

fun Tx_Type :: "TxData \<Rightarrow> byte" where
  "Tx_Type (Legacy t) = LegacyTxType"
| "Tx_Type (AccessListed t) = AccessListTxType"
| "Tx_Type (DynamicFee t) = DynamicFeeTxType"

fun Tx_ChainId :: "TxData \<Rightarrow> int" where
  "Tx_ChainId (Legacy t) = deriveChainId (lt_V t)"
| "Tx_ChainId (AccessListed t) = ax_ChainID t"
| "Tx_ChainId (DynamicFee t) = dx_ChainID t"

fun Tx_AccessList :: "TxData \<Rightarrow> AccessTuple list" where
  "Tx_AccessList (Legacy t) = []"
| "Tx_AccessList (AccessListed t) = ax_AccessList t"
| "Tx_AccessList (DynamicFee t) = dx_AccessList t"

fun Tx_Data :: "TxData \<Rightarrow> bytes" where
  "Tx_Data (Legacy t) = lt_Data t"
| "Tx_Data (AccessListed t) = ax_Data t"
| "Tx_Data (DynamicFee t) = dx_Data t"

fun Tx_Gas :: "TxData \<Rightarrow> u64" where
  "Tx_Gas (Legacy t) = lt_Gas t"
| "Tx_Gas (AccessListed t) = ax_Gas t"
| "Tx_Gas (DynamicFee t) = dx_Gas t"

fun Tx_GasPrice :: "TxData \<Rightarrow> int" where
  "Tx_GasPrice (Legacy t) = lt_GasPrice t"
| "Tx_GasPrice (AccessListed t) = ax_GasPrice t"
| "Tx_GasPrice (DynamicFee t) = dx_GasFeeCap t"

fun Tx_GasTipCap :: "TxData \<Rightarrow> int" where
  "Tx_GasTipCap (Legacy t) = lt_GasPrice t"
| "Tx_GasTipCap (AccessListed t) = ax_GasPrice t"
| "Tx_GasTipCap (DynamicFee t) = dx_GasTipCap t"

fun Tx_GasFeeCap :: "TxData \<Rightarrow> int" where
  "Tx_GasFeeCap (Legacy t) = lt_GasPrice t"
| "Tx_GasFeeCap (AccessListed t) = ax_GasPrice t"
| "Tx_GasFeeCap (DynamicFee t) = dx_GasFeeCap t"

fun Tx_Value :: "TxData \<Rightarrow> int" where
  "Tx_Value (Legacy t) = lt_Value t"
| "Tx_Value (AccessListed t) = ax_Value t"
| "Tx_Value (DynamicFee t) = dx_Value t"

fun Tx_Nonce :: "TxData \<Rightarrow> u64" where
  "Tx_Nonce (Legacy t) = lt_Nonce t"
| "Tx_Nonce (AccessListed t) = ax_Nonce t"
| "Tx_Nonce (DynamicFee t) = dx_Nonce t"

fun Tx_To :: "TxData \<Rightarrow> address option" where
  "Tx_To (Legacy t) = lt_To t"
| "Tx_To (AccessListed t) = ax_To t"
| "Tx_To (DynamicFee t) = dx_To t"

text \<open>The values V, R and S.\<close>

fun rawSignatureValues :: "TxData \<Rightarrow> int \<times> int \<times> int" where
  "rawSignatureValues (Legacy t) = (lt_V t, lt_R t, lt_S t)"
| "rawSignatureValues (AccessListed t) = (ax_V t, ax_R t, ax_S t)"
| "rawSignatureValues (DynamicFee t) = (dx_V t, dx_R t, dx_S t)"

fun Tx_Protected :: "TxData \<Rightarrow> bool" where
  "Tx_Protected (Legacy t) = isProtectedV (lt_V t)"
| "Tx_Protected _ = True"

definition Tx_Cost :: "TxData \<Rightarrow> int" where
  "Tx_Cost tx = Tx_GasPrice tx * uint (Tx_Gas tx) + Tx_Value tx"

section \<open>Hashes\<close>

definition prefixedRlpHash :: "(bytes \<Rightarrow> hash) \<Rightarrow> byte \<Rightarrow> gval \<Rightarrow> hash outcome" where
  "prefixedRlpHash keccak prefix x =
     bnd (EncodeToBytes x) (\<lambda>r. Ok (keccak (prefix # (case r of Inr d \<Rightarrow> d | Inl _ \<Rightarrow> []))))"

text \<open>A nil recipient is encoded as the empty string.\<close>

definition addressVal :: "address option \<Rightarrow> gval" where
  "addressVal a = (case a of None \<Rightarrow> VPtrNil KString | Some a \<Rightarrow> VArray (address_Bytes a))"

definition accessListVal :: "AccessTuple list \<Rightarrow> gval" where
  "accessListVal al = VSlice (map (\<lambda>t. VStruct [VArray (address_Bytes (at_Address t)),
     VSlice (map (\<lambda>k. VArray (hash_Bytes k)) (at_StorageKeys t))]) al)"

fun TxData_val :: "TxData \<Rightarrow> gval" where
  "TxData_val (Legacy t) =
     VStruct [VUint (lt_Nonce t), VBigInt (lt_GasPrice t), VUint (lt_Gas t), addressVal (lt_To t), VBigInt (lt_Value t),
       VBytes (lt_Data t), VBigInt (lt_V t), VBigInt (lt_R t), VBigInt (lt_S t)]"
| "TxData_val (AccessListed t) =
     VStruct [VBigInt (ax_ChainID t), VUint (ax_Nonce t), VBigInt (ax_GasPrice t), VUint (ax_Gas t), addressVal (ax_To t),
       VBigInt (ax_Value t), VBytes (ax_Data t), accessListVal (ax_AccessList t), VBigInt (ax_V t), VBigInt (ax_R t), VBigInt (ax_S t)]"
| "TxData_val (DynamicFee t) =
     VStruct [VBigInt (dx_ChainID t), VUint (dx_Nonce t), VBigInt (dx_GasTipCap t), VBigInt (dx_GasFeeCap t), VUint (dx_Gas t),
       addressVal (dx_To t), VBigInt (dx_Value t), VBytes (dx_Data t), accessListVal (dx_AccessList t),
       VBigInt (dx_V t), VBigInt (dx_R t), VBigInt (dx_S t)]"

definition Tx_Hash :: "(bytes \<Rightarrow> hash) \<Rightarrow> TxData \<Rightarrow> hash outcome" where
  "Tx_Hash keccak tx =
     (if Tx_Type tx = LegacyTxType then rlpHash keccak (TxData_val tx)
      else prefixedRlpHash keccak (Tx_Type tx) (TxData_val tx))"

section \<open>Signers\<close>

text \<open>The chain id of a signer; its double \<open>chainIdMul\<close> is computed where it is used.\<close>

datatype Signer =
    FrontierSigner | HomesteadSigner | EIP155Signer int | EIP2930Signer int | LondonSigner int

datatype txError = ErrInvalidSig | ErrTxTypeNotSupported | ErrInvalidChainId | InvalidPublicKey | CryptoError gerror

definition NewEIP155Signer :: "int option \<Rightarrow> int" where
  "NewEIP155Signer chainId = (case chainId of None \<Rightarrow> 0 | Some c \<Rightarrow> c)"

definition MakeSigner :: "ChainConfig \<Rightarrow> int option \<Rightarrow> Signer" where
  "MakeSigner config blockNumber =
     (if IsLondon config blockNumber then LondonSigner (NewEIP155Signer (ChainID config))
      else if IsBerlin config blockNumber then EIP2930Signer (NewEIP155Signer (ChainID config))
      else if IsEIP155 config blockNumber then EIP155Signer (NewEIP155Signer (ChainID config))
      else if IsHomestead config blockNumber then HomesteadSigner
      else FrontierSigner)"

definition LatestSigner :: "ChainConfig \<Rightarrow> Signer" where
  "LatestSigner config =
     (if ChainID config \<noteq> None \<and> LondonBlock config \<noteq> None then LondonSigner (NewEIP155Signer (ChainID config))
      else if ChainID config \<noteq> None \<and> BerlinBlock config \<noteq> None then EIP2930Signer (NewEIP155Signer (ChainID config))
      else if ChainID config \<noteq> None \<and> EIP155Block config \<noteq> None then EIP155Signer (NewEIP155Signer (ChainID config))
      else HomesteadSigner)"

definition FrontierSigner_Hash :: "(bytes \<Rightarrow> hash) \<Rightarrow> TxData \<Rightarrow> hash outcome" where
  "FrontierSigner_Hash keccak tx =
     rlpHash keccak (VSlice [VUint (Tx_Nonce tx), VBigInt (Tx_GasPrice tx), VUint (Tx_Gas tx), addressVal (Tx_To tx),
       VBigInt (Tx_Value tx), VBytes (Tx_Data tx)])"

definition EIP155Signer_Hash :: "(bytes \<Rightarrow> hash) \<Rightarrow> int \<Rightarrow> TxData \<Rightarrow> hash outcome" where
  "EIP155Signer_Hash keccak chainId tx =
     rlpHash keccak (VSlice [VUint (Tx_Nonce tx), VBigInt (Tx_GasPrice tx), VUint (Tx_Gas tx), addressVal (Tx_To tx),
       VBigInt (Tx_Value tx), VBytes (Tx_Data tx), VBigInt chainId, VUint 0, VUint 0])"

definition eip2930Signer_Hash :: "(bytes \<Rightarrow> hash) \<Rightarrow> int \<Rightarrow> TxData \<Rightarrow> hash outcome" where
  "eip2930Signer_Hash keccak chainId tx =
     (if Tx_Type tx = LegacyTxType then
        rlpHash keccak (VSlice [VUint (Tx_Nonce tx), VBigInt (Tx_GasPrice tx), VUint (Tx_Gas tx), addressVal (Tx_To tx),
          VBigInt (Tx_Value tx), VBytes (Tx_Data tx), VBigInt chainId, VUint 0, VUint 0])
      else if Tx_Type tx = AccessListTxType then
        prefixedRlpHash keccak (Tx_Type tx) (VSlice [VBigInt chainId, VUint (Tx_Nonce tx), VBigInt (Tx_GasPrice tx),
          VUint (Tx_Gas tx), addressVal (Tx_To tx), VBigInt (Tx_Value tx), VBytes (Tx_Data tx), accessListVal (Tx_AccessList tx)])
      else Ok 0)"

definition londonSigner_Hash :: "(bytes \<Rightarrow> hash) \<Rightarrow> int \<Rightarrow> TxData \<Rightarrow> hash outcome" where
  "londonSigner_Hash keccak chainId tx =
     (if Tx_Type tx \<noteq> DynamicFeeTxType then eip2930Signer_Hash keccak chainId tx
      else prefixedRlpHash keccak (Tx_Type tx) (VSlice [VBigInt chainId, VUint (Tx_Nonce tx), VBigInt (Tx_GasTipCap tx),
        VBigInt (Tx_GasFeeCap tx), VUint (Tx_Gas tx), addressVal (Tx_To tx), VBigInt (Tx_Value tx), VBytes (Tx_Data tx),
        accessListVal (Tx_AccessList tx)]))"

fun Signer_Hash :: "(bytes \<Rightarrow> hash) \<Rightarrow> Signer \<Rightarrow> TxData \<Rightarrow> hash outcome" where
  "Signer_Hash keccak FrontierSigner tx = FrontierSigner_Hash keccak tx"
| "Signer_Hash keccak HomesteadSigner tx = FrontierSigner_Hash keccak tx"
| "Signer_Hash keccak (EIP155Signer c) tx = EIP155Signer_Hash keccak c tx"
| "Signer_Hash keccak (EIP2930Signer c) tx = eip2930Signer_Hash keccak c tx"
| "Signer_Hash keccak (LondonSigner c) tx = londonSigner_Hash keccak c tx"

section \<open>Recovering the sender\<close>

text \<open>\<open>crypto.PubkeyToAddress\<close>, on the uncompressed form of the key.\<close>

definition PubkeyToAddress :: "(bytes \<Rightarrow> hash) \<Rightarrow> bytes \<Rightarrow> address" where
  "PubkeyToAddress keccak pubBytes = BytesToAddress (drop 12 (hash_Bytes (keccak (drop 1 pubBytes))))"

definition recoverPlain :: "crypto \<Rightarrow> hash \<Rightarrow> int \<Rightarrow> int \<Rightarrow> int \<Rightarrow> bool \<Rightarrow> txError + address" where
  "recoverPlain C sighash R S Vb homestead =
     (if BitLen Vb > 8 then Inl ErrInvalidSig
      else
        let V = (ucast (big_Uint64 Vb - 27) :: byte)
        in if \<not> ValidateSignatureValues V R S homestead then Inl ErrInvalidSig
           else
             let sig = LeftPadBytes (big_bytes R) 32 @ LeftPadBytes (big_bytes S) 32 @ [V]
             in case cr_Ecrecover C (hash_Bytes sighash) sig of
                  Inl err \<Rightarrow> Inl (CryptoError err)
                | Inr pub \<Rightarrow>
                    if length pub = 0 \<or> pub ! 0 \<noteq> 4 then Inl InvalidPublicKey
                    else Inr (BytesToAddress (drop 12 (hash_Bytes (cr_keccak256 C (drop 1 pub))))))"

definition FrontierSigner_Sender :: "crypto \<Rightarrow> TxData \<Rightarrow> (txError + address) outcome" where
  "FrontierSigner_Sender C tx =
     (if Tx_Type tx \<noteq> LegacyTxType then Ok (Inl ErrTxTypeNotSupported)
      else let (v, r, s) = rawSignatureValues tx
           in bnd (FrontierSigner_Hash (cr_keccak256 C) tx) (\<lambda>h. Ok (recoverPlain C h r s v False)))"

definition HomesteadSigner_Sender :: "crypto \<Rightarrow> TxData \<Rightarrow> (txError + address) outcome" where
  "HomesteadSigner_Sender C tx =
     (if Tx_Type tx \<noteq> LegacyTxType then Ok (Inl ErrTxTypeNotSupported)
      else let (v, r, s) = rawSignatureValues tx
           in bnd (FrontierSigner_Hash (cr_keccak256 C) tx) (\<lambda>h. Ok (recoverPlain C h r s v True)))"

definition EIP155Signer_Sender :: "crypto \<Rightarrow> int \<Rightarrow> TxData \<Rightarrow> (txError + address) outcome" where
  "EIP155Signer_Sender C chainId tx =
     (if Tx_Type tx \<noteq> LegacyTxType then Ok (Inl ErrTxTypeNotSupported)
      else if \<not> Tx_Protected tx then HomesteadSigner_Sender C tx
      else if Tx_ChainId tx \<noteq> chainId then Ok (Inl ErrInvalidChainId)
      else let (V, R, S) = rawSignatureValues tx
           in bnd (EIP155Signer_Hash (cr_keccak256 C) chainId tx) (\<lambda>h. Ok (recoverPlain C h R S (V - chainId * 2 - 8) True)))"

text \<open>
  \<open>recoverAt\<close> is the end of the two functions below.  The hash is the one of the signer the transaction came to: a London
  signer passes other types than its own on to its embedded signer.
\<close>

definition recoverAt :: "crypto \<Rightarrow> int \<Rightarrow> TxData \<Rightarrow> hash outcome \<Rightarrow> int \<Rightarrow> (txError + address) outcome" where
  "recoverAt C chainId tx h V =
     (if Tx_ChainId tx \<noteq> chainId then Ok (Inl ErrInvalidChainId)
      else let (_, R, S) = rawSignatureValues tx in bnd h (\<lambda>h. Ok (recoverPlain C h R S V True)))"

definition eip2930Signer_Sender :: "crypto \<Rightarrow> int \<Rightarrow> TxData \<Rightarrow> (txError + address) outcome" where
  "eip2930Signer_Sender C chainId tx =
     (let (V, R, S) = rawSignatureValues tx; h = eip2930Signer_Hash (cr_keccak256 C) chainId tx
      in if Tx_Type tx = LegacyTxType then
           if \<not> Tx_Protected tx then HomesteadSigner_Sender C tx
           else recoverAt C chainId tx h (V - chainId * 2 - 8)
         else if Tx_Type tx = AccessListTxType then recoverAt C chainId tx h (V + 27)
         else Ok (Inl ErrTxTypeNotSupported))"

definition londonSigner_Sender :: "crypto \<Rightarrow> int \<Rightarrow> TxData \<Rightarrow> (txError + address) outcome" where
  "londonSigner_Sender C chainId tx =
     (if Tx_Type tx \<noteq> DynamicFeeTxType then eip2930Signer_Sender C chainId tx
      else let (V, R, S) = rawSignatureValues tx
           in recoverAt C chainId tx (londonSigner_Hash (cr_keccak256 C) chainId tx) (V + 27))"

fun Signer_Sender :: "crypto \<Rightarrow> Signer \<Rightarrow> TxData \<Rightarrow> (txError + address) outcome" where
  "Signer_Sender C FrontierSigner tx = FrontierSigner_Sender C tx"
| "Signer_Sender C HomesteadSigner tx = HomesteadSigner_Sender C tx"
| "Signer_Sender C (EIP155Signer c) tx = EIP155Signer_Sender C c tx"
| "Signer_Sender C (EIP2930Signer c) tx = eip2930Signer_Sender C c tx"
| "Signer_Sender C (LondonSigner c) tx = londonSigner_Sender C c tx"

definition londonSigner_Equal :: "int \<Rightarrow> Signer \<Rightarrow> bool" where
  "londonSigner_Equal chainId s2 = (case s2 of LondonSigner x \<Rightarrow> x = chainId | _ \<Rightarrow> False)"

definition eip2930Signer_Equal :: "int \<Rightarrow> Signer \<Rightarrow> bool" where
  "eip2930Signer_Equal chainId s2 = (case s2 of EIP2930Signer x \<Rightarrow> x = chainId | _ \<Rightarrow> False)"

definition EIP155Signer_Equal :: "int \<Rightarrow> Signer \<Rightarrow> bool" where
  "EIP155Signer_Equal chainId s2 = (case s2 of EIP155Signer x \<Rightarrow> x = chainId | _ \<Rightarrow> False)"

definition HomesteadSigner_Equal :: "Signer \<Rightarrow> bool" where
  "HomesteadSigner_Equal s2 = (case s2 of HomesteadSigner \<Rightarrow> True | _ \<Rightarrow> False)"

definition FrontierSigner_Equal :: "Signer \<Rightarrow> bool" where
  "FrontierSigner_Equal s2 = (case s2 of FrontierSigner \<Rightarrow> True | _ \<Rightarrow> False)"

text \<open>The method \<open>Equal\<close> of the interface \<open>Signer\<close>.\<close>

fun Signer_Equal :: "Signer \<Rightarrow> Signer \<Rightarrow> bool" where
  "Signer_Equal (LondonSigner chainId) s2 = londonSigner_Equal chainId s2"
| "Signer_Equal (EIP2930Signer chainId) s2 = eip2930Signer_Equal chainId s2"
| "Signer_Equal (EIP155Signer chainId) s2 = EIP155Signer_Equal chainId s2"
| "Signer_Equal HomesteadSigner s2 = HomesteadSigner_Equal s2"
| "Signer_Equal FrontierSigner s2 = FrontierSigner_Equal s2"

record Transaction =
  t_inner :: TxData
  t_from :: "(Signer \<times> address) option"

definition NewTx :: "TxData \<Rightarrow> Transaction" where
  "NewTx inner = \<lparr>t_inner = inner, t_from = None\<rparr>"

definition Sender :: "crypto \<Rightarrow> Signer \<Rightarrow> Transaction \<Rightarrow> (Transaction \<times> (txError + address)) outcome" where
  "Sender C signer tx =
     (let derive = bnd (Signer_Sender C signer (t_inner tx)) (\<lambda>r.
        case r of Inl err \<Rightarrow> Ok (tx, Inl err) | Inr addr \<Rightarrow> Ok (tx\<lparr>t_from := Some (signer, addr)\<rparr>, Inr addr))
      in case t_from tx of
           Some (s, from) \<Rightarrow> if Signer_Equal s signer then Ok (tx, Inr from) else derive
         | None \<Rightarrow> derive)"

section \<open>Signing\<close>

text \<open>The values R, S and V of a signature; one of the wrong length panics.\<close>

definition decodeSignature :: "bytes \<Rightarrow> (int \<times> int \<times> int) outcome" where
  "decodeSignature sig =
     (if length sig \<noteq> 65 then Panic
      else Ok (bytes_big (slice sig 0 32), bytes_big (slice sig 32 64), bytes_big [sig ! 64 + 27]))"

definition FrontierSigner_SignatureValues :: "TxData \<Rightarrow> bytes \<Rightarrow> (txError + int \<times> int \<times> int) outcome" where
  "FrontierSigner_SignatureValues tx sig =
     (if Tx_Type tx \<noteq> LegacyTxType then Ok (Inl ErrTxTypeNotSupported)
      else bnd (decodeSignature sig) (\<lambda>rsv. Ok (Inr rsv)))"

definition EIP155Signer_SignatureValues :: "int \<Rightarrow> TxData \<Rightarrow> bytes \<Rightarrow> (txError + int \<times> int \<times> int) outcome" where
  "EIP155Signer_SignatureValues chainId tx sig =
     (if Tx_Type tx \<noteq> LegacyTxType then Ok (Inl ErrTxTypeNotSupported)
      else bnd (decodeSignature sig) (\<lambda>(R, S, V).
             Ok (Inr (R, S, if chainId \<noteq> 0 then uint (sig ! 64 + 35) + chainId * 2 else V))))"

text \<open>The recovery id of a typed transaction is stored as it is.\<close>

definition typedSignatureValues :: "int \<Rightarrow> int \<Rightarrow> bytes \<Rightarrow> (txError + int \<times> int \<times> int) outcome" where
  "typedSignatureValues chainId txChainID sig =
     (if txChainID \<noteq> 0 \<and> txChainID \<noteq> chainId then Ok (Inl ErrInvalidChainId)
      else bnd (decodeSignature sig) (\<lambda>(R, S, _). Ok (Inr (R, S, uint (sig ! 64)))))"

fun eip2930Signer_SignatureValues :: "int \<Rightarrow> TxData \<Rightarrow> bytes \<Rightarrow> (txError + int \<times> int \<times> int) outcome" where
  "eip2930Signer_SignatureValues chainId (Legacy t) sig = EIP155Signer_SignatureValues chainId (Legacy t) sig"
| "eip2930Signer_SignatureValues chainId (AccessListed t) sig = typedSignatureValues chainId (ax_ChainID t) sig"
| "eip2930Signer_SignatureValues chainId (DynamicFee t) sig = Ok (Inl ErrTxTypeNotSupported)"

fun londonSigner_SignatureValues :: "int \<Rightarrow> TxData \<Rightarrow> bytes \<Rightarrow> (txError + int \<times> int \<times> int) outcome" where
  "londonSigner_SignatureValues chainId (DynamicFee t) sig = typedSignatureValues chainId (dx_ChainID t) sig"
| "londonSigner_SignatureValues chainId tx sig = eip2930Signer_SignatureValues chainId tx sig"

fun SignatureValues :: "Signer \<Rightarrow> TxData \<Rightarrow> bytes \<Rightarrow> (txError + int \<times> int \<times> int) outcome" where
  "SignatureValues FrontierSigner tx sig = FrontierSigner_SignatureValues tx sig"
| "SignatureValues HomesteadSigner tx sig = FrontierSigner_SignatureValues tx sig"
| "SignatureValues (EIP155Signer c) tx sig = EIP155Signer_SignatureValues c tx sig"
| "SignatureValues (EIP2930Signer c) tx sig = eip2930Signer_SignatureValues c tx sig"
| "SignatureValues (LondonSigner c) tx sig = londonSigner_SignatureValues c tx sig"

text \<open>\<open>Signer.ChainID\<close> is nil for the signers that know none; those never sign a typed transaction, which would store it.\<close>

fun Signer_ChainID :: "Signer \<Rightarrow> int option" where
  "Signer_ChainID (EIP155Signer c) = Some c"
| "Signer_ChainID (EIP2930Signer c) = Some c"
| "Signer_ChainID (LondonSigner c) = Some c"
| "Signer_ChainID _ = None"

definition LegacyTx_setSignatureValues :: "LegacyTx \<Rightarrow> int option \<Rightarrow> int \<Rightarrow> int \<Rightarrow> int \<Rightarrow> LegacyTx" where
  "LegacyTx_setSignatureValues tx chainID v r s = tx\<lparr>lt_V := v, lt_R := r, lt_S := s\<rparr>"

definition AccessListTx_setSignatureValues :: "AccessListTx \<Rightarrow> int option \<Rightarrow> int \<Rightarrow> int \<Rightarrow> int \<Rightarrow> AccessListTx outcome" where
  "AccessListTx_setSignatureValues tx chainID v r s =
     bnd (deref chainID) (\<lambda>c. Ok (tx\<lparr>ax_ChainID := c, ax_V := v, ax_R := r, ax_S := s\<rparr>))"

definition DynamicFeeTx_setSignatureValues :: "DynamicFeeTx \<Rightarrow> int option \<Rightarrow> int \<Rightarrow> int \<Rightarrow> int \<Rightarrow> DynamicFeeTx outcome" where
  "DynamicFeeTx_setSignatureValues tx chainID v r s =
     bnd (deref chainID) (\<lambda>c. Ok (tx\<lparr>dx_ChainID := c, dx_V := v, dx_R := r, dx_S := s\<rparr>))"

text \<open>The method of the interface \<open>TxData\<close>.\<close>

fun setSignatureValues :: "TxData \<Rightarrow> int option \<Rightarrow> int \<Rightarrow> int \<Rightarrow> int \<Rightarrow> TxData outcome" where
  "setSignatureValues (Legacy t) chainID v r s = Ok (Legacy (LegacyTx_setSignatureValues t chainID v r s))"
| "setSignatureValues (AccessListed t) chainID v r s =
     bnd (AccessListTx_setSignatureValues t chainID v r s) (\<lambda>t. Ok (AccessListed t))"
| "setSignatureValues (DynamicFee t) chainID v r s =
     bnd (DynamicFeeTx_setSignatureValues t chainID v r s) (\<lambda>t. Ok (DynamicFee t))"

definition WithSignature :: "Transaction \<Rightarrow> Signer \<Rightarrow> bytes \<Rightarrow> (txError + Transaction) outcome" where
  "WithSignature tx signer sig =
     bnd (SignatureValues signer (t_inner tx) sig) (\<lambda>res.
       case res of
         Inl err \<Rightarrow> Ok (Inl err)
       | Inr (r, s, v) \<Rightarrow>
           bnd (setSignatureValues (t_inner tx) (Signer_ChainID signer) v r s) (\<lambda>cpy.
             Ok (Inr \<lparr>t_inner = cpy, t_from = None\<rparr>)))"

definition SignTx ::
  "crypto \<Rightarrow> (bytes \<Rightarrow> 'k \<Rightarrow> gerror + bytes) \<Rightarrow> Transaction \<Rightarrow> Signer \<Rightarrow> 'k \<Rightarrow> (txError + Transaction) outcome" where
  "SignTx C Sign tx s prv =
     bnd (Signer_Hash (cr_keccak256 C) s (t_inner tx)) (\<lambda>h.
       case Sign (hash_Bytes h) prv of
         Inl err \<Rightarrow> Ok (Inl (CryptoError err))
       | Inr sig \<Rightarrow> WithSignature tx s sig)"

section \<open>Messages\<close>

definition AsMessage :: "crypto \<Rightarrow> Transaction \<Rightarrow> Signer \<Rightarrow> int option \<Rightarrow> (Transaction \<times> (txError + Message)) outcome" where
  "AsMessage C tx s baseFee =
     (let inner = t_inner tx;
          msg = \<lparr>msg_From = 0, msg_To = Tx_To inner, msg_GasPrice = Tx_GasPrice inner, msg_GasFeeCap = Some (Tx_GasFeeCap inner),
                 msg_GasTipCap = Some (Tx_GasTipCap inner), msg_Gas = Tx_Gas inner, msg_Value = Tx_Value inner,
                 msg_Nonce = Tx_Nonce inner, msg_CheckNonce = True, msg_Data = Tx_Data inner, msg_AccessList = Tx_AccessList inner\<rparr>;
          msg = (case baseFee of
                   None \<Rightarrow> msg
                 | Some b \<Rightarrow> msg\<lparr>msg_GasPrice := BigMin (Tx_GasTipCap inner + b) (Tx_GasFeeCap inner)\<rparr>)
      in bnd (Sender C s tx) (\<lambda>(tx, r).
           case r of Inl err \<Rightarrow> Ok (tx, Inl err) | Inr from \<Rightarrow> Ok (tx, Inr (msg\<lparr>msg_From := from\<rparr>))))"

end
