(* ===== verification/Signing.thy ===== *)
theory Signing
  imports Transaction TransitionEffects
begin

text \<open>
  What signatures guarantee: a signed transaction gives its signer's address back, and a sender is only ever
  recovered from a valid signature over the hash of the transaction for this chain.
\<close>

section \<open>Encodings of signature values\<close>

lemmas setSignatureValues_defs [simp] =
  LegacyTx_setSignatureValues_def AccessListTx_setSignatureValues_def DynamicFeeTx_setSignatureValues_def

lemma Signer_Equal_iff: "Signer_Equal s s2 \<longleftrightarrow> s = s2"
  by (cases s; cases s2)
    (auto simp: londonSigner_Equal_def eip2930Signer_Equal_def EIP155Signer_Equal_def HomesteadSigner_Equal_def FrontierSigner_Equal_def)

lemma big_bytes_be_nat:
  assumes "length b = n"
  shows "LeftPadBytes (big_bytes (int (be_nat b))) (int n) = b"
proof -
  have "be_nat b < 256 ^ n" using be_nat_less [of b] assms by simp
  then have "byte_len (be_nat b) \<le> n" by (simp add: byte_len_le_iff)
  then have l: "length (LeftPadBytes (big_bytes (int (be_nat b))) (int n)) = n"
    by (simp add: length_big_bytes byte_len_def)
  have "to_be n (be_nat (LeftPadBytes (big_bytes (int (be_nat b))) (int n))) = LeftPadBytes (big_bytes (int (be_nat b))) (int n)"
    by (metis l to_be_be_nat)
  moreover have "to_be n (be_nat b) = b" using to_be_be_nat [of b] assms by simp
  ultimately show ?thesis by simp
qed

section \<open>Signing and recovering\<close>

text \<open>
  Signatures as \<open>crypto.Sign\<close> makes them: 65 bytes \<open>R || S || V\<close> with V zero or one, R and S in the order of the curve, S in its
  lower half.  \<open>crypto.Ecrecover\<close> gives the uncompressed public key of the private key that signed.
\<close>

definition canonical_signature :: "bytes \<Rightarrow> bool" where
  "canonical_signature sig \<longleftrightarrow> length sig = 65 \<and> (sig ! 64 = 0 \<or> sig ! 64 = 1) \<and>
     1 \<le> bytes_big (slice sig 0 32) \<and> bytes_big (slice sig 0 32) < secp256k1N \<and>
     1 \<le> bytes_big (slice sig 32 64) \<and> bytes_big (slice sig 32 64) \<le> secp256k1N div 2"

definition key_pair :: "crypto \<Rightarrow> (bytes \<Rightarrow> 'k \<Rightarrow> gerror + bytes) \<Rightarrow> 'k \<Rightarrow> bytes \<Rightarrow> bool" where
  "key_pair C Sign prv pub \<longleftrightarrow> length pub = 65 \<and> pub ! 0 = 4 \<and>
     (\<forall>h. length h = 32 \<longrightarrow> (\<exists>sig. Sign h prv = Inr sig \<and> canonical_signature sig \<and> cr_Ecrecover C h sig = Inr pub))"

lemma signature_parts:
  assumes "canonical_signature sig"
  shows "LeftPadBytes (big_bytes (bytes_big (slice sig 0 32))) 32 @ LeftPadBytes (big_bytes (bytes_big (slice sig 32 64))) 32 @ [sig ! 64] = sig"
proof -
  have l: "length sig = 65" using assms by (simp add: canonical_signature_def)
  have "slice sig 0 32 @ slice sig 32 64 @ [sig ! 64] = sig"
    using l by (intro nth_equalityI) (auto simp: slice_def nth_append intro!: arg_cong [where f = "(!) sig"])
  moreover have "length (slice sig 0 32) = 32" "length (slice sig 32 64) = 32" using l by (simp_all add: slice_def)
  ultimately show ?thesis
    using big_bytes_be_nat [of "slice sig 0 32" 32] big_bytes_be_nat [of "slice sig 32 64" 32] by (simp add: bytes_big_def)
qed

lemma recoverPlain_signature:
  assumes c: "canonical_signature sig" and r: "cr_Ecrecover C (hash_Bytes h) sig = Inr pub" and p: "length pub = 65" "pub ! 0 = 4"
    and v: "v = 27 + uint (sig ! 64)"
  shows "recoverPlain C h (bytes_big (slice sig 0 32)) (bytes_big (slice sig 32 64)) v hs = Inr (PubkeyToAddress (cr_keccak256 C) pub)"
proof -
  have b: "\<not> 8 < BitLen v" unfolding BitLen_gt using v c by (auto simp: canonical_signature_def)
  have V: "(ucast (big_Uint64 v - 27) :: byte) = sig ! 64"
    using v c by (auto simp: canonical_signature_def big_Uint64_def)
  have w: "ValidateSignatureValues (sig ! 64) (bytes_big (slice sig 0 32)) (bytes_big (slice sig 32 64)) hs"
    using c by (auto simp: canonical_signature_def ValidateSignatureValues_def)
  have "pub \<noteq> []" using p by auto
  then show ?thesis
    using b w r p(2) unfolding recoverPlain_def V signature_parts [OF c] Let_def by (simp add: PubkeyToAddress_def)
qed

text \<open>The transactions a signer signs: of the types of its fork, for its chain or none, and legacy ones for a positive chain id.\<close>

fun signs :: "Signer \<Rightarrow> TxData \<Rightarrow> bool" where
  "signs FrontierSigner (Legacy t) = True"
| "signs HomesteadSigner (Legacy t) = True"
| "signs (EIP155Signer c) (Legacy t) = (0 < c)"
| "signs (EIP2930Signer c) (Legacy t) = (0 < c)"
| "signs (EIP2930Signer c) (AccessListed t) = (ax_ChainID t = 0 \<or> ax_ChainID t = c)"
| "signs (LondonSigner c) (Legacy t) = (0 < c)"
| "signs (LondonSigner c) (AccessListed t) = (ax_ChainID t = 0 \<or> ax_ChainID t = c)"
| "signs (LondonSigner c) (DynamicFee t) = (dx_ChainID t = 0 \<or> dx_ChainID t = c)"
| "signs _ _ = False"

lemma protected_V:
  assumes "0 < c" "x = 0 \<or> x = 1"
  shows "isProtectedV (x + 35 + c * 2)" "deriveChainId (x + 35 + c * 2) = c"
proof -
  let ?V = "x + 35 + c * 2"
  have V: "37 \<le> ?V" using assms by auto
  have k: "big_Uint64 ?V = k \<Longrightarrow> ?V = uint k" if "?V < 2 ^ 64" for k
    using uint_big_Uint64 [of ?V] V that by auto
  show "isProtectedV ?V"
  proof (cases "BitLen ?V \<le> 8")
    case True
    then have "\<not> 2 ^ 8 \<le> \<bar>?V\<bar>" unfolding BitLen_gt [symmetric] by simp
    then have "?V < 2 ^ 64" by simp
    from k [OF this] V show ?thesis by (force simp: isProtectedV_def Let_def)
  qed (simp add: isProtectedV_def)
  show "deriveChainId ?V = c"
  proof (cases "BitLen ?V \<le> 64")
    case True
    then have "\<not> 2 ^ 64 \<le> \<bar>?V\<bar>" unfolding BitLen_gt [symmetric] by simp
    then have lt: "?V < 2 ^ 64" by simp
    have "big_Uint64 ?V \<noteq> 27 \<and> big_Uint64 ?V \<noteq> 28" using k [OF lt] V by force
    moreover have "uint (big_Uint64 ?V - 35) = x + c * 2"
      using uint_big_Uint64 [OF _ lt] V by (simp add: uint_sub_if')
    ultimately show ?thesis using True assms by (auto simp: deriveChainId_def Let_def uint_div)
  qed (use assms in \<open>auto simp: deriveChainId_def\<close>)
qed

lemma decodeSignature_canonical:
  assumes "canonical_signature sig"
  shows "decodeSignature sig = Ok (bytes_big (slice sig 0 32), bytes_big (slice sig 32 64), 27 + uint (sig ! 64))"
    "uint (sig ! 64 + 35) = uint (sig ! 64) + 35" "uint (sig ! 64) = 0 \<or> uint (sig ! 64) = 1"
  using assms by (auto simp: canonical_signature_def decodeSignature_def bytes_big_def be_nat_Cons)

lemma signed_sender:
  assumes s: "signs s (t_inner tx)" and h: "Signer_Hash (cr_keccak256 C) s (t_inner tx) = Ok h" and c: "canonical_signature sig"
    and r: "cr_Ecrecover C (hash_Bytes h) sig = Inr pub" and p: "length pub = 65" "pub ! 0 = 4"
  shows "\<exists>inner. WithSignature tx s sig = Ok (Inr \<lparr>t_inner = inner, t_from = None\<rparr>) \<and>
    Signer_Sender C s inner = Ok (Inr (PubkeyToAddress (cr_keccak256 C) pub))"
proof -
  note d = decodeSignature_canonical [OF c]
  note v = protected_V [OF _ d(3)]
  note rp = recoverPlain_signature [OF c r p]
  note sel = FrontierSigner_SignatureValues_def EIP155Signer_SignatureValues_def typedSignatureValues_def FrontierSigner_Sender_def
    HomesteadSigner_Sender_def EIP155Signer_Sender_def eip2930Signer_Sender_def londonSigner_Sender_def recoverAt_def
    FrontierSigner_Hash_def EIP155Signer_Hash_def eip2930Signer_Hash_def londonSigner_Hash_def
  from s h show ?thesis
    by (cases "(s, t_inner tx)" rule: signs.cases)
      (auto simp: WithSignature_def sel d(1,2) v rp deref_def)
qed

section \<open>Properties\<close>

text \<open>C13. Round trip: signing a transaction with a private key never fails and never panics for the transactions of the
  signer's fork and chain, and recovering the sender of the signed transaction gives the address of the key.  Legacy
  transactions are signed with replay protection for a positive chain id; zero does not survive the round trip through V.  The
  cryptography is assumed to be what it documents: signatures are canonical, and recovery inverts signing.\<close>

theorem signed_tx_recovers_sender:
  assumes "key_pair C Sign prv pub" "signs s (t_inner tx)" "Signer_Hash (cr_keccak256 C) s (t_inner tx) = Ok h"
  shows "\<exists>tx' tx''. SignTx C Sign tx s prv = Ok (Inr tx') \<and> Sender C s tx' = Ok (tx'', Inr (PubkeyToAddress (cr_keccak256 C) pub))"
proof -
  obtain sig where sig: "Sign (hash_Bytes h) prv = Inr sig" "canonical_signature sig" "cr_Ecrecover C (hash_Bytes h) sig = Inr pub"
    and p: "length pub = 65" "pub ! 0 = 4" using assms(1) unfolding key_pair_def by (metis length_hash_Bytes)
  from signed_sender [OF assms(2,3) sig(2,3) p] assms(3) sig(1) show ?thesis by (auto simp: SignTx_def Sender_def)
qed

text \<open>An example: a signature with R and S equal to one, and a key that it recovers.\<close>

definition exampleSignature :: bytes where
  "exampleSignature = replicate 31 0 @ [1] @ replicate 31 0 @ [1, 0]"

definition exampleKey :: bytes where
  "exampleKey = 4 # replicate 64 7"

definition signingCrypto :: crypto where
  "signingCrypto = exampleCrypto\<lparr>cr_Ecrecover := (\<lambda>_ _. Inr exampleKey)\<rparr>"

definition exampleTx :: Transaction where
  "exampleTx = NewTx (Legacy \<lparr>lt_Nonce = 7, lt_GasPrice = 3, lt_Gas = 9, lt_To = None, lt_Value = 10, lt_Data = [1, 2],
     lt_V = 0, lt_R = 0, lt_S = 0\<rparr>)"

lemma example_signature: "canonical_signature exampleSignature"
proof -
  have "slice exampleSignature 0 32 = replicate 31 0 @ [1]" "slice exampleSignature 32 64 = replicate 31 0 @ [1]"
    "exampleSignature ! 64 = 0" by (simp_all add: exampleSignature_def slice_def nth_append)
  then show ?thesis
    by (simp only: canonical_signature_def bytes_big_def be_nat_append be_nat_replicate_zero be_nat_Cons)
      (simp add: exampleSignature_def)
qed

lemma example_key_pair: "key_pair signingCrypto (\<lambda>_ (_ :: nat). Inr exampleSignature) 0 exampleKey"
  using example_signature by (simp add: key_pair_def signingCrypto_def exampleKey_def)

lemma example_hash: "\<exists>h. Signer_Hash (cr_keccak256 signingCrypto) (LondonSigner 1) (t_inner exampleTx) = Ok h"
proof -
  let ?v = "VSlice [VUint 7, VBigInt 3, VUint 9, VPtrNil KString, VBigInt 10, VBytes [1, 2], VBigInt 1, VUint 0, VUint 0]"
  have "length (rlp_enc ?v) \<le> 100" by code_simp
  then have "EncodeToBytes ?v = Ok (Inr (rlp_enc ?v))" by (intro EncodeToBytes_eq) simp_all
  then show ?thesis by (simp add: londonSigner_Hash_def eip2930Signer_Hash_def exampleTx_def NewTx_def addressVal_def rlpHash_def)
qed

theorem signed_tx_recovers_sender_witness:
  "\<exists>tx' tx''. SignTx signingCrypto (\<lambda>_ (_ :: nat). Inr exampleSignature) exampleTx (LondonSigner 1) 0 = Ok (Inr tx') \<and>
     Sender signingCrypto (LondonSigner 1) tx' = Ok (tx'', Inr (PubkeyToAddress (cr_keccak256 signingCrypto) exampleKey))"
proof -
  obtain h where "Signer_Hash (cr_keccak256 signingCrypto) (LondonSigner 1) (t_inner exampleTx) = Ok h" using example_hash by blast
  from signed_tx_recovers_sender [OF example_key_pair _ this] show ?thesis by (simp add: exampleTx_def NewTx_def)
qed

text \<open>The types of the fork of a signer, the hash its signatures cover, and the largest S it takes.\<close>

fun supports :: "Signer \<Rightarrow> TxData \<Rightarrow> bool" where
  "supports _ (Legacy t) = True"
| "supports (EIP2930Signer c) (AccessListed t) = True"
| "supports (LondonSigner c) _ = True"
| "supports _ _ = False"

definition signedHash :: "(bytes \<Rightarrow> hash) \<Rightarrow> Signer \<Rightarrow> TxData \<Rightarrow> hash outcome" where
  "signedHash keccak s tx = (if Tx_Protected tx then Signer_Hash keccak s tx else FrontierSigner_Hash keccak tx)"

definition maxS :: "Signer \<Rightarrow> int" where
  "maxS s = (if s = FrontierSigner then secp256k1N - 1 else secp256k1N div 2)"

definition recovered :: "crypto \<Rightarrow> hash \<Rightarrow> int \<Rightarrow> int \<Rightarrow> address \<Rightarrow> bool" where
  "recovered C h R S a \<longleftrightarrow> (\<exists>v pub. (v = 0 \<or> v = 1) \<and>
     cr_Ecrecover C (hash_Bytes h) (LeftPadBytes (big_bytes R) 32 @ LeftPadBytes (big_bytes S) 32 @ [v]) = Inr pub \<and>
     a = PubkeyToAddress (cr_keccak256 C) pub)"

lemma recoverPlain_recovered:
  assumes "recoverPlain C h R S V hs = Inr a"
  shows "1 \<le> R \<and> R < secp256k1N \<and> 1 \<le> S \<and> S \<le> (if hs then secp256k1N div 2 else secp256k1N - 1) \<and> recovered C h R S a"
  using assms unfolding recoverPlain_def recovered_def Let_def ValidateSignatureValues_def
  by (auto simp: PubkeyToAddress_def split: if_splits sum.splits)

lemma bnd_OkE: "bnd x (\<lambda>h. Ok (f h)) = Ok y \<Longrightarrow> (\<And>h. x = Ok h \<Longrightarrow> y = f h \<Longrightarrow> P) \<Longrightarrow> P"
  by (cases x) auto

lemma Signer_Sender_sound:
  assumes "Signer_Sender C s tx = Ok (Inr a)" "rawSignatureValues tx = (V, R, S)"
  shows "supports s tx \<and> (\<forall>c. Tx_Protected tx \<and> Signer_ChainID s = Some c \<longrightarrow> Tx_ChainId tx = c) \<and>
    (\<exists>h V. signedHash (cr_keccak256 C) s tx = Ok h \<and> recoverPlain C h R S V (s \<noteq> FrontierSigner) = Inr a)"
  using assms by (cases tx; cases s)
    (auto simp: signedHash_def FrontierSigner_Sender_def HomesteadSigner_Sender_def EIP155Signer_Sender_def
      eip2930Signer_Sender_def londonSigner_Sender_def recoverAt_def londonSigner_Hash_def elim!: bnd_OkE split: if_splits)

definition cache_ok :: "crypto \<Rightarrow> Transaction \<Rightarrow> bool" where
  "cache_ok C tx \<longleftrightarrow> (\<forall>s a. t_from tx = Some (s, a) \<longrightarrow> Signer_Sender C s (t_inner tx) = Ok (Inr a))"

lemma Sender_transparent:
  assumes "cache_ok C tx" "Sender C s tx = Ok (tx', r)"
  shows "Signer_Sender C s (t_inner tx) = Ok r" "t_inner tx' = t_inner tx" "cache_ok C tx'" "r = Inl err \<Longrightarrow> tx' = tx"
proof -
  define derive where "derive = bnd (Signer_Sender C s (t_inner tx)) (\<lambda>r. case r of
    Inl err \<Rightarrow> Ok (tx, Inl err) | Inr addr \<Rightarrow> Ok (tx\<lparr>t_from := Some (s, addr)\<rparr>, Inr addr))"
  have c: "derive = Ok (tx', r) \<or> (\<exists>a. t_from tx = Some (s, a) \<and> tx' = tx \<and> r = Inr a)"
    using assms(2) unfolding Sender_def Let_def derive_def [symmetric] Signer_Equal_iff by (auto split: option.splits if_splits)
  have d: "Signer_Sender C s (t_inner tx) = Ok r \<and> (r = Inl err \<longrightarrow> tx' = tx) \<and> (tx' = tx \<or> (\<exists>a. r = Inr a \<and> tx' = tx\<lparr>t_from := Some (s, a)\<rparr>))"
    if "derive = Ok (tx', r)"
    using that unfolding derive_def by (cases "Signer_Sender C s (t_inner tx)") (auto split: sum.splits)
  have k: "Signer_Sender C s (t_inner tx) = Ok (Inr a)" if "t_from tx = Some (s, a)" for a
    using assms(1) that by (simp add: cache_ok_def)
  show e: "Signer_Sender C s (t_inner tx) = Ok r" using c d k by blast
  have "tx' = tx \<or> (\<exists>a. r = Inr a \<and> tx' = tx\<lparr>t_from := Some (s, a)\<rparr>)" using c d by blast
  then show "t_inner tx' = t_inner tx" "cache_ok C tx'" using assms(1) e by (auto simp: cache_ok_def)
  show "r = Inl err \<Longrightarrow> tx' = tx" using c d by blast
qed

text \<open>C12. A sender is authentic: whenever a signer returns the sender of a transaction, from the cache or not, the
  transaction is of a type of the signer's fork, it is an unprotected legacy transaction or for the signer's chain, R and S are
  in range, with S in the lower half of the order since Homestead, and the address is that of a key recovered from
  the signature over the hash of the transaction.  The cache stays consistent and does not change the result.\<close>

theorem sender_authentic:
  assumes "cache_ok C tx" "Sender C s tx = Ok (tx', r)" "rawSignatureValues (t_inner tx) = (V, R, S)"
  shows "cache_ok C tx' \<and> t_inner tx' = t_inner tx \<and> Signer_Sender C s (t_inner tx) = Ok r \<and>
    (case r of
       Inl err \<Rightarrow> tx' = tx
     | Inr a \<Rightarrow> supports s (t_inner tx) \<and>
         (\<forall>c. Tx_Protected (t_inner tx) \<and> Signer_ChainID s = Some c \<longrightarrow> Tx_ChainId (t_inner tx) = c) \<and>
         1 \<le> R \<and> R < secp256k1N \<and> 1 \<le> S \<and> S \<le> maxS s \<and>
         (\<exists>h. signedHash (cr_keccak256 C) s (t_inner tx) = Ok h \<and> recovered C h R S a))"
proof -
  note t = Sender_transparent [OF assms(1,2)]
  show ?thesis
  proof (cases r)
    case (Inr a)
    obtain h v where h: "signedHash (cr_keccak256 C) s (t_inner tx) = Ok h" "recoverPlain C h R S v (s \<noteq> FrontierSigner) = Inr a"
      and g: "supports s (t_inner tx)" "\<forall>c. Tx_Protected (t_inner tx) \<and> Signer_ChainID s = Some c \<longrightarrow> Tx_ChainId (t_inner tx) = c"
      using Signer_Sender_sound [OF t(1) [unfolded Inr] assms(3)] by blast
    have m: "S \<le> maxS s" if "S \<le> (if s \<noteq> FrontierSigner then secp256k1N div 2 else secp256k1N - 1)"
      using that unfolding maxS_def by presburger
    show ?thesis
      unfolding Inr sum.case using recoverPlain_recovered [OF h(2)] m h(1) g t(1-3) Inr by blast
  qed (use t in simp)
qed

theorem sender_authentic_witness:
  "\<exists>tx' tx'' a. SignTx signingCrypto (\<lambda>_ (_ :: nat). Inr exampleSignature) exampleTx (LondonSigner 1) 0 = Ok (Inr tx') \<and>
     Sender signingCrypto (LondonSigner 1) tx' = Ok (tx'', Inr a) \<and> cache_ok signingCrypto tx'' \<and> t_inner tx'' = t_inner tx'"
proof -
  obtain h where h: "Signer_Hash (cr_keccak256 signingCrypto) (LondonSigner 1) (t_inner exampleTx) = Ok h" using example_hash by blast
  have s: "signs (LondonSigner 1) (t_inner exampleTx)" by (simp add: exampleTx_def NewTx_def)
  have r: "cr_Ecrecover signingCrypto (hash_Bytes h) exampleSignature = Inr exampleKey" "length exampleKey = 65" "exampleKey ! 0 = 4"
    by (simp_all add: signingCrypto_def exampleKey_def)
  obtain inner where i: "WithSignature exampleTx (LondonSigner 1) exampleSignature = Ok (Inr \<lparr>t_inner = inner, t_from = None\<rparr>)"
    "Signer_Sender signingCrypto (LondonSigner 1) inner = Ok (Inr (PubkeyToAddress (cr_keccak256 signingCrypto) exampleKey))"
    using signed_sender [OF s h example_signature r] by blast
  let ?tx = "\<lparr>t_inner = inner, t_from = None\<rparr>" and ?a = "PubkeyToAddress (cr_keccak256 signingCrypto) exampleKey"
  have sg: "SignTx signingCrypto (\<lambda>_ (_ :: nat). Inr exampleSignature) exampleTx (LondonSigner 1) 0 = Ok (Inr ?tx)"
    using h i(1) by (simp add: SignTx_def)
  have sd: "Sender signingCrypto (LondonSigner 1) ?tx = Ok (?tx\<lparr>t_from := Some (LondonSigner 1, ?a)\<rparr>, Inr ?a)"
    using i(2) by (simp add: Sender_def)
  have co: "cache_ok signingCrypto ?tx" by (simp add: cache_ok_def)
  obtain V R S where "rawSignatureValues (t_inner ?tx) = (V, R, S)" by (cases "rawSignatureValues (t_inner ?tx)")
  from sender_authentic [OF co sd this] sg sd show ?thesis by blast
qed

end
