(* ===== verification/Spec2Isabelle.thy ===== *)
theory Spec2Isabelle
  imports RlpDecode TransitionEffects HeaderRules CliqueEffects TrieIntact Signing
begin

text \<open>
  Verification of the consensus core of the node: everything that decides what a block does to the state, as far as
  it does not depend on the network or on files.

  \<^bold>\<open>The program and its parts.\<close>  A transaction is signed and turned into a message; a message is a state transition that buys
  gas, runs the virtual machine and settles the account; the machine reads and writes the state database, whose journal
  undoes failed calls; the state database stores accounts, encoded in RLP, in a Merkle Patricia trie, whose root goes
  into the header; headers extend their parents by the rules of a consensus engine, proof of work or proof of authority.
  The theories follow this order from the bottom up.  A theory \<open>X\<close> holds the definitions of a component and a theory
  \<open>XEffects\<close> (or a name that says what it shows) the lemmas about it.

  \<^item> \<open>Prelude\<close>: machine words, byte strings, and the type \<open>outcome\<close> of a Go call, which returns (\<open>Ok\<close>), panics (\<open>Panic\<close>) or, in
    the model only, runs out of fuel (\<open>NoFuel\<close>).  A Go error is a value: \<open>Inl\<close> or \<open>Some\<close> of an error datatype.
  \<^item> \<open>Common\<close> (\<open>common/\<close>), \<open>Params\<close> (\<open>params/config.go\<close>): conversions and checked arithmetic; the forks of a chain, their
    rules, their order and the compatibility of two configurations.
  \<^item> \<open>Rlp\<close>, \<open>RlpEncode\<close>, \<open>RlpDecode\<close> (\<open>rlp/\<close>): the buffered encoder refines the recursive definition of RLP, the stream
    decoder inverts it, and on every input returns a value or an error without a panic.
  \<^item> \<open>AccessList\<close> (\<open>core/state/access_list.go\<close>), \<open>StateObject\<close>, \<open>StateDB\<close> (\<open>core/state/\<close>): accounts, storage caches, journal,
    snapshots, finalisation, roots and commit.  \<open>StateView\<close> says what a client can observe, \<open>StateRevert\<close> and
    \<open>StateSnapshot\<close> that every sequence of operations can be reverted, \<open>StateEffects\<close> what each setter changes.
  \<^item> \<open>TrieEncoding\<close>, \<open>Trie\<close>, \<open>TrieHash\<close> (\<open>trie/\<close>): key encodings, lookup, insertion, deletion and hashing on tries that are
    partly in memory.  \<open>TrieEffects\<close> and \<open>TrieStore\<close> show that a trie in canonical form is a finite map, \<open>TrieRoot\<close> and
    \<open>TrieIntact\<close> that its root hash is a function of the map, whatever is cached and whatever the history.
  \<^item> \<open>Uint256\<close>, \<open>VmBase\<close>, \<open>Precompiles\<close>, \<open>Evm\<close>, \<open>GasTable\<close>, \<open>Instructions\<close>, \<open>JumpTable\<close>, \<open>Interpreter\<close> (\<open>core/vm/\<close>): stack, memory,
    contracts, jump analysis, precompiled contracts, calls and creations, gas, every instruction, the tables of every fork
    up to London, and the interpreter loop.  \<open>JumpAnalysis\<close>, \<open>EvmEffects\<close>, \<open>GasEffects\<close>, \<open>OpEffects\<close>, \<open>TableEffects\<close>, \<open>RunEffects\<close>
    and \<open>Fuel\<close> build up what a run does; \<open>VmProperties\<close> states it: runs end, frames keep their limits, failed calls leave
    no trace, static calls change nothing, and no execution creates money.
  \<^item> \<open>StateTransition\<close>, \<open>TransitionEffects\<close> (\<open>core/state_transition.go\<close>, \<open>core/gaspool.go\<close>): the message as a transition, with exact
    accounts of its gas and its money.
  \<^item> \<open>Transaction\<close>, \<open>Signing\<close> (\<open>core/types/transaction*.go\<close>): the three types of transactions, their hashes and signers; a
    recovered sender is authentic, and signing round trips.
  \<^item> \<open>Consensus\<close>, \<open>ConsensusEffects\<close>, \<open>HeaderRules\<close> (\<open>core/types/block.go\<close>, \<open>consensus/misc/\<close>, \<open>consensus/ethash/\<close>): headers,
    difficulty in both arithmetics, gas limit, base fee, header verification and rewards.
  \<^item> \<open>Clique\<close>, \<open>CliqueEffects\<close> (\<open>consensus/clique/snapshot.go\<close>): votes on signers; the signers change by majorities only.

  \<^bold>\<open>How state and code correspond.\<close>  A struct is a record with prefixed field names, an operation a function that takes and
  returns the record.  Objects that Go shares through pointers are kept in the map that owns them and put back after an
  update.  Go maps visited in a loop are visited in an order that is an argument of the operation.  A method on a nil
  pointer, an index or slice out of range, \<open>make\<close> with an impossible length and an explicit panic are \<open>Panic\<close>; memory does not run out.  64-bit and 256-bit integers are words, \<open>big.Int\<close> is \<open>int\<close>.

  \<^bold>\<open>Interfaces.\<close>  The locale \<open>access_list_spec\<close> is the contract of the access list, \<open>instruction_table\<close> what the interpreter loop
  needs of an instruction table, and \<open>byte_store\<close> what the state relies on in a trie.  Each is interpreted on the
  definitions of the code: \<open>al\<close>, \<open>forks\<close>, and \<open>trie\<close> and \<open>genuine\<close>.

  \<^bold>\<open>Arguments and hypotheses.\<close>  The database behind the state (record \<open>backend\<close>), the library of 256-bit integers (record
  \<open>uint256\<close>, with its documented laws \<open>uint256_ok\<close>), hashes, curves and signatures (record \<open>crypto\<close>, and \<open>key_pair\<close> for signing)
  and the node database of the trie (\<open>nodes\<close>) are arguments.  Keccak is assumed free of collisions only where a
  theorem needs it, on addresses (\<open>addrHash_inj\<close>) or on the encodings of the nodes at hand.  The witnesses instantiate them with
  concrete functions.

  \<^bold>\<open>Fuel.\<close>  The interpreter loop takes one unit per iteration and per nested run; every iteration that does not end the run
  costs gas, so more fuel than gas is enough (\<open>VmProperties.Run_terminates\<close>), and more fuel does not change a result (\<open>Fuel\<close>).
  The recursion of the trie takes one unit per step, of which a step to a stored node resolves a reference; \<open>trieFuel\<close> gives
  enough for every key (\<open>TrieStore.trie_refines_map\<close>).  The loop of the RLP decoder over the elements of a list takes one unit per
  element, and each element consumes input, so one unit more than the length of the input is enough (\<open>RlpDecode.DecodeBytes_total\<close>).

  \<^bold>\<open>Not modelled.\<close>  The processing of blocks and the chain itself (\<open>core/state_processor.go\<close>, \<open>core/blockchain.go\<close>), receipts and
  bloom filters, the transaction pool, networking, synchronisation, light client, miner, RPC, account management and
  command line: they are concurrent input and output, or combine the operations above.  The proof-of-work function, the
  curves and hash functions are arguments.  The state snapshot tree, trie commit, proofs, iterators and the
  stack trie work on the disk database.  Decoding of transactions and headers is not modelled because it needs the pointer decoders of
  \<open>rlp\<close>, which are left out, as are interface and custom decoders, list arrays, and tail and optional struct fields.  Tracing and configured extra EIPs are off.
\<close>

end
